(* ===== verification/C_Base.thy ===== *)
theory C_Base
  imports Main "HOL-Library.Word" "HOL-Library.Monad_Syntax"
begin

text \<open>
  Conventions shared by every component theory.

  The code is C. What a C program can do beyond returning a value is made explicit:
  \<^item> an array is a list and a NULL array is the empty list; a read or a write outside
    the list has no defined result, so \<open>rd\<close> and \<open>wr\<close> return \<open>None\<close> there,
    and an operation of the model whose run meets such an access is \<open>None\<close> as a
    whole. "The result is \<open>Some r\<close>" is therefore a memory-safety statement too;
  \<^item> a pointer that the code compares with NULL is an \<open>option\<close>;
  \<^item> an allocation may fail: the outcomes of the coming calls of malloc, calloc and
    friends are a list of booleans that the operations consume (\<open>mem\<close>);
    past its end every allocation succeeds;
  \<^item> machine integers whose width matters are words.
\<close>

subsection \<open>Collections of facts\<close>

named_theorems c_defs \<open>definitions of the small C primitives\<close>
named_theorems c_access \<open>reads and writes of arrays inside their bounds\<close>

subsection \<open>Types\<close>

type_synonym u8 = "8 word"
type_synonym u16 = "16 word"
type_synonym u32 = "32 word"
type_synonym u64 = "64 word"

type_synonym mem = "bool list"

subsection \<open>Allocation\<close>

fun malloc :: "'a \<Rightarrow> mem \<Rightarrow> 'a option \<times> mem" where
  "malloc x [] = (Some x, [])"
| "malloc x (b # m) = (if b then Some x else None, m)"

lemma malloc_cases:
  obtains m' where "malloc x m = (Some x, m')" | m' where "malloc x m = (None, m')"
proof (cases m)
  case Nil
  then show thesis using that(1) by simp
next
  case (Cons b m')
  then show thesis using that by (cases b) simp_all
qed

lemma malloc_SomeD: "malloc x m = (Some y, m') \<Longrightarrow> y = x"
  by (cases "(x, m)" rule: malloc.cases) (auto split: if_splits)

lemma fst_malloc: "fst (malloc x m) = None \<or> fst (malloc x m) = Some x"
  by (cases m) auto

definition mem_ok :: "mem \<Rightarrow> bool" where
  "mem_ok m \<longleftrightarrow> list_all (\<lambda>b. b) m"

lemma mem_ok_Nil [simp]: "mem_ok []"
  by (simp add: mem_ok_def)

lemma mem_ok_tl: "mem_ok m \<Longrightarrow> mem_ok (tl m)"
  by (cases m) (simp_all add: mem_ok_def)

lemma malloc_ok [simp]: "mem_ok m \<Longrightarrow> malloc x m = (Some x, tl m)"
  by (cases m) (simp_all add: mem_ok_def)

subsection \<open>Arrays\<close>

definition rd :: "'a list \<Rightarrow> nat \<Rightarrow> 'a option" where
  "rd xs i = (if i < length xs then Some (xs ! i) else None)"

definition wr :: "'a list \<Rightarrow> nat \<Rightarrow> 'a \<Rightarrow> 'a list option" where
  "wr xs i x = (if i < length xs then Some (xs[i := x]) else None)"

lemma rd_in [simp, c_access]: "i < length xs \<Longrightarrow> rd xs i = Some (xs ! i)"
  by (simp add: rd_def)

lemma rd_out [simp]: "length xs \<le> i \<Longrightarrow> rd xs i = None"
  by (simp add: rd_def)

lemma rd_Some_iff: "rd xs i = Some x \<longleftrightarrow> i < length xs \<and> xs ! i = x"
  by (auto simp: rd_def)

lemma wr_in [simp, c_access]: "i < length xs \<Longrightarrow> wr xs i x = Some (xs[i := x])"
  by (simp add: wr_def)

lemma wr_out [simp]: "length xs \<le> i \<Longrightarrow> wr xs i x = None"
  by (simp add: wr_def)

lemma wr_Some_iff: "wr xs i x = Some ys \<longleftrightarrow> i < length xs \<and> ys = xs[i := x]"
  by (auto simp: wr_def)

lemma rd_wr: "wr xs i x = Some ys \<Longrightarrow> rd ys j = (if j = i then Some x else rd xs j)"
  by (auto simp: wr_Some_iff rd_def)

subsection \<open>Signed integers\<close>

text \<open>An \<open>int\<close> is a mathematical integer whose operations have no result outside the 32-bit range.\<close>

definition INT_MAX :: int where
  "INT_MAX = 2147483647"

definition c_int :: "int \<Rightarrow> int option" where
  "c_int v = (if - INT_MAX - 1 \<le> v \<and> v \<le> INT_MAX then Some v else None)"

lemma c_int_in [simp, c_access]: "0 \<le> v \<Longrightarrow> v \<le> INT_MAX \<Longrightarrow> c_int v = Some v"
  by (simp add: c_int_def INT_MAX_def)

subsection \<open>NUL-terminated strings\<close>

definition strlen :: "u8 list \<Rightarrow> nat option" where
  "strlen s = (if 0 \<in> set s then Some (length (takeWhile (\<lambda>c. c \<noteq> 0) s)) else None)"

lemma strlen_append [simp]: "0 \<notin> set s \<Longrightarrow> strlen (s @ 0 # r) = Some (length s)"
  by (induction s) (auto simp: strlen_def)

subsection \<open>Overlays of arrays\<close>

definition overlay :: "'a list \<Rightarrow> nat \<Rightarrow> 'a list \<Rightarrow> 'a list" where
  "overlay xs k ys = take k xs @ ys @ drop (k + length ys) xs"

lemma overlay_Nil [simp]: "overlay xs k [] = xs"
  by (simp add: overlay_def)

lemma length_overlay [simp]: "k + length ys \<le> length xs \<Longrightarrow> length (overlay xs k ys) = length xs"
  by (simp add: overlay_def)

lemma nth_overlay:
  assumes "k + length ys \<le> length xs" "i < length xs"
  shows "overlay xs k ys ! i = (if k \<le> i \<and> i < k + length ys then ys ! (i - k) else xs ! i)"
  using assms by (auto simp: overlay_def nth_append)

lemma overlay_full [simp]: "length ys = length xs \<Longrightarrow> overlay xs 0 ys = ys"
  by (simp add: overlay_def)

lemma overlay_snoc:
  assumes "k + length ys < length xs"
  shows "(overlay xs k ys)[k + length ys := y] = overlay xs k (ys @ [y])"
proof (rule nth_equalityI)
  show "length ((overlay xs k ys)[k + length ys := y]) = length (overlay xs k (ys @ [y]))"
    using assms by simp
  fix i assume "i < length ((overlay xs k ys)[k + length ys := y])"
  then show "(overlay xs k ys)[k + length ys := y] ! i = overlay xs k (ys @ [y]) ! i"
    using assms by (auto simp: nth_overlay nth_list_update nth_append less_Suc_eq)
qed

lemma take_overlay [simp]:
  "n \<le> k \<Longrightarrow> k \<le> length xs \<Longrightarrow> take n (overlay xs k ys) = take n xs"
  by (simp add: overlay_def min_absorb1)

text \<open>\<open>memcpy\<close> into an array, and the bytes that it reads.\<close>

definition memcpy :: "'a list \<Rightarrow> nat \<Rightarrow> 'a list \<Rightarrow> 'a list option" where
  "memcpy dst k src = (if k + length src \<le> length dst then Some (overlay dst k src) else None)"

definition slice :: "'a list \<Rightarrow> nat \<Rightarrow> nat \<Rightarrow> 'a list option" where
  "slice xs k n = (if k + n \<le> length xs then Some (take n (drop k xs)) else None)"

lemma memcpy_in [simp, c_access]: "k + length src \<le> length dst \<Longrightarrow> memcpy dst k src = Some (overlay dst k src)"
  by (simp add: memcpy_def)

lemma slice_in [simp, c_access]: "k + n \<le> length xs \<Longrightarrow> slice xs k n = Some (take n (drop k xs))"
  by (simp add: slice_def)

subsection \<open>Counting loops\<close>

text \<open>\<open>for (; i < n; i++)\<close> over a state, with a body that may have no defined result.\<close>

function for_up :: "nat \<Rightarrow> nat \<Rightarrow> (nat \<Rightarrow> 's \<Rightarrow> 's option) \<Rightarrow> 's \<Rightarrow> 's option" where
  "for_up i n body s = (if i < n then body i s \<bind> for_up (Suc i) n body else Some s)"
  by pat_completeness auto
termination by (relation "measure (\<lambda>(i, n, _). n - i)") auto

declare for_up.simps [simp del]

lemma for_up_done [simp]: "n \<le> i \<Longrightarrow> for_up i n body s = Some s"
  by (simp add: for_up.simps)

lemma for_up_step:
  "i < n \<Longrightarrow> for_up i n body s = body i s \<bind> for_up (Suc i) n body"
  by (simp add: for_up.simps[of i])

text \<open>A loop whose state at the head of iteration \<open>j\<close> is known to be \<open>g j\<close>.\<close>

lemma for_up_eq:
  assumes "i \<le> n" "\<And>j. i \<le> j \<Longrightarrow> j < n \<Longrightarrow> body j (g j) = Some (g (Suc j))"
  shows "for_up i n body (g i) = Some (g n)"
  using assms
proof (induction "n - i" arbitrary: i)
  case 0
  then show ?case by simp
next
  case (Suc k)
  then have "i < n" by simp
  moreover have "for_up (Suc i) n body (g (Suc i)) = Some (g n)"
    using Suc.hyps(2) Suc.prems by (intro Suc.hyps(1)) auto
  ultimately show ?case using Suc.prems by (simp add: for_up_step)
qed

text \<open>A loop that keeps an invariant.\<close>

lemma for_up_inv:
  assumes "i \<le> n" "I i s"
    "\<And>j s. i \<le> j \<Longrightarrow> j < n \<Longrightarrow> I j s \<Longrightarrow> \<exists>s'. body j s = Some s' \<and> I (Suc j) s'"
  shows "\<exists>s'. for_up i n body s = Some s' \<and> I n s'"
  using assms
proof (induction "n - i" arbitrary: i s)
  case 0
  then show ?case by simp
next
  case (Suc k)
  then have "i < n" by simp
  then obtain s' where s': "body i s = Some s'" "I (Suc i) s'" using Suc.prems by blast
  have "\<exists>s''. for_up (Suc i) n body s' = Some s'' \<and> I n s''"
    by (rule Suc.hyps(1)) (use Suc.hyps(2) Suc.prems s' \<open>i < n\<close> in \<open>auto dest: Suc_leD\<close>)
  then show ?case using \<open>i < n\<close> s' by (simp add: for_up_step)
qed

subsection \<open>Counting the elements of an updated list\<close>

lemma filter_update_count:
  assumes "i < length xs"
  shows "length (filter P (xs[i := x])) + (if P (xs ! i) then 1 else 0)
       = length (filter P xs) + (if P x then 1 else 0)"
  using assms
proof (induction xs arbitrary: i)
  case Nil
  then show ?case by simp
next
  case (Cons a xs)
  then show ?case by (cases i) auto
qed

subsection \<open>Characters of the C locale\<close>

definition isspace :: "char \<Rightarrow> bool" where
  "isspace c \<longleftrightarrow> c \<in> set [CHR '' '', CHR 0x09, CHR 0x0A, CHR 0x0B, CHR 0x0C, CHR 0x0D]"

definition isupper :: "char \<Rightarrow> bool" where
  "isupper c \<longleftrightarrow> 65 \<le> (of_char c :: nat) \<and> (of_char c :: nat) \<le> 90"

definition tolower :: "char \<Rightarrow> char" where
  "tolower c = (if isupper c then char_of (of_char c + 32 :: nat) else c)"

lemma of_char_tolower_upper:
  "isupper c \<Longrightarrow> (of_char (tolower c) :: nat) = of_char c + 32"
  by (simp add: tolower_def isupper_def)

lemma tolower_not_upper [simp]: "\<not> isupper (tolower c)"
proof (cases "isupper c")
  case True
  then have "(of_char (tolower c) :: nat) = of_char c + 32" "65 \<le> (of_char c :: nat)"
    by (simp_all add: of_char_tolower_upper) (simp add: isupper_def)
  then show ?thesis by (simp add: isupper_def)
qed (simp add: tolower_def)

lemma tolower_idem [simp]: "tolower (tolower c) = tolower c"
  using tolower_not_upper[of c] by (simp add: tolower_def)

lemma map_tolower_idem [simp]: "map tolower (map tolower s) = map tolower s"
  by simp

subsection \<open>The value of a signed char\<close>

text \<open>\<open>char\<close> is signed on the platforms of the build: a conversion to
  \<open>unsigned\<close> extends the sign.\<close>

definition uchar :: "char \<Rightarrow> u8" where
  "uchar c = of_nat (of_char c)"

definition schar_to_u32 :: "char \<Rightarrow> u32" where
  "schar_to_u32 c = scast (uchar c)"

lemma uchar_inj: "uchar a = uchar b \<Longrightarrow> a = b"
proof -
  assume "uchar a = uchar b"
  then have "unat (uchar a) = unat (uchar b)" by simp
  moreover have "unat (uchar c) = of_char c" for c
    by (simp add: uchar_def unat_of_nat)
  ultimately have "(of_char a :: nat) = of_char b" by simp
  then show ?thesis by simp
qed

end
