(* ===== verification/Word_Bytes.thy ===== *)
theory Word_Bytes
  imports C_Base
begin

text \<open>
  Words and their bytes, for the hash functions: numbers written low-order byte first, words read from
  four bytes, masks and carries.
\<close>

definition le_num :: "nat \<Rightarrow> nat \<Rightarrow> u8 list" where
  "le_num k n = map (\<lambda>j. of_nat (n div 256 ^ j)) [0..<k]"

lemma upt4: "[0..<4] = [0, 1, 2, 3 :: nat]"
  by (simp add: upt_rec)

lemma le_num4: "le_num 4 n = [of_nat n, of_nat (n div 2 ^ 8), of_nat (n div 2 ^ 16), of_nat (n div 2 ^ 24)]"
  by (simp add: le_num_def upt4)

lemma le_num_split: "le_num (j + k) n = le_num j n @ le_num k (n div 256 ^ j)"
  by (rule nth_equalityI) (auto simp: le_num_def nth_append div_mult2_eq[symmetric] power_add[symmetric])

lemma le_num_mod: "le_num 4 (n mod 2 ^ 32) = le_num 4 n"
proof -
  have "(of_nat (n mod 2 ^ 32 div 2 ^ k) :: u8) = of_nat (n div 2 ^ k)" if "k \<le> 24" for k
  proof -
    have "take_bit 8 (drop_bit k (take_bit 32 n)) = take_bit 8 (drop_bit k n)"
      using that by (auto intro!: bit_eqI simp: bit_simps)
    then show ?thesis by (simp add: word_unat_eq_iff unsigned_of_nat take_bit_eq_mod drop_bit_eq_div)
  qed
  from this[of 0] this[of 8] this[of 16] this[of 24] show ?thesis by (simp add: le_num4)
qed

lemma take4: "j + 4 \<le> length b \<Longrightarrow> take 4 (drop j b) = [b ! j, b ! (j + 1), b ! (j + 2), b ! (j + 3)]"
  by (rule nth_equalityI) (auto simp: nth_Cons split: nat.split, auto simp: numeral_eq_Suc)

lemma bit_word_rcat_iff:
  "bit (word_rcat (ws :: 'b::len word list) :: 'a::len word) n \<longleftrightarrow>
     n < LENGTH('a) \<and> n div LENGTH('b) < length ws \<and> bit (rev ws ! (n div LENGTH('b))) (n mod LENGTH('b))"
  by (simp add: word_rcat_def bit_word_of_int_iff bit_horner_sum_uint_exp_iff)

lemma le_word_bits:
  "word_rcat [d, c, b, a :: u8] = (or (or (or (ucast a) (push_bit 8 (ucast b))) (push_bit 16 (ucast c))) (push_bit 24 (ucast d)) :: u32)"
proof (rule bit_word_eqI)
  fix i assume "i < LENGTH(32)"
  then have i: "i < 32" by simp
  have lim: "\<not> bit x j" if "8 \<le> j" for x :: u8 and j using that by (auto dest: bit_imp_le_length)
  consider "i < 8" | "8 \<le> i \<and> i < 16" | "16 \<le> i \<and> i < 24" | "24 \<le> i" by linarith
  then show "bit (word_rcat [d, c, b, a] :: u32) i
      = bit (or (or (or (ucast a) (push_bit 8 (ucast b))) (push_bit 16 (ucast c))) (push_bit 24 (ucast d)) :: u32) i"
  proof cases
    case 1
    then show ?thesis using i by (simp add: bit_word_rcat_iff bit_simps)
  next
    case 2
    then have "i div 8 = 1" "i mod 8 = i - 8" by presburger+
    then show ?thesis using 2 lim i by (auto simp: bit_word_rcat_iff bit_simps)
  next
    case 3
    then have "i div 8 = 2" "i mod 8 = i - 16" by presburger+
    then show ?thesis using 3 lim i by (auto simp: bit_word_rcat_iff bit_simps)
  next
    case 4
    then have "i div 8 = 3" "i mod 8 = i - 24" using i by presburger+
    then show ?thesis using 4 i lim by (auto simp: bit_word_rcat_iff bit_simps numeral_3_eq_3)
  qed
qed

lemma ucast_byte: "ucast (drop_bit k w :: u32) = (of_nat (unat w div 2 ^ k) :: u8)"
proof -
  have "unat (drop_bit k w) = unat w div 2 ^ k" by (subst unat_drop_bit_eq) (rule drop_bit_eq_div)
  then show ?thesis by (metis of_nat_unat)
qed

lemma and_63: "unat (and w 0x3F) = unat w mod 64" for w :: "'a::len word"
proof -
  have "(0x3F :: 'a word) = mask 6" by (simp add: mask_eq_exp_minus_1)
  then have "and w 0x3F = take_bit 6 w" by (simp only: take_bit_eq_mask)
  then have "unat (and w 0x3F) = take_bit 6 (unat w)" by (simp only: unsigned_take_bit_eq)
  then show ?thesis by (simp add: take_bit_eq_mod)
qed

lemma carry_div:
  fixes a b M :: nat assumes "0 < M"
  shows "(a + b) div M = a div M + b div M + (if (a + b) mod M < b mod M then 1 else 0)"
proof -
  have small: "a mod M < M" "b mod M < M" using assms by simp_all
  have sum: "(a + b) mod M = (a mod M + b mod M) mod M" by (simp add: mod_add_eq)
  have "(x + y) div M = (if (x + y) mod M < y then 1 else 0)" if "x < M" "y < M" for x y
  proof (cases "x + y < M")
    case False
    then have "(x + y) div M = 1" "(x + y) mod M = x + y - M"
      using that by (simp_all add: div_if mod_if)
    then show ?thesis using that False by simp
  qed simp
  from this[OF small] have "(a mod M + b mod M) div M = (if (a + b) mod M < b mod M then 1 else 0)"
    by (simp only: sum)
  then show ?thesis by (simp add: div_add1_eq[of a b M])
qed

end
