(* ===== verification/Dictionary.thy ===== *)
theory Dictionary
  imports C_Base
begin

text \<open>
  The string dictionary of the ini parser: src/src/File/ParserIni/dictionary.c and .h.

  A dictionary is three parallel arrays of \<open>size\<close> slots (value, key, hash of the key)
  and the number \<open>n\<close> of used slots; a slot is free when its key is NULL. Searching is a
  scan of all the slots, insertion probes from slot \<open>n\<close> and wraps around, and the arrays
  double when all the slots are used. The lemmas show that under the representation
  invariant the three operations never leave the arrays, always return and act as
  lookup, update and removal of the finite map that the used slots describe. Counts are
  natural numbers: the source keeps them in int, which holds any size that the three
  arrays can have in practice (\<open>2 ^ 31\<close> slots would need more than 40 gigabytes).
\<close>

subsection \<open>The structure\<close>

record dictionary =
  dict_n :: nat
  dict_size :: nat
  dict_val :: "string option list"
  dict_key :: "string option list"
  dict_hash :: "u32 list"

text \<open>A \<open>char *\<close> that a search returns: NULL, the sentinel \<open>(char * )-1\<close> or a string.\<close>

datatype str_ptr = Null | Invalid_Key | Str string

definition ptr_of :: "string option \<Rightarrow> str_ptr" where
  "ptr_of v = (case v of None \<Rightarrow> Null | Some s \<Rightarrow> Str s)"

subsection \<open>Hashing\<close>

fun hash_loop :: "u32 \<Rightarrow> string \<Rightarrow> u32" where
  "hash_loop h [] = h"
| "hash_loop h (c # cs) =
     (let h1 = h + schar_to_u32 c;
          h2 = h1 + push_bit 10 h1;
          h3 = Bit_Operations.xor h2 (drop_bit 6 h2)
      in hash_loop h3 cs)"

definition dictionary_hash :: "string \<Rightarrow> u32" where
  "dictionary_hash key =
     (let h0 = hash_loop 0 key;
          h1 = h0 + push_bit 3 h0;
          h2 = Bit_Operations.xor h1 (drop_bit 11 h1)
      in h2 + push_bit 15 h2)"

subsection \<open>Allocation\<close>

text \<open>\<open>mem_double\<close>: \<open>sz\<close> counts the elements of the array here, the source counts bytes.
  The new half is zero (\<open>z\<close>). A NULL result replaces the old array.\<close>

definition mem_double :: "'a \<Rightarrow> 'a list \<Rightarrow> nat \<Rightarrow> mem \<Rightarrow> ('a list \<times> mem) option" where
  "mem_double z xs sz m =
     (case malloc () m of
        (None, m') \<Rightarrow> Some ([], m')
      | (Some _, m') \<Rightarrow>
          if sz \<le> length xs then Some (take sz xs @ replicate sz z, m') else None)"

definition xstrdup :: "string option \<Rightarrow> mem \<Rightarrow> string option \<times> mem" where
  "xstrdup s m = (case s of None \<Rightarrow> (None, m) | Some t \<Rightarrow> malloc t m)"

definition calloc_array :: "'a \<Rightarrow> nat \<Rightarrow> mem \<Rightarrow> 'a list \<times> mem" where
  "calloc_array z sz m =
     (case malloc (replicate sz z) m of (None, m') \<Rightarrow> ([], m') | (Some xs, m') \<Rightarrow> (xs, m'))"

definition DICTMINSZ :: nat where "DICTMINSZ = 128"

definition dictionary_new :: "nat \<Rightarrow> mem \<Rightarrow> dictionary option \<times> mem" where
  "dictionary_new sz m =
     (let sz = (if sz < DICTMINSZ then DICTMINSZ else sz) in
      case malloc () m of
        (None, m) \<Rightarrow> (None, m)
      | (Some _, m) \<Rightarrow>
          let (vs, m) = calloc_array None sz m;
              (ks, m) = calloc_array None sz m;
              (hs, m) = calloc_array 0 sz m
          in (Some \<lparr>dict_n = 0, dict_size = sz, dict_val = vs, dict_key = ks, dict_hash = hs\<rparr>, m))"

subsection \<open>Search\<close>

text \<open>The loop that \<open>dictionary_get\<close>, \<open>dictionary_set\<close> and \<open>dictionary_unset\<close> share:
  the first slot from \<open>i\<close> on that holds the key, or \<open>size\<close> when there is none.\<close>

function dict_scan :: "dictionary \<Rightarrow> string \<Rightarrow> u32 \<Rightarrow> nat \<Rightarrow> nat option" where
  "dict_scan d key hash i =
     (if i < dict_size d then
        case rd (dict_key d) i of
          None \<Rightarrow> None
        | Some None \<Rightarrow> dict_scan d key hash (Suc i)
        | Some (Some k) \<Rightarrow>
            (case rd (dict_hash d) i of
               None \<Rightarrow> None
             | Some h \<Rightarrow> if hash = h \<and> key = k then Some i else dict_scan d key hash (Suc i))
      else Some i)"
  by pat_completeness auto
termination by (relation "measure (\<lambda>(d, key, hash, i). dict_size d - i)") auto

declare dict_scan.simps [simp del]

definition dictionary_get :: "dictionary \<Rightarrow> string \<Rightarrow> str_ptr \<Rightarrow> str_ptr option" where
  "dictionary_get d key dflt =
     do {
       i \<leftarrow> dict_scan d key (dictionary_hash key) 0;
       if i < dict_size d then map_option ptr_of (rd (dict_val d) i) else Some dflt
     }"

subsection \<open>Insertion\<close>

text \<open>The probe for a free slot; \<open>None\<close> also stands for a probe that never ends.\<close>

partial_function (option) first_free :: "dictionary \<Rightarrow> nat \<Rightarrow> nat option" where
  "first_free d i =
     (case rd (dict_key d) i of
        None \<Rightarrow> None
      | Some None \<Rightarrow> Some i
      | Some (Some _) \<Rightarrow> first_free d (if Suc i = dict_size d then 0 else Suc i))"

declare first_free.simps [code]

text \<open>The growth step: the new structure, and whether it succeeded.\<close>

definition dict_grow :: "dictionary \<Rightarrow> mem \<Rightarrow> (bool \<times> dictionary \<times> mem) option" where
  "dict_grow d m =
     (if dict_n d = dict_size d then
        do {
          (vs, m) \<leftarrow> mem_double None (dict_val d) (dict_size d) m;
          (ks, m) \<leftarrow> mem_double None (dict_key d) (dict_size d) m;
          (hs, m) \<leftarrow> mem_double 0 (dict_hash d) (dict_size d) m;
          let d = d\<lparr>dict_val := vs, dict_key := ks, dict_hash := hs\<rparr>;
          if vs = [] \<or> ks = [] \<or> hs = [] then Some (False, d, m)
          else Some (True, d\<lparr>dict_size := dict_size d * 2\<rparr>, m)
        }
      else Some (True, d, m))"

definition dict_insert ::
  "dictionary \<Rightarrow> string \<Rightarrow> u32 \<Rightarrow> string option \<Rightarrow> mem \<Rightarrow> (dictionary \<times> mem) option" where
  "dict_insert d key hash val m =
     do {
       i \<leftarrow> first_free d (dict_n d);
       let (k, m) = xstrdup (Some key) m;
       ks \<leftarrow> wr (dict_key d) i k;
       let (v, m) = xstrdup val m;
       vs \<leftarrow> wr (dict_val d) i v;
       hs \<leftarrow> wr (dict_hash d) i hash;
       Some (d\<lparr>dict_key := ks, dict_val := vs, dict_hash := hs, dict_n := Suc (dict_n d)\<rparr>, m)
     }"

definition dictionary_set ::
  "dictionary option \<Rightarrow> string option \<Rightarrow> string option \<Rightarrow> mem
     \<Rightarrow> (int \<times> dictionary option \<times> mem) option" where
  "dictionary_set dp keyp val m =
     (case (dp, keyp) of
        (Some d, Some key) \<Rightarrow>
          do {
            let hash = dictionary_hash key;
            i \<leftarrow> (if 0 < dict_n d then dict_scan d key hash 0 else Some (dict_size d));
            if i < dict_size d then
              do {
                _ \<leftarrow> rd (dict_val d) i;
                let (v, m) = xstrdup val m;
                vs \<leftarrow> wr (dict_val d) i v;
                Some (0, Some (d\<lparr>dict_val := vs\<rparr>), m)
              }
            else
              do {
                (ok, d, m) \<leftarrow> dict_grow d m;
                if ok then
                  do {
                    (d, m) \<leftarrow> dict_insert d key hash val m;
                    Some (0, Some d, m)
                  }
                else Some (- 1, Some d, m)
              }
          }
      | _ \<Rightarrow> Some (- 1, dp, m))"

subsection \<open>Removal and release\<close>

definition dictionary_unset :: "dictionary \<Rightarrow> string option \<Rightarrow> dictionary option" where
  "dictionary_unset d keyp =
     (case keyp of
        None \<Rightarrow> Some d
      | Some key \<Rightarrow>
          do {
            i \<leftarrow> dict_scan d key (dictionary_hash key) 0;
            if dict_size d \<le> i then Some d
            else
              do {
                ks \<leftarrow> wr (dict_key d) i None;
                v \<leftarrow> rd (dict_val d) i;
                vs \<leftarrow> (if v \<noteq> None then wr (dict_val d) i None else Some (dict_val d));
                hs \<leftarrow> wr (dict_hash d) i 0;
                Some (d\<lparr>dict_key := ks, dict_val := vs, dict_hash := hs, dict_n := dict_n d - 1\<rparr>)
              }
          })"

text \<open>The lines that \<open>dictionary_dump\<close> prints: the message for an empty dictionary, or the
  key and the text of each used slot. A NULL dictionary prints nothing.\<close>

datatype dump_line = Empty_Dictionary | Dump_Line string string

function dump_loop :: "dictionary \<Rightarrow> nat \<Rightarrow> dump_line list option" where
  "dump_loop d i =
     (if i < dict_size d then
        case rd (dict_key d) i of
          None \<Rightarrow> None
        | Some None \<Rightarrow> dump_loop d (Suc i)
        | Some (Some k) \<Rightarrow>
            (case rd (dict_val d) i of
               None \<Rightarrow> None
             | Some v \<Rightarrow>
                 map_option ((#) (Dump_Line k (case v of None \<Rightarrow> ''UNDEF'' | Some s \<Rightarrow> s)))
                   (dump_loop d (Suc i)))
      else Some [])"
  by pat_completeness auto
termination by (relation "measure (\<lambda>(d, i). dict_size d - i)") auto

declare dump_loop.simps [simp del]

definition dictionary_dump :: "dictionary option \<Rightarrow> dump_line list option" where
  "dictionary_dump dp =
     (case dp of
        None \<Rightarrow> Some []
      | Some d \<Rightarrow> if dict_n d < 1 then Some [Empty_Dictionary] else dump_loop d 0)"

text \<open>\<open>dictionary_del\<close>: the strings that it frees, in order; the three arrays and the
  structure go after them.\<close>

function del_loop :: "dictionary \<Rightarrow> nat \<Rightarrow> string list option" where
  "del_loop d i =
     (if i < dict_size d then
        do {
          k \<leftarrow> rd (dict_key d) i;
          v \<leftarrow> rd (dict_val d) i;
          rest \<leftarrow> del_loop d (Suc i);
          Some ((case k of None \<Rightarrow> [] | Some s \<Rightarrow> [s]) @ (case v of None \<Rightarrow> [] | Some s \<Rightarrow> [s]) @ rest)
        }
      else Some [])"
  by pat_completeness auto
termination by (relation "measure (\<lambda>(d, i). dict_size d - i)") auto

declare del_loop.simps [simp del]

definition dictionary_del :: "dictionary option \<Rightarrow> string list option" where
  "dictionary_del dp = (case dp of None \<Rightarrow> Some [] | Some d \<Rightarrow> del_loop d 0)"

subsection \<open>Representation invariant and abstraction\<close>

text \<open>The dictionary stands for the finite map from its keys to their (nullable) values.\<close>

definition dict_map :: "dictionary \<Rightarrow> string \<rightharpoonup> string option" where
  "dict_map d k = map_of (zip (dict_key d) (dict_val d)) (Some k)"

definition dict_wf :: "dictionary \<Rightarrow> bool" where
  "dict_wf d \<longleftrightarrow>
     0 < dict_size d \<and>
     length (dict_val d) = dict_size d \<and> length (dict_key d) = dict_size d \<and>
     length (dict_hash d) = dict_size d \<and>
     dict_n d = length (filter (\<lambda>k. k \<noteq> None) (dict_key d)) \<and>
     (\<forall>i < dict_size d. \<forall>k. dict_key d ! i = Some k \<longrightarrow> dict_hash d ! i = dictionary_hash k) \<and>
     (\<forall>i < dict_size d. \<forall>j < dict_size d. \<forall>k.
        dict_key d ! i = Some k \<longrightarrow> dict_key d ! j = Some k \<longrightarrow> i = j)"

lemma dict_wf_lengths:
  assumes "dict_wf d"
  shows "length (dict_val d) = dict_size d" "length (dict_key d) = dict_size d"
    "length (dict_hash d) = dict_size d" "0 < dict_size d"
  using assms by (simp_all add: dict_wf_def)

lemma dict_wf_hash:
  "dict_wf d \<Longrightarrow> i < dict_size d \<Longrightarrow> dict_key d ! i = Some k \<Longrightarrow> dict_hash d ! i = dictionary_hash k"
  by (simp add: dict_wf_def)

lemma dict_wf_unique:
  "dict_wf d \<Longrightarrow> i < dict_size d \<Longrightarrow> j < dict_size d \<Longrightarrow>
   dict_key d ! i = Some k \<Longrightarrow> dict_key d ! j = Some k \<Longrightarrow> i = j"
  by (simp add: dict_wf_def)

lemma map_of_zip_unique:
  assumes "length ks = length vs" "j < length ks" "\<And>i. i < length ks \<Longrightarrow> ks ! i = ks ! j \<Longrightarrow> i = j"
  shows "map_of (zip ks vs) (ks ! j) = Some (vs ! j)"
  using assms
proof (induction ks vs arbitrary: j rule: list_induct2)
  case Nil
  then show ?case by simp
next
  case (Cons k ks v vs)
  show ?case
  proof (cases j)
    case 0
    then show ?thesis by simp
  next
    case (Suc j')
    with Cons.prems(2)[of 0] have "k \<noteq> ks ! j'" by auto
    moreover have "map_of (zip ks vs) (ks ! j') = Some (vs ! j')"
    proof (rule Cons.IH)
      show "j' < length ks" using Cons.prems(1) Suc by simp
      show "i = j'" if "i < length ks" "ks ! i = ks ! j'" for i
        using Cons.prems(2)[of "Suc i"] that Suc by simp
    qed
    ultimately show ?thesis using Suc by simp
  qed
qed

lemma dict_map_at:
  assumes "dict_wf d" "j < dict_size d" "dict_key d ! j = Some k"
  shows "dict_map d k = Some (dict_val d ! j)"
proof -
  have "map_of (zip (dict_key d) (dict_val d)) (dict_key d ! j) = Some (dict_val d ! j)"
    using assms dict_wf_lengths[OF assms(1)]
    by (intro map_of_zip_unique) (auto intro: dict_wf_unique)
  with assms(3) show ?thesis by (simp add: dict_map_def)
qed

lemma dict_map_absent:
  assumes "dict_wf d" "\<And>j. j < dict_size d \<Longrightarrow> dict_key d ! j \<noteq> Some k"
  shows "dict_map d k = None"
proof -
  have "Some k \<notin> set (dict_key d)"
    using assms dict_wf_lengths[OF assms(1)] by (auto simp: in_set_conv_nth)
  then show ?thesis
    using dict_wf_lengths[OF assms(1)] by (simp add: dict_map_def)
qed

lemma dict_map_Some_iff:
  assumes "dict_wf d"
  shows "dict_map d k = Some v \<longleftrightarrow> (\<exists>j < dict_size d. dict_key d ! j = Some k \<and> dict_val d ! j = v)"
  using dict_map_at[OF assms] dict_map_absent[OF assms] by (metis option.distinct(1) option.inject)

lemma dict_map_eqI:
  assumes "dict_wf d"
    and "\<And>k v. m k = Some v \<longleftrightarrow> (\<exists>j < dict_size d. dict_key d ! j = Some k \<and> dict_val d ! j = v)"
  shows "dict_map d = m"
proof
  fix k
  show "dict_map d k = m k"
  proof (cases "m k")
    case None
    then have "dict_map d k \<noteq> Some v" for v
      using assms(2)[of k v] dict_map_Some_iff[OF assms(1)] by simp
    with None show ?thesis by (metis option.exhaust)
  next
    case (Some v)
    then have "\<exists>j < dict_size d. dict_key d ! j = Some k \<and> dict_val d ! j = v"
      by (simp only: assms(2))
    then have "dict_map d k = Some v" by (simp only: dict_map_Some_iff[OF assms(1)])
    with Some show ?thesis by simp
  qed
qed

subsection \<open>The scan\<close>

lemma dict_scan_first:
  assumes "j < dict_size d" "dict_size d \<le> length (dict_key d)" "dict_size d \<le> length (dict_hash d)"
    and "dict_key d ! j = Some k" "dict_hash d ! j = h"
    and "\<And>i. i < j \<Longrightarrow> dict_key d ! i \<noteq> Some k" "i \<le> j"
  shows "dict_scan d k h i = Some j"
  using assms(7)
proof (induction "j - i" arbitrary: i)
  case 0
  then have "i = j" by simp
  with assms show ?case by (subst dict_scan.simps) simp
next
  case (Suc n)
  then have "i < j" by simp
  then have "dict_key d ! i \<noteq> Some k" by (rule assms(6))
  moreover have "dict_scan d k h (Suc i) = Some j" using Suc by simp
  ultimately show ?case
    using \<open>i < j\<close> assms(1-3) by (subst dict_scan.simps) (auto split: option.split)
qed

lemma dict_scan_found:
  assumes "dict_wf d" "j < dict_size d" "dict_key d ! j = Some k" "i \<le> j"
  shows "dict_scan d k (dictionary_hash k) i = Some j"
proof (rule dict_scan_first)
  show "dict_key d ! i \<noteq> Some k" if "i < j" for i
    using dict_wf_unique[OF assms(1), of i j k] assms that by auto
qed (use assms in \<open>simp_all add: dict_wf_lengths dict_wf_hash\<close>)

lemma dict_scan_missing:
  assumes "dict_wf d" "\<And>j. j < dict_size d \<Longrightarrow> dict_key d ! j \<noteq> Some k" "i \<le> dict_size d"
  shows "dict_scan d k (dictionary_hash k) i = Some (dict_size d)"
  using assms(3)
proof (induction "dict_size d - i" arbitrary: i)
  case 0
  then show ?case by (subst dict_scan.simps) simp
next
  case (Suc n)
  then have i: "i < dict_size d" "Suc i \<le> dict_size d" by simp_all
  then have "dict_scan d k (dictionary_hash k) (Suc i) = Some (dict_size d)"
    using Suc by simp
  with i show ?case
    using assms(1) assms(2)[OF i(1)]
    by (subst dict_scan.simps) (auto simp: dict_wf_lengths split: option.split)
qed

subsection \<open>The probe for a free slot\<close>

lemma first_free_up:
  assumes "length (dict_key d) = dict_size d" "f < dict_size d" "dict_key d ! f = None" "i \<le> f"
  shows "\<exists>j < dict_size d. first_free d i = Some j \<and> dict_key d ! j = None"
  using assms(4)
proof (induction "f - i" arbitrary: i)
  case 0
  then have "i = f" by simp
  with assms show ?case by (subst first_free.simps) simp
next
  case (Suc n)
  then have "i < f" by simp
  show ?case
  proof (cases "dict_key d ! i")
    case None
    with \<open>i < f\<close> assms show ?thesis by (subst first_free.simps) simp
  next
    case (Some k)
    have "first_free d i = first_free d (Suc i)"
      using \<open>i < f\<close> assms(1,2) Some by (subst first_free.simps) simp
    moreover have "\<exists>j < dict_size d. first_free d (Suc i) = Some j \<and> dict_key d ! j = None"
      using Suc by simp
    ultimately show ?thesis by simp
  qed
qed

lemma first_free_total:
  assumes "length (dict_key d) = dict_size d" "f < dict_size d" "dict_key d ! f = None" "i < dict_size d"
  shows "\<exists>j < dict_size d. first_free d i = Some j \<and> dict_key d ! j = None"
  using assms(4)
proof (induction "dict_size d - i" arbitrary: i)
  case 0
  then show ?case by simp
next
  case (Suc n)
  show ?case
  proof (cases "dict_key d ! i")
    case None
    with Suc.prems assms(1) show ?thesis by (subst first_free.simps) simp
  next
    case (Some k)
    show ?thesis
    proof (cases "Suc i = dict_size d")
      case True
      then have "first_free d i = first_free d 0"
        using Suc.prems assms(1) Some by (subst first_free.simps) simp
      then show ?thesis using first_free_up[OF assms(1-3), of 0] by simp
    next
      case False
      then have "first_free d i = first_free d (Suc i)"
        using Suc.prems assms(1) Some by (subst first_free.simps) simp
      moreover have "\<exists>j < dict_size d. first_free d (Suc i) = Some j \<and> dict_key d ! j = None"
        using Suc False by simp
      ultimately show ?thesis by simp
    qed
  qed
qed

lemma filter_full: "length (filter P xs) = length xs \<Longrightarrow> i < length xs \<Longrightarrow> P (xs ! i)"
  by (metis filter_id_conv length_filter_less nth_mem order_less_irrefl)

lemma free_slot_exists:
  assumes "dict_wf d" "dict_n d < dict_size d"
  obtains f where "f < dict_size d" "dict_key d ! f = None"
proof -
  have "\<exists>k \<in> set (dict_key d). \<not> k \<noteq> None"
  proof (rule ccontr)
    assume "\<not> ?thesis"
    then have "filter (\<lambda>k. k \<noteq> None) (dict_key d) = dict_key d" by (intro filter_True) blast
    with assms show False by (simp add: dict_wf_def)
  qed
  then show thesis
    using that dict_wf_lengths[OF assms(1)] by (auto simp: in_set_conv_nth)
qed

subsection \<open>What the three mutations do to the representation\<close>

lemma ex_slot_split: "i < n \<Longrightarrow> (\<exists>j < n. P j) \<longleftrightarrow> P i \<or> (\<exists>j < n. j \<noteq> i \<and> P j)" for n :: nat
  by metis

lemma dict_map_Some_off:
  assumes "dict_wf d" "i < dict_size d" "dict_key d ! i \<noteq> Some k"
  shows "(\<exists>j < dict_size d. j \<noteq> i \<and> dict_key d ! j = Some k \<and> dict_val d ! j = v)
    \<longleftrightarrow> dict_map d k = Some v"
  using assms(3) by (auto simp: dict_map_Some_iff[OF assms(1)])

lemma dict_wf_update_val:
  assumes "dict_wf d" "i < dict_size d" "dict_key d ! i = Some k"
  shows "dict_wf (d\<lparr>dict_val := (dict_val d)[i := v]\<rparr>)"
    and "dict_map (d\<lparr>dict_val := (dict_val d)[i := v]\<rparr>) = (dict_map d)(k \<mapsto> v)"
proof -
  let ?d = "d\<lparr>dict_val := (dict_val d)[i := v]\<rparr>"
  show wf: "dict_wf ?d" using assms(1) by (simp add: dict_wf_def)
  show "dict_map ?d = (dict_map d)(k \<mapsto> v)"
  proof (rule dict_map_eqI[OF wf])
    fix k' v'
    have "(\<exists>j < dict_size ?d. dict_key ?d ! j = Some k' \<and> dict_val ?d ! j = v')
      \<longleftrightarrow> (k = k' \<and> v = v') \<or> (\<exists>j < dict_size d. j \<noteq> i \<and> dict_key d ! j = Some k' \<and> dict_val d ! j = v')"
      using assms(2,3) dict_wf_lengths[OF assms(1)]
      by (subst ex_slot_split[of i]) (simp_all cong: conj_cong)
    also have "\<dots> \<longleftrightarrow> ((dict_map d)(k \<mapsto> v)) k' = Some v'"
      using dict_wf_unique[OF assms(1,2)] assms(3) dict_map_Some_off[OF assms(1,2), of k'] by auto
    finally show "((dict_map d)(k \<mapsto> v)) k' = Some v'
      \<longleftrightarrow> (\<exists>j < dict_size ?d. dict_key ?d ! j = Some k' \<and> dict_val ?d ! j = v')" by simp
  qed
qed

lemma dict_wf_insert:
  fixes v :: "string option"
  assumes "dict_wf d" "i < dict_size d" "dict_key d ! i = None"
    and fresh: "\<And>j. j < dict_size d \<Longrightarrow> dict_key d ! j \<noteq> Some k"
  defines "d' \<equiv> d\<lparr>dict_key := (dict_key d)[i := Some k], dict_val := (dict_val d)[i := v],
                 dict_hash := (dict_hash d)[i := dictionary_hash k], dict_n := Suc (dict_n d)\<rparr>"
  shows "dict_wf d'" and "dict_map d' = (dict_map d)(k \<mapsto> v)"
proof -
  note len = dict_wf_lengths[OF assms(1)]
  have n: "Suc (dict_n d) = length (filter (\<lambda>k. k \<noteq> None) ((dict_key d)[i := Some k]))"
    using filter_update_count[of i "dict_key d" "\<lambda>k. k \<noteq> None" "Some k"] assms len
    by (simp add: dict_wf_def)
  show wf: "dict_wf d'"
    unfolding dict_wf_def d'_def
    using len n fresh assms(2) dict_wf_hash[OF assms(1)] dict_wf_unique[OF assms(1)]
    by (simp add: nth_list_update) metis
  show "dict_map d' = (dict_map d)(k \<mapsto> v)"
  proof (rule dict_map_eqI[OF wf])
    fix k' v'
    have "(\<exists>j < dict_size d'. dict_key d' ! j = Some k' \<and> dict_val d' ! j = v')
      \<longleftrightarrow> (k = k' \<and> v = v') \<or> (\<exists>j < dict_size d. j \<noteq> i \<and> dict_key d ! j = Some k' \<and> dict_val d ! j = v')"
      using assms(2) len unfolding d'_def
      by (subst ex_slot_split[of i]) (simp_all cong: conj_cong)
    also have "\<dots> \<longleftrightarrow> ((dict_map d)(k \<mapsto> v)) k' = Some v'"
      using fresh assms(3) dict_map_Some_off[OF assms(1,2), of k'] by auto
    finally show "((dict_map d)(k \<mapsto> v)) k' = Some v'
      \<longleftrightarrow> (\<exists>j < dict_size d'. dict_key d' ! j = Some k' \<and> dict_val d' ! j = v')" by simp
  qed
qed

lemma dict_wf_remove:
  assumes "dict_wf d" "i < dict_size d" "dict_key d ! i = Some k"
  defines "d' \<equiv> d\<lparr>dict_key := (dict_key d)[i := None], dict_val := (dict_val d)[i := None],
                 dict_hash := (dict_hash d)[i := 0], dict_n := dict_n d - 1\<rparr>"
  shows "dict_wf d'" and "dict_map d' = (dict_map d)(k := None)"
proof -
  note len = dict_wf_lengths[OF assms(1)]
  have n: "dict_n d - 1 = length (filter (\<lambda>k. k \<noteq> None) ((dict_key d)[i := None]))"
    using filter_update_count[of i "dict_key d" "\<lambda>k. k \<noteq> None" None] assms len
    by (simp add: dict_wf_def)
  show wf: "dict_wf d'"
    unfolding dict_wf_def d'_def
    using len n assms(2) dict_wf_hash[OF assms(1)] dict_wf_unique[OF assms(1)]
    by (auto simp: nth_list_update split: if_splits)
  show "dict_map d' = (dict_map d)(k := None)"
  proof (rule dict_map_eqI[OF wf])
    fix k' v'
    have "(\<exists>j < dict_size d'. dict_key d' ! j = Some k' \<and> dict_val d' ! j = v')
      \<longleftrightarrow> (\<exists>j < dict_size d. j \<noteq> i \<and> dict_key d ! j = Some k' \<and> dict_val d ! j = v')"
      using assms(2) len unfolding d'_def
      by (subst ex_slot_split[of i]) (simp_all cong: conj_cong)
    also have "\<dots> \<longleftrightarrow> ((dict_map d)(k := None)) k' = Some v'"
      using dict_wf_unique[OF assms(1,2)] assms(3) dict_map_Some_off[OF assms(1,2), of k'] by auto
    finally show "((dict_map d)(k := None)) k' = Some v'
      \<longleftrightarrow> (\<exists>j < dict_size d'. dict_key d' ! j = Some k' \<and> dict_val d' ! j = v')" by simp
  qed
qed

subsection \<open>The operations implement the finite map\<close>

lemma dictionary_new_ok:
  assumes "mem_ok m"
  obtains d m' where "dictionary_new sz m = (Some d, m')" "dict_wf d" "dict_map d = Map.empty" "mem_ok m'"
proof -
  define n where "n = (if sz < DICTMINSZ then DICTMINSZ else sz)"
  define d where "d = \<lparr>dict_n = 0, dict_size = n, dict_val = replicate n None, dict_key = replicate n None,
    dict_hash = replicate n 0\<rparr>"
  have "dictionary_new sz m = (Some d, tl (tl (tl (tl m))))"
    using assms
    by (simp add: dictionary_new_def calloc_array_def d_def n_def mem_ok_tl)
  moreover have wf: "dict_wf d"
    by (simp add: dict_wf_def d_def n_def DICTMINSZ_def)
  moreover have "dict_map d = Map.empty"
    by (rule dict_map_eqI[OF wf]) (auto simp: d_def)
  moreover have "mem_ok (tl (tl (tl (tl m))))" using assms by (simp add: mem_ok_tl)
  ultimately show thesis using that by blast
qed

lemma dictionary_get_map:
  assumes "dict_wf d"
  shows "dictionary_get d k dflt = Some (case dict_map d k of None \<Rightarrow> dflt | Some v \<Rightarrow> ptr_of v)"
proof (cases "\<exists>j < dict_size d. dict_key d ! j = Some k")
  case True
  then obtain j where "j < dict_size d" "dict_key d ! j = Some k" by blast
  with assms show ?thesis
    by (simp add: dictionary_get_def dict_scan_found dict_map_at dict_wf_lengths)
next
  case False
  then have "\<And>j. j < dict_size d \<Longrightarrow> dict_key d ! j \<noteq> Some k" by blast
  with assms show ?thesis
    by (simp add: dictionary_get_def dict_scan_missing dict_map_absent)
qed

lemma dict_n_le: "dict_wf d \<Longrightarrow> dict_n d \<le> dict_size d"
  unfolding dict_wf_def by (metis length_filter_le)

lemma dict_wf_absent:
  assumes "dict_wf d" "dict_map d k = None" "j < dict_size d"
  shows "dict_key d ! j \<noteq> Some k"
  using assms dict_map_at by fastforce

lemma xstrdup_ok [simp]: "mem_ok m \<Longrightarrow> \<exists>m'. xstrdup s m = (s, m') \<and> mem_ok m'"
  by (cases s) (simp_all add: xstrdup_def mem_ok_tl)

lemma dict_insert_ok:
  assumes wf: "dict_wf d" and n: "dict_n d < dict_size d" and new: "dict_map d k = None" and m: "mem_ok m"
  shows "\<exists>d' m'. dict_insert d k (dictionary_hash k) v m = Some (d', m') \<and> dict_wf d'
           \<and> dict_map d' = (dict_map d)(k \<mapsto> v) \<and> mem_ok m'"
proof -
  obtain f where "f < dict_size d" "dict_key d ! f = None"
    using free_slot_exists[OF wf n] .
  then obtain i where i: "i < dict_size d" "first_free d (dict_n d) = Some i" "dict_key d ! i = None"
    using first_free_total n dict_wf_lengths[OF wf] by blast
  obtain m1 where m1: "xstrdup (Some k) m = (Some k, m1)" "mem_ok m1" using m xstrdup_ok by blast
  obtain m2 where m2: "xstrdup v m1 = (v, m2)" "mem_ok m2" using m1 xstrdup_ok by blast
  show ?thesis
    using i m1 m2 dict_wf_lengths[OF wf] dict_wf_insert[OF wf i(1) i(3) dict_wf_absent[OF wf new]]
    by (simp add: dict_insert_def)
qed

lemma nth_append_replicate_None:
  "i < length xs + n \<Longrightarrow> (xs @ replicate n None) ! i = Some k \<longleftrightarrow> i < length xs \<and> xs ! i = Some k"
  by (auto simp: nth_append)

lemma dict_grow_ok:
  assumes wf: "dict_wf d" and m: "mem_ok m"
  shows "\<exists>d' m'. dict_grow d m = Some (True, d', m') \<and> dict_wf d' \<and> dict_map d' = dict_map d
           \<and> dict_n d' < dict_size d' \<and> mem_ok m'"
proof (cases "dict_n d = dict_size d")
  case False
  with wf m dict_n_le[OF wf] show ?thesis by (simp add: dict_grow_def)
next
  case True
  note len = dict_wf_lengths[OF wf]
  let ?n = "dict_size d"
  define d' where "d' = d\<lparr>dict_val := dict_val d @ replicate ?n None, dict_key := dict_key d @ replicate ?n None,
    dict_hash := dict_hash d @ replicate ?n 0, dict_size := ?n * 2\<rparr>"
  have grow: "dict_grow d m = Some (True, d', tl (tl (tl m)))"
    using True m len by (auto simp: dict_grow_def mem_double_def d'_def mem_ok_tl)
  have wf': "dict_wf d'"
    unfolding dict_wf_def d'_def
    using len wf dict_wf_hash[OF wf] dict_wf_unique[OF wf]
    by (auto simp: nth_append_replicate_None dict_wf_def nth_append)
  have "dict_map d' = dict_map d"
  proof (rule dict_map_eqI[OF wf'])
    fix k v
    show "dict_map d k = Some v \<longleftrightarrow> (\<exists>j < dict_size d'. dict_key d' ! j = Some k \<and> dict_val d' ! j = v)"
      using len by (auto simp: dict_map_Some_iff[OF wf] d'_def nth_append intro: less_le_trans)
  qed
  moreover have "dict_n d' < dict_size d'" using True len by (simp add: d'_def)
  ultimately show ?thesis using grow wf' m by (simp add: mem_ok_tl)
qed

lemma dict_n_pos:
  assumes "dict_wf d" "i < dict_size d" "dict_key d ! i = Some k"
  shows "0 < dict_n d"
proof -
  have "Some k \<in> set (filter (\<lambda>k. k \<noteq> None) (dict_key d))"
    using assms(2,3) dict_wf_lengths[OF assms(1)] by (auto simp: in_set_conv_nth)
  then show ?thesis using assms(1) unfolding dict_wf_def by (metis length_pos_if_in_set)
qed

lemma dictionary_set_ok:
  assumes wf: "dict_wf d" and m: "mem_ok m"
  shows "\<exists>d' m'. dictionary_set (Some d) (Some k) v m = Some (0, Some d', m') \<and> dict_wf d'
           \<and> dict_map d' = (dict_map d)(k \<mapsto> v) \<and> mem_ok m'"
proof (cases "dict_map d k")
  case None
  then have scan: "dict_scan d k (dictionary_hash k) 0 = Some (dict_size d)"
    by (intro dict_scan_missing[OF wf dict_wf_absent[OF wf]]) simp_all
  obtain d1 m1 where 1: "dict_grow d m = Some (True, d1, m1)" "dict_wf d1" "dict_map d1 = dict_map d"
    "dict_n d1 < dict_size d1" "mem_ok m1"
    using dict_grow_ok[OF wf m] by blast
  then obtain d2 m2 where "dict_insert d1 k (dictionary_hash k) v m1 = Some (d2, m2)" "dict_wf d2"
    "dict_map d2 = (dict_map d)(k \<mapsto> v)" "mem_ok m2"
    using dict_insert_ok[OF 1(2) 1(4) _ 1(5), of k v] None by auto
  with 1 scan show ?thesis by (simp add: dictionary_set_def Let_def)
next
  case (Some v0)
  then obtain i where i: "i < dict_size d" "dict_key d ! i = Some k"
    using dict_map_Some_iff[OF wf] by blast
  then have scan: "dict_scan d k (dictionary_hash k) 0 = Some i"
    by (intro dict_scan_found[OF wf]) simp_all
  have "0 < dict_n d" using dict_n_pos[OF wf i] .
  moreover obtain m1 where "xstrdup v m = (v, m1)" "mem_ok m1" using m xstrdup_ok by blast
  ultimately show ?thesis
    using scan i dict_wf_lengths[OF wf] dict_wf_update_val[OF wf i]
    by (simp add: dictionary_set_def Let_def)
qed

lemma dictionary_unset_ok:
  assumes wf: "dict_wf d"
  shows "\<exists>d'. dictionary_unset d (Some k) = Some d' \<and> dict_wf d' \<and> dict_map d' = (dict_map d)(k := None)"
proof (cases "dict_map d k")
  case None
  then have "dict_scan d k (dictionary_hash k) 0 = Some (dict_size d)"
    by (intro dict_scan_missing[OF wf dict_wf_absent[OF wf]]) simp_all
  with wf None show ?thesis by (auto simp: dictionary_unset_def fun_upd_idem)
next
  case (Some v0)
  then obtain i where i: "i < dict_size d" "dict_key d ! i = Some k"
    using dict_map_Some_iff[OF wf] by blast
  then have scan: "dict_scan d k (dictionary_hash k) 0 = Some i"
    by (intro dict_scan_found[OF wf]) simp_all
  have "(if dict_val d ! i \<noteq> None then wr (dict_val d) i None else Some (dict_val d))
      = Some ((dict_val d)[i := None])"
    using i dict_wf_lengths[OF wf] list_update_id[of "dict_val d" i] by (cases "dict_val d ! i") simp_all
  with scan i show ?thesis
    using dict_wf_lengths[OF wf] dict_wf_remove[OF wf i] by (simp add: dictionary_unset_def)
qed

subsection \<open>The contract of a string map\<close>

text \<open>What a client of the dictionary relies on, for any implementation whose keys are
  compared up to a normal form \<open>norm\<close>: in a state where the allocations succeed, the
  operations return, keep the representation valid and act on the map \<open>entries\<close>.\<close>

locale string_map =
  fixes valid :: "'d \<Rightarrow> bool"
    and entries :: "'d \<Rightarrow> string \<rightharpoonup> string option"
    and norm :: "string \<Rightarrow> string"
    and get :: "'d \<Rightarrow> string \<Rightarrow> str_ptr \<Rightarrow> str_ptr option"
    and put :: "'d \<Rightarrow> string \<Rightarrow> string option \<Rightarrow> mem \<Rightarrow> ('d \<times> mem) option"
    and del :: "'d \<Rightarrow> string \<Rightarrow> 'd option"
  assumes get_law: "valid d \<Longrightarrow>
      get d k dflt = Some (case entries d (norm k) of None \<Rightarrow> dflt | Some v \<Rightarrow> ptr_of v)"
    and put_law: "valid d \<Longrightarrow> mem_ok m \<Longrightarrow>
      \<exists>d' m'. put d k v m = Some (d', m') \<and> valid d' \<and> entries d' = (entries d)(norm k \<mapsto> v) \<and> mem_ok m'"
    and del_law: "valid d \<Longrightarrow>
      \<exists>d'. del d k = Some d' \<and> valid d' \<and> entries d' = (entries d)(norm k := None)"

text \<open>A history of updates, run on an implementation and on the map.\<close>

datatype map_op = Put string "string option" | Del string

fun run_ops ::
  "('d \<Rightarrow> string \<Rightarrow> string option \<Rightarrow> mem \<Rightarrow> ('d \<times> mem) option) \<Rightarrow> ('d \<Rightarrow> string \<Rightarrow> 'd option)
     \<Rightarrow> map_op list \<Rightarrow> 'd \<Rightarrow> mem \<Rightarrow> ('d \<times> mem) option" where
  "run_ops put del [] d m = Some (d, m)"
| "run_ops put del (Put k v # ops) d m =
     (case put d k v m of None \<Rightarrow> None | Some (d, m) \<Rightarrow> run_ops put del ops d m)"
| "run_ops put del (Del k # ops) d m =
     (case del d k of None \<Rightarrow> None | Some d \<Rightarrow> run_ops put del ops d m)"

fun map_ops :: "(string \<Rightarrow> string) \<Rightarrow> map_op list \<Rightarrow> (string \<rightharpoonup> string option) \<Rightarrow> (string \<rightharpoonup> string option)" where
  "map_ops norm [] e = e"
| "map_ops norm (Put k v # ops) e = map_ops norm ops (e(norm k \<mapsto> v))"
| "map_ops norm (Del k # ops) e = map_ops norm ops (e(norm k := None))"

context string_map
begin

lemma run_ops_refine:
  assumes "valid d" "mem_ok m"
  shows "\<exists>d' m'. run_ops put del ops d m = Some (d', m') \<and> valid d'
           \<and> entries d' = map_ops norm ops (entries d) \<and> mem_ok m'"
  using assms
proof (induction ops arbitrary: d m)
  case Nil
  then show ?case by simp
next
  case (Cons op ops)
  show ?case
  proof (cases op)
    case (Put k v)
    obtain d1 m1 where 1: "put d k v m = Some (d1, m1)" "valid d1" "mem_ok m1"
      "entries d1 = (entries d)(norm k \<mapsto> v)"
      using put_law[OF Cons.prems] by blast
    from Cons.IH[OF 1(2,3)] show ?thesis by (simp add: Put 1(1) flip: 1(4))
  next
    case (Del k)
    obtain d1 where 1: "del d k = Some d1" "valid d1" "entries d1 = (entries d)(norm k := None)"
      using del_law[OF Cons.prems(1)] by blast
    from Cons.IH[OF 1(2) Cons.prems(2)] show ?thesis by (simp add: Del 1(1) flip: 1(3))
  qed
qed

lemma get_after_run:
  assumes "valid d" "mem_ok m"
  shows "\<exists>d' m'. run_ops put del ops d m = Some (d', m') \<and> mem_ok m' \<and>
    (\<forall>k dflt. get d' k dflt
       = Some (case map_ops norm ops (entries d) (norm k) of None \<Rightarrow> dflt | Some v \<Rightarrow> ptr_of v))"
proof -
  obtain d' m' where 1: "run_ops put del ops d m = Some (d', m')" "valid d'"
    "entries d' = map_ops norm ops (entries d)" "mem_ok m'"
    using run_ops_refine[OF assms] by blast
  with get_law[OF 1(2)] show ?thesis by simp
qed

lemma get_put:
  assumes "valid d" "mem_ok m" "put d k v m = Some (d', m')"
  shows "get d' k' dflt = (if norm k' = norm k then Some (ptr_of v) else get d k' dflt)"
  using put_law[OF assms(1,2), of k v] assms(1,3) by (auto simp: get_law)

end

text \<open>The dictionary is such a map, with keys compared as they are.\<close>

definition dict_put :: "dictionary \<Rightarrow> string \<Rightarrow> string option \<Rightarrow> mem \<Rightarrow> (dictionary \<times> mem) option" where
  "dict_put d k v m =
     (case dictionary_set (Some d) (Some k) v m of Some (_, Some d', m') \<Rightarrow> Some (d', m') | _ \<Rightarrow> None)"

definition dict_del :: "dictionary \<Rightarrow> string \<Rightarrow> dictionary option" where
  "dict_del d k = dictionary_unset d (Some k)"

interpretation dict: string_map dict_wf dict_map "\<lambda>k. k" dictionary_get dict_put dict_del
proof unfold_locales
  show "\<exists>d' m'. dict_put d k v m = Some (d', m') \<and> dict_wf d' \<and> dict_map d' = (dict_map d)(k \<mapsto> v) \<and> mem_ok m'"
    if "dict_wf d" "mem_ok m" for d m k v
    using dictionary_set_ok[OF that, of k v] by (auto simp: dict_put_def)
qed (simp_all add: dictionary_get_map dictionary_unset_ok dict_del_def)

subsection \<open>Properties\<close>

text \<open>C2: Every history of insertions, updates and removals on a new dictionary of any initial
  size returns (no probe loops for ever, no slot outside the arrays is touched, growth
  included), and a search afterwards finds exactly what the same history leaves in a
  finite map, a key set to NULL being found with the value NULL.\<close>

theorem dictionary_history:
  assumes "mem_ok m"
  shows "\<exists>d0 m0 d m'. dictionary_new sz m = (Some d0, m0)
    \<and> run_ops dict_put dict_del ops d0 m0 = Some (d, m')
    \<and> (\<forall>k dflt. dictionary_get d k dflt
         = Some (case map_ops (\<lambda>k. k) ops Map.empty k of None \<Rightarrow> dflt | Some v \<Rightarrow> ptr_of v))"
proof -
  obtain d0 m0 where new: "dictionary_new sz m = (Some d0, m0)" "dict_wf d0" "dict_map d0 = Map.empty" "mem_ok m0"
    using dictionary_new_ok[OF assms] .
  obtain d m' where "run_ops dict_put dict_del ops d0 m0 = Some (d, m')"
    "\<forall>k dflt. dictionary_get d k dflt
       = Some (case map_ops (\<lambda>k. k) ops (dict_map d0) k of None \<Rightarrow> dflt | Some v \<Rightarrow> ptr_of v)"
    using dict.get_after_run[OF new(2,4)] by blast
  with new show ?thesis by auto
qed

lemma dictionary_history_witness:
  "\<exists>d0 m0 d m'. dictionary_new 0 [True, True] = (Some d0, m0)
    \<and> run_ops dict_put dict_del [Put ''a'' (Some ''1''), Put ''b'' None, Put ''a'' (Some ''2''), Del ''b''] d0 m0 = Some (d, m')
    \<and> dictionary_get d ''a'' Null = Some (Str ''2'') \<and> dictionary_get d ''b'' Invalid_Key = Some Invalid_Key"
  using dictionary_history[of "[True, True]" 0
      "[Put ''a'' (Some ''1''), Put ''b'' None, Put ''a'' (Some ''2''), Del ''b'']"]
  by (auto simp: mem_ok_def ptr_of_def fun_upd_def)

text \<open>Further result: When the growth of a full dictionary fails at its first allocation, the insertion
  reports -1 but has lost the value array: the structure still says that it has its keys,
  and every later search for one of them reads through a NULL array.\<close>

theorem dictionary_set_failed_growth:
  assumes wf: "dict_wf d" and full: "dict_n d = dict_size d" and new: "dict_map d k = None"
  shows "\<exists>d' m'. dictionary_set (Some d) (Some k) v [False] = Some (- 1, Some d', m')
    \<and> dict_val d' = [] \<and> (\<forall>k' dflt. dict_map d k' \<noteq> None \<longrightarrow> dictionary_get d' k' dflt = None)"
proof -
  note len = dict_wf_lengths[OF wf]
  let ?n = "dict_size d"
  define d' where "d' = d\<lparr>dict_val := [], dict_key := dict_key d @ replicate ?n None,
    dict_hash := dict_hash d @ replicate ?n 0\<rparr>"
  have scan: "dict_scan d k (dictionary_hash k) 0 = Some ?n"
    by (intro dict_scan_missing[OF wf dict_wf_absent[OF wf new]]) simp_all
  have "dictionary_set (Some d) (Some k) v [False] = Some (- 1, Some d', [])"
    using full len scan by (simp add: dictionary_set_def dict_grow_def mem_double_def d'_def)
  moreover have "dictionary_get d' k' dflt = None" if old: "dict_map d k' \<noteq> None" for k' dflt
  proof -
    obtain i where i: "i < ?n" "dict_key d ! i = Some k'"
      using old dict_map_Some_iff[OF wf] by blast
    have "dict_scan d' k' (dictionary_hash k') 0 = Some i"
    proof (rule dict_scan_first)
      show "dict_key d' ! j \<noteq> Some k'" if "j < i" for j
        using dict_wf_unique[OF wf, of j i k'] i that len by (auto simp: d'_def nth_append)
    qed (use i len dict_wf_hash[OF wf i] in \<open>simp_all add: d'_def nth_append\<close>)
    then show ?thesis using i by (simp add: dictionary_get_def d'_def)
  qed
  ultimately show ?thesis by (simp add: d'_def)
qed

definition dict_one :: dictionary where
  "dict_one = \<lparr>dict_n = 1, dict_size = 1, dict_val = [Some ''v''], dict_key = [Some ''k''],
               dict_hash = [dictionary_hash ''k'']\<rparr>"

lemma dict_one_wf: "dict_wf dict_one" "dict_map dict_one = [''k'' \<mapsto> Some ''v'']"
    "dict_n dict_one = dict_size dict_one"
  by (simp_all add: dict_wf_def dict_one_def dict_map_def fun_eq_iff)

lemma dictionary_set_failed_growth_witness:
  "\<exists>d' m'. dictionary_set (Some dict_one) (Some ''new'') (Some ''x'') [False] = Some (- 1, Some d', m')
    \<and> dictionary_get d' ''k'' Null = None"
  using dictionary_set_failed_growth[OF dict_one_wf(1), of "''new''" "Some ''x''"]
  by (fastforce simp: dict_one_wf(2,3))

text \<open>Further result: When the copy of the value cannot be allocated, an update reports success and
  leaves the key with the value NULL.\<close>

theorem dictionary_set_lost_value:
  assumes wf: "dict_wf d" and old: "dict_map d k = Some w"
  shows "\<exists>d'. dictionary_set (Some d) (Some k) (Some s) (False # m) = Some (0, Some d', m)
    \<and> dict_wf d' \<and> dict_map d' = (dict_map d)(k \<mapsto> None)"
proof -
  obtain i where i: "i < dict_size d" "dict_key d ! i = Some k"
    using old dict_map_Some_iff[OF wf] by blast
  have scan: "dict_scan d k (dictionary_hash k) 0 = Some i"
    using dict_scan_found[OF wf i] by simp
  have "0 < dict_n d" using dict_n_pos[OF wf i] .
  with scan i dict_wf_lengths[OF wf] dict_wf_update_val[OF wf i, of None] show ?thesis
    by (simp add: dictionary_set_def Let_def xstrdup_def)
qed

lemma dictionary_set_lost_value_witness:
  "\<exists>d'. dictionary_set (Some dict_one) (Some ''k'') (Some ''new'') [False] = Some (0, Some d', [])
    \<and> dict_map d' ''k'' = Some None"
  using dictionary_set_lost_value[OF dict_one_wf(1), of "''k''" "Some ''v''" "''new''" "[]"]
  by (auto simp: dict_one_wf(2))

end
