(* ===== verification/Ini_Parser.thy ===== *)
theory Ini_Parser
  imports Dictionary
begin

text \<open>
  The ini file parser, the client of the dictionary: src/src/File/ParserIni/iniparser.c.

  A section \<open>[s]\<close> is the dictionary key \<open>s\<close> with a NULL value, an entry \<open>k = v\<close> of it
  is the key \<open>s:k\<close>. The file is the string of its bytes, the output of the dump functions
  is the string they print. \<open>sscanf\<close> is modelled by the three kinds of directives that the
  parser's formats use, with the capacity of each destination buffer, so that a result
  other than \<open>None\<close> says that no scan overruns a buffer.
\<close>

subsection \<open>Strings\<close>

definition strlwc :: "string \<Rightarrow> string" where
  "strlwc s = map tolower s"

definition strstrip :: "string \<Rightarrow> string" where
  "strstrip s = (let t = dropWhile isspace s in rev (dropWhile isspace (rev t)))"

datatype line_status =
  LINE_UNPROCESSED | LINE_ERROR | LINE_EMPTY | LINE_COMMENT | LINE_SECTION | LINE_VALUE

subsection \<open>The directives of the scan formats\<close>

datatype scan_dir = Blank | Lit char | Span "char \<Rightarrow> bool"

fun sscanf :: "scan_dir list \<Rightarrow> string \<Rightarrow> string list" where
  "sscanf [] s = []"
| "sscanf (Blank # ds) s = sscanf ds (dropWhile isspace s)"
| "sscanf (Lit c # ds) s = (case s of [] \<Rightarrow> [] | c' # s' \<Rightarrow> if c' = c then sscanf ds s' else [])"
| "sscanf (Span P # ds) s =
     (if takeWhile P s = [] then [] else takeWhile P s # sscanf ds (dropWhile P s))"

text \<open>A scan into buffers of the given capacities, the terminator included.\<close>

definition sscanf_into :: "nat list \<Rightarrow> scan_dir list \<Rightarrow> string \<Rightarrow> string list option" where
  "sscanf_into caps fmt s =
     (let r = sscanf fmt s in
      if list_all (\<lambda>(t, cap). length t < cap) (zip r caps) then Some r else None)"

definition fmt_section :: "scan_dir list" where
  "fmt_section = [Lit CHR ''['', Span (\<lambda>c. c \<noteq> CHR '']'')]"
definition fmt_dquoted :: "scan_dir list" where
  "fmt_dquoted = [Span (\<lambda>c. c \<noteq> CHR ''=''), Blank, Lit CHR ''='', Blank, Lit CHR 0x22,
                  Span (\<lambda>c. c \<noteq> CHR 0x22), Lit CHR 0x22]"
definition fmt_squoted :: "scan_dir list" where
  "fmt_squoted = [Span (\<lambda>c. c \<noteq> CHR ''=''), Blank, Lit CHR ''='', Blank, Lit CHR 0x27,
                  Span (\<lambda>c. c \<noteq> CHR 0x27), Lit CHR 0x27]"
definition fmt_plain :: "scan_dir list" where
  "fmt_plain = [Span (\<lambda>c. c \<noteq> CHR ''=''), Blank, Lit CHR ''='', Blank,
                Span (\<lambda>c. c \<noteq> CHR '';'' \<and> c \<noteq> CHR ''#'')]"
definition fmt_comment :: "scan_dir list" where
  "fmt_comment = [Span (\<lambda>c. c \<noteq> CHR ''=''), Blank, Lit CHR ''='', Blank,
                  Span (\<lambda>c. c = CHR '';'' \<or> c = CHR ''#'')]"
definition fmt_empty :: "scan_dir list" where
  "fmt_empty = [Span (\<lambda>c. c \<noteq> CHR ''=''), Blank, Span (\<lambda>c. c = CHR ''='')]"

text \<open>A disjunction \<open>sscanf (\<dots>) == 2 || sscanf (\<dots>) == 2 || \<dots>\<close>: the formats are tried in
  turn until one assigns both buffers.\<close>

fun sscanf_first :: "nat list \<Rightarrow> scan_dir list list \<Rightarrow> string \<Rightarrow> (string \<times> string) option option" where
  "sscanf_first caps [] s = Some None"
| "sscanf_first caps (f # fs) s =
     (case sscanf_into caps f s of
        None \<Rightarrow> None
      | Some [k, v] \<Rightarrow> Some (Some (k, v))
      | Some _ \<Rightarrow> sscanf_first caps fs s)"

subsection \<open>One line\<close>

text \<open>The outputs \<open>section_out\<close>, \<open>key_out\<close> and \<open>value_out\<close>: what the line assigns.\<close>

record line_out =
  lo_status :: line_status
  lo_section :: "string option"
  lo_key :: "string option"
  lo_value :: "string option"

definition line_result :: "line_status \<Rightarrow> line_out" where
  "line_result s = \<lparr>lo_status = s, lo_section = None, lo_key = None, lo_value = None\<rparr>"

definition equals_at :: "string \<Rightarrow> nat option" where
  "equals_at s = (let n = length (takeWhile (\<lambda>c. c \<noteq> CHR ''='') s) in if n < length s then Some n else None)"

definition parse_line :: "string \<Rightarrow> nat \<Rightarrow> nat \<Rightarrow> line_out option" where
  "parse_line line kcap vcap =
     (if length line < 1 then Some (line_result LINE_EMPTY)
      else if hd line = CHR ''#'' \<or> hd line = CHR '';'' then Some (line_result LINE_COMMENT)
      else if hd line = CHR ''['' \<and> last line = CHR '']'' then
        do {
          r \<leftarrow> sscanf_into [kcap] fmt_section line;
          let key = (case r of [] \<Rightarrow> '''' | k # _ \<Rightarrow> k);
          Some ((line_result LINE_SECTION)\<lparr>lo_section := Some (strlwc (strstrip key))\<rparr>)
        }
      else if equals_at line = None then Some (line_result LINE_ERROR)
      else
        do {
          r1 \<leftarrow> sscanf_first [kcap, vcap] [fmt_dquoted, fmt_squoted, fmt_plain] line;
          case r1 of
            Some (key, val) \<Rightarrow>
              let val = strstrip val;
                  val = (if val = [CHR 0x22, CHR 0x22] \<or> val = [CHR 0x27, CHR 0x27] then '''' else val)
              in Some ((line_result LINE_VALUE)\<lparr>lo_key := Some (strlwc (strstrip key)), lo_value := Some val\<rparr>)
          | None \<Rightarrow>
              do {
                r2 \<leftarrow> sscanf_first [kcap, vcap] [fmt_comment, fmt_empty] line;
                case r2 of
                  Some (key, _) \<Rightarrow>
                    Some ((line_result LINE_VALUE)\<lparr>lo_key := Some (strlwc (strstrip key)), lo_value := Some ''''\<rparr>)
                | None \<Rightarrow> Some (line_result LINE_ERROR)
              }
        })"

definition iniparser_line :: "nat \<Rightarrow> string \<Rightarrow> mem \<Rightarrow> (line_out \<times> mem) option" where
  "iniparser_line line_size input_line m =
     (case malloc () m of
        (None, m) \<Rightarrow> Some (line_result LINE_ERROR, m)
      | (Some _, m) \<Rightarrow>
          if line_size \<le> length input_line then None
          else
            let line = strstrip input_line; len = length line in
            case equals_at line of
              Some e \<Rightarrow>
                (case malloc () m of
                   (value, m) \<Rightarrow>
                     (case malloc () m of
                        (key, m) \<Rightarrow>
                          if value = None then None
                          else if key = None then Some (line_result LINE_ERROR, m)
                          else map_option (\<lambda>r. (r, m)) (parse_line line (e + 1) (len - e + 1))))
            | None \<Rightarrow>
                (case malloc () m of
                   (None, m) \<Rightarrow> Some (line_result LINE_ERROR, m)
                 | (Some _, m) \<Rightarrow> map_option (\<lambda>r. (r, m)) (parse_line line (line_size + 1) 0)))"

subsection \<open>Queries\<close>

definition iniparser_getstring :: "dictionary option \<Rightarrow> string option \<Rightarrow> str_ptr \<Rightarrow> mem \<Rightarrow> (str_ptr \<times> mem) option" where
  "iniparser_getstring dp keyp dflt m =
     (case (dp, keyp) of
        (Some d, Some key) \<Rightarrow>
          (case xstrdup (Some key) m of
             (None, m) \<Rightarrow> None
           | (Some k, m) \<Rightarrow> map_option (\<lambda>p. (p, m)) (dictionary_get d (strlwc k) dflt))
      | _ \<Rightarrow> Some (dflt, m))"

definition iniparser_find_entry :: "dictionary option \<Rightarrow> string option \<Rightarrow> mem \<Rightarrow> (bool \<times> mem) option" where
  "iniparser_find_entry dp entry m =
     map_option (\<lambda>(p, m). (p \<noteq> Invalid_Key, m)) (iniparser_getstring dp entry Invalid_Key m)"

definition iniparser_getboolean ::
  "dictionary option \<Rightarrow> string option \<Rightarrow> int \<Rightarrow> mem \<Rightarrow> (int \<times> mem) option" where
  "iniparser_getboolean dp key notfound m =
     (case iniparser_getstring dp key Invalid_Key m of
        None \<Rightarrow> None
      | Some (Invalid_Key, m) \<Rightarrow> Some (notfound, m)
      | Some (Null, m) \<Rightarrow> None
      | Some (Str c, m) \<Rightarrow>
          Some (case c of
                  [] \<Rightarrow> notfound
                | c0 # _ \<Rightarrow>
                    if c0 \<in> set ''yY1tT'' then 1 else if c0 \<in> set ''nN0fF'' then 0 else notfound, m))"

text \<open>\<open>strtol (s, NULL, 0)\<close> of the 64-bit C library: blanks, a sign, a base prefix, the digits
  of the base, and saturation at the ends of \<open>long\<close>.\<close>

definition digit_val :: "char \<Rightarrow> nat" where
  "digit_val c =
     (let n = of_char c :: nat in
      if 48 \<le> n \<and> n \<le> 57 then n - 48
      else if 97 \<le> n \<and> n \<le> 122 then n - 87
      else if 65 \<le> n \<and> n \<le> 90 then n - 55
      else 99)"

fun digits_val :: "nat \<Rightarrow> nat \<Rightarrow> string \<Rightarrow> nat" where
  "digits_val base acc [] = acc"
| "digits_val base acc (c # cs) =
     (if digit_val c < base then digits_val base (acc * base + digit_val c) cs else acc)"

definition hex_prefix :: "string \<Rightarrow> bool" where
  "hex_prefix s = (case s of
     CHR ''0'' # x # c # _ \<Rightarrow> (x = CHR ''x'' \<or> x = CHR ''X'') \<and> digit_val c < 16
   | _ \<Rightarrow> False)"

definition strtol0 :: "string \<Rightarrow> int" where
  "strtol0 s =
     (let s = dropWhile isspace s;
          neg = (s \<noteq> [] \<and> hd s = CHR ''-'');
          s = (if s \<noteq> [] \<and> (hd s = CHR ''-'' \<or> hd s = CHR ''+'') then tl s else s);
          n = int (if hex_prefix s then digits_val 16 0 (drop 2 s)
                   else if s \<noteq> [] \<and> hd s = CHR ''0'' then digits_val 8 0 s
                   else digits_val 10 0 s);
          v = (if neg then - n else n)
      in max (- (2 ^ 63)) (min (2 ^ 63 - 1) v))"

text \<open>The cast from \<open>long\<close> to \<open>int\<close> keeps the low 32 bits.\<close>

definition int_of_long :: "int \<Rightarrow> int" where
  "int_of_long v = sint (word_of_int v :: 32 word)"

definition iniparser_getint ::
  "dictionary option \<Rightarrow> string option \<Rightarrow> int \<Rightarrow> mem \<Rightarrow> (int \<times> mem) option" where
  "iniparser_getint dp key notfound m =
     (case iniparser_getstring dp key Invalid_Key m of
        None \<Rightarrow> None
      | Some (Invalid_Key, m) \<Rightarrow> Some (notfound, m)
      | Some (Null, m) \<Rightarrow> None
      | Some (Str s, m) \<Rightarrow> Some (int_of_long (strtol0 s), m))"

text \<open>The conversion \<open>atof\<close> is a parameter: floating point is outside the model.\<close>

definition iniparser_getdouble ::
  "(string \<Rightarrow> 'r) \<Rightarrow> dictionary option \<Rightarrow> string option \<Rightarrow> 'r \<Rightarrow> mem \<Rightarrow> ('r \<times> mem) option" where
  "iniparser_getdouble atof dp key notfound m =
     (case iniparser_getstring dp key Invalid_Key m of
        None \<Rightarrow> None
      | Some (Invalid_Key, m) \<Rightarrow> Some (notfound, m)
      | Some (Null, m) \<Rightarrow> None
      | Some (Str s, m) \<Rightarrow> Some (atof s, m))"

subsection \<open>Updates\<close>

definition iniparser_set ::
  "dictionary option \<Rightarrow> string option \<Rightarrow> string option \<Rightarrow> mem \<Rightarrow> (int \<times> dictionary option \<times> mem) option" where
  "iniparser_set ini entry val m =
     (case xstrdup entry m of (lc, m) \<Rightarrow> dictionary_set ini (map_option strlwc lc) val m)"

definition iniparser_unset :: "dictionary \<Rightarrow> string option \<Rightarrow> mem \<Rightarrow> (dictionary \<times> mem) option" where
  "iniparser_unset ini entry m =
     (case xstrdup entry m of
        (lc, m) \<Rightarrow> map_option (\<lambda>d. (d, m)) (dictionary_unset ini (map_option strlwc lc)))"

subsection \<open>Sections\<close>

definition is_section_key :: "string \<Rightarrow> bool" where
  "is_section_key k \<longleftrightarrow> CHR '':'' \<notin> set k"

function getnsec_loop :: "dictionary \<Rightarrow> nat \<Rightarrow> int \<Rightarrow> int option" where
  "getnsec_loop d i nsec =
     (if i < dict_size d then
        case rd (dict_key d) i of
          None \<Rightarrow> None
        | Some None \<Rightarrow> getnsec_loop d (Suc i) nsec
        | Some (Some k) \<Rightarrow> getnsec_loop d (Suc i) (if is_section_key k then nsec + 1 else nsec)
      else Some nsec)"
  by pat_completeness auto
termination by (relation "measure (\<lambda>(d, i, nsec). dict_size d - i)") auto

definition iniparser_getnsec :: "dictionary option \<Rightarrow> int option" where
  "iniparser_getnsec dp = (case dp of None \<Rightarrow> Some (- 1) | Some d \<Rightarrow> getnsec_loop d 0 0)"

text \<open>The loop of \<open>iniparser_getsecname\<close>: the count of sections met and the slot it stops at.\<close>

function getsecname_loop :: "dictionary \<Rightarrow> int \<Rightarrow> nat \<Rightarrow> int \<Rightarrow> (int \<times> nat) option" where
  "getsecname_loop d n i foundsec =
     (if i < dict_size d then
        case rd (dict_key d) i of
          None \<Rightarrow> None
        | Some None \<Rightarrow> getsecname_loop d n (Suc i) foundsec
        | Some (Some k) \<Rightarrow>
            if is_section_key k then
              if n < foundsec + 1 then Some (foundsec + 1, i)
              else getsecname_loop d n (Suc i) (foundsec + 1)
            else getsecname_loop d n (Suc i) foundsec
      else Some (foundsec, i))"
  by pat_completeness auto
termination by (relation "measure (\<lambda>(d, n, i, foundsec). dict_size d - i)") auto

definition iniparser_getsecname :: "dictionary option \<Rightarrow> int \<Rightarrow> string option option" where
  "iniparser_getsecname dp n =
     (case dp of
        None \<Rightarrow> Some None
      | Some d \<Rightarrow>
          if n < 0 then Some None
          else
            (case getsecname_loop d n 0 0 of
               None \<Rightarrow> None
             | Some (foundsec, i) \<Rightarrow> if foundsec \<le> n then Some None else rd (dict_key d) i))"

text \<open>The slots whose key starts with \<open>keym\<close>, in order, with their keys: the loop of
  \<open>iniparser_getsecnkeys\<close>, \<open>iniparser_getseckeys\<close> and \<open>iniparser_dumpsection_ini\<close>.\<close>

function section_loop :: "dictionary \<Rightarrow> string \<Rightarrow> nat \<Rightarrow> (nat \<times> string) list option" where
  "section_loop d keym j =
     (if j < dict_size d then
        case rd (dict_key d) j of
          None \<Rightarrow> None
        | Some None \<Rightarrow> section_loop d keym (Suc j)
        | Some (Some k) \<Rightarrow>
            if take (length keym) k = keym then map_option ((#) (j, k)) (section_loop d keym (Suc j))
            else section_loop d keym (Suc j)
      else Some [])"
  by pat_completeness auto
termination by (relation "measure (\<lambda>(d, keym, j). dict_size d - j)") auto

declare getnsec_loop.simps [simp del] getsecname_loop.simps [simp del] section_loop.simps [simp del]

text \<open>\<open>keym\<close> is the buffer \<open>s:\<close>; a failed allocation of it is not checked.\<close>

definition section_keys :: "dictionary \<Rightarrow> string \<Rightarrow> mem \<Rightarrow> ((nat \<times> string) list \<times> mem) option" where
  "section_keys d s m =
     (case malloc (s @ '':'') m of
        (None, m) \<Rightarrow> None
      | (Some keym, m) \<Rightarrow> map_option (\<lambda>ks. (ks, m)) (section_loop d keym 0))"

definition iniparser_getsecnkeys :: "dictionary option \<Rightarrow> string option \<Rightarrow> mem \<Rightarrow> (int \<times> mem) option" where
  "iniparser_getsecnkeys dp sp m =
     (case dp of
        None \<Rightarrow> Some (0, m)
      | Some d \<Rightarrow>
          (case iniparser_find_entry dp sp m of
             None \<Rightarrow> None
           | Some (False, m) \<Rightarrow> Some (0, m)
           | Some (True, m) \<Rightarrow>
               map_option (\<lambda>(ks, m). (int (length ks), m)) (section_keys d (the sp) m)))"

text \<open>The result array is sized by \<open>iniparser_getsecnkeys\<close>; a write past it is undefined.\<close>

definition iniparser_getseckeys ::
  "dictionary option \<Rightarrow> string option \<Rightarrow> mem \<Rightarrow> (string list option \<times> mem) option" where
  "iniparser_getseckeys dp sp m =
     (case dp of
        None \<Rightarrow> Some (None, m)
      | Some d \<Rightarrow>
          (case iniparser_find_entry dp sp m of
             None \<Rightarrow> None
           | Some (False, m) \<Rightarrow> Some (None, m)
           | Some (True, m) \<Rightarrow>
               do {
                 (nkeys, m) \<leftarrow> iniparser_getsecnkeys dp sp m;
                 let (keys, m) = malloc (nat nkeys) m;
                 (ks, m) \<leftarrow> section_keys d (the sp) m;
                 case keys of
                   None \<Rightarrow> if ks = [] then Some (None, m) else None
                 | Some cap \<Rightarrow> if length ks \<le> cap then Some (Some (map snd ks), m) else None
               }))"

subsection \<open>Output\<close>

definition newline :: string where "newline = [CHR 0x0A]"

definition pad30 :: "string \<Rightarrow> string" where
  "pad30 s = s @ replicate (30 - length s) (CHR '' '')"

text \<open>\<open>iniparser_dump\<close>: the slots printed as \<open>[key]=[value]\<close>.\<close>

function ini_dump_loop :: "dictionary \<Rightarrow> nat \<Rightarrow> string option" where
  "ini_dump_loop d i =
     (if i < dict_size d then
        case rd (dict_key d) i of
          None \<Rightarrow> None
        | Some None \<Rightarrow> ini_dump_loop d (Suc i)
        | Some (Some k) \<Rightarrow>
            (case rd (dict_val d) i of
               None \<Rightarrow> None
             | Some v \<Rightarrow>
                 map_option ((@) (''['' @ k @ (case v of Some s \<Rightarrow> '']=['' @ s @ '']'' | None \<Rightarrow> '']=UNDEF'') @ newline))
                   (ini_dump_loop d (Suc i)))
      else Some [])"
  by pat_completeness auto
termination by (relation "measure (\<lambda>(d, i). dict_size d - i)") auto

definition iniparser_dump :: "dictionary option \<Rightarrow> string option" where
  "iniparser_dump dp = (case dp of None \<Rightarrow> Some [] | Some d \<Rightarrow> ini_dump_loop d 0)"

fun dump_entries :: "dictionary \<Rightarrow> nat \<Rightarrow> (nat \<times> string) list \<Rightarrow> string option" where
  "dump_entries d n [] = Some []"
| "dump_entries d n ((j, k) # ks) =
     (case rd (dict_val d) j of
        None \<Rightarrow> None
      | Some v \<Rightarrow>
          map_option ((@) (pad30 (drop n k) @ '' = '' @ (case v of None \<Rightarrow> '''' | Some s \<Rightarrow> s) @ newline))
            (dump_entries d n ks))"

definition iniparser_dumpsection_ini ::
  "dictionary option \<Rightarrow> string option \<Rightarrow> mem \<Rightarrow> (string \<times> mem) option" where
  "iniparser_dumpsection_ini dp sp m =
     (case dp of
        None \<Rightarrow> Some ([], m)
      | Some d \<Rightarrow>
          (case iniparser_find_entry dp sp m of
             None \<Rightarrow> None
           | Some (False, m) \<Rightarrow> Some ([], m)
           | Some (True, m) \<Rightarrow>
               do {
                 (ks, m) \<leftarrow> section_keys d (the sp) m;
                 out \<leftarrow> dump_entries d (length (the sp) + 1) ks;
                 Some (newline @ ''['' @ the sp @ '']'' @ newline @ out @ newline, m)
               }))"

text \<open>The file without sections: a NULL value reaches the \<open>%s\<close> of \<open>fprintf\<close>, which is undefined.\<close>

function dump_plain_loop :: "dictionary \<Rightarrow> nat \<Rightarrow> string option" where
  "dump_plain_loop d i =
     (if i < dict_size d then
        case rd (dict_key d) i of
          None \<Rightarrow> None
        | Some None \<Rightarrow> dump_plain_loop d (Suc i)
        | Some (Some k) \<Rightarrow>
            (case rd (dict_val d) i of
               Some (Some v) \<Rightarrow> map_option ((@) (k @ '' = '' @ v @ newline)) (dump_plain_loop d (Suc i))
             | _ \<Rightarrow> None)
      else Some [])"
  by pat_completeness auto
termination by (relation "measure (\<lambda>(d, i). dict_size d - i)") auto

fun dump_sections :: "dictionary \<Rightarrow> nat list \<Rightarrow> mem \<Rightarrow> (string \<times> mem) option" where
  "dump_sections d [] m = Some ([], m)"
| "dump_sections d (i # is) m =
     do {
       secname \<leftarrow> iniparser_getsecname (Some d) (int i);
       (out, m) \<leftarrow> iniparser_dumpsection_ini (Some d) secname m;
       (rest, m) \<leftarrow> dump_sections d is m;
       Some (out @ rest, m)
     }"

definition iniparser_dump_ini :: "dictionary option \<Rightarrow> mem \<Rightarrow> (string \<times> mem) option" where
  "iniparser_dump_ini dp m =
     (case dp of
        None \<Rightarrow> Some ([], m)
      | Some d \<Rightarrow>
          do {
            nsec \<leftarrow> iniparser_getnsec dp;
            if nsec < 1 then map_option (\<lambda>out. (out, m)) (dump_plain_loop d 0)
            else
              do {
                (out, m) \<leftarrow> dump_sections d [0 ..< nat nsec] m;
                Some (out @ newline, m)
              }
          })"

declare ini_dump_loop.simps [simp del] dump_plain_loop.simps [simp del]

subsection \<open>Loading a file\<close>

definition ASCIILINESZ :: nat where "ASCIILINESZ = 1024"

text \<open>\<open>fgets (line, n, in)\<close> on the rest of the file: the bytes stored, the rest, and whether
  the end of the file was met. The string in the buffer ends at the first NUL byte.\<close>

definition fgets :: "nat \<Rightarrow> string \<Rightarrow> (string \<times> string \<times> bool) option" where
  "fgets n content =
     (if content = [] then None
      else
        let k = min (n - 1) (length (takeWhile (\<lambda>c. c \<noteq> CHR 0x0A) content) + 1)
        in Some (take k content, drop k content,
                 length content < n - 1 \<and> CHR 0x0A \<notin> set content))"

definition c_str :: "string \<Rightarrow> string" where
  "c_str s = takeWhile (\<lambda>c. c \<noteq> CHR 0x00) s"

definition strip_end :: "string \<Rightarrow> string" where
  "strip_end s = rev (dropWhile isspace (rev s))"

record load_state =
  ls_dict :: dictionary
  ls_section :: "string option"
  ls_full_line :: "string option"
  ls_errs :: int
  ls_mem :: mem

text \<open>How one turn of the read loop ends: with the next turn, or by leaving the loop
  (\<open>break\<close> and \<open>goto out\<close> lead to the same place).\<close>

datatype turn = Next load_state | Leave load_state

text \<open>The \<open>switch\<close> on the status of a complete line, and the test of \<open>errs\<close> after it.\<close>

definition load_full_line :: "string \<Rightarrow> load_state \<Rightarrow> turn option" where
  "load_full_line full_line st =
     do {
       (lo, m) \<leftarrow> iniparser_line (length full_line + 1) full_line (ls_mem st);
       let st = st\<lparr>ls_mem := m, ls_full_line := None\<rparr>;
       case lo_status lo of
         LINE_SECTION \<Rightarrow>
           (case dictionary_set (Some (ls_dict st)) (lo_section lo) None m of
              None \<Rightarrow> None
            | Some (e, d, m) \<Rightarrow>
                let st = st\<lparr>ls_dict := the d, ls_section := lo_section lo, ls_errs := e, ls_mem := m\<rparr>
                in Some (if e < 0 then Leave st else Next st))
       | LINE_VALUE \<Rightarrow>
           (case (ls_section st, lo_key lo) of
              (Some sec, Some key) \<Rightarrow>
                (case malloc (sec @ '':'' @ key) m of
                   (None, m) \<Rightarrow> Some (Leave (st\<lparr>ls_errs := ls_errs st + 1, ls_mem := m\<rparr>))
                 | (Some seckey, m) \<Rightarrow>
                     (case dictionary_set (Some (ls_dict st)) (Some seckey) (lo_value lo) m of
                        None \<Rightarrow> None
                      | Some (e, d, m) \<Rightarrow>
                          let st = st\<lparr>ls_dict := the d, ls_errs := e, ls_mem := m\<rparr>
                          in Some (if e < 0 then Leave st else Next st)))
            | _ \<Rightarrow> None)
       | LINE_ERROR \<Rightarrow>
           let st = st\<lparr>ls_errs := ls_errs st + 1\<rparr> in Some (if ls_errs st < 0 then Leave st else Next st)
       | _ \<Rightarrow> Some (if ls_errs st < 0 then Leave st else Next st)
     }"

text \<open>One turn: the line in the buffer and whether the file ended in it. A line of blanks
  only leaves \<open>len = -1\<close>, and the test for the trailing backslash then reads \<open>line[-1]\<close>.\<close>

definition load_turn :: "string \<Rightarrow> bool \<Rightarrow> load_state \<Rightarrow> turn option" where
  "load_turn buf eof st =
     (let line = c_str buf in
      if line = [] then None
      else if length line = 1 then Some (Next st)
      else if last line \<noteq> CHR 0x0A \<and> \<not> eof then Some (Leave (st\<lparr>ls_errs := ls_errs st + 1\<rparr>))
      else
        let line = strip_end line in
        if line = [] then None
        else
          let multi_line = (last line = CHR 0x5C);
              line = (if multi_line then butlast line else line);
              prev = (case ls_full_line st of None \<Rightarrow> '''' | Some p \<Rightarrow> p)
          in case malloc (prev @ line) (ls_mem st) of
               (None, m) \<Rightarrow> Some (Leave (st\<lparr>ls_errs := ls_errs st + 1, ls_mem := m, ls_full_line := None\<rparr>))
             | (Some full_line, m) \<Rightarrow>
                 let st = st\<lparr>ls_full_line := Some full_line, ls_mem := m\<rparr>
                 in if multi_line then Some (Next st) else load_full_line full_line st)"

function load_loop :: "string \<Rightarrow> load_state \<Rightarrow> load_state option" where
  "load_loop content st =
     (case fgets ASCIILINESZ content of
        None \<Rightarrow> Some st
      | Some (buf, rest, eof) \<Rightarrow>
          (case load_turn buf eof st of
             None \<Rightarrow> None
           | Some (Leave st) \<Rightarrow> Some st
           | Some (Next st) \<Rightarrow> load_loop rest st))"
  by pat_completeness auto
termination
  by (relation "measure (\<lambda>(content, st). length content)")
     (auto simp: fgets_def ASCIILINESZ_def Let_def split: if_splits)

declare load_loop.simps [simp del]

text \<open>The file is \<open>None\<close> when \<open>fopen\<close> fails.\<close>

definition iniparser_load :: "string option \<Rightarrow> mem \<Rightarrow> (dictionary option \<times> mem) option" where
  "iniparser_load file m =
     (let (section0, m) = xstrdup (Some '''') m in
      case file of
        None \<Rightarrow> Some (None, m)
      | Some content \<Rightarrow>
          (case dictionary_new 0 m of
             (None, m) \<Rightarrow> Some (None, m)
           | (Some d, m) \<Rightarrow>
               (case load_loop content
                  \<lparr>ls_dict = d, ls_section = section0, ls_full_line = None, ls_errs = 0, ls_mem = m\<rparr> of
                  None \<Rightarrow> None
                | Some st \<Rightarrow> Some (if ls_errs st \<noteq> 0 then None else Some (ls_dict st), ls_mem st))))"

text \<open>\<open>iniparser_freedict\<close> returns the strings that it frees, as \<open>dictionary_del\<close> does.\<close>

definition iniparser_freedict :: "dictionary option \<Rightarrow> string list option" where
  "iniparser_freedict d = dictionary_del d"

lemma del_loop_frees:
  assumes "length (dict_key d) = dict_size d" "length (dict_val d) = dict_size d" "i \<le> dict_size d"
  shows "del_loop d i = Some (concat (map (\<lambda>j. (case dict_key d ! j of None \<Rightarrow> [] | Some s \<Rightarrow> [s]) @
    (case dict_val d ! j of None \<Rightarrow> [] | Some s \<Rightarrow> [s])) [i..<dict_size d]))"
  using assms(3)
proof (induction "dict_size d - i" arbitrary: i)
  case 0
  then show ?case by (simp add: del_loop.simps)
next
  case (Suc n)
  then have "i < dict_size d" by simp
  moreover have "del_loop d (Suc i) = Some (concat (map (\<lambda>j. (case dict_key d ! j of None \<Rightarrow> [] | Some s \<Rightarrow> [s]) @
      (case dict_val d ! j of None \<Rightarrow> [] | Some s \<Rightarrow> [s])) [Suc i..<dict_size d]))"
    using Suc.hyps(2) Suc.prems by (intro Suc.hyps(1)) auto
  ultimately show ?case using assms(1,2) by (simp add: del_loop.simps[of d i] upt_conv_Cons)
qed

lemma iniparser_freedict_frees:
  "dict_wf d \<Longrightarrow> iniparser_freedict (Some d) = Some (concat (map (\<lambda>j. (case dict_key d ! j of None \<Rightarrow> [] | Some s \<Rightarrow> [s]) @
    (case dict_val d ! j of None \<Rightarrow> [] | Some s \<Rightarrow> [s])) [0..<dict_size d]))"
  by (simp add: iniparser_freedict_def dictionary_del_def dict_wf_lengths del_loop_frees)

end
