(* ===== verification/Ini_Correct.thy ===== *)
theory Ini_Correct
  imports Ini_Parser
begin

text \<open>
  What the ini parser promises: its queries and updates are a string map whose keys are
  compared without case (an instance of the contract of the dictionary), the scan of a
  line stays inside its buffers except for one shape of section line, and loading a file
  is a fold over its logical lines.
\<close>

subsection \<open>The case-insensitive map\<close>

lemma strlwc_idem [simp]: "strlwc (strlwc s) = strlwc s"
  by (simp add: strlwc_def)

definition ini_get :: "dictionary \<Rightarrow> string \<Rightarrow> str_ptr \<Rightarrow> str_ptr option" where
  "ini_get d k dflt = map_option fst (iniparser_getstring (Some d) (Some k) dflt [])"

definition ini_put :: "dictionary \<Rightarrow> string \<Rightarrow> string option \<Rightarrow> mem \<Rightarrow> (dictionary \<times> mem) option" where
  "ini_put d k v m =
     (case iniparser_set (Some d) (Some k) v m of Some (_, Some d', m') \<Rightarrow> Some (d', m') | _ \<Rightarrow> None)"

definition ini_del :: "dictionary \<Rightarrow> string \<Rightarrow> dictionary option" where
  "ini_del d k = map_option fst (iniparser_unset d (Some k) [])"

lemma iniparser_set_ok:
  assumes "dict_wf d" "mem_ok m"
  shows "\<exists>d' m'. iniparser_set (Some d) (Some k) v m = Some (0, Some d', m') \<and> dict_wf d'
    \<and> dict_map d' = (dict_map d)(strlwc k \<mapsto> v) \<and> mem_ok m'"
proof -
  obtain m1 where "xstrdup (Some k) m = (Some k, m1)" "mem_ok m1"
    using xstrdup_ok[OF assms(2)] by blast
  with dictionary_set_ok[OF assms(1), of m1 "strlwc k" v] show ?thesis
    by (simp add: iniparser_set_def)
qed

lemma iniparser_getstring_ok:
  assumes "dict_wf d" "mem_ok m"
  shows "\<exists>m'. iniparser_getstring (Some d) (Some k) dflt m
    = Some (case dict_map d (strlwc k) of None \<Rightarrow> dflt | Some v \<Rightarrow> ptr_of v, m') \<and> mem_ok m'"
proof -
  obtain m1 where "xstrdup (Some k) m = (Some k, m1)" "mem_ok m1"
    using xstrdup_ok[OF assms(2)] by blast
  with assms(1) show ?thesis by (simp add: iniparser_getstring_def dictionary_get_map)
qed

interpretation ini: string_map dict_wf dict_map strlwc ini_get ini_put ini_del
proof unfold_locales
  show "\<exists>d' m'. ini_put d k v m = Some (d', m') \<and> dict_wf d' \<and> dict_map d' = (dict_map d)(strlwc k \<mapsto> v) \<and> mem_ok m'"
    if "dict_wf d" "mem_ok m" for d m k v
    using iniparser_set_ok[OF that, of k v] by (auto simp: ini_put_def)
  show "ini_get d k dflt = Some (case dict_map d (strlwc k) of None \<Rightarrow> dflt | Some v \<Rightarrow> ptr_of v)"
    if "dict_wf d" for d k dflt
    using iniparser_getstring_ok[OF that, of "[]" k dflt] by (auto simp: ini_get_def)
  show "\<exists>d'. ini_del d k = Some d' \<and> dict_wf d' \<and> dict_map d' = (dict_map d)(strlwc k := None)"
    if "dict_wf d" for d k
    using dictionary_unset_ok[OF that, of "strlwc k"]
    by (auto simp: ini_del_def iniparser_unset_def xstrdup_def)
qed

text \<open>C25: Through the parser's interface, after any history of \<open>iniparser_set\<close> and
  \<open>iniparser_unset\<close> calls a query sees the last update of its key, keys being compared
  without case: the history acts on the finite map of lower-case keys.\<close>

theorem iniparser_history:
  assumes "dict_wf d" "mem_ok m"
  shows "\<exists>d' m'. run_ops ini_put ini_del ops d m = Some (d', m')
    \<and> (\<forall>k dflt. ini_get d' k dflt = Some (case map_ops strlwc ops (dict_map d) (strlwc k) of
          None \<Rightarrow> dflt | Some v \<Rightarrow> ptr_of v))"
  using ini.get_after_run[OF assms] by blast

lemma iniparser_history_witness:
  "\<exists>d' m'. run_ops ini_put ini_del [Put ''Net:Port'' (Some ''1''), Put ''NET:PORT'' (Some ''2''), Del ''K''] dict_one []
      = Some (d', m')
    \<and> ini_get d' ''net:port'' Null = Some (Str ''2'') \<and> ini_get d' ''k'' Null = Some Null"
proof -
  let ?ops = "[Put ''Net:Port'' (Some ''1''), Put ''NET:PORT'' (Some ''2''), Del ''K'']"
  have "map_ops strlwc ?ops (dict_map dict_one) (strlwc ''net:port'') = Some (Some ''2'')"
    "map_ops strlwc ?ops (dict_map dict_one) (strlwc ''k'') = None"
    unfolding dict_one_wf(2) by code_simp+
  with iniparser_history[OF dict_one_wf(1) mem_ok_Nil, of ?ops] show ?thesis
    by (metis (no_types, lifting) option.case ptr_of_def)
qed

subsection \<open>The buffers of a line\<close>

lemma sscanf_length: "t \<in> set (sscanf fmt s) \<Longrightarrow> length t \<le> length s"
proof (induction fmt s rule: sscanf.induct)
  case (2 ds s)
  then show ?case using length_dropWhile_le[of isspace s] by simp
next
  case (3 c ds s)
  then show ?case by (fastforce split: list.splits if_splits)
next
  case (4 P ds s)
  then show ?case
    using length_takeWhile_le[of P s] length_dropWhile_le[of P s] by (auto split: if_splits)
qed simp

text \<open>The formats of an assignment: a key up to the first \<open>=\<close>, then a part of the rest.\<close>

lemmas value_fmts = fmt_dquoted_def fmt_squoted_def fmt_plain_def fmt_comment_def fmt_empty_def

lemma equals_at_SomeD:
  assumes "equals_at s = Some e"
  shows "e = length (takeWhile (\<lambda>c. c \<noteq> CHR ''='') s)" "e < length s"
    "length (dropWhile (\<lambda>c. c \<noteq> CHR ''='') s) = length s - e"
proof -
  show e: "e = length (takeWhile (\<lambda>c. c \<noteq> CHR ''='') s)" "e < length s"
    using assms by (auto simp: equals_at_def Let_def split: if_splits)
  have "length s = e + length (dropWhile (\<lambda>c. c \<noteq> CHR ''='') s)"
    unfolding e(1) by (metis length_append takeWhile_dropWhile_id)
  then show "length (dropWhile (\<lambda>c. c \<noteq> CHR ''='') s) = length s - e" by simp
qed

lemma sscanf_into_assignment:
  assumes "equals_at s = Some e"
  shows "\<exists>r. sscanf_into [e + 1, length s - e + 1] (Span (\<lambda>c. c \<noteq> CHR ''='') # ds) s = Some r"
proof -
  let ?v = "dropWhile (\<lambda>c. c \<noteq> CHR ''='') s"
  have "length t < length s - e + 1" if "t \<in> set (sscanf ds ?v)" for t
    using sscanf_length[OF that] equals_at_SomeD(3)[OF assms] by simp
  then have "list_all (\<lambda>(t, cap). length t < cap) (zip (sscanf ds ?v) [length s - e + 1])"
    by (cases "sscanf ds ?v") simp_all
  with equals_at_SomeD(1)[OF assms] show ?thesis
    by (auto simp: sscanf_into_def Let_def)
qed

lemma sscanf_first_total:
  "(\<And>f. f \<in> set fs \<Longrightarrow> \<exists>r. sscanf_into caps f s = Some r) \<Longrightarrow> \<exists>r. sscanf_first caps fs s = Some r"
proof (induction fs)
  case (Cons f fs)
  then obtain r r' where "sscanf_into caps f s = Some r" "sscanf_first caps fs s = Some r'"
    by fastforce
  then show ?case by (auto split: list.split)
qed simp

lemma parse_line_assignment_total:
  assumes "equals_at s = Some e" "\<not> (hd s = CHR ''['' \<and> last s = CHR '']'')"
  shows "\<exists>r. parse_line s (e + 1) (length s - e + 1) = Some r"
proof -
  have "\<exists>r. sscanf_into [e + 1, length s - e + 1] f s = Some r"
    if "f \<in> set [fmt_dquoted, fmt_squoted, fmt_plain, fmt_comment, fmt_empty]" for f
    using that sscanf_into_assignment[OF assms(1)] unfolding value_fmts by auto
  then obtain r1 r2 where
    "sscanf_first [e + 1, length s - e + 1] [fmt_dquoted, fmt_squoted, fmt_plain] s = Some r1"
    "sscanf_first [e + 1, length s - e + 1] [fmt_comment, fmt_empty] s = Some r2"
    using sscanf_first_total[of "[fmt_dquoted, fmt_squoted, fmt_plain]" _ s]
      sscanf_first_total[of "[fmt_comment, fmt_empty]" _ s] by fastforce
  with assms show ?thesis
    by (auto simp: parse_line_def Let_def split: option.splits)
qed

text \<open>A section line of \<open>n\<close> characters before its first \<open>]\<close>, the opening bracket excluded.\<close>

definition section_name_length :: "string \<Rightarrow> nat" where
  "section_name_length s = length (takeWhile (\<lambda>c. c \<noteq> CHR '']'') (tl s))"

lemma parse_line_section:
  assumes "s \<noteq> []" "hd s = CHR ''[''" "last s = CHR '']''"
  shows "parse_line s kcap vcap = None \<longleftrightarrow> section_name_length s \<noteq> 0 \<and> kcap \<le> section_name_length s"
proof -
  from assms obtain t where "s = CHR ''['' # t" by (cases s) auto
  with assms show ?thesis
    by (auto simp: parse_line_def sscanf_into_def fmt_section_def section_name_length_def Let_def)
qed

lemma strstrip_length: "length (strstrip s) \<le> length s"
proof -
  have "length (rev (dropWhile isspace (rev t))) \<le> length t" for t
    using length_dropWhile_le[of isspace "rev t"] by simp
  then show ?thesis
    unfolding strstrip_def Let_def using length_dropWhile_le[of isspace s] le_trans by blast
qed

lemma section_name_length_le: "section_name_length s \<le> length s - 1"
  unfolding section_name_length_def by (metis length_takeWhile_le length_tl)

text \<open>What a line means when its allocations succeed, \<open>None\<close> when the scan overruns a buffer.\<close>

definition line_meaning :: "string \<Rightarrow> line_out option" where
  "line_meaning l =
     (let s = strstrip l in
      case equals_at s of
        Some e \<Rightarrow> parse_line s (e + 1) (length s - e + 1)
      | None \<Rightarrow> parse_line s (length l + 2) 0)"

lemma iniparser_line_ok:
  assumes "mem_ok m"
  shows "\<exists>m'. iniparser_line (length l + 1) l m = map_option (\<lambda>r. (r, m')) (line_meaning l) \<and> mem_ok m'"
proof -
  have "mem_ok (tl m)" "mem_ok (tl (tl m))" "mem_ok (tl (tl (tl m)))"
    using assms by (simp_all add: mem_ok_tl)
  with assms show ?thesis
    by (auto simp: iniparser_line_def line_meaning_def Let_def split: option.split)
qed

text \<open>A section line with an equals sign in its name, and more of the name after it.\<close>

definition section_overrun :: "string \<Rightarrow> bool" where
  "section_overrun s \<longleftrightarrow>
     s \<noteq> [] \<and> hd s = CHR ''['' \<and> last s = CHR '']'' \<and>
     (case equals_at s of None \<Rightarrow> False | Some e \<Rightarrow> e < section_name_length s)"

lemma line_meaning_None: "line_meaning l = None \<longleftrightarrow> section_overrun (strstrip l)"
proof -
  define s where "s = strstrip l"
  consider "s = []" | "s \<noteq> []" "hd s = CHR ''[''" "last s = CHR '']''"
    | "s \<noteq> []" "\<not> (hd s = CHR ''['' \<and> last s = CHR '']'')" by blast
  then show ?thesis
  proof cases
    case 1
    then show ?thesis
      by (simp add: line_meaning_def parse_line_def equals_at_def section_overrun_def flip: s_def)
  next
    case 2
    have "section_name_length s < length l + 2"
      using section_name_length_le[of s] strstrip_length[of l] by (simp add: s_def)
    with 2 show ?thesis
      by (auto simp: line_meaning_def parse_line_section section_overrun_def simp flip: s_def
               split: option.split)
  next
    case 3
    show ?thesis
    proof (cases "equals_at s")
      case None
      with 3 show ?thesis
        by (auto simp: line_meaning_def parse_line_def section_overrun_def simp flip: s_def)
    next
      case (Some e)
      with 3 parse_line_assignment_total[OF Some] show ?thesis
        by (auto simp: line_meaning_def section_overrun_def simp flip: s_def)
    qed
  qed
qed

text \<open>C38: The scan of a line leaves its buffers exactly for a section line whose first equals
  sign stands inside the brackets and whose name goes on for at least one character after
  it: the key buffer is sized by the position of the equals sign and the name of the
  section is scanned into it without a width. Every other line is scanned in bounds.\<close>

theorem iniparser_line_overrun:
  assumes "mem_ok m"
  shows "iniparser_line (length l + 1) l m = None \<longleftrightarrow> section_overrun (strstrip l)"
  using iniparser_line_ok[OF assms, of l] line_meaning_None[of l] by auto

lemma iniparser_line_overrun_witness:
  "iniparser_line 8 ''[ab=cd]'' [] = None \<and> iniparser_line 6 ''[ab=]'' [] \<noteq> None"
proof -
  have "section_overrun (strstrip ''[ab=cd]'')" "\<not> section_overrun (strstrip ''[ab=]'')"
    by code_simp+
  with iniparser_line_overrun[OF mem_ok_Nil, of "''[ab=cd]''"] iniparser_line_overrun[OF mem_ok_Nil, of "''[ab=]''"]
  show ?thesis by (simp add: numeral_eq_Suc)
qed

subsection \<open>Loading a file\<close>

text \<open>The lines of a file that the loader reads whole: at most 1022 characters, no NUL, and
  something else than blanks unless empty.\<close>

definition line_fits :: "string \<Rightarrow> bool" where
  "line_fits l \<longleftrightarrow> length l \<le> 1022 \<and> CHR 0x0A \<notin> set l \<and> CHR 0x00 \<notin> set l \<and> (l = [] \<or> strip_end l \<noteq> [])"

definition unlines :: "string list \<Rightarrow> string" where
  "unlines ls = concat (map (\<lambda>l. l @ [CHR 0x0A]) ls)"

text \<open>The logical lines: empty lines are skipped, a backslash at the end continues a line
  (and an unfinished last line is dropped).\<close>

fun logical_lines :: "string \<Rightarrow> string list \<Rightarrow> string list" where
  "logical_lines p [] = []"
| "logical_lines p (l # ls) =
     (if l = [] then logical_lines p ls
      else if last (strip_end l) = CHR 0x5C then logical_lines (p @ butlast (strip_end l)) ls
      else (p @ strip_end l) # logical_lines [] ls)"

text \<open>The effect of the logical lines: the current section, the entries and the error count.\<close>

record ini_spec =
  sp_section :: string
  sp_entries :: "string \<rightharpoonup> string option"
  sp_errs :: nat

fun ini_step :: "ini_spec \<Rightarrow> line_out \<Rightarrow> ini_spec" where
  "ini_step st lo =
     (case lo_status lo of
        LINE_SECTION \<Rightarrow>
          st\<lparr>sp_section := the (lo_section lo), sp_entries := (sp_entries st)(the (lo_section lo) \<mapsto> None), sp_errs := 0\<rparr>
      | LINE_VALUE \<Rightarrow>
          st\<lparr>sp_entries := (sp_entries st)(sp_section st @ '':'' @ the (lo_key lo) \<mapsto> lo_value lo), sp_errs := 0\<rparr>
      | LINE_ERROR \<Rightarrow> st\<lparr>sp_errs := sp_errs st + 1\<rparr>
      | _ \<Rightarrow> st)"

definition ini_spec_run :: "ini_spec \<Rightarrow> string list \<Rightarrow> ini_spec" where
  "ini_spec_run st ls = foldl ini_step st (map (\<lambda>l. the (line_meaning l)) ls)"

definition ini_spec0 :: ini_spec where
  "ini_spec0 = \<lparr>sp_section = [], sp_entries = Map.empty, sp_errs = 0\<rparr>"

lemma ini_spec_run_Cons [simp]: "ini_spec_run st [] = st"
    "ini_spec_run st (l # ls) = ini_spec_run (ini_step st (the (line_meaning l))) ls"
  by (simp_all add: ini_spec_run_def del: ini_step.simps)

text \<open>The loader's state and the specification's.\<close>

definition load_rel :: "load_state \<Rightarrow> ini_spec \<Rightarrow> string option \<Rightarrow> bool" where
  "load_rel st sp p \<longleftrightarrow> dict_wf (ls_dict st) \<and> dict_map (ls_dict st) = sp_entries sp
     \<and> ls_section st = Some (sp_section sp) \<and> ls_errs st = int (sp_errs sp)
     \<and> mem_ok (ls_mem st) \<and> ls_full_line st = p"

lemma parse_line_shape:
  assumes "parse_line s kcap vcap = Some lo"
  shows "lo_status lo = LINE_SECTION \<longrightarrow> lo_section lo \<noteq> None" "lo_status lo = LINE_VALUE \<longrightarrow> lo_key lo \<noteq> None"
    "lo_status lo \<noteq> LINE_UNPROCESSED"
  using assms
  by (auto simp: parse_line_def line_result_def Let_def split: if_splits option.splits Option.bind_splits)

lemma line_meaning_shape:
  assumes "line_meaning l = Some lo"
  shows "lo_status lo = LINE_SECTION \<longrightarrow> lo_section lo \<noteq> None" "lo_status lo = LINE_VALUE \<longrightarrow> lo_key lo \<noteq> None"
    "lo_status lo \<noteq> LINE_UNPROCESSED"
  using assms parse_line_shape unfolding line_meaning_def Let_def by (auto split: option.splits)

lemma load_full_line_ok:
  assumes "load_rel st sp (Some l)" "line_meaning l = Some lo"
  shows "\<exists>st'. load_full_line l st = Some (Next st') \<and> load_rel st' (ini_step sp lo) None"
proof -
  have R: "dict_wf (ls_dict st)" "dict_map (ls_dict st) = sp_entries sp" "ls_section st = Some (sp_section sp)"
    "ls_errs st = int (sp_errs sp)" "mem_ok (ls_mem st)"
    using assms(1) by (simp_all add: load_rel_def)
  obtain m1 where m1: "iniparser_line (Suc (length l)) l (ls_mem st) = Some (lo, m1)" "mem_ok m1"
    using iniparser_line_ok[OF R(5), of l] assms(2) by auto
  have set: "\<exists>d' m'. dictionary_set (Some (ls_dict st)) (Some k) v m = Some (0, Some d', m') \<and> dict_wf d'
           \<and> dict_map d' = (sp_entries sp)(k \<mapsto> v) \<and> mem_ok m'" if "mem_ok m" for k v m
    using dictionary_set_ok[OF R(1) that, of k v] R(2) by simp
  show ?thesis
  proof (cases "lo_status lo")
    case LINE_SECTION
    then obtain s where "lo_section lo = Some s" using line_meaning_shape[OF assms(2)] by auto
    with LINE_SECTION m1 R set[OF m1(2), of s None] show ?thesis
      by (auto simp: load_full_line_def load_rel_def)
  next
    case LINE_VALUE
    then obtain k where "lo_key lo = Some k" using line_meaning_shape[OF assms(2)] by auto
    with LINE_VALUE m1 R set[OF mem_ok_tl[OF m1(2)], of "sp_section sp @ '':'' @ k" "lo_value lo"] show ?thesis
      by (auto simp: load_full_line_def load_rel_def)
  qed (use m1 R line_meaning_shape[OF assms(2)] in \<open>auto simp: load_full_line_def load_rel_def\<close>)
qed

lemma fgets_line:
  assumes "line_fits l"
  shows "fgets ASCIILINESZ (l @ CHR 0x0A # rest) = Some (l @ [CHR 0x0A], rest, False)"
proof -
  have "takeWhile (\<lambda>c. c \<noteq> CHR 0x0A) (l @ CHR 0x0A # rest) = l"
    using assms by (subst takeWhile_append2) (auto simp: line_fits_def)
  with assms show ?thesis by (simp add: fgets_def ASCIILINESZ_def line_fits_def)
qed

lemma c_str_no_nul: "CHR 0x00 \<notin> set s \<Longrightarrow> c_str s = s"
  unfolding c_str_def by (rule takeWhile_eq_all_conv[THEN iffD2]) metis

lemma strip_end_newline [simp]: "strip_end (l @ [CHR 0x0A]) = strip_end l"
  by (simp add: strip_end_def isspace_def)

definition pending :: "string option \<Rightarrow> string" where
  "pending p = (case p of None \<Rightarrow> '''' | Some s \<Rightarrow> s)"

lemma load_turn_ok:
  assumes fits: "line_fits l" and R: "load_rel st sp p"
  shows "load_turn (l @ [CHR 0x0A]) False st =
    (if l = [] then Some (Next st)
     else if last (strip_end l) = CHR 0x5C then
       Some (Next (st\<lparr>ls_full_line := Some (pending p @ butlast (strip_end l)), ls_mem := tl (ls_mem st)\<rparr>))
     else load_full_line (pending p @ strip_end l)
            (st\<lparr>ls_full_line := Some (pending p @ strip_end l), ls_mem := tl (ls_mem st)\<rparr>))"
proof -
  have "c_str (l @ [CHR 0x0A]) = l @ [CHR 0x0A]"
    using fits by (intro c_str_no_nul) (simp add: line_fits_def)
  moreover have "l = [] \<or> strip_end l \<noteq> []" using fits by (simp add: line_fits_def)
  moreover have "mem_ok (ls_mem st)" "ls_full_line st = p" using R by (simp_all add: load_rel_def)
  ultimately show ?thesis
    by (cases "l = []") (simp_all add: load_turn_def Let_def pending_def)
qed

lemma load_rel_full_line:
  "load_rel st sp p \<Longrightarrow> load_rel (st\<lparr>ls_full_line := q, ls_mem := tl (ls_mem st)\<rparr>) sp q"
  by (simp add: load_rel_def mem_ok_tl)

lemma load_loop_ok:
  assumes "\<forall>l \<in> set ls. line_fits l" "load_rel st sp p"
    and "\<forall>l \<in> set (logical_lines (pending p) ls). line_meaning l \<noteq> None"
  shows "\<exists>st' p'. load_loop (unlines ls) st = Some st' \<and>
    load_rel st' (ini_spec_run sp (logical_lines (pending p) ls)) p'"
  using assms
proof (induction ls arbitrary: st sp p)
  case Nil
  then show ?case by (subst load_loop.simps) (auto simp: unlines_def fgets_def)
next
  case (Cons l ls)
  let ?s = "strip_end l"
  have fits: "line_fits l" "\<forall>l \<in> set ls. line_fits l" using Cons.prems(1) by simp_all
  have split: "unlines (l # ls) = l @ CHR 0x0A # unlines ls" by (simp add: unlines_def)
  have loop: "load_loop (unlines (l # ls)) st = (case load_turn (l @ [CHR 0x0A]) False st of
      None \<Rightarrow> None | Some (Leave st) \<Rightarrow> Some st | Some (Next st) \<Rightarrow> load_loop (unlines ls) st)"
    unfolding split using fgets_line[OF fits(1)] by (subst load_loop.simps) simp
  note turn = load_turn_ok[OF fits(1) Cons.prems(2)]
  consider "l = []" | "l \<noteq> []" "last ?s = CHR 0x5C" | "l \<noteq> []" "last ?s \<noteq> CHR 0x5C" by blast
  then show ?case
  proof cases
    case 1
    then have "load_loop (unlines (l # ls)) st = load_loop (unlines ls) st" unfolding loop turn by simp
    with 1 Cons.IH[OF fits(2) Cons.prems(2)] Cons.prems(3) show ?thesis
      unfolding 1 by (simp only: logical_lines.simps if_True simp_thms)
  next
    case 2
    with Cons.IH[OF fits(2) load_rel_full_line[OF Cons.prems(2)], of "Some (pending p @ butlast ?s)"]
      Cons.prems(3)
    show ?thesis by (simp add: loop turn) (simp add: pending_def)
  next
    case 3
    let ?l = "pending p @ ?s"
    obtain lo where lo: "line_meaning ?l = Some lo" using Cons.prems(3) 3 by auto
    obtain st1 where st1: "load_full_line ?l (st\<lparr>ls_full_line := Some ?l, ls_mem := tl (ls_mem st)\<rparr>) = Some (Next st1)"
      "load_rel st1 (ini_step sp lo) None"
      using load_full_line_ok[OF load_rel_full_line[OF Cons.prems(2)] lo] by blast
    with 3 lo Cons.IH[OF fits(2) st1(2)] Cons.prems(3) show ?thesis
      by (simp add: loop turn pending_def del: ini_step.simps)
  qed
qed

lemma iniparser_load_ok:
  assumes "mem_ok m" "\<forall>l \<in> set ls. line_fits l"
    and "\<forall>l \<in> set (logical_lines [] ls). line_meaning l \<noteq> None"
  defines "sp \<equiv> ini_spec_run ini_spec0 (logical_lines [] ls)"
  shows "\<exists>r m'. iniparser_load (Some (unlines ls)) m = Some (r, m') \<and>
    (if sp_errs sp = 0 then \<exists>d. r = Some d \<and> dict_wf d \<and> dict_map d = sp_entries sp else r = None)"
proof -
  obtain m1 where m1: "xstrdup (Some '''') m = (Some '''', m1)" "mem_ok m1"
    using xstrdup_ok[OF assms(1)] by blast
  obtain d m2 where d: "dictionary_new 0 m1 = (Some d, m2)" "dict_wf d" "dict_map d = Map.empty" "mem_ok m2"
    using dictionary_new_ok[OF m1(2)] by blast
  define st where "st = \<lparr>ls_dict = d, ls_section = Some '''', ls_full_line = None, ls_errs = 0, ls_mem = m2\<rparr>"
  have "load_rel st ini_spec0 None" using d by (simp add: load_rel_def st_def ini_spec0_def)
  then obtain st' p' where "load_loop (unlines ls) st = Some st'" "load_rel st' sp p'"
    using load_loop_ok[OF assms(2), of st ini_spec0 None] assms(3) by (auto simp: pending_def sp_def)
  with m1 d show ?thesis by (auto simp: iniparser_load_def st_def load_rel_def)
qed

text \<open>C20: Loading a file whose lines fit the line buffer and overrun no scan buffer returns,
  and what it returns is the fold of its logical lines: a section line opens a section and
  records it with the value NULL, an assignment records its value under the open section, an
  erroneous line counts as an error; the result is NULL exactly when that count is not zero
  at the end.\<close>

theorem iniparser_load_refines:
  assumes "mem_ok m" "\<forall>l \<in> set ls. line_fits l"
    and "\<forall>l \<in> set (logical_lines [] ls). line_meaning l \<noteq> None"
  defines "sp \<equiv> ini_spec_run ini_spec0 (logical_lines [] ls)"
  shows "\<exists>r m'. iniparser_load (Some (unlines ls)) m = Some (r, m') \<and>
    (if sp_errs sp = 0 then \<exists>d. r = Some d \<and> dict_wf d \<and> dict_map d = sp_entries sp else r = None)"
  using iniparser_load_ok[OF assms(1-3)] by (simp only: sp_def)

lemma iniparser_load_refines_witness:
  "\<exists>d m'. iniparser_load (Some (unlines [''# net'', ''[Net]'', '''', ''Port = '' @ [CHR 0x5C], ''  80 ; http''])) [] = Some (Some d, m')
    \<and> dict_map d ''net:port'' = Some (Some ''80'') \<and> dict_map d ''net'' = Some None"
proof -
  let ?ls = "[''# net'', ''[Net]'', '''', ''Port = '' @ [CHR 0x5C], ''  80 ; http'']"
  let ?sp = "ini_spec_run ini_spec0 (logical_lines [] ?ls)"
  have "\<forall>l \<in> set ?ls. line_fits l" "\<forall>l \<in> set (logical_lines [] ?ls). line_meaning l \<noteq> None"
    "sp_errs ?sp = 0" "sp_entries ?sp ''net:port'' = Some (Some ''80'')" "sp_entries ?sp ''net'' = Some None"
    by code_simp+
  with iniparser_load_refines[OF mem_ok_Nil, of ?ls] show ?thesis
    by (smt (verit, best))
qed

lemma ini_spec_run_append: "ini_spec_run st (xs @ ys) = ini_spec_run (ini_spec_run st xs) ys"
  by (simp add: ini_spec_run_def)

lemma logical_line_good_errs:
  assumes "line_meaning l = Some lo" "lo_status lo \<in> {LINE_SECTION, LINE_VALUE}"
  shows "sp_errs (ini_step sp lo) = 0"
  using assms by auto

text \<open>Further result: Errors are forgotten: whatever erroneous lines precede it, when the last logical line
  of the file is a section or an assignment the load succeeds, because the status of the
  insertion is stored over the error count.\<close>

theorem iniparser_load_forgets_errors:
  assumes "mem_ok m" "\<forall>l \<in> set ls. line_fits l"
    and "\<forall>l \<in> set (logical_lines [] ls). line_meaning l \<noteq> None"
    and "logical_lines [] ls \<noteq> []" "line_meaning (last (logical_lines [] ls)) = Some lo"
    and "lo_status lo \<in> {LINE_SECTION, LINE_VALUE}"
  shows "\<exists>d m'. iniparser_load (Some (unlines ls)) m = Some (Some d, m')"
proof -
  let ?L = "logical_lines [] ls"
  have "ini_spec_run ini_spec0 ?L = ini_spec_run (ini_spec_run ini_spec0 (butlast ?L)) [last ?L]"
    by (simp only: append_butlast_last_id[OF assms(4)] ini_spec_run_append[symmetric])
  then have "sp_errs (ini_spec_run ini_spec0 ?L) = 0"
    using logical_line_good_errs[OF assms(5,6)] assms(5) by (simp del: ini_step.simps)
  then show ?thesis
    using iniparser_load_ok[OF assms(1-3)] by auto
qed

lemma iniparser_load_forgets_errors_witness:
  "\<exists>d m'. iniparser_load (Some (unlines [''[s]'', ''no equals sign here'', ''k = v''])) [] = Some (Some d, m')"
proof (rule iniparser_load_forgets_errors)
  show "\<forall>l \<in> set [''[s]'', ''no equals sign here'', ''k = v'']. line_fits l" by code_simp
  show "\<forall>l \<in> set (logical_lines [] [''[s]'', ''no equals sign here'', ''k = v'']). line_meaning l \<noteq> None"
    by code_simp
  show "line_meaning (last (logical_lines [] [''[s]'', ''no equals sign here'', ''k = v''])) =
      Some \<lparr>lo_status = LINE_VALUE, lo_section = None, lo_key = Some ''k'', lo_value = Some ''v''\<rparr>"
    by code_simp
  show "logical_lines [] [''[s]'', ''no equals sign here'', ''k = v''] \<noteq> []" by code_simp
qed simp_all

text \<open>Further result: A line that holds only blanks, two characters or more with its newline, makes the
  loader read before the start of its line buffer: trimming stops at position -1 and the
  test for a continuation reads the character there.\<close>

theorem iniparser_load_blank_line:
  assumes "mem_ok m" "l \<noteq> []" "length l \<le> 1022" "list_all isspace l" "CHR 0x0A \<notin> set l"
  shows "iniparser_load (Some (l @ CHR 0x0A # rest)) m = None"
proof -
  obtain m1 where m1: "xstrdup (Some '''') m = (Some '''', m1)" "mem_ok m1"
    using xstrdup_ok[OF assms(1)] by blast
  obtain d m2 where d: "dictionary_new 0 m1 = (Some d, m2)"
    using dictionary_new_ok[OF m1(2)] by blast
  have nul: "CHR 0x00 \<notin> set l"
  proof
    assume "CHR 0x00 \<in> set l"
    with assms(4) have "isspace CHR 0x00" by (simp only: list_all_iff)
    then show False by (simp add: isspace_def)
  qed
  have blank: "strip_end l = []"
    using assms(4) by (simp add: strip_end_def list_all_iff)
  have "takeWhile (\<lambda>c. c \<noteq> CHR 0x0A) (l @ CHR 0x0A # rest) = l"
    using assms(5) by (subst takeWhile_append2) auto
  then have "fgets ASCIILINESZ (l @ CHR 0x0A # rest) = Some (l @ [CHR 0x0A], rest, False)"
    using assms(3) by (simp add: fgets_def ASCIILINESZ_def)
  moreover have "load_turn (l @ [CHR 0x0A]) False st = None" for st
    using c_str_no_nul[of "l @ [CHR 0x0A]"] nul assms(2) blank by (simp add: load_turn_def)
  ultimately have "load_loop (l @ CHR 0x0A # rest) st = None" for st
    by (simp add: load_loop.simps[of "l @ CHR 0x0A # rest"])
  with m1 d show ?thesis by (simp add: iniparser_load_def)
qed

lemma iniparser_load_blank_line_witness:
  "iniparser_load (Some ([CHR 0x0D] @ CHR 0x0A # ''[s]'')) [] = None"
  by (rule iniparser_load_blank_line) (simp_all add: isspace_def)

subsection \<open>The keys of a section\<close>

definition slots :: "dictionary \<Rightarrow> nat \<Rightarrow> (nat \<times> string) list" where
  "slots d j = map (\<lambda>i. (i, the (dict_key d ! i))) (filter (\<lambda>i. dict_key d ! i \<noteq> None) [j ..< dict_size d])"

lemma slots_step:
  "j < dict_size d \<Longrightarrow>
   slots d j = (case dict_key d ! j of None \<Rightarrow> slots d (Suc j) | Some k \<Rightarrow> (j, k) # slots d (Suc j))"
  by (simp add: slots_def upt_rec[of j] split: option.split)

lemma slots_end: "dict_size d \<le> j \<Longrightarrow> slots d j = []"
  by (simp add: slots_def)

lemma section_loop_slots:
  assumes "dict_wf d"
  shows "section_loop d keym j = Some (filter (\<lambda>(i, k). take (length keym) k = keym) (slots d j))"
  using assms
proof (induction d keym j rule: section_loop.induct)
  case (1 d keym j)
  then show ?case
    using dict_wf_lengths[OF 1(4)]
    by (subst section_loop.simps) (auto simp: slots_step slots_end split: option.split)
qed

lemma slots_distinct:
  assumes "dict_wf d"
  shows "distinct (map snd (slots d j))" "set (map snd (slots d 0)) = dom (dict_map d)"
proof -
  have "inj_on (\<lambda>i. the (dict_key d ! i)) {i. i < dict_size d \<and> dict_key d ! i \<noteq> None}"
    by (rule inj_onI) (use dict_wf_unique[OF assms] in force)
  then have "inj_on (\<lambda>i. the (dict_key d ! i)) (set (filter (\<lambda>i. dict_key d ! i \<noteq> None) [j ..< dict_size d]))"
    by (rule inj_on_subset) auto
  then show "distinct (map snd (slots d j))"
    by (simp add: slots_def comp_def distinct_map)
  show "set (map snd (slots d 0)) = dom (dict_map d)"
    using dict_map_Some_iff[OF assms] by (force simp: slots_def dom_def image_iff)
qed

lemma iniparser_find_entry_ok:
  assumes "dict_wf d" "mem_ok m"
  shows "\<exists>m'. iniparser_find_entry (Some d) (Some k) m = Some (dict_map d (strlwc k) \<noteq> None, m') \<and> mem_ok m'"
  using iniparser_getstring_ok[OF assms, of k Invalid_Key]
  by (auto simp: iniparser_find_entry_def ptr_of_def split: option.splits)

lemma section_keys_ok:
  assumes "dict_wf d" "mem_ok m"
  shows "section_keys d s m =
    Some (filter (\<lambda>(i, k). take (Suc (length s)) k = s @ '':'') (slots d 0), tl m)"
  using assms by (simp add: section_keys_def section_loop_slots)

text \<open>C39: The list of the keys of a section is built inside the array that the count of the
  keys sizes, and holds each key of the dictionary that starts with the given name and a
  colon once; the name is looked up without case, but the prefix is compared as given.\<close>

theorem iniparser_getseckeys_correct:
  assumes "dict_wf d" "mem_ok m"
  shows "\<exists>r m'. iniparser_getseckeys (Some d) (Some s) m = Some (r, m') \<and>
    (if dict_map d (strlwc s) = None then r = None
     else \<exists>ks. r = Some ks \<and> distinct ks \<and>
       set ks = {k \<in> dom (dict_map d). take (Suc (length s)) k = s @ '':''})"
proof -
  obtain m1 where m1: "iniparser_find_entry (Some d) (Some s) m = Some (dict_map d (strlwc s) \<noteq> None, m1)" "mem_ok m1"
    using iniparser_find_entry_ok[OF assms] by blast
  obtain m2 where m2: "iniparser_find_entry (Some d) (Some s) m1 = Some (dict_map d (strlwc s) \<noteq> None, m2)" "mem_ok m2"
    using iniparser_find_entry_ok[OF assms(1) m1(2)] by blast
  define ks where "ks = filter (\<lambda>(i, k). take (Suc (length s)) k = s @ '':'') (slots d 0)"
  have k1: "section_keys d s m' = Some (ks, tl m')" if "mem_ok m'" for m'
    using section_keys_ok[OF assms(1) that] by (simp add: ks_def)
  have "map snd ks = filter (\<lambda>k. take (Suc (length s)) k = s @ '':'') (map snd (slots d 0))"
    by (simp add: ks_def filter_map comp_def case_prod_unfold)
  then have "distinct (map snd ks)" "set (map snd ks) = {k \<in> dom (dict_map d). take (Suc (length s)) k = s @ '':''}"
    using slots_distinct[OF assms(1)] by (metis distinct_filter, metis (mono_tags) set_filter)
  moreover have "mem_ok (tl m2)" "mem_ok (tl (tl m2))" using m2 by (simp_all add: mem_ok_tl)
  ultimately show ?thesis
    using m1 m2 k1 by (auto simp: iniparser_getseckeys_def iniparser_getsecnkeys_def)
qed

lemma iniparser_getseckeys_correct_witness:
  "\<exists>m'. iniparser_getseckeys (Some dict_one) (Some ''k'') [] = Some (Some [], m')"
proof -
  have "strlwc ''k'' = ''k''" by code_simp
  moreover have "{k \<in> dom (dict_map dict_one). take (Suc (length ''k'')) k = ''k'' @ '':''} = {}"
    unfolding dict_one_wf(2) by auto
  ultimately show ?thesis
    using iniparser_getseckeys_correct[OF dict_one_wf(1) mem_ok_Nil, of "''k''"]
    by (auto simp only: dict_one_wf(2) fun_upd_same option.distinct if_False set_empty)
qed

end
