(* ===== verification/LLM_Sort.thy ===== *)
theory LLM_Sort
  imports C_Base "HOL-Library.Multiset"
begin

text \<open>
  The linked-list memory sort: src/src/Algorithm/LinkedListMemorySort/LLMSort.c, function
  \<open>sort_linked_list\<close>, whose text is also src/src/Algorithm/MergeSort/LLMSort.c.

  The records are linked through their member \<open>next[index]\<close>, a partial map from record
  addresses to nullable addresses here (\<open>h r = None\<close>: \<open>r\<close> is not a record). The four
  tapes are linked lists that are bounded by a count and not by a NULL pointer, so that the
  member of the last record of a tape holds a stale pointer most of the time. The members
  of the tapes that the code leaves uninitialised are arbitrary (\<open>junk\<close>).
\<close>

subsection \<open>Comparison functions\<close>

text \<open>What the sorts rely on when they are given a comparison callback: on the records
  \<open>A\<close> that they sort it behaves like the comparison of a total preorder. Nothing is
  assumed about the comparison of a record with itself: the callback of the stable sort
  calls such a record greater than itself.\<close>

locale comparator =
  fixes A :: "'a set" and cmp :: "'a \<Rightarrow> 'a \<Rightarrow> int"
  assumes le_trans: "x \<in> A \<Longrightarrow> y \<in> A \<Longrightarrow> z \<in> A \<Longrightarrow> x \<noteq> z \<Longrightarrow> cmp x y \<le> 0 \<Longrightarrow> cmp y z \<le> 0 \<Longrightarrow> cmp x z \<le> 0"
    and le_total: "x \<in> A \<Longrightarrow> y \<in> A \<Longrightarrow> x \<noteq> y \<Longrightarrow> 0 \<le> cmp x y \<Longrightarrow> cmp y x \<le> 0"

text \<open>The records that a sort can bring in order: without repetition, unless the comparison
  is reflexive on them.\<close>

definition sortable :: "('a \<Rightarrow> 'a \<Rightarrow> int) \<Rightarrow> 'a list \<Rightarrow> bool" where
  "sortable cmp xs \<longleftrightarrow> distinct xs \<or> (\<forall>x \<in> set xs. cmp x x \<le> 0)"

abbreviation cmp_sorted :: "('a \<Rightarrow> 'a \<Rightarrow> int) \<Rightarrow> 'a list \<Rightarrow> bool" where
  "cmp_sorted cmp \<equiv> sorted_wrt (\<lambda>x y. cmp x y \<le> 0)"

subsection \<open>The code\<close>

type_synonym 'p links = "'p \<rightharpoonup> 'p option"

record 'p tape =
  tp_first :: "'p option"
  tp_last :: "'p option"
  tp_count :: nat

text \<open>The records are dealt to the tapes 0 and 1, each to the front of its tape.\<close>

partial_function (option) distribute ::
  "'p links \<Rightarrow> (nat \<Rightarrow> 'p tape) \<Rightarrow> 'p option \<Rightarrow> nat \<Rightarrow> ('p links \<times> (nat \<Rightarrow> 'p tape)) option" where
  "distribute h T p base =
     (case p of
        None \<Rightarrow> Some (h, T)
      | Some r \<Rightarrow>
          (case h r of
             None \<Rightarrow> None
           | Some nxt \<Rightarrow>
               distribute (h(r \<mapsto> tp_first (T base)))
                 (T(base := (T base)\<lparr>tp_first := Some r, tp_count := tp_count (T base) + 1\<rparr>))
                 nxt (Bit_Operations.xor base 1)))"

text \<open>The tail of the inner loop: the first record of the chosen tape goes to the output tape.\<close>

definition move_record ::
  "'p links \<Rightarrow> (nat \<Rightarrow> 'p tape) \<Rightarrow> nat \<Rightarrow> nat \<Rightarrow> ('p links \<times> (nat \<Rightarrow> 'p tape)) option" where
  "move_record h T chosen dest =
     do {
       r \<leftarrow> tp_first (T chosen);
       nxt \<leftarrow> h r;
       let T = T(chosen := (T chosen)\<lparr>tp_count := tp_count (T chosen) - 1, tp_first := nxt\<rparr>);
       if tp_count (T dest) = 0 then
         Some (h, T(dest := \<lparr>tp_first = Some r, tp_last = Some r, tp_count = tp_count (T dest) + 1\<rparr>))
       else
         do {
           l \<leftarrow> tp_last (T dest);
           _ \<leftarrow> h l;
           Some (h(l \<mapsto> Some r), T(dest := (T dest)\<lparr>tp_last := Some r, tp_count := tp_count (T dest) + 1\<rparr>))
         }
     }"

text \<open>The choice that precedes it, \<open>None\<close> when the blocks of both tapes are used up.\<close>

definition choose_tape ::
  "('p \<Rightarrow> 'p \<Rightarrow> int) \<Rightarrow> (nat \<Rightarrow> 'p tape) \<Rightarrow> nat \<Rightarrow> nat \<Rightarrow> nat \<Rightarrow> nat \<Rightarrow> bool option option" where
  "choose_tape cmp T t0 t1 n0 n1 =
     (if n0 = 0 \<or> tp_count (T t0) = 0 then
        if n1 = 0 \<or> tp_count (T t1) = 0 then Some None else Some (Some True)
      else if n1 = 0 \<or> tp_count (T t1) = 0 then Some (Some False)
      else
        do {
          a \<leftarrow> tp_first (T t0);
          b \<leftarrow> tp_first (T t1);
          Some (Some (0 < cmp a b))
        })"

partial_function (option) merge_block ::
  "('p \<Rightarrow> 'p \<Rightarrow> int) \<Rightarrow> 'p links \<Rightarrow> (nat \<Rightarrow> 'p tape) \<Rightarrow> nat \<Rightarrow> nat \<Rightarrow> nat \<Rightarrow> nat \<Rightarrow> nat
     \<Rightarrow> ('p links \<times> (nat \<Rightarrow> 'p tape)) option" where
  "merge_block cmp h T t0 t1 dest n0 n1 =
     (case choose_tape cmp T t0 t1 n0 n1 of
        None \<Rightarrow> None
      | Some None \<Rightarrow> Some (h, T)
      | Some (Some second) \<Rightarrow>
          (case move_record h T (if second then t1 else t0) dest of
             None \<Rightarrow> None
           | Some (h, T) \<Rightarrow>
               merge_block cmp h T t0 t1 dest (if second then n0 else n0 - 1) (if second then n1 - 1 else n1)))"

partial_function (option) merge_pass ::
  "('p \<Rightarrow> 'p \<Rightarrow> int) \<Rightarrow> 'p links \<Rightarrow> (nat \<Rightarrow> 'p tape) \<Rightarrow> nat \<Rightarrow> nat \<Rightarrow> nat \<Rightarrow> nat
     \<Rightarrow> ('p links \<times> (nat \<Rightarrow> 'p tape)) option" where
  "merge_pass cmp h T t0 t1 dest block_size =
     (if tp_count (T t0) \<noteq> 0 then
        case merge_block cmp h T t0 t1 dest block_size block_size of
          None \<Rightarrow> None
        | Some (h, T) \<Rightarrow> merge_pass cmp h T t0 t1 (Bit_Operations.xor dest 1) block_size
      else Some (h, T))"

partial_function (option) sort_loop ::
  "('p \<Rightarrow> 'p \<Rightarrow> int) \<Rightarrow> 'p links \<Rightarrow> (nat \<Rightarrow> 'p tape) \<Rightarrow> nat \<Rightarrow> nat
     \<Rightarrow> ('p links \<times> (nat \<Rightarrow> 'p tape) \<times> nat) option" where
  "sort_loop cmp h T base block_size =
     (if tp_count (T (base + 1)) \<noteq> 0 then
        let dest = Bit_Operations.xor base 2;
            T = T(dest := (T dest)\<lparr>tp_count := 0\<rparr>, dest + 1 := (T (dest + 1))\<lparr>tp_count := 0\<rparr>)
        in case merge_pass cmp h T base (base + 1) dest block_size of
             None \<Rightarrow> None
           | Some (h, T) \<Rightarrow> sort_loop cmp h T (Bit_Operations.xor base 2) (block_size * 2)
      else Some (h, T, base))"

text \<open>The result: the links, the first record of the sorted list and its length.\<close>

definition sort_linked_list ::
  "('p \<Rightarrow> 'p \<Rightarrow> int) \<Rightarrow> (nat \<Rightarrow> 'p tape) \<Rightarrow> 'p links \<Rightarrow> 'p option \<Rightarrow> ('p links \<times> 'p option \<times> nat) option" where
  "sort_linked_list cmp junk h p =
     do {
       let T = junk(0 := (junk 0)\<lparr>tp_count := 0, tp_first := None\<rparr>, 1 := (junk 1)\<lparr>tp_count := 0\<rparr>);
       (h, T) \<leftarrow> distribute h T p 0;
       (h, T, base) \<leftarrow> sort_loop cmp h T 0 1;
       h \<leftarrow> (if tp_count (T base) > 1 then
              do { l \<leftarrow> tp_last (T base); _ \<leftarrow> h l; Some (h(l \<mapsto> None)) }
            else Some h);
       Some (h, tp_first (T base), tp_count (T base))
     }"

declare distribute.simps [code] merge_block.simps [code] merge_pass.simps [code] sort_loop.simps [code]

subsection \<open>Lists in the links\<close>

fun chain :: "'p links \<Rightarrow> 'p option \<Rightarrow> 'p list \<Rightarrow> bool" where
  "chain h p [] = True"
| "chain h p (x # xs) = (p = Some x \<and> (case h x of None \<Rightarrow> False | Some q \<Rightarrow> chain h q xs))"

fun null_terminated :: "'p links \<Rightarrow> 'p option \<Rightarrow> 'p list \<Rightarrow> bool" where
  "null_terminated h p [] = (p = None)"
| "null_terminated h p (x # xs) = (p = Some x \<and> (case h x of None \<Rightarrow> False | Some q \<Rightarrow> null_terminated h q xs))"

lemma chain_frame [simp]: "x \<notin> set xs \<Longrightarrow> chain (h(x \<mapsto> q)) p xs = chain h p xs"
  by (induction xs arbitrary: p) (auto split: option.split)

lemma null_terminated_frame [simp]: "x \<notin> set xs \<Longrightarrow> null_terminated (h(x \<mapsto> q)) p xs = null_terminated h p xs"
  by (induction xs arbitrary: p) (auto split: option.split)

lemma chain_snoc:
  assumes "chain h p xs" "xs \<noteq> []" "distinct xs" "x \<notin> set xs" "h x = Some q"
  shows "chain (h(last xs \<mapsto> Some x)) p (xs @ [x])"
  using assms
proof (induction xs arbitrary: p)
  case (Cons y ys)
  then show ?case
    by (cases ys) (auto split: option.splits)
qed simp

lemma chain_null_terminated:
  assumes "chain h p xs" "xs \<noteq> []" "distinct xs"
  shows "null_terminated (h(last xs \<mapsto> None)) p xs"
  using assms
proof (induction xs arbitrary: p)
  case (Cons y ys)
  then show ?case
    by (cases ys) (auto split: option.splits)
qed simp

lemma chain_valid: "chain h p xs \<Longrightarrow> x \<in> set xs \<Longrightarrow> h x \<noteq> None"
  by (induction xs arbitrary: p) (auto split: option.splits)

subsection \<open>The contents of the tapes\<close>

definition tapes_hold :: "nat set \<Rightarrow> 'p links \<Rightarrow> (nat \<Rightarrow> 'p tape) \<Rightarrow> (nat \<Rightarrow> 'p list) \<Rightarrow> bool" where
  "tapes_hold S h T L \<longleftrightarrow>
     (\<forall>i \<in> S. chain h (tp_first (T i)) (L i) \<and> tp_count (T i) = length (L i) \<and> distinct (L i) \<and>
        (\<forall>j \<in> S. i \<noteq> j \<longrightarrow> set (L i) \<inter> set (L j) = {}))"

definition last_ok :: "(nat \<Rightarrow> 'p tape) \<Rightarrow> (nat \<Rightarrow> 'p list) \<Rightarrow> nat \<Rightarrow> bool" where
  "last_ok T L i \<longleftrightarrow> L i = [] \<or> tp_last (T i) = Some (last (L i))"

definition recs :: "nat set \<Rightarrow> (nat \<Rightarrow> 'p list) \<Rightarrow> 'p set" where
  "recs S L = (\<Union>i \<in> S. set (L i))"

definition frame :: "'p set \<Rightarrow> 'p links \<Rightarrow> 'p links \<Rightarrow> bool" where
  "frame A h h' \<longleftrightarrow> (\<forall>q. q \<notin> A \<longrightarrow> h' q = h q)"

lemma frame_refl [simp]: "frame A h h" by (simp add: frame_def)

lemma frame_trans: "frame A h h1 \<Longrightarrow> frame A h1 h2 \<Longrightarrow> frame A h h2"
  by (simp add: frame_def)

definition moved :: "(nat \<Rightarrow> 'p list) \<Rightarrow> nat \<Rightarrow> nat \<Rightarrow> (nat \<Rightarrow> 'p list)" where
  "moved L c d = L(c := tl (L c), d := L d @ [hd (L c)])"

lemma moved_simps [simp]:
  "c \<noteq> d \<Longrightarrow> moved L c d c = tl (L c)" "moved L c d d = L d @ [hd (L c)]"
  "i \<noteq> c \<Longrightarrow> i \<noteq> d \<Longrightarrow> moved L c d i = L i"
  by (simp_all add: moved_def)

lemma recs_moved:
  assumes "c \<in> S" "d \<in> S" "c \<noteq> d" "L c \<noteq> []"
  shows "recs S (moved L c d) = recs S L"
proof -
  have "set (L c) = insert (hd (L c)) (set (tl (L c)))" using assms(4) by (cases "L c") auto
  with assms(1-3) show ?thesis
    unfolding recs_def moved_def by (fastforce split: if_splits)
qed

lemma tapes_holdD:
  assumes "tapes_hold S h T L" "i \<in> S"
  shows "chain h (tp_first (T i)) (L i)" "tp_count (T i) = length (L i)" "distinct (L i)"
    "j \<in> S \<Longrightarrow> i \<noteq> j \<Longrightarrow> set (L i) \<inter> set (L j) = {}"
  using assms by (auto simp: tapes_hold_def)

lemma move_record_ok:
  assumes hold: "tapes_hold S h T L" and S: "c \<in> S" "d \<in> S" "c \<noteq> d"
    and ne: "L c \<noteq> []" and last: "last_ok T L d"
  shows "\<exists>h' T'. move_record h T c d = Some (h', T') \<and> tapes_hold S h' T' (moved L c d)
    \<and> last_ok T' (moved L c d) d \<and> (\<forall>i. i \<noteq> d \<longrightarrow> tp_last (T' i) = tp_last (T i)) \<and> frame (recs S L) h h'"
proof -
  obtain r rest where r: "L c = r # rest" using ne by (cases "L c") auto
  note C = tapes_holdD[OF hold S(1)] and D = tapes_holdD[OF hold S(2)]
  obtain q where q: "tp_first (T c) = Some r" "h r = Some q" "chain h q rest"
    using C(1) r by (auto split: option.splits)
  have dis: "r \<notin> set rest" "r \<notin> set (L d)" "set rest \<inter> set (L d) = {}"
    using C(3) C(4)[OF S(2,3)] r by auto
  have others: "r \<notin> set (L i)" "set rest \<inter> set (L i) = {}" "set (L d) \<inter> set (L i) = {}"
    if "i \<in> S" "i \<noteq> c" "i \<noteq> d" for i
    using tapes_holdD(4)[OF hold S(1) that(1)] tapes_holdD(4)[OF hold S(2) that(1)] that r by auto
  define T1 where "T1 = T(c := (T c)\<lparr>tp_count := tp_count (T c) - 1, tp_first := q\<rparr>)"
  show ?thesis
  proof (cases "L d = []")
    case True
    define T2 where "T2 = T1(d := \<lparr>tp_first = Some r, tp_last = Some r, tp_count = 1\<rparr>)"
    have "move_record h T c d = Some (h, T2)"
      using q S True D(2) by (simp add: move_record_def T2_def T1_def)
    moreover have "tapes_hold S h T2 (moved L c d)"
      unfolding tapes_hold_def
    proof (intro ballI conjI impI)
      fix i assume i: "i \<in> S"
      show "chain h (tp_first (T2 i)) (moved L c d i)"
        using tapes_holdD(1)[OF hold i] q r S True by (auto simp: T2_def T1_def moved_def)
      show "tp_count (T2 i) = length (moved L c d i)" "distinct (moved L c d i)"
        using tapes_holdD(2,3)[OF hold i] C(2,3) r S True by (auto simp: T2_def T1_def moved_def)
      fix j assume j: "j \<in> S" "i \<noteq> j"
      show "set (moved L c d i) \<inter> set (moved L c d j) = {}"
        using tapes_holdD(4)[OF hold i j] i j r S True dis others by (auto simp: moved_def)
    qed
    ultimately show ?thesis using True S r by (auto simp: last_ok_def T2_def T1_def)
  next
    case False
    define l where "l = last (L d)"
    have l: "l \<in> set (L d)" "tp_last (T d) = Some l" using False last by (auto simp: l_def last_ok_def)
    define T2 where "T2 = T1(d := (T d)\<lparr>tp_last := Some r, tp_count := tp_count (T d) + 1\<rparr>)"
    have "move_record h T c d = Some (h(l \<mapsto> Some r), T2)"
      using q S False D(2) l chain_valid[OF D(1) l(1)] by (auto simp: move_record_def T2_def T1_def)
    moreover have "tapes_hold S (h(l \<mapsto> Some r)) T2 (moved L c d)"
      unfolding tapes_hold_def
    proof (intro ballI conjI impI)
      fix i assume i: "i \<in> S"
      have "chain (h(l \<mapsto> Some r)) (tp_first (T d)) (L d @ [r])"
        using chain_snoc[OF D(1) False D(3) dis(2) q(2)] by (simp add: l_def)
      moreover have "chain (h(l \<mapsto> Some r)) q rest" using q(3) dis l(1) by (subst chain_frame) auto
      moreover have "chain (h(l \<mapsto> Some r)) (tp_first (T i)) (L i)" if "i \<noteq> c" "i \<noteq> d"
        using others(3)[OF i that] l(1) tapes_holdD(1)[OF hold i] by (subst chain_frame) auto
      ultimately show "chain (h(l \<mapsto> Some r)) (tp_first (T2 i)) (moved L c d i)"
        using r S by (auto simp: T2_def T1_def moved_def)
      show "tp_count (T2 i) = length (moved L c d i)" "distinct (moved L c d i)"
        using tapes_holdD(2,3)[OF hold i] C(2,3) D(2,3) r S dis by (auto simp: T2_def T1_def moved_def)
      fix j assume j: "j \<in> S" "i \<noteq> j"
      show "set (moved L c d i) \<inter> set (moved L c d j) = {}"
        using tapes_holdD(4)[OF hold i j] i j r S dis others by (auto simp: moved_def)
    qed
    moreover have "l \<in> recs S L" using l(1) S(2) by (auto simp: recs_def)
    ultimately show ?thesis using S r by (auto simp: last_ok_def T2_def T1_def frame_def)
  qed
qed

subsection \<open>Merging\<close>

text \<open>The merge of two lists, \<open>later x y\<close> telling whether the head \<open>x\<close> of the first goes
  after the head \<open>y\<close> of the second.\<close>

fun lmerge :: "('a \<Rightarrow> 'a \<Rightarrow> bool) \<Rightarrow> 'a list \<Rightarrow> 'a list \<Rightarrow> 'a list" where
  "lmerge later [] ys = ys"
| "lmerge later xs [] = xs"
| "lmerge later (x # xs) (y # ys) =
     (if later x y then y # lmerge later (x # xs) ys else x # lmerge later xs (y # ys))"

lemma lmerge_Nil2 [simp]: "lmerge later xs [] = xs"
  by (cases xs) simp_all

lemma mset_lmerge [simp]: "mset (lmerge later xs ys) = mset xs + mset ys"
  by (induction later xs ys rule: lmerge.induct) simp_all

lemma set_lmerge [simp]: "set (lmerge later xs ys) = set xs \<union> set ys"
  by (metis mset_lmerge set_mset_mset set_mset_union)

lemma length_lmerge [simp]: "length (lmerge later xs ys) = length xs + length ys"
  by (metis mset_lmerge size_mset size_union)

lemma lmerge_step:
  assumes "r0 \<noteq> [] \<or> r1 \<noteq> []"
  shows "lmerge later r0 r1 =
    (if r0 = [] \<or> r1 \<noteq> [] \<and> later (hd r0) (hd r1) then hd r1 # lmerge later r0 (tl r1)
     else hd r0 # lmerge later (tl r0) r1)"
  using assms by (cases r0; cases r1) simp_all

abbreviation after :: "('a \<Rightarrow> 'a \<Rightarrow> int) \<Rightarrow> 'a \<Rightarrow> 'a \<Rightarrow> bool" where
  "after cmp x y \<equiv> 0 < cmp x y"

text \<open>A block of at most \<open>n\<close> records at the head of a tape that goes on with \<open>A\<close>.\<close>

definition block_of :: "nat \<Rightarrow> 'p list \<Rightarrow> 'p list \<Rightarrow> bool" where
  "block_of n r A \<longleftrightarrow> length r \<le> n \<and> (length r = n \<or> A = [])"

lemma block_of_tl: "block_of n (x # r) A \<Longrightarrow> block_of (n - 1) r A"
  by (auto simp: block_of_def)

lemma block_of_end: "block_of n [] A \<Longrightarrow> n = 0 \<or> A = []"
  by (auto simp: block_of_def)

lemma block_of_ne: "block_of n (x # r) A \<Longrightarrow> n \<noteq> 0"
  by (auto simp: block_of_def)

lemma choose_tape_ok:
  assumes "tapes_hold S h T L" "t0 \<in> S" "t1 \<in> S" "L t0 = r0 @ A" "L t1 = r1 @ B"
    and "block_of n0 r0 A" "block_of n1 r1 B"
  shows "choose_tape cmp T t0 t1 n0 n1 = Some
    (if r0 = [] then if r1 = [] then None else Some True
     else if r1 = [] then Some False else Some (0 < cmp (hd r0) (hd r1)))"
  using tapes_holdD(1,2)[OF assms(1,2)] tapes_holdD(1,2)[OF assms(1,3)] assms(4-)
    block_of_end[of n0 A] block_of_end[of n1 B] block_of_ne[of n0 _ _ A] block_of_ne[of n1 _ _ B]
  by (cases r0; cases r1) (auto simp: choose_tape_def)

definition merged :: "(nat \<Rightarrow> 'p list) \<Rightarrow> nat \<Rightarrow> nat \<Rightarrow> nat \<Rightarrow> 'p list \<Rightarrow> 'p list \<Rightarrow> 'p list \<Rightarrow> (nat \<Rightarrow> 'p list)" where
  "merged L t0 t1 d A B out = L(t0 := A, t1 := B, d := L d @ out)"

lemma merge_block_ok:
  assumes "tapes_hold S h T L" "t0 \<in> S" "t1 \<in> S" "d \<in> S" "t0 \<noteq> t1" "t0 \<noteq> d" "t1 \<noteq> d"
    and "L t0 = r0 @ A" "L t1 = r1 @ B" "block_of n0 r0 A" "block_of n1 r1 B" "last_ok T L d"
  shows "\<exists>h' T'. merge_block cmp h T t0 t1 d n0 n1 = Some (h', T')
    \<and> tapes_hold S h' T' (merged L t0 t1 d A B (lmerge (after cmp) r0 r1))
    \<and> last_ok T' (merged L t0 t1 d A B (lmerge (after cmp) r0 r1)) d
    \<and> (\<forall>i. i \<noteq> d \<longrightarrow> tp_last (T' i) = tp_last (T i))
    \<and> recs S (merged L t0 t1 d A B (lmerge (after cmp) r0 r1)) = recs S L \<and> frame (recs S L) h h'"
  using assms
proof (induction "length r0 + length r1" arbitrary: h T L n0 n1 r0 r1 rule: less_induct)
  case less
  note hold = less.prems(1) and S = less.prems(2-4) and ne = less.prems(5-7) and L0 = less.prems(8)
    and L1 = less.prems(9) and b0 = less.prems(10) and b1 = less.prems(11) and last = less.prems(12)
  note choose = choose_tape_ok[OF hold S(1,2) L0 L1 b0 b1, of cmp]
  show ?case
  proof (cases "r0 = [] \<and> r1 = []")
    case True
    then have "merged L t0 t1 d A B [] = L" using L0 L1 ne by (auto simp: merged_def)
    with True choose hold last show ?thesis by (subst merge_block.simps) simp
  next
    case False
    define sec where "sec \<longleftrightarrow> r0 = [] \<or> r1 \<noteq> [] \<and> 0 < cmp (hd r0) (hd r1)"
    define c where "c = (if sec then t1 else t0)"
    have c: "c \<in> S" "c \<noteq> d" "L c \<noteq> []"
      using S ne L0 L1 False by (auto simp: c_def sec_def)
    obtain h1 T1 where 1: "move_record h T c d = Some (h1, T1)" "tapes_hold S h1 T1 (moved L c d)"
      "last_ok T1 (moved L c d) d" "\<forall>i. i \<noteq> d \<longrightarrow> tp_last (T1 i) = tp_last (T i)" "frame (recs S L) h h1"
      using move_record_ok[OF hold c(1) S(3) c(2,3) last] by blast
    have recs1: "recs S (moved L c d) = recs S L" using c S by (intro recs_moved)
    define r0' r1' where "r0' = (if sec then r0 else tl r0)" and "r1' = (if sec then tl r1 else r1)"
    define n0' n1' where "n0' = (if sec then n0 else n0 - 1)" and "n1' = (if sec then n1 - 1 else n1)"
    have shape: "moved L c d t0 = r0' @ A" "moved L c d t1 = r1' @ B"
      using L0 L1 ne False by (auto simp: c_def r0'_def r1'_def sec_def)
    have blocks: "block_of n0' r0' A" "block_of n1' r1' B"
      using b0 b1 False block_of_tl[of n0 "hd r0" "tl r0" A] block_of_tl[of n1 "hd r1" "tl r1" B]
      by (auto simp: n0'_def n1'_def r0'_def r1'_def sec_def)
    have "length r0' + length r1' < length r0 + length r1"
      using False by (cases r0; cases r1) (auto simp: r0'_def r1'_def sec_def)
    from less.hyps[OF this 1(2) S ne shape blocks 1(3)] obtain h' T' where
      2: "merge_block cmp h1 T1 t0 t1 d n0' n1' = Some (h', T')"
      "tapes_hold S h' T' (merged (moved L c d) t0 t1 d A B (lmerge (after cmp) r0' r1'))"
      "last_ok T' (merged (moved L c d) t0 t1 d A B (lmerge (after cmp) r0' r1')) d"
      "\<forall>i. i \<noteq> d \<longrightarrow> tp_last (T' i) = tp_last (T1 i)"
      "recs S (merged (moved L c d) t0 t1 d A B (lmerge (after cmp) r0' r1')) = recs S (moved L c d)"
      "frame (recs S (moved L c d)) h1 h'"
      by blast
    have "lmerge (after cmp) r0 r1 = hd (L c) # lmerge (after cmp) r0' r1'"
      using lmerge_step[of r0 r1 "after cmp"] False L0 L1 by (auto simp: c_def r0'_def r1'_def sec_def)
    then have M: "merged (moved L c d) t0 t1 d A B (lmerge (after cmp) r0' r1') = merged L t0 t1 d A B (lmerge (after cmp) r0 r1)"
      using ne by (auto simp: merged_def moved_def c_def fun_eq_iff)
    have "merge_block cmp h T t0 t1 d n0 n1 = Some (h', T')"
      using choose False 1(1) 2(1)
      by (subst merge_block.simps) (auto simp: sec_def c_def n0'_def n1'_def split: if_splits)
    with 1(4,5) 2(2-6) show ?thesis
      unfolding M recs1 using frame_trans[OF 1(5)] by simp
  qed
qed

subsection \<open>Passes over runs\<close>

text \<open>The blocks dealt alternately to two tapes, and the runs that one pass makes of them.\<close>

fun evens :: "'a list \<Rightarrow> 'a list" and odds :: "'a list \<Rightarrow> 'a list" where
  "evens [] = []"
| "evens (x # xs) = x # odds xs"
| "odds [] = []"
| "odds (x # xs) = evens xs"

fun pair_merge :: "('a \<Rightarrow> 'a \<Rightarrow> bool) \<Rightarrow> 'a list list \<Rightarrow> 'a list list" where
  "pair_merge later [] = []"
| "pair_merge later [r] = [r]"
| "pair_merge later (r # s # R) = lmerge later r s # pair_merge later R"

fun runs :: "nat \<Rightarrow> 'a list list \<Rightarrow> bool" where
  "runs n [] = True"
| "runs n (r # R) = (r \<noteq> [] \<and> length r \<le> n \<and> (R = [] \<or> length r = n) \<and> runs n R)"

lemma pair_merge_Nil [simp]: "pair_merge later R = [] \<longleftrightarrow> R = []"
  by (cases "(later, R)" rule: pair_merge.cases) simp_all

lemma lmerge_Nil_iff [simp]: "lmerge later r s = [] \<longleftrightarrow> r = [] \<and> s = []"
  by (metis length_0_conv length_lmerge add_is_0)

lemma runs_pair_merge: "runs n R \<Longrightarrow> runs (n * 2) (pair_merge later R)"
  by (induction later R rule: pair_merge.induct) auto

lemma length_pair_merge: "length (pair_merge later R) = (length R + 1) div 2"
  by (induction later R rule: pair_merge.induct) auto

lemma mset_pair_merge: "mset (concat (pair_merge later R)) = mset (concat R)"
  by (induction later R rule: pair_merge.induct) auto

definition passed ::
  "(nat \<Rightarrow> 'p list) \<Rightarrow> nat \<Rightarrow> nat \<Rightarrow> nat \<Rightarrow> nat \<Rightarrow> 'p list list \<Rightarrow> (nat \<Rightarrow> 'p list)" where
  "passed L t0 t1 d d' R = L(t0 := [], t1 := [], d := L d @ concat (evens R), d' := L d' @ concat (odds R))"

lemma block_of_run: "runs n (r # R) \<Longrightarrow> R = [] \<longrightarrow> A = [] \<Longrightarrow> block_of n r A"
  by (auto simp: block_of_def)

lemma concat_evens_Nil: "runs n R \<Longrightarrow> concat (evens R) = [] \<longleftrightarrow> R = []"
  by (cases R) auto

lemma merge_pass_ok:
  assumes "tapes_hold S h T L" "t0 \<in> S" "t1 \<in> S" "d \<in> S" "d' \<in> S" "distinct [t0, t1, d, d']"
    and "Bit_Operations.xor d 1 = d'" "Bit_Operations.xor d' 1 = d"
    and "L t0 = concat (evens R)" "L t1 = concat (odds R)" "runs n R" "last_ok T L d" "last_ok T L d'"
  shows "\<exists>h' T'. merge_pass cmp h T t0 t1 d n = Some (h', T')
    \<and> tapes_hold S h' T' (passed L t0 t1 d d' (pair_merge (after cmp) R))
    \<and> last_ok T' (passed L t0 t1 d d' (pair_merge (after cmp) R)) d
    \<and> last_ok T' (passed L t0 t1 d d' (pair_merge (after cmp) R)) d'
    \<and> recs S (passed L t0 t1 d d' (pair_merge (after cmp) R)) = recs S L \<and> frame (recs S L) h h'"
  using assms
proof (induction "after cmp" R arbitrary: h T L d d' rule: pair_merge.induct)
  case 1
  then have "passed L t0 t1 d d' [] = L" by (auto simp: passed_def)
  with 1 tapes_holdD(2)[OF 1(1,2)] show ?case by (subst merge_pass.simps) simp
next
  case (2 r)
  have ne: "tp_count (T t0) \<noteq> 0" using tapes_holdD(2)[OF 2(1,2)] 2(9,11) by simp
  have d: "t0 \<noteq> t1" "t0 \<noteq> d" "t1 \<noteq> d" using 2(6) by auto
  have L: "L t0 = r @ []" "L t1 = [] @ []" using 2(9,10) by simp_all
  have b: "block_of n r []" "block_of n [] []" using 2(11) by (auto simp: block_of_def)
  obtain h' T' where 3: "merge_block cmp h T t0 t1 d n n = Some (h', T')"
    "tapes_hold S h' T' (merged L t0 t1 d [] [] (lmerge (after cmp) r []))"
    "last_ok T' (merged L t0 t1 d [] [] (lmerge (after cmp) r [])) d"
    "\<forall>i. i \<noteq> d \<longrightarrow> tp_last (T' i) = tp_last (T i)"
    "recs S (merged L t0 t1 d [] [] (lmerge (after cmp) r [])) = recs S L" "frame (recs S L) h h'"
    using merge_block_ok[OF 2(1-4) d L b 2(12), of cmp] by blast
  have M: "merged L t0 t1 d [] [] (lmerge (after cmp) r []) = passed L t0 t1 d d' (pair_merge (after cmp) [r])"
    using 2(6) by (auto simp: merged_def passed_def fun_eq_iff)
  have "tp_count (T' t0) = 0"
    using tapes_holdD(2)[OF 3(2) 2(2)] d by (simp add: merged_def)
  then have "merge_pass cmp h T t0 t1 d n = Some (h', T')"
    using 3(1) ne by (subst merge_pass.simps, simp) (subst merge_pass.simps, simp)
  moreover have "last_ok T' (passed L t0 t1 d d' (pair_merge (after cmp) [r])) d'"
    using 2(6,13) 3(4) by (auto simp: last_ok_def passed_def)
  ultimately show ?case using 3 unfolding M by blast
next
  case (3 r s R)
  have ne: "tp_count (T t0) \<noteq> 0" using tapes_holdD(2)[OF 3(2,3)] 3(10,12) by auto
  have d: "t0 \<noteq> t1" "t0 \<noteq> d" "t1 \<noteq> d" and d': "d' \<noteq> d" "d' \<noteq> t0" "d' \<noteq> t1" using 3(7) by auto
  have L: "L t0 = r @ concat (evens R)" "L t1 = s @ concat (odds R)" using 3(10,11) by simp_all
  have b: "block_of n r (concat (evens R))" "block_of n s (concat (odds R))"
    using 3(12) by (auto simp: block_of_def)
  define L1 where "L1 = merged L t0 t1 d (concat (evens R)) (concat (odds R)) (lmerge (after cmp) r s)"
  obtain h1 T1 where 4: "merge_block cmp h T t0 t1 d n n = Some (h1, T1)"
    "tapes_hold S h1 T1 L1" "last_ok T1 L1 d" "\<forall>i. i \<noteq> d \<longrightarrow> tp_last (T1 i) = tp_last (T i)"
    "recs S L1 = recs S L" "frame (recs S L) h h1"
    using merge_block_ok[OF 3(2-5) d L b 3(13), of cmp] unfolding L1_def by blast
  have "L1 t0 = concat (evens R)" "L1 t1 = concat (odds R)" "runs n R" "last_ok T1 L1 d'" "distinct [t0, t1, d', d]"
    using d d' 3(12,14) 4(4) by (auto simp: L1_def merged_def last_ok_def)
  from 3(1)[OF 4(2) 3(3,4,6,5) this(5) 3(9,8) this(1,2,3,4) 4(3)] obtain h' T' where
    5: "merge_pass cmp h1 T1 t0 t1 d' n = Some (h', T')"
    "tapes_hold S h' T' (passed L1 t0 t1 d' d (pair_merge (after cmp) R))"
    "last_ok T' (passed L1 t0 t1 d' d (pair_merge (after cmp) R)) d'" "last_ok T' (passed L1 t0 t1 d' d (pair_merge (after cmp) R)) d"
    "recs S (passed L1 t0 t1 d' d (pair_merge (after cmp) R)) = recs S L1" "frame (recs S L1) h1 h'"
    by blast
  have M: "passed L1 t0 t1 d' d (pair_merge (after cmp) R) = passed L t0 t1 d d' (pair_merge (after cmp) (r # s # R))"
    using d d' by (auto simp: L1_def merged_def passed_def fun_eq_iff)
  have "merge_pass cmp h T t0 t1 d n = Some (h', T')"
    using 4(1) 5(1) ne 3(8) by (subst merge_pass.simps) simp
  with 5(2-6) show ?case unfolding M 4(5) using frame_trans[OF 4(6)] by blast
qed

lemma mset_evens_odds: "mset (concat (evens R)) + mset (concat (odds R)) = mset (concat R)"
  by (induction R) (simp_all add: add.commute add.left_commute)

lemma set_evens_odds: "set (concat (evens R)) \<union> set (concat (odds R)) = set (concat R)"
  by (metis mset_evens_odds set_mset_mset set_mset_union)

lemma concat_odds_Nil: "runs n R \<Longrightarrow> concat (odds R) = [] \<longleftrightarrow> length R \<le> 1"
proof (cases R)
  case (Cons r R')
  moreover assume "runs n R"
  ultimately show ?thesis using concat_evens_Nil[of n R'] by auto
qed simp

lemma tapes_hold_mono: "tapes_hold S h T L \<Longrightarrow> S' \<subseteq> S \<Longrightarrow> tapes_hold S' h T L"
  unfolding tapes_hold_def by blast

definition pair_ok :: "nat \<Rightarrow> 'p links \<Rightarrow> (nat \<Rightarrow> 'p tape) \<Rightarrow> nat \<Rightarrow> 'p list list \<Rightarrow> bool" where
  "pair_ok b h T n R \<longleftrightarrow> runs n R \<and>
     (\<exists>L. tapes_hold {b, b + 1} h T L \<and> L b = concat (evens R) \<and> L (b + 1) = concat (odds R)
        \<and> (last_ok T L b \<or> n = 1))"

lemma sort_round:
  assumes "pair_ok b h T n R" "b \<in> {0, 2}" "d = Bit_Operations.xor b 2"
  defines "T1 \<equiv> T(d := (T d)\<lparr>tp_count := 0\<rparr>, d + 1 := (T (d + 1))\<lparr>tp_count := 0\<rparr>)"
  shows "\<exists>h' T'. merge_pass cmp h T1 b (b + 1) d n = Some (h', T')
    \<and> pair_ok d h' T' (n * 2) (pair_merge (after cmp) R) \<and> frame (set (concat R)) h h'"
proof -
  obtain L where L: "runs n R" "tapes_hold {b, b + 1} h T L" "L b = concat (evens R)" "L (b + 1) = concat (odds R)"
    using assms(1) by (auto simp: pair_ok_def)
  define L1 where "L1 = L(d := [], d + 1 := [])"
  have d: "d \<noteq> b" "d \<noteq> b + 1" "d + 1 \<noteq> b" "Bit_Operations.xor d 1 = d + 1" "Bit_Operations.xor (d + 1) 1 = d"
    using assms(2,3) by auto
  let ?S = "{b, b + 1, d, d + 1}"
  have hold: "tapes_hold ?S h T1 L1"
    using L(2) d unfolding tapes_hold_def L1_def T1_def by auto
  have L1: "L1 b = concat (evens R)" "L1 (b + 1) = concat (odds R)" "L1 d = []" "L1 (d + 1) = []"
    using L(3,4) d by (simp_all add: L1_def)
  have ends: "last_ok T1 L1 d" "last_ok T1 L1 (d + 1)" unfolding last_ok_def L1 by simp_all
  have dist: "distinct [b, b + 1, d, d + 1]" using d by simp
  obtain h' T' where 1: "merge_pass cmp h T1 b (b + 1) d n = Some (h', T')"
    "tapes_hold ?S h' T' (passed L1 b (b + 1) d (d + 1) (pair_merge (after cmp) R))"
    "last_ok T' (passed L1 b (b + 1) d (d + 1) (pair_merge (after cmp) R)) d" "frame (recs ?S L1) h h'"
    using merge_pass_ok[OF hold _ _ _ _ dist d(4,5) L1(1,2) L(1) ends, of cmp] by auto
  have "recs ?S L1 = set (concat R)"
    using L1 set_evens_odds[of R] by (auto simp: recs_def)
  moreover have "pair_ok d h' T' (n * 2) (pair_merge (after cmp) R)"
    unfolding pair_ok_def
  proof (intro conjI exI)
    show "runs (n * 2) (pair_merge (after cmp) R)" using L(1) by (rule runs_pair_merge)
    show "tapes_hold {d, d + 1} h' T' (passed L1 b (b + 1) d (d + 1) (pair_merge (after cmp) R))"
      using 1(2) by (rule tapes_hold_mono) auto
  qed (use d L1 1(3) in \<open>simp_all add: passed_def\<close>)
  ultimately show ?thesis using 1 by auto
qed

lemma sort_loop_ok:
  assumes "pair_ok b h T n R" "b \<in> {0, 2}"
  shows "\<exists>h' T' b' n' k. sort_loop cmp h T b n = Some (h', T', b') \<and> length ((pair_merge (after cmp) ^^ k) R) \<le> 1
    \<and> pair_ok b' h' T' n' ((pair_merge (after cmp) ^^ k) R) \<and> frame (set (concat R)) h h'"
  using assms
proof (induction "length R" arbitrary: b h T n R rule: less_induct)
  case less
  obtain L where L: "runs n R" "tapes_hold {b, b + 1} h T L" "L (b + 1) = concat (odds R)"
    using less.prems(1) by (auto simp: pair_ok_def)
  have count: "tp_count (T (b + 1)) = 0 \<longleftrightarrow> length R \<le> 1"
    using tapes_holdD(2)[OF L(2), of "b + 1"] L(3) concat_odds_Nil[OF L(1)] by simp
  show ?case
  proof (cases "length R \<le> 1")
    case True
    with count less.prems(1) show ?thesis
      by (intro exI[of _ h] exI[of _ T] exI[of _ b] exI[of _ n] exI[of _ 0]) (simp add: sort_loop.simps)
  next
    case False
    define d where "d = Bit_Operations.xor b 2"
    have d: "d \<in> {0, 2}" using less.prems(2) by (auto simp: d_def)
    obtain h1 T1 where 1: "merge_pass cmp h (T(d := (T d)\<lparr>tp_count := 0\<rparr>, d + 1 := (T (d + 1))\<lparr>tp_count := 0\<rparr>)) b (b + 1) d n
        = Some (h1, T1)" "pair_ok d h1 T1 (n * 2) (pair_merge (after cmp) R)" "frame (set (concat R)) h h1"
      using sort_round[OF less.prems d_def, of cmp] by blast
    have "length (pair_merge (after cmp) R) < length R" using False by (simp add: length_pair_merge)
    from less.hyps[OF this 1(2) d] obtain h' T' b' n' k where
      2: "sort_loop cmp h1 T1 d (n * 2) = Some (h', T', b')"
      "length ((pair_merge (after cmp) ^^ k) (pair_merge (after cmp) R)) \<le> 1"
      "pair_ok b' h' T' n' ((pair_merge (after cmp) ^^ k) (pair_merge (after cmp) R))"
      "frame (set (concat (pair_merge (after cmp) R))) h1 h'" by blast
    have "set (concat (pair_merge (after cmp) R)) = set (concat R)"
      by (metis mset_pair_merge set_mset_mset)
    with 1(3) 2(4) have "frame (set (concat R)) h h'" using frame_trans by metis
    moreover have "sort_loop cmp h T b n = Some (h', T', b')"
      using 1(1) 2(1) count False by (subst sort_loop.simps) (simp add: d_def Let_def)
    ultimately show ?thesis
      using 2 by (intro exI[of _ h'] exI[of _ T'] exI[of _ b'] exI[of _ n'] exI[of _ "Suc k"])
        (simp add: funpow_swap1)
  qed
qed

subsection \<open>The distribution\<close>

lemma interleave_exists:
  assumes "length as = length bs \<or> length as = length bs + 1"
  shows "\<exists>xs. evens xs = as \<and> odds xs = bs"
  using assms
proof (induction as arbitrary: bs)
  case Nil
  then show ?case by (intro exI[of _ "[]"]) simp
next
  case (Cons a as)
  show ?case
  proof (cases bs)
    case Nil
    with Cons.prems show ?thesis by (intro exI[of _ "[a]"]) simp
  next
    case (Cons b bs')
    with Cons.prems have "length as = length bs' \<or> length as = length bs' + 1" by auto
    then obtain xs where "evens xs = as" "odds xs = bs'" using Cons.IH by blast
    with Cons show ?thesis by (intro exI[of _ "a # b # xs"]) simp
  qed
qed

lemma length_evens_odds: "length (evens xs) = length (odds xs) \<or> length (evens xs) = length (odds xs) + 1"
  by (induction xs) auto

lemma distribute_ok:
  assumes "tapes_hold {0, 1} h T L" "base \<in> {0, 1}" "null_terminated h p xs" "distinct xs"
    and "set xs \<inter> recs {0, 1} L = {}"
  shows "\<exists>h' T'. distribute h T p base = Some (h', T') \<and> frame (set xs) h h'
    \<and> tapes_hold {0, 1} h' T' (L(base := rev (evens xs) @ L base, 1 - base := rev (odds xs) @ L (1 - base)))"
  using assms
proof (induction xs arbitrary: h T L p base)
  case Nil
  then show ?case by (subst distribute.simps) simp
next
  case (Cons x xs)
  obtain q where q: "p = Some x" "h x = Some q" "null_terminated h q xs"
    using Cons.prems(3) by (auto split: option.splits)
  have x: "x \<notin> set xs" "distinct xs" "x \<notin> recs {0, 1} L" "set xs \<inter> recs {0, 1} L = {}"
    using Cons.prems(4,5) by auto
  define h1 where "h1 = h(x \<mapsto> tp_first (T base))"
  define T1 where "T1 = T(base := (T base)\<lparr>tp_first := Some x, tp_count := tp_count (T base) + 1\<rparr>)"
  define L1 where "L1 = L(base := x # L base)"
  have base: "base \<in> {0, 1}" "1 - base \<in> {0, 1}" "1 - base \<noteq> base" "Bit_Operations.xor base 1 = 1 - base"
    "1 - (1 - base) = base"
    using Cons.prems(2) by auto
  have "tapes_hold {0, 1} h1 T1 L1"
    unfolding tapes_hold_def
  proof (intro ballI conjI impI)
    fix i :: nat assume i: "i \<in> {0, 1}"
    have "x \<notin> set (L i)" "x \<notin> set (L base)" using x(3) i base(1) by (auto simp: recs_def)
    then show "chain h1 (tp_first (T1 i)) (L1 i)" "tp_count (T1 i) = length (L1 i)" "distinct (L1 i)"
      using tapes_holdD(1-3)[OF Cons.prems(1) i] tapes_holdD(1-3)[OF Cons.prems(1) base(1)]
      by (auto simp: h1_def T1_def L1_def)
    fix j :: nat assume j: "j \<in> {0, 1}" "i \<noteq> j"
    have "x \<notin> set (L j)" using x(3) j(1) by (auto simp: recs_def)
    with \<open>x \<notin> set (L i)\<close> show "set (L1 i) \<inter> set (L1 j) = {}"
      using tapes_holdD(4)[OF Cons.prems(1) i j] j(2) by (auto simp: L1_def)
  qed
  moreover have "null_terminated h1 q xs" using q(3) x(1) by (simp add: h1_def)
  moreover have "set xs \<inter> recs {0, 1} L1 = {}" using x(1,4) base(1) by (auto simp: recs_def L1_def split: if_splits)
  ultimately obtain h' T' where 1: "distribute h1 T1 q (1 - base) = Some (h', T')" "frame (set xs) h1 h'"
    "tapes_hold {0, 1} h' T' (L1(1 - base := rev (evens xs) @ L1 (1 - base),
        1 - (1 - base) := rev (odds xs) @ L1 (1 - (1 - base))))"
    using Cons.IH[OF _ base(2) _ x(2)] by blast
  have "L1(1 - base := rev (evens xs) @ L1 (1 - base), 1 - (1 - base) := rev (odds xs) @ L1 (1 - (1 - base)))
      = L(base := rev (evens (x # xs)) @ L base, 1 - base := rev (odds (x # xs)) @ L (1 - base))"
    using base by (auto simp: L1_def fun_eq_iff)
  with 1(3) have "tapes_hold {0, 1} h' T'
      (L(base := rev (evens (x # xs)) @ L base, 1 - base := rev (odds (x # xs)) @ L (1 - base)))" by simp
  moreover have "distribute h T p base = Some (h', T')"
    using 1(1) q base(4) by (subst distribute.simps) (simp add: h1_def T1_def)
  moreover have "frame (set (x # xs)) h h'" using 1(2) by (auto simp: frame_def h1_def)
  ultimately show ?case by blast
qed

subsection \<open>Sortedness\<close>

lemma mset_pair_merges: "mset (concat ((pair_merge later ^^ k) R)) = mset (concat R)"
  by (induction k) (simp_all add: mset_pair_merge)

lemma sortable_mset: "mset xs = mset ys \<Longrightarrow> sortable cmp xs = sortable cmp ys"
  unfolding sortable_def by (metis mset_eq_imp_distinct_iff mset_eq_setD)

lemma sortable_append: "sortable cmp (xs @ ys) \<Longrightarrow> sortable cmp xs \<and> sortable cmp ys"
  by (auto simp: sortable_def)

lemma sortable_tl: "sortable cmp (x # xs @ ys) \<Longrightarrow> sortable cmp (xs @ ys)"
    "sortable cmp (xs @ y # ys) \<Longrightarrow> sortable cmp (xs @ ys)"
  by (auto simp: sortable_def)

text \<open>A choice between two heads that agrees with the comparison.\<close>

definition picks_for :: "('a \<Rightarrow> 'a \<Rightarrow> bool) \<Rightarrow> ('a \<Rightarrow> 'a \<Rightarrow> int) \<Rightarrow> bool" where
  "picks_for later cmp \<longleftrightarrow> (\<forall>x y. if later x y then 0 \<le> cmp x y else cmp x y \<le> 0)"

lemma picks_for_after: "picks_for (after cmp) cmp"
  by (auto simp: picks_for_def)

context comparator
begin

lemma le_trans_sortable:
  assumes "x \<in> A" "y \<in> A" "z \<in> A" "cmp x y \<le> 0" "cmp y z \<le> 0" "x \<noteq> z \<or> cmp x x \<le> 0"
  shows "cmp x z \<le> 0"
  using assms le_trans[of x y z] by auto

lemma lmerge_sorted:
  assumes "picks_for later cmp" "cmp_sorted cmp xs" "cmp_sorted cmp ys" "set xs \<union> set ys \<subseteq> A" "sortable cmp (xs @ ys)"
  shows "cmp_sorted cmp (lmerge later xs ys)"
  using assms
proof (induction "length xs + length ys" arbitrary: xs ys rule: less_induct)
  case less
  show ?case
  proof (cases "xs = [] \<or> ys = []")
    case False
    then obtain x xs' y ys' where [simp]: "xs = x # xs'" "ys = y # ys'"
      by (metis neq_Nil_conv)
    have IH: "cmp_sorted cmp (lmerge later xs ys')" "cmp_sorted cmp (lmerge later xs' ys)"
      using less.prems sortable_tl(1)[of cmp x xs' ys] sortable_tl(2)[of cmp xs y ys']
      by (auto intro!: less.hyps)
    show ?thesis
    proof (cases "later x y")
      case True
      then have "0 \<le> cmp x y" using less.prems(1) by (simp add: picks_for_def)
      then have "cmp y x \<le> 0" using less.prems le_total[of x y] by (auto simp: sortable_def)
      moreover have "cmp y z \<le> 0" if "z \<in> set xs'" for z
        using less.prems that calculation le_trans_sortable[of y x z] by (auto simp: sortable_def)
      ultimately show ?thesis using less.prems IH(1) True by auto
    next
      case False
      then have "cmp x y \<le> 0" using less.prems(1) by (simp add: picks_for_def)
      moreover have "cmp x z \<le> 0" if "z \<in> set ys'" for z
        using less.prems that calculation le_trans_sortable[of x y z] by (auto simp: sortable_def)
      ultimately show ?thesis using less.prems IH(2) False by auto
    qed
  qed (use less.prems in auto)
qed

lemma pair_merge_sorted:
  assumes "picks_for later cmp" "\<forall>r \<in> set R. cmp_sorted cmp r" "set (concat R) \<subseteq> A" "sortable cmp (concat R)"
  shows "\<forall>r \<in> set (pair_merge later R). cmp_sorted cmp r"
  using assms(2-)
proof (induction R rule: induct_list012)
  case (3 r s R)
  then have "sortable cmp (r @ s)" "sortable cmp (concat R)"
    using sortable_append[of cmp "r @ s" "concat R"] by simp_all
  then have "cmp_sorted cmp (lmerge later r s)" "\<forall>r \<in> set (pair_merge later R). cmp_sorted cmp r"
    using 3 by (auto intro!: lmerge_sorted[OF assms(1)])
  then show ?case by simp
qed simp_all

lemma pair_merges_sorted:
  assumes "picks_for later cmp" "\<forall>r \<in> set R. cmp_sorted cmp r" "set (concat R) \<subseteq> A" "sortable cmp (concat R)"
  shows "\<forall>r \<in> set ((pair_merge later ^^ k) R). cmp_sorted cmp r"
proof (induction k)
  case (Suc k)
  have m: "mset (concat ((pair_merge later ^^ k) R)) = mset (concat R)" by (rule mset_pair_merges)
  have "set (concat ((pair_merge later ^^ k) R)) \<subseteq> A" using mset_eq_setD[OF m] assms(3) by simp
  then show ?case
    using pair_merge_sorted[OF assms(1) Suc] sortable_mset[OF m] assms(4) by simp
qed (use assms in simp)

end

lemma set_evens_odds_elems: "set R = set (evens R) \<union> set (odds R)"
  by (induction R) auto

lemma runs_singletons: "\<forall>r \<in> set R. length r = 1 \<Longrightarrow> runs 1 R"
  by (induction R) auto

lemma concat_singletons: "concat (map (\<lambda>x. [x]) xs) = xs"
  by (induction xs) simp_all

lemma deal_exists:
  "\<exists>R. concat (evens R) = rev (evens xs) \<and> concat (odds R) = rev (odds xs) \<and> (\<forall>r \<in> set R. length r = 1)"
proof -
  let ?s = "map (\<lambda>x. [x])"
  have "length (?s (rev (evens xs))) = length (?s (rev (odds xs)))
      \<or> length (?s (rev (evens xs))) = length (?s (rev (odds xs))) + 1"
    using length_evens_odds[of xs] by simp
  then obtain R where R: "evens R = ?s (rev (evens xs))" "odds R = ?s (rev (odds xs))"
    using interleave_exists by blast
  moreover have "\<forall>r \<in> set R. length r = 1"
    unfolding set_evens_odds_elems[of R] R by auto
  ultimately show ?thesis using concat_singletons by metis
qed

lemma mset_evens_odds_plain: "mset (evens xs) + mset (odds xs) = mset xs"
  by (induction xs) (simp_all add: add.commute add.left_commute)

lemma sort_linked_list_short:
  assumes "null_terminated h p xs" "distinct xs" "length xs \<le> 1"
  shows "\<exists>h' p'. sort_linked_list cmp junk h p = Some (h', p', length xs)
    \<and> null_terminated h' p' xs \<and> frame (set xs) h h'"
proof (cases xs)
  case Nil
  with assms show ?thesis
    by (simp add: sort_linked_list_def distribute.simps sort_loop.simps Let_def)
next
  case (Cons x xs')
  with assms have "xs' = []" "p = Some x" "h x = Some None" by (auto split: option.splits)
  with Cons show ?thesis
    by (simp add: sort_linked_list_def distribute.simps sort_loop.simps Let_def frame_def)
qed

lemma sort_linked_list_long:
  assumes "null_terminated h p xs" "distinct xs" "1 < length xs"
  shows "\<exists>h' p' ys k R. sort_linked_list cmp junk h p = Some (h', p', length xs) \<and> null_terminated h' p' ys
    \<and> mset ys = mset xs \<and> frame (set xs) h h'
    \<and> (\<forall>r \<in> set R. length r = 1) \<and> mset (concat R) = mset xs \<and> ys \<in> set ((pair_merge (after cmp) ^^ k) R)"
proof -
  define T0 where "T0 = junk(0 := (junk 0)\<lparr>tp_count := 0, tp_first := None\<rparr>, 1 := (junk 1)\<lparr>tp_count := 0\<rparr>)"
  have "tapes_hold {0, 1} h T0 (\<lambda>_. [])" by (simp add: tapes_hold_def T0_def)
  then obtain h1 T1 where 1: "distribute h T0 p 0 = Some (h1, T1)" "frame (set xs) h h1"
    "tapes_hold {0, 1} h1 T1 ((\<lambda>_. [])(0 := rev (evens xs), 1 := rev (odds xs)))"
    using distribute_ok[of h T0 "\<lambda>_. []" 0 p xs] assms(1,2) by (auto simp: recs_def)
  obtain R where R: "concat (evens R) = rev (evens xs)" "concat (odds R) = rev (odds xs)" "\<forall>r \<in> set R. length r = 1"
    using deal_exists by blast
  have mR: "mset (concat R) = mset xs"
    using mset_evens_odds[of R] mset_evens_odds_plain[of xs] by (simp add: R)
  then have sR: "set (concat R) = set xs" by (metis set_mset_mset)
  have "pair_ok 0 h1 T1 1 R"
    unfolding pair_ok_def using runs_singletons[OF R(3)] 1(3) R(1,2)
    by (intro conjI exI[of _ "(\<lambda>_. [])(0 := rev (evens xs), 1 := rev (odds xs))"]) simp_all
  then obtain h2 T2 b n k where 2: "sort_loop cmp h1 T1 0 1 = Some (h2, T2, b)"
    "length ((pair_merge (after cmp) ^^ k) R) \<le> 1" "pair_ok b h2 T2 n ((pair_merge (after cmp) ^^ k) R)" "frame (set xs) h1 h2"
    using sort_loop_ok[of 0 h1 T1 1 R cmp] sR by auto
  define R' where "R' = (pair_merge (after cmp) ^^ k) R"
  have mR': "mset (concat R') = mset xs" by (simp add: R'_def mset_pair_merges mR)
  then have "R' \<noteq> []" using assms(3) by auto
  then obtain r where r: "R' = [r]" using 2(2) by (cases R'; cases "tl R'") (simp_all flip: R'_def)
  have mr: "mset r = mset xs" using mR' r by simp
  then have len: "length r = length xs" "1 < length r" "r \<noteq> []" "distinct r"
    using assms(2,3) by (metis size_mset, metis size_mset, force, metis mset_eq_imp_distinct_iff)
  obtain L where L: "tapes_hold {b, b + 1} h2 T2 L" "L b = r" "last_ok T2 L b"
    using 2(3) len r unfolding pair_ok_def R'_def by fastforce
  note H = tapes_holdD[OF L(1), of b]
  have l: "tp_last (T2 b) = Some (last r)" "h2 (last r) \<noteq> None"
    using L len chain_valid[of h2 "tp_first (T2 b)" r "last r"] H(1) by (auto simp: last_ok_def)
  have "sort_linked_list cmp junk h p = Some (h2(last r \<mapsto> None), tp_first (T2 b), length xs)"
    unfolding sort_linked_list_def T0_def[symmetric] Let_def
    using 1(1) 2(1) l len H(2) L(2) by auto
  moreover have "null_terminated (h2(last r \<mapsto> None)) (tp_first (T2 b)) r"
    using chain_null_terminated H(1) L(2) len by simp
  moreover have "last r \<in> set xs" using mr len(3) by (metis last_in_set set_mset_mset)
  then have "frame (set xs) h (h2(last r \<mapsto> None))"
    using frame_trans[OF 1(2) 2(4)] by (auto simp: frame_def)
  moreover have "r \<in> set ((pair_merge (after cmp) ^^ k) R)" using r by (simp add: R'_def)
  ultimately show ?thesis using mr mR R(3) by blast
qed

lemma sort_linked_list_sorts:
  assumes "comparator (set xs) cmp" "null_terminated h p xs" "distinct xs"
  shows "\<exists>h' p' ys. sort_linked_list cmp junk h p = Some (h', p', length xs)
    \<and> null_terminated h' p' ys \<and> mset ys = mset xs \<and> cmp_sorted cmp ys \<and> (\<forall>q. q \<notin> set xs \<longrightarrow> h' q = h q)"
proof (cases "length xs \<le> 1")
  case True
  then have "cmp_sorted cmp xs" by (cases xs) auto
  with sort_linked_list_short[OF assms(2,3) True, of cmp junk] show ?thesis by (auto simp: frame_def)
next
  case False
  then obtain h' p' ys k R where 1: "sort_linked_list cmp junk h p = Some (h', p', length xs)"
    "null_terminated h' p' ys" "mset ys = mset xs" "frame (set xs) h h'"
    "\<forall>r \<in> set R. length r = 1" "mset (concat R) = mset xs" "ys \<in> set ((pair_merge (after cmp) ^^ k) R)"
    using sort_linked_list_long[OF assms(2,3), of cmp junk] by auto
  have "\<forall>r \<in> set R. cmp_sorted cmp r" using 1(5) by (auto simp: length_Suc_conv)
  moreover have "set (concat R) \<subseteq> set xs" "sortable cmp (concat R)"
    using 1(6) assms(3) mset_eq_setD mset_eq_imp_distinct_iff unfolding sortable_def by (metis order_refl, metis)
  ultimately have "cmp_sorted cmp ys" using comparator.pair_merges_sorted[OF assms(1) picks_for_after] 1(7) by blast
  with 1 show ?thesis by (auto simp: frame_def)
qed

text \<open>C12: Given a comparison that is a total preorder on the records, the linked-list sort returns, whatever
  the uninitialised tape members hold, and never follows a stale pointer: its result is a
  NULL-terminated list of the same records in sorted order, the count is their number and
  no other record's link is touched.\<close>

theorem sort_linked_list_correct:
  assumes "comparator (set xs) cmp" "null_terminated h p xs" "distinct xs"
  shows "\<exists>h' p' ys. sort_linked_list cmp junk h p = Some (h', p', length xs)
    \<and> null_terminated h' p' ys \<and> mset ys = mset xs \<and> cmp_sorted cmp ys \<and> (\<forall>q. q \<notin> set xs \<longrightarrow> h' q = h q)"
  using sort_linked_list_sorts[OF assms] .

lemma sort_linked_list_correct_witness:
  "\<exists>h' p' ys. sort_linked_list (\<lambda>x y. int x - int y) (\<lambda>_. \<lparr>tp_first = Some 9, tp_last = None, tp_count = 7\<rparr>)
      [3 \<mapsto> Some 1, 1 \<mapsto> Some 2, 2 \<mapsto> None] (Some (3 :: nat)) = Some (h', p', 3)
    \<and> null_terminated h' p' ys \<and> mset ys = {#3, 1, 2#} \<and> cmp_sorted (\<lambda>x y. int x - int y) ys"
proof -
  have 1: "comparator (set [3, 1, 2 :: nat]) (\<lambda>x y. int x - int y)" by unfold_locales auto
  have 2: "null_terminated [3 \<mapsto> Some 1, 1 \<mapsto> Some 2, 2 \<mapsto> None] (Some 3) [3, 1, 2 :: nat]" by simp
  have 3: "length [3, 1, 2 :: nat] = 3" "mset [3, 1, 2 :: nat] = {#3, 1, 2#}" "distinct [3, 1, 2 :: nat]"
    by simp_all
  show ?thesis
    using sort_linked_list_correct[OF 1 2 3(3), of "\<lambda>_. \<lparr>tp_first = Some 9, tp_last = None, tp_count = 7\<rparr>"]
    unfolding 3(1,2) by blast
qed

end
