(* ===== verification/Merge_Sort.thy ===== *)
theory Merge_Sort
  imports LLM_Sort
begin

text \<open>
  The external merge sort of src/src/Algorithm/MergeSort/MergeSort.c.

  A file is the list of its records with a position, counted in records; the caller's
  callbacks \<open>read\<close> and \<open>write\<close> transfer the record at the position. The temporary files
  that are open and the number of allocated blocks are part of the state, and so are the
  outcomes of the coming calls of malloc, tmpfile, write and fflush, so that every error
  path of the code is a branch. Closing a temporary file that is not open has no defined
  result (\<open>None\<close>).
\<close>

subsection \<open>Files\<close>

datatype fp = User nat | Temp nat

record 'r fs =
  fs_data :: "fp \<Rightarrow> 'r list"
  fs_pos :: "fp \<Rightarrow> nat"
  fs_open :: "nat list"
  fs_fresh :: nat
  fs_blocks :: int
  fs_mem :: mem
  fs_tmp :: mem
  fs_wr :: mem
  fs_flush :: mem

definition f_malloc :: "'r fs \<Rightarrow> bool \<times> 'r fs" where
  "f_malloc s =
     (case malloc () (fs_mem s) of
        (None, m) \<Rightarrow> (False, s\<lparr>fs_mem := m\<rparr>)
      | (Some _, m) \<Rightarrow> (True, s\<lparr>fs_mem := m, fs_blocks := fs_blocks s + 1\<rparr>))"

definition f_free :: "'r fs \<Rightarrow> 'r fs" where
  "f_free s = s\<lparr>fs_blocks := fs_blocks s - 1\<rparr>"

definition f_tmpfile :: "'r fs \<Rightarrow> fp option \<times> 'r fs" where
  "f_tmpfile s =
     (case malloc () (fs_tmp s) of
        (None, m) \<Rightarrow> (None, s\<lparr>fs_tmp := m\<rparr>)
      | (Some _, m) \<Rightarrow>
          let n = fs_fresh s in
          (Some (Temp n),
           s\<lparr>fs_tmp := m, fs_fresh := n + 1, fs_open := n # fs_open s,
             fs_data := (fs_data s)(Temp n := []), fs_pos := (fs_pos s)(Temp n := 0)\<rparr>))"

definition f_close :: "fp \<Rightarrow> 'r fs \<Rightarrow> 'r fs option" where
  "f_close f s =
     (case f of
        Temp n \<Rightarrow> if n \<in> set (fs_open s) then Some (s\<lparr>fs_open := remove1 n (fs_open s)\<rparr>) else None
      | User n \<Rightarrow> None)"

definition f_read :: "fp \<Rightarrow> 'r fs \<Rightarrow> 'r option \<times> 'r fs" where
  "f_read f s =
     (let p = fs_pos s f in
      if p < length (fs_data s f) then (Some (fs_data s f ! p), s\<lparr>fs_pos := (fs_pos s)(f := p + 1)\<rparr>)
      else (None, s))"

definition f_write :: "fp \<Rightarrow> 'r \<Rightarrow> 'r fs \<Rightarrow> bool \<times> 'r fs" where
  "f_write f r s =
     (case malloc () (fs_wr s) of
        (None, m) \<Rightarrow> (False, s\<lparr>fs_wr := m\<rparr>)
      | (Some _, m) \<Rightarrow>
          let p = fs_pos s f; d = fs_data s f in
          (True, s\<lparr>fs_wr := m, fs_pos := (fs_pos s)(f := p + 1),
                   fs_data := (fs_data s)(f := take p d @ r # drop (p + 1) d)\<rparr>))"

definition f_rewind :: "fp \<Rightarrow> 'r fs \<Rightarrow> 'r fs" where
  "f_rewind f s = s\<lparr>fs_pos := (fs_pos s)(f := 0)\<rparr>"

definition f_flush :: "'r fs \<Rightarrow> bool \<times> 'r fs" where
  "f_flush s = (case malloc () (fs_flush s) of (r, m) \<Rightarrow> (r \<noteq> None, s\<lparr>fs_flush := m\<rparr>))"

subsection \<open>The code\<close>

text \<open>\<open>OK\<close>, \<open>INSUFFICIENT_MEMORY\<close>, \<open>FILE_CREATION_ERROR\<close> and \<open>FILE_WRITE_ERROR\<close>.\<close>

datatype ms_code = MS_OK | Insufficient_Memory | File_Creation_Error | File_Write_Error

record mtape =
  mt_fp :: fp
  mt_count :: nat

text \<open>What a phase ends with: an early \<open>return\<close> of the function, or a value to go on with.\<close>

datatype ('r, 'a) phase = Return ms_code "'r fs" | Go 'a

text \<open>The records in memory: their links and contents by address.\<close>

definition compare_records :: "('r \<Rightarrow> 'r \<Rightarrow> int) \<Rightarrow> (nat \<Rightarrow> 'r) \<Rightarrow> nat \<Rightarrow> nat \<Rightarrow> int" where
  "compare_records compare rs p q = compare (rs p) (rs q)"

partial_function (option) free_memory_blocks :: "nat links \<Rightarrow> nat option \<Rightarrow> 'r fs \<Rightarrow> 'r fs option" where
  "free_memory_blocks h first s =
     (case first of
        None \<Rightarrow> Some s
      | Some p \<Rightarrow>
          (case h p of
             None \<Rightarrow> None
           | Some nxt \<Rightarrow> free_memory_blocks (h(p := None)) nxt (f_free s)))"

text \<open>The cleanup of the first phase: both tapes and both record buffers, then the list.\<close>

definition abort_runs :: "ms_code \<Rightarrow> (nat \<Rightarrow> mtape) \<Rightarrow> nat links \<Rightarrow> nat option \<Rightarrow> 'r fs \<Rightarrow> ('r, 'a) phase option" where
  "abort_runs code T h first s =
     do {
       s \<leftarrow> f_close (mt_fp (T 0)) s;
       s \<leftarrow> f_close (mt_fp (T 1)) s;
       s \<leftarrow> free_memory_blocks h first (f_free (f_free s));
       Some (Return code s)
     }"

partial_function (option) write_run ::
  "(nat \<Rightarrow> 'r) \<Rightarrow> nat \<Rightarrow> (nat \<Rightarrow> mtape) \<Rightarrow> nat links \<Rightarrow> nat option \<Rightarrow> 'r fs
     \<Rightarrow> ('r, (nat \<Rightarrow> mtape) \<times> 'r fs) phase option" where
  "write_run rs dest T h first s =
     (case first of
        None \<Rightarrow> Some (Go (T, s))
      | Some p \<Rightarrow>
          (case h p of
             None \<Rightarrow> None
           | Some nxt \<Rightarrow>
               (case f_write (mt_fp (T dest)) (rs p) s of (ok, s) \<Rightarrow>
                  if \<not> ok then abort_runs File_Write_Error T h first s
                  else
                    write_run rs dest (T(dest := (T dest)\<lparr>mt_count := mt_count (T dest) + 1\<rparr>))
                      (h(p := None)) nxt (f_free s))))"

text \<open>The state of the reading loop. A new record goes to the front of the list; its address
  is the number of records in the list. The compared value of \<open>record_size\<close> is whether a
  record was read.\<close>

record 'r build =
  bd_links :: "nat links"
  bd_recs :: "nat \<Rightarrow> 'r"
  bd_first :: "nat option"
  bd_count :: nat
  bd_dest :: nat
  bd_tapes :: "nat \<Rightarrow> mtape"

definition add_record :: "'r \<Rightarrow> 'r build \<Rightarrow> 'r build" where
  "add_record r b =
     b\<lparr>bd_links := (bd_links b)(bd_count b \<mapsto> bd_first b), bd_recs := (bd_recs b)(bd_count b := r),
       bd_first := Some (bd_count b), bd_count := bd_count b + 1\<rparr>"

definition flush_block ::
  "('r \<Rightarrow> 'r \<Rightarrow> int) \<Rightarrow> (nat \<Rightarrow> nat tape) \<Rightarrow> 'r build \<Rightarrow> 'r fs \<Rightarrow> ('r, 'r build \<times> 'r fs) phase option" where
  "flush_block compare junk b s =
     do {
       (h, first, _) \<leftarrow> sort_linked_list (compare_records compare (bd_recs b)) junk (bd_links b) (bd_first b);
       w \<leftarrow> write_run (bd_recs b) (bd_dest b) (bd_tapes b) h first s;
       case w of
         Return code s \<Rightarrow> Some (Return code s)
       | Go (T, s) \<Rightarrow>
           Some (Go (b\<lparr>bd_links := Map.empty, bd_first := None, bd_count := 0, bd_tapes := T,
                       bd_dest := Bit_Operations.xor (bd_dest b) 1\<rparr>, s))
     }"

partial_function (option) make_runs ::
  "('r \<Rightarrow> 'r \<Rightarrow> int) \<Rightarrow> (nat \<Rightarrow> nat tape) \<Rightarrow> fp \<Rightarrow> nat \<Rightarrow> 'r build \<Rightarrow> 'r fs
     \<Rightarrow> ('r, (nat \<Rightarrow> mtape) \<times> 'r fs) phase option" where
  "make_runs compare junk unsorted block_size b s =
     (case f_read unsorted s of (r, s) \<Rightarrow>
        (case (if r = None then (True, s) else f_malloc s) of (ok, s) \<Rightarrow>
           if \<not> ok then abort_runs Insufficient_Memory (bd_tapes b) (bd_links b) (bd_first b) s
           else
             let b = (case r of None \<Rightarrow> b | Some x \<Rightarrow> add_record x b) in
             (case (if bd_count b = block_size \<or> r = None \<and> bd_count b \<noteq> 0
                    then flush_block compare junk b s else Some (Go (b, s))) of
                None \<Rightarrow> None
              | Some (Return code s) \<Rightarrow> Some (Return code s)
              | Some (Go (b, s)) \<Rightarrow>
                  if r = None then Some (Go (bd_tapes b, s))
                  else make_runs compare junk unsorted block_size b s)))"

text \<open>All the records are on the first tape: they are copied to the sorted file.\<close>

partial_function (option) copy_tape ::
  "fp \<Rightarrow> mtape \<Rightarrow> 'r \<Rightarrow> 'r fs \<Rightarrow> ('r, 'r fs) phase option" where
  "copy_tape sorted_file t buf s =
     (if mt_count t \<noteq> 0 then
        case f_read (mt_fp t) s of (r, s) \<Rightarrow>
          let buf = (case r of None \<Rightarrow> buf | Some x \<Rightarrow> x) in
          (case f_write sorted_file buf s of (ok, s) \<Rightarrow>
             if \<not> ok then map_option (\<lambda>s. Return File_Write_Error (f_free (f_free s))) (f_close (mt_fp t) s)
             else copy_tape sorted_file (t\<lparr>mt_count := mt_count t - 1\<rparr>) buf s)
      else Some (Go s))"

text \<open>The cleanup of a merge pass: the files other than the sorted file, then the buffers.\<close>

definition close_unless :: "fp \<Rightarrow> fp \<Rightarrow> 'r fs \<Rightarrow> 'r fs option" where
  "close_unless f sorted_file s = (if f \<noteq> sorted_file then f_close f s else Some s)"

definition abort_pass ::
  "fp \<Rightarrow> (nat \<Rightarrow> mtape) \<Rightarrow> (nat \<Rightarrow> mtape) \<Rightarrow> 'r fs \<Rightarrow> ('r, 'a) phase option" where
  "abort_pass sorted_file src dst s =
     do {
       s \<leftarrow> close_unless (mt_fp (dst 0)) sorted_file s;
       s \<leftarrow> f_close (mt_fp (dst 1)) s;
       s \<leftarrow> f_close (mt_fp (src 0)) s;
       s \<leftarrow> f_close (mt_fp (src 1)) s;
       Some (Return File_Write_Error (f_free (f_free s)))
     }"

record 'r pass =
  ps_src :: "nat \<Rightarrow> mtape"
  ps_dst :: "nat \<Rightarrow> mtape"
  ps_buf :: "nat \<Rightarrow> 'r"

text \<open>One record from the selected source tape to the destination, and the next one of that
  tape into its buffer.\<close>

definition merge_record :: "fp \<Rightarrow> nat \<Rightarrow> nat \<Rightarrow> 'r pass \<Rightarrow> 'r fs \<Rightarrow> ('r, 'r pass \<times> 'r fs) phase option" where
  "merge_record sorted_file dest select ps s =
     (let src = ps_src ps; dst = ps_dst ps in
      case f_write (mt_fp (dst dest)) (ps_buf ps select) s of (ok, s) \<Rightarrow>
        if \<not> ok then abort_pass sorted_file src dst s
        else
          (case (if mt_count (src select) > 1 then f_read (mt_fp (src select)) s else (None, s)) of
             (r, s) \<Rightarrow>
               Some (Go
                 (ps\<lparr>ps_buf := (case r of None \<Rightarrow> ps_buf ps | Some x \<Rightarrow> (ps_buf ps)(select := x)),
                     ps_src := src(select := (src select)\<lparr>mt_count := mt_count (src select) - 1\<rparr>),
                     ps_dst := dst(dest := (dst dest)\<lparr>mt_count := mt_count (dst dest) + 1\<rparr>)\<rparr>, s))))"

text \<open>The merge of one block from each source tape, \<open>cnt\<close> records of each left.\<close>

partial_function (option) merge_file_block ::
  "('r \<Rightarrow> 'r \<Rightarrow> int) \<Rightarrow> fp \<Rightarrow> nat \<Rightarrow> (nat \<Rightarrow> nat) \<Rightarrow> 'r pass \<Rightarrow> 'r fs
     \<Rightarrow> ('r, 'r pass \<times> 'r fs) phase option" where
  "merge_file_block compare sorted_file dest cnt ps s =
     (if cnt 0 + cnt 1 \<noteq> 0 then
        let select = (if cnt 0 = 0 then 1 else if cnt 1 = 0 then 0
                      else if compare (ps_buf ps 0) (ps_buf ps 1) < 0 then 0 else (1 :: nat))
        in (case merge_record sorted_file dest select ps s of
              None \<Rightarrow> None
            | Some (Return code s) \<Rightarrow> Some (Return code s)
            | Some (Go (ps, s)) \<Rightarrow>
                merge_file_block compare sorted_file dest (cnt(select := cnt select - 1)) ps s)
      else Some (Go (ps, s)))"

partial_function (option) merge_blocks ::
  "('r \<Rightarrow> 'r \<Rightarrow> int) \<Rightarrow> fp \<Rightarrow> nat \<Rightarrow> nat \<Rightarrow> 'r pass \<Rightarrow> 'r fs \<Rightarrow> ('r, 'r pass \<times> 'r fs) phase option" where
  "merge_blocks compare sorted_file block_size dest ps s =
     (if mt_count (ps_src ps 0) \<noteq> 0 then
        case merge_file_block compare sorted_file dest
               (\<lambda>i. min (mt_count (ps_src ps i)) block_size) ps s of
          None \<Rightarrow> None
        | Some (Return code s) \<Rightarrow> Some (Return code s)
        | Some (Go (ps, s)) \<Rightarrow> merge_blocks compare sorted_file block_size (Bit_Operations.xor dest 1) ps s
      else Some (Go (ps, s)))"

text \<open>One pass: the creation of the destination tapes, the merge, and the change of roles.\<close>

definition open_destinations ::
  "fp \<Rightarrow> nat \<Rightarrow> (nat \<Rightarrow> mtape) \<Rightarrow> 'r fs \<Rightarrow> ('r, (nat \<Rightarrow> mtape) \<times> 'r fs) phase option" where
  "open_destinations sorted_file block_size src s =
     (case (if mt_count (src 0) \<le> block_size then (Some sorted_file, s) else f_tmpfile s) of
        (None, s) \<Rightarrow>
          do {
            s \<leftarrow> f_close (mt_fp (src 0)) s;
            s \<leftarrow> f_close (mt_fp (src 1)) s;
            Some (Return File_Creation_Error (f_free (f_free s)))
          }
      | (Some f0, s) \<Rightarrow>
          (case f_tmpfile s of
             (None, s) \<Rightarrow>
               do {
                 s \<leftarrow> close_unless f0 sorted_file s;
                 s \<leftarrow> f_close (mt_fp (src 0)) s;
                 s \<leftarrow> f_close (mt_fp (src 1)) s;
                 Some (Return File_Creation_Error (f_free (f_free s)))
               }
           | (Some f1, s) \<Rightarrow>
               Some (Go ((\<lambda>i. if i = 0 then \<lparr>mt_fp = f0, mt_count = 0\<rparr> else \<lparr>mt_fp = f1, mt_count = 0\<rparr>), s))))"

definition first_reads :: "(nat \<Rightarrow> mtape) \<Rightarrow> (nat \<Rightarrow> 'r) \<Rightarrow> 'r fs \<Rightarrow> (nat \<Rightarrow> 'r) \<times> 'r fs" where
  "first_reads src buf s =
     (case f_read (mt_fp (src 0)) s of (r0, s) \<Rightarrow>
        (case f_read (mt_fp (src 1)) s of (r1, s) \<Rightarrow>
           ((\<lambda>i. case (if i = 0 then r0 else r1) of None \<Rightarrow> buf i | Some x \<Rightarrow> x), s)))"

definition end_pass ::
  "fp \<Rightarrow> 'r pass \<Rightarrow> 'r fs \<Rightarrow> ('r, 'r fs) phase option" where
  "end_pass sorted_file ps s =
     do {
       s \<leftarrow> f_close (mt_fp (ps_src ps 0)) s;
       s \<leftarrow> f_close (mt_fp (ps_src ps 1)) s;
       let (ok0, s) = f_flush s;
       let (ok1, s) = (if ok0 then f_flush s else (False, s));
       if ok0 \<and> ok1 then
         Some (Go (f_rewind (mt_fp (ps_dst ps 1)) (f_rewind (mt_fp (ps_dst ps 0)) s)))
       else
         do {
           s \<leftarrow> close_unless (mt_fp (ps_dst ps 0)) sorted_file s;
           s \<leftarrow> f_close (mt_fp (ps_dst ps 1)) s;
           Some (Return File_Write_Error (f_free (f_free s)))
         }
     }"

partial_function (option) merge_tapes ::
  "('r \<Rightarrow> 'r \<Rightarrow> int) \<Rightarrow> fp \<Rightarrow> nat \<Rightarrow> (nat \<Rightarrow> mtape) \<Rightarrow> (nat \<Rightarrow> 'r) \<Rightarrow> 'r fs
     \<Rightarrow> ('r, (nat \<Rightarrow> mtape) \<times> 'r fs) phase option" where
  "merge_tapes compare sorted_file block_size src buf s =
     (if mt_count (src 1) \<noteq> 0 then
        case open_destinations sorted_file block_size src s of
          None \<Rightarrow> None
        | Some (Return code s) \<Rightarrow> Some (Return code s)
        | Some (Go (dst, s)) \<Rightarrow>
            (case first_reads src buf s of (buf, s) \<Rightarrow>
               (case merge_blocks compare sorted_file block_size 0 \<lparr>ps_src = src, ps_dst = dst, ps_buf = buf\<rparr> s of
                  None \<Rightarrow> None
                | Some (Return code s) \<Rightarrow> Some (Return code s)
                | Some (Go (ps, s)) \<Rightarrow>
                    (case end_pass sorted_file ps s of
                       None \<Rightarrow> None
                     | Some (Return code s) \<Rightarrow> Some (Return code s)
                     | Some (Go s) \<Rightarrow>
                         merge_tapes compare sorted_file (block_size * 2) (ps_dst ps) (ps_buf ps) s)))
      else Some (Go (src, s)))"

declare free_memory_blocks.simps [code] write_run.simps [code] make_runs.simps [code] copy_tape.simps [code]
  merge_file_block.simps [code] merge_blocks.simps [code] merge_tapes.simps [code]

text \<open>The state of the reading loop before the first record.\<close>

definition initial_build :: "(nat \<Rightarrow> 'r) \<Rightarrow> fp \<Rightarrow> fp \<Rightarrow> 'r build" where
  "initial_build buf0 f0 f1 = \<lparr>bd_links = Map.empty, bd_recs = buf0, bd_first = None, bd_count = 0, bd_dest = 0,
     bd_tapes = (\<lambda>i. if i = 0 then \<lparr>mt_fp = f0, mt_count = 0\<rparr> else \<lparr>mt_fp = f1, mt_count = 0\<rparr>)\<rparr>"

text \<open>The start of the merge phase, after the rewinds.\<close>

definition rewound :: "fp \<Rightarrow> fp \<Rightarrow> (nat \<Rightarrow> mtape) \<Rightarrow> 'r fs \<Rightarrow> 'r fs" where
  "rewound unsorted sorted_file T s =
     f_rewind (mt_fp (T 1)) (f_rewind (mt_fp (T 0)) (if sorted_file = unsorted then f_rewind unsorted s else s))"

text \<open>The two ways to the sorted file.\<close>

definition finish ::
  "('r \<Rightarrow> 'r \<Rightarrow> int) \<Rightarrow> (nat \<Rightarrow> 'r) \<Rightarrow> fp \<Rightarrow> nat \<Rightarrow> (nat \<Rightarrow> mtape) \<Rightarrow> 'r fs \<Rightarrow> ('r, (nat \<Rightarrow> mtape) \<times> 'r fs) phase option" where
  "finish compare buf0 sorted_file block_size T s =
     (if mt_count (T 1) = 0 then
        do {
          s \<leftarrow> f_close (mt_fp (T 1)) s;
          w \<leftarrow> copy_tape sorted_file (T 0) (buf0 0) s;
          case w of
            Return code s \<Rightarrow> Some (Return code s)
          | Go s \<Rightarrow> Some (Go (T(1 := T 0, 0 := (T 0)\<lparr>mt_fp := sorted_file\<rparr>), s))
        }
      else merge_tapes compare sorted_file block_size T buf0 s)"

text \<open>The function: its code, the count that it stores through \<open>pcount\<close> (\<open>None\<close>: nothing
  stored), and the state. \<open>buf0\<close> is the content of the freshly allocated record buffers.\<close>

definition merge_sort ::
  "('r \<Rightarrow> 'r \<Rightarrow> int) \<Rightarrow> (nat \<Rightarrow> nat tape) \<Rightarrow> (nat \<Rightarrow> 'r) \<Rightarrow> fp \<Rightarrow> fp \<Rightarrow> nat \<Rightarrow> 'r fs
     \<Rightarrow> (ms_code \<times> nat option \<times> 'r fs) option" where
  "merge_sort compare junk buf0 unsorted sorted_file block_size s =
     (case f_malloc s of
        (False, s) \<Rightarrow> Some (Insufficient_Memory, None, s)
      | (True, s) \<Rightarrow>
     (case f_malloc s of
        (False, s) \<Rightarrow> Some (Insufficient_Memory, None, f_free s)
      | (True, s) \<Rightarrow>
     (case f_tmpfile s of
        (None, s) \<Rightarrow> Some (File_Creation_Error, None, f_free (f_free s))
      | (Some t0, s) \<Rightarrow>
     (case f_tmpfile s of
        (None, s) \<Rightarrow> map_option (\<lambda>s. (File_Creation_Error, None, f_free (f_free s))) (f_close t0 s)
      | (Some t1, s) \<Rightarrow>
     (case make_runs compare junk unsorted block_size (initial_build buf0 t0 t1) s of
        None \<Rightarrow> None
      | Some (Return code s) \<Rightarrow> Some (code, None, s)
      | Some (Go (T, s)) \<Rightarrow>
          (case finish compare buf0 sorted_file block_size T (rewound unsorted sorted_file T s) of
             None \<Rightarrow> None
           | Some (Return code s) \<Rightarrow> Some (code, None, s)
           | Some (Go (T, s)) \<Rightarrow>
               map_option (\<lambda>s. (MS_OK, Some (mt_count (T 0)), f_free (f_free s))) (f_close (mt_fp (T 1)) s)))))))"

end
