(* ===== verification/Merge_Correct.thy ===== *)
theory Merge_Correct
  imports Merge_Sort
begin

text \<open>
  The correctness of the external merge sort, for every outcome of its allocations, file
  creations, writes and flushes: it always returns, with every temporary file closed and
  every block freed, and when nothing fails its output is the sorted permutation of its
  input.
\<close>

subsection \<open>States of the files\<close>

definition lucky :: "'r fs \<Rightarrow> bool" where
  "lucky s \<longleftrightarrow> mem_ok (fs_mem s) \<and> mem_ok (fs_tmp s) \<and> mem_ok (fs_wr s) \<and> mem_ok (fs_flush s)"

text \<open>A step that touches the files \<open>F\<close> only.\<close>

definition touches :: "fp set \<Rightarrow> 'r fs \<Rightarrow> 'r fs \<Rightarrow> bool" where
  "touches F s s' \<longleftrightarrow> (\<forall>f. f \<notin> F \<longrightarrow> fs_data s' f = fs_data s f \<and> fs_pos s' f = fs_pos s f)
     \<and> fs_open s' = fs_open s \<and> fs_fresh s' = fs_fresh s \<and> (lucky s \<longrightarrow> lucky s')"

lemma touches_refl [simp]: "touches F s s" by (simp add: touches_def)

lemma touches_trans: "touches F s s1 \<Longrightarrow> touches F s1 s2 \<Longrightarrow> touches F s s2"
  by (auto simp: touches_def)

lemma touches_mono: "touches F s s1 \<Longrightarrow> F \<subseteq> G \<Longrightarrow> touches G s s1"
  by (auto simp: touches_def)

text \<open>\<open>w\<close> has been written to a file from its start; what is left behind it of an old content
  does not go beyond \<open>n\<close> records. \<open>xs\<close> is what is still to be read of a file.\<close>

definition written :: "'r fs \<Rightarrow> fp \<Rightarrow> nat \<Rightarrow> 'r list \<Rightarrow> bool" where
  "written s f n w \<longleftrightarrow> fs_pos s f = length w \<and> take (length w) (fs_data s f) = w
     \<and> length (fs_data s f) \<le> max (length w) n"

definition unread :: "'r fs \<Rightarrow> fp \<Rightarrow> 'r list \<Rightarrow> bool" where
  "unread s f xs \<longleftrightarrow> fs_pos s f \<le> length (fs_data s f) \<and> drop (fs_pos s f) (fs_data s f) = xs"

lemma written_cong: "touches F s s' \<Longrightarrow> f \<notin> F \<Longrightarrow> written s' f n w = written s f n w"
  by (simp add: touches_def written_def)

lemma unread_cong: "touches F s s' \<Longrightarrow> f \<notin> F \<Longrightarrow> unread s' f xs = unread s f xs"
  by (simp add: touches_def unread_def)

lemma written_all: "written s f n w \<Longrightarrow> n \<le> length w \<Longrightarrow> fs_data s f = w"
  by (auto simp: written_def)

lemma f_write_cases:
  assumes "written s f n w"
  obtains (ok) s' where "f_write f r s = (True, s')" "written s' f n (w @ [r])" "touches {f} s s'"
      "fs_blocks s' = fs_blocks s"
    | (failed) s' where "f_write f r s = (False, s')" "\<not> lucky s" "touches {} s s'" "fs_blocks s' = fs_blocks s"
proof -
  obtain b s' where fw: "f_write f r s = (b, s')" by force
  have "fs_blocks s' = fs_blocks s \<and>
    (if b then written s' f n (w @ [r]) \<and> touches {f} s s' else \<not> lucky s \<and> touches {} s s')"
    using fw assms
    by (cases "fs_wr s"; cases "hd (fs_wr s)")
      (auto simp: f_write_def written_def touches_def lucky_def mem_ok_def min_def Let_def)
  with fw ok failed show thesis by (cases b) auto
qed

lemma f_read_Cons:
  assumes "unread s f (x # xs)"
  shows "\<exists>s'. f_read f s = (Some x, s') \<and> unread s' f xs \<and> touches {f} s s' \<and> fs_blocks s' = fs_blocks s
    \<and> fs_data s' = fs_data s"
proof -
  let ?p = "fs_pos s f" and ?d = "fs_data s f"
  have p: "?p < length ?d" "?d ! ?p = x"
    using assms by (auto simp: unread_def) (metis drop_all leI list.discI, metis nth_via_drop)
  have "drop (Suc ?p) ?d = xs" using assms by (metis drop_Suc list.sel(3) tl_drop unread_def)
  with p show ?thesis
    by (auto simp: f_read_def unread_def touches_def lucky_def Let_def)
qed

lemma f_read_Nil: "unread s f [] \<Longrightarrow> f_read f s = (None, s)"
  by (auto simp: f_read_def unread_def Let_def)

lemma f_rewind_ok:
  "written s f n w \<Longrightarrow> n \<le> length w \<Longrightarrow> unread (f_rewind f s) f w"
  "touches {f} s (f_rewind f s)" "fs_blocks (f_rewind f s) = fs_blocks s"
  by (auto simp: f_rewind_def written_def unread_def touches_def lucky_def)

lemma f_free_ok [simp]: "touches F s (f_free s)" "fs_blocks (f_free s) = fs_blocks s - 1"
  by (simp_all add: f_free_def touches_def lucky_def)

text \<open>The open temporary files are \<open>U\<close>.\<close>

definition temps :: "'r fs \<Rightarrow> nat set \<Rightarrow> bool" where
  "temps s U \<longleftrightarrow> distinct (fs_open s) \<and> set (fs_open s) = U \<and> (\<forall>n \<in> U. n < fs_fresh s)"

lemma f_free_views [simp]: "written (f_free s) f n w = written s f n w" "unread (f_free s) f xs = unread s f xs"
    "temps (f_free s) U = temps s U" "lucky (f_free s) = lucky s"
  by (simp_all add: f_free_def written_def unread_def temps_def lucky_def)

lemma f_flush_cases:
  obtains (ok) s' where "f_flush s = (True, s')" "touches {} s s'" "fs_blocks s' = fs_blocks s"
    | (failed) s' where "f_flush s = (False, s')" "\<not> lucky s" "touches {} s s'" "fs_blocks s' = fs_blocks s"
  by (cases "fs_flush s"; cases "hd (fs_flush s)")
    (auto simp: f_flush_def touches_def lucky_def mem_ok_def intro: that)

lemma f_malloc_cases:
  obtains (ok) s' where "f_malloc s = (True, s')" "touches {} s s'" "fs_blocks s' = fs_blocks s + 1"
    | (failed) s' where "f_malloc s = (False, s')" "\<not> lucky s" "touches {} s s'" "fs_blocks s' = fs_blocks s"
  by (cases "fs_mem s"; cases "hd (fs_mem s)")
    (auto simp: f_malloc_def touches_def lucky_def mem_ok_def intro: that)

subsection \<open>Temporary files\<close>

definition keeps :: "fp set \<Rightarrow> 'r fs \<Rightarrow> 'r fs \<Rightarrow> bool" where
  "keeps F s s' \<longleftrightarrow> (\<forall>f. f \<notin> F \<longrightarrow> fs_data s' f = fs_data s f \<and> fs_pos s' f = fs_pos s f) \<and> (lucky s \<longrightarrow> lucky s')"

lemma touches_keeps: "touches F s s' \<Longrightarrow> keeps F s s'"
  by (simp add: touches_def keeps_def)

lemma keeps_trans: "keeps F s s1 \<Longrightarrow> keeps F s1 s2 \<Longrightarrow> keeps F s s2"
  by (simp add: keeps_def)

lemma keeps_mono: "keeps F s s1 \<Longrightarrow> F \<subseteq> G \<Longrightarrow> keeps G s s1"
  by (auto simp: keeps_def)

lemma keeps_refl [simp]: "keeps F s s"
  by (simp add: keeps_def)

lemma written_keeps: "keeps F s s' \<Longrightarrow> f \<notin> F \<Longrightarrow> written s' f n w = written s f n w"
  by (simp add: keeps_def written_def)

lemma unread_keeps: "keeps F s s' \<Longrightarrow> f \<notin> F \<Longrightarrow> unread s' f xs = unread s f xs"
  by (simp add: keeps_def unread_def)

lemma temps_touches: "touches F s s' \<Longrightarrow> temps s' U = temps s U"
  by (simp add: touches_def temps_def)

lemma lucky_touches: "touches F s s' \<Longrightarrow> \<not> lucky s' \<Longrightarrow> \<not> lucky s"
  by (auto simp: touches_def)

lemma f_tmpfile_cases:
  assumes "temps s U"
  obtains (ok) n s' where "f_tmpfile s = (Some (Temp n), s')" "n \<notin> U" "temps s' (insert n U)"
      "written s' (Temp n) 0 []" "keeps {Temp n} s s'" "fs_blocks s' = fs_blocks s"
    | (failed) s' where "f_tmpfile s = (None, s')" "\<not> lucky s" "touches {} s s'" "fs_blocks s' = fs_blocks s"
proof -
  obtain r s' where t: "f_tmpfile s = (r, s')" by force
  have "fs_blocks s' = fs_blocks s \<and>
    (case r of None \<Rightarrow> \<not> lucky s \<and> touches {} s s'
     | Some f \<Rightarrow> f = Temp (fs_fresh s) \<and> fs_fresh s \<notin> U \<and> temps s' (insert (fs_fresh s) U)
         \<and> written s' f 0 [] \<and> keeps {f} s s')"
    using t assms
    by (cases "fs_tmp s"; cases "hd (fs_tmp s)")
      (auto simp: f_tmpfile_def written_def touches_def keeps_def lucky_def mem_ok_def temps_def Let_def less_SucI)
  with t ok failed show thesis by (cases r) auto
qed

lemma f_close_ok:
  assumes "temps s U" "n \<in> U"
  shows "\<exists>s'. f_close (Temp n) s = Some s' \<and> temps s' (U - {n}) \<and> keeps {} s s' \<and> fs_blocks s' = fs_blocks s"
  using assms by (auto simp: f_close_def temps_def keeps_def lucky_def)

text \<open>How a phase ends: an early return happens only when something failed, and leaves only
  the files \<open>U\<close> open and \<open>B\<close> blocks allocated.\<close>

definition ends :: "'r fs \<Rightarrow> nat set \<Rightarrow> int \<Rightarrow> ('r, 'a) phase option \<Rightarrow> ('a \<Rightarrow> bool) \<Rightarrow> bool" where
  "ends s U B w Q \<longleftrightarrow>
     (case w of
        None \<Rightarrow> False
      | Some (Return c s') \<Rightarrow> c \<noteq> MS_OK \<and> \<not> lucky s \<and> temps s' U \<and> fs_blocks s' = B
      | Some (Go x) \<Rightarrow> Q x)"

lemma endsE:
  assumes "ends s U B w Q"
  obtains (ret) c s' where "w = Some (Return c s')" "c \<noteq> MS_OK" "\<not> lucky s" "temps s' U" "fs_blocks s' = B"
    | (go) x where "w = Some (Go x)" "Q x"
  using assms by (auto simp: ends_def split: option.splits phase.splits)

lemma ends_Go [simp]: "ends s U B (Some (Go x)) Q = Q x"
  by (simp add: ends_def)

lemma ends_Return [simp]:
  "ends s U B (Some (Return c s')) Q \<longleftrightarrow> c \<noteq> MS_OK \<and> \<not> lucky s \<and> temps s' U \<and> fs_blocks s' = B"
  by (simp add: ends_def)

lemma ends_unlucky: "(\<not> lucky s' \<Longrightarrow> \<not> lucky s) \<Longrightarrow> ends s' U B w Q \<Longrightarrow> (\<And>x. Q x \<Longrightarrow> Q' x) \<Longrightarrow> ends s U B w Q'"
  by (auto simp: ends_def split: option.splits phase.splits)

subsection \<open>The records in memory\<close>

lemma free_memory_blocks_ok:
  assumes "null_terminated h p ps" "distinct ps"
  shows "\<exists>s'. free_memory_blocks h p s = Some s' \<and> touches {} s s' \<and> fs_blocks s' = fs_blocks s - int (length ps)"
  using assms
proof (induction ps arbitrary: h p s)
  case Nil
  then show ?case by (simp add: free_memory_blocks.simps)
next
  case (Cons x ps)
  then obtain q where q: "p = Some x" "h x = Some q" "null_terminated h q ps"
    by (auto split: option.splits)
  have "null_terminated (h(x := None)) q ps"
    using q(3) Cons.prems(2) by (induction ps arbitrary: q) (auto split: option.splits)
  then obtain s' where "free_memory_blocks (h(x := None)) q (f_free s) = Some s'"
    "touches {} (f_free s) s'" "fs_blocks s' = fs_blocks (f_free s) - int (length ps)"
    using Cons.IH Cons.prems(2) by (metis distinct.simps(2))
  with q show ?case
    using touches_trans[OF f_free_ok(1)] by (subst free_memory_blocks.simps) (auto simp: f_free_def)
qed

lemma abort_runs_ok:
  assumes "temps s (insert a (insert b U))" "a \<notin> U" "b \<notin> U" "a \<noteq> b" "mt_fp (T 0) = Temp a" "mt_fp (T 1) = Temp b"
    and "null_terminated h p ps" "distinct ps" "fs_blocks s = B + 2 + int (length ps)" "\<not> lucky s0" "c \<noteq> MS_OK"
  shows "ends s0 U B (abort_runs c T h p s) Q"
proof -
  obtain s1 where 1: "f_close (Temp a) s = Some s1" "temps s1 (insert a (insert b U) - {a})" "fs_blocks s1 = fs_blocks s"
    using f_close_ok[OF assms(1), of a] by blast
  then obtain s2 where 2: "f_close (Temp b) s1 = Some s2" "temps s2 (insert a (insert b U) - {a} - {b})"
    "fs_blocks s2 = fs_blocks s"
    using f_close_ok[OF 1(2), of b] assms(4) by (metis Diff_iff insert_iff singletonD)
  obtain s3 where 3: "free_memory_blocks h p (f_free (f_free s2)) = Some s3" "touches {} (f_free (f_free s2)) s3"
    "fs_blocks s3 = fs_blocks (f_free (f_free s2)) - int (length ps)"
    using free_memory_blocks_ok[OF assms(7,8)] by blast
  have "insert a (insert b U) - {a} - {b} = U" using assms(2,3) by auto
  with 2(2) have "temps (f_free (f_free s2)) U" by (simp add: temps_def f_free_def)
  then have "temps s3 U" using temps_touches[OF 3(2)] by simp
  with 1 2 3 assms show ?thesis by (auto simp: abort_runs_def)
qed

lemma null_terminated_remove:
  "x \<notin> set ps \<Longrightarrow> null_terminated h q ps \<Longrightarrow> null_terminated (h(x := None)) q ps"
  by (induction ps arbitrary: q) (auto split: option.splits)

lemma write_run_ok:
  assumes "temps s (insert a (insert b U))" "a \<notin> U" "b \<notin> U" "a \<noteq> b" "mt_fp (T 0) = Temp a" "mt_fp (T 1) = Temp b"
    and "null_terminated h p ps" "distinct ps" "fs_blocks s = B + 2 + int (length ps)"
    and "dest \<in> {0, 1}" "written s (mt_fp (T dest)) 0 w" "mt_count (T dest) = length w"
  shows "ends s U B (write_run rs dest T h p s) (\<lambda>(T', s').
    T' = T(dest := (T dest)\<lparr>mt_count := length w + length ps\<rparr>) \<and> written s' (mt_fp (T dest)) 0 (w @ map rs ps)
    \<and> touches {mt_fp (T dest)} s s' \<and> fs_blocks s' = B + 2)"
  using assms
proof (induction ps arbitrary: h p s T w)
  case Nil
  then have "T(dest := (T dest)\<lparr>mt_count := length w\<rparr>) = T" by (auto simp: fun_eq_iff)
  with Nil show ?case by (simp add: write_run.simps)
next
  case (Cons x ps)
  let ?f = "mt_fp (T dest)"
  obtain q where q: "p = Some x" "h x = Some q" "null_terminated h q ps"
    using Cons.prems(7) by (auto split: option.splits)
  from Cons.prems(11) show ?case
  proof (cases rule: f_write_cases[where r = "rs x"])
    case (failed s')
    then have "temps s' (insert a (insert b U))" "fs_blocks s' = B + 2 + int (length (x # ps))"
      using Cons.prems(1,9) temps_touches[OF failed(3)] by simp_all
    from abort_runs_ok[OF this(1) Cons.prems(2-8) this(2) failed(2), of File_Write_Error] failed q show ?thesis
      by (subst write_run.simps) simp
  next
    case (ok s')
    define s1 T1 where "s1 = f_free s'" and "T1 = T(dest := (T dest)\<lparr>mt_count := mt_count (T dest) + 1\<rparr>)"
    have t: "touches {?f} s s1" using ok(3) touches_trans[OF ok(3) f_free_ok(1)] by (simp add: s1_def)
    have fps: "mt_fp (T1 i) = mt_fp (T i)" "mt_count (T1 dest) = mt_count (T dest) + 1" for i
      by (simp_all add: T1_def)
    have "ends s1 U B (write_run rs dest T1 (h(x := None)) q s1) (\<lambda>(T', s'').
        T' = T1(dest := (T1 dest)\<lparr>mt_count := length (w @ [rs x]) + length ps\<rparr>)
        \<and> written s'' (mt_fp (T1 dest)) 0 ((w @ [rs x]) @ map rs ps)
        \<and> touches {mt_fp (T1 dest)} s1 s'' \<and> fs_blocks s'' = B + 2)"
    proof (rule Cons.IH)
      show "temps s1 (insert a (insert b U))" using temps_touches[OF t] Cons.prems(1) by simp
      show "null_terminated (h(x := None)) q ps" using q(3) Cons.prems(8) by (simp add: null_terminated_remove)
      show "written s1 (mt_fp (T1 dest)) 0 (w @ [rs x])"
        using ok(2) by (simp add: s1_def fps)
    qed (use Cons.prems ok in \<open>simp_all add: fps s1_def\<close>)
    moreover have "write_run rs dest T h p s = write_run rs dest T1 (h(x := None)) q s1"
      using q ok(1) by (subst write_run.simps) (simp add: s1_def T1_def)
    ultimately show ?thesis
      using touches_trans[OF t] lucky_touches[OF t]
      by (auto simp: fps T1_def elim!: ends_unlucky[rotated])
  qed
qed

subsection \<open>Sorting a block\<close>

text \<open>The input \<open>all\<close> can be sorted by \<open>compare\<close>.\<close>

definition good_input :: "('r \<Rightarrow> 'r \<Rightarrow> int) \<Rightarrow> 'r list \<Rightarrow> bool" where
  "good_input compare all \<longleftrightarrow> comparator (set all) compare \<and> sortable compare all"

lemma sortable_submset: "mset ys \<subseteq># mset xs \<Longrightarrow> sortable cmp xs \<Longrightarrow> sortable cmp ys"
  unfolding sortable_def
  by (metis distinct_append mset_append mset_eq_imp_distinct_iff mset_subset_eq_exists_conv ex_mset set_mset_mset set_mset_mono subsetD)

lemma good_input_submset:
  assumes "good_input compare all" "mset ys \<subseteq># mset all"
  shows "good_input compare ys"
proof -
  have "set ys \<subseteq> set all" using set_mset_mono[OF assms(2)] by simp
  with assms(1) have "comparator (set ys) compare"
    unfolding good_input_def comparator_def by (metis subsetD)
  with assms show ?thesis using sortable_submset by (auto simp: good_input_def)
qed

lemma compare_records_comparator:
  assumes "good_input compare (map rs ps)" "distinct ps"
  shows "comparator (set ps) (compare_records compare rs)"
proof -
  have C: "comparator (rs ` set ps) compare" and S: "sortable compare (map rs ps)"
    using assms(1) by (simp_all add: good_input_def)
  have refl: "compare (rs p) (rs p) \<le> 0" if "p \<in> set ps" "q \<in> set ps" "p \<noteq> q" "rs p = rs q" for p q
  proof -
    have "\<not> distinct (map rs ps)" using that by (auto simp: distinct_map inj_on_def)
    with S that show ?thesis by (auto simp: sortable_def)
  qed
  show ?thesis
  proof
    fix x y z assume "x \<in> set ps" "y \<in> set ps" "z \<in> set ps" "x \<noteq> z"
      "compare_records compare rs x y \<le> 0" "compare_records compare rs y z \<le> 0"
    then show "compare_records compare rs x z \<le> 0"
      using refl[of x z] comparator.le_trans[OF C, of "rs x" "rs y" "rs z"] by (cases "rs x = rs z") (auto simp: compare_records_def)
  next
    fix x y assume "x \<in> set ps" "y \<in> set ps" "x \<noteq> y" "0 \<le> compare_records compare rs x y"
    then show "compare_records compare rs y x \<le> 0"
      using refl[of x y] comparator.le_total[OF C, of "rs x" "rs y"] by (cases "rs x = rs y") (auto simp: compare_records_def)
  qed
qed

lemma sort_linked_list_returns:
  assumes "null_terminated h p xs" "distinct xs"
  shows "\<exists>h' p' ys. sort_linked_list cmp junk h p = Some (h', p', length xs)
    \<and> null_terminated h' p' ys \<and> mset ys = mset xs \<and> (comparator (set xs) cmp \<longrightarrow> cmp_sorted cmp ys)"
proof (cases "comparator (set xs) cmp")
  case True
  with sort_linked_list_sorts[OF True assms, of junk] show ?thesis by blast
next
  case False
  show ?thesis
  proof (cases "length xs \<le> 1")
    case True
    with sort_linked_list_short[OF assms True, of cmp junk] False show ?thesis by blast
  next
    case long: False
    with sort_linked_list_long[OF assms, of cmp junk] False show ?thesis by (meson not_le)
  qed
qed

definition building ::
  "nat \<Rightarrow> nat \<Rightarrow> nat set \<Rightarrow> int \<Rightarrow> 'r build \<Rightarrow> 'r fs \<Rightarrow> 'r list list \<Rightarrow> 'r list \<Rightarrow> bool" where
  "building a b U B bd s R vs \<longleftrightarrow>
     temps s (insert a (insert b U)) \<and> a \<notin> U \<and> b \<notin> U \<and> a \<noteq> b \<and> fs_blocks s = B + 2 + int (length vs)
     \<and> null_terminated (bd_links bd) (bd_first bd) (rev [0 ..< length vs]) \<and> map (bd_recs bd) [0 ..< length vs] = vs
     \<and> bd_count bd = length vs \<and> bd_dest bd = length R mod 2
     \<and> mt_fp (bd_tapes bd 0) = Temp a \<and> mt_fp (bd_tapes bd 1) = Temp b
     \<and> written s (Temp a) 0 (concat (evens R)) \<and> mt_count (bd_tapes bd 0) = length (concat (evens R))
     \<and> written s (Temp b) 0 (concat (odds R)) \<and> mt_count (bd_tapes bd 1) = length (concat (odds R))"

lemma evens_odds_snoc:
  "evens (R @ [r]) = (if even (length R) then evens R @ [r] else evens R)"
  "odds (R @ [r]) = (if even (length R) then odds R else odds R @ [r])"
  by (induction R) auto

lemma flush_block_ok:
  assumes "building a b U B bd s R vs"
  shows "ends s U B (flush_block compare junk bd s) (\<lambda>(bd', s'). \<exists>r. building a b U B bd' s' (R @ [r]) []
    \<and> mset r = mset vs \<and> (good_input compare vs \<longrightarrow> cmp_sorted compare r) \<and> touches {Temp a, Temp b} s s')"
proof -
  note I = assms[unfolded building_def]
  let ?ps = "rev [0 ..< length vs]" and ?cmp = "compare_records compare (bd_recs bd)"
  define d where "d = bd_dest bd"
  have d: "d \<in> {0, 1}" "even (length R) \<longleftrightarrow> d = 0" using I by (auto simp: d_def even_iff_mod_2_eq_zero)
  obtain h p ys where S: "sort_linked_list ?cmp junk (bd_links bd) (bd_first bd) = Some (h, p, length vs)"
    "null_terminated h p ys" "mset ys = mset ?ps" "comparator (set ?ps) ?cmp \<longrightarrow> cmp_sorted ?cmp ys"
    using sort_linked_list_returns[of "bd_links bd" "bd_first bd" ?ps ?cmp junk] I by auto
  have ys: "distinct ys" "length ys = length vs"
    using S(3) mset_eq_imp_distinct_iff[OF S(3)] by (simp, metis length_rev length_upt size_mset diff_zero)
  define r where "r = map (bd_recs bd) ys"
  have mr: "mset r = mset vs"
  proof -
    have "mset r = image_mset (bd_recs bd) (mset [0 ..< length vs])" by (simp add: r_def S(3))
    also have "\<dots> = mset vs" using I by (metis mset_map)
    finally show ?thesis .
  qed
  have sorted: "cmp_sorted compare r" if "good_input compare vs"
  proof -
    have "mset (map (bd_recs bd) ?ps) = mset (map (bd_recs bd) [0 ..< length vs])" by simp
    also have "\<dots> = mset vs" using I by metis
    finally have "good_input compare (map (bd_recs bd) ?ps)"
      using good_input_submset[OF that] by simp
    then have "cmp_sorted ?cmp ys" using compare_records_comparator S(4) by (metis distinct_rev distinct_upt)
    then show ?thesis by (simp add: r_def sorted_wrt_map compare_records_def)
  qed
  let ?w = "concat (if d = 0 then evens R else odds R)"
  let ?T = "bd_tapes bd"
  have W: "written s (mt_fp (?T d)) 0 ?w" "mt_count (?T d) = length ?w" "mt_fp (?T d) = (if d = 0 then Temp a else Temp b)"
    using d(1) I by auto
  have run: "ends s U B (write_run (bd_recs bd) d ?T h p s) (\<lambda>(T', s').
    T' = ?T(d := (?T d)\<lparr>mt_count := length ?w + length ys\<rparr>) \<and> written s' (mt_fp (?T d)) 0 (?w @ r)
    \<and> touches {mt_fp (?T d)} s s' \<and> fs_blocks s' = B + 2)"
    unfolding r_def using I S(2) ys d(1) W(1,2) by (intro write_run_ok) simp_all
  from run show ?thesis
  proof (cases rule: endsE)
    case (ret c s')
    with S(1) show ?thesis by (simp add: flush_block_def flip: d_def)
  next
    case (go x)
    obtain T' s' where x: "x = (T', s')" by force
    define bd' where "bd' = bd\<lparr>bd_links := Map.empty, bd_first := None, bd_count := 0, bd_tapes := T',
      bd_dest := Bit_Operations.xor d 1\<rparr>"
    have q: "T' = ?T(d := (?T d)\<lparr>mt_count := length ?w + length ys\<rparr>)" "written s' (mt_fp (?T d)) 0 (?w @ r)"
      "touches {mt_fp (?T d)} s s'" "fs_blocks s' = B + 2"
      using go(2) x by simp_all
    have "flush_block compare junk bd s = Some (Go (bd', s'))"
      using S(1) go(1) x by (simp add: flush_block_def bd'_def flip: d_def)
    moreover have "building a b U B bd' s' (R @ [r]) []"
      unfolding building_def bd'_def
      using I d q W(3) written_cong[OF q(3)] temps_touches[OF q(3)] mr ys
      by (auto simp: evens_odds_snoc r_def mod_Suc even_iff_mod_2_eq_zero)
    moreover have "touches {Temp a, Temp b} s s'"
      using q(3) W(3) by (auto elim: touches_mono split: if_splits)
    ultimately show ?thesis using mr sorted by auto
  qed
qed

subsection \<open>Reading the input\<close>

lemma building_touches:
  assumes "building a b U B bd s R vs" "touches F s s'" "Temp a \<notin> F" "Temp b \<notin> F" "fs_blocks s' = fs_blocks s"
  shows "building a b U B bd s' R vs"
  using assms(1,5) written_cong[OF assms(2,3)] written_cong[OF assms(2,4)] temps_touches[OF assms(2)]
  by (simp add: building_def)

lemma building_add_record:
  assumes "building a b U B bd s R vs" "touches {} s s'" "fs_blocks s' = fs_blocks s + 1"
  shows "building a b U B (add_record x bd) s' R (vs @ [x])"
proof -
  note I = assms(1)[unfolded building_def]
  have "map ((bd_recs bd)(length vs := x)) [0 ..< length vs] = map (bd_recs bd) [0 ..< length vs]" by simp
  then have "map ((bd_recs bd)(length vs := x)) [0 ..< length (vs @ [x])] = vs @ [x]" using I by simp
  moreover have "null_terminated ((bd_links bd)(length vs \<mapsto> bd_first bd)) (Some (length vs)) (rev [0 ..< length (vs @ [x])])"
    using I by simp
  ultimately show ?thesis
    using I assms(3) written_cong[OF assms(2)] temps_touches[OF assms(2)]
    by (simp add: building_def add_record_def)
qed

lemma runs_full: "\<forall>r \<in> set R. length r = n \<Longrightarrow> 0 < n \<Longrightarrow> runs n R"
  by (induction R) auto

lemma runs_snoc:
  "\<forall>r \<in> set R. length r = n \<Longrightarrow> r \<noteq> [] \<Longrightarrow> length r \<le> n \<Longrightarrow> runs n (R @ [r])"
  by (induction R) (auto simp flip: length_greater_0_conv)

definition input_of :: "('r \<Rightarrow> 'r \<Rightarrow> int) \<Rightarrow> 'r list \<Rightarrow> 'r list list \<Rightarrow> 'r list \<Rightarrow> bool" where
  "input_of compare all R vs \<longleftrightarrow> mset (concat R) + mset vs = mset all
     \<and> (good_input compare all \<longrightarrow> (\<forall>r \<in> set R. cmp_sorted compare r))"

lemma input_of_flush:
  assumes "input_of compare all R (vs @ rest)" "mset r = mset vs" "good_input compare vs \<longrightarrow> cmp_sorted compare r"
  shows "input_of compare all (R @ [r]) rest"
proof -
  have "mset vs \<subseteq># mset all"
    using assms(1) unfolding input_of_def
    by (metis mset_append mset_subset_eq_add_left mset_subset_eq_add_right subset_mset.order_trans)
  then show ?thesis
    using assms good_input_submset[of compare all vs] by (auto simp: input_of_def ac_simps)
qed

text \<open>What the reading loop, started in \<open>s\<close>, leaves behind.\<close>

definition runs_made ::
  "nat \<Rightarrow> nat \<Rightarrow> nat set \<Rightarrow> int \<Rightarrow> nat \<Rightarrow> ('r \<Rightarrow> 'r \<Rightarrow> int) \<Rightarrow> 'r list \<Rightarrow> nat \<Rightarrow> 'r fs
     \<Rightarrow> (nat \<Rightarrow> mtape) \<times> 'r fs \<Rightarrow> bool" where
  "runs_made a b U B n compare all j s = (\<lambda>(T, s'). \<exists>bd' R'.
    bd_tapes bd' = T \<and> building a b U B bd' s' R' [] \<and> runs n R' \<and> input_of compare all R' []
    \<and> touches {Temp a, Temp b, User j} s s' \<and> fs_data s' (User j) = fs_data s (User j))"

lemma runs_made_trans:
  "touches {Temp a, Temp b, User j} s s1 \<Longrightarrow> fs_data s1 (User j) = fs_data s (User j) \<Longrightarrow> runs_made a b U B n compare all j s1 x
   \<Longrightarrow> runs_made a b U B n compare all j s x"
  using touches_trans by (fastforce simp: runs_made_def)

lemma ends_runs_made:
  "touches {Temp a, Temp b, User j} s s1 \<Longrightarrow> fs_data s1 (User j) = fs_data s (User j) \<Longrightarrow> ends s1 U B w (runs_made a b U B n compare all j s1)
   \<Longrightarrow> ends s U B w (runs_made a b U B n compare all j s)"
  by (erule ends_unlucky[rotated]) (simp_all add: lucky_touches runs_made_trans)

lemma make_runs_ok:
  assumes "building a b U B bd s R vs" "unread s (User j) rest" "\<forall>r \<in> set R. length r = n" "length vs < n"
    and "input_of compare all R (vs @ rest)"
  shows "ends s U B (make_runs compare junk (User j) n bd s) (runs_made a b U B n compare all j s)"
  using assms
proof (induction rest arbitrary: bd s R vs)
  case Nil
  note rd = f_read_Nil[OF Nil.prems(2)]
  have count: "bd_count bd = length vs" using Nil.prems(1) by (simp add: building_def)
  show ?case
  proof (cases "vs = []")
    case True
    have "runs n R" using Nil.prems(3,4) by (intro runs_full) auto
    with True Nil rd count show ?thesis
      by (subst make_runs.simps) (auto simp: runs_made_def)
  next
    case False
    note fb = flush_block_ok[OF Nil.prems(1), of compare junk]
    from fb show ?thesis
    proof (cases rule: endsE)
      case (ret c s')
      with rd count False show ?thesis by (subst make_runs.simps) simp
    next
      case (go y)
      obtain bd' s' where y: "y = (bd', s')" by force
      obtain r where r: "building a b U B bd' s' (R @ [r]) []" "mset r = mset vs"
        "good_input compare vs \<longrightarrow> cmp_sorted compare r" "touches {Temp a, Temp b} s s'"
        using go(2) y by auto
      have len: "length r = length vs" using r(2) by (metis size_mset)
      have "runs n (R @ [r])" using Nil.prems(3,4) False len by (intro runs_snoc) auto
      moreover have "input_of compare all (R @ [r]) []" using input_of_flush[OF Nil.prems(5) r(2,3)] by simp
      moreover have "touches {Temp a, Temp b, User j} s s'" using r(4) by (rule touches_mono) auto
      moreover have "fs_data s' (User j) = fs_data s (User j)" using r(4) by (simp add: touches_def)
      ultimately show ?thesis
        using rd count False go(1) y r(1) by (subst make_runs.simps) (auto simp: runs_made_def)
    qed
  qed
next
  case (Cons x rest)
  obtain s1 where s1: "f_read (User j) s = (Some x, s1)" "unread s1 (User j) rest" "touches {User j} s s1"
    "fs_blocks s1 = fs_blocks s" "fs_data s1 = fs_data s"
    using f_read_Cons[OF Cons.prems(2)] by blast
  have B1: "building a b U B bd s1 R vs"
    using building_touches[OF Cons.prems(1) s1(3) _ _ s1(4)] by simp
  show ?case
  proof (cases rule: f_malloc_cases[of s1])
    case (failed s2)
    have "building a b U B bd s2 R vs" using building_touches[OF B1 failed(3) _ _ failed(4)] by simp
    moreover have "\<not> lucky s" using failed(2) lucky_touches[OF s1(3)] by simp
    ultimately show ?thesis
      using s1(1) failed(1)
      by (subst make_runs.simps) (auto simp: building_def intro!: abort_runs_ok)
  next
    case (ok s2)
    define bd2 where "bd2 = add_record x bd"
    have B2: "building a b U B bd2 s2 R (vs @ [x])"
      unfolding bd2_def using building_add_record[OF B1 ok(2,3)] .
    have u2: "unread s2 (User j) rest" using s1(2) unread_cong[OF ok(2)] by simp
    have t2: "touches {User j} s s2" by (rule touches_trans[OF s1(3) touches_mono[OF ok(2)]]) simp
    have d2: "fs_data s2 (User j) = fs_data s (User j)" using s1(5) ok(2) by (simp add: touches_def)
    have count: "bd_count bd2 = length vs + 1" using B2 by (simp add: building_def)
    have I2: "input_of compare all R ((vs @ [x]) @ rest)" using Cons.prems(5) by simp
    show ?thesis
    proof (cases "length vs + 1 = n")
      case False
      with Cons.prems(4) have "length (vs @ [x]) < n" by simp
      from Cons.IH[OF B2 u2 Cons.prems(3) this I2]
      have "ends s2 U B (make_runs compare junk (User j) n bd2 s2) (runs_made a b U B n compare all j s2)" .
      moreover have "make_runs compare junk (User j) n bd s = make_runs compare junk (User j) n bd2 s2"
        using s1(1) ok(1) count False by (subst make_runs.simps) (simp add: bd2_def)
      ultimately show ?thesis
        by (simp only:) (rule ends_runs_made[OF touches_mono[OF t2] d2], simp_all)
    next
      case True
      note fb = flush_block_ok[OF B2, of compare junk]
      from fb show ?thesis
      proof (cases rule: endsE)
        case (ret c s')
        with s1(1) ok(1) count True lucky_touches[OF t2] show ?thesis
          by (subst make_runs.simps) (simp add: bd2_def)
      next
        case (go y)
        obtain bd3 s3 where y: "y = (bd3, s3)" by force
        obtain r where r: "building a b U B bd3 s3 (R @ [r]) []" "mset r = mset (vs @ [x])"
          "good_input compare (vs @ [x]) \<longrightarrow> cmp_sorted compare r" "touches {Temp a, Temp b} s2 s3"
          using go(2) y by auto
        have len: "length r = n" using r(2) True by (metis length_append_singleton size_mset Suc_eq_plus1)
        have u3: "unread s3 (User j) rest" using u2 unread_cong[OF r(4)] by simp
        have t3: "touches {Temp a, Temp b, User j} s s3"
          by (rule touches_trans[OF touches_mono[OF t2] touches_mono[OF r(4)]]) simp_all
        have d3: "fs_data s3 (User j) = fs_data s (User j)" using d2 r(4) by (simp add: touches_def)
        have "\<forall>r' \<in> set (R @ [r]). length r' = n" "length ([] :: 'a list) < n"
          using Cons.prems(3,4) len by auto
        from Cons.IH[OF r(1) u3 this] input_of_flush[OF I2 r(2,3)]
        have "ends s3 U B (make_runs compare junk (User j) n bd3 s3) (runs_made a b U B n compare all j s3)" by simp
        moreover have "make_runs compare junk (User j) n bd s = make_runs compare junk (User j) n bd3 s3"
          using s1(1) ok(1) count True go(1) y by (subst make_runs.simps) (simp add: bd2_def)
        ultimately show ?thesis
          by (simp only:) (rule ends_runs_made[OF t3 d3])
      qed
    qed
  qed
qed

subsection \<open>One tape\<close>

lemma copy_tape_ok:
  assumes "temps s (insert a U)" "a \<notin> U" "mt_fp t = Temp a" "mt_count t = length xs" "unread s (Temp a) xs"
    and "written s (User k) n w" "fs_blocks s = B + 2"
  shows "ends s U B (copy_tape (User k) t buf s) (\<lambda>s'.
    written s' (User k) n (w @ xs) \<and> temps s' (insert a U) \<and> fs_blocks s' = B + 2)"
  using assms
proof (induction xs arbitrary: t buf s w)
  case Nil
  then show ?case by (subst copy_tape.simps) simp
next
  case (Cons x xs)
  obtain s1 where s1: "f_read (Temp a) s = (Some x, s1)" "unread s1 (Temp a) xs" "touches {Temp a} s s1"
    "fs_blocks s1 = fs_blocks s"
    using f_read_Cons[OF Cons.prems(5)] by blast
  have w1: "written s1 (User k) n w" using Cons.prems(6) written_cong[OF s1(3)] by simp
  from w1 show ?case
  proof (cases rule: f_write_cases[where r = x])
    case (failed s2)
    have "temps s2 (insert a U)" using Cons.prems(1) temps_touches[OF s1(3)] temps_touches[OF failed(3)] by simp
    then obtain s3 where "f_close (Temp a) s2 = Some s3" "temps s3 (insert a U - {a})" "fs_blocks s3 = fs_blocks s2"
      using f_close_ok[of s2 "insert a U" a] by blast
    moreover have "\<not> lucky s" using failed(2) lucky_touches[OF s1(3)] by simp
    ultimately show ?thesis
      using Cons.prems s1(1,4) failed(1,4) by (subst copy_tape.simps) simp
  next
    case (ok s2)
    have t: "temps s2 (insert a U)" using Cons.prems(1) temps_touches[OF s1(3)] temps_touches[OF ok(3)] by simp
    have u: "unread s2 (Temp a) xs" using s1(2) unread_cong[OF ok(3)] by simp
    have "ends s2 U B (copy_tape (User k) (t\<lparr>mt_count := mt_count t - 1\<rparr>) x s2) (\<lambda>s'.
      written s' (User k) n ((w @ [x]) @ xs) \<and> temps s' (insert a U) \<and> fs_blocks s' = B + 2)"
      using t u Cons.prems ok(2,4) s1(4) by (intro Cons.IH) simp_all
    moreover have "\<not> lucky s2 \<Longrightarrow> \<not> lucky s" using lucky_touches[OF ok(3)] lucky_touches[OF s1(3)] by blast
    ultimately show ?thesis
      using Cons.prems(3,4) s1(1) ok(1)
      by (subst copy_tape.simps) (auto elim: ends_unlucky[rotated])
  qed
qed

subsection \<open>Merging two tapes\<close>

fun temp_of :: "fp \<Rightarrow> nat set" where
  "temp_of (User n) = {}"
| "temp_of (Temp n) = {n}"

text \<open>The files of a pass: the sources \<open>a\<close> and \<open>b\<close>, the destinations \<open>f\<close> (the sorted file
  or a temporary file) and \<open>d\<close>.\<close>

definition pass_files :: "nat \<Rightarrow> nat \<Rightarrow> fp \<Rightarrow> nat \<Rightarrow> nat \<Rightarrow> nat set \<Rightarrow> 'r fs \<Rightarrow> bool" where
  "pass_files a b f d k U s \<longleftrightarrow> temps s ({a, b, d} \<union> temp_of f \<union> U)
     \<and> distinct [a, b, d] \<and> a \<notin> U \<and> b \<notin> U \<and> d \<notin> U
     \<and> (f = User k \<or> (\<exists>c. f = Temp c \<and> c \<notin> {a, b, d} \<and> c \<notin> U))"

definition tapes_are :: "nat \<Rightarrow> nat \<Rightarrow> fp \<Rightarrow> nat \<Rightarrow> 'r pass \<Rightarrow> bool" where
  "tapes_are a b f d ps \<longleftrightarrow> mt_fp (ps_src ps 0) = Temp a \<and> mt_fp (ps_src ps 1) = Temp b
     \<and> mt_fp (ps_dst ps 0) = f \<and> mt_fp (ps_dst ps 1) = Temp d"

lemma pass_files_touches: "touches F s s' \<Longrightarrow> pass_files a b f d k U s' = pass_files a b f d k U s"
  by (simp add: pass_files_def temps_touches)

lemma close_unless_ok:
  assumes "temps s (temp_of f \<union> V)" "f = User k \<or> (\<exists>c. f = Temp c \<and> c \<notin> V)"
  shows "\<exists>s'. close_unless f (User k) s = Some s' \<and> temps s' V \<and> keeps {} s s' \<and> fs_blocks s' = fs_blocks s"
proof (cases "f = User k")
  case True
  with assms(1) show ?thesis by (simp add: close_unless_def)
next
  case False
  then obtain c where c: "f = Temp c" "c \<notin> V" using assms(2) by blast
  then show ?thesis using f_close_ok[of s "insert c V" c] assms(1) by (simp add: close_unless_def)
qed

lemma f_close_insert:
  assumes "temps s (insert n V)" "n \<notin> V"
  shows "\<exists>s'. f_close (Temp n) s = Some s' \<and> temps s' V \<and> keeps {} s s' \<and> fs_blocks s' = fs_blocks s"
  using f_close_ok[OF assms(1), of n] assms(2) by simp

lemma abort_pass_ok:
  assumes "pass_files a b f d k U s" "tapes_are a b f d ps" "fs_blocks s = B + 2" "\<not> lucky s0"
  shows "ends s0 U B (abort_pass (User k) (ps_src ps) (ps_dst ps) s) Q"
proof -
  note P = assms(1)[unfolded pass_files_def] and T = assms(2)[unfolded tapes_are_def]
  have "temps s (temp_of f \<union> insert d (insert a (insert b U)))"
    using P by (metis Un_insert_left Un_left_commute insert_commute sup_bot_left Un_commute)
  then obtain s1 where 1: "close_unless f (User k) s = Some s1" "temps s1 (insert d (insert a (insert b U)))"
    "fs_blocks s1 = fs_blocks s"
    using close_unless_ok[of s f "insert d (insert a (insert b U))" k] P by auto
  then obtain s2 where 2: "f_close (Temp d) s1 = Some s2" "temps s2 (insert a (insert b U))" "fs_blocks s2 = fs_blocks s"
    using f_close_insert[OF 1(2)] P by auto
  then obtain s3 where 3: "f_close (Temp a) s2 = Some s3" "temps s3 (insert b U)" "fs_blocks s3 = fs_blocks s"
    using f_close_insert[OF 2(2)] P by auto
  then obtain s4 where 4: "f_close (Temp b) s3 = Some s4" "temps s4 U" "fs_blocks s4 = fs_blocks s"
    using f_close_insert[OF 3(2)] P by auto
  from 1(1) 2(1) 3(1) 4 T assms(3,4) show ?thesis by (simp add: abort_pass_def)
qed

text \<open>What is still to be merged of a source tape: its first record is in the buffer.\<close>

definition src_view :: "'r fs \<Rightarrow> 'r pass \<Rightarrow> nat \<Rightarrow> 'r list \<Rightarrow> bool" where
  "src_view s ps i xs \<longleftrightarrow> mt_count (ps_src ps i) = length xs
     \<and> (xs \<noteq> [] \<longrightarrow> ps_buf ps i = hd xs \<and> unread s (mt_fp (ps_src ps i)) (tl xs))"

abbreviation not_before :: "('a \<Rightarrow> 'a \<Rightarrow> int) \<Rightarrow> 'a \<Rightarrow> 'a \<Rightarrow> bool" where
  "not_before compare x y \<equiv> \<not> compare x y < 0"

lemma picks_for_not_before: "picks_for (not_before compare) compare"
  by (auto simp: picks_for_def)

text \<open>A pass that goes on: the files, the two sources \<open>xs\<close> and \<open>ys\<close>, and what the two
  destinations hold; \<open>n\<close> bounds the old content of the sorted file.\<close>

definition in_pass ::
  "nat \<Rightarrow> nat \<Rightarrow> fp \<Rightarrow> nat \<Rightarrow> nat \<Rightarrow> nat set \<Rightarrow> int \<Rightarrow> nat \<Rightarrow> 'r pass \<Rightarrow> 'r fs
     \<Rightarrow> (nat \<Rightarrow> 'r list) \<Rightarrow> (nat \<Rightarrow> 'r list) \<Rightarrow> bool" where
  "in_pass a b f d k U B n ps s xs ws \<longleftrightarrow>
     pass_files a b f d k U s \<and> tapes_are a b f d ps \<and> fs_blocks s = B + 2
     \<and> (\<forall>i \<in> {0, 1}. src_view s ps i (xs i))
     \<and> (\<forall>i \<in> {0, 1}. mt_count (ps_dst ps i) = length (ws i))
     \<and> written s f (if f = User k then n else 0) (ws 0) \<and> written s (Temp d) 0 (ws 1)
     \<and> (f \<noteq> User k \<longrightarrow> written s (User k) n [])"

lemma merge_record_ok:
  assumes I: "in_pass a b f d k U B n ps s xs ws" and sel: "sel \<in> {0, 1}" "xs sel \<noteq> []" and dest: "dest \<in> {0, 1}"
  shows "ends s U B (merge_record (User k) dest sel ps s) (\<lambda>(ps', s').
    in_pass a b f d k U B n ps' s' (xs(sel := tl (xs sel))) (ws(dest := ws dest @ [hd (xs sel)]))
    \<and> (lucky s \<longrightarrow> lucky s'))"
proof -
  note I' = I[unfolded in_pass_def]
  have P: "pass_files a b f d k U s" "tapes_are a b f d ps" "fs_blocks s = B + 2" using I' by blast+
  have fps: "mt_fp (ps_src ps i) = (if i = 0 then Temp a else Temp b)" "mt_fp (ps_dst ps i) = (if i = 0 then f else Temp d)"
    if "i \<in> {0, 1}" for i
    using P(2) that by (auto simp: tapes_are_def)
  have dist: "Temp a \<noteq> Temp b" "Temp a \<noteq> Temp d" "Temp b \<noteq> Temp d" "f \<noteq> Temp a" "f \<noteq> Temp b" "f \<noteq> Temp d"
    using P(1) by (auto simp: pass_files_def)
  define N where "N i = (if i = (0 :: nat) \<and> f = User k then n else 0)" for i
  have W: "written s (mt_fp (ps_dst ps i)) (N i) (ws i)" "mt_count (ps_dst ps i) = length (ws i)" if "i \<in> {0, 1}" for i
    using I' that fps(2)[OF that] by (auto simp: N_def)
  have V: "src_view s ps i (xs i)" if "i \<in> {0, 1}" for i using I' that by blast
  have buf: "ps_buf ps sel = hd (xs sel)" "unread s (mt_fp (ps_src ps sel)) (tl (xs sel))"
    "mt_count (ps_src ps sel) = length (xs sel)"
    using V[OF sel(1)] sel(2) by (auto simp: src_view_def)
  have sd: "mt_fp (ps_src ps i) \<noteq> mt_fp (ps_dst ps j)" if "i \<in> {0, 1}" "j \<in> {0, 1}" for i j
    using fps(1)[OF that(1)] fps(2)[OF that(2)] dist by (auto split: if_splits)
  have ss: "mt_fp (ps_src ps i) \<noteq> mt_fp (ps_src ps j)" "mt_fp (ps_dst ps i) \<noteq> mt_fp (ps_dst ps j)"
    if "i \<in> {0, 1}" "j \<in> {0, 1}" "i \<noteq> j" for i j
    using fps[OF that(1)] fps[OF that(2)] dist that by (auto split: if_splits)
  let ?w = "mt_fp (ps_dst ps dest)" and ?r = "mt_fp (ps_src ps sel)"
  from W(1)[OF dest] show ?thesis
  proof (cases rule: f_write_cases[where r = "hd (xs sel)"])
    case (failed s1)
    have "pass_files a b f d k U s1" "fs_blocks s1 = B + 2"
      using P pass_files_touches[OF failed(3)] failed(4) by simp_all
    from abort_pass_ok[OF this(1) P(2) this(2) failed(2)] failed(1) buf(1) show ?thesis
      by (simp add: merge_record_def Let_def)
  next
    case (ok s1)
    obtain r s2 where rs: "(if mt_count (ps_src ps sel) > 1 then f_read ?r s1 else (None, s1)) = (r, s2)" by force
    have u1: "unread s1 ?r (tl (xs sel))" using buf(2) unread_cong[OF ok(3)] sd[OF sel(1) dest] by simp
    have 2: "touches {?r} s1 s2" "fs_blocks s2 = fs_blocks s1"
      "tl (xs sel) \<noteq> [] \<longrightarrow> r = Some (hd (tl (xs sel))) \<and> unread s2 ?r (tl (tl (xs sel)))"
      "tl (xs sel) = [] \<longrightarrow> r = None"
    proof -
      consider "tl (xs sel) = []" | y ys where "tl (xs sel) = y # ys" by (cases "tl (xs sel)") auto
      then have "touches {?r} s1 s2 \<and> fs_blocks s2 = fs_blocks s1
        \<and> (tl (xs sel) \<noteq> [] \<longrightarrow> r = Some (hd (tl (xs sel))) \<and> unread s2 ?r (tl (tl (xs sel))))
        \<and> (tl (xs sel) = [] \<longrightarrow> r = None)"
      proof cases
        case 1
        with sel(2) have "length (xs sel) = 1" by (cases "xs sel") auto
        with rs buf(3) 1 show ?thesis by simp
      next
        case (2 y ys)
        then have "length (xs sel) > 1" by (cases "xs sel") auto
        with rs buf(3) 2 f_read_Cons[of s1 ?r y ys] u1 show ?thesis by auto
      qed
      then show "touches {?r} s1 s2" "fs_blocks s2 = fs_blocks s1"
        "tl (xs sel) \<noteq> [] \<longrightarrow> r = Some (hd (tl (xs sel))) \<and> unread s2 ?r (tl (tl (xs sel)))"
        "tl (xs sel) = [] \<longrightarrow> r = None" by blast+
    qed
    define ps' where "ps' = ps\<lparr>ps_buf := (case r of None \<Rightarrow> ps_buf ps | Some x \<Rightarrow> (ps_buf ps)(sel := x)),
      ps_src := (ps_src ps)(sel := (ps_src ps sel)\<lparr>mt_count := mt_count (ps_src ps sel) - 1\<rparr>),
      ps_dst := (ps_dst ps)(dest := (ps_dst ps dest)\<lparr>mt_count := mt_count (ps_dst ps dest) + 1\<rparr>)\<rparr>"
    have t12: "touches {?w, ?r} s s2"
      by (rule touches_trans[OF touches_mono[OF ok(3)] touches_mono[OF 2(1)]]) simp_all
    have same: "mt_fp (ps_src ps' i) = mt_fp (ps_src ps i)" "mt_fp (ps_dst ps' i) = mt_fp (ps_dst ps i)" for i
      by (simp_all add: ps'_def)
    have src: "src_view s2 ps' i ((xs(sel := tl (xs sel))) i)" if i: "i \<in> {0, 1}" for i
    proof (cases "i = sel")
      case True
      obtain x ts where "xs sel = x # ts" using sel(2) by (cases "xs sel") auto
      with True 2(3,4) buf(3) same(1)[of i] show ?thesis
        by (cases ts) (simp_all add: src_view_def ps'_def)
    next
      case False
      have "unread s2 (mt_fp (ps_src ps i)) zs = unread s (mt_fp (ps_src ps i)) zs" for zs
        using unread_cong[OF t12] sd[OF i dest] ss(1)[OF i sel(1) False] by simp
      with V[OF i] False show ?thesis by (auto simp: src_view_def ps'_def split: option.split)
    qed
    have dst: "written s2 (mt_fp (ps_dst ps i)) (N i) ((ws(dest := ws dest @ [hd (xs sel)])) i)"
        "mt_count (ps_dst ps' i) = length ((ws(dest := ws dest @ [hd (xs sel)])) i)" if i: "i \<in> {0, 1}" for i
    proof -
      show "written s2 (mt_fp (ps_dst ps i)) (N i) ((ws(dest := ws dest @ [hd (xs sel)])) i)"
      proof (cases "i = dest")
        case True
        with ok(2) show ?thesis using written_cong[OF 2(1)] sd[OF sel(1) dest] by simp
      next
        case False
        with W(1)[OF i] show ?thesis
          using written_cong[OF t12] sd[OF sel(1) i] ss(2)[OF i dest False] by simp
      qed
      show "mt_count (ps_dst ps' i) = length ((ws(dest := ws dest @ [hd (xs sel)])) i)"
        using W(2)[OF i] W(2)[OF dest] by (simp add: ps'_def)
    qed
    have tapes: "tapes_are a b f d ps'" using P(2) same by (simp add: tapes_are_def)
    have "f \<noteq> User k \<Longrightarrow> written s2 (User k) n []"
      using I' written_cong[OF t12, of "User k"] fps(1)[OF sel(1)] fps(2)[OF dest] by (simp split: if_splits)
    then have "in_pass a b f d k U B n ps' s2 (xs(sel := tl (xs sel))) (ws(dest := ws dest @ [hd (xs sel)]))"
      unfolding in_pass_def
      using P(1,3) pass_files_touches[OF t12] tapes ok(4) 2(2) src dst dst(1)[of 0] dst(1)[of 1] fps(2)
      by (simp add: N_def)
    moreover have "merge_record (User k) dest sel ps s = Some (Go (ps', s2))"
      using ok(1) rs buf(1) by (simp add: merge_record_def Let_def ps'_def)
    ultimately show ?thesis using t12 by (simp add: touches_def)
  qed
qed

text \<open>The sources and destinations of a pass, by number.\<close>

definition two :: "'a \<Rightarrow> 'a \<Rightarrow> nat \<Rightarrow> 'a" where
  "two x y i = (if i = 0 then x else y)"

lemma two_simps [simp]: "two x y 0 = x" "two x y 1 = y" "two x y (Suc 0) = y"
  by (simp_all add: two_def)

lemma in_pass_cong:
  assumes "in_pass a b f d k U B n ps s xs ws" "\<And>i. i \<in> {0, 1} \<Longrightarrow> xs i = xs' i" "\<And>i. i \<in> {0, 1} \<Longrightarrow> ws i = ws' i"
  shows "in_pass a b f d k U B n ps s xs' ws'"
  using assms(1) assms(2)[of 0] assms(2)[of 1] assms(3)[of 0] assms(3)[of 1] by (simp add: in_pass_def)

lemma merge_file_block_ok:
  assumes "in_pass a b f d k U B n ps s (two (r0 @ xs) (r1 @ ys)) ws" "dest \<in> {0, 1}"
    and "cnt 0 = length r0" "cnt 1 = length r1"
  shows "ends s U B (merge_file_block compare (User k) dest cnt ps s) (\<lambda>(ps', s').
    in_pass a b f d k U B n ps' s' (two xs ys) (ws(dest := ws dest @ lmerge (not_before compare) r0 r1))
    \<and> (lucky s \<longrightarrow> lucky s'))"
  using assms
proof (induction "length r0 + length r1" arbitrary: ps s r0 r1 ws cnt rule: less_induct)
  case less
  note I = less.prems(1) and dest = less.prems(2) and c = less.prems(3,4)
  show ?case
  proof (cases "r0 = [] \<and> r1 = []")
    case True
    with I c show ?thesis by (subst merge_file_block.simps) simp
  next
    case False
    let ?later = "not_before compare"
    define sec where "sec \<longleftrightarrow> r0 = [] \<or> r1 \<noteq> [] \<and> ?later (hd r0) (hd r1)"
    define sel where "sel = (if sec then 1 else 0 :: nat)"
    have sel: "sel \<in> {0, 1}" "two (r0 @ xs) (r1 @ ys) sel \<noteq> []" using False by (auto simp: sel_def sec_def)
    have bufs: "ps_buf ps 0 = hd r0" if "r0 \<noteq> []" using I that by (auto simp: in_pass_def src_view_def)
    moreover have "ps_buf ps 1 = hd r1" if "r1 \<noteq> []" using I that by (auto simp: in_pass_def src_view_def)
    ultimately have select: "(if cnt 0 = 0 then 1 else if cnt 1 = 0 then 0
        else if compare (ps_buf ps 0) (ps_buf ps 1) < 0 then 0 else 1) = sel"
      using c False by (auto simp: sel_def sec_def)
    define r0' r1' where "r0' = (if sec then r0 else tl r0)" and "r1' = (if sec then tl r1 else r1)"
    have hdsel: "hd (two (r0 @ xs) (r1 @ ys) sel) = (if sec then hd r1 else hd r0)"
      using False by (auto simp: sel_def sec_def)
    define x where "x = (if sec then hd r1 else hd r0)"
    have lm: "lmerge ?later r0 r1 = x # lmerge ?later r0' r1'"
      using lmerge_step[of r0 r1 ?later] False by (auto simp: r0'_def r1'_def sec_def x_def)
    have shape: "((two (r0 @ xs) (r1 @ ys))(sel := tl (two (r0 @ xs) (r1 @ ys) sel))) i = two (r0' @ xs) (r1' @ ys) i"
      if "i \<in> {0, 1}" for i
      using that False by (auto simp: r0'_def r1'_def sel_def sec_def)
    from merge_record_ok[OF I sel dest] show ?thesis
    proof (cases rule: endsE)
      case (ret e s')
      with False c select show ?thesis by (subst merge_file_block.simps) (auto simp: Let_def)
    next
      case (go y)
      obtain ps1 s1 where y: "y = (ps1, s1)" by force
      have I1: "in_pass a b f d k U B n ps1 s1 (two (r0' @ xs) (r1' @ ys)) (ws(dest := ws dest @ [x]))"
        using go(2) y by (auto simp: hdsel x_def intro: in_pass_cong[OF _ shape])
      have luck: "lucky s \<longrightarrow> lucky s1" using go(2) y by simp
      have less': "length r0' + length r1' < length r0 + length r1"
      proof -
        have "sec \<Longrightarrow> r1 \<noteq> []" "\<not> sec \<Longrightarrow> r0 \<noteq> []" using False by (auto simp: sec_def)
        then show ?thesis by (cases sec) (simp_all add: r0'_def r1'_def)
      qed
      have cnt': "(cnt(sel := cnt sel - 1)) 0 = length r0'" "(cnt(sel := cnt sel - 1)) 1 = length r1'"
        unfolding sel_def r0'_def r1'_def using c by (cases sec; simp)+
      have IH: "ends s1 U B (merge_file_block compare (User k) dest (cnt(sel := cnt sel - 1)) ps1 s1) (\<lambda>(ps', s').
        in_pass a b f d k U B n ps' s' (two xs ys)
          ((ws(dest := ws dest @ [x]))(dest := (ws(dest := ws dest @ [x])) dest @ lmerge ?later r0' r1'))
        \<and> (lucky s1 \<longrightarrow> lucky s'))"
        by (rule less.hyps[OF less' I1 dest cnt'])
      have eq: "merge_file_block compare (User k) dest cnt ps s
          = merge_file_block compare (User k) dest (cnt(sel := cnt sel - 1)) ps1 s1"
        using False c select go(1) y by (subst merge_file_block.simps) (auto simp: Let_def)
      show ?thesis unfolding eq by (rule ends_unlucky[OF _ IH]) (use luck in \<open>auto simp: lm\<close>)
    qed
  qed
qed

lemma merge_blocks_ok:
  assumes "in_pass a b f e k U B n ps s (two (concat (evens R)) (concat (odds R))) ws" "runs m R"
    and "d \<in> {0, 1}"
  shows "ends s U B (merge_blocks compare (User k) m d ps s) (\<lambda>(ps', s').
    in_pass a b f e k U B n ps' s' (two [] [])
      (let R' = pair_merge (not_before compare) R in
       ws(d := ws d @ concat (evens R'), 1 - d := ws (1 - d) @ concat (odds R')))
    \<and> (lucky s \<longrightarrow> lucky s'))"
  using assms
proof (induction "not_before compare" R arbitrary: ps s ws d rule: pair_merge.induct)
  case 1
  then have "mt_count (ps_src ps 0) = 0" by (simp add: in_pass_def src_view_def)
  with 1 show ?case by (subst merge_blocks.simps) (auto elim: in_pass_cong)
next
  case (2 r)
  have ne: "mt_count (ps_src ps 0) \<noteq> 0" "mt_count (ps_src ps 0) = length r" "mt_count (ps_src ps 1) = 0" "length r \<le> m"
    using 2 by (auto simp: in_pass_def src_view_def)
  define cnt where "cnt i = min (mt_count (ps_src ps i)) m" for i
  have "in_pass a b f e k U B n ps s (two (r @ []) ([] @ [])) ws" using 2(1) by simp
  from merge_file_block_ok[OF this 2(3), of cnt compare] ne
  have B: "ends s U B (merge_file_block compare (User k) d cnt ps s) (\<lambda>(ps', s').
    in_pass a b f e k U B n ps' s' (two [] []) (ws(d := ws d @ r)) \<and> (lucky s \<longrightarrow> lucky s'))"
    by (simp add: cnt_def)
  from B show ?case
  proof (cases rule: endsE)
    case (ret c s')
    with ne(1) show ?thesis by (subst merge_blocks.simps) (simp flip: cnt_def)
  next
    case (go y)
    obtain ps1 s1 where y: "y = (ps1, s1)" by force
    have "mt_count (ps_src ps1 0) = 0" using go(2) y by (simp add: in_pass_def src_view_def)
    then have "merge_blocks compare (User k) m d ps s = Some (Go (ps1, s1))"
      using ne(1) go(1) y by (subst merge_blocks.simps) (simp add: merge_blocks.simps flip: cnt_def)
    with go(2) y 2(3) show ?thesis by (auto elim!: in_pass_cong)
  qed
next
  case (3 r q R)
  let ?A = "concat (evens R)" and ?B = "concat (odds R)" and ?later = "not_before compare"
  have ne: "mt_count (ps_src ps 0) \<noteq> 0" "min (mt_count (ps_src ps 0)) m = length r"
    "min (mt_count (ps_src ps 1)) m = length q"
    using 3(2,3) concat_odds_Nil[of m R] by (auto simp: in_pass_def src_view_def)
  define cnt where "cnt i = min (mt_count (ps_src ps i)) m" for i
  have "in_pass a b f e k U B n ps s (two (r @ ?A) (q @ ?B)) ws" using 3(2) by simp
  from merge_file_block_ok[OF this 3(4), of cnt compare] ne
  have B: "ends s U B (merge_file_block compare (User k) d cnt ps s) (\<lambda>(ps', s').
    in_pass a b f e k U B n ps' s' (two ?A ?B) (ws(d := ws d @ lmerge ?later r q)) \<and> (lucky s \<longrightarrow> lucky s'))"
    by (simp add: cnt_def)
  from B show ?case
  proof (cases rule: endsE)
    case (ret c s')
    with ne(1) show ?thesis by (subst merge_blocks.simps) (simp flip: cnt_def)
  next
    case (go y)
    obtain ps1 s1 where y: "y = (ps1, s1)" by force
    have I1: "in_pass a b f e k U B n ps1 s1 (two ?A ?B) (ws(d := ws d @ lmerge ?later r q))" "lucky s \<longrightarrow> lucky s1"
      using go(2) y by simp_all
    have d': "1 - d \<in> {0, 1}" "Bit_Operations.xor d 1 = 1 - d" "1 - (1 - d) = d" "1 - d \<noteq> d" using 3(4) by auto
    from 3(1)[OF I1(1) _ d'(1)] 3(3) I1(2)
    have "ends s1 U B (merge_blocks compare (User k) m (1 - d) ps1 s1) (\<lambda>(ps', s').
      in_pass a b f e k U B n ps' s' (two [] [])
        (let R' = pair_merge ?later (r # q # R) in
         ws(d := ws d @ concat (evens R'), 1 - d := ws (1 - d) @ concat (odds R')))
      \<and> (lucky s \<longrightarrow> lucky s'))"
      using d' by (auto simp: Let_def fun_upd_twist elim!: ends_unlucky[rotated])
    moreover have "merge_blocks compare (User k) m d ps s = merge_blocks compare (User k) m (1 - d) ps1 s1"
      using ne(1) go(1) y d'(2) by (subst merge_blocks.simps) (simp flip: cnt_def)
    ultimately show ?thesis using I1(2) by (auto elim: ends_unlucky[rotated])
  qed
qed

subsection \<open>The passes\<close>

text \<open>Two source tapes ready to be merged, the sorted file still untouched.\<close>

definition taped ::
  "nat \<Rightarrow> nat \<Rightarrow> nat \<Rightarrow> nat set \<Rightarrow> int \<Rightarrow> nat \<Rightarrow> (nat \<Rightarrow> mtape) \<Rightarrow> 'r fs \<Rightarrow> 'r list list \<Rightarrow> bool" where
  "taped a b k U B n src s R \<longleftrightarrow>
     temps s (insert a (insert b U)) \<and> a \<noteq> b \<and> a \<notin> U \<and> b \<notin> U \<and> fs_blocks s = B + 2
     \<and> mt_fp (src 0) = Temp a \<and> mt_fp (src 1) = Temp b
     \<and> mt_count (src 0) = length (concat (evens R)) \<and> mt_count (src 1) = length (concat (odds R))
     \<and> unread s (Temp a) (concat (evens R)) \<and> unread s (Temp b) (concat (odds R))
     \<and> written s (User k) n []"

lemma close_sources_ok:
  assumes "temps s (insert a (insert b U))" "a \<noteq> b" "a \<notin> U" "b \<notin> U"
  shows "\<exists>s1 s2. f_close (Temp a) s = Some s1 \<and> f_close (Temp b) s1 = Some s2 \<and> temps s2 U \<and> keeps {} s s2
    \<and> fs_blocks s2 = fs_blocks s"
proof -
  obtain s1 where 1: "f_close (Temp a) s = Some s1" "temps s1 (insert b U)" "keeps {} s s1" "fs_blocks s1 = fs_blocks s"
    using f_close_insert[OF assms(1)] assms(2,3) by auto
  obtain s2 where "f_close (Temp b) s1 = Some s2" "temps s2 U" "keeps {} s1 s2" "fs_blocks s2 = fs_blocks s1"
    using f_close_insert[OF 1(2) assms(4)] by blast
  with 1 show ?thesis using keeps_trans[OF 1(3)] by auto
qed

definition opened ::
  "nat \<Rightarrow> nat \<Rightarrow> nat \<Rightarrow> nat set \<Rightarrow> int \<Rightarrow> nat \<Rightarrow> (nat \<Rightarrow> mtape) \<Rightarrow> 'r fs \<Rightarrow> 'r list list \<Rightarrow> fp \<Rightarrow> nat
     \<Rightarrow> (nat \<Rightarrow> mtape) \<Rightarrow> 'r fs \<Rightarrow> bool" where
  "opened a b k U B n src s R f d dst s' \<longleftrightarrow>
     pass_files a b f d k U s' \<and> fs_blocks s' = B + 2 \<and> mt_fp (dst 0) = f \<and> mt_fp (dst 1) = Temp d
     \<and> mt_count (dst 0) = 0 \<and> mt_count (dst 1) = 0
     \<and> unread s' (Temp a) (concat (evens R)) \<and> unread s' (Temp b) (concat (odds R))
     \<and> written s' f (if f = User k then n else 0) [] \<and> written s' (Temp d) 0 []
     \<and> (f \<noteq> User k \<longrightarrow> written s' (User k) n []) \<and> (lucky s \<longrightarrow> lucky s')"

lemma open_destinations_ok:
  assumes "taped a b k U B n src s R"
  shows "ends s U B (open_destinations (User k) m src s) (\<lambda>(dst, s'). \<exists>f d.
    opened a b k U B n src s R f d dst s' \<and> (f = User k \<longleftrightarrow> mt_count (src 0) \<le> m))"
proof -
  note T = assms[unfolded taped_def]
  show ?thesis
  proof (cases "mt_count (src 0) \<le> m")
    case True
    from T have t: "temps s (insert a (insert b U))" by blast
    from t show ?thesis
    proof (cases rule: f_tmpfile_cases)
      case (ok d s1)
      have "pass_files a b (User k) d k U s1"
        using ok(2,3) T by (auto simp: pass_files_def insert_commute)
      moreover have "unread s1 (Temp a) xs = unread s (Temp a) xs" "unread s1 (Temp b) xs = unread s (Temp b) xs"
        "written s1 (User k) n w = written s (User k) n w" for xs w
        using unread_keeps[OF ok(5)] written_keeps[OF ok(5)] ok(2) by simp_all
      ultimately have "opened a b k U B n src s R (User k) d
          (\<lambda>i. if i = 0 then \<lparr>mt_fp = User k, mt_count = 0\<rparr> else \<lparr>mt_fp = Temp d, mt_count = 0\<rparr>) s1"
        using ok(4-6) T by (simp add: opened_def keeps_def)
      with True ok(1) show ?thesis by (auto simp: open_destinations_def)
    next
      case (failed s1)
      have "temps s1 (insert a (insert b U))" using t temps_touches[OF failed(3)] by simp
      then obtain s2 s3 where "f_close (Temp a) s1 = Some s2" "f_close (Temp b) s2 = Some s3" "temps s3 U"
        "fs_blocks s3 = fs_blocks s1" using close_sources_ok[of s1 a b U] T by blast
      with True failed T show ?thesis by (simp add: open_destinations_def close_unless_def)
    qed
  next
    case False
    from T have t: "temps s (insert a (insert b U))" by blast
    from t show ?thesis
    proof (cases rule: f_tmpfile_cases)
      case (failed s1)
      have "temps s1 (insert a (insert b U))" using t temps_touches[OF failed(3)] by simp
      then obtain s2 s3 where "f_close (Temp a) s1 = Some s2" "f_close (Temp b) s2 = Some s3" "temps s3 U"
        "fs_blocks s3 = fs_blocks s1" using close_sources_ok[of s1 a b U] T by blast
      with False failed T show ?thesis by (simp add: open_destinations_def)
    next
      case (ok c s1)
      note luck1 = ok(5)[unfolded keeps_def]
      from ok(3) show ?thesis
      proof (cases rule: f_tmpfile_cases)
        case (failed s2)
        have "temps s2 (insert c (insert a (insert b U)))" using ok(3) temps_touches[OF failed(3)] by simp
        then obtain s3 where s3: "f_close (Temp c) s2 = Some s3" "temps s3 (insert a (insert b U))"
          "fs_blocks s3 = fs_blocks s2" using f_close_insert[of s2 c "insert a (insert b U)"] ok(2) by auto
        then obtain s4 s5 where "f_close (Temp a) s3 = Some s4" "f_close (Temp b) s4 = Some s5" "temps s5 U"
          "fs_blocks s5 = fs_blocks s3" using close_sources_ok[of s3 a b U] T by blast
        with False failed ok s3 T luck1 show ?thesis by (auto simp: open_destinations_def close_unless_def)
      next
        case (ok d s2)
        note ok1 = \<open>f_tmpfile s = (Some (Temp c), s1)\<close> \<open>c \<notin> insert a (insert b U)\<close> \<open>written s1 (Temp c) 0 []\<close>
          \<open>keeps {Temp c} s s1\<close> \<open>fs_blocks s1 = fs_blocks s\<close>
        have "{a, b, d} \<union> temp_of (Temp c) \<union> U = insert d (insert c (insert a (insert b U)))" by auto
        then have "pass_files a b (Temp c) d k U s2"
          using ok(2,3) ok1(2) T by (auto simp: pass_files_def)
        moreover have "unread s2 (Temp a) xs = unread s (Temp a) xs" "unread s2 (Temp b) xs = unread s (Temp b) xs"
          "written s2 (User k) n w = written s (User k) n w" "written s2 (Temp c) 0 w = written s1 (Temp c) 0 w" for xs w
          using unread_keeps[OF ok(5)] written_keeps[OF ok(5)] ok(2) unread_keeps[OF ok1(4)] written_keeps[OF ok1(4)] ok1(2)
          by simp_all
        ultimately have "opened a b k U B n src s R (Temp c) d
          (\<lambda>i. if i = 0 then \<lparr>mt_fp = Temp c, mt_count = 0\<rparr> else \<lparr>mt_fp = Temp d, mt_count = 0\<rparr>) s2"
          using ok(4-6) ok1 T by (simp add: opened_def keeps_def)
        with False ok(1) ok1(1) show ?thesis by (auto simp: open_destinations_def)
      qed
    qed
  qed
qed

lemma first_reads_ok:
  assumes "opened a b k U B n src s R f d dst s1" "mt_fp (src 0) = Temp a" "mt_fp (src 1) = Temp b"
    and "mt_count (src 0) = length (concat (evens R))" "mt_count (src 1) = length (concat (odds R))"
    and "concat (evens R) \<noteq> []" "concat (odds R) \<noteq> []"
  shows "\<exists>buf' s2. first_reads src buf s1 = (buf', s2) \<and> (lucky s1 \<longrightarrow> lucky s2)
    \<and> in_pass a b f d k U B n \<lparr>ps_src = src, ps_dst = dst, ps_buf = buf'\<rparr> s2
        (two (concat (evens R)) (concat (odds R))) (two [] [])"
proof -
  note O = assms(1)[unfolded opened_def]
  obtain x xs y ys where xy: "concat (evens R) = x # xs" "concat (odds R) = y # ys"
    using assms(6,7) by (meson neq_Nil_conv)
  obtain s2 where s2: "f_read (Temp a) s1 = (Some x, s2)" "unread s2 (Temp a) xs" "touches {Temp a} s1 s2"
    "fs_blocks s2 = fs_blocks s1" using f_read_Cons[of s1 "Temp a" x xs] O xy(1) by auto
  have ab: "Temp a \<noteq> Temp b" "f \<noteq> Temp a" "f \<noteq> Temp b" "Temp d \<noteq> Temp a" "Temp d \<noteq> Temp b"
    using O by (auto simp: pass_files_def)
  have "unread s2 (Temp b) (y # ys)" using O xy(2) unread_cong[OF s2(3)] ab(1) by auto
  then obtain s3 where s3: "f_read (Temp b) s2 = (Some y, s3)" "unread s3 (Temp b) ys" "touches {Temp b} s2 s3"
    "fs_blocks s3 = fs_blocks s2" using f_read_Cons[of s2 "Temp b" y ys] by blast
  have t: "touches {Temp a, Temp b} s1 s3"
    by (rule touches_trans[OF touches_mono[OF s2(3)] touches_mono[OF s3(3)]]) simp_all
  have "unread s3 (Temp a) xs" using s2(2) unread_cong[OF s3(3)] ab(1) by simp
  then have "in_pass a b f d k U B n \<lparr>ps_src = src, ps_dst = dst, ps_buf = two x y\<rparr> s3
        (two (concat (evens R)) (concat (odds R))) (two [] [])"
    using O s2 s3 assms(2-5) xy ab written_cong[OF t] pass_files_touches[OF t]
    by (simp add: in_pass_def tapes_are_def src_view_def)
  moreover have "first_reads src buf s1 = (two x y, s3)"
    using s2(1) s3(1) assms(2,3) by (auto simp: first_reads_def two_def fun_eq_iff)
  ultimately show ?thesis using t by (auto simp: touches_def)
qed

lemma end_pass_ok:
  assumes "in_pass a b f d k U B n ps s xs ws" "f = User k \<longrightarrow> n \<le> length (ws 0)"
  shows "ends s U B (end_pass (User k) ps s) (\<lambda>s'. temps s' (insert d (temp_of f \<union> U)) \<and> fs_blocks s' = B + 2
    \<and> unread s' (Temp d) (ws 1) \<and> unread s' f (ws 0) \<and> (f = User k \<longrightarrow> fs_data s' f = ws 0)
    \<and> (f \<noteq> User k \<longrightarrow> written s' (User k) n []) \<and> (lucky s \<longrightarrow> lucky s'))"
proof -
  note I = assms(1)[unfolded in_pass_def pass_files_def tapes_are_def]
  let ?V = "insert d (temp_of f \<union> U)"
  have "temps s (insert a (insert b ?V))" using I by (simp add: insert_commute)
  moreover have "a \<noteq> b" "a \<notin> ?V" "b \<notin> ?V" using I by auto
  ultimately obtain s1 s2 where c: "f_close (Temp a) s = Some s1" "f_close (Temp b) s1 = Some s2" "temps s2 ?V"
    "keeps {} s s2" "fs_blocks s2 = fs_blocks s"
    using close_sources_ok[of s a b ?V] by blast
  have w2: "written s2 f (if f = User k then n else 0) (ws 0)" "written s2 (Temp d) 0 (ws 1)"
    "f \<noteq> User k \<longrightarrow> written s2 (User k) n []"
    using I written_keeps[OF c(4)] by simp_all
  have fail: "ends s U B (do {
      s \<leftarrow> close_unless (mt_fp (ps_dst ps 0)) (User k) s3;
      s \<leftarrow> f_close (mt_fp (ps_dst ps 1)) s;
      Some (Return File_Write_Error (f_free (f_free s))) }) Q"
    if "touches {} s2 s3" "fs_blocks s3 = fs_blocks s2" "\<not> lucky s2" for s3 and Q :: "'a fs \<Rightarrow> bool"
  proof -
    have "temps s3 (temp_of f \<union> insert d U)" using c(3) temps_touches[OF that(1)] by simp
    then obtain s4 where s4: "close_unless f (User k) s3 = Some s4" "temps s4 (insert d U)" "fs_blocks s4 = fs_blocks s3"
      using close_unless_ok[of s3 f "insert d U" k] I by auto
    then obtain s5 where "f_close (Temp d) s4 = Some s5" "temps s5 U" "fs_blocks s5 = fs_blocks s4"
      using f_close_insert[OF s4(2)] I by auto
    with s4 c(4,5) that I show ?thesis by (simp add: keeps_def)
  qed
  show ?thesis
  proof (cases rule: f_flush_cases[of s2])
    case (failed s3)
    from fail[OF failed(3,4,2)] failed(1) c(1,2) I show ?thesis by (simp add: end_pass_def)
  next
    case (ok s3)
    show ?thesis
    proof (cases rule: f_flush_cases[of s3])
      case (failed s4)
      have "touches {} s2 s4" using touches_trans[OF ok(2) failed(3)] .
      moreover have "\<not> lucky s2" using failed(2) lucky_touches[OF ok(2)] by blast
      ultimately show ?thesis
        using fail[of s4] failed(1,4) ok c(1,2) I by (simp add: end_pass_def)
    next
      case (ok s4)
      have t: "touches {} s2 s4" using touches_trans[OF \<open>touches {} s2 s3\<close> ok(2)] .
      have w4: "written s4 f (if f = User k then n else 0) (ws 0)" "written s4 (Temp d) 0 (ws 1)"
        "f \<noteq> User k \<longrightarrow> written s4 (User k) n []"
        using w2 written_cong[OF t] by simp_all
      define s5 s6 where "s5 = f_rewind f s4" and "s6 = f_rewind (Temp d) s5"
      have t5: "touches {f} s4 s5" and t6: "touches {Temp d} s5 s6"
        by (simp_all add: s5_def s6_def f_rewind_ok)
      have fd: "f \<noteq> Temp d" using I by auto
      have "end_pass (User k) ps s = Some (Go s6)"
        using c(1,2) I \<open>f_flush s2 = (True, s3)\<close> ok(1) by (simp add: end_pass_def s5_def s6_def)
      moreover have "temps s6 ?V" using c(3) temps_touches[OF t] temps_touches[OF t5] temps_touches[OF t6] by simp
      moreover have "fs_blocks s6 = B + 2"
        using I c(5) \<open>fs_blocks s3 = fs_blocks s2\<close> ok(3) by (simp add: s5_def s6_def f_rewind_ok)
      moreover have "unread s6 f (ws 0)"
      proof -
        have "unread s5 f (ws 0)" unfolding s5_def using f_rewind_ok(1)[OF w4(1)] assms(2) by simp
        then show ?thesis using unread_cong[OF t6] fd by simp
      qed
      moreover have "unread s6 (Temp d) (ws 1)"
        unfolding s6_def using f_rewind_ok(1)[of s5 "Temp d" 0] w4(2) written_cong[OF t5, of "Temp d"] fd by simp
      moreover have "f = User k \<longrightarrow> fs_data s6 f = ws 0"
        using w4(1) assms(2) written_all[of s4 f n "ws 0"] by (auto simp: s5_def s6_def f_rewind_def)
      moreover have "f \<noteq> User k \<longrightarrow> written s6 (User k) n []"
        using w4(3) written_cong[OF t5, of "User k"] written_cong[OF t6, of "User k"] by auto
      moreover have "lucky s \<longrightarrow> lucky s6"
        using c(4) t t5 t6 by (simp add: keeps_def touches_def)
      ultimately show ?thesis by simp
    qed
  qed
qed

text \<open>Every record is in the sorted file, the other tape is empty.\<close>

definition merged_out ::
  "nat \<Rightarrow> nat set \<Rightarrow> int \<Rightarrow> ('r \<Rightarrow> 'r \<Rightarrow> int) \<Rightarrow> 'r list \<Rightarrow> (nat \<Rightarrow> mtape) \<times> 'r fs \<Rightarrow> bool" where
  "merged_out k U B compare all = (\<lambda>(T, s). \<exists>c. mt_fp (T 1) = Temp c \<and> c \<notin> U \<and> temps s (insert c U)
     \<and> fs_blocks s = B + 2 \<and> mt_count (T 0) = length all
     \<and> mset (fs_data s (User k)) = mset all \<and> (good_input compare all \<longrightarrow> cmp_sorted compare (fs_data s (User k))))"

lemma input_of_pair_merge:
  assumes "input_of compare all R []"
  shows "input_of compare all (pair_merge (not_before compare) R) []"
proof -
  have m: "mset (concat R) = mset all" using assms by (simp add: input_of_def)
  have "\<forall>r \<in> set (pair_merge (not_before compare) R). cmp_sorted compare r" if "good_input compare all"
  proof (rule comparator.pair_merge_sorted)
    show "comparator (set all) compare" using that by (simp add: good_input_def)
    show "set (concat R) \<subseteq> set all" using mset_eq_setD[OF m] by simp
    show "sortable compare (concat R)" using that sortable_mset[OF m] by (simp add: good_input_def)
  qed (use assms that picks_for_not_before in \<open>auto simp: input_of_def\<close>)
  with m show ?thesis by (simp add: input_of_def mset_pair_merge)
qed

lemma merge_tapes_ok:
  assumes "taped a b k U B n src s R" "runs m R" "2 \<le> length R" "input_of compare all R []" "n \<le> length all"
  shows "ends s U B (merge_tapes compare (User k) m src buf s) (merged_out k U B compare all)"
  using assms
proof (induction "length R" arbitrary: a b src s R m buf rule: less_induct)
  case less
  note T = less.prems(1) and R = less.prems(2,3) and inp = less.prems(4) and n = less.prems(5)
  note T' = T[unfolded taped_def]
  define R' where "R' = pair_merge (not_before compare) R"
  have inp': "input_of compare all R' []" unfolding R'_def by (rule input_of_pair_merge[OF inp])
  have ne: "concat (evens R) \<noteq> []" "concat (odds R) \<noteq> []"
    using R concat_odds_Nil[OF R(1)] concat_evens_Nil[OF R(1)] by auto
  have c1: "mt_count (src 1) \<noteq> 0" using T' ne by simp
  from open_destinations_ok[OF T, of m] show ?case
  proof (cases rule: endsE)
    case (ret c s')
    with c1 show ?thesis by (subst merge_tapes.simps) simp
  next
    case (go y)
    obtain dst s1 where y: "y = (dst, s1)" by force
    obtain f d where O: "opened a b k U B n src s R f d dst s1" "f = User k \<longleftrightarrow> mt_count (src 0) \<le> m"
      using go(2) y by auto
    obtain buf' s2 where fr: "first_reads src buf s1 = (buf', s2)" "lucky s1 \<longrightarrow> lucky s2"
      "in_pass a b f d k U B n \<lparr>ps_src = src, ps_dst = dst, ps_buf = buf'\<rparr> s2
        (two (concat (evens R)) (concat (odds R))) (two [] [])"
      using first_reads_ok[OF O(1) _ _ _ _ ne] T' by blast
    have luck: "lucky s \<longrightarrow> lucky s2" using O(1) fr(2) by (simp add: opened_def)
    let ?ps = "\<lparr>ps_src = src, ps_dst = dst, ps_buf = buf'\<rparr>"
    from merge_blocks_ok[OF fr(3) R(1), of 0 compare] have
      "ends s2 U B (merge_blocks compare (User k) m 0 ?ps s2) (\<lambda>(ps', s').
        in_pass a b f d k U B n ps' s' (two [] []) (two (concat (evens R')) (concat (odds R'))) \<and> (lucky s2 \<longrightarrow> lucky s'))"
      by (auto simp: R'_def Let_def elim!: ends_unlucky[rotated] in_pass_cong)
    then show ?thesis
    proof (cases rule: endsE)
      case (ret c s')
      with c1 go(1) y fr(1) luck show ?thesis by (subst merge_tapes.simps) auto
    next
      case (go z)
      note go1 = \<open>open_destinations (User k) m src s = Some (Go y)\<close>
      obtain ps s3 where z: "z = (ps, s3)" by force
      have I3: "in_pass a b f d k U B n ps s3 (two [] []) (two (concat (evens R')) (concat (odds R')))"
        and luck3: "lucky s \<longrightarrow> lucky s3" using go(2) z luck by auto
      have len: "length (concat R') = length all" using inp' by (metis add.right_neutral input_of_def mset.simps(1) size_mset)
      have last: "f = User k \<longleftrightarrow> length R = 2"
      proof -
        obtain r q R1 where R1: "R = r # q # R1" using R(2) by (metis One_nat_def Suc_1 Suc_le_length_iff)
        show ?thesis
        proof (cases R1)
          case Nil
          with R1 R(1) O(2) T' show ?thesis by simp
        next
          case (Cons t R2)
          with R1 R(1) O(2) T' show ?thesis by simp
        qed
      qed
      have last': "f = User k \<Longrightarrow> length R' = 1"
        using last by (simp add: R'_def length_pair_merge)
      then have single: "f = User k \<Longrightarrow> concat (evens R') = concat R' \<and> concat (odds R') = []"
        by (cases R') auto
      have "f = User k \<longrightarrow> n \<le> length (two (concat (evens R')) (concat (odds R')) 0)"
        using single len n by auto
      from end_pass_ok[OF I3 this] show ?thesis
      proof (cases rule: endsE)
        case (ret c s')
        with c1 go1 y fr(1) go(1) z luck3 show ?thesis by (subst merge_tapes.simps) auto
      next
        case (go s4)
        note go2 = \<open>merge_blocks compare (User k) m 0 ?ps s2 = Some (Go z)\<close>
        have step: "merge_tapes compare (User k) m src buf s
            = merge_tapes compare (User k) (m * 2) (ps_dst ps) (ps_buf ps) s4"
          using c1 go1 y fr(1) go2 z go(1) by (subst merge_tapes.simps) simp
        have luck4: "lucky s \<longrightarrow> lucky s4" using luck3 go(2) by blast
        have E: "temps s4 (insert d (temp_of f \<union> U))" "fs_blocks s4 = B + 2"
          "unread s4 (Temp d) (concat (odds R'))" "unread s4 f (concat (evens R'))"
          "f = User k \<longrightarrow> fs_data s4 f = concat (evens R')" "f \<noteq> User k \<longrightarrow> written s4 (User k) n []"
          using go(2) by simp_all
        have D: "mt_fp (ps_dst ps 0) = f" "mt_fp (ps_dst ps 1) = Temp d" "d \<notin> U"
          "mt_count (ps_dst ps 0) = length (concat (evens R'))" "mt_count (ps_dst ps 1) = length (concat (odds R'))"
          using I3 by (auto simp: in_pass_def tapes_are_def pass_files_def)
        show ?thesis
        proof (cases "f = User k")
          case True
          have "merged_out k U B compare all (ps_dst ps, s4)"
            using E D True single[OF True] len inp' last'[OF True]
            by (cases R') (auto simp: merged_out_def input_of_def)
          moreover have "merge_tapes compare (User k) (m * 2) (ps_dst ps) (ps_buf ps) s4 = Some (Go (ps_dst ps, s4))"
            using D(5) single[OF True] by (subst merge_tapes.simps) simp
          ultimately show ?thesis unfolding step by simp
        next
          case False
          then obtain c where c: "f = Temp c" "c \<noteq> d" "c \<notin> U"
            using I3 by (auto simp: in_pass_def pass_files_def)
          have "taped c d k U B n (ps_dst ps) s4 R'"
            using E D c by (simp add: taped_def insert_commute)
          moreover have "runs (m * 2) R'" unfolding R'_def using R(1) by (rule runs_pair_merge)
          moreover have "length R' < length R" "2 \<le> length R'"
            using R(2) last False by (simp_all add: R'_def length_pair_merge)
          ultimately have "ends s4 U B (merge_tapes compare (User k) (m * 2) (ps_dst ps) (ps_buf ps) s4)
              (merged_out k U B compare all)"
            using less.hyps inp' n by blast
          then show ?thesis unfolding step using luck4 by (auto elim: ends_unlucky[rotated])
        qed
      qed
    qed
  qed
qed

subsection \<open>The whole sort\<close>

lemma rewound_taped:
  assumes "building a b U B bd s R []" "bd_tapes bd = T"
    and "if k = j then length (fs_data s (User j)) \<le> n else written s (User k) n []"
  shows "taped a b k U B n T (rewound (User j) (User k) T s) R" "lucky (rewound (User j) (User k) T s) = lucky s"
proof -
  define s0 where "s0 = (if k = j then f_rewind (User j) s else s)"
  have t0: "touches {User j} s s0" by (simp add: s0_def f_rewind_ok)
  note I = assms(1)[unfolded building_def] and T = assms(2)
  have w0: "written s0 (Temp a) 0 (concat (evens R))" "written s0 (Temp b) 0 (concat (odds R))" "written s0 (User k) n []"
    using I written_cong[OF t0] assms(3) by (auto simp: s0_def f_rewind_def written_def)
  define s1 s2 where "s1 = f_rewind (Temp a) s0" and "s2 = f_rewind (Temp b) s1"
  have t1: "touches {Temp a} s0 s1" and t2: "touches {Temp b} s1 s2" by (simp_all add: s1_def s2_def f_rewind_ok)
  have ab: "a \<noteq> b" using I by blast
  have r: "rewound (User j) (User k) T s = s2"
    using I T by (auto simp: rewound_def s0_def s1_def s2_def)
  have "unread s2 (Temp a) (concat (evens R))"
    using f_rewind_ok(1)[OF w0(1)] unread_cong[OF t2] ab by (simp flip: s1_def)
  moreover have "unread s2 (Temp b) (concat (odds R))"
    unfolding s2_def using f_rewind_ok(1)[of s1 "Temp b" 0] w0(2) written_cong[OF t1, of "Temp b"] ab by simp
  moreover have "written s2 (User k) n []"
    using w0(3) written_cong[OF t1] written_cong[OF t2] by simp
  moreover have "temps s2 (insert a (insert b U))"
    using I temps_touches[OF t0] temps_touches[OF t1] temps_touches[OF t2] by simp
  moreover have "fs_blocks s2 = fs_blocks s"
    by (simp add: s2_def s1_def s0_def f_rewind_ok)
  ultimately show "taped a b k U B n T (rewound (User j) (User k) T s) R"
    using I T by (auto simp: taped_def r)
  show "lucky (rewound (User j) (User k) T s) = lucky s"
    by (simp add: r s2_def s1_def s0_def f_rewind_def lucky_def)
qed

lemma finish_ok:
  assumes "taped a b k U B n T s R" "runs m R" "input_of compare all R []" "n \<le> length all"
  shows "ends s U B (finish compare buf0 (User k) m T s) (merged_out k U B compare all)"
proof (cases "2 \<le> length R")
  case True
  then have "mt_count (T 1) \<noteq> 0"
    using assms(1) concat_odds_Nil[OF assms(2)] by (simp add: taped_def)
  with merge_tapes_ok[OF assms(1,2) True assms(3,4), of buf0] show ?thesis by (simp add: finish_def)
next
  case False
  note I = assms(1)[unfolded taped_def]
  have one: "concat (odds R) = []" "concat (evens R) = concat R"
    using False concat_odds_Nil[OF assms(2)] by (cases R; cases "tl R"; simp)+
  have "temps s (insert b (insert a U))" "b \<notin> insert a U" using I by (auto simp: insert_commute)
  then obtain s1 where s1: "f_close (Temp b) s = Some s1" "temps s1 (insert a U)" "keeps {} s s1" "fs_blocks s1 = fs_blocks s"
    using f_close_insert by blast
  have "unread s1 (Temp a) (concat R)" "written s1 (User k) n []"
    using I one unread_keeps[OF s1(3)] written_keeps[OF s1(3)] by simp_all
  then have c: "ends s1 U B (copy_tape (User k) (T 0) (buf0 0) s1) (\<lambda>s'.
      written s' (User k) n ([] @ concat R) \<and> temps s' (insert a U) \<and> fs_blocks s' = B + 2)"
    using I s1 one by (intro copy_tape_ok) simp_all
  have len: "length (concat R) = length all" "mset (concat R) = mset all"
    using assms(3) by (simp_all add: input_of_def flip: size_mset)
  have sorted: "good_input compare all \<longrightarrow> cmp_sorted compare (concat R)"
    using assms(3) False by (cases R; cases "tl R") (auto simp: input_of_def)
  from c show ?thesis
  proof (cases rule: endsE)
    case (ret e s2)
    with s1 I one show ?thesis by (auto simp: finish_def keeps_def)
  next
    case (go s2)
    have "fs_data s2 (User k) = concat R" using go(2) written_all assms(4) len(1) by fastforce
    with go s1 I one len sorted show ?thesis by (simp add: finish_def merged_out_def)
  qed
qed

lemma merge_sort_tapes_ok:
  assumes "building a b U B (initial_build buf0 (Temp a) (Temp b)) s [] []" "0 < m"
    and "unread s (User j) all" "fs_data s (User j) = all" "k = j \<or> written s (User k) 0 []"
  shows "\<exists>c pc s'. (case make_runs compare junk (User j) m (initial_build buf0 (Temp a) (Temp b)) s of
        None \<Rightarrow> None
      | Some (Return code s) \<Rightarrow> Some (code, None, s)
      | Some (Go (T, s)) \<Rightarrow>
          (case finish compare buf0 (User k) m T (rewound (User j) (User k) T s) of
             None \<Rightarrow> None
           | Some (Return code s) \<Rightarrow> Some (code, None, s)
           | Some (Go (T, s)) \<Rightarrow>
               map_option (\<lambda>s. (MS_OK, Some (mt_count (T 0)), f_free (f_free s))) (f_close (mt_fp (T 1)) s)))
      = Some (c, pc, s') \<and> temps s' U \<and> fs_blocks s' = B \<and> (c \<noteq> MS_OK \<longrightarrow> \<not> lucky s)
    \<and> (c = MS_OK \<longrightarrow> pc = Some (length all) \<and> mset (fs_data s' (User k)) = mset all
         \<and> (good_input compare all \<longrightarrow> cmp_sorted compare (fs_data s' (User k))))"
proof -
  have "input_of compare all [] ([] @ all)" by (simp add: input_of_def)
  with make_runs_ok[OF assms(1,3), of m compare all junk] assms(2)
  have "ends s U B (make_runs compare junk (User j) m (initial_build buf0 (Temp a) (Temp b)) s)
    (runs_made a b U B m compare all j s)" by simp
  then show ?thesis
  proof (cases rule: endsE)
    case (ret c s')
    then show ?thesis by simp
  next
    case (go y)
    note go1 = go(1)
    obtain T s1 where y: "y = (T, s1)" by force
    obtain bd R where M: "bd_tapes bd = T" "building a b U B bd s1 R []" "runs m R" "input_of compare all R []"
      "touches {Temp a, Temp b, User j} s s1" "fs_data s1 (User j) = all"
      using go(2) assms(4) by (auto simp: runs_made_def y)
    define n where "n = (if k = j then length all else 0)"
    have w: "if k = j then length (fs_data s1 (User j)) \<le> n else written s1 (User k) n []"
      using M(6) assms(5) written_cong[OF M(5), of "User k"] by (auto simp: n_def)
    define s2 where "s2 = rewound (User j) (User k) T s1"
    have s2: "taped a b k U B n T s2 R" "lucky s2 = lucky s1"
      unfolding s2_def using rewound_taped[OF M(2,1) w] by simp_all
    have luck: "lucky s \<longrightarrow> lucky s2" using s2(2) M(5) by (simp add: touches_def)
    have "n \<le> length all" by (simp add: n_def)
    from finish_ok[OF s2(1) M(3,4) this, of buf0] show ?thesis
    proof (cases rule: endsE)
      case (ret c s')
      with go1 y luck show ?thesis by (simp flip: s2_def)
    next
      case (go z)
      obtain T' s3 where z: "z = (T', s3)" by force
      obtain c where c: "mt_fp (T' 1) = Temp c" "c \<notin> U" "temps s3 (insert c U)" "fs_blocks s3 = B + 2"
        "mt_count (T' 0) = length all" "mset (fs_data s3 (User k)) = mset all"
        "good_input compare all \<longrightarrow> cmp_sorted compare (fs_data s3 (User k))"
        using go(2) z by (auto simp: merged_out_def)
      obtain s4 where s4: "f_close (Temp c) s3 = Some s4" "temps s4 U" "keeps {} s3 s4" "fs_blocks s4 = fs_blocks s3"
        using f_close_insert[OF c(3,2)] by blast
      have "fs_data (f_free (f_free s4)) (User k) = fs_data s3 (User k)" using s4(3) by (simp add: keeps_def f_free_def)
      with go1 y go(1) z c s4 show ?thesis by (simp flip: s2_def)
    qed
  qed
qed

lemma merge_sort_returns:
  assumes "temps s U" "0 < block_size" "fs_pos s (User j) = 0"
    and "k = j \<or> fs_data s (User k) = [] \<and> fs_pos s (User k) = 0"
  shows "\<exists>code pcount s'. merge_sort compare junk buf0 (User j) (User k) block_size s = Some (code, pcount, s')
    \<and> temps s' U \<and> fs_blocks s' = fs_blocks s \<and> (code \<noteq> MS_OK \<longrightarrow> \<not> lucky s)
    \<and> (code = MS_OK \<longrightarrow> pcount = Some (length (fs_data s (User j)))
         \<and> mset (fs_data s' (User k)) = mset (fs_data s (User j))
         \<and> (good_input compare (fs_data s (User j)) \<longrightarrow> cmp_sorted compare (fs_data s' (User k))))"
proof (cases rule: f_malloc_cases[of s])
  case (failed s1)
  then show ?thesis using assms(1) temps_touches[OF failed(3)] by (simp add: merge_sort_def)
next
  case (ok s1)
  note m1 = ok
  have luck1: "lucky s \<longrightarrow> lucky s1" using ok(2) by (simp add: touches_def)
  show ?thesis
  proof (cases rule: f_malloc_cases[of s1])
    case (failed s2)
    have "temps s2 U" using assms(1) temps_touches[OF m1(2)] temps_touches[OF failed(3)] by simp
    then show ?thesis using m1(1,3) failed luck1 by (simp add: merge_sort_def)
  next
    case (ok s2)
    note m2 = ok
    have t2: "touches {} s s2" using touches_trans[OF m1(2) m2(2)] .
    then have luck2: "lucky s \<longrightarrow> lucky s2" by (simp add: touches_def)
    have o2: "temps s2 U" using assms(1) temps_touches[OF t2] by simp
    from o2 show ?thesis
    proof (cases rule: f_tmpfile_cases)
      case (failed s3)
      have "temps s3 U" using o2 temps_touches[OF failed(3)] by simp
      then show ?thesis using m1(1,3) m2(1,3) failed luck2 by (simp add: merge_sort_def)
    next
      case (ok a s3)
      note m3 = ok
      have luck3: "lucky s \<longrightarrow> lucky s3" using m3(5) luck2 by (simp add: keeps_def)
      from m3(3) show ?thesis
      proof (cases rule: f_tmpfile_cases)
        case (failed s4)
        have "temps s4 (insert a U)" using m3(3) temps_touches[OF failed(3)] by simp
        then obtain s5 where "f_close (Temp a) s4 = Some s5" "temps s5 U" "fs_blocks s5 = fs_blocks s4"
          using f_close_insert m3(2) by blast
        then show ?thesis using m1(1,3) m2(1,3) m3(1,6) failed luck3 by (simp add: merge_sort_def)
      next
        case (ok b s4)
        have luck4: "lucky s \<longrightarrow> lucky s4" using ok(5) luck3 by (simp add: keeps_def)
        have same: "fs_data s4 (User i) = fs_data s (User i)" "fs_pos s4 (User i) = fs_pos s (User i)" for i
          using t2 m3(5) ok(5) by (simp_all add: touches_def keeps_def)
        have "building a b U (fs_blocks s) (initial_build buf0 (Temp a) (Temp b)) s4 [] []"
          using m1(3) m2(3) m3 ok written_keeps[OF ok(5), of "Temp a"]
          by (auto simp: building_def initial_build_def insert_commute)
        moreover have "unread s4 (User j) (fs_data s (User j))"
          using assms(3) by (simp add: unread_def same)
        moreover have "k = j \<or> written s4 (User k) 0 []"
          using assms(4) by (auto simp: written_def same)
        ultimately show ?thesis
          using merge_sort_tapes_ok[of a b U "fs_blocks s" buf0 s4 block_size j "fs_data s (User j)" k compare junk]
            assms(2) luck4 m1(1) m2(1) m3(1) ok(1)
          by (simp add: merge_sort_def same) blast
      qed
    qed
  qed
qed

text \<open>C6: The external merge sort returns whatever fails, with no temporary file left open and
  no block left allocated, and reports an error only when an allocation, a file creation, a
  write or a flush failed; when it reports success, the sorted file holds exactly the records
  of the unsorted file, their number is stored, and they are in order if the comparison is a
  total preorder on them. The sorted file may be the unsorted file.\<close>

theorem merge_sort_correct:
  assumes "temps s U" "0 < block_size" "fs_pos s (User j) = 0"
    and "k = j \<or> fs_data s (User k) = [] \<and> fs_pos s (User k) = 0"
  shows "\<exists>code pcount s'. merge_sort compare junk buf0 (User j) (User k) block_size s = Some (code, pcount, s')
    \<and> temps s' U \<and> fs_blocks s' = fs_blocks s \<and> (code \<noteq> MS_OK \<longrightarrow> \<not> lucky s)
    \<and> (code = MS_OK \<longrightarrow> pcount = Some (length (fs_data s (User j)))
         \<and> mset (fs_data s' (User k)) = mset (fs_data s (User j))
         \<and> (good_input compare (fs_data s (User j)) \<longrightarrow> cmp_sorted compare (fs_data s' (User k))))"
  using merge_sort_returns[OF assms] .

definition fs_of :: "'r list \<Rightarrow> 'r fs" where
  "fs_of rs = \<lparr>fs_data = (\<lambda>f. if f = User 0 then rs else []), fs_pos = (\<lambda>_. 0), fs_open = [], fs_fresh = 0,
     fs_blocks = 0, fs_mem = [], fs_tmp = [], fs_wr = [], fs_flush = []\<rparr>"

lemma fs_of_simps: "temps (fs_of rs) {}" "lucky (fs_of rs)" "fs_pos (fs_of rs) f = 0" "fs_data (fs_of rs) (User 0) = rs"
    "fs_data (fs_of rs) (User (Suc n)) = []" "fs_blocks (fs_of rs) = 0"
  by (simp_all add: fs_of_def temps_def lucky_def)

lemma int_comparator: "comparator A (\<lambda>x y. x - y :: int)"
  by unfold_locales auto

lemma merge_sort_correct_witness:
  "\<exists>s'. merge_sort (\<lambda>x y. x - y) (\<lambda>_. \<lparr>tp_first = None, tp_last = None, tp_count = 7\<rparr>) (\<lambda>_. 0) (User 0) (User 1) 2
      (fs_of [5, 3, 4, 1, 3 :: int]) = Some (MS_OK, Some 5, s')
    \<and> mset (fs_data s' (User 1)) = {#5, 3, 4, 1, 3#} \<and> cmp_sorted (\<lambda>x y. x - y) (fs_data s' (User 1))"
proof -
  have good: "good_input (\<lambda>x y. x - y) [5, 3, 4, 1, 3 :: int]"
    by (simp add: good_input_def int_comparator sortable_def)
  show ?thesis
    using merge_sort_correct[OF fs_of_simps(1), of 2 "[5, 3, 4, 1, 3 :: int]" 0 1 "\<lambda>x y. x - y"
        "\<lambda>_. \<lparr>tp_first = None, tp_last = None, tp_count = 7\<rparr>" "\<lambda>_. 0"] good
    by (auto simp: fs_of_simps numeral_eq_Suc)
qed

end
