(* ===== verification/Stable_Sort.thy ===== *)
theory Stable_Sort
  imports Merge_Correct
begin

text \<open>
  The stable merge sort of src/src/Algorithm/MergeSort/StaticMergeSort.c, a client of the
  external merge sort, and the comparison of the sort utility mergeSortTest.c, an instance
  of the contract that the sorts put on their callbacks.
\<close>

subsection \<open>Comparisons with a consistent sign\<close>

locale key_comparator = comparator +
  assumes opposite: "x \<in> A \<Longrightarrow> y \<in> A \<Longrightarrow> sgn (cmp y x) = - sgn (cmp x y)"

subsection \<open>The code\<close>

text \<open>A \<open>numbered_record\<close> is a pair. \<open>read_record\<close> numbers the records of the unsorted file in
  the order in which they are read and reads the numbers of the other files; \<open>write_record\<close>
  leaves the numbers out of the sorted file. Here the unsorted file is numbered as a whole
  before the sort and the sorted file is stripped of its numbers after it.\<close>

definition numbered_compare :: "('r \<Rightarrow> 'r \<Rightarrow> int) \<Rightarrow> nat \<times> 'r \<Rightarrow> nat \<times> 'r \<Rightarrow> int" where
  "numbered_compare compare p q =
     (let n = compare (snd p) (snd q) in
      if n = 0 then if fst p < fst q then - 1 else 1 else n)"

definition number_files :: "fp \<Rightarrow> 'r fs \<Rightarrow> (nat \<times> 'r) fs" where
  "number_files unsorted s =
     \<lparr>fs_data = (\<lambda>f. if f = unsorted then List.enumerate 0 (fs_data s f) else map (Pair 0) (fs_data s f)),
      fs_pos = fs_pos s, fs_open = fs_open s, fs_fresh = fs_fresh s, fs_blocks = fs_blocks s,
      fs_mem = fs_mem s, fs_tmp = fs_tmp s, fs_wr = fs_wr s, fs_flush = fs_flush s\<rparr>"

definition strip_files :: "(nat \<times> 'r) fs \<Rightarrow> 'r fs" where
  "strip_files s =
     \<lparr>fs_data = (\<lambda>f. map snd (fs_data s f)),
      fs_pos = fs_pos s, fs_open = fs_open s, fs_fresh = fs_fresh s, fs_blocks = fs_blocks s,
      fs_mem = fs_mem s, fs_tmp = fs_tmp s, fs_wr = fs_wr s, fs_flush = fs_flush s\<rparr>"

definition stable_merge_sort ::
  "('r \<Rightarrow> 'r \<Rightarrow> int) \<Rightarrow> (nat \<Rightarrow> nat tape) \<Rightarrow> (nat \<Rightarrow> nat \<times> 'r) \<Rightarrow> fp \<Rightarrow> fp \<Rightarrow> nat \<Rightarrow> 'r fs
     \<Rightarrow> (ms_code \<times> nat option \<times> 'r fs) option" where
  "stable_merge_sort compare junk buf0 unsorted sorted_file block_size s =
     map_option (\<lambda>(code, pcount, s). (code, pcount, strip_files s))
       (merge_sort (numbered_compare compare) junk buf0 unsorted sorted_file block_size (number_files unsorted s))"

text \<open>\<open>compare\<close> of the sort utility: the lines are compared on the columns from
  \<open>first_column\<close> to \<open>last_column\<close>. A line ends at its NUL byte, where the pointer stays.\<close>

definition head_byte :: "u8 list \<Rightarrow> int" where
  "head_byte p = (case p of [] \<Rightarrow> 0 | c # _ \<Rightarrow> uint c)"

definition step_byte :: "u8 list \<Rightarrow> u8 list" where
  "step_byte p = (if head_byte p \<noteq> 0 then tl p else p)"

function column_loop :: "nat \<Rightarrow> nat \<Rightarrow> nat \<Rightarrow> u8 list \<Rightarrow> u8 list \<Rightarrow> int" where
  "column_loop first_column last_column i pp qq =
     (if i \<le> last_column then
        let n = head_byte pp - head_byte qq in
        if first_column \<le> i \<and> n \<noteq> 0 then n
        else if head_byte pp = 0 \<and> head_byte qq = 0 then 0
        else column_loop first_column last_column (i + 1) (step_byte pp) (step_byte qq)
      else 0)"
  by pat_completeness auto
termination by (relation "measure (\<lambda>(fc, lc, i, p, q). lc + 1 - i)") auto

declare column_loop.simps [simp del]

definition column_compare :: "nat \<Rightarrow> nat \<Rightarrow> u8 list \<Rightarrow> u8 list \<Rightarrow> int" where
  "column_compare first_column last_column p q = column_loop first_column last_column 0 p q"

subsection \<open>The comparison of columns\<close>

fun lexd :: "int list \<Rightarrow> int list \<Rightarrow> int" where
  "lexd (x # xs) (y # ys) = (if x - y \<noteq> 0 then x - y else lexd xs ys)"
| "lexd _ _ = 0"

lemma lexd_refl [simp]: "lexd xs xs = 0"
  by (induction xs) auto

lemma lexd_opposite: "length xs = length ys \<Longrightarrow> lexd ys xs = - lexd xs ys"
  by (induction xs ys rule: list_induct2) auto

lemma lexd_trans:
  "length xs = length ys \<Longrightarrow> length ys = length zs \<Longrightarrow> lexd xs ys \<le> 0 \<Longrightarrow> lexd ys zs \<le> 0 \<Longrightarrow> lexd xs zs \<le> 0"
  by (induction xs ys zs rule: list_induct3) (auto split: if_splits)

text \<open>The compared columns of a line from column \<open>i\<close> on, \<open>m\<close> of them left.\<close>

fun columns :: "nat \<Rightarrow> nat \<Rightarrow> nat \<Rightarrow> u8 list \<Rightarrow> int list" where
  "columns fc 0 i p = []"
| "columns fc (Suc m) i p = (if fc \<le> i then head_byte p else 0) # columns fc m (i + 1) (step_byte p)"

lemma length_columns [simp]: "length (columns fc m i p) = m"
  by (induction m arbitrary: i p) simp_all

lemma columns_end: "head_byte p = 0 \<Longrightarrow> columns fc m i p = replicate m 0"
  by (induction m arbitrary: i) (simp_all add: step_byte_def)

lemma column_loop_lexd:
  "column_loop fc lc i p q = lexd (columns fc (lc + 1 - i) i p) (columns fc (lc + 1 - i) i q)"
proof (induction fc lc i p q rule: column_loop.induct)
  case (1 fc lc i p q)
  show ?case
  proof (cases "i \<le> lc")
    case True
    then have m: "lc + 1 - i = Suc (lc + 1 - (i + 1))" by simp
    show ?thesis
    proof (cases "fc \<le> i \<and> head_byte p \<noteq> head_byte q")
      case True
      with \<open>i \<le> lc\<close> show ?thesis unfolding m by (subst column_loop.simps) simp
    next
      case False
      show ?thesis
      proof (cases "head_byte p = 0 \<and> head_byte q = 0")
        case True
        with \<open>i \<le> lc\<close> show ?thesis by (subst column_loop.simps) (simp add: columns_end)
      next
        case go: False
        then have "column_loop fc lc (i + 1) (step_byte p) (step_byte q)
            = lexd (columns fc (lc + 1 - (i + 1)) (i + 1) (step_byte p)) (columns fc (lc + 1 - (i + 1)) (i + 1) (step_byte q))"
          using 1 \<open>i \<le> lc\<close> False by auto
        with \<open>i \<le> lc\<close> False go show ?thesis unfolding m by (subst column_loop.simps) auto
      qed
    qed
  next
    case False
    then show ?thesis by (subst column_loop.simps) simp
  qed
qed

interpretation columns: key_comparator UNIV "column_compare first_column last_column" for first_column last_column
proof
  let ?k = "\<lambda>p. columns first_column (last_column + 1) 0 p"
  have eq: "column_compare first_column last_column p q = lexd (?k p) (?k q)" for p q
    by (simp add: column_compare_def column_loop_lexd del: columns.simps)
  fix x y z :: "u8 list"
  show "column_compare first_column last_column x z \<le> 0"
    if "column_compare first_column last_column x y \<le> 0" "column_compare first_column last_column y z \<le> 0"
    using that lexd_trans[of "?k x" "?k y" "?k z"] by (simp add: eq del: columns.simps)
  show "column_compare first_column last_column y x \<le> 0" if "0 \<le> column_compare first_column last_column x y"
    using that lexd_opposite[of "?k x" "?k y"] by (simp add: eq del: columns.simps)
  show "sgn (column_compare first_column last_column y x) = - sgn (column_compare first_column last_column x y)"
    using lexd_opposite[of "?k x" "?k y"] by (simp add: eq del: columns.simps)
qed

subsection \<open>Numbered records\<close>

context key_comparator
begin

lemma equivalent_trans:
  assumes "x \<in> A" "y \<in> A" "z \<in> A" "cmp x y = 0" "cmp x z = 0"
  shows "cmp y z = 0"
proof (cases "y = z")
  case True
  with opposite[OF assms(3,3)] show ?thesis by (simp add: sgn_if split: if_splits)
next
  case False
  have "cmp y x = 0" "cmp z x = 0" using opposite[of x y] opposite[of x z] assms by (simp_all add: sgn_0_0)
  then have "cmp y z \<le> 0" "cmp z y \<le> 0"
    using le_trans[of y x z] le_trans[of z x y] assms False by auto
  then show ?thesis using opposite[OF assms(2,3)] by (auto simp: sgn_if split: if_splits)
qed

lemma numbered_comparator:
  assumes "set rs \<subseteq> A"
  shows "comparator (set (List.enumerate k rs)) (numbered_compare cmp)"
proof
  have A: "snd p \<in> A" if "p \<in> set (List.enumerate k rs)" for p
  proof -
    have "snd p \<in> snd ` set (List.enumerate k rs)" using that by (rule imageI)
    also have "\<dots> = set rs" by (metis list.set_map map_snd_enumerate)
    finally show ?thesis using assms by blast
  qed
  have num: "p = q" if "p \<in> set (List.enumerate k rs)" "q \<in> set (List.enumerate k rs)" "fst p = fst q" for p q
    using that by (auto simp: in_set_enumerate_eq prod_eq_iff)
  fix x y z
  assume x: "x \<in> set (List.enumerate k rs)" and y: "y \<in> set (List.enumerate k rs)"
  {
    assume z: "z \<in> set (List.enumerate k rs)" and ne: "x \<noteq> z"
      and le: "numbered_compare cmp x y \<le> 0" "numbered_compare cmp y z \<le> 0"
    have c: "cmp (snd x) (snd y) \<le> 0" "cmp (snd y) (snd z) \<le> 0"
      using le by (auto simp: numbered_compare_def Let_def split: if_splits)
    have xz: "cmp (snd x) (snd z) \<le> 0"
    proof (cases "snd x = snd z")
      case True
      with opposite[OF A[OF x] A[OF x]] show ?thesis by (simp add: sgn_if split: if_splits)
    next
      case False
      then show ?thesis using le_trans[OF A[OF x] A[OF y] A[OF z]] c by blast
    qed
    have "fst x < fst z" if 0: "cmp (snd x) (snd z) = 0"
    proof -
      have zx: "cmp (snd z) (snd x) = 0" using opposite[OF A[OF x] A[OF z]] 0 by (simp add: sgn_0_0)
      have yx: "cmp (snd y) (snd x) \<le> 0"
      proof (cases "snd y = snd x")
        case True
        with opposite[OF A[OF x] A[OF x]] show ?thesis by (simp add: sgn_if split: if_splits)
      next
        case False
        with le_trans[OF A[OF y] A[OF z] A[OF x]] c zx show ?thesis by simp
      qed
      then have xy: "cmp (snd x) (snd y) = 0"
        using c opposite[OF A[OF x] A[OF y]] by (auto simp: sgn_if split: if_splits)
      then have "cmp (snd y) (snd z) = 0" using equivalent_trans[OF A[OF x] A[OF y] A[OF z]] 0 by simp
      with le xy show ?thesis by (auto simp: numbered_compare_def Let_def split: if_splits)
    qed
    with xz show "numbered_compare cmp x z \<le> 0" by (auto simp: numbered_compare_def Let_def)
  }
  {
    assume ne: "x \<noteq> y" and ge: "0 \<le> numbered_compare cmp x y"
    show "numbered_compare cmp y x \<le> 0"
    proof (cases "cmp (snd x) (snd y) = 0")
      case True
      then have "cmp (snd y) (snd x) = 0" using opposite[OF A[OF x] A[OF y]] by (simp add: sgn_0_0)
      moreover have "fst x \<noteq> fst y" using num[OF x y] ne by blast
      then have "fst y < fst x" using ge True by (auto simp: numbered_compare_def split: if_splits)
      ultimately show ?thesis by (simp add: numbered_compare_def)
    next
      case False
      with ge have "0 < cmp (snd x) (snd y)" by (simp add: numbered_compare_def Let_def)
      then show ?thesis using opposite[OF A[OF x] A[OF y]] by (auto simp: numbered_compare_def Let_def sgn_if split: if_splits)
    qed
  }
qed

end

subsection \<open>Stability\<close>

lemma sorted_wrt_filter_mset:
  assumes "mset xs = mset ys" "sorted_wrt (\<lambda>x y. fst x < (fst y :: nat)) (filter P xs)"
    and "sorted_wrt (\<lambda>x y. fst x < fst y) (filter P ys)"
  shows "filter P xs = filter P ys"
proof -
  have "mset (filter P xs) = mset (filter P ys)" using assms(1) by (metis mset_filter)
  then have set: "set (filter P xs) = set (filter P ys)" by (rule mset_eq_setD)
  have "sorted_wrt (<) (map fst (filter P xs))" "sorted_wrt (<) (map fst (filter P ys))"
    using assms(2,3) by (simp_all add: sorted_wrt_map)
  then have s: "sorted (map fst (filter P xs))" "distinct (map fst (filter P xs))"
    "sorted (map fst (filter P ys))" "distinct (map fst (filter P ys))"
    by (simp_all only: strict_sorted_iff)
  show ?thesis
  proof (rule map_sorted_distinct_set_unique[OF _ s set])
    show "inj_on fst (set (filter P xs) \<union> set (filter P ys))"
      using s(2) unfolding set[symmetric] by (simp only: distinct_map Un_absorb)
  qed
qed

context key_comparator
begin

lemma numbered_sorted_strict:
  assumes "set rs \<subseteq> A" "mset ps = mset (List.enumerate 0 rs)" "cmp_sorted (numbered_compare cmp) ps" "x \<in> A"
  shows "sorted_wrt (\<lambda>p q. fst p < fst q) (filter (\<lambda>p. cmp x (snd p) = 0) ps)"
proof -
  have A: "snd p \<in> A" if "p \<in> set ps" for p
  proof -
    have "snd p \<in> snd ` set ps" using that by (rule imageI)
    also have "\<dots> = snd ` set (List.enumerate 0 rs)" using mset_eq_setD[OF assms(2)] by simp
    also have "\<dots> = set rs" by (metis list.set_map map_snd_enumerate)
    finally show ?thesis using assms(1) by blast
  qed
  have "sorted_wrt (\<lambda>p q. numbered_compare cmp p q \<le> 0) (filter (\<lambda>p. cmp x (snd p) = 0) ps)"
    using assms(3) by (rule sorted_wrt_filter)
  then show ?thesis
  proof (rule sorted_wrt_mono_rel[rotated])
    fix p q
    assume "p \<in> set (filter (\<lambda>p. cmp x (snd p) = 0) ps)" "q \<in> set (filter (\<lambda>p. cmp x (snd p) = 0) ps)"
      and le: "numbered_compare cmp p q \<le> 0"
    then have "cmp (snd p) (snd q) = 0"
      using equivalent_trans[OF assms(4) A A] by simp
    with le show "fst p < fst q" by (simp add: numbered_compare_def split: if_splits)
  qed
qed

lemma stable_of_sorted:
  assumes "set rs \<subseteq> A" "mset ps = mset (List.enumerate 0 rs)" "cmp_sorted (numbered_compare cmp) ps" "x \<in> A"
  shows "filter (\<lambda>y. cmp x y = 0) (map snd ps) = filter (\<lambda>y. cmp x y = 0) rs"
proof -
  let ?P = "\<lambda>p. cmp x (snd p) = 0"
  have "sorted_wrt (\<lambda>p q. fst p < fst q) (List.enumerate 0 rs)"
    using sorted_wrt_map[of "(<)" fst "List.enumerate 0 rs"] by simp
  then have "sorted_wrt (\<lambda>p q. fst p < fst q) (filter ?P (List.enumerate 0 rs))" by (rule sorted_wrt_filter)
  then have "filter ?P ps = filter ?P (List.enumerate 0 rs)"
    using sorted_wrt_filter_mset[OF assms(2) numbered_sorted_strict[OF assms]] by blast
  then have "map snd (filter ?P ps) = map snd (filter ?P (List.enumerate 0 rs))" by simp
  then have "filter (\<lambda>y. cmp x y = 0) (map snd ps) = filter (\<lambda>y. cmp x y = 0) (map snd (List.enumerate 0 rs))"
    by (simp only: filter_map comp_def)
  then show ?thesis by simp
qed

lemma sorted_of_numbered:
  assumes "cmp_sorted (numbered_compare cmp) ps"
  shows "cmp_sorted cmp (map snd ps)"
  unfolding sorted_wrt_map using assms
  by (rule sorted_wrt_mono_rel[rotated]) (auto simp: numbered_compare_def Let_def split: if_splits)

end

lemma number_files_simps:
  "temps (number_files f s) U = temps s U" "lucky (number_files f s) = lucky s"
  "fs_pos (number_files f s) = fs_pos s" "fs_blocks (number_files f s) = fs_blocks s"
  "fs_data (number_files f s) f = List.enumerate 0 (fs_data s f)"
  "g \<noteq> f \<Longrightarrow> fs_data (number_files f s) g = map (Pair 0) (fs_data s g)"
  "temps (strip_files t) U = temps t U" "fs_blocks (strip_files t) = fs_blocks t"
  "fs_data (strip_files t) g = map snd (fs_data t g)"
  by (simp_all add: number_files_def strip_files_def temps_def lucky_def)

text \<open>C22: The stable sort returns, with its resources released, and leaves the records of equal
  rank in the order of the input: when it reports success, the sorted file is in order, and for
  every record of the input the records that compare equal to it appear in the sorted file in
  the sequence in which they appear in the unsorted file, so none is lost or added.\<close>

theorem stable_merge_sort_correct:
  assumes "temps s U" "0 < block_size" "fs_pos s (User j) = 0"
    and "k = j \<or> fs_data s (User k) = [] \<and> fs_pos s (User k) = 0"
    and "key_comparator (set (fs_data s (User j))) compare"
  shows "\<exists>code pcount s'. stable_merge_sort compare junk buf (User j) (User k) block_size s = Some (code, pcount, s')
    \<and> temps s' U \<and> fs_blocks s' = fs_blocks s \<and> (code \<noteq> MS_OK \<longrightarrow> \<not> lucky s)
    \<and> (code = MS_OK \<longrightarrow> pcount = Some (length (fs_data s (User j))) \<and> cmp_sorted compare (fs_data s' (User k))
         \<and> (\<forall>x \<in> set (fs_data s (User j)).
              filter (\<lambda>y. compare x y = 0) (fs_data s' (User k)) = filter (\<lambda>y. compare x y = 0) (fs_data s (User j))))"
proof -
  let ?in = "fs_data s (User j)"
  have init: "temps (number_files (User j) s) U" "fs_pos (number_files (User j) s) (User j) = 0"
    "k = j \<or> fs_data (number_files (User j) s) (User k) = [] \<and> fs_pos (number_files (User j) s) (User k) = 0"
    using assms(1,3,4) by (simp_all add: number_files_simps) (cases "k = j"; simp add: number_files_simps)
  obtain code pcount t where m: "merge_sort (numbered_compare compare) junk buf (User j) (User k) block_size
      (number_files (User j) s) = Some (code, pcount, t)" "temps t U" "fs_blocks t = fs_blocks s"
    "code \<noteq> MS_OK \<longrightarrow> \<not> lucky s"
    "code = MS_OK \<longrightarrow> pcount = Some (length ?in) \<and> mset (fs_data t (User k)) = mset (List.enumerate 0 ?in)
      \<and> (good_input (numbered_compare compare) (List.enumerate 0 ?in)
           \<longrightarrow> cmp_sorted (numbered_compare compare) (fs_data t (User k)))"
    using merge_sort_returns[OF init(1) assms(2) init(2,3), of "numbered_compare compare" junk buf]
    by (auto simp: number_files_simps)
  have "good_input (numbered_compare compare) (List.enumerate 0 ?in)"
    using key_comparator.numbered_comparator[OF assms(5) order_refl] by (simp add: good_input_def sortable_def)
  with m(5) have ok: "code = MS_OK \<Longrightarrow> pcount = Some (length ?in)"
    "code = MS_OK \<Longrightarrow> mset (fs_data t (User k)) = mset (List.enumerate 0 ?in)"
    "code = MS_OK \<Longrightarrow> cmp_sorted (numbered_compare compare) (fs_data t (User k))" by blast+
  show ?thesis
    using m(1-4) ok(1) key_comparator.sorted_of_numbered[OF assms(5) ok(3)]
      key_comparator.stable_of_sorted[OF assms(5) order_refl ok(2,3)]
    by (intro exI[of _ code] exI[of _ pcount] exI[of _ "strip_files t"])
      (simp add: stable_merge_sort_def number_files_simps)
qed

lemma columns_on: "key_comparator A (column_compare first_column last_column)"
proof
  fix x y z :: "u8 list"
  show "column_compare first_column last_column x z \<le> 0"
    if "x \<noteq> z" "column_compare first_column last_column x y \<le> 0" "column_compare first_column last_column y z \<le> 0"
    by (rule columns.le_trans[OF _ _ _ that]) simp_all
  show "column_compare first_column last_column y x \<le> 0"
    if "x \<noteq> y" "0 \<le> column_compare first_column last_column x y"
    by (rule columns.le_total[OF _ _ that]) simp_all
  show "sgn (column_compare first_column last_column y x) = - sgn (column_compare first_column last_column x y)"
    by (rule columns.opposite) simp_all
qed

lemma stable_merge_sort_correct_witness:
  "\<exists>s'. stable_merge_sort (column_compare 0 0) (\<lambda>_. \<lparr>tp_first = None, tp_last = None, tp_count = 7\<rparr>) (\<lambda>_. (0, []))
      (User 0) (User 1) 2 (fs_of [[98, 49], [97, 50], [98, 48], [97, 49 :: u8]]) = Some (MS_OK, Some 4, s')
    \<and> cmp_sorted (column_compare 0 0) (fs_data s' (User 1))
    \<and> filter (\<lambda>y. column_compare 0 0 [98, 49] y = 0) (fs_data s' (User 1)) = [[98, 49], [98, 48]]"
proof -
  define inp where "inp = [[98, 49], [97, 50], [98, 48], [97, 49 :: u8]]"
  have inp: "length inp = 4" "[98, 49] \<in> set inp"
    "filter (\<lambda>y. column_compare 0 0 [98, 49] y = 0) inp = [[98, 49], [98, 48]]"
    unfolding inp_def by (simp, simp, code_simp)
  have 2: "(0 :: nat) < 2" by simp
  have empty: "(1 :: nat) = 0 \<or> fs_data (fs_of inp) (User 1) = [] \<and> fs_pos (fs_of inp) (User 1) = 0"
    by (simp add: fs_of_simps)
  obtain code pcount s' where r: "stable_merge_sort (column_compare 0 0)
      (\<lambda>_. \<lparr>tp_first = None, tp_last = None, tp_count = 7\<rparr>) (\<lambda>_. (0, [])) (User 0) (User 1) 2 (fs_of inp)
      = Some (code, pcount, s')" "code \<noteq> MS_OK \<longrightarrow> \<not> lucky (fs_of inp)"
    "code = MS_OK \<longrightarrow> pcount = Some (length inp) \<and> cmp_sorted (column_compare 0 0) (fs_data s' (User 1))
       \<and> (\<forall>x \<in> set inp. filter (\<lambda>y. column_compare 0 0 x y = 0) (fs_data s' (User 1))
            = filter (\<lambda>y. column_compare 0 0 x y = 0) inp)"
    using stable_merge_sort_correct[OF fs_of_simps(1) 2 fs_of_simps(3) empty columns_on,
        where junk = "\<lambda>_. \<lparr>tp_first = None, tp_last = None, tp_count = 7\<rparr>" and buf = "\<lambda>_. (0, [])"]
    unfolding fs_of_simps(4) by blast
  have "code = MS_OK" using r(2) fs_of_simps(2) by blast
  then show ?thesis using r(1,3) inp by (auto simp flip: inp_def)
qed

end
