(* ===== verification/Thread_Pool.thy ===== *)
theory Thread_Pool
  imports C_Base "HOL-Library.Multiset"
begin

text \<open>
  The thread pool of src/src/Event/ThreadPool/ThreadPool.c and .h.

  The shared structure is a record, the bodies of the critical sections are functions on it,
  and the threads are a step relation: each worker has a program counter, the lock has an
  owner, and a step is a call of a client, a critical section of a worker, the end of a task,
  or a wake-up (spurious ones included, so that signal and broadcast only matter for
  progress). A task is opaque. The state also carries the tasks that were accepted, taken
  and executed, in order, which no code reads.
\<close>

subsection \<open>The structure\<close>

datatype tp_error = Invalid | Lock_Failure | Queue_Full | Shutdown_Error | Thread_Failure

datatype shutdown = Running_Pool | Immediate_Shutdown | Graceful_Shutdown

record 'a pool =
  thread_count :: nat
  queue_size :: nat
  queue :: "'a list"
  head :: nat
  tail :: nat
  pending :: nat
  shutdown :: shutdown
  started :: nat

subsection \<open>The critical sections\<close>

text \<open>\<open>threadpool_add\<close>: the queue must be an array of \<open>queue_size\<close> slots for the write to be
  defined. The outcomes of the three pthread calls come first. The result is the error that
  is returned (\<open>None\<close> for 0).\<close>

definition threadpool_add ::
  "bool \<Rightarrow> bool \<Rightarrow> bool \<Rightarrow> 'a pool option \<Rightarrow> 'a option \<Rightarrow> (tp_error option \<times> 'a pool option) option" where
  "threadpool_add lock_ok signal_ok unlock_ok poolp function =
     (case (poolp, function) of
        (Some pool, Some task) \<Rightarrow>
          if \<not> lock_ok then Some (Some Lock_Failure, poolp)
          else
            let nxt = tail pool + 1;
                nxt = (if nxt = queue_size pool then 0 else nxt)
            in
            do {
              (err, pool) \<leftarrow>
                (if pending pool = queue_size pool then Some (Some Queue_Full, pool)
                 else if shutdown pool \<noteq> Running_Pool then Some (Some Shutdown_Error, pool)
                 else
                   do {
                     q \<leftarrow> wr (queue pool) (tail pool) task;
                     Some (if signal_ok then None else Some Lock_Failure,
                           pool\<lparr>queue := q, tail := nxt, pending := pending pool + 1\<rparr>)
                   });
              Some (if unlock_ok then err else Some Lock_Failure, Some pool)
            }
      | _ \<Rightarrow> Some (Some Invalid, poolp))"

text \<open>The worker with the lock: it waits, exits, or takes the task at the head.\<close>

datatype 'a verdict = Wait | Exit | Take 'a

definition worker_check :: "'a pool \<Rightarrow> ('a verdict \<times> 'a pool) option" where
  "worker_check pool =
     (if pending pool = 0 \<and> shutdown pool = Running_Pool then Some (Wait, pool)
      else if shutdown pool = Immediate_Shutdown \<or> shutdown pool = Graceful_Shutdown \<and> pending pool = 0 then
        Some (Exit, pool)
      else
        do {
          task \<leftarrow> rd (queue pool) (head pool);
          let h = head pool + 1;
          Some (Take task, pool\<lparr>head := (if h = queue_size pool then 0 else h), pending := pending pool - 1\<rparr>)
        })"

text \<open>\<open>threadpool_destroy\<close> up to the join: \<open>None\<close> when the pool is already shutting down, where
  the function returns \<open>threadpool_shutdown\<close> without releasing the lock.\<close>

definition destroy_begin :: "bool \<Rightarrow> 'a pool \<Rightarrow> 'a pool option" where
  "destroy_begin graceful pool =
     (if shutdown pool \<noteq> Running_Pool then None
      else Some (pool\<lparr>shutdown := (if graceful then Graceful_Shutdown else Immediate_Shutdown)\<rparr>))"

text \<open>\<open>threadpool_free\<close>: whether the pool is released.\<close>

definition threadpool_free :: "'a pool option \<Rightarrow> bool" where
  "threadpool_free poolp = (case poolp of None \<Rightarrow> False | Some pool \<Rightarrow> \<not> 0 < started pool)"

subsection \<open>The threads\<close>

text \<open>A worker is about to take the lock, holds it before the test, waits on the condition,
  works on a task, holds the lock before its exit, or has ended.\<close>

datatype 'a worker = At_Lock | At_Check | Waiting | Working 'a | At_Exit | Ended

datatype owner = Worker nat | Client

record 'a sys =
  sy_pool :: "'a pool"
  sy_lock :: "owner option"
  sy_workers :: "'a worker list"
  sy_joining :: bool
  sy_freed :: bool
  sy_accepted :: "'a list"
  sy_taken :: "'a list"
  sy_executed :: "'a list"

definition set_worker :: "nat \<Rightarrow> 'a worker \<Rightarrow> 'a sys \<Rightarrow> 'a sys" where
  "set_worker i w s = s\<lparr>sy_workers := (sy_workers s)[i := w]\<rparr>"

definition wake_all :: "'a worker list \<Rightarrow> 'a worker list" where
  "wake_all = map (\<lambda>w. case w of Waiting \<Rightarrow> At_Lock | _ \<Rightarrow> w)"

inductive tp_step :: "'a sys \<Rightarrow> 'a sys \<Rightarrow> bool" where
  lock: "sy_lock s = None \<Longrightarrow> i < length (sy_workers s) \<Longrightarrow> sy_workers s ! i = At_Lock
    \<Longrightarrow> tp_step s (set_worker i At_Check (s\<lparr>sy_lock := Some (Worker i)\<rparr>))"
| wait: "i < length (sy_workers s) \<Longrightarrow> sy_workers s ! i = At_Check
    \<Longrightarrow> worker_check (sy_pool s) = Some (Wait, p)
    \<Longrightarrow> tp_step s (set_worker i Waiting (s\<lparr>sy_lock := None, sy_pool := p\<rparr>))"
| wake: "i < length (sy_workers s) \<Longrightarrow> sy_workers s ! i = Waiting \<Longrightarrow> tp_step s (set_worker i At_Lock s)"
| take: "i < length (sy_workers s) \<Longrightarrow> sy_workers s ! i = At_Check
    \<Longrightarrow> worker_check (sy_pool s) = Some (Take t, p)
    \<Longrightarrow> tp_step s (set_worker i (Working t) (s\<lparr>sy_lock := None, sy_pool := p, sy_taken := sy_taken s @ [t]\<rparr>))"
| work: "i < length (sy_workers s) \<Longrightarrow> sy_workers s ! i = Working t
    \<Longrightarrow> tp_step s (set_worker i At_Lock (s\<lparr>sy_executed := sy_executed s @ [t]\<rparr>))"
| leave: "i < length (sy_workers s) \<Longrightarrow> sy_workers s ! i = At_Check
    \<Longrightarrow> worker_check (sy_pool s) = Some (Exit, p)
    \<Longrightarrow> tp_step s (set_worker i At_Exit (s\<lparr>sy_pool := p\<rparr>))"
| ended: "i < length (sy_workers s) \<Longrightarrow> sy_workers s ! i = At_Exit
    \<Longrightarrow> tp_step s (set_worker i Ended
          (s\<lparr>sy_lock := None, sy_pool := (sy_pool s)\<lparr>started := started (sy_pool s) - 1\<rparr>\<rparr>))"
| add: "sy_lock s = None \<Longrightarrow> \<not> sy_freed s
    \<Longrightarrow> threadpool_add True True True (Some (sy_pool s)) (Some t) = Some (err, Some p)
    \<Longrightarrow> tp_step s (s\<lparr>sy_pool := p, sy_accepted := sy_accepted s @ (if err = None then [t] else [])\<rparr>)"
| destroy: "sy_lock s = None \<Longrightarrow> \<not> sy_freed s \<Longrightarrow> destroy_begin graceful (sy_pool s) = Some p
    \<Longrightarrow> tp_step s (s\<lparr>sy_pool := p, sy_workers := wake_all (sy_workers s), sy_joining := True\<rparr>)"
| destroy_again: "sy_lock s = None \<Longrightarrow> \<not> sy_freed s \<Longrightarrow> destroy_begin graceful (sy_pool s) = None
    \<Longrightarrow> tp_step s (s\<lparr>sy_lock := Some Client\<rparr>)"
| free: "sy_joining s \<Longrightarrow> sy_lock s = None \<Longrightarrow> \<forall>w \<in> set (sy_workers s). w = Ended \<Longrightarrow> threadpool_free (Some (sy_pool s))
    \<Longrightarrow> tp_step s (s\<lparr>sy_freed := True, sy_joining := False\<rparr>)"

text \<open>\<open>threadpool_create\<close> with every thread started; \<open>q\<close> is the uninitialised queue array.\<close>

definition threadpool_create :: "nat \<Rightarrow> 'a list \<Rightarrow> 'a sys" where
  "threadpool_create n q =
     \<lparr>sy_pool = \<lparr>thread_count = n, queue_size = length q, queue = q, head = 0, tail = 0, pending = 0,
        shutdown = Running_Pool, started = n\<rparr>,
      sy_lock = None, sy_workers = replicate n At_Lock, sy_joining = False, sy_freed = False,
      sy_accepted = [], sy_taken = [], sy_executed = []\<rparr>"

inductive reachable :: "nat \<Rightarrow> 'a list \<Rightarrow> 'a sys \<Rightarrow> bool" for n q where
  start: "reachable n q (threadpool_create n q)"
| step: "reachable n q s \<Longrightarrow> tp_step s s' \<Longrightarrow> reachable n q s'"

subsection \<open>The queue\<close>

text \<open>The contract of a bounded first-in first-out queue.\<close>

locale bounded_fifo =
  fixes valid :: "'s \<Rightarrow> bool" and items :: "'s \<Rightarrow> 'a list" and capacity :: "'s \<Rightarrow> nat"
    and enq :: "'s \<Rightarrow> 'a \<Rightarrow> 's option" and deq :: "'s \<Rightarrow> ('a \<times> 's) option"
  assumes bounded: "valid s \<Longrightarrow> length (items s) \<le> capacity s"
    and enq_full: "valid s \<Longrightarrow> length (items s) = capacity s \<Longrightarrow> enq s x = None"
    and enq_room: "valid s \<Longrightarrow> length (items s) < capacity s \<Longrightarrow>
      \<exists>s'. enq s x = Some s' \<and> valid s' \<and> items s' = items s @ [x] \<and> capacity s' = capacity s"
    and deq_empty: "valid s \<Longrightarrow> items s = [] \<Longrightarrow> deq s = None"
    and deq_item: "valid s \<Longrightarrow> items s = x # xs \<Longrightarrow>
      \<exists>s'. deq s = Some (x, s') \<and> valid s' \<and> items s' = xs \<and> capacity s' = capacity s"

text \<open>A history of insertions and removals: what it leaves, and which items went in and out.\<close>

datatype 'a fifo_op = Enq 'a | Deq

fun fifo_run ::
  "('s \<Rightarrow> 'a \<Rightarrow> 's option) \<Rightarrow> ('s \<Rightarrow> ('a \<times> 's) option) \<Rightarrow> 'a fifo_op list \<Rightarrow> 's \<Rightarrow> 's \<times> 'a list \<times> 'a list" where
  "fifo_run enq deq [] s = (s, [], [])"
| "fifo_run enq deq (Enq x # ops) s =
     (case enq s x of
        None \<Rightarrow> fifo_run enq deq ops s
      | Some s' \<Rightarrow> (case fifo_run enq deq ops s' of (s'', ins, outs) \<Rightarrow> (s'', x # ins, outs)))"
| "fifo_run enq deq (Deq # ops) s =
     (case deq s of
        None \<Rightarrow> fifo_run enq deq ops s
      | Some (x, s') \<Rightarrow> (case fifo_run enq deq ops s' of (s'', ins, outs) \<Rightarrow> (s'', ins, x # outs)))"

context bounded_fifo
begin

lemma fifo_run_order:
  assumes "valid s" "fifo_run enq deq ops s = (s', ins, outs)"
  shows "valid s'" "items s @ ins = outs @ items s'" "capacity s' = capacity s"
proof -
  have "valid s' \<and> items s @ ins = outs @ items s' \<and> capacity s' = capacity s"
    using assms
  proof (induction ops arbitrary: s ins outs)
    case (Cons op ops)
    show ?case
    proof (cases op)
      case (Enq x)
      show ?thesis
      proof (cases "length (items s) = capacity s")
        case True
        with Cons Enq enq_full[OF Cons.prems(1) True] show ?thesis by simp
      next
        case False
        then have "length (items s) < capacity s" using bounded[OF Cons.prems(1)] by simp
        then obtain s1 where s1: "enq s x = Some s1" "valid s1" "items s1 = items s @ [x]" "capacity s1 = capacity s"
          using enq_room[OF Cons.prems(1)] by blast
        obtain ins' where "fifo_run enq deq ops s1 = (s', ins', outs)" "ins = x # ins'"
          using Cons.prems(2) Enq s1(1) by (auto split: prod.splits)
        with Cons.IH[OF s1(2)] s1 show ?thesis by auto
      qed
    next
      case Deq
      show ?thesis
      proof (cases "items s")
        case Nil
        with Cons.prems(2) Deq deq_empty[OF Cons.prems(1) Nil] have "fifo_run enq deq ops s = (s', ins, outs)" by simp
        from Cons.IH[OF Cons.prems(1) this] show ?thesis .
      next
        case (Cons x xs)
        then obtain s1 where s1: "deq s = Some (x, s1)" "valid s1" "items s1 = xs" "capacity s1 = capacity s"
          using deq_item[OF \<open>valid s\<close>] by blast
        obtain outs' where "fifo_run enq deq ops s1 = (s', ins, outs')" "outs = x # outs'"
          using \<open>fifo_run enq deq (op # ops) s = (s', ins, outs)\<close> Deq s1(1) by (auto split: prod.splits)
        with \<open>\<And>s ins outs. valid s \<Longrightarrow> fifo_run enq deq ops s = (s', ins, outs) \<Longrightarrow>
            valid s' \<and> items s @ ins = outs @ items s' \<and> capacity s' = capacity s\<close>[OF s1(2)] s1 Cons
        show ?thesis by auto
      qed
    qed
  qed simp
  then show "valid s'" "items s @ ins = outs @ items s'" "capacity s' = capacity s" by blast+
qed

end

text \<open>The tasks in the ring, oldest first.\<close>

definition ring :: "'a pool \<Rightarrow> 'a list" where
  "ring p = map (\<lambda>k. queue p ! ((head p + k) mod queue_size p)) [0 ..< pending p]"

definition ring_ok :: "'a pool \<Rightarrow> bool" where
  "ring_ok p \<longleftrightarrow> length (queue p) = queue_size p \<and> pending p \<le> queue_size p
     \<and> head p < max 1 (queue_size p) \<and> tail p = (head p + pending p) mod queue_size p"

lemma mod_add_distinct:
  fixes n :: nat
  assumes "k < m" "m < n + k"
  shows "(h + k) mod n \<noteq> (h + m) mod n"
proof
  assume "(h + k) mod n = (h + m) mod n"
  then have "n dvd (h + m) - (h + k)" using assms(1) by (metis add_le_cancel_left less_imp_le mod_eq_dvd_iff_nat)
  then show False using assms by (auto dest: dvd_imp_le)
qed

lemma wrap_next: "i < n \<Longrightarrow> (if Suc i = n then 0 else Suc i) = Suc i mod n"
  by (auto simp: mod_Suc)

lemma add_room:
  assumes "ring_ok p" "pending p < queue_size p" "shutdown p = Running_Pool"
  shows "\<exists>p'. threadpool_add True True True (Some p) (Some t) = Some (None, Some p') \<and> ring_ok p'
    \<and> ring p' = ring p @ [t] \<and> queue_size p' = queue_size p \<and> started p' = started p \<and> shutdown p' = shutdown p"
proof -
  let ?n = "queue_size p"
  have n: "0 < ?n" using assms(2) by simp
  have t: "tail p < ?n" "tail p < length (queue p)" using assms(1) n by (auto simp: ring_ok_def)
  define p' where "p' = p\<lparr>queue := (queue p)[tail p := t], tail := Suc (tail p) mod ?n, pending := pending p + 1\<rparr>"
  have "threadpool_add True True True (Some p) (Some t) = Some (None, Some p')"
    using assms(2,3) t wrap_next[OF t(1)] by (simp add: threadpool_add_def p'_def Let_def)
  moreover have "ring_ok p'"
    using assms(1,2) n by (auto simp: ring_ok_def p'_def mod_Suc_eq)
  moreover have "ring p' = ring p @ [t]"
  proof -
    have "(queue p)[tail p := t] ! ((head p + k) mod ?n) = queue p ! ((head p + k) mod ?n)" if k: "k < pending p" for k
    proof -
      have "(head p + k) mod ?n \<noteq> (head p + pending p) mod ?n"
        using k assms(2) by (intro mod_add_distinct) simp_all
      then show ?thesis using assms(1) by (simp add: ring_ok_def)
    qed
    then show ?thesis
      using t assms(1) by (simp add: ring_def p'_def) (simp add: ring_ok_def)
  qed
  ultimately show ?thesis by (auto simp: p'_def)
qed

lemma check_take:
  assumes "ring_ok p" "pending p \<noteq> 0" "shutdown p \<noteq> Immediate_Shutdown"
  shows "\<exists>t p'. worker_check p = Some (Take t, p') \<and> ring_ok p' \<and> ring p = t # ring p'
    \<and> queue_size p' = queue_size p \<and> started p' = started p \<and> shutdown p' = shutdown p"
proof -
  let ?n = "queue_size p"
  have n: "0 < ?n" using assms(1,2) by (auto simp: ring_ok_def)
  have h: "head p < ?n" "head p < length (queue p)" using assms(1) n by (auto simp: ring_ok_def)
  define p' where "p' = p\<lparr>head := Suc (head p) mod ?n, pending := pending p - 1\<rparr>"
  have "worker_check p = Some (Take (queue p ! head p), p')"
    using assms(2,3) h wrap_next[OF h(1)] by (cases "shutdown p") (simp_all add: worker_check_def p'_def Let_def)
  moreover obtain m where m: "pending p = Suc m" using assms(2) by (cases "pending p") auto
  have "ring_ok p'"
    using assms(1) n m by (auto simp: ring_ok_def p'_def mod_add_left_eq)
  moreover have "ring p = queue p ! head p # ring p'"
  proof -
    have "[0 ..< Suc m] = 0 # map Suc [0 ..< m]" by (simp add: upt_conv_Cons map_Suc_upt del: upt_Suc)
    then show ?thesis using h(1) by (simp add: ring_def p'_def m mod_add_left_eq del: upt_Suc)
  qed
  ultimately show ?thesis by (auto simp: p'_def)
qed

lemma worker_check_exit: "worker_check p = Some (Exit, p') \<Longrightarrow>
    p' = p \<and> (shutdown p = Immediate_Shutdown \<or> shutdown p = Graceful_Shutdown \<and> pending p = 0)"
  by (auto simp: worker_check_def Let_def split: if_splits Option.bind_splits)

lemma worker_check_wait: "worker_check p = Some (Wait, p') \<Longrightarrow> p' = p \<and> pending p = 0"
  by (auto simp: worker_check_def Let_def split: if_splits Option.bind_splits)

lemma worker_check_take:
  assumes "ring_ok p" "worker_check p = Some (Take t, p')"
  shows "ring_ok p'" "ring p = t # ring p'" "queue_size p' = queue_size p" "started p' = started p"
    "shutdown p' = shutdown p" "pending p \<noteq> 0" "shutdown p \<noteq> Immediate_Shutdown"
proof -
  show 1: "pending p \<noteq> 0" "shutdown p \<noteq> Immediate_Shutdown"
    using assms(2) by (cases "shutdown p"; auto simp: worker_check_def split: if_splits)+
  show "ring_ok p'" "ring p = t # ring p'" "queue_size p' = queue_size p" "started p' = started p"
    "shutdown p' = shutdown p"
    using check_take[OF assms(1) 1] assms(2) by auto
qed

definition pool_enq :: "'a pool \<Rightarrow> 'a \<Rightarrow> 'a pool option" where
  "pool_enq p t = (case threadpool_add True True True (Some p) (Some t) of Some (None, Some p') \<Rightarrow> Some p' | _ \<Rightarrow> None)"

definition pool_deq :: "'a pool \<Rightarrow> ('a \<times> 'a pool) option" where
  "pool_deq p = (case worker_check p of Some (Take t, p') \<Rightarrow> Some (t, p') | _ \<Rightarrow> None)"

lemma length_ring [simp]: "length (ring p) = pending p"
  by (simp add: ring_def)

lemma ring_Nil [simp]: "ring p = [] \<longleftrightarrow> pending p = 0"
  by (metis length_ring length_0_conv)

interpretation pool: bounded_fifo "\<lambda>p. ring_ok p \<and> shutdown p = Running_Pool" ring queue_size pool_enq pool_deq
proof
  fix p :: "'a pool" and x :: 'a and xs
  assume p: "ring_ok p \<and> shutdown p = Running_Pool"
  show "length (ring p) \<le> queue_size p" using p by (simp add: ring_ok_def)
  show "pool_enq p x = None" if "length (ring p) = queue_size p"
    using that by (simp add: pool_enq_def threadpool_add_def)
  show "\<exists>p'. pool_enq p x = Some p' \<and> (ring_ok p' \<and> shutdown p' = Running_Pool) \<and> ring p' = ring p @ [x]
      \<and> queue_size p' = queue_size p" if "length (ring p) < queue_size p"
    using add_room[of p x] p that by (auto simp: pool_enq_def)
  show "pool_deq p = None" if "ring p = []"
    using that p by (simp add: pool_deq_def worker_check_def)
  show "\<exists>p'. pool_deq p = Some (x, p') \<and> (ring_ok p' \<and> shutdown p' = Running_Pool) \<and> ring p' = xs
      \<and> queue_size p' = queue_size p" if "ring p = x # xs"
  proof -
    have "pending p \<noteq> 0" using that ring_Nil[of p] by auto
    with check_take[of p] p that show ?thesis by (auto simp: pool_deq_def)
  qed
qed

text \<open>C35: The task queue is a bounded first-in first-out queue: over any history of additions
  and removals on a running pool, wrap-around included, the tasks taken are the first of the
  tasks accepted, in order, the rest is still queued, and no more than \<open>queue_size\<close> tasks are
  ever queued.\<close>

theorem threadpool_fifo:
  assumes "ring_ok p" "shutdown p = Running_Pool" "fifo_run pool_enq pool_deq ops p = (p', ins, outs)"
  shows "ring p @ ins = outs @ ring p' \<and> ring_ok p' \<and> length (ring p') \<le> queue_size p"
proof -
  have "ring_ok p \<and> shutdown p = Running_Pool" using assms(1,2) by simp
  note pool.fifo_run_order[OF this assms(3)]
  moreover have "length (ring p') \<le> queue_size p'" using calculation(1) by (simp add: ring_ok_def)
  ultimately show ?thesis by simp
qed

lemma threadpool_fifo_witness:
  "fst (snd (fifo_run pool_enq pool_deq [Enq 1, Enq 2, Enq 3, Deq, Enq 4, Deq, Deq] (sy_pool (threadpool_create 1 [0, 0 :: nat]))))
     = [1, 2, 4]
   \<and> snd (snd (fifo_run pool_enq pool_deq [Enq 1, Enq 2, Enq 3, Deq, Enq 4, Deq, Deq] (sy_pool (threadpool_create 1 [0, 0 :: nat]))))
     = [1, 2, 4]"
proof -
  let ?p = "sy_pool (threadpool_create 1 [0, 0 :: nat])"
  have "ring_ok ?p" "shutdown ?p = Running_Pool" by (simp_all add: ring_ok_def threadpool_create_def)
  moreover obtain p' ins outs where r: "fifo_run pool_enq pool_deq [Enq 1, Enq 2, Enq 3, Deq, Enq 4, Deq, Deq] ?p
      = (p', ins, outs)" by (metis prod_cases3)
  ultimately have "ring ?p @ ins = outs @ ring p'" using threadpool_fifo by blast
  moreover have "fst (snd (fifo_run pool_enq pool_deq [Enq 1, Enq 2, Enq 3, Deq, Enq 4, Deq, Deq] ?p)) = [1, 2, 4]"
    "ring (fst (fifo_run pool_enq pool_deq [Enq 1, Enq 2, Enq 3, Deq, Enq 4, Deq, Deq] ?p)) = []" "ring ?p = []"
    by code_simp+
  ultimately show ?thesis using r by (simp del: ring_Nil fifo_run.simps)
qed

subsection \<open>The invariant of the threads\<close>

fun in_hand :: "'a worker \<Rightarrow> 'a list" where
  "in_hand (Working t) = [t]"
| "in_hand _ = []"

definition alive :: "'a worker list \<Rightarrow> nat" where
  "alive ws = length (filter (\<lambda>w. w \<noteq> Ended) ws)"

definition at_work :: "'a worker list \<Rightarrow> 'a multiset" where
  "at_work ws = mset (concat (map in_hand ws))"

definition holds_lock :: "'a worker \<Rightarrow> bool" where
  "holds_lock w \<longleftrightarrow> w = At_Check \<or> w = At_Exit"

definition leaving :: "'a worker \<Rightarrow> bool" where
  "leaving w \<longleftrightarrow> w = At_Exit \<or> w = Ended"

lemma alive_update:
  "i < length ws \<Longrightarrow> alive (ws[i := w]) + (if ws ! i \<noteq> Ended then 1 else 0) = alive ws + (if w \<noteq> Ended then 1 else 0)"
  using filter_update_count[of i ws "\<lambda>w. w \<noteq> Ended" w] by (simp add: alive_def)

lemma at_work_update:
  "i < length ws \<Longrightarrow> at_work (ws[i := w]) + mset (in_hand (ws ! i)) = at_work ws + mset (in_hand w)"
proof (induction ws arbitrary: i)
  case (Cons v ws)
  show ?case
  proof (cases i)
    case (Suc j)
    with Cons.IH[of j] Cons.prems show ?thesis by (simp add: at_work_def ac_simps)
  qed (simp add: at_work_def)
qed simp

lemma wake_all_simps:
  "length (wake_all ws) = length ws" "alive (wake_all ws) = alive ws" "at_work (wake_all ws) = at_work ws"
  "i < length ws \<Longrightarrow> holds_lock (wake_all ws ! i) = holds_lock (ws ! i)"
  "i < length ws \<Longrightarrow> leaving (wake_all ws ! i) = leaving (ws ! i)"
proof -
  show "alive (wake_all ws) = alive ws"
    by (induction ws) (auto simp: alive_def wake_all_def split: worker.splits)
  show "at_work (wake_all ws) = at_work ws"
    by (induction ws) (auto simp: at_work_def wake_all_def split: worker.splits)
qed (auto simp: wake_all_def holds_lock_def leaving_def split: worker.splits)

definition lock_inv :: "'a worker list \<Rightarrow> owner option \<Rightarrow> bool" where
  "lock_inv ws l \<longleftrightarrow> (\<forall>i < length ws. holds_lock (ws ! i) \<longleftrightarrow> l = Some (Worker i))"

definition leave_inv :: "'a worker list \<Rightarrow> 'a pool \<Rightarrow> bool" where
  "leave_inv ws p \<longleftrightarrow> (\<forall>w \<in> set ws. leaving w \<longrightarrow>
     shutdown p = Immediate_Shutdown \<or> shutdown p = Graceful_Shutdown \<and> pending p = 0)"

definition tp_inv :: "'a sys \<Rightarrow> bool" where
  "tp_inv s \<longleftrightarrow>
     ring_ok (sy_pool s) \<and> started (sy_pool s) = alive (sy_workers s)
     \<and> sy_accepted s = sy_taken s @ ring (sy_pool s)
     \<and> mset (sy_taken s) = mset (sy_executed s) + at_work (sy_workers s)
     \<and> lock_inv (sy_workers s) (sy_lock s) \<and> leave_inv (sy_workers s) (sy_pool s)
     \<and> (sy_freed s \<longrightarrow> (\<forall>w \<in> set (sy_workers s). w = Ended))
     \<and> (sy_joining s \<or> sy_freed s \<longrightarrow> shutdown (sy_pool s) \<noteq> Running_Pool)"

lemma lock_inv_update:
  assumes "lock_inv ws l" "i < length ws"
  shows "l = None \<Longrightarrow> holds_lock w \<Longrightarrow> lock_inv (ws[i := w]) (Some (Worker i))"
    and "holds_lock (ws ! i) \<Longrightarrow> holds_lock w \<Longrightarrow> lock_inv (ws[i := w]) l"
    and "holds_lock (ws ! i) \<Longrightarrow> \<not> holds_lock w \<Longrightarrow> lock_inv (ws[i := w]) None"
    and "\<not> holds_lock (ws ! i) \<Longrightarrow> \<not> holds_lock w \<Longrightarrow> lock_inv (ws[i := w]) l"
  using assms by (auto simp: lock_inv_def nth_list_update)

lemma leave_inv_update:
  "leave_inv ws p \<Longrightarrow> \<not> leaving w \<or> shutdown p = Immediate_Shutdown \<or> shutdown p = Graceful_Shutdown \<and> pending p = 0
   \<Longrightarrow> leave_inv (ws[i := w]) p"
  unfolding leave_inv_def using set_update_subset_insert[of ws i w] by blast

lemma not_freed:
  "tp_inv s \<Longrightarrow> i < length (sy_workers s) \<Longrightarrow> sy_workers s ! i \<noteq> Ended \<Longrightarrow> \<not> sy_freed s"
  by (auto simp: tp_inv_def)

lemma update_worker_facts:
  assumes "i < length ws"
  shows "ws ! i \<noteq> Ended \<Longrightarrow> w \<noteq> Ended \<Longrightarrow> alive (ws[i := w]) = alive ws"
    and "in_hand (ws ! i) = [] \<Longrightarrow> at_work (ws[i := w]) = at_work ws + mset (in_hand w)"
    and "in_hand w = [] \<Longrightarrow> at_work ws = at_work (ws[i := w]) + mset (in_hand (ws ! i))"
    and "ws ! i \<noteq> Ended \<Longrightarrow> alive (ws[i := Ended]) = alive ws - 1"
  using alive_update[OF assms, of w] alive_update[OF assms, of Ended] at_work_update[OF assms, of w] by simp_all

lemma tp_inv_worker:
  assumes "tp_inv s" "i < length (sy_workers s)" "sy_workers s ! i \<noteq> Ended"
    and "ring_ok p" "started p + (if w = Ended then 1 else 0) = started (sy_pool s)"
    and "sy_accepted s = taken @ ring p" "shutdown p = shutdown (sy_pool s)"
    and "mset taken + mset (in_hand (sy_workers s ! i)) + mset (sy_executed s)
       = mset (sy_taken s) + mset (in_hand w) + mset executed"
    and "lock_inv ((sy_workers s)[i := w]) l" "leave_inv ((sy_workers s)[i := w]) p"
  shows "tp_inv (set_worker i w (s\<lparr>sy_lock := l, sy_pool := p, sy_taken := taken, sy_executed := executed\<rparr>))"
proof -
  have "started p = alive ((sy_workers s)[i := w])"
    using alive_update[OF assms(2), of w] assms(1,3,5) by (auto simp: tp_inv_def split: if_splits)
  moreover have "mset taken = mset executed + at_work ((sy_workers s)[i := w])"
  proof -
    have "mset taken + mset (in_hand (sy_workers s ! i)) + mset (sy_executed s)
        = (mset (sy_executed s) + at_work (sy_workers s)) + mset (in_hand w) + mset executed"
      using assms(1,8) by (simp add: tp_inv_def)
    also have "\<dots> = (at_work ((sy_workers s)[i := w]) + mset (in_hand (sy_workers s ! i))) + mset (sy_executed s) + mset executed"
      using at_work_update[OF assms(2), of w] by (simp add: ac_simps)
    finally show ?thesis by (simp add: ac_simps)
  qed
  ultimately show ?thesis
    using assms not_freed[OF assms(1-3)] by (auto simp: tp_inv_def set_worker_def)
qed

lemma set_worker_same [simp]:
  "set_worker i w (s\<lparr>sy_lock := l, sy_pool := sy_pool s, sy_taken := sy_taken s, sy_executed := sy_executed s\<rparr>)
    = set_worker i w (s\<lparr>sy_lock := l\<rparr>)"
  by simp

lemma tp_inv_step:
  assumes "tp_inv s" "tp_step s s'"
  shows "tp_inv s'"
  using assms(2,1)
proof (induction rule: tp_step.induct)
  case (lock s i)
  note I = lock.prems[unfolded tp_inv_def]
  have "lock_inv ((sy_workers s)[i := At_Check]) (Some (Worker i))" "leave_inv ((sy_workers s)[i := At_Check]) (sy_pool s)"
    using I lock lock_inv_update(1)[of "sy_workers s" "sy_lock s" i At_Check] leave_inv_update[of "sy_workers s" "sy_pool s" At_Check i]
    by (simp_all add: holds_lock_def leaving_def)
  with tp_inv_worker[OF lock.prems lock(2), of "sy_pool s" At_Check "sy_taken s" "sy_executed s" "Some (Worker i)"] I lock(3)
  show ?case by simp
next
  case (wait i s p)
  note I = wait.prems[unfolded tp_inv_def] and W = worker_check_wait[OF wait(3)]
  have "lock_inv ((sy_workers s)[i := Waiting]) None" "leave_inv ((sy_workers s)[i := Waiting]) p"
    using I wait W lock_inv_update(3)[of "sy_workers s" "sy_lock s" i Waiting] leave_inv_update[of "sy_workers s" p Waiting i]
    by (simp_all add: holds_lock_def leaving_def)
  with tp_inv_worker[OF wait.prems wait(1), of p Waiting "sy_taken s" "sy_executed s" None] I wait(2) W
  show ?case by simp
next
  case (wake i s)
  note I = wake.prems[unfolded tp_inv_def]
  have "lock_inv ((sy_workers s)[i := At_Lock]) (sy_lock s)" "leave_inv ((sy_workers s)[i := At_Lock]) (sy_pool s)"
    using I wake lock_inv_update(4)[of "sy_workers s" "sy_lock s" i At_Lock] leave_inv_update[of "sy_workers s" "sy_pool s" At_Lock i]
    by (simp_all add: holds_lock_def leaving_def)
  with tp_inv_worker[OF wake.prems wake(1), of "sy_pool s" At_Lock "sy_taken s" "sy_executed s" "sy_lock s"] I wake(2)
  show ?case by simp
next
  case (take i s t p)
  note I = take.prems[unfolded tp_inv_def]
  note T = worker_check_take[OF I[THEN conjunct1] take(3)]
  have "leave_inv (sy_workers s) p" using I T(5,6,7) by (simp add: leave_inv_def)
  then have "lock_inv ((sy_workers s)[i := Working t]) None" "leave_inv ((sy_workers s)[i := Working t]) p"
    using I take lock_inv_update(3)[of "sy_workers s" "sy_lock s" i "Working t"] leave_inv_update[of "sy_workers s" p "Working t" i]
    by (simp_all add: holds_lock_def leaving_def)
  with tp_inv_worker[OF take.prems take(1), of p "Working t" "sy_taken s @ [t]" "sy_executed s" None] I take(2) T
  show ?case by simp
next
  case (work i s t)
  note I = work.prems[unfolded tp_inv_def]
  have "lock_inv ((sy_workers s)[i := At_Lock]) (sy_lock s)" "leave_inv ((sy_workers s)[i := At_Lock]) (sy_pool s)"
    using I work lock_inv_update(4)[of "sy_workers s" "sy_lock s" i At_Lock] leave_inv_update[of "sy_workers s" "sy_pool s" At_Lock i]
    by (simp_all add: holds_lock_def leaving_def)
  with tp_inv_worker[OF work.prems work(1), of "sy_pool s" At_Lock "sy_taken s" "sy_executed s @ [t]" "sy_lock s"] I work(2)
  show ?case by simp
next
  case (leave i s p)
  note I = leave.prems[unfolded tp_inv_def] and X = worker_check_exit[OF leave(3)]
  have "lock_inv ((sy_workers s)[i := At_Exit]) (sy_lock s)" "leave_inv ((sy_workers s)[i := At_Exit]) p"
    using I leave X lock_inv_update(2)[of "sy_workers s" "sy_lock s" i At_Exit] leave_inv_update[of "sy_workers s" p At_Exit i]
    by (simp_all add: holds_lock_def leaving_def)
  with tp_inv_worker[OF leave.prems leave(1), of p At_Exit "sy_taken s" "sy_executed s" "sy_lock s"] I leave(2) X
  show ?case by simp
next
  case (ended i s)
  note I = ended.prems[unfolded tp_inv_def]
  define p where "p = (sy_pool s)\<lparr>started := started (sy_pool s) - 1\<rparr>"
  have ex: "At_Exit \<in> set (sy_workers s)" using ended(1,2) by (metis nth_mem)
  have "0 < alive (sy_workers s)" using ex by (auto simp: alive_def filter_empty_conv intro!: gr0I)
  then have p: "ring_ok p" "ring p = ring (sy_pool s)" "started p + 1 = started (sy_pool s)" "shutdown p = shutdown (sy_pool s)"
    "pending p = pending (sy_pool s)"
    using I by (simp_all add: p_def ring_ok_def ring_def)
  have "leave_inv (sy_workers s) p" using I p(4,5) by (simp add: leave_inv_def)
  then have "lock_inv ((sy_workers s)[i := Ended]) None" "leave_inv ((sy_workers s)[i := Ended]) p"
    using I ended ex p(4,5) lock_inv_update(3)[of "sy_workers s" "sy_lock s" i Ended] leave_inv_update[of "sy_workers s" p Ended i]
    by (simp_all add: holds_lock_def leaving_def) (auto simp: leave_inv_def leaving_def)
  with tp_inv_worker[OF ended.prems ended(1), of p Ended "sy_taken s" "sy_executed s" None] I ended(2) p
  show ?case by (simp add: p_def)
next
  case (add s t err p)
  note I = add.prems[unfolded tp_inv_def]
  show ?case
  proof (cases "pending (sy_pool s) = queue_size (sy_pool s) \<or> shutdown (sy_pool s) \<noteq> Running_Pool")
    case True
    then have "p = sy_pool s" "err \<noteq> None" using add(3) by (auto simp: threadpool_add_def Let_def split: if_splits)
    with I show ?thesis by (simp add: tp_inv_def)
  next
    case False
    then have "pending (sy_pool s) < queue_size (sy_pool s)" using I by (auto simp: ring_ok_def)
    from add_room[OF I[THEN conjunct1] this, of t] False add(3)
    have p: "err = None" "ring_ok p" "ring p = ring (sy_pool s) @ [t]" "started p = started (sy_pool s)"
      "shutdown p = shutdown (sy_pool s)" by auto
    have "\<not> leaving w" if "w \<in> set (sy_workers s)" for w
      using I False that by (auto simp: leave_inv_def)
    then show ?thesis using I p False by (auto simp: tp_inv_def leave_inv_def)
  qed
next
  case (destroy s graceful p)
  note I = destroy.prems[unfolded tp_inv_def]
  have p: "p = (sy_pool s)\<lparr>shutdown := (if graceful then Graceful_Shutdown else Immediate_Shutdown)\<rparr>"
    "shutdown (sy_pool s) = Running_Pool"
    using destroy(3) by (auto simp: destroy_begin_def split: if_splits)
  have "ring_ok p" "ring p = ring (sy_pool s)" using I by (auto simp: p(1) ring_ok_def ring_def)
  moreover have "\<not> leaving w" if "w \<in> set (sy_workers s)" for w
    using I p(2) that by (auto simp: leave_inv_def)
  then have "leave_inv (wake_all (sy_workers s)) p"
    by (fastforce simp: leave_inv_def in_set_conv_nth wake_all_simps)
  moreover have "lock_inv (wake_all (sy_workers s)) (sy_lock s)"
    using I wake_all_simps(4) by (auto simp: lock_inv_def wake_all_simps(1))
  ultimately show ?case using I destroy(2) p by (simp add: tp_inv_def wake_all_simps)
next
  case (destroy_again s graceful)
  then show ?case by (simp add: tp_inv_def lock_inv_def)
next
  case (free s)
  then show ?case by (simp add: tp_inv_def)
qed

lemma tp_inv_reachable: "reachable n q s \<Longrightarrow> tp_inv s"
proof (induction rule: reachable.induct)
  case start
  have "map in_hand (replicate n At_Lock) = replicate n []" by simp
  then show ?case
    by (auto simp: tp_inv_def threadpool_create_def ring_ok_def ring_def alive_def at_work_def lock_inv_def leave_inv_def
        holds_lock_def leaving_def simp flip: length_0_conv)
next
  case (step s s')
  then show ?case using tp_inv_step by blast
qed

subsection \<open>Properties of every run\<close>

inductive_cases tp_stepE: "tp_step s s'"

lemma reachable_workers: "reachable n q s \<Longrightarrow> length (sy_workers s) = n"
proof (induction rule: reachable.induct)
  case (step s s')
  from step(2,3) show ?case by (cases rule: tp_step.cases) (simp_all add: set_worker_def wake_all_simps)
qed (simp add: threadpool_create_def)

text \<open>C11: In every reachable state at most one worker is inside a critical section and it owns
  the lock, the ring is well formed, \<open>started\<close> is the number of workers that have not ended,
  the tasks taken so far are the first of the accepted ones with the rest still queued, and
  every task taken has been executed once or is being executed by one worker.\<close>

theorem threadpool_safety:
  assumes "reachable n q s"
  shows "ring_ok (sy_pool s) \<and> started (sy_pool s) = alive (sy_workers s)
    \<and> sy_accepted s = sy_taken s @ ring (sy_pool s)
    \<and> mset (sy_taken s) = mset (sy_executed s) + at_work (sy_workers s)
    \<and> lock_inv (sy_workers s) (sy_lock s)"
  using tp_inv_reachable[OF assms] by (simp add: tp_inv_def)

lemma threadpool_safety_witness: "started (sy_pool (threadpool_create 2 [0 :: nat])) = 2
    \<and> ring (sy_pool (threadpool_create 2 [0 :: nat])) = []"
  using threadpool_safety[OF reachable.start[of 2 "[0 :: nat]"]]
  by (simp add: threadpool_create_def alive_def numeral_2_eq_2)

text \<open>C14: A graceful shutdown loses nothing: once \<open>threadpool_destroy\<close> with the graceful flag has
  released a pool with at least one worker, every task that \<open>threadpool_add\<close> had accepted was
  taken in the order of acceptance and has been executed exactly once.\<close>

theorem threadpool_graceful:
  assumes "reachable n q s" "0 < n" "sy_freed s" "shutdown (sy_pool s) = Graceful_Shutdown"
  shows "sy_taken s = sy_accepted s \<and> mset (sy_executed s) = mset (sy_accepted s)"
proof -
  note I = tp_inv_reachable[OF assms(1), unfolded tp_inv_def]
  have ends: "\<forall>w \<in> set (sy_workers s). w = Ended" using I assms(3) by blast
  then have ws: "sy_workers s = replicate n Ended"
    using reachable_workers[OF assms(1)] replicate_length_same by metis
  then have "Ended \<in> set (sy_workers s)" using assms(2) by simp
  then have "pending (sy_pool s) = 0" using I assms(4) by (auto simp: leave_inv_def leaving_def)
  moreover have "at_work (sy_workers s) = {#}" by (simp add: ws at_work_def)
  ultimately show ?thesis using I by simp
qed

lemma threadpool_graceful_witness:
  "\<exists>s. reachable 1 [0 :: nat] s \<and> sy_freed s \<and> sy_accepted s = [5] \<and> mset (sy_executed s) = {#5#}"
proof -
  define S where "S pend sh st l w jo fr ta ex q = \<lparr>sy_pool = \<lparr>thread_count = 1, queue_size = 1, queue = [q :: nat],
      head = 0, tail = 0, pending = pend, shutdown = sh, started = st\<rparr>, sy_lock = l, sy_workers = [w],
      sy_joining = jo, sy_freed = fr, sy_accepted = [5], sy_taken = ta, sy_executed = ex\<rparr>"
    for pend sh st l w jo fr ta ex q
  note defs = S_def set_worker_def threadpool_add_def worker_check_def destroy_begin_def wake_all_def
    threadpool_create_def threadpool_free_def
  have "tp_step (threadpool_create 1 [0]) (S 1 Running_Pool 1 None At_Lock False False [] [] 5)"
    using tp_step.add[of "threadpool_create 1 [0 :: nat]" 5 None] by (simp add: defs)
  then have "reachable 1 [0] (S 1 Running_Pool 1 None At_Lock False False [] [] 5)"
    using reachable.step[OF reachable.start] by blast
  moreover have "tp_step (S 1 Running_Pool 1 None At_Lock False False [] [] 5)
      (S 1 Running_Pool 1 (Some (Worker 0)) At_Check False False [] [] 5)"
    using tp_step.lock[of "S 1 Running_Pool 1 None At_Lock False False [] [] 5" 0] by (simp add: defs)
  moreover have "tp_step (S 1 Running_Pool 1 (Some (Worker 0)) At_Check False False [] [] 5)
      (S 0 Running_Pool 1 None (Working 5) False False [5] [] 5)"
    using tp_step.take[of 0 "S 1 Running_Pool 1 (Some (Worker 0)) At_Check False False [] [] 5" 5] by (simp add: defs)
  moreover have "tp_step (S 0 Running_Pool 1 None (Working 5) False False [5] [] 5)
      (S 0 Running_Pool 1 None At_Lock False False [5] [5] 5)"
    using tp_step.work[of 0 "S 0 Running_Pool 1 None (Working 5) False False [5] [] 5" 5] by (simp add: defs)
  moreover have "tp_step (S 0 Running_Pool 1 None At_Lock False False [5] [5] 5)
      (S 0 Graceful_Shutdown 1 None At_Lock True False [5] [5] 5)"
    using tp_step.destroy[of "S 0 Running_Pool 1 None At_Lock False False [5] [5] 5" True] by (simp add: defs)
  moreover have "tp_step (S 0 Graceful_Shutdown 1 None At_Lock True False [5] [5] 5)
      (S 0 Graceful_Shutdown 1 (Some (Worker 0)) At_Check True False [5] [5] 5)"
    using tp_step.lock[of "S 0 Graceful_Shutdown 1 None At_Lock True False [5] [5] 5" 0] by (simp add: defs)
  moreover have "tp_step (S 0 Graceful_Shutdown 1 (Some (Worker 0)) At_Check True False [5] [5] 5)
      (S 0 Graceful_Shutdown 1 (Some (Worker 0)) At_Exit True False [5] [5] 5)"
    using tp_step.leave[of 0 "S 0 Graceful_Shutdown 1 (Some (Worker 0)) At_Check True False [5] [5] 5"] by (simp add: defs)
  moreover have "tp_step (S 0 Graceful_Shutdown 1 (Some (Worker 0)) At_Exit True False [5] [5] 5)
      (S 0 Graceful_Shutdown 0 None Ended True False [5] [5] 5)"
    using tp_step.ended[of 0 "S 0 Graceful_Shutdown 1 (Some (Worker 0)) At_Exit True False [5] [5] 5"] by (simp add: defs)
  moreover have "tp_step (S 0 Graceful_Shutdown 0 None Ended True False [5] [5] 5)
      (S 0 Graceful_Shutdown 0 None Ended False True [5] [5] 5)"
    using tp_step.free[of "S 0 Graceful_Shutdown 0 None Ended True False [5] [5] 5"] by (simp add: defs)
  ultimately have r: "reachable 1 [0] (S 0 Graceful_Shutdown 0 None Ended False True [5] [5] 5)"
    by (meson reachable.step)
  have f: "sy_freed (S 0 Graceful_Shutdown 0 None Ended False True [5] [5] 5)"
    "shutdown (sy_pool (S 0 Graceful_Shutdown 0 None Ended False True [5] [5] 5)) = Graceful_Shutdown"
    "sy_accepted (S 0 Graceful_Shutdown 0 None Ended False True [5] [5] 5) = [5]"
    by (simp_all add: S_def)
  show ?thesis using threadpool_graceful[OF r _ f(1,2)] r f(1,3) by (metis mset_single_iff_right zero_less_one mset.simps(1,2) )
qed

lemma client_lock_stuck:
  assumes "tp_inv s" "sy_lock s = Some Client" "\<not> sy_freed s" "tp_step s s'"
  shows "tp_inv s' \<and> sy_lock s' = Some Client \<and> \<not> sy_freed s'"
proof -
  have no: "\<not> holds_lock (sy_workers s ! i)" if "i < length (sy_workers s)" for i
    using assms(1,2) that by (auto simp: tp_inv_def lock_inv_def)
  have "sy_lock s' = Some Client \<and> \<not> sy_freed s'"
    using assms(4,2,3) no by (cases rule: tp_step.cases) (auto simp: set_worker_def holds_lock_def)
  with tp_inv_step[OF assms(1,4)] show ?thesis by blast
qed

text \<open>C36: A second \<open>threadpool_destroy\<close> while the first waits for the workers deadlocks the pool:
  the function returns without releasing the lock, and from then on the lock is never free
  and the pool is never released.\<close>

theorem threadpool_destroy_twice:
  assumes "reachable n q s" "sy_lock s = None" "\<not> sy_freed s" "shutdown (sy_pool s) \<noteq> Running_Pool"
  shows "\<exists>s1. tp_step s s1 \<and> (\<forall>s2. tp_step\<^sup>*\<^sup>* s1 s2 \<longrightarrow> sy_lock s2 = Some Client \<and> \<not> sy_freed s2)"
proof (intro exI conjI allI impI)
  have b: "destroy_begin True (sy_pool s) = None" using assms(4) by (simp add: destroy_begin_def)
  show st: "tp_step s (s\<lparr>sy_lock := Some Client\<rparr>)" by (rule tp_step.destroy_again[OF assms(2,3) b])
  fix s2 assume "tp_step\<^sup>*\<^sup>* (s\<lparr>sy_lock := Some Client\<rparr>) s2"
  then have "tp_inv s2 \<and> sy_lock s2 = Some Client \<and> \<not> sy_freed s2"
  proof (induction rule: rtranclp_induct)
    case base
    show ?case using tp_inv_step[OF tp_inv_reachable[OF assms(1)] st] assms(3) by simp
  next
    case (step x y)
    then show ?case using client_lock_stuck by blast
  qed
  then show "sy_lock s2 = Some Client" "\<not> sy_freed s2" by blast+
qed

lemma threadpool_destroy_twice_witness:
  "\<exists>s s1. reachable 1 [0 :: nat] s \<and> sy_joining s \<and> tp_step s s1
    \<and> (\<forall>s2. tp_step\<^sup>*\<^sup>* s1 s2 \<longrightarrow> sy_lock s2 = Some Client \<and> \<not> sy_freed s2)"
proof -
  let ?init = "threadpool_create 1 [0 :: nat]"
  let ?s = "?init\<lparr>sy_pool := (sy_pool ?init)\<lparr>shutdown := Graceful_Shutdown\<rparr>, sy_workers := wake_all (sy_workers ?init),
    sy_joining := True\<rparr>"
  have "tp_step ?init ?s"
    by (rule tp_step.destroy[of _ True]) (simp_all add: threadpool_create_def destroy_begin_def)
  then have r: "reachable 1 [0] ?s" using reachable.step[OF reachable.start] by blast
  have "sy_lock ?s = None" "\<not> sy_freed ?s" "shutdown (sy_pool ?s) \<noteq> Running_Pool" "sy_joining ?s"
    by (simp_all add: threadpool_create_def)
  with threadpool_destroy_twice[OF r] r show ?thesis by blast
qed

end
