(* ===== verification/Des.thy ===== *)
theory Des
  imports C_Base
begin

text \<open>
  \<open>Crypto/DESc\<close>: the block cipher of \<open>des.c\<close> with the tables of \<open>tables.h\<close>.

  The bit arrays of the code (\<open>bool[]\<close>, an enumeration of 0 and 1) live in a store
  \<open>bits\<close> that maps each static array to its contents; a \<open>bool *\<close> is an array and an
  offset, so that the in-place permutations and the overlapping copy of \<open>LoopMove\<close>
  are modelled with their aliasing. The \<open>char\<close> buffers of the callers are lists of
  bytes. Reading or writing outside an array has no result.
\<close>

subsection \<open>Tables\<close>

definition IP_Table :: "nat list" where
  "IP_Table = [
    58,50,42,34,26,18,10, 2,60,52,44,36,28,20,12, 4,
    62,54,46,38,30,22,14, 6,64,56,48,40,32,24,16, 8,
    57,49,41,33,25,17, 9, 1,59,51,43,35,27,19,11, 3,
    61,53,45,37,29,21,13, 5,63,55,47,39,31,23,15, 7]"

definition IPR_Table :: "nat list" where
  "IPR_Table = [
    40, 8,48,16,56,24,64,32,39, 7,47,15,55,23,63,31,
    38, 6,46,14,54,22,62,30,37, 5,45,13,53,21,61,29,
    36, 4,44,12,52,20,60,28,35, 3,43,11,51,19,59,27,
    34, 2,42,10,50,18,58,26,33, 1,41, 9,49,17,57,25]"

definition E_Table :: "nat list" where
  "E_Table = [
    32, 1, 2, 3, 4, 5, 4, 5, 6, 7, 8, 9,
     8, 9,10,11,12,13,12,13,14,15,16,17,
    16,17,18,19,20,21,20,21,22,23,24,25,
    24,25,26,27,28,29,28,29,30,31,32, 1]"

definition PC1_Table :: "nat list" where
  "PC1_Table = [
    57,49,41,33,25,17, 9, 1,58,50,42,34,26,18,
    10, 2,59,51,43,35,27,19,11, 3,60,52,44,36,
    63,55,47,39,31,23,15, 7,62,54,46,38,30,22,
    14, 6,61,53,45,37,29,21,13, 5,28,20,12, 4]"

definition Move_Table :: "nat list" where
  "Move_Table = [1, 1, 2, 2, 2, 2, 2, 2, 1, 2, 2, 2, 2, 2, 2, 1]"

definition PC2_Table :: "nat list" where
  "PC2_Table = [
    14,17,11,24, 1, 5, 3,28,15, 6,21,10,
    23,19,12, 4,26, 8,16, 7,27,20,13, 2,
    41,52,31,37,47,55,30,40,51,34,33,48,
    44,49,39,56,34,53,46,42,50,36,29,32]"

definition S_Box :: "u8 list" where
  "S_Box = [
    14, 4,13, 1, 2,15,11, 8, 3,10, 6,12, 5, 9, 0, 7,
     0,15, 7, 4,14, 2,13, 1,10, 6,12,11, 9, 5, 3, 8,
     4, 1,14, 8,13, 6, 2,11,15,12, 9, 7, 3,10, 5, 0,
    15,12, 8, 2, 4, 9, 1, 7, 5,11, 3,14,10, 0, 6,13,
    15, 1, 8,14, 6,11, 3, 4, 9, 7, 2,13,12, 0, 5,10,
     3,13, 4, 7,15, 2, 8,14,12, 0, 1,10, 6, 9,11, 5,
     0,14, 7,11,10, 4,13, 1, 5, 8,12, 6, 9, 3, 2,15,
    13, 8,10, 1, 3,15, 4, 2,11, 6, 7,12, 0, 5,14, 9,
    10, 0, 9,14, 6, 3,15, 5, 1,13,12, 7,11, 4, 2, 8,
    13, 7, 0, 9, 3, 4, 6,10, 2, 8, 5,14,12,11,15, 1,
    13, 6, 4, 9, 8,15, 3, 0,11, 1, 2,12, 5,10,14, 7,
     1,10,13, 0, 6, 9, 8, 7, 4,15,14, 3,11, 5, 2,12,
     7,13,14, 3, 0, 6, 9,10, 1, 2, 8, 5,11,12, 4,15,
    13, 8,11, 5, 6,15, 0, 3, 4, 7, 2,12, 1,10,14, 9,
    10, 6, 9, 0,12,11, 7,13,15, 1, 3,14, 5, 2, 8, 4,
     3,15, 0, 6,10, 1,13, 8, 9, 4, 5,11,12, 7, 2,14,
     2,12, 4, 1, 7,10,11, 6, 8, 5, 3,15,13, 0,14, 9,
    14,11, 2,12, 4, 7,13, 1, 5, 0,15,10, 3, 9, 8, 6,
     4, 2, 1,11,10,13, 7, 8,15, 9,12, 5, 6, 3, 0,14,
    11, 8,12, 7, 1,14, 2,13, 6,15, 0, 9,10, 4, 5, 3,
    12, 1,10,15, 9, 2, 6, 8, 0,13, 3, 4,14, 7, 5,11,
    10,15, 4, 2, 7,12, 0, 5, 6, 1,13,14, 0,11, 3, 8,
     9,14,15, 5, 2, 8,12, 3, 7, 0, 4,10, 1,13,11, 6,
     4, 3, 2,12, 9, 5,15,10,11,14, 1, 7, 6, 0, 8,13,
     4,11, 2,14,15, 0, 8,13, 3,12, 9, 7, 5,10, 6, 1,
    13, 0,11, 7, 4, 0, 1,10,14, 3, 5,12, 2,15, 8, 6,
     1, 4,11,13,12, 3, 7,14,10,15, 6, 8, 0, 5, 9, 2,
     6,11,13, 8, 1, 4,10, 7, 9, 5, 0,15,14, 2, 3,12,
    13, 2, 8, 4, 6,15,11, 1,10, 9, 3,14, 5, 0,12, 7,
     1,15,13, 8,10, 3, 7, 4,12, 5, 6,11, 0,14, 9, 2,
     7,11, 4, 1, 9,12,14, 2, 0, 6,10,13,15, 3, 5, 8,
     2, 1,14, 7, 4,10, 8,13,15,12, 9, 0, 3, 5, 6,11]"

definition P_Table :: "nat list" where
  "P_Table = [
    16, 7,20,21,29,12,28,17, 1,15,23,26, 5,18,31,10,
     2, 8,24,14,32,27, 3, 9,19,13,30, 6,22,11, 4,25]"

subsection \<open>The static arrays\<close>

datatype arr =
    Permute_Temp | Move_Temp | MiR | KeyBit | SubKey nat
  | Play_Bit | Play_Temp | Kick_Bit | Kick_Temp

type_synonym bits = "arr \<Rightarrow> bool list"
type_synonym bitp = "arr \<times> nat"

fun array_size :: "arr \<Rightarrow> nat" where
  "array_size Permute_Temp = 256"
| "array_size Move_Temp = 256"
| "array_size MiR = 48"
| "array_size KeyBit = 64"
| "array_size (SubKey i) = (if i < 16 then 48 else 0)"
| "array_size Play_Bit = 64"
| "array_size Play_Temp = 32"
| "array_size Kick_Bit = 64"
| "array_size Kick_Temp = 32"

definition bits_init :: bits where
  "bits_init a = replicate (array_size a) False"

fun plus_ptr :: "bitp \<Rightarrow> nat \<Rightarrow> bitp" where
  "plus_ptr (a, i) n = (a, i + n)"

fun load :: "bits \<Rightarrow> bitp \<Rightarrow> bool option" where
  "load st (a, i) = rd (st a) i"

fun store :: "bits \<Rightarrow> bitp \<Rightarrow> bool \<Rightarrow> bits option" where
  "store st (a, i) b = (case wr (st a) i b of None \<Rightarrow> None | Some xs \<Rightarrow> Some (st(a := xs)))"

subsection \<open>Copies and conversions\<close>

definition BitsCopy :: "bitp \<Rightarrow> bitp \<Rightarrow> nat \<Rightarrow> bits \<Rightarrow> bits option" where
  "BitsCopy DatOut DatIn Len = for_up 0 Len (\<lambda>i st. do {
     b \<leftarrow> load st (plus_ptr DatIn i);
     store st (plus_ptr DatOut i) b })"

text \<open>A \<open>char\<close> is promoted to \<open>int\<close>, sign extended, before it is shifted.\<close>

definition int_of_char :: "u8 \<Rightarrow> u32" where
  "int_of_char c = scast c"

definition ByteToBit :: "bitp \<Rightarrow> u8 list \<Rightarrow> nat \<Rightarrow> bits \<Rightarrow> bits option" where
  "ByteToBit DatOut DatIn Num = for_up 0 Num (\<lambda>i st. do {
     c \<leftarrow> rd DatIn (i div 8);
     store st (plus_ptr DatOut i) (bit (int_of_char c) (i mod 8)) })"

definition BitToByte :: "u8 list \<Rightarrow> bitp \<Rightarrow> nat \<Rightarrow> bits \<Rightarrow> u8 list option" where
  "BitToByte DatOut DatIn Num st = do {
     out \<leftarrow> for_up 0 (Num div 8) (\<lambda>i out. wr out i 0) DatOut;
     for_up 0 Num (\<lambda>i out. do {
       b \<leftarrow> load st (plus_ptr DatIn i);
       c \<leftarrow> rd out (i div 8);
       wr out (i div 8) (or c (push_bit (i mod 8) (of_bool b))) }) out }"

definition BitToHex :: "u8 list \<Rightarrow> bitp \<Rightarrow> nat \<Rightarrow> bits \<Rightarrow> u8 list option" where
  "BitToHex DatOut DatIn Num st = do {
     out \<leftarrow> for_up 0 (Num div 4) (\<lambda>i out. wr out i 0) DatOut;
     for_up 0 (Num div 4) (\<lambda>i out. do {
       b0 \<leftarrow> load st (plus_ptr DatIn (i * 4));
       b1 \<leftarrow> load st (plus_ptr DatIn (i * 4 + 1));
       b2 \<leftarrow> load st (plus_ptr DatIn (i * 4 + 2));
       b3 \<leftarrow> load st (plus_ptr DatIn (i * 4 + 3));
       let c = of_bool b0 + push_bit 1 (of_bool b1) + push_bit 2 (of_bool b2) + push_bit 3 (of_bool b3);
       wr out i (if c mod 16 > 9 then c mod 16 + 55 else c mod 16 + 48) }) out }"

definition HexToBit :: "bitp \<Rightarrow> u8 list \<Rightarrow> nat \<Rightarrow> bits \<Rightarrow> bits option" where
  "HexToBit DatOut DatIn Num = for_up 0 Num (\<lambda>i st. do {
     c \<leftarrow> rd DatIn (i div 4);
     store st (plus_ptr DatOut i)
       (if sint c > 57 then bit (int_of_char c - 55) (i mod 4)
        else bit (int_of_char c - 48) (i mod 4)) })"

subsection \<open>Permutations, rotation, exclusive or\<close>

definition TablePermute :: "bitp \<Rightarrow> bitp \<Rightarrow> nat list \<Rightarrow> nat \<Rightarrow> bits \<Rightarrow> bits option" where
  "TablePermute DatOut DatIn Table Num st = do {
     st \<leftarrow> for_up 0 Num (\<lambda>i st. do {
       t \<leftarrow> rd Table i;
       b \<leftarrow> load st (plus_ptr DatIn (t - 1));
       store st (Permute_Temp, i) b }) st;
     BitsCopy DatOut (Permute_Temp, 0) Num st }"

definition LoopMove :: "bitp \<Rightarrow> nat \<Rightarrow> nat \<Rightarrow> bits \<Rightarrow> bits option" where
  "LoopMove DatIn Len Num st = do {
     st \<leftarrow> BitsCopy (Move_Temp, 0) DatIn Num st;
     st \<leftarrow> BitsCopy DatIn (plus_ptr DatIn Num) (Len - Num) st;
     BitsCopy (plus_ptr DatIn (Len - Num)) (Move_Temp, 0) Num st }"

definition Xor :: "bitp \<Rightarrow> bitp \<Rightarrow> nat \<Rightarrow> bits \<Rightarrow> bits option" where
  "Xor DatA DatB Num = for_up 0 Num (\<lambda>i st. do {
     a \<leftarrow> load st (plus_ptr DatA i);
     b \<leftarrow> load st (plus_ptr DatB i);
     store st (plus_ptr DatA i) (a \<noteq> b) })"

subsection \<open>The round function\<close>

definition S_Change :: "bitp \<Rightarrow> bitp \<Rightarrow> bits \<Rightarrow> bits option" where
  "S_Change DatOut DatIn = for_up 0 8 (\<lambda>i st. do {
     a \<leftarrow> load st (plus_ptr DatIn (6 * i));
     f \<leftarrow> load st (plus_ptr DatIn (6 * i + 5));
     b \<leftarrow> load st (plus_ptr DatIn (6 * i + 1));
     c \<leftarrow> load st (plus_ptr DatIn (6 * i + 2));
     d \<leftarrow> load st (plus_ptr DatIn (6 * i + 3));
     e \<leftarrow> load st (plus_ptr DatIn (6 * i + 4));
     let Y = push_bit 1 (of_bool a) + of_bool f;
     let X = push_bit 3 (of_bool b) + push_bit 2 (of_bool c) + push_bit 1 (of_bool d) + of_bool e;
     ByteToBit (plus_ptr DatOut (4 * i)) (drop (i * 64 + Y * 16 + X) S_Box) 4 st })"

definition F_Change :: "bitp \<Rightarrow> bitp \<Rightarrow> bits \<Rightarrow> bits option" where
  "F_Change DatIn DatKi st = do {
     st \<leftarrow> TablePermute (MiR, 0) DatIn E_Table 48 st;
     st \<leftarrow> Xor (MiR, 0) DatKi 48 st;
     st \<leftarrow> S_Change DatIn (MiR, 0) st;
     TablePermute DatIn DatIn P_Table 32 st }"

subsection \<open>Key schedule, encryption and decryption\<close>

definition key_round :: "nat \<Rightarrow> bits \<Rightarrow> bits option" where
  "key_round i st = do {
     n \<leftarrow> rd Move_Table i;
     st \<leftarrow> LoopMove (KeyBit, 0) 28 n st;
     st \<leftarrow> LoopMove (KeyBit, 28) 28 n st;
     TablePermute (SubKey i, 0) (KeyBit, 0) PC2_Table 48 st }"

definition SetKey :: "u8 list \<Rightarrow> bits \<Rightarrow> bits option" where
  "SetKey KeyIn st = do {
     st \<leftarrow> ByteToBit (KeyBit, 0) KeyIn 64 st;
     st \<leftarrow> TablePermute (KeyBit, 0) (KeyBit, 0) PC1_Table 56 st;
     for_up 0 16 key_round st }"

definition play_round :: "nat \<Rightarrow> bits \<Rightarrow> bits option" where
  "play_round i st = do {
     st \<leftarrow> BitsCopy (Play_Temp, 0) (Play_Bit, 32) 32 st;
     st \<leftarrow> F_Change (Play_Bit, 32) (SubKey i, 0) st;
     st \<leftarrow> Xor (Play_Bit, 32) (Play_Bit, 0) 32 st;
     BitsCopy (Play_Bit, 0) (Play_Temp, 0) 32 st }"

definition PlayDes :: "u8 list \<Rightarrow> u8 list \<Rightarrow> bits \<Rightarrow> (u8 list \<times> bits) option" where
  "PlayDes MesOut MesIn st = do {
     st \<leftarrow> ByteToBit (Play_Bit, 0) MesIn 64 st;
     st \<leftarrow> TablePermute (Play_Bit, 0) (Play_Bit, 0) IP_Table 64 st;
     st \<leftarrow> for_up 0 16 play_round st;
     st \<leftarrow> TablePermute (Play_Bit, 0) (Play_Bit, 0) IPR_Table 64 st;
     out \<leftarrow> BitToHex MesOut (Play_Bit, 0) 64 st;
     Some (out, st) }"

definition kick_round :: "nat \<Rightarrow> bits \<Rightarrow> bits option" where
  "kick_round i st = do {
     st \<leftarrow> BitsCopy (Kick_Temp, 0) (Kick_Bit, 0) 32 st;
     st \<leftarrow> F_Change (Kick_Bit, 0) (SubKey i, 0) st;
     st \<leftarrow> Xor (Kick_Bit, 0) (Kick_Bit, 32) 32 st;
     BitsCopy (Kick_Bit, 32) (Kick_Temp, 0) 32 st }"

text \<open>\<open>for (i = 15; i >= 0; i--)\<close> is the loop over \<open>j\<close> with \<open>i = 15 - j\<close>.\<close>

definition KickDes :: "u8 list \<Rightarrow> u8 list \<Rightarrow> bits \<Rightarrow> (u8 list \<times> bits) option" where
  "KickDes MesOut MesIn st = do {
     st \<leftarrow> HexToBit (Kick_Bit, 0) MesIn 64 st;
     st \<leftarrow> TablePermute (Kick_Bit, 0) (Kick_Bit, 0) IP_Table 64 st;
     st \<leftarrow> for_up 0 16 (\<lambda>j. kick_round (15 - j)) st;
     st \<leftarrow> TablePermute (Kick_Bit, 0) (Kick_Bit, 0) IPR_Table 64 st;
     out \<leftarrow> BitToByte MesOut (Kick_Bit, 0) 64 st;
     Some (out, st) }"

end
