(* ===== verification/Des_Correct.thy ===== *)
theory Des_Correct
  imports Des
begin

text \<open>
  The cipher of \<open>Crypto/DESc\<close> proved against bit lists. Each operation of \<open>des.c\<close> gets an
  equation or a \<open>yields\<close> lemma: it returns, keeps the sizes of the static arrays
  (\<open>wf_bits\<close>), writes only the arrays it names and leaves there the value of a pure function
  (\<open>permute\<close>, \<open>substitute\<close>, \<open>feistel\<close>, \<open>des_round\<close>, \<open>sub_key\<close>). The aliased copies are covered
  by \<open>BitsCopy_eq\<close> (destination before the source) and \<open>Xor_eq\<close> (disjoint ranges).
\<close>

subsection \<open>Loops over an array\<close>

text \<open>A loop that stores the value \<open>v i\<close> at the offset \<open>k + i\<close> of the array \<open>a\<close>.\<close>

lemma store_loop:
  assumes "\<And>i. i < n \<Longrightarrow> body i (st(a := overlay (st a) k (map v [0..<i])))
             = store (st(a := overlay (st a) k (map v [0..<i]))) (a, k + i) (v i)"
    and "k + n \<le> length (st a)"
  shows "for_up 0 n body st = Some (st(a := overlay (st a) k (map v [0..<n])))"
proof -
  have "for_up 0 n body (st(a := overlay (st a) k (map v [0..<0])))
      = Some (st(a := overlay (st a) k (map v [0..<n])))"
  proof (rule for_up_eq)
    fix j assume j: "j < n"
    show "body j (st(a := overlay (st a) k (map v [0..<j])))
        = Some (st(a := overlay (st a) k (map v [0..<Suc j])))"
      using assms j overlay_snoc[of k "map v [0..<j]" "st a" "v j"] by simp
  qed simp
  then show ?thesis by simp
qed

lemma map_nth_slice: "k + n \<le> length xs \<Longrightarrow> map (\<lambda>i. xs ! (k + i)) [0..<n] = take n (drop k xs)"
  by (rule nth_equalityI) simp_all

lemma BitsCopy_eq:
  assumes "a \<noteq> b \<or> k \<le> l" "k + n \<le> length (st a)" "l + n \<le> length (st b)"
  shows "BitsCopy (a, k) (b, l) n st = Some (st(a := overlay (st a) k (take n (drop l (st b)))))"
proof -
  have "BitsCopy (a, k) (b, l) n st
      = Some (st(a := overlay (st a) k (map (\<lambda>i. st b ! (l + i)) [0..<n])))"
    unfolding BitsCopy_def by (rule store_loop) (use assms in \<open>auto simp: nth_overlay\<close>)
  then show ?thesis using assms(3) by (simp add: map_nth_slice)
qed

lemma bit_int_of_char: "i < 8 \<Longrightarrow> bit (int_of_char c) i = bit c i"
  by (auto simp: int_of_char_def bit_simps)

definition byte_bits :: "u8 list \<Rightarrow> nat \<Rightarrow> bool list" where
  "byte_bits cs n = map (\<lambda>i. bit (cs ! (i div 8)) (i mod 8)) [0..<n]"

lemma ByteToBit_eq:
  assumes "k + n \<le> length (st a)" "n \<le> 8 * length cs"
  shows "ByteToBit (a, k) cs n st = Some (st(a := overlay (st a) k (byte_bits cs n)))"
  unfolding ByteToBit_def byte_bits_def
proof (rule store_loop)
  fix i assume "i < n"
  then have "i div 8 < length cs" using assms(2) by auto
  then show "(do { c \<leftarrow> rd cs (i div 8);
        store (st(a := overlay (st a) k (map (\<lambda>i. bit (cs ! (i div 8)) (i mod 8)) [0..<i])))
          (plus_ptr (a, k) i) (bit (int_of_char c) (i mod 8)) })
      = store (st(a := overlay (st a) k (map (\<lambda>i. bit (cs ! (i div 8)) (i mod 8)) [0..<i])))
          (a, k + i) (bit (cs ! (i div 8)) (i mod 8))"
    by (simp add: bit_int_of_char del: store.simps)
qed (use assms in simp)

definition permute :: "nat list \<Rightarrow> bool list \<Rightarrow> bool list" where
  "permute T xs = map (\<lambda>t. xs ! (t - 1)) T"

lemma length_permute [simp]: "length (permute T xs) = length T"
  by (simp add: permute_def)

lemma TablePermute_eq:
  assumes "length T = n" "n \<le> 256" "length (st Permute_Temp) = 256" "a \<noteq> Permute_Temp" "b \<noteq> Permute_Temp"
    "list_all (\<lambda>t. 1 \<le> t \<and> t \<le> m) T" "l + m \<le> length (st b)" "k + n \<le> length (st a)"
    and xs: "xs = take m (drop l (st b))"
  shows "TablePermute (a, k) (b, l) T n st
    = Some (st(Permute_Temp := overlay (st Permute_Temp) 0 (permute T xs),
               a := overlay (st a) k (permute T xs)))"
proof -
  have t: "1 \<le> T ! i" "T ! i \<le> m" if "i < n" for i
    using assms(1,6) that by (auto simp: list_all_length)
  have "for_up 0 n (\<lambda>i st. do { t \<leftarrow> rd T i; b \<leftarrow> load st (plus_ptr (b, l) (t - 1)); store st (Permute_Temp, i) b }) st
      = Some (st(Permute_Temp := overlay (st Permute_Temp) 0 (map (\<lambda>i. xs ! (T ! i - 1)) [0..<n])))"
  proof (rule store_loop)
    fix i assume i: "i < n"
    then have "l + (T ! i - 1) < length (st b)" using t[OF i] assms(7) by simp
    moreover have "xs ! (T ! i - 1) = st b ! (l + (T ! i - 1))"
      using t[OF i] assms(7) unfolding xs by simp
    ultimately show "(do { t \<leftarrow> rd T i;
          c \<leftarrow> load (st(Permute_Temp := overlay (st Permute_Temp) 0 (map (\<lambda>i. xs ! (T ! i - 1)) [0..<i]))) (plus_ptr (b, l) (t - 1));
          store (st(Permute_Temp := overlay (st Permute_Temp) 0 (map (\<lambda>i. xs ! (T ! i - 1)) [0..<i]))) (Permute_Temp, i) c })
        = store (st(Permute_Temp := overlay (st Permute_Temp) 0 (map (\<lambda>i. xs ! (T ! i - 1)) [0..<i]))) (Permute_Temp, 0 + i) (xs ! (T ! i - 1))"
      using i assms(1,5) by (simp del: store.simps)
  qed (use assms in simp)
  moreover have "map (\<lambda>i. xs ! (T ! i - 1)) [0..<n] = permute T xs"
    using assms(1) by (intro nth_equalityI) (simp_all add: permute_def)
  moreover have "take n (overlay (st Permute_Temp) 0 (permute T xs)) = permute T xs"
    using assms(1) by (simp add: overlay_def)
  ultimately show ?thesis
    using assms by (simp add: TablePermute_def BitsCopy_eq)
qed

lemma Xor_eq:
  assumes "a \<noteq> b \<or> k + n \<le> l \<or> l + n \<le> k" "k + n \<le> length (st a)" "l + n \<le> length (st b)"
  shows "Xor (a, k) (b, l) n st
    = Some (st(a := overlay (st a) k (map2 (\<noteq>) (take n (drop k (st a))) (take n (drop l (st b))))))"
proof -
  have "Xor (a, k) (b, l) n st
      = Some (st(a := overlay (st a) k (map (\<lambda>i. st a ! (k + i) \<noteq> st b ! (l + i)) [0..<n])))"
    unfolding Xor_def by (rule store_loop) (use assms in \<open>auto simp: nth_overlay\<close>)
  moreover have "map (\<lambda>i. st a ! (k + i) \<noteq> st b ! (l + i)) [0..<n]
      = map2 (\<noteq>) (take n (drop k (st a))) (take n (drop l (st b)))"
    using assms by (intro nth_equalityI) simp_all
  ultimately show ?thesis by simp
qed

lemma LoopMove_eq:
  assumes "a \<noteq> Move_Temp" "n \<le> len" "len \<le> 256" "length (st Move_Temp) = 256" "k + len \<le> length (st a)"
    and xs: "xs = take len (drop k (st a))"
  shows "LoopMove (a, k) len n st
    = Some (st(Move_Temp := overlay (st Move_Temp) 0 (take n xs), a := overlay (st a) k (drop n xs @ take n xs)))"
proof -
  let ?tmp = "overlay (st Move_Temp) 0 (take n xs)"
  have xs_len: "length xs = len" unfolding xs using assms by simp
  have n: "take n (drop k (st a)) = take n xs" unfolding xs using assms by (simp add: min_absorb1)
  have n': "take (len - n) (drop (k + n) (st a)) = drop n xs"
    unfolding xs by (simp add: drop_take add.commute)
  have tmp: "take n ?tmp = take n xs" using xs_len assms by (simp add: overlay_def)
  have "overlay (overlay (st a) k (drop n xs)) (k + (len - n)) (take n xs)
      = overlay (st a) k (drop n xs @ take n xs)"
    using xs_len assms by (simp add: overlay_def min_absorb1 min_absorb2)
  note lay = this
  let ?st1 = "st(Move_Temp := ?tmp)"
  let ?st2 = "?st1(a := overlay (st a) k (drop n xs))"
  have "BitsCopy (Move_Temp, 0) (a, k) n st = Some ?st1"
    using assms(1-5) by (subst BitsCopy_eq) (simp_all add: n)
  moreover have "BitsCopy (a, k) (a, k + n) (len - n) ?st1 = Some ?st2"
    using assms(1-5) by (subst BitsCopy_eq) (simp_all add: n')
  moreover have "BitsCopy (a, k + (len - n)) (Move_Temp, 0) n ?st2
      = Some (?st2(a := overlay (st a) k (drop n xs @ take n xs)))"
    using assms(1-5) xs_len lay by (subst BitsCopy_eq) (simp_all add: tmp)
  ultimately show ?thesis by (simp add: LoopMove_def)
qed

definition row :: "bool list \<Rightarrow> nat" where
  "row xs = (2 * of_bool (xs ! 0) + of_bool (xs ! 5)) * 16
    + (8 * of_bool (xs ! 1) + 4 * of_bool (xs ! 2) + 2 * of_bool (xs ! 3) + of_bool (xs ! 4))"

definition substitute :: "bool list \<Rightarrow> bool list" where
  "substitute xs = map (\<lambda>j. bit (S_Box ! (j div 4 * 64 + row (take 6 (drop (6 * (j div 4)) xs)))) (j mod 4)) [0..<32]"

lemma row_less: "row xs < 64"
  by (simp add: row_def)

lemma length_S_Box [simp]: "length S_Box = 512"
  by (simp add: S_Box_def)

lemma byte_bits_4: "byte_bits cs 4 = map (\<lambda>i. bit (cs ! 0) i) [0..<4]"
  by (simp add: byte_bits_def)

lemma upt_split: "[0..<n + m] = [0..<n] @ map (\<lambda>i. n + i) [0..<m]"
  by (rule nth_equalityI) (simp_all add: nth_append)

lemma S_Change_eq:
  assumes "a \<noteq> b" "k + 32 \<le> length (st a)" "l + 48 \<le> length (st b)"
    and xs: "xs = take 48 (drop l (st b))"
  shows "S_Change (a, k) (b, l) st = Some (st(a := overlay (st a) k (substitute xs)))"
proof -
  define v where "v j = bit (S_Box ! (j div 4 * 64 + row (take 6 (drop (6 * (j div 4)) xs)))) (j mod 4)" for j
  define g where "g i = st(a := overlay (st a) k (map v [0..<4 * i]))" for i
  have "S_Change (a, k) (b, l) (g 0) = Some (g 8)"
    unfolding S_Change_def
  proof (rule for_up_eq)
    fix i :: nat assume i: "i < 8"
    let ?ys = "take 6 (drop (6 * i) xs)"
    have ld: "load (g i) (b, l + (6 * i + j)) = Some (?ys ! j)" if "j < 6" for j
      using i that assms by (simp add: g_def xs)
    have idx: "i * 64 + row ?ys < 512" using row_less[of ?ys] i by simp
    have "S_Box ! (i * 64 + row ?ys) = S_Box ! ((4 * i + j) div 4 * 64 + row (take 6 (drop (6 * ((4 * i + j) div 4)) xs)))"
      if "j < 4" for j using that by simp
    then have bits: "byte_bits (drop (i * 64 + row ?ys) S_Box) 4 = map (\<lambda>j. v (4 * i + j)) [0..<4]"
      unfolding byte_bits_4 v_def using idx by (auto simp: algebra_simps)
    have split: "map v [0..<4 * Suc i] = map v [0..<4 * i] @ map (\<lambda>j. v (4 * i + j)) [0..<4]"
      using upt_split[of "4 * i" 4] by (simp add: add.commute comp_def)
    have lay: "overlay (overlay (st a) k (map v [0..<4 * i])) (k + 4 * i) (map (\<lambda>j. v (4 * i + j)) [0..<4])
        = overlay (st a) k (map v [0..<4 * Suc i])"
      using i assms(2) unfolding split by (simp add: overlay_def algebra_simps)
    have b4: "k + 4 * i + 4 \<le> length (overlay (st a) k (map v [0..<4 * i]))"
      using i assms(2) by simp
    have "ByteToBit (a, k + 4 * i) (drop (i * 64 + row ?ys) S_Box) 4 (g i) = Some (g (Suc i))"
      using b4 idx lay by (subst ByteToBit_eq) (simp_all add: g_def bits)
    moreover have r: "i * 64 + (push_bit 1 (of_bool (?ys ! 0)) + of_bool (?ys ! 5)) * 16
        + (push_bit 3 (of_bool (?ys ! 1)) + push_bit 2 (of_bool (?ys ! 2)) + push_bit 1 (of_bool (?ys ! 3))
           + of_bool (?ys ! 4)) = i * 64 + row ?ys"
      by (simp add: row_def push_bit_eq_mult)
    ultimately show "(do {
       a' \<leftarrow> load (g i) (plus_ptr (b, l) (6 * i));
       f \<leftarrow> load (g i) (plus_ptr (b, l) (6 * i + 5));
       b' \<leftarrow> load (g i) (plus_ptr (b, l) (6 * i + 1));
       c \<leftarrow> load (g i) (plus_ptr (b, l) (6 * i + 2));
       d \<leftarrow> load (g i) (plus_ptr (b, l) (6 * i + 3));
       e \<leftarrow> load (g i) (plus_ptr (b, l) (6 * i + 4));
       let Y = push_bit 1 (of_bool a') + of_bool f;
       let X = push_bit 3 (of_bool b') + push_bit 2 (of_bool c) + push_bit 1 (of_bool d) + of_bool e;
       ByteToBit (plus_ptr (a, k) (4 * i)) (drop (i * 64 + Y * 16 + X) S_Box) 4 (g i) }) = Some (g (Suc i))"
      using ld[of 0] ld[of 1] ld[of 2] ld[of 3] ld[of 4] ld[of 5]
      by (simp only: plus_ptr.simps add.assoc Let_def Option.bind.bind_lunit rel_simps simp_thms add_0_right r[unfolded add.assoc])
  qed simp
  then show ?thesis by (simp add: g_def v_def[abs_def] substitute_def)
qed

subsection \<open>The round function on bit lists\<close>

definition wf_bits :: "bits \<Rightarrow> bool" where
  "wf_bits st \<longleftrightarrow> (\<forall>a. length (st a) = array_size a)"

lemma wf_bits_length [simp]: "wf_bits st \<Longrightarrow> length (st a) = array_size a"
  by (simp add: wf_bits_def)

lemma wf_bits_update [simp]: "wf_bits st \<Longrightarrow> length xs = array_size a \<Longrightarrow> wf_bits (st(a := xs))"
  by (simp add: wf_bits_def)

lemma wf_bits_init: "wf_bits bits_init"
  by (simp add: wf_bits_def bits_init_def)

text \<open>The outcome of an operation that may only write the arrays of \<open>A\<close>.\<close>

definition yields :: "bits option \<Rightarrow> bits \<Rightarrow> arr set \<Rightarrow> (bits \<Rightarrow> bool) \<Rightarrow> bool" where
  "yields r st A Q \<longleftrightarrow> (\<exists>st'. r = Some st' \<and> wf_bits st' \<and> (\<forall>x. x \<notin> A \<longrightarrow> st' x = st x) \<and> Q st')"

lemma yieldsI:
  "r = Some st' \<Longrightarrow> wf_bits st' \<Longrightarrow> (\<And>x. x \<notin> A \<Longrightarrow> st' x = st x) \<Longrightarrow> Q st' \<Longrightarrow> yields r st A Q"
  by (simp add: yields_def)

lemma yieldsE:
  assumes "yields r st A Q"
  obtains st' where "r = Some st'" "wf_bits st'" "\<And>x. x \<notin> A \<Longrightarrow> st' x = st x" "Q st'"
proof -
  from assms obtain st' where "r = Some st'" "wf_bits st'" "\<forall>x. x \<notin> A \<longrightarrow> st' x = st x" "Q st'"
    unfolding yields_def by blast
  then show thesis by (intro that[of st']) simp_all
qed

lemma yields_update:
  "r = Some (st(a := ys)) \<Longrightarrow> wf_bits st \<Longrightarrow> length ys = array_size a \<Longrightarrow> yields r st {a} (\<lambda>st'. st' a = ys)"
  by (simp add: yields_def)

lemma yields_bind:
  assumes "yields r st A Q"
    "\<And>st'. wf_bits st' \<Longrightarrow> (\<And>x. x \<notin> A \<Longrightarrow> st' x = st x) \<Longrightarrow> Q st' \<Longrightarrow> yields (f st') st' B R"
    "A \<subseteq> C" "B \<subseteq> C"
  shows "yields (r \<bind> f) st C R"
proof -
  from assms(1) obtain st' where 1: "r = Some st'" "wf_bits st'" "\<forall>x. x \<notin> A \<longrightarrow> st' x = st x" "Q st'"
    unfolding yields_def by blast
  from assms(2)[OF 1(2) 1(3)[rule_format] 1(4)] obtain st'' where
    2: "f st' = Some st''" "wf_bits st''" "\<forall>x. x \<notin> B \<longrightarrow> st'' x = st' x" "R st''"
    unfolding yields_def by blast
  have "st'' x = st x" if "x \<notin> C" for x
  proof -
    from that assms(3,4) have "x \<notin> A" "x \<notin> B" by blast+
    then show ?thesis using 1(3) 2(3) by simp
  qed
  then show ?thesis
    by (intro yieldsI[where st' = st'']) (use 1 2 in simp_all)
qed

lemma yields_loop:
  assumes "wf_bits st" "G 0 st"
    "\<And>j s. j < n \<Longrightarrow> wf_bits s \<Longrightarrow> (\<And>x. x \<notin> A \<Longrightarrow> s x = st x) \<Longrightarrow> G j s \<Longrightarrow> yields (body j s) s A (G (Suc j))"
  shows "yields (for_up 0 n body st) st A (G n)"
proof -
  let ?I = "\<lambda>j s. wf_bits s \<and> (\<forall>x. x \<notin> A \<longrightarrow> s x = st x) \<and> G j s"
  have "\<exists>s'. for_up 0 n body st = Some s' \<and> ?I n s'"
  proof (rule for_up_inv[where I = ?I])
    fix j s assume j: "j < n" and I: "?I j s"
    then have "yields (body j s) s A (G (Suc j))" by (intro assms(3)) auto
    then obtain s' where "body j s = Some s'" "wf_bits s'" "\<forall>x. x \<notin> A \<longrightarrow> s' x = s x" "G (Suc j) s'"
      unfolding yields_def by blast
    then show "\<exists>s'. body j s = Some s' \<and> ?I (Suc j) s'" using I by auto
  qed (use assms in auto)
  then show ?thesis unfolding yields_def by blast
qed

definition xor_bits :: "bool list \<Rightarrow> bool list \<Rightarrow> bool list" where
  "xor_bits xs ys = map2 (\<noteq>) xs ys"

lemma length_xor_bits [simp]: "length (xor_bits xs ys) = min (length xs) (length ys)"
  by (simp add: xor_bits_def)

lemma xor_bits_cancel:
  "length xs = length ys \<Longrightarrow> xor_bits xs (xor_bits xs ys) = ys"
  by (rule nth_equalityI) (auto simp: xor_bits_def)

definition feistel :: "bool list \<Rightarrow> bool list \<Rightarrow> bool list" where
  "feistel R K = permute P_Table (substitute (xor_bits (permute E_Table R) K))"

lemma length_tables [simp]:
  "length IP_Table = 64" "length IPR_Table = 64" "length E_Table = 48" "length PC1_Table = 56"
  "length Move_Table = 16" "length PC2_Table = 48" "length P_Table = 32"
  by (simp_all add: IP_Table_def IPR_Table_def E_Table_def PC1_Table_def Move_Table_def PC2_Table_def P_Table_def)

lemma table_ranges:
  "list_all (\<lambda>t. 1 \<le> t \<and> t \<le> 64) IP_Table" "list_all (\<lambda>t. 1 \<le> t \<and> t \<le> 64) IPR_Table"
  "list_all (\<lambda>t. 1 \<le> t \<and> t \<le> 32) E_Table" "list_all (\<lambda>t. 1 \<le> t \<and> t \<le> 64) PC1_Table"
  "list_all (\<lambda>t. 1 \<le> t \<and> t \<le> 56) PC2_Table" "list_all (\<lambda>t. 1 \<le> t \<and> t \<le> 32) P_Table"
  by (simp_all add: IP_Table_def IPR_Table_def E_Table_def PC1_Table_def PC2_Table_def P_Table_def)

lemma length_substitute [simp]: "length (substitute xs) = 32"
  by (simp add: substitute_def)

lemma length_feistel [simp]: "length (feistel R K) = 32"
  by (simp add: feistel_def)

lemma TablePermute_yields:
  assumes "wf_bits st" "length T = n" "n \<le> 256" "list_all (\<lambda>t. 1 \<le> t \<and> t \<le> m) T"
    "a \<noteq> Permute_Temp" "b \<noteq> Permute_Temp" "l + m \<le> array_size b" "k + n \<le> array_size a"
  shows "yields (TablePermute (a, k) (b, l) T n st) st {Permute_Temp, a}
    (\<lambda>st'. st' a = overlay (st a) k (permute T (take m (drop l (st b)))))"
  by (rule yieldsI, rule TablePermute_eq[where m = m]) (use assms in auto)

lemma F_Change_yields:
  assumes wf: "wf_bits st" and k: "k + 32 \<le> array_size a" and j: "j < 16"
    and a: "a \<noteq> Permute_Temp" "a \<noteq> MiR" "a \<noteq> SubKey j"
  shows "yields (F_Change (a, k) (SubKey j, 0) st) st {Permute_Temp, MiR, a}
    (\<lambda>st'. st' a = overlay (st a) k (feistel (take 32 (drop k (st a))) (st (SubKey j))))"
proof -
  let ?R = "take 32 (drop k (st a))" and ?K = "st (SubKey j)"
  let ?x = "xor_bits (permute E_Table ?R) ?K"
  have "yields (TablePermute (MiR, 0) (a, k) E_Table 48 st) st {Permute_Temp, MiR}
      (\<lambda>st'. st' MiR = permute E_Table ?R)"
    using TablePermute_yields[OF wf, of E_Table 48 32 MiR a k 0] wf k a table_ranges by simp
  then show ?thesis
    unfolding F_Change_def
  proof (rule yields_bind)
    fix s1 assume s1: "wf_bits s1" "\<And>x. x \<notin> {Permute_Temp, MiR} \<Longrightarrow> s1 x = st x"
      "s1 MiR = permute E_Table ?R"
    have "Xor (MiR, 0) (SubKey j, 0) 48 s1 = Some (s1(MiR := ?x))"
      using s1 wf j by (subst Xor_eq) (simp_all add: xor_bits_def)
    then have "yields (Xor (MiR, 0) (SubKey j, 0) 48 s1) s1 {MiR} (\<lambda>st'. st' MiR = ?x)"
      by (rule yields_update) (use s1 wf j in simp_all)
    then show "yields (do { st \<leftarrow> Xor (MiR, 0) (SubKey j, 0) 48 s1; st \<leftarrow> S_Change (a, k) (MiR, 0) st;
        TablePermute (a, k) (a, k) P_Table 32 st }) s1 {Permute_Temp, MiR, a}
        (\<lambda>st'. st' a = overlay (st a) k (feistel ?R ?K))"
    proof (rule yields_bind)
      fix s2 assume s2: "wf_bits s2" "\<And>x. x \<notin> {MiR} \<Longrightarrow> s2 x = s1 x" "s2 MiR = ?x"
      have sa: "s2 a = st a" using s1(2)[of a] s2(2)[of a] a by simp
      have "S_Change (a, k) (MiR, 0) s2 = Some (s2(a := overlay (st a) k (substitute ?x)))"
        using s2 wf k a j sa by (subst S_Change_eq) simp_all
      then have "yields (S_Change (a, k) (MiR, 0) s2) s2 {a} (\<lambda>st'. st' a = overlay (st a) k (substitute ?x))"
        by (rule yields_update) (use s2 wf k in simp_all)
      then show "yields (do { st \<leftarrow> S_Change (a, k) (MiR, 0) s2; TablePermute (a, k) (a, k) P_Table 32 st }) s2
          {Permute_Temp, a} (\<lambda>st'. st' a = overlay (st a) k (feistel ?R ?K))"
      proof (rule yields_bind)
        fix s3 assume s3: "wf_bits s3" "s3 a = overlay (st a) k (substitute ?x)"
        have "take 32 (drop k (s3 a)) = substitute ?x"
          using wf k by (simp add: s3 overlay_def)
        moreover have "overlay (s3 a) k ys = overlay (st a) k ys" if "length ys = 32" for ys
          using that wf k by (simp add: s3 overlay_def)
        ultimately show "yields (TablePermute (a, k) (a, k) P_Table 32 s3) s3 {Permute_Temp, a}
            (\<lambda>st'. st' a = overlay (st a) k (feistel ?R ?K))"
          using TablePermute_yields[OF s3(1), of P_Table 32 32 a a k k] wf k a table_ranges
          by (simp add: feistel_def)
      qed auto
    qed auto
  qed auto
qed

subsection \<open>Rounds\<close>

definition des_round :: "bool list \<Rightarrow> bool list \<Rightarrow> bool list" where
  "des_round K xs = drop 32 xs @ xor_bits (feistel (drop 32 xs) K) (take 32 xs)"

definition des_unround :: "bool list \<Rightarrow> bool list \<Rightarrow> bool list" where
  "des_unround K xs = xor_bits (feistel (take 32 xs) K) (drop 32 xs) @ take 32 xs"

lemma length_des_round [simp]: "length xs = 64 \<Longrightarrow> length (des_round K xs) = 64"
  by (simp add: des_round_def)

lemma length_des_unround [simp]: "length xs = 64 \<Longrightarrow> length (des_unround K xs) = 64"
  by (simp add: des_unround_def)

lemma des_unround_round: "length xs = 64 \<Longrightarrow> des_unround K (des_round K xs) = xs"
  by (simp add: des_unround_def des_round_def xor_bits_cancel)

lemma length_fold_round [simp]: "length xs = 64 \<Longrightarrow> length (fold des_round Ks xs) = 64"
  by (induction Ks arbitrary: xs) simp_all

lemma fold_unround:
  "length xs = 64 \<Longrightarrow> fold des_unround (rev Ks) (fold des_round Ks xs) = xs"
  by (induction Ks arbitrary: xs) (simp_all add: des_unround_round)

abbreviation round_keys :: "bits \<Rightarrow> bool list list" where
  "round_keys st \<equiv> map (\<lambda>i. st (SubKey i)) [0..<16]"

lemma play_round_yields:
  assumes wf: "wf_bits st" and i: "i < 16"
  shows "yields (play_round i st) st {Play_Bit, Play_Temp, Permute_Temp, MiR}
    (\<lambda>st'. st' Play_Bit = des_round (st (SubKey i)) (st Play_Bit))"
proof -
  let ?xs = "st Play_Bit" and ?K = "st (SubKey i)"
  let ?F = "feistel (drop 32 ?xs) ?K"
  have "BitsCopy (Play_Temp, 0) (Play_Bit, 32) 32 st = Some (st(Play_Temp := drop 32 ?xs))"
    using wf by (subst BitsCopy_eq) simp_all
  then have "yields (BitsCopy (Play_Temp, 0) (Play_Bit, 32) 32 st) st {Play_Temp}
      (\<lambda>st'. st' Play_Temp = drop 32 ?xs)"
    by (rule yields_update) (use wf in simp_all)
  then show ?thesis
    unfolding play_round_def
  proof (rule yields_bind)
    fix s1 assume s1: "wf_bits s1" "\<And>x. x \<notin> {Play_Temp} \<Longrightarrow> s1 x = st x" "s1 Play_Temp = drop 32 ?xs"
    have "yields (F_Change (Play_Bit, 32) (SubKey i, 0) s1) s1 {Permute_Temp, MiR, Play_Bit}
        (\<lambda>st'. st' Play_Bit = overlay ?xs 32 ?F)"
      using F_Change_yields[OF s1(1), of 32 Play_Bit i] i s1(2)[of Play_Bit] s1(2)[of "SubKey i"] wf by simp
    then show "yields (do { st \<leftarrow> F_Change (Play_Bit, 32) (SubKey i, 0) s1;
        st \<leftarrow> Xor (Play_Bit, 32) (Play_Bit, 0) 32 st; BitsCopy (Play_Bit, 0) (Play_Temp, 0) 32 st })
        s1 {Permute_Temp, MiR, Play_Bit} (\<lambda>st'. st' Play_Bit = des_round ?K ?xs)"
    proof (rule yields_bind)
      fix s2 assume s2: "wf_bits s2" "\<And>x. x \<notin> {Permute_Temp, MiR, Play_Bit} \<Longrightarrow> s2 x = s1 x"
        "s2 Play_Bit = overlay ?xs 32 ?F"
      let ?ys = "overlay ?xs 32 (xor_bits ?F (take 32 ?xs))"
      have "Xor (Play_Bit, 32) (Play_Bit, 0) 32 s2 = Some (s2(Play_Bit := ?ys))"
        using s2 wf by (subst Xor_eq) (simp_all add: overlay_def xor_bits_def)
      then have "yields (Xor (Play_Bit, 32) (Play_Bit, 0) 32 s2) s2 {Play_Bit} (\<lambda>st'. st' Play_Bit = ?ys)"
        by (rule yields_update) (use s2 wf in simp_all)
      then show "yields (do { st \<leftarrow> Xor (Play_Bit, 32) (Play_Bit, 0) 32 s2; BitsCopy (Play_Bit, 0) (Play_Temp, 0) 32 st })
          s2 {Play_Bit} (\<lambda>st'. st' Play_Bit = des_round ?K ?xs)"
      proof (rule yields_bind)
        fix s3 assume s3: "wf_bits s3" "\<And>x. x \<notin> {Play_Bit} \<Longrightarrow> s3 x = s2 x" "s3 Play_Bit = ?ys"
        have t: "s3 Play_Temp = drop 32 ?xs"
          using s3(2)[of Play_Temp] s2(2)[of Play_Temp] s1(3) by simp
        have "BitsCopy (Play_Bit, 0) (Play_Temp, 0) 32 s3 = Some (s3(Play_Bit := des_round ?K ?xs))"
          using s3 wf t by (subst BitsCopy_eq) (simp_all add: overlay_def des_round_def)
        then show "yields (BitsCopy (Play_Bit, 0) (Play_Temp, 0) 32 s3) s3 {Play_Bit}
            (\<lambda>st'. st' Play_Bit = des_round ?K ?xs)"
          by (rule yields_update) (use s3 wf in simp_all)
      qed auto
    qed auto
  qed auto
qed

lemma kick_round_yields:
  assumes wf: "wf_bits st" and i: "i < 16"
  shows "yields (kick_round i st) st {Kick_Bit, Kick_Temp, Permute_Temp, MiR}
    (\<lambda>st'. st' Kick_Bit = des_unround (st (SubKey i)) (st Kick_Bit))"
proof -
  let ?xs = "st Kick_Bit" and ?K = "st (SubKey i)"
  let ?F = "feistel (take 32 ?xs) ?K"
  have "BitsCopy (Kick_Temp, 0) (Kick_Bit, 0) 32 st = Some (st(Kick_Temp := take 32 ?xs))"
    using wf by (subst BitsCopy_eq) simp_all
  then have "yields (BitsCopy (Kick_Temp, 0) (Kick_Bit, 0) 32 st) st {Kick_Temp}
      (\<lambda>st'. st' Kick_Temp = take 32 ?xs)"
    by (rule yields_update) (use wf in simp_all)
  then show ?thesis
    unfolding kick_round_def
  proof (rule yields_bind)
    fix s1 assume s1: "wf_bits s1" "\<And>x. x \<notin> {Kick_Temp} \<Longrightarrow> s1 x = st x" "s1 Kick_Temp = take 32 ?xs"
    have "yields (F_Change (Kick_Bit, 0) (SubKey i, 0) s1) s1 {Permute_Temp, MiR, Kick_Bit}
        (\<lambda>st'. st' Kick_Bit = overlay ?xs 0 ?F)"
      using F_Change_yields[OF s1(1), of 0 Kick_Bit i] i s1(2)[of Kick_Bit] s1(2)[of "SubKey i"] wf by simp
    then show "yields (do { st \<leftarrow> F_Change (Kick_Bit, 0) (SubKey i, 0) s1;
        st \<leftarrow> Xor (Kick_Bit, 0) (Kick_Bit, 32) 32 st; BitsCopy (Kick_Bit, 32) (Kick_Temp, 0) 32 st })
        s1 {Permute_Temp, MiR, Kick_Bit} (\<lambda>st'. st' Kick_Bit = des_unround ?K ?xs)"
    proof (rule yields_bind)
      fix s2 assume s2: "wf_bits s2" "\<And>x. x \<notin> {Permute_Temp, MiR, Kick_Bit} \<Longrightarrow> s2 x = s1 x"
        "s2 Kick_Bit = overlay ?xs 0 ?F"
      let ?ys = "overlay ?xs 0 (xor_bits ?F (drop 32 ?xs))"
      have "Xor (Kick_Bit, 0) (Kick_Bit, 32) 32 s2 = Some (s2(Kick_Bit := ?ys))"
        using s2 wf by (subst Xor_eq) (simp_all add: overlay_def xor_bits_def)
      then have "yields (Xor (Kick_Bit, 0) (Kick_Bit, 32) 32 s2) s2 {Kick_Bit} (\<lambda>st'. st' Kick_Bit = ?ys)"
        by (rule yields_update) (use s2 wf in simp_all)
      then show "yields (do { st \<leftarrow> Xor (Kick_Bit, 0) (Kick_Bit, 32) 32 s2; BitsCopy (Kick_Bit, 32) (Kick_Temp, 0) 32 st })
          s2 {Kick_Bit} (\<lambda>st'. st' Kick_Bit = des_unround ?K ?xs)"
      proof (rule yields_bind)
        fix s3 assume s3: "wf_bits s3" "\<And>x. x \<notin> {Kick_Bit} \<Longrightarrow> s3 x = s2 x" "s3 Kick_Bit = ?ys"
        have t: "s3 Kick_Temp = take 32 ?xs"
          using s3(2)[of Kick_Temp] s2(2)[of Kick_Temp] s1(3) by simp
        have "BitsCopy (Kick_Bit, 32) (Kick_Temp, 0) 32 s3 = Some (s3(Kick_Bit := des_unround ?K ?xs))"
          using s3 wf t by (subst BitsCopy_eq) (simp_all add: overlay_def des_unround_def)
        then show "yields (BitsCopy (Kick_Bit, 32) (Kick_Temp, 0) 32 s3) s3 {Kick_Bit}
            (\<lambda>st'. st' Kick_Bit = des_unround ?K ?xs)"
          by (rule yields_update) (use s3 wf in simp_all)
      qed auto
    qed auto
  qed auto
qed

subsection \<open>Bytes and hexadecimal digits\<close>

lemma wr_loop:
  assumes "\<And>i. i < n \<Longrightarrow> body i (overlay out 0 (map v [0..<i])) = wr (overlay out 0 (map v [0..<i])) i (v i)"
    and "n \<le> length out"
  shows "for_up 0 n body out = Some (overlay out 0 (map v [0..<n]))"
proof -
  have "for_up 0 n body (overlay out 0 (map v [0..<0])) = Some (overlay out 0 (map v [0..<n]))"
  proof (rule for_up_eq[where g = "\<lambda>i. overlay out 0 (map v [0..<i])"])
    fix j assume j: "j < n"
    show "body j (overlay out 0 (map v [0..<j])) = Some (overlay out 0 (map v [0..<Suc j]))"
      using assms j overlay_snoc[of 0 "map v [0..<j]" out "v j"] by simp
  qed simp
  then show ?thesis by simp
qed

definition hex_char :: "bool \<Rightarrow> bool \<Rightarrow> bool \<Rightarrow> bool \<Rightarrow> u8" where
  "hex_char b0 b1 b2 b3 = (let c = of_bool b0 + push_bit 1 (of_bool b1) + push_bit 2 (of_bool b2) + push_bit 3 (of_bool b3)
     in if c mod 16 > 9 then c mod 16 + 55 else c mod 16 + 48)"

definition hex_chars :: "bool list \<Rightarrow> u8 list" where
  "hex_chars xs = map (\<lambda>i. hex_char (xs ! (i * 4)) (xs ! (i * 4 + 1)) (xs ! (i * 4 + 2)) (xs ! (i * 4 + 3))) [0..<16]"

definition hex_bit :: "u8 \<Rightarrow> nat \<Rightarrow> bool" where
  "hex_bit c i = (if sint c > 57 then bit (int_of_char c - 55) i else bit (int_of_char c - 48) i)"

definition hex_bits :: "u8 list \<Rightarrow> bool list" where
  "hex_bits cs = map (\<lambda>i. hex_bit (cs ! (i div 4)) (i mod 4)) [0..<64]"

lemma length_hex [simp]: "length (hex_chars xs) = 16" "length (hex_bits cs) = 64"
  by (simp_all add: hex_chars_def hex_bits_def)

lemma hex_chars_all:
  "list_all (\<lambda>b0. list_all (\<lambda>b1. list_all (\<lambda>b2. list_all (\<lambda>b3.
     let c = hex_char b0 b1 b2 b3 in
       map (hex_bit c) [0, 1, 2, 3] = [b0, b1, b2, b3] \<and> c \<in> set [48,49,50,51,52,53,54,55,56,57,65,66,67,68,69,70])
     [False, True]) [False, True]) [False, True]) [False, True]"
  by code_simp

lemma hex_char_facts:
  "map (hex_bit (hex_char b0 b1 b2 b3)) [0, 1, 2, 3] = [b0, b1, b2, b3]
    \<and> hex_char b0 b1 b2 b3 \<in> set [48,49,50,51,52,53,54,55,56,57,65,66,67,68,69,70]"
proof -
  have bool: "b \<in> set [False, True]" for b by simp
  show ?thesis
    using hex_chars_all bool[of b0] bool[of b1] bool[of b2] bool[of b3]
    unfolding list_all_iff Let_def by blast
qed

lemma hex_bit_char:
  "hex_bit (hex_char b0 b1 b2 b3) 0 = b0" "hex_bit (hex_char b0 b1 b2 b3) 1 = b1"
  "hex_bit (hex_char b0 b1 b2 b3) 2 = b2" "hex_bit (hex_char b0 b1 b2 b3) 3 = b3"
  using hex_char_facts[of b0 b1 b2 b3] by simp_all

lemmas hex_char_digit = hex_char_facts[THEN conjunct2]

lemma hex_bit_nth:
  "r < 4 \<Longrightarrow> hex_bit (hex_char (xs ! (q * 4)) (xs ! (q * 4 + 1)) (xs ! (q * 4 + 2)) (xs ! (q * 4 + 3))) r
    = xs ! (q * 4 + r)"
proof -
  assume "r < 4"
  then have "r = 0 \<or> r = 1 \<or> r = 2 \<or> r = 3" by linarith
  then show ?thesis by (elim disjE) (simp_all only: hex_bit_char add_0_right)
qed

lemma hex_bits_chars:
  assumes "length xs = 64"
  shows "hex_bits (hex_chars xs @ cs) = xs"
proof (rule nth_equalityI)
  fix i assume "i < length (hex_bits (hex_chars xs @ cs))"
  then have i: "i < 64" by simp
  then have "i div 4 < 16" by simp
  then have "hex_bits (hex_chars xs @ cs) ! i = hex_bit (hex_chars xs ! (i div 4)) (i mod 4)"
    using i by (simp add: hex_bits_def nth_append)
  also have "hex_chars xs ! (i div 4) = hex_char (xs ! (i div 4 * 4)) (xs ! (i div 4 * 4 + 1))
      (xs ! (i div 4 * 4 + 2)) (xs ! (i div 4 * 4 + 3))"
    using \<open>i div 4 < 16\<close> by (simp add: hex_chars_def)
  also have "hex_bit \<dots> (i mod 4) = xs ! i"
    using hex_bit_nth[of "i mod 4" xs "i div 4"] by simp
  finally show "hex_bits (hex_chars xs @ cs) ! i = xs ! i" .
qed (simp add: assms)

lemma BitToHex_eq:
  assumes "length (st a) = 64" "16 \<le> length out"
  shows "BitToHex out (a, 0) 64 st = Some (hex_chars (st a) @ drop 16 out)"
proof -
  have zero: "for_up 0 16 (\<lambda>i out. wr out i 0) out = Some (overlay out 0 (map (\<lambda>_. 0) [0..<16]))"
    by (rule wr_loop) (use assms in auto)
  let ?out = "overlay out 0 (map (\<lambda>_. 0) [0..<16])"
  have "for_up 0 16 (\<lambda>i out. do {
       b0 \<leftarrow> load st (plus_ptr (a, 0) (i * 4));
       b1 \<leftarrow> load st (plus_ptr (a, 0) (i * 4 + 1));
       b2 \<leftarrow> load st (plus_ptr (a, 0) (i * 4 + 2));
       b3 \<leftarrow> load st (plus_ptr (a, 0) (i * 4 + 3));
       let c = of_bool b0 + push_bit 1 (of_bool b1) + push_bit 2 (of_bool b2) + push_bit 3 (of_bool b3);
       wr out i (if c mod 16 > 9 then c mod 16 + 55 else c mod 16 + 48) }) ?out
     = Some (overlay ?out 0 (hex_chars (st a)))"
    unfolding hex_chars_def
  proof (rule wr_loop)
    fix i :: nat assume i: "i < 16"
    then have ld: "load st (a, 0 + (i * 4 + j)) = Some (st a ! (i * 4 + j))" if "j < 4" for j
      using that assms(1) by simp
    show "(do {
       b0 \<leftarrow> load st (plus_ptr (a, 0) (i * 4));
       b1 \<leftarrow> load st (plus_ptr (a, 0) (i * 4 + 1));
       b2 \<leftarrow> load st (plus_ptr (a, 0) (i * 4 + 2));
       b3 \<leftarrow> load st (plus_ptr (a, 0) (i * 4 + 3));
       let c = of_bool b0 + push_bit 1 (of_bool b1) + push_bit 2 (of_bool b2) + push_bit 3 (of_bool b3);
       wr (f i) i (if c mod 16 > 9 then c mod 16 + 55 else c mod 16 + 48) })
      = wr (f i) i (hex_char (st a ! (i * 4)) (st a ! (i * 4 + 1)) (st a ! (i * 4 + 2)) (st a ! (i * 4 + 3)))"
      for f
      using ld[of 0] ld[of 1] ld[of 2] ld[of 3]
      by (simp only: plus_ptr.simps add_0_right Option.bind.bind_lunit Let_def hex_char_def rel_simps simp_thms)
  qed (use assms in simp)
  moreover have "overlay ?out 0 (hex_chars (st a)) = hex_chars (st a) @ drop 16 out"
    using assms by (simp add: overlay_def)
  ultimately show ?thesis using zero by (simp add: BitToHex_def)
qed

lemma HexToBit_eq:
  assumes "length (st a) = 64" "16 \<le> length cs"
  shows "HexToBit (a, 0) cs 64 st = Some (st(a := hex_bits cs))"
proof -
  have "HexToBit (a, 0) cs 64 st = Some (st(a := overlay (st a) 0 (map (\<lambda>i. hex_bit (cs ! (i div 4)) (i mod 4)) [0..<64])))"
    unfolding HexToBit_def
    by (rule store_loop) (use assms in \<open>auto simp: hex_bit_def simp del: store.simps\<close>)
  then show ?thesis using assms by (simp add: hex_bits_def)
qed

lemma BitToByte_eq:
  assumes "length (st a) = 64" "8 \<le> length out" "8 \<le> length cs" "st a = byte_bits cs 64"
  shows "BitToByte out (a, 0) 64 st = Some (take 8 cs @ drop 8 out)"
proof -
  have zero: "for_up 0 8 (\<lambda>i out. wr out i 0) out = Some (overlay out 0 (map (\<lambda>_. 0) [0..<8]))"
    by (rule wr_loop) (use assms in auto)
  let ?out = "overlay out 0 (map (\<lambda>_. 0) [0..<8])"
  let ?I = "\<lambda>i xs. length xs = length out \<and> drop 8 xs = drop 8 out
    \<and> (\<forall>j<8. \<forall>k<8. bit (xs ! j) k \<longleftrightarrow> 8 * j + k < i \<and> bit (cs ! j) k)"
  have "\<exists>r. for_up 0 64 (\<lambda>i out. do {
       b \<leftarrow> load st (plus_ptr (a, 0) i);
       c \<leftarrow> rd out (i div 8);
       wr out (i div 8) (or c (push_bit (i mod 8) (of_bool b))) }) ?out = Some r \<and> ?I 64 r"
  proof (rule for_up_inv[where I = ?I])
    show "?I 0 ?out"
      using assms(2) by (auto simp: overlay_def nth_append)
  next
    fix i :: nat and xs :: "u8 list" assume i: "i < 64" and I: "?I i xs"
    have d: "i div 8 < 8" "i = 8 * (i div 8) + i mod 8" using i by simp_all
    have b: "st a ! i = bit (cs ! (i div 8)) (i mod 8)"
      using i assms(4) by (simp add: byte_bits_def)
    let ?x = "or (xs ! (i div 8)) (push_bit (i mod 8) (of_bool (st a ! i)))"
    have "bit ((xs[i div 8 := ?x]) ! j) k \<longleftrightarrow> 8 * j + k < Suc i \<and> bit (cs ! j) k"
      if jk: "j < 8" "k < 8" for j k
    proof (cases "j = i div 8")
      case True
      have "bit ?x k \<longleftrightarrow> bit (xs ! j) k \<or> k = i mod 8 \<and> st a ! i"
        using jk True by (auto simp: bit_simps)
      also have "\<dots> \<longleftrightarrow> 8 * j + k < Suc i \<and> bit (cs ! j) k"
      proof (cases "k = i mod 8")
        case True
        then show ?thesis using I jk \<open>j = i div 8\<close> b d(2) by auto
      next
        case False
        then have "8 * j + k < Suc i \<longleftrightarrow> 8 * j + k < i" using d(2) \<open>j = i div 8\<close> by linarith
        then show ?thesis using I jk False by simp
      qed
      finally show ?thesis using True I d assms(2) by simp
    next
      case False
      then have "8 * j + k < Suc i \<longleftrightarrow> 8 * j + k < i" using jk by auto
      then show ?thesis using False I jk by simp
    qed
    then have "?I (Suc i) (xs[i div 8 := ?x])" using I d by (simp add: drop_update_cancel)
    then show "\<exists>r. (do {
       b \<leftarrow> load st (plus_ptr (a, 0) i);
       c \<leftarrow> rd xs (i div 8);
       wr xs (i div 8) (or c (push_bit (i mod 8) (of_bool b))) }) = Some r \<and> ?I (Suc i) r"
      using i d I assms(1,2) by simp
  qed simp
  then obtain r where r: "for_up 0 64 (\<lambda>i out. do {
       b \<leftarrow> load st (plus_ptr (a, 0) i);
       c \<leftarrow> rd out (i div 8);
       wr out (i div 8) (or c (push_bit (i mod 8) (of_bool b))) }) ?out = Some r" "?I 64 r" by blast
  have "r = take 8 cs @ drop 8 out"
  proof (rule nth_equalityI)
    show "length r = length (take 8 cs @ drop 8 out)" using r(2) assms by simp
    fix j assume j: "j < length r"
    show "r ! j = (take 8 cs @ drop 8 out) ! j"
    proof (cases "j < 8")
      case True
      then have "r ! j = cs ! j"
        using r(2) by (intro bit_word_eqI) auto
      then show ?thesis using True assms by (simp add: nth_append)
    next
      case False
      have "r ! j = drop 8 r ! (j - 8)" using False j by simp
      also have "drop 8 r = drop 8 out" using r(2) by blast
      finally show ?thesis using False assms r(2) j by (simp add: nth_append min_absorb2)
    qed
  qed
  then show ?thesis using zero r(1) by (simp add: BitToByte_def)
qed

subsection \<open>The key schedule\<close>

definition rotation :: "nat \<Rightarrow> nat" where
  "rotation i = sum_list (take i Move_Table)"

definition half_key :: "u8 list \<Rightarrow> nat \<Rightarrow> bool list" where
  "half_key key k = take 28 (drop k (permute PC1_Table (byte_bits key 64)))"

definition sub_key :: "u8 list \<Rightarrow> nat \<Rightarrow> bool list" where
  "sub_key key i = permute PC2_Table
     (rotate (rotation (Suc i)) (half_key key 0) @ rotate (rotation (Suc i)) (half_key key 28))"

lemma length_byte_bits [simp]: "length (byte_bits cs n) = n"
  by (simp add: byte_bits_def)

lemma length_half_key [simp]: "k \<le> 28 \<Longrightarrow> length (half_key key k) = 28"
  by (simp add: half_key_def)

lemma Move_Table_bound: "i < 16 \<Longrightarrow> Move_Table ! i \<le> 2"
proof -
  have "list_all (\<lambda>n. n \<le> 2) Move_Table" by (simp add: Move_Table_def)
  then show "i < 16 \<Longrightarrow> Move_Table ! i \<le> 2" by (simp add: list_all_length)
qed

lemma rotation_Suc: "i < 16 \<Longrightarrow> rotation (Suc i) = rotation i + Move_Table ! i"
  by (simp add: rotation_def take_Suc_conv_app_nth)

lemma LoopMove_yields:
  assumes wf: "wf_bits st" and "n \<le> 2" "k + 28 \<le> array_size a" "a \<noteq> Move_Temp"
  shows "yields (LoopMove (a, k) 28 n st) st {Move_Temp, a}
    (\<lambda>st'. st' a = overlay (st a) k (rotate n (take 28 (drop k (st a)))))"
proof (rule yieldsI)
  show "LoopMove (a, k) 28 n st
      = Some (st(Move_Temp := overlay (st Move_Temp) 0 (take n (take 28 (drop k (st a)))),
          a := overlay (st a) k (rotate n (take 28 (drop k (st a))))))"
  proof -
    have "n mod 28 = n" using assms(2) by simp
    then have "rotate n (take 28 (drop k (st a))) = drop n (take 28 (drop k (st a))) @ take n (take 28 (drop k (st a)))"
      using assms by (simp only: rotate_drop_take) simp
    then show ?thesis using assms by (simp only:) (rule LoopMove_eq, simp_all)
  qed
qed (use assms in auto)

lemma key_round_yields:
  assumes wf: "wf_bits st" and i: "i < 16"
    and C: "length C = 28" "length D = 28" "st KeyBit = C @ D @ E"
  shows "yields (key_round i st) st {KeyBit, Move_Temp, Permute_Temp, SubKey i}
    (\<lambda>st'. st' KeyBit = rotate (Move_Table ! i) C @ rotate (Move_Table ! i) D @ E
         \<and> st' (SubKey i) = permute PC2_Table (rotate (Move_Table ! i) C @ rotate (Move_Table ! i) D))"
proof -
  let ?n = "Move_Table ! i"
  have E: "length E = 8" using wf_bits_length[OF wf, of KeyBit] C by simp
  have "yields (LoopMove (KeyBit, 0) 28 ?n st) st {Move_Temp, KeyBit}
      (\<lambda>st'. st' KeyBit = rotate ?n C @ D @ E)"
    using LoopMove_yields[OF wf Move_Table_bound[OF i], of 0 KeyBit] C by (simp add: overlay_def)
  then have "yields (do {
       st \<leftarrow> LoopMove (KeyBit, 0) 28 ?n st;
       st \<leftarrow> LoopMove (KeyBit, 28) 28 ?n st;
       TablePermute (SubKey i, 0) (KeyBit, 0) PC2_Table 48 st }) st {KeyBit, Move_Temp, Permute_Temp, SubKey i}
    (\<lambda>st'. st' KeyBit = rotate ?n C @ rotate ?n D @ E
         \<and> st' (SubKey i) = permute PC2_Table (rotate ?n C @ rotate ?n D))"
  proof (rule yields_bind)
    fix s1 assume s1: "wf_bits s1" "s1 KeyBit = rotate ?n C @ D @ E"
    have "yields (LoopMove (KeyBit, 28) 28 ?n s1) s1 {Move_Temp, KeyBit}
        (\<lambda>st'. st' KeyBit = rotate ?n C @ rotate ?n D @ E)"
      using LoopMove_yields[OF s1(1) Move_Table_bound[OF i], of 28 KeyBit] C s1(2) by (simp add: overlay_def)
    then show "yields (do {
       st \<leftarrow> LoopMove (KeyBit, 28) 28 ?n s1;
       TablePermute (SubKey i, 0) (KeyBit, 0) PC2_Table 48 st }) s1 {KeyBit, Move_Temp, Permute_Temp, SubKey i}
      (\<lambda>st'. st' KeyBit = rotate ?n C @ rotate ?n D @ E
           \<and> st' (SubKey i) = permute PC2_Table (rotate ?n C @ rotate ?n D))"
    proof (rule yields_bind)
      fix s2 assume s2: "wf_bits s2" "s2 KeyBit = rotate ?n C @ rotate ?n D @ E"
      have "yields (TablePermute (SubKey i, 0) (KeyBit, 0) PC2_Table 48 s2) s2 {Permute_Temp, SubKey i}
          (\<lambda>st'. st' (SubKey i) = permute PC2_Table (rotate ?n C @ rotate ?n D))"
        using TablePermute_yields[OF s2(1), of PC2_Table 48 56 "SubKey i" KeyBit 0 0] table_ranges(5) i s2 C by simp
      then show "yields (TablePermute (SubKey i, 0) (KeyBit, 0) PC2_Table 48 s2) s2 {Permute_Temp, SubKey i}
         (\<lambda>st'. st' KeyBit = rotate ?n C @ rotate ?n D @ E
           \<and> st' (SubKey i) = permute PC2_Table (rotate ?n C @ rotate ?n D))"
        using s2(2) unfolding yields_def by auto
    qed auto
  qed auto
  then show ?thesis using i by (simp add: key_round_def)
qed

lemma SetKey_yields:
  assumes wf: "wf_bits st" and key: "8 \<le> length key"
  shows "yields (SetKey key st) st ({KeyBit, Move_Temp, Permute_Temp} \<union> range SubKey)
    (\<lambda>st'. round_keys st' = map (sub_key key) [0..<16])"
proof -
  let ?A = "{KeyBit, Move_Temp, Permute_Temp} \<union> range SubKey"
  let ?C = "\<lambda>i. rotate (rotation i) (half_key key 0)" and ?D = "\<lambda>i. rotate (rotation i) (half_key key 28)"
  let ?G = "\<lambda>i s. take 56 (s KeyBit) = ?C i @ ?D i \<and> (\<forall>j<i. s (SubKey j) = sub_key key j)"
  have "ByteToBit (KeyBit, 0) key 64 st = Some (st(KeyBit := byte_bits key 64))"
    using wf key by (subst ByteToBit_eq) simp_all
  then have "yields (ByteToBit (KeyBit, 0) key 64 st) st {KeyBit} (\<lambda>st'. st' KeyBit = byte_bits key 64)"
    by (rule yields_update) (use wf in simp_all)
  then have "yields (SetKey key st) st ?A (?G 16)"
    unfolding SetKey_def
  proof (rule yields_bind)
    fix s1 assume s1: "wf_bits s1" "s1 KeyBit = byte_bits key 64"
    have "yields (TablePermute (KeyBit, 0) (KeyBit, 0) PC1_Table 56 s1) s1 {Permute_Temp, KeyBit}
        (\<lambda>st'. st' KeyBit = overlay (byte_bits key 64) 0 (permute PC1_Table (byte_bits key 64)))"
      using TablePermute_yields[OF s1(1), of PC1_Table 56 64 KeyBit KeyBit 0 0] table_ranges(4) s1 by simp
    then show "yields (do { st \<leftarrow> TablePermute (KeyBit, 0) (KeyBit, 0) PC1_Table 56 s1;
        for_up 0 16 key_round st }) s1 ?A (?G 16)"
    proof (rule yields_bind)
      fix s2 assume s2: "wf_bits s2"
        "s2 KeyBit = overlay (byte_bits key 64) 0 (permute PC1_Table (byte_bits key 64))"
      show "yields (for_up 0 16 key_round s2) s2 ?A (?G 16)"
      proof (rule yields_loop)
        have "permute PC1_Table (byte_bits key 64) = half_key key 0 @ half_key key 28"
          by (simp add: half_key_def)
        then show "?G 0 s2" by (simp add: s2(2) overlay_def rotation_def)
      next
        fix i s assume i: "i < 16" and s: "wf_bits s" "?G i s"
        let ?n = "Move_Table ! i"
        have kb: "s KeyBit = ?C i @ ?D i @ drop 56 (s KeyBit)"
          using s(2) append_take_drop_id[of 56 "s KeyBit"] by (metis append.assoc)
        have r: "rotate ?n (?C i) = ?C (Suc i)" "rotate ?n (?D i) = ?D (Suc i)"
          using i by (simp_all add: rotate_rotate rotation_Suc add.commute)
        have "yields (key_round i s) s {KeyBit, Move_Temp, Permute_Temp, SubKey i}
          (\<lambda>st'. st' KeyBit = ?C (Suc i) @ ?D (Suc i) @ drop 56 (s KeyBit) \<and> st' (SubKey i) = sub_key key i)"
          using key_round_yields[OF s(1) i _ _ kb] by (simp add: r sub_key_def)
        then obtain s' where s': "key_round i s = Some s'" "wf_bits s'"
          "\<forall>x. x \<notin> {KeyBit, Move_Temp, Permute_Temp, SubKey i} \<longrightarrow> s' x = s x"
          "s' KeyBit = ?C (Suc i) @ ?D (Suc i) @ drop 56 (s KeyBit)" "s' (SubKey i) = sub_key key i"
          unfolding yields_def by blast
        have "?G (Suc i) s'"
          using s'(3-5) s(2) by (auto simp: less_Suc_eq)
        then show "yields (key_round i s) s ?A (?G (Suc i))"
          using s'(1-3) unfolding yields_def by (intro exI[of _ s']) auto
      qed (rule s2(1))
    qed auto
  qed auto
  then show ?thesis unfolding yields_def by auto
qed

subsection \<open>Encryption and decryption\<close>

definition des_cipher :: "bool list list \<Rightarrow> bool list \<Rightarrow> bool list" where
  "des_cipher Ks xs = permute IPR_Table (fold des_round Ks (permute IP_Table xs))"

definition des_decipher :: "bool list list \<Rightarrow> bool list \<Rightarrow> bool list" where
  "des_decipher Ks xs = permute IPR_Table (fold des_unround (rev Ks) (permute IP_Table xs))"

lemma length_des_cipher [simp]: "length (des_cipher Ks xs) = 64"
  by (simp add: des_cipher_def)

lemma IP_inverse:
  "map (\<lambda>s. IP_Table ! (s - 1) - 1) IPR_Table = [0..<64]"
  "map (\<lambda>s. IPR_Table ! (s - 1) - 1) IP_Table = [0..<64]"
  by (code_simp, code_simp)

lemma permute_permute:
  assumes "list_all (\<lambda>t. 1 \<le> t \<and> t \<le> length T) S" "map (\<lambda>s. T ! (s - 1) - 1) S = [0..<n]" "length xs = n"
  shows "permute S (permute T xs) = xs"
proof -
  have "permute S (permute T xs) = map (\<lambda>s. xs ! (T ! (s - 1) - 1)) S"
    using assms(1) by (auto simp: permute_def list_all_iff)
  also have "\<dots> = map ((!) xs) (map (\<lambda>s. T ! (s - 1) - 1) S)" by simp
  also have "\<dots> = xs" using assms(2,3) map_nth[of xs] by simp
  finally show ?thesis .
qed

lemma IP_IPR [simp]: "length xs = 64 \<Longrightarrow> permute IP_Table (permute IPR_Table xs) = xs"
  by (rule permute_permute) (use table_ranges IP_inverse in simp_all)

lemma IPR_IP [simp]: "length xs = 64 \<Longrightarrow> permute IPR_Table (permute IP_Table xs) = xs"
  by (rule permute_permute) (use table_ranges IP_inverse in simp_all)

lemma des_decipher_cipher: "length xs = 64 \<Longrightarrow> des_decipher Ks (des_cipher Ks xs) = xs"
  by (simp add: des_decipher_def des_cipher_def fold_unround)

lemma permute_in_place:
  assumes "wf_bits st" "array_size a = 64" "length T = 64" "list_all (\<lambda>t. 1 \<le> t \<and> t \<le> 64) T" "a \<noteq> Permute_Temp"
  shows "yields (TablePermute (a, 0) (a, 0) T 64 st) st {Permute_Temp, a} (\<lambda>st'. st' a = permute T (st a))"
  using TablePermute_yields[OF assms(1,3) _ assms(4,5,5), of 0 0] assms by simp

lemma play_rounds_yield:
  assumes wf: "wf_bits st"
  shows "yields (for_up 0 16 play_round st) st {Play_Bit, Play_Temp, Permute_Temp, MiR}
    (\<lambda>st'. st' Play_Bit = fold des_round (round_keys st) (st Play_Bit))"
proof -
  let ?G = "\<lambda>i s. s Play_Bit = fold des_round (map (\<lambda>i. st (SubKey i)) [0..<i]) (st Play_Bit)"
  show ?thesis
  proof (rule yields_loop[where G = ?G])
    fix i s assume i: "i < 16" and s: "wf_bits s" "?G i s"
      and u: "\<And>x. x \<notin> {Play_Bit, Play_Temp, Permute_Temp, MiR} \<Longrightarrow> s x = st x"
    have "s (SubKey i) = st (SubKey i)" by (rule u) simp
    then have "?G (Suc i) = (\<lambda>s'. s' Play_Bit = des_round (s (SubKey i)) (s Play_Bit))"
      using s(2) by simp
    then show "yields (play_round i s) s {Play_Bit, Play_Temp, Permute_Temp, MiR} (?G (Suc i))"
      using play_round_yields[OF s(1) i] by simp
  qed (use wf in simp_all)
qed

lemma kick_rounds_yield:
  assumes wf: "wf_bits st"
  shows "yields (for_up 0 16 (\<lambda>j. kick_round (15 - j)) st) st {Kick_Bit, Kick_Temp, Permute_Temp, MiR}
    (\<lambda>st'. st' Kick_Bit = fold des_unround (rev (round_keys st)) (st Kick_Bit))"
proof -
  let ?G = "\<lambda>i s. s Kick_Bit = fold des_unround (map (\<lambda>j. st (SubKey (15 - j))) [0..<i]) (st Kick_Bit)"
  have "rev [0..<16] = map (\<lambda>j. 15 - j) [0..<16]" by code_simp
  then have "rev (round_keys st) = map (\<lambda>j. st (SubKey (15 - j))) [0..<16]"
    by (simp add: rev_map)
  moreover have "yields (for_up 0 16 (\<lambda>j. kick_round (15 - j)) st) st {Kick_Bit, Kick_Temp, Permute_Temp, MiR} (?G 16)"
  proof (rule yields_loop[where G = ?G])
    fix i s assume i: "i < 16" and s: "wf_bits s" "?G i s"
      and u: "\<And>x. x \<notin> {Kick_Bit, Kick_Temp, Permute_Temp, MiR} \<Longrightarrow> s x = st x"
    have "s (SubKey (15 - i)) = st (SubKey (15 - i))" by (rule u) simp
    then have "?G (Suc i) = (\<lambda>s'. s' Kick_Bit = des_unround (s (SubKey (15 - i))) (s Kick_Bit))"
      using s(2) by simp
    then show "yields (kick_round (15 - i) s) s {Kick_Bit, Kick_Temp, Permute_Temp, MiR} (?G (Suc i))"
      using kick_round_yields[OF s(1), of "15 - i"] i by simp
  qed (use wf in simp_all)
  ultimately show ?thesis by simp
qed

lemma PlayDes_result:
  assumes wf: "wf_bits st" and len: "8 \<le> length msg" "16 \<le> length out"
  shows "\<exists>st'. PlayDes out msg st
      = Some (hex_chars (des_cipher (round_keys st) (byte_bits msg 64)) @ drop 16 out, st')
    \<and> wf_bits st' \<and> (\<forall>i. st' (SubKey i) = st (SubKey i))"
proof -
  let ?A = "{Play_Bit, Play_Temp, Permute_Temp, MiR}"
  let ?xs = "byte_bits msg 64"
  have "ByteToBit (Play_Bit, 0) msg 64 st = Some (st(Play_Bit := ?xs))"
    using wf len by (subst ByteToBit_eq) simp_all
  then have "yields (ByteToBit (Play_Bit, 0) msg 64 st) st {Play_Bit} (\<lambda>st'. st' Play_Bit = ?xs)"
    by (rule yields_update) (use wf in simp_all)
  then have "yields (do { st \<leftarrow> ByteToBit (Play_Bit, 0) msg 64 st;
     st \<leftarrow> TablePermute (Play_Bit, 0) (Play_Bit, 0) IP_Table 64 st;
     st \<leftarrow> for_up 0 16 play_round st;
     TablePermute (Play_Bit, 0) (Play_Bit, 0) IPR_Table 64 st }) st ?A
     (\<lambda>st'. st' Play_Bit = des_cipher (round_keys st) ?xs)"
  proof (rule yields_bind)
    fix s1 assume s1: "wf_bits s1" "\<And>x. x \<notin> {Play_Bit} \<Longrightarrow> s1 x = st x" "s1 Play_Bit = ?xs"
    show "yields (do { st \<leftarrow> TablePermute (Play_Bit, 0) (Play_Bit, 0) IP_Table 64 s1;
     st \<leftarrow> for_up 0 16 play_round st;
     TablePermute (Play_Bit, 0) (Play_Bit, 0) IPR_Table 64 st }) s1 ?A
     (\<lambda>st'. st' Play_Bit = des_cipher (round_keys st) ?xs)"
    proof (rule yields_bind[OF permute_in_place[OF s1(1)]])
      fix s2 assume s2: "wf_bits s2" "\<And>x. x \<notin> {Permute_Temp, Play_Bit} \<Longrightarrow> s2 x = s1 x"
        "s2 Play_Bit = permute IP_Table (s1 Play_Bit)"
      have rk: "round_keys s2 = round_keys st" using s1(2) s2(2) by simp
      show "yields (do { st \<leftarrow> for_up 0 16 play_round s2;
       TablePermute (Play_Bit, 0) (Play_Bit, 0) IPR_Table 64 st }) s2 ?A
       (\<lambda>st'. st' Play_Bit = des_cipher (round_keys st) ?xs)"
      proof (rule yields_bind[OF play_rounds_yield[OF s2(1)]])
        fix s3 assume s3: "wf_bits s3" "s3 Play_Bit = fold des_round (round_keys s2) (s2 Play_Bit)"
        then show "yields (TablePermute (Play_Bit, 0) (Play_Bit, 0) IPR_Table 64 s3) s3 {Permute_Temp, Play_Bit}
            (\<lambda>st'. st' Play_Bit = des_cipher (round_keys st) ?xs)"
          using permute_in_place[OF s3(1), of Play_Bit IPR_Table] table_ranges(2) s2(3) s1(3)
          by (simp add: des_cipher_def rk)
      qed auto
    qed (use table_ranges in auto)
  qed auto
  then obtain st' where st': "do { st \<leftarrow> ByteToBit (Play_Bit, 0) msg 64 st;
     st \<leftarrow> TablePermute (Play_Bit, 0) (Play_Bit, 0) IP_Table 64 st;
     st \<leftarrow> for_up 0 16 play_round st;
     TablePermute (Play_Bit, 0) (Play_Bit, 0) IPR_Table 64 st } = Some st'" "wf_bits st'"
     "\<forall>x. x \<notin> ?A \<longrightarrow> st' x = st x" "st' Play_Bit = des_cipher (round_keys st) ?xs"
    unfolding yields_def by blast
  have "BitToHex out (Play_Bit, 0) 64 st' = Some (hex_chars (des_cipher (round_keys st) ?xs) @ drop 16 out)"
    using st'(2,4) len by (subst BitToHex_eq) simp_all
  then have "PlayDes out msg st = Some (hex_chars (des_cipher (round_keys st) ?xs) @ drop 16 out, st')"
    using st'(1) unfolding PlayDes_def by (auto simp: bind_eq_Some_conv)
  then show ?thesis using st'(2,3) by simp
qed

lemma KickDes_result:
  assumes wf: "wf_bits st" and len: "16 \<le> length hex" "8 \<le> length out" "8 \<le> length msg"
    and inv: "des_decipher (round_keys st) (hex_bits hex) = byte_bits msg 64"
  shows "\<exists>st'. KickDes out hex st = Some (take 8 msg @ drop 8 out, st')
    \<and> wf_bits st' \<and> (\<forall>i. st' (SubKey i) = st (SubKey i))"
proof -
  let ?A = "{Kick_Bit, Kick_Temp, Permute_Temp, MiR}"
  let ?xs = "hex_bits hex"
  have "HexToBit (Kick_Bit, 0) hex 64 st = Some (st(Kick_Bit := ?xs))"
    using wf len by (subst HexToBit_eq) simp_all
  then have "yields (HexToBit (Kick_Bit, 0) hex 64 st) st {Kick_Bit} (\<lambda>st'. st' Kick_Bit = ?xs)"
    by (rule yields_update) (use wf in simp_all)
  then have "yields (do { st \<leftarrow> HexToBit (Kick_Bit, 0) hex 64 st;
     st \<leftarrow> TablePermute (Kick_Bit, 0) (Kick_Bit, 0) IP_Table 64 st;
     st \<leftarrow> for_up 0 16 (\<lambda>j. kick_round (15 - j)) st;
     TablePermute (Kick_Bit, 0) (Kick_Bit, 0) IPR_Table 64 st }) st ?A
     (\<lambda>st'. st' Kick_Bit = des_decipher (round_keys st) ?xs)"
  proof (rule yields_bind)
    fix s1 assume s1: "wf_bits s1" "\<And>x. x \<notin> {Kick_Bit} \<Longrightarrow> s1 x = st x" "s1 Kick_Bit = ?xs"
    show "yields (do { st \<leftarrow> TablePermute (Kick_Bit, 0) (Kick_Bit, 0) IP_Table 64 s1;
     st \<leftarrow> for_up 0 16 (\<lambda>j. kick_round (15 - j)) st;
     TablePermute (Kick_Bit, 0) (Kick_Bit, 0) IPR_Table 64 st }) s1 ?A
     (\<lambda>st'. st' Kick_Bit = des_decipher (round_keys st) ?xs)"
    proof (rule yields_bind[OF permute_in_place[OF s1(1)]])
      fix s2 assume s2: "wf_bits s2" "\<And>x. x \<notin> {Permute_Temp, Kick_Bit} \<Longrightarrow> s2 x = s1 x"
        "s2 Kick_Bit = permute IP_Table (s1 Kick_Bit)"
      have rk: "round_keys s2 = round_keys st" using s1(2) s2(2) by simp
      show "yields (do { st \<leftarrow> for_up 0 16 (\<lambda>j. kick_round (15 - j)) s2;
       TablePermute (Kick_Bit, 0) (Kick_Bit, 0) IPR_Table 64 st }) s2 ?A
       (\<lambda>st'. st' Kick_Bit = des_decipher (round_keys st) ?xs)"
      proof (rule yields_bind[OF kick_rounds_yield[OF s2(1)]])
        fix s3 assume s3: "wf_bits s3" "s3 Kick_Bit = fold des_unround (rev (round_keys s2)) (s2 Kick_Bit)"
        then show "yields (TablePermute (Kick_Bit, 0) (Kick_Bit, 0) IPR_Table 64 s3) s3 {Permute_Temp, Kick_Bit}
            (\<lambda>st'. st' Kick_Bit = des_decipher (round_keys st) ?xs)"
          using permute_in_place[OF s3(1), of Kick_Bit IPR_Table] table_ranges(2) s2(3) s1(3)
          by (simp add: des_decipher_def rk)
      qed auto
    qed (use table_ranges in auto)
  qed auto
  then obtain st' where st': "do { st \<leftarrow> HexToBit (Kick_Bit, 0) hex 64 st;
     st \<leftarrow> TablePermute (Kick_Bit, 0) (Kick_Bit, 0) IP_Table 64 st;
     st \<leftarrow> for_up 0 16 (\<lambda>j. kick_round (15 - j)) st;
     TablePermute (Kick_Bit, 0) (Kick_Bit, 0) IPR_Table 64 st } = Some st'" "wf_bits st'"
     "\<forall>x. x \<notin> ?A \<longrightarrow> st' x = st x" "st' Kick_Bit = byte_bits msg 64"
    unfolding yields_def inv by blast
  have "BitToByte out (Kick_Bit, 0) 64 st' = Some (take 8 msg @ drop 8 out)"
    using st'(2,4) len by (intro BitToByte_eq) simp_all
  then have "KickDes out hex st = Some (take 8 msg @ drop 8 out, st')"
    using st'(1) unfolding KickDes_def by (auto simp: bind_eq_Some_conv)
  then show ?thesis using st'(2,3) by simp
qed

subsection \<open>Properties\<close>

lemma SetKey_result:
  assumes "wf_bits st" "8 \<le> length key"
  obtains st' where "SetKey key st = Some st'" "wf_bits st'" "round_keys st' = map (sub_key key) [0..<16]"
  using SetKey_yields[OF assms] unfolding yields_def by blast

text \<open>C7: Decryption inverts encryption. After \<open>SetKey\<close> with some key, \<open>PlayDes\<close> turns any
  message of 8 bytes into 16 hexadecimal digits (and touches nothing beyond them in the
  output buffer); whatever the static arrays hold later, once \<open>SetKey\<close> has been given the same
  key, \<open>KickDes\<close> applied to these digits writes back exactly the 8 bytes of the message. No call
  reads or writes outside its arrays.\<close>
theorem des_round_trip:
  assumes "wf_bits st" "wf_bits st'" "8 \<le> length key" "8 \<le> length msg" "16 \<le> length out" "8 \<le> length out'"
  shows "\<exists>s1 hex s2 s1' s2'. SetKey key st = Some s1 \<and> PlayDes out msg s1 = Some (hex, s2)
    \<and> SetKey key st' = Some s1' \<and> KickDes out' hex s1' = Some (take 8 msg @ drop 8 out', s2')
    \<and> length hex = length out \<and> drop 16 hex = drop 16 out
    \<and> set (take 16 hex) \<subseteq> set [48,49,50,51,52,53,54,55,56,57,65,66,67,68,69,70]"
proof -
  obtain s1 where s1: "SetKey key st = Some s1" "wf_bits s1" "round_keys s1 = map (sub_key key) [0..<16]"
    using SetKey_result assms(1,3) by blast
  obtain s1' where s1': "SetKey key st' = Some s1'" "wf_bits s1'" "round_keys s1' = map (sub_key key) [0..<16]"
    using SetKey_result assms(2,3) by blast
  let ?c = "des_cipher (round_keys s1) (byte_bits msg 64)"
  let ?hex = "hex_chars ?c @ drop 16 out"
  obtain s2 where s2: "PlayDes out msg s1 = Some (?hex, s2)"
    using PlayDes_result[OF s1(2) assms(4,5)] by blast
  have "hex_bits ?hex = ?c" by (rule hex_bits_chars) simp
  then have "des_decipher (round_keys s1') (hex_bits ?hex) = byte_bits msg 64"
    unfolding s1'(3) s1(3)[symmetric] by (simp only: des_decipher_cipher length_byte_bits)
  then obtain s2' where "KickDes out' ?hex s1' = Some (take 8 msg @ drop 8 out', s2')"
    using KickDes_result[OF s1'(2), of ?hex out' msg] assms(4,6) by auto
  moreover have "set (take 16 ?hex) \<subseteq> set [48,49,50,51,52,53,54,55,56,57,65,66,67,68,69,70]"
    using hex_char_digit by (auto simp: hex_chars_def)
  ultimately show ?thesis using s1(1) s1'(1) s2 assms(5) by (intro exI[of _ s1] exI[of _ ?hex] exI[of _ s2] exI[of _ s1'] exI[of _ s2']) simp
qed

lemma des_round_trip_witness:
  "\<exists>s1 hex s2 s1' s2'. SetKey [1,2,3,4,5,6,7,8] bits_init = Some s1
    \<and> PlayDes (replicate 16 0) [72,105,32,116,104,101,114,101] s1 = Some (hex, s2)
    \<and> SetKey [1,2,3,4,5,6,7,8] bits_init = Some s1'
    \<and> KickDes (replicate 8 0) hex s1' = Some ([72,105,32,116,104,101,114,101], s2')"
  using des_round_trip[OF wf_bits_init wf_bits_init,
      of "[1,2,3,4,5,6,7,8]" "[72,105,32,116,104,101,114,101]" "replicate 16 0" "replicate 8 0"]
  by auto

text \<open>C26: The key schedule. For a key of 8 bytes \<open>SetKey\<close> returns, and its round key \<open>i\<close> is the
  selection \<open>PC2_Table\<close> of the two halves of the key permuted by \<open>PC1_Table\<close>, each rotated to
  the left by the first \<open>i + 1\<close> entries of \<open>Move_Table\<close>; it depends on nothing that earlier
  calls have left behind. The rotations add up to 28, a full turn, and the parity bits of the
  key (bit 7 of every byte) are not used.\<close>
theorem set_key_schedule:
  assumes "wf_bits st" "8 \<le> length key"
  shows "(\<exists>st'. SetKey key st = Some st' \<and> wf_bits st' \<and> (\<forall>i<16. st' (SubKey i) = sub_key key i))
    \<and> rotation 16 = 28
    \<and> (\<forall>key' :: u8 list. (\<forall>j<8. \<forall>k<7. bit (key' ! j) k = bit (key ! j) k) \<longrightarrow> sub_key key' = sub_key key)"
proof (intro conjI allI impI)
  obtain st' where st': "SetKey key st = Some st'" "wf_bits st'" "round_keys st' = map (sub_key key) [0..<16]"
    using SetKey_result assms by blast
  have "st' (SubKey i) = sub_key key i" if "i < 16" for i
    using arg_cong[OF st'(3), of "\<lambda>xs. xs ! i"] that by simp
  then show "\<exists>st'. SetKey key st = Some st' \<and> wf_bits st' \<and> (\<forall>i<16. st' (SubKey i) = sub_key key i)"
    using st'(1,2) by blast
next
  show "rotation 16 = 28" by (simp add: rotation_def Move_Table_def)
next
  fix key' :: "u8 list" assume same: "\<forall>j<8. \<forall>k<7. bit (key' ! j) k = bit (key ! j) k"
  have "list_all (\<lambda>t. 1 \<le> t \<and> t \<le> 64 \<and> (t - 1) mod 8 < 7) PC1_Table"
    by (simp add: PC1_Table_def)
  then have "permute PC1_Table (byte_bits key' 64) = permute PC1_Table (byte_bits key 64)"
    using same by (auto simp: permute_def byte_bits_def list_all_iff)
  then show "sub_key key' = sub_key key"
    by (simp add: fun_eq_iff sub_key_def half_key_def)
qed

lemma set_key_schedule_witness:
  "\<exists>st'. SetKey [1,2,3,4,5,6,7,8] bits_init = Some st' \<and> (\<forall>i<16. st' (SubKey i) = sub_key [1,2,3,4,5,6,7,8] i)"
proof -
  have "8 \<le> length [1,2,3,4,5,6,7,8 :: u8]" by simp
  from set_key_schedule[OF wf_bits_init this] show ?thesis by blast
qed

lemma wr_zero_overrun:
  "i \<le> length out \<Longrightarrow> length out < n \<Longrightarrow> for_up i n (\<lambda>i out. wr out i x) out = None"
proof (induction "length out - i" arbitrary: i out)
  case 0
  then show ?case by (simp add: for_up_step)
next
  case (Suc k)
  then have "for_up (Suc i) n (\<lambda>i out. wr out i x) (out[i := x]) = None"
    by (intro Suc.hyps(1)) auto
  then show ?case using Suc.hyps(2) Suc.prems by (simp add: for_up_step)
qed

text \<open>Further result: The output of \<open>PlayDes\<close> needs 16 characters. With the buffer of 8 characters that its
  prototype \<open>PlayDes(char MesOut[8], char MesIn[8])\<close> asks for, or with any other of fewer than
  16, the call writes past the end of the buffer.\<close>
theorem play_des_needs_16:
  assumes "length out < 16"
  shows "PlayDes out msg st = None"
  using wr_zero_overrun[of 0 out 16 0] assms
  by (auto simp: PlayDes_def BitToHex_def bind_eq_None_conv)

lemma play_des_needs_16_witness: "PlayDes (replicate 8 0) (replicate 8 65) bits_init = None"
  by (rule play_des_needs_16) simp

end
