(* ===== verification/Base64.thy ===== *)
theory Base64
  imports C_Base
begin

text \<open>
  \<open>Crypto/Base64c/base64.c\<close>: the encoder and the decoder, over the memory of the caller's string
  (an array of bytes that holds a NUL) and of the allocated result. Both functions allocate their
  result and then test \<open>desStr\<close>, the address of the caller's variable, against NULL: the test never
  succeeds, so a failed allocation (the empty array) is written to, which has no result.

  The lengths are \<open>unsigned int\<close>: \<open>lenth / 4 - 1\<close> wraps around and is a word here. The index
  expressions \<open>i * 3 + k\<close> and \<open>i * 4 + k\<close> are natural numbers, which is exact for strings of fewer
  than \<open>2 ^ 30\<close> characters.
\<close>

subsection \<open>The alphabet\<close>

definition BASE64_TABLE :: "u8 list" where
  "BASE64_TABLE = [
     65, 66, 67, 68, 69, 70, 71, 72, 73, 74, 75, 76, 77, 78, 79, 80,
     81, 82, 83, 84, 85, 86, 87, 88, 89, 90, 97, 98, 99, 100, 101, 102,
     103, 104, 105, 106, 107, 108, 109, 110, 111, 112, 113, 114, 115, 116, 117, 118,
     119, 120, 121, 122, 48, 49, 50, 51, 52, 53, 54, 55, 56, 57, 43, 47]"

definition base64_index :: "u8 \<Rightarrow> int" where
  "base64_index ch =
    (if sint ch \<ge> 65 \<and> sint ch \<le> 90 then sint ch - 65
     else if sint ch \<ge> 97 \<and> sint ch \<le> 122 then sint ch - 97 + 26
     else if sint ch \<ge> 48 \<and> sint ch \<le> 57 then sint ch - 48 + 52
     else if ch = 43 then 62
     else if ch = 47 then 63
     else - 1)"

abbreviation equals_sign :: u8 where "equals_sign \<equiv> 61"

text \<open>The validity loops: \<open>Some True\<close> when the characters from \<open>i\<close> up to \<open>n - 1\<close> are all in
  the alphabet, \<open>Some False\<close> at the first that is not.\<close>

function check_chars :: "u8 list \<Rightarrow> nat \<Rightarrow> nat \<Rightarrow> bool option" where
  "check_chars s i n = (if i < n then do {
     c \<leftarrow> rd s i;
     if base64_index c < 0 then Some False else check_chars s (Suc i) n }
   else Some True)"
  by pat_completeness auto
termination by (relation "measure (\<lambda>(s, i, n). n - i)") auto

declare check_chars.simps [simp del]

subsection \<open>Encoding\<close>

definition en_group :: "u8 list \<Rightarrow> nat \<Rightarrow> u8 list \<Rightarrow> u8 list option" where
  "en_group src i des = do {
     s0 \<leftarrow> rd src (i * 3);
     s1 \<leftarrow> rd src (i * 3 + 1);
     s2 \<leftarrow> rd src (i * 3 + 2);
     t0 \<leftarrow> rd BASE64_TABLE (unat (drop_bit 2 s0));
     des \<leftarrow> wr des (i * 4) t0;
     t1 \<leftarrow> rd BASE64_TABLE (unat (push_bit 4 (and s0 3) + drop_bit 4 s1));
     des \<leftarrow> wr des (i * 4 + 1) t1;
     t2 \<leftarrow> rd BASE64_TABLE (unat (push_bit 2 (and s1 15) + drop_bit 6 s2));
     des \<leftarrow> wr des (i * 4 + 2) t2;
     t3 \<leftarrow> rd BASE64_TABLE (unat (and s2 63));
     wr des (i * 4 + 3) t3 }"

definition en_tail :: "u8 list \<Rightarrow> nat \<Rightarrow> nat \<Rightarrow> u8 list \<Rightarrow> u8 list option" where
  "en_tail src i j des = do {
     s0 \<leftarrow> rd src (i * 3);
     s1 \<leftarrow> (if j > 1 then rd src (i * 3 + 1) else Some 0);
     t0 \<leftarrow> rd BASE64_TABLE (unat (drop_bit 2 s0));
     des \<leftarrow> wr des (i * 4) t0;
     t1 \<leftarrow> rd BASE64_TABLE (unat (push_bit 4 (and s0 3) + drop_bit 4 s1));
     des \<leftarrow> wr des (i * 4 + 1) t1;
     t2 \<leftarrow> (if s1 = 0 then Some equals_sign else rd BASE64_TABLE (unat (push_bit 2 (and s1 15))));
     des \<leftarrow> wr des (i * 4 + 2) t2;
     wr des (i * 4 + 3) equals_sign }"

text \<open>The result is the returned number and the memory \<open>*desStr\<close>. \<open>strlen(des) - 1\<close> is a
  \<open>size_t\<close> that wraps around for the empty string. Fresh memory holds some byte \<open>x\<close>.\<close>

definition base64en :: "u8 \<Rightarrow> u8 list \<Rightarrow> mem \<Rightarrow> ((int \<times> u8 list) \<times> mem) option" where
  "base64en x src m = do {
     lenth \<leftarrow> strlen src;
     let len = lenth div 3;
     let (p, m) = malloc (replicate (len * 4 + 1) x) m;
     let des = (case p of None \<Rightarrow> [] | Some d \<Rightarrow> d);
     des \<leftarrow> for_up 0 len (en_group src) des;
     let j = lenth - len * 3;
     des \<leftarrow> (if j > 0 then en_tail src len j des else Some des);
     des \<leftarrow> wr des ((if j > 0 then Suc len else len) * 4) 0;
     n \<leftarrow> strlen des;
     ok \<leftarrow> check_chars des 0 (unat (of_nat n - 1 :: u64));
     Some ((if ok then int n else - 1, des), m) }"

subsection \<open>Decoding\<close>

definition de_code :: "u8 list \<Rightarrow> nat \<Rightarrow> u8 option" where
  "de_code src i = do { c \<leftarrow> rd src i; Some (word_of_int (base64_index c)) }"

definition de_group :: "u8 list \<Rightarrow> nat \<Rightarrow> u8 list \<Rightarrow> u8 list option" where
  "de_group src i des = do {
     c0 \<leftarrow> de_code src (i * 4);
     c1 \<leftarrow> de_code src (i * 4 + 1);
     c2 \<leftarrow> de_code src (i * 4 + 2);
     c3 \<leftarrow> de_code src (i * 4 + 3);
     des \<leftarrow> wr des (i * 3) (push_bit 2 c0 + drop_bit 4 c1);
     des \<leftarrow> wr des (i * 3 + 1) (push_bit 4 c1 + drop_bit 2 c2);
     wr des (i * 3 + 2) (push_bit 6 (and c2 3) + c3) }"

definition de_tail :: "u8 list \<Rightarrow> nat \<Rightarrow> u8 list \<Rightarrow> u8 list option" where
  "de_tail src i des = do {
     c0 \<leftarrow> de_code src (i * 4);
     c1 \<leftarrow> de_code src (i * 4 + 1);
     des \<leftarrow> wr des (i * 3) (push_bit 2 c0 + drop_bit 4 c1);
     x2 \<leftarrow> rd src (i * 4 + 2);
     if x2 = equals_sign then wr des (i * 3 + 1) 0
     else do {
       x3 \<leftarrow> rd src (i * 4 + 3);
       if x3 = equals_sign then do {
         c2 \<leftarrow> de_code src (i * 4 + 2);
         des \<leftarrow> wr des (i * 3 + 1) (push_bit 4 c1 + drop_bit 2 c2);
         wr des (i * 3 + 2) 0 }
       else do {
         c2 \<leftarrow> de_code src (i * 4 + 2);
         c3 \<leftarrow> de_code src (i * 4 + 3);
         des \<leftarrow> wr des (i * 3 + 1) (push_bit 4 c1 + drop_bit 2 c2);
         des \<leftarrow> wr des (i * 3 + 2) (push_bit 6 (and c2 3) + c3);
         wr des (i * 3 + 3) 0 } } }"

definition base64de :: "u8 \<Rightarrow> u8 list \<Rightarrow> mem \<Rightarrow> ((int \<times> u8 list) \<times> mem) option" where
  "base64de x src m = do {
     lenth \<leftarrow> strlen src;
     let len = (of_nat (lenth div 4) - 1 :: u32);
     let (p, m) = malloc (replicate (unat (len + 1) * 3 + 1) x) m;
     let des = (case p of None \<Rightarrow> [] | Some d \<Rightarrow> d);
     ok \<leftarrow> check_chars src 0 (unat (of_nat lenth - 1 :: u32));
     if \<not> ok then Some ((- 32, des), m)
     else do {
       des \<leftarrow> for_up 0 (unat len) (de_group src) des;
       des \<leftarrow> de_tail src (unat len) des;
       n \<leftarrow> strlen des;
       Some ((int n, des), m) } }"

end
