(* ===== verification/Base64_Correct.thy ===== *)
theory Base64_Correct
  imports Base64
begin

text \<open>
  The base-64 routines against the reference encoding \<open>b64\<close>, which reads each group of three
  bytes as a number of 24 bits and writes its four digits to the base 64. \<open>en_loop\<close> and \<open>de_loop\<close>
  follow the group loops; the properties cover every string length on the encoder's side and
  every tail on the decoder's.
\<close>

subsection \<open>Writes behind a prefix\<close>

lemma wr_append [simp]: "length p = k \<Longrightarrow> wr (p @ y # ys) k x = Some (p @ x # ys)"
  by (auto simp: wr_def)

lemma wr_append_Suc: "length p = k \<Longrightarrow> wr (p @ ys) (k + n) x = (case wr ys n x of None \<Rightarrow> None | Some zs \<Rightarrow> Some (p @ zs))"
  by (auto simp: wr_def list_update_append)

lemma rd_append: "length p = k \<Longrightarrow> rd (p @ ys) (k + n) = rd ys n"
  by (auto simp: rd_def nth_append)

subsection \<open>Six bits of three bytes\<close>

text \<open>The reference: the three bytes are a number of 24 bits, cut into four digits to the base 64.\<close>

definition group24 :: "u8 \<Rightarrow> u8 \<Rightarrow> u8 \<Rightarrow> nat" where
  "group24 a b c = unat a * 65536 + unat b * 256 + unat c"

definition quad :: "u8 \<Rightarrow> u8 \<Rightarrow> u8 \<Rightarrow> u8 list" where
  "quad a b c = map (\<lambda>k. BASE64_TABLE ! (group24 a b c div 64 ^ (3 - k) mod 64)) [0, 1, 2, 3]"

fun b64 :: "u8 list \<Rightarrow> u8 list" where
  "b64 (a # b # c # r) = quad a b c @ b64 r"
| "b64 [a, b] = take 3 (quad a b 0) @ [equals_sign]"
| "b64 [a] = take 2 (quad a 0 0) @ [equals_sign, equals_sign]"
| "b64 [] = []"

lemma length_quad [simp]: "length (quad a b c) = 4"
  by (simp add: quad_def)

lemma u8_bound: "unat (a :: u8) < 256"
  using unsigned_less[of a] by simp

lemma take6: "and (s :: u8) 3 = take_bit 2 s" "and s 15 = take_bit 4 s" "and s 63 = take_bit 6 s"
  by (simp_all add: take_bit_eq_mask mask_eq_exp_minus_1)

lemma unat_parts:
  "unat (drop_bit n (s :: u8)) = unat s div 2 ^ n"
  "unat (take_bit n (s :: u8)) = unat s mod 2 ^ n"
  "unat (push_bit n (s :: u8)) = unat s * 2 ^ n mod 256"
  "unat (a + b :: u8) = (unat a + unat b) mod 256"
proof -
  show "unat (drop_bit n s) = unat s div 2 ^ n"
    by (metis drop_bit_eq_div unat_drop_bit_eq)
  show "unat (take_bit n s) = unat s mod 2 ^ n"
    by (simp add: unsigned_take_bit_eq take_bit_eq_mod[of n "unat s"])
  show "unat (push_bit n s) = unat s * 2 ^ n mod 256"
    by (simp add: unsigned_push_bit_eq push_bit_eq_mult[of n "unat s"] take_bit_eq_mod[of 8])
qed (simp add: unat_word_ariths)

lemma en_index:
  "unat (drop_bit 2 a) = unat a div 4"
  "unat (push_bit 4 (and a 3) + drop_bit 4 b) = unat a mod 4 * 16 + unat b div 16"
  "unat (push_bit 2 (and b 15) + drop_bit 6 c) = unat b mod 16 * 4 + unat c div 64"
  "unat (push_bit 2 (and b 15)) = unat b mod 16 * 4"
  "unat (and c 63) = unat c mod 64" for a b c :: u8
  using u8_bound[of a] u8_bound[of b] u8_bound[of c]
  by (simp_all add: take6 unat_parts)

lemma digits_sum:
  "(4 * p + q) * 65536 + (16 * r + s) * 256 + (64 * t + u)
    = ((p * 64 + (q * 16 + r)) * 64 + (s * 4 + t)) * 64 + (u :: nat)"
  by simp

lemma group_digits:
  fixes a b c :: nat
  assumes "a < 256" "b < 256" "c < 256"
  shows "(a * 65536 + b * 256 + c) div 262144 mod 64 = a div 4"
    "(a * 65536 + b * 256 + c) div 4096 mod 64 = a mod 4 * 16 + b div 16"
    "(a * 65536 + b * 256 + c) div 64 mod 64 = b mod 16 * 4 + c div 64"
    "(a * 65536 + b * 256 + c) mod 64 = c mod 64"
proof -
  define d0 d1 d2 d3 where "d0 = a div 4" and "d1 = a mod 4 * 16 + b div 16"
    and "d2 = b mod 16 * 4 + c div 64" and "d3 = c mod 64"
  note d = d0_def d1_def d2_def d3_def
  have lt: "d0 < 64" "d1 < 64" "d2 < 64" "d3 < 64" using assms unfolding d by linarith+
  have n: "a * 65536 + b * 256 + c = ((d0 * 64 + d1) * 64 + d2) * 64 + d3"
    using digits_sum[of "a div 4" "a mod 4" "b div 16" "b mod 16" "c div 64" "c mod 64"]
    unfolding mult_div_mod_eq d .
  have dm: "(x * 64 + y) div 64 = x" "(x * 64 + y) mod 64 = y" if "y < 64" for x y :: nat
    using that by simp_all
  have n1: "(a * 65536 + b * 256 + c) div 64 = (d0 * 64 + d1) * 64 + d2" unfolding n by (rule dm(1)[OF lt(4)])
  have n2: "(a * 65536 + b * 256 + c) div 4096 = d0 * 64 + d1"
    using arg_cong[OF n1, of "\<lambda>x. x div 64"] dm(1)[OF lt(3)] div_mult2_eq[of "a * 65536 + b * 256 + c" 64 64] by simp
  have n3: "(a * 65536 + b * 256 + c) div 262144 = d0"
    using arg_cong[OF n2, of "\<lambda>x. x div 64"] dm(1)[OF lt(2)] div_mult2_eq[of "a * 65536 + b * 256 + c" 4096 64] by simp
  show "(a * 65536 + b * 256 + c) div 262144 mod 64 = a div 4"
    unfolding n3 using lt(1) by (simp add: d0_def)
  show "(a * 65536 + b * 256 + c) div 4096 mod 64 = a mod 4 * 16 + b div 16"
    unfolding n2 dm(2)[OF lt(2)] by (simp add: d1_def)
  show "(a * 65536 + b * 256 + c) div 64 mod 64 = b mod 16 * 4 + c div 64"
    unfolding n1 dm(2)[OF lt(3)] by (simp add: d2_def)
  show "(a * 65536 + b * 256 + c) mod 64 = c mod 64"
    unfolding n dm(2)[OF lt(4)] by (simp add: d3_def)
qed

lemma quad_eq:
  "quad a b c = map ((!) BASE64_TABLE)
    [unat a div 4, unat a mod 4 * 16 + unat b div 16, unat b mod 16 * 4 + unat c div 64, unat c mod 64]"
  using group_digits[OF u8_bound[of a] u8_bound[of b] u8_bound[of c]]
  by (simp add: quad_def group24_def)

subsection \<open>The alphabet\<close>

lemma length_TABLE [simp]: "length BASE64_TABLE = 64"
  by (simp add: BASE64_TABLE_def)

lemma TABLE_all:
  "list_all (\<lambda>(k, c). base64_index c = int k \<and> c \<noteq> 0 \<and> c \<noteq> equals_sign) (enumerate 0 BASE64_TABLE)"
  by code_simp

lemma TABLE_facts:
  assumes "k < 64"
  shows "base64_index (BASE64_TABLE ! k) = int k" "BASE64_TABLE ! k \<noteq> 0" "BASE64_TABLE ! k \<noteq> equals_sign"
  using TABLE_all assms by (auto simp: list_all_length nth_enumerate_eq)

lemma index_equals [simp]: "base64_index equals_sign = - 1" and index_0 [simp]: "base64_index 0 = - 1"
  by code_simp+

lemma check_chars_eq:
  "n \<le> length s \<Longrightarrow> check_chars s i n = Some (\<forall>j. i \<le> j \<longrightarrow> j < n \<longrightarrow> base64_index (s ! j) \<ge> 0)"
proof (induction s i n rule: check_chars.induct)
  case (1 s i n)
  show ?case
  proof (cases "i < n")
    case True
    then show ?thesis
      using 1 by (subst check_chars.simps) (auto simp: not_less Suc_le_eq intro: le_neq_implies_less)
  next
    case False
    then show ?thesis by (subst check_chars.simps) auto
  qed
qed

subsection \<open>The encoder\<close>

lemma digit_bounds:
  "unat (a :: u8) div 4 < 64" "unat a mod 4 * 16 + unat (b :: u8) div 16 < 64"
  "unat b mod 16 * 4 + unat (c :: u8) div 64 < 64" "unat b mod 16 * 4 < 64" "unat c mod 64 < 64"
proof -
  have "unat a div 4 < 64" "unat b div 16 < 16" "unat c div 64 < 4"
    using u8_bound[of a] u8_bound[of b] u8_bound[of c] by (simp_all add: less_mult_imp_div_less)
  moreover have "unat a mod 4 < 4" "unat b mod 16 < 16" by simp_all
  ultimately show "unat a div 4 < 64" "unat a mod 4 * 16 + unat b div 16 < 64"
    "unat b mod 16 * 4 + unat c div 64 < 64" "unat b mod 16 * 4 < 64" by linarith+
qed simp

lemma en_group_eq:
  assumes "i * 3 + 2 < length src" "length p = i * 4"
  shows "en_group src i (p @ q0 # q1 # q2 # q3 # qs)
    = Some (p @ quad (src ! (i * 3)) (src ! (i * 3 + 1)) (src ! (i * 3 + 2)) @ qs)"
proof -
  have rdT: "rd BASE64_TABLE k = Some (BASE64_TABLE ! k)" if "k < 64" for k using that by simp
  have w: "wr (p @ q0 # q1 # q2 # q3 # qs) (i * 4) t0 = Some (p @ t0 # q1 # q2 # q3 # qs)"
    "wr (p @ t0 # q1 # q2 # q3 # qs) (i * 4 + 1) t1 = Some (p @ t0 # t1 # q2 # q3 # qs)"
    "wr (p @ t0 # t1 # q2 # q3 # qs) (i * 4 + 2) t2 = Some (p @ t0 # t1 # t2 # q3 # qs)"
    "wr (p @ t0 # t1 # t2 # q3 # qs) (i * 4 + 3) t3 = Some (p @ t0 # t1 # t2 # t3 # qs)" for t0 t1 t2 t3
    by (simp_all add: wr_def assms(2)[symmetric] list_update_append)
  show ?thesis
    unfolding en_group_def en_index quad_eq
    using assms(1) by (simp add: rdT digit_bounds  w[simplified])
qed

lemma b64_append: "length xs mod 3 = 0 \<Longrightarrow> b64 (xs @ ys) = b64 xs @ b64 ys"
  by (induction xs rule: b64.induct) auto

lemma length_b64: "length (b64 s) = 4 * ((length s + 2) div 3)"
proof (induction s rule: b64.induct)
  case (1 a b c r)
  have "(length (a # b # c # r) + 2) div 3 = Suc ((length r + 2) div 3)"
    using div_add_self1[of 3 "length r + 2"] by simp
  then show ?case using 1 by simp
qed simp_all

lemma take_3_more:
  "i * 3 + 2 < length s \<Longrightarrow> take (Suc i * 3) s = take (i * 3) s @ [s ! (i * 3), s ! (i * 3 + 1), s ! (i * 3 + 2)]"
proof -
  assume "i * 3 + 2 < length s"
  then show "take (Suc i * 3) s = take (i * 3) s @ [s ! (i * 3), s ! (i * 3 + 1), s ! (i * 3 + 2)]"
    using take_Suc_conv_app_nth[of "i * 3" s] take_Suc_conv_app_nth[of "Suc (i * 3)" s]
      take_Suc_conv_app_nth[of "Suc (Suc (i * 3))" s] by (simp add: eval_nat_numeral)
qed

lemma split_4:
  assumes "4 \<le> length (xs :: 'a list)"
  obtains a b c d ys where "xs = a # b # c # d # ys"
proof -
  have "xs = xs ! 0 # xs ! 1 # xs ! 2 # xs ! 3 # drop 4 xs"
    using assms by (metis (no_types, lifting) Cons_nth_drop_Suc One_nat_def Suc_1 Suc_le_lessD drop0 eval_nat_numeral(3)
        less_Suc_eq less_le_trans numeral_2_eq_2 numeral_3_eq_3 numeral_eq_Suc pred_numeral_simps(2) semiring_norm(26,27))
  then show thesis by (rule that)
qed

lemma en_loop:
  assumes "length s = 3 * n" "length des = 4 * n + k"
  shows "for_up 0 n (en_group (s @ r)) des = Some (b64 s @ drop (4 * n) des)"
proof -
  let ?g = "\<lambda>i. b64 (take (i * 3) s) @ drop (4 * i) des"
  have "for_up 0 n (en_group (s @ r)) (?g 0) = Some (?g n)"
  proof (rule for_up_eq)
    fix i assume i: "i < n"
    obtain q0 q1 q2 q3 qs where d: "drop (4 * i) des = q0 # q1 # q2 # q3 # qs"
    proof -
      have "4 \<le> length (drop (4 * i) des)" using i assms by simp
      then show thesis using that by (rule split_4)
    qed
    have "drop (4 * Suc i) des = drop 4 (drop (4 * i) des)" by simp
    then have d': "drop (4 * Suc i) des = qs" using d by simp
    have len: "length (b64 (take (i * 3) s)) = i * 4" using i assms by (simp add: length_b64)
    have "en_group (s @ r) i (?g i) = Some (b64 (take (i * 3) s) @ quad (s ! (i * 3)) (s ! (i * 3 + 1)) (s ! (i * 3 + 2)) @ qs)"
      unfolding d using i assms en_group_eq[OF _ len, of "s @ r" q0 q1 q2 q3 qs] by (simp add: nth_append)
    also have "b64 (take (i * 3) s) @ quad (s ! (i * 3)) (s ! (i * 3 + 1)) (s ! (i * 3 + 2)) @ qs = ?g (Suc i)"
      using i assms take_3_more[of i s] d' by (simp add: b64_append)
    finally show "en_group (s @ r) i (?g i) = Some (?g (Suc i))" .
  qed simp
  then show ?thesis using assms by (simp add: mult.commute)
qed

lemma quad_chars: "set (quad a b c) \<subseteq> {BASE64_TABLE ! k | k. k < 64}"
  using digit_bounds by (auto simp: quad_eq)

lemma b64_chars:
  "length s mod 3 = 0 \<Longrightarrow> x \<in> set (b64 s) \<Longrightarrow> \<exists>k<64. x = BASE64_TABLE ! k"
proof (induction s rule: b64.induct)
  case (1 a b c r)
  then show ?case using quad_chars[of a b c] by auto
qed auto

lemma b64_valid:
  assumes "length s mod 3 = 0"
  shows "0 \<notin> set (b64 s)" "j < length (b64 s) \<Longrightarrow> base64_index (b64 s ! j) \<ge> 0"
proof -
  show "0 \<notin> set (b64 s)" using b64_chars[OF assms] TABLE_facts(2) by metis
  assume "j < length (b64 s)"
  then obtain k where "k < 64" "b64 s ! j = BASE64_TABLE ! k" using b64_chars[OF assms nth_mem] by blast
  then show "base64_index (b64 s ! j) \<ge> 0" by (simp add: TABLE_facts)
qed

lemma for_up_None:
  assumes "body i s = None" "i < n"
  shows "for_up i n body s = None"
  using assms by (simp add: for_up_step)

lemma wr_Nil [simp]: "wr [] i x = None"
  by (simp add: wr_def)

lemma unat_of_nat_pred:
  assumes "0 < n" "n < 2 ^ LENGTH('a)"
  shows "unat (of_nat n - 1 :: 'a :: len word) = n - 1"
proof -
  have "(of_nat n - 1 :: 'a word) = of_nat (n - 1)" using assms(1) by (simp add: of_nat_diff)
  moreover have "unat (of_nat (n - 1) :: 'a word) = n - 1" unfolding unat_of_nat using assms by simp
  ultimately show ?thesis by (simp only:)
qed

lemma malloc_either:
  "malloc y m = (if fst (malloc () m) = None then None else Some y, snd (malloc () m))"
  by (cases m) auto

text \<open>The four steps of the encoder: nothing is allocated, the group loop, a tail behind the allocated
  memory, and the validity loop over the result.\<close>

lemma base64en_no_memory:
  assumes "0 \<notin> set s" "fst (malloc () m) = None"
  shows "base64en x (s @ 0 # r) m = None"
proof -
  let ?len = "length s div 3"
  have fail: "malloc y m = (None, snd (malloc () m))" for y :: "u8 list"
    using malloc_either[of y m] assms(2) by simp
  have loop: "for_up 0 ?len (en_group (s @ 0 # r)) [] = None" if "?len \<noteq> 0"
    by (rule for_up_None) (use that in \<open>auto simp: en_group_def bind_eq_None_conv\<close>)
  have tail: "en_tail (s @ 0 # r) ?len (length s - ?len * 3) [] = None"
    by (auto simp: en_tail_def bind_eq_None_conv)
  show ?thesis using assms(1) loop tail by (cases "?len = 0") (simp_all add: base64en_def Let_def fail)
qed

lemma en_groups:
  "for_up 0 (length s div 3) (en_group (s @ 0 # r)) (replicate (length s div 3 * 4 + 1) x)
    = Some (b64 (take (3 * (length s div 3)) s) @ [x])"
proof -
  let ?len = "length s div 3"
  have "drop (4 * ?len) (replicate (?len * 4 + 1) x) = [x]" by (simp only: drop_replicate) simp
  moreover have "take (3 * ?len) s @ drop (3 * ?len) s @ 0 # r = s @ 0 # r"
    by (simp only: append_assoc[symmetric] append_take_drop_id)
  moreover have "length (take (3 * ?len) s) = 3 * ?len" "length (replicate (?len * 4 + 1) x) = 4 * ?len + 1" by simp_all
  ultimately show ?thesis
    using en_loop[of "take (3 * ?len) s" ?len "replicate (?len * 4 + 1) x" 1 "drop (3 * ?len) s @ 0 # r"] by metis
qed

lemma length_groups: "length (b64 (take (3 * (length s div 3)) s)) = 4 * (length s div 3)"
  by (simp add: length_b64)

lemma base64en_tail_overruns:
  assumes "0 \<notin> set s" "fst (malloc () m) \<noteq> None" "length s mod 3 \<noteq> 0"
  shows "base64en x (s @ 0 # r) m = None"
proof -
  let ?len = "length s div 3" and ?p = "b64 (take (3 * (length s div 3)) s)"
  have j: "length s - ?len * 3 > 0" using assms(3) mod_div_mult_eq[of "length s" 3] by linarith
  have "wr (?p @ [y]) (?len * 4 + 1) t = None" for y t by (simp add: length_groups)
  then have "en_tail (s @ 0 # r) ?len (length s - ?len * 3) (?p @ [x]) = None"
    using length_groups[of s] by (auto simp: en_tail_def bind_eq_None_conv wr_append mult.commute)
  then show ?thesis
    using assms(1,2) j by (simp add: base64en_def Let_def malloc_either[of "_ :: u8 list" m] en_groups[simplified])
qed

lemma whole_groups_checked:
  assumes "length s mod 3 = 0" "length s < 2 ^ 30"
  shows "check_chars (b64 s @ [0]) 0 (unat (of_nat (length (b64 s)) - 1 :: u64)) = Some (s \<noteq> [])"
proof (cases "s = []")
  case True
  then show ?thesis by (subst check_chars.simps) (simp add: unsigned_minus_1_eq_mask)
next
  case False
  have len: "length (b64 s) = 4 * (length s div 3)" using assms(1) by (auto simp: length_b64)
  moreover have "0 < length s div 3" "length s div 3 < 2 ^ 30"
    using False assms by (auto simp: div_greater_zero_iff dest: dvd_imp_le)
  ultimately have "unat (of_nat (length (b64 s)) - 1 :: u64) = length (b64 s) - 1"
    by (subst unat_of_nat_pred) auto
  moreover have "check_chars (b64 s @ [0]) 0 (length (b64 s) - 1) = Some True"
    using b64_valid(2)[OF assms(1)] by (subst check_chars_eq) (auto simp: nth_append)
  ultimately show ?thesis using False by simp
qed

lemma base64en_whole:
  assumes "0 \<notin> set s" "length s < 2 ^ 30" "fst (malloc () m) \<noteq> None" "length s mod 3 = 0"
  shows "base64en x (s @ 0 # r) m
    = Some ((if s = [] then - 1 else 4 * int (length s div 3), b64 s @ [0]), snd (malloc () m))"
proof -
  let ?len = "length s div 3"
  have all: "take (3 * ?len) s = s" "length s - ?len * 3 = 0" and len: "length (b64 s) = ?len * 4"
    using assms(4) by (auto simp: length_b64)
  have "wr (b64 s @ [x]) (?len * 4) 0 = Some (b64 s @ [0])" using len by (intro wr_append) simp
  moreover have "strlen (b64 s @ [0]) = Some (length (b64 s))" using b64_valid(1)[OF assms(4)] by simp
  ultimately show ?thesis
    using assms(1,3) all len whole_groups_checked[OF assms(4,2)]
    by (simp add: base64en_def Let_def malloc_either[of "_ :: u8 list" m] en_groups[simplified])
qed

text \<open>C17: The encoder. For a string of \<open>3 * k\<close> characters, \<open>k > 0\<close>, whose allocation succeeds,
  \<open>base64en\<close> returns \<open>4 * k\<close> and stores the NUL-terminated base-64 text of the string: every group
  of three bytes, read as a number of 24 bits, becomes its four digits to the base 64. For the
  empty string it returns \<open>-1\<close>. For a string whose length is not a multiple of three, or when the
  allocation fails, it writes outside the memory it has allocated.\<close>
theorem base64en_correct:
  assumes "0 \<notin> set s" "length s < 2 ^ 30"
  shows "base64en x (s @ 0 # r) m =
    (if length s mod 3 \<noteq> 0 \<or> fst (malloc () m) = None then None
     else if s = [] then Some ((- 1, [0]), snd (malloc () m))
     else Some ((4 * int (length s div 3), b64 s @ [0]), snd (malloc () m)))"
  using base64en_no_memory[OF assms(1)] base64en_tail_overruns[OF assms(1)] base64en_whole[OF assms] by (simp, blast)

subsection \<open>The decoder\<close>

lemma unat_code: "k < 64 \<Longrightarrow> unat (word_of_int (base64_index (BASE64_TABLE ! k)) :: u8) = k"
  by (simp add: TABLE_facts unat_of_nat)

lemma de_bytes:
  fixes a b c c0 c1 c2 c3 :: u8
  assumes "unat c0 = unat a div 4" "unat c1 = unat a mod 4 * 16 + unat b div 16"
  shows "push_bit 2 c0 + drop_bit 4 c1 = a"
    and "unat c2 = unat b mod 16 * 4 + unat c div 64 \<Longrightarrow> push_bit 4 c1 + drop_bit 2 c2 = b"
    and "unat c2 = unat b mod 16 * 4 + unat c div 64 \<Longrightarrow> unat c3 = unat c mod 64 \<Longrightarrow> push_bit 6 (and c2 3) + c3 = c"
proof -
  have small: "unat a < 256" "unat b < 256" "unat c < 256" by (rule u8_bound)+
  have q: "(y * 16 + z) div 16 = y" if "z < 16" for y z :: nat using that by simp
  have r: "(y * 4 + z) div 4 = y" if "z < 4" for y z :: nat using that by simp
  have b16: "unat b div 16 < 16" and c64: "unat c div 64 < 4" using small by (simp_all add: less_mult_imp_div_less)
  have "unat (push_bit 2 c0 + drop_bit 4 c1) = (unat a div 4 * 4 mod 256 + unat a mod 4) mod 256"
    unfolding unat_parts assms using q[OF b16] by simp
  also have "\<dots> = unat a"
  proof -
    have "unat a div 4 * 4 + unat a mod 4 = unat a" by simp
    then show ?thesis using small(1) by (simp add: mod_add_left_eq)
  qed
  finally show "push_bit 2 c0 + drop_bit 4 c1 = a" by (rule unsigned_word_eqI)
  assume c2: "unat c2 = unat b mod 16 * 4 + unat c div 64"
  have "unat (push_bit 4 c1 + drop_bit 2 c2) = ((unat a mod 4 * 16 + unat b div 16) * 16 mod 256 + unat b mod 16) mod 256"
    unfolding unat_parts assms c2 using r[OF c64] by simp
  also have "(unat a mod 4 * 16 + unat b div 16) * 16 mod 256 = unat b div 16 * 16"
  proof -
    have "(unat a mod 4 * 16 + unat b div 16) * 16 = unat b div 16 * 16 + 256 * (unat a mod 4)" by simp
    also have "\<dots> mod 256 = unat b div 16 * 16" using b16 by (simp only: mod_mult_self2) simp
    finally show ?thesis .
  qed
  also have "(unat b div 16 * 16 + unat b mod 16) mod 256 = unat b" using small(2) by simp
  finally show "push_bit 4 c1 + drop_bit 2 c2 = b" by (rule unsigned_word_eqI)
  assume c3: "unat c3 = unat c mod 64"
  have "(unat b mod 16 * 4 + unat c div 64) mod 4 = unat c div 64" using c64 by simp
  moreover have "unat c div 64 * 64 < 256" using c64 by simp
  moreover have "unat c div 64 * 64 + unat c mod 64 = unat c" by simp
  ultimately have "unat (push_bit 6 (and c2 3) + c3) = unat c"
    unfolding take6 unat_parts c2 c3 using small(3) by simp
  then show "push_bit 6 (and c2 3) + c3 = c" by (rule unsigned_word_eqI)
qed

lemma de_code_eq:
  "rd src i = Some (BASE64_TABLE ! k) \<Longrightarrow> k < 64 \<Longrightarrow> \<exists>c. de_code src i = Some c \<and> unat c = k"
  by (simp add: de_code_def unat_code)

lemma quad_codes:
  assumes "\<And>j. j < 4 \<Longrightarrow> rd src (i * 4 + j) = Some (quad a b c ! j)"
  obtains c0 c1 c2 c3 where "de_code src (i * 4) = Some c0" "de_code src (i * 4 + 1) = Some c1"
    "de_code src (i * 4 + 2) = Some c2" "de_code src (i * 4 + 3) = Some c3"
    "push_bit 2 c0 + drop_bit 4 c1 = a" "push_bit 4 c1 + drop_bit 2 c2 = b" "push_bit 6 (and c2 3) + c3 = c"
proof -
  have "rd src (i * 4) = Some (BASE64_TABLE ! (unat a div 4))"
    "rd src (i * 4 + 1) = Some (BASE64_TABLE ! (unat a mod 4 * 16 + unat b div 16))"
    "rd src (i * 4 + 2) = Some (BASE64_TABLE ! (unat b mod 16 * 4 + unat c div 64))"
    "rd src (i * 4 + 3) = Some (BASE64_TABLE ! (unat c mod 64))"
    using assms[of 0] assms[of 1] assms[of 2] assms[of 3] unfolding quad_eq by simp_all
  then obtain c0 c1 c2 c3 where c: "de_code src (i * 4) = Some c0" "unat c0 = unat a div 4"
    "de_code src (i * 4 + 1) = Some c1" "unat c1 = unat a mod 4 * 16 + unat b div 16"
    "de_code src (i * 4 + 2) = Some c2" "unat c2 = unat b mod 16 * 4 + unat c div 64"
    "de_code src (i * 4 + 3) = Some c3" "unat c3 = unat c mod 64"
    using de_code_eq digit_bounds by metis
  show thesis using that[OF c(1,3,5,7)] de_bytes[OF c(2,4)] c(6,8) by blast
qed

lemma de_group_eq:
  assumes "\<And>j. j < 4 \<Longrightarrow> rd src (i * 4 + j) = Some (quad a b c ! j)" "length p = i * 3"
  shows "de_group src i (p @ q0 # q1 # q2 # qs) = Some (p @ a # b # c # qs)"
proof -
  obtain c0 c1 c2 c3 where c: "de_code src (i * 4) = Some c0" "de_code src (i * 4 + 1) = Some c1"
    "de_code src (i * 4 + 2) = Some c2" "de_code src (i * 4 + 3) = Some c3"
    "push_bit 2 c0 + drop_bit 4 c1 = a" "push_bit 4 c1 + drop_bit 2 c2 = b" "push_bit 6 (and c2 3) + c3 = c"
    using quad_codes[OF assms(1)] by blast
  have w: "wr (p @ q0 # q1 # q2 # qs) (i * 3) t0 = Some (p @ t0 # q1 # q2 # qs)"
    "wr (p @ t0 # q1 # q2 # qs) (i * 3 + 1) t1 = Some (p @ t0 # t1 # q2 # qs)"
    "wr (p @ t0 # t1 # q2 # qs) (i * 3 + 2) t2 = Some (p @ t0 # t1 # t2 # qs)" for t0 t1 t2
    by (simp_all add: wr_def assms(2)[symmetric] list_update_append)
  show ?thesis
    unfolding de_group_def using c w by (simp only: Option.bind.bind_lunit)
qed

lemma nth_b64_quad:
  assumes "i * 3 + 2 < length s" "j < 4"
  shows "b64 s ! (i * 4 + j) = quad (s ! (i * 3)) (s ! (i * 3 + 1)) (s ! (i * 3 + 2)) ! j"
proof -
  let ?Q = "quad (s ! (i * 3)) (s ! (i * 3 + 1)) (s ! (i * 3 + 2))"
  have "b64 s = b64 (take (Suc i * 3) s @ drop (Suc i * 3) s)" by (simp only: append_take_drop_id)
  also have "\<dots> = b64 (take (i * 3) s) @ quad (s ! (i * 3)) (s ! (i * 3 + 1)) (s ! (i * 3 + 2)) @ b64 (drop (Suc i * 3) s)"
    using assms(1) take_3_more[OF assms(1)] by (simp add: b64_append min_absorb2 flip: append_assoc)
  finally have "b64 s ! (i * 4 + j) = (b64 (take (i * 3) s) @ ?Q @ b64 (drop (Suc i * 3) s)) ! (i * 4 + j)"
    by (rule arg_cong)
  also have "\<dots> = ?Q ! j"
  proof -
    have "length (take (i * 3) s) = i * 3" using assms(1) by simp
    then have "length (b64 (take (i * 3) s)) = i * 4" unfolding length_b64 by simp
    then show ?thesis using assms(2) by (simp add: nth_append)
  qed
  finally show ?thesis .
qed

lemma de_loop:
  assumes "3 * k \<le> length s" "3 * k \<le> length des" "take (4 * k) src = take (4 * k) (b64 s)"
  shows "for_up 0 k (de_group src) des = Some (take (3 * k) s @ drop (3 * k) des)"
proof -
  let ?g = "\<lambda>i. take (3 * i) s @ drop (3 * i) des"
  have len: "4 * k \<le> length (b64 s)" using assms(1) by (simp add: length_b64)
  have "for_up 0 k (de_group src) (?g 0) = Some (?g k)"
  proof (rule for_up_eq)
    fix i assume i: "i < k"
    have sz: "i * 3 + 2 < length s" "i * 3 + 2 < length des" using i assms by simp_all
    have rd: "rd src (i * 4 + j) = Some (quad (s ! (i * 3)) (s ! (i * 3 + 1)) (s ! (i * 3 + 2)) ! j)" if "j < 4" for j
    proof -
      have lt: "i * 4 + j < 4 * k" using i that by simp
      moreover have "4 * k \<le> length src" using assms(3) len by (metis length_take min.absorb2 min.absorb_iff1 nat_le_linear)
      moreover have "src ! (i * 4 + j) = b64 s ! (i * 4 + j)"
        using lt arg_cong[OF assms(3), of "\<lambda>xs. xs ! (i * 4 + j)"] by simp
      ultimately show ?thesis using nth_b64_quad[OF sz(1) that] by simp
    qed
    have d: "drop (3 * i) des = des ! (i * 3) # des ! (i * 3 + 1) # des ! (i * 3 + 2) # drop (3 * Suc i) des"
      using sz(2) Cons_nth_drop_Suc[of "i * 3" des] Cons_nth_drop_Suc[of "Suc (i * 3)" des]
        Cons_nth_drop_Suc[of "Suc (Suc (i * 3))" des] by (simp add: mult.commute eval_nat_numeral)
    have "length (take (3 * i) s) = i * 3" using sz by simp
    from de_group_eq[OF rd this] have "de_group src i (?g i)
        = Some (take (3 * i) s @ s ! (i * 3) # s ! (i * 3 + 1) # s ! (i * 3 + 2) # drop (3 * Suc i) des)"
      unfolding d by simp
    then show "de_group src i (?g i) = Some (?g (Suc i))"
      using take_3_more[OF sz(1)] by (simp add: mult.commute)
  qed simp
  then show ?thesis by simp
qed

lemma quad_neq_equals: "j < 4 \<Longrightarrow> quad a b c ! j \<noteq> equals_sign"
proof -
  assume "j < 4"
  then have "quad a b c ! j \<in> set (quad a b c)" by (intro nth_mem) simp
  then obtain k where "k < 64" "quad a b c ! j = BASE64_TABLE ! k" using quad_chars by blast
  then show ?thesis using TABLE_facts(3) by simp
qed

lemma de_tail_writes:
  assumes "length p = i * 3"
  shows "wr (p @ q0 # qs) (i * 3) t = Some (p @ t # qs)"
    "wr (p @ q0 # q1 # qs) (i * 3 + 1) t = Some (p @ q0 # t # qs)"
    "wr (p @ q0 # q1 # q2 # qs) (i * 3 + 2) t = Some (p @ q0 # q1 # t # qs)"
    "wr (p @ q0 # q1 # q2 # q3 # qs) (i * 3 + 3) t = Some (p @ q0 # q1 # q2 # t # qs)"
  by (simp_all add: wr_def assms(1)[symmetric] list_update_append)

lemma de_tail_3:
  assumes "\<And>j. j < 4 \<Longrightarrow> rd src (i * 4 + j) = Some (quad a b c ! j)" "length p = i * 3"
  shows "de_tail src i (p @ [q0, q1, q2, q3]) = Some (p @ [a, b, c, 0])"
proof -
  obtain c0 c1 c2 c3 where c: "de_code src (i * 4) = Some c0" "de_code src (i * 4 + 1) = Some c1"
    "de_code src (i * 4 + 2) = Some c2" "de_code src (i * 4 + 3) = Some c3"
    "push_bit 2 c0 + drop_bit 4 c1 = a" "push_bit 4 c1 + drop_bit 2 c2 = b" "push_bit 6 (and c2 3) + c3 = c"
    using quad_codes[OF assms(1)] by blast
  have x: "rd src (i * 4 + 2) = Some (quad a b c ! 2)" "rd src (i * 4 + 3) = Some (quad a b c ! 3)"
    using assms(1)[of 2] assms(1)[of 3] by simp_all
  have n: "(quad a b c ! 2 = equals_sign) = False" "(quad a b c ! 3 = equals_sign) = False"
    using quad_neq_equals by simp_all
  show ?thesis
    unfolding de_tail_def
    by (simp only: c x n de_tail_writes[OF assms(2)] Option.bind.bind_lunit if_False)
qed

lemma de_tail_2:
  assumes "\<And>j. j < 3 \<Longrightarrow> rd src (i * 4 + j) = Some (quad a b 0 ! j)" "rd src (i * 4 + 3) = Some equals_sign"
    "length p = i * 3"
  shows "de_tail src i (p @ [q0, q1, q2, q3]) = Some (p @ [a, b, 0, q3])"
proof -
  have "rd src (i * 4) = Some (BASE64_TABLE ! (unat a div 4))"
    "rd src (i * 4 + 1) = Some (BASE64_TABLE ! (unat a mod 4 * 16 + unat b div 16))"
    "rd src (i * 4 + 2) = Some (BASE64_TABLE ! (unat b mod 16 * 4 + unat (0 :: u8) div 64))"
    using assms(1)[of 0] assms(1)[of 1] assms(1)[of 2] unfolding quad_eq by simp_all
  then obtain c0 c1 c2 where c: "de_code src (i * 4) = Some c0" "unat c0 = unat a div 4"
    "de_code src (i * 4 + 1) = Some c1" "unat c1 = unat a mod 4 * 16 + unat b div 16"
    "de_code src (i * 4 + 2) = Some c2" "unat c2 = unat b mod 16 * 4 + unat (0 :: u8) div 64"
    using de_code_eq digit_bounds by metis
  note bytes = de_bytes(1)[OF c(2,4)] de_bytes(2)[OF c(2,4) c(6)]
  have x: "rd src (i * 4 + 2) = Some (quad a b 0 ! 2)" using assms(1)[of 2] by simp
  have n: "(quad a b 0 ! 2 = equals_sign) = False" using quad_neq_equals by simp
  show ?thesis
    unfolding de_tail_def
    by (simp only: c(1,3,5) x n bytes assms(2) de_tail_writes[OF assms(3)] Option.bind.bind_lunit if_False if_True simp_thms)
qed

text \<open>Every text is whole groups of three bytes and a tail of one to three.\<close>

lemma tail_cases:
  assumes "s \<noteq> []"
  obtains u t n where "s = u @ t" "length u = 3 * n" "length t = 1 \<or> length t = 2 \<or> length t = 3"
proof
  let ?n = "(length s - 1) div 3"
  show "s = take (3 * ?n) s @ drop (3 * ?n) s" by simp
  show "length (take (3 * ?n) s) = 3 * ?n" by (simp add: min_absorb2)
  have "length s \<noteq> 0" using assms by simp
  then show "length (drop (3 * ?n) s) = 1 \<or> length (drop (3 * ?n) s) = 2 \<or> length (drop (3 * ?n) s) = 3"
    unfolding length_drop by presburger
qed

lemma base64de_start:
  assumes "mem_ok m" "0 < k" "k < 2 ^ 30" "strlen src = Some (4 * k)"
  shows "base64de x src m = do {
    ok \<leftarrow> check_chars src 0 (4 * k - 1);
    if \<not> ok then Some ((- 32, replicate (3 * k + 1) x), tl m)
    else do {
      des \<leftarrow> for_up 0 (k - 1) (de_group src) (replicate (3 * k + 1) x);
      des \<leftarrow> de_tail src (k - 1) des;
      n \<leftarrow> strlen des;
      Some ((int n, des), tl m) } }"
proof -
  have b: "unat (of_nat k - 1 :: u32) = k - 1" "unat (of_nat (4 * k) - 1 :: u32) = 4 * k - 1"
    using assms(2,3) by (subst unat_of_nat_pred; simp)+
  have "unat (of_nat k - 1 + 1 :: u32) = k" using assms(3) by (simp add: unat_of_nat)
  note b = b this
  show ?thesis
  proof -
    have d: "4 * k div 4 = k" "unat (of_nat k :: u32) = k" using assms(3) by (simp_all add: unat_of_nat)
    show ?thesis
      unfolding base64de_def assms(4) Option.bind.bind_lunit Let_def d b malloc_ok[OF assms(1)] mult.commute[of k 3] prod.case option.case
      by simp
  qed
qed

text \<open>The decoder on the text of \<open>u @ t\<close>, \<open>u\<close> whole groups and \<open>t\<close> the tail: what it reads, and that
  its validity loop stops at two padding characters only.\<close>

lemma b64_tail:
  assumes "length u = 3 * n" "0 < length t" "length t \<le> 3"
  shows "b64 (u @ t) = b64 u @ b64 t" "length (b64 u) = 4 * n" "length (b64 (u @ t)) = 4 * Suc n"
    and "j < 4 \<Longrightarrow> rd (b64 (u @ t) @ 0 # r) (n * 4 + j) = Some (b64 t ! j)"
proof -
  have "(length t + 2) div 3 = 1" using assms(2,3) by presburger
  then have "length (b64 t) = 4" by (simp add: length_b64)
  moreover show a: "b64 (u @ t) = b64 u @ b64 t" and l: "length (b64 u) = 4 * n"
    using assms(1) by (simp_all add: b64_append length_b64)
  ultimately show "length (b64 (u @ t)) = 4 * Suc n"
    "j < 4 \<Longrightarrow> rd (b64 (u @ t) @ 0 # r) (n * 4 + j) = Some (b64 t ! j)"
    by (simp_all add: nth_append mult.commute)
qed

lemma b64_nonzero: "0 \<notin> set (b64 s)"
proof (induction s rule: b64.induct)
  case (1 a b c r)
  then show ?case using quad_chars[of a b c] TABLE_facts(2) by force
next
  case (2 a b)
  then show ?case using quad_chars[of a b 0] TABLE_facts(2) by (force dest: in_set_takeD)
next
  case (3 a)
  then show ?case using quad_chars[of a 0 0] TABLE_facts(2) by (force dest: in_set_takeD)
qed simp

lemma de_groups:
  assumes "length u = 3 * n" "0 < length t" "length t \<le> 3"
  shows "for_up 0 n (de_group (b64 (u @ t) @ 0 # r)) (replicate (3 * Suc n + 1) x) = Some (u @ [x, x, x, x])"
proof -
  have "drop (3 * n) (replicate (3 * Suc n + 1) x) = [x, x, x, x]"
    by (simp only: drop_replicate) (simp add: numeral_eq_Suc)
  then show ?thesis
    using de_loop[of n "u @ t" "replicate (3 * Suc n + 1) x" "b64 (u @ t) @ 0 # r"] assms b64_tail(3)[OF assms] by simp
qed

lemma tail_digit:
  assumes "length t = 2 \<or> length t = 3" "j < 3"
  shows "base64_index (b64 t ! j) \<ge> 0"
proof -
  consider (two) a b where "t = [a, b]" | (three) a b c where "t = [a, b, c]"
    using assms(1) by (auto simp: length_Suc_conv numeral_3_eq_3 numeral_2_eq_2)
  then have "\<exists>a b c. b64 t ! j = quad a b c ! j"
    by cases (use assms(2) in \<open>auto simp: nth_append\<close>)
  then obtain a b c where "b64 t ! j = quad a b c ! j" by blast
  moreover have "quad a b c ! j \<in> set (quad a b c)" using assms(2) by (intro nth_mem) simp
  ultimately show ?thesis using quad_chars[of a b c] TABLE_facts(1) by force
qed

lemma tail_checked:
  assumes "length u = 3 * n" "0 < length t" "length t \<le> 3"
  shows "check_chars (b64 (u @ t) @ 0 # r) 0 (4 * n + 3) = Some (length t \<noteq> 1)"
proof -
  let ?src = "b64 (u @ t) @ 0 # r"
  note tail = b64_tail[OF assms]
  have at: "?src ! (4 * n + i) = b64 t ! i" if "i < 4" for i
    using tail(4)[OF that, of r] tail(3) that by (simp add: mult.commute)
  have "(\<forall>j<4 * n + 3. base64_index (?src ! j) \<ge> 0) = (length t \<noteq> 1)"
  proof (cases "length t = 1")
    case True
    then obtain a where "t = [a]" by (auto simp: length_Suc_conv)
    then have "?src ! (4 * n + 2) = equals_sign" using at[of 2] by (simp add: nth_append)
    then show ?thesis using True by (auto intro!: exI[of _ "4 * n + 2"])
  next
    case False
    have "base64_index (?src ! j) \<ge> 0" if j: "j < 4 * n + 3" for j
    proof (cases "j < 4 * n")
      case True
      then show ?thesis using b64_valid(2)[of u j] assms(1) tail(1,2) by (simp add: nth_append)
    next
      case ge: False
      then obtain i where "j = 4 * n + i" "i < 3" using j by (metis add_less_cancel_left le_Suc_ex not_less)
      moreover have "length t = 2 \<or> length t = 3" using False assms(2,3) by linarith
      ultimately show ?thesis using at[of i] tail_digit[of t i] by simp
    qed
    then show ?thesis using False by blast
  qed
  then show ?thesis using tail(3) by (subst check_chars_eq) auto
qed

lemma tail_decoded:
  assumes "length u = 3 * n" "length t = 2 \<or> length t = 3"
  shows "\<exists>rest. de_tail (b64 (u @ t) @ 0 # r) n (u @ [x, x, x, x]) = Some (u @ t @ 0 # rest)"
proof -
  have le: "0 < length t" "length t \<le> 3" using assms(2) by auto
  note rd = b64_tail(4)[OF assms(1) le, of _ r]
  consider (two) a b where "t = [a, b]" | (three) a b c where "t = [a, b, c]"
    using assms(2) by (auto simp: length_Suc_conv numeral_3_eq_3 numeral_2_eq_2)
  then show ?thesis
  proof cases
    case two
    have "de_tail (b64 (u @ t) @ 0 # r) n (u @ [x, x, x, x]) = Some (u @ [a, b, 0, x])"
      using assms(1) rd two by (intro de_tail_2) (simp_all add: nth_append)
    then show ?thesis using two by simp
  next
    case three
    have "de_tail (b64 (u @ t) @ 0 # r) n (u @ [x, x, x, x]) = Some (u @ [a, b, c, 0])"
      using assms(1) rd three by (intro de_tail_3) simp_all
    then show ?thesis using three by simp
  qed
qed

text \<open>C19: The decoder on encoded text. Applied to the base-64 text of any non-empty string of
  fewer than \<open>2 ^ 30\<close> bytes, \<open>base64de\<close> restores the string and returns its length when the
  length is \<open>3 * n\<close> or \<open>3 * n + 2\<close>; a text that ends in two padding characters is rejected with
  \<open>-32\<close>, because the validity loop runs over all characters but the last.\<close>
theorem base64de_inverts:
  assumes "0 \<notin> set s" "s \<noteq> []" "length s < 2 ^ 30" "mem_ok m"
  shows "\<exists>rest. base64de x (b64 s @ 0 # r) m =
    (if length s mod 3 = 1 then Some ((- 32, rest), tl m) else Some ((int (length s), s @ 0 # rest), tl m))"
proof -
  obtain u t n where s: "s = u @ t" "length u = 3 * n" and t: "length t = 1 \<or> length t = 2 \<or> length t = 3"
    using tail_cases[OF assms(2)] by blast
  then have t': "0 < length t" "length t \<le> 3" and one: "length s mod 3 = 1 \<longleftrightarrow> length t = 1" by auto
  have "strlen (b64 s @ 0 # r) = Some (4 * Suc n)" "0 < Suc n" "Suc n < 2 ^ 30" "4 * Suc n - 1 = 4 * n + 3"
    using b64_nonzero[of s] b64_tail(3)[OF s(2) t'] s assms(3) t' by simp_all
  note start = base64de_start[OF assms(4) this(2,3,1), unfolded this(4) s(1) tail_checked[OF s(2) t']]
  show ?thesis
  proof (cases "length t = 1")
    case True
    then show ?thesis using start one s(1) by simp
  next
    case False
    then obtain rest where "de_tail (b64 (u @ t) @ 0 # r) n (u @ [x, x, x, x]) = Some (u @ t @ 0 # rest)"
      using tail_decoded[OF s(2), of t r x] t by blast
    moreover have "strlen (u @ t @ 0 # rest) = Some (length s)"
      using strlen_append[of s rest] assms(1) s(1) by simp
    ultimately show ?thesis using start de_groups[OF s(2) t', of r x] False one s(1) by simp
  qed
qed

lemma base64de_inverts_witness:
  "\<exists>rest. base64de 7 (b64 [104, 105, 33, 104, 105] @ [0]) [] = Some ((5, [104, 105, 33, 104, 105, 0] @ rest), [])"
proof -
  have "0 \<notin> set [104, 105, 33, 104, 105 :: u8]" "length [104, 105, 33, 104, 105 :: u8] < 2 ^ 30" by simp_all
  from base64de_inverts[OF this(1) _ this(2) mem_ok_Nil, of 7 "[]"] show ?thesis by simp
qed

lemma base64en_correct_witness:
  "base64en 7 ([104, 105, 33] @ [0]) [] = Some ((4, [97, 71, 107, 104, 0]), [])
   \<and> base64en 7 ([104, 105] @ [0]) [] = None"
proof
  have "b64 [104, 105, 33] = [97, 71, 107, 104]" by (simp add: quad_eq BASE64_TABLE_def)
  then show "base64en 7 ([104, 105, 33] @ [0]) [] = Some ((4, [97, 71, 107, 104, 0]), [])"
    using base64en_correct[of "[104, 105, 33]" 7 "[]" "[]"] by simp
  show "base64en 7 ([104, 105] @ [0]) [] = None"
    using base64en_correct[of "[104, 105]" 7 "[]" "[]"] by simp
qed

text \<open>Further result: The decoder on texts of one to three characters. \<open>lenth / 4 - 1\<close> wraps around to
  \<open>2 ^ 32 - 1\<close>: the code allocates a single byte and then writes whole groups of three, so a text
  whose characters but the last are in the alphabet makes it write past its buffer.\<close>
theorem base64de_short:
  assumes "0 \<notin> set s" "0 < length s" "length s \<le> 3" "mem_ok m"
    "\<And>j. j < length s - 1 \<Longrightarrow> base64_index (s ! j) \<ge> 0"
  shows "base64de x (s @ 0 # r) m = None"
proof -
  have z: "length s div 4 = 0" using assms(3) by simp
  have lens: "length s = 1 \<or> length s = 2 \<or> length s = 3" using assms(2,3) by linarith
  have l: "unat (of_nat (length s) - 1 :: u32) = length s - 1"
    using assms(2,3) by (subst unat_of_nat_pred) simp_all
  have "check_chars (s @ 0 # r) 0 (length s - 1) = Some True"
    using assms(2,5) by (subst check_chars_eq) (auto simp: nth_append)
  moreover have "de_group (s @ 0 # r) 0 [x] = None"
    by (auto simp: de_group_def bind_eq_None_conv wr_def)
  then have "for_up 0 (unat (- 1 :: u32)) (de_group (s @ 0 # r)) [x] = None"
    by (intro for_up_None) (simp_all add: unsigned_minus_1_eq_mask)
  moreover have "replicate (unat (of_nat 0 - 1 + 1 :: u32) * 3 + 1) x = [x]" "(of_nat 0 - 1 :: u32) = - 1" by simp_all
  moreover have "strlen (s @ 0 # r) = Some (length s)" using assms(1) by simp
  ultimately show ?thesis
    unfolding base64de_def by (simp only: Option.bind.bind_lunit Let_def l z malloc_ok[OF assms(4)] prod.case option.case
      simp_thms if_False Option.bind.bind_lzero)
qed

lemma base64de_short_witness: "base64de 7 [81, 81, 0] [] = None"
proof -
  have "base64_index ([81, 81 :: u8] ! j) \<ge> 0" if "j < length [81, 81 :: u8] - 1" for j
    using that by simp code_simp
  then show ?thesis using base64de_short[of "[81, 81]" "[]" 7 "[]"] by simp
qed

end
