(* ===== verification/Delay_Task.thy ===== *)
theory Delay_Task
  imports C_Base
begin

text \<open>
  \<open>A-V/libRtspServer/src/delay_task.c\<close>: the queue of delayed tasks of the RTSP server. Each task
  keeps its delay relative to the task before it. The queue is an intrusive list of the Linux
  kernel's \<open>list.h\<close>; here it is the list of the tasks with their addresses. The member
  \<open>delay_task_queue\<close> is the last one of \<open>struct rtsp_srv\<close>, so the address that
  \<open>list_entry\<close> computes for the list head has its \<open>delta_time\<close> behind the structure: writing it
  has no result.

  \<open>gettimeofday\<close> is the list of the coming readings in microseconds; past its end the clock stands
  still. A callback is named by a value of type \<open>'p\<close>.
\<close>

subsection \<open>State\<close>

record 'p delay_task =
  addr :: nat
  delta_time :: int
  arg :: nat
  proc :: 'p

record 'p timers =
  delay_task_queue :: "'p delay_task list"
  last_sync_time :: u64
  clock :: "u64 list"

definition time_now :: "('p, 'z) timers_scheme \<Rightarrow> u64 \<times> ('p, 'z) timers_scheme" where
  "time_now s = (case clock s of [] \<Rightarrow> (last_sync_time s, s) | c # cs \<Rightarrow> (c, s\<lparr>clock := cs\<rparr>))"

subsection \<open>Synchronisation\<close>

fun sync_loop :: "int \<Rightarrow> 'p delay_task list \<Rightarrow> 'p delay_task list option" where
  "sync_loop elapsed [] = Some []"
| "sync_loop elapsed (t # ts) =
    (if delta_time t \<le> elapsed then do {
       e \<leftarrow> c_int (elapsed - delta_time t);
       ts \<leftarrow> sync_loop e ts;
       Some (t\<lparr>delta_time := 0\<rparr> # ts) }
     else do {
       d \<leftarrow> c_int (delta_time t - elapsed);
       Some (t\<lparr>delta_time := d\<rparr> # ts) })"

definition elapsed_since :: "u64 \<Rightarrow> u64 \<Rightarrow> int" where
  "elapsed_since sync now = (if uint (now - sync) \<ge> INT_MAX then 0 else uint (now - sync))"

definition sync_delay_time :: "('p, 'z) timers_scheme \<Rightarrow> ('p, 'z) timers_scheme option" where
  "sync_delay_time s = (let (now, s) = time_now s in
     if now < last_sync_time s then Some (s\<lparr>last_sync_time := now\<rparr>)
     else do {
       q \<leftarrow> sync_loop (elapsed_since (last_sync_time s) now) (delay_task_queue s);
       Some (s\<lparr>delay_task_queue := q, last_sync_time := now\<rparr>) })"

definition get_min_delay_time :: "('p, 'z) timers_scheme \<Rightarrow> (int \<times> ('p, 'z) timers_scheme) option" where
  "get_min_delay_time s = (if delay_task_queue s \<noteq> [] then do {
       s \<leftarrow> sync_delay_time s;
       Some (delta_time (hd (delay_task_queue s)), s) }
     else Some (- 1, s))"

subsection \<open>Insertion and removal\<close>

fun add_loop :: "'p delay_task \<Rightarrow> 'p delay_task list \<Rightarrow> 'p delay_task list option" where
  "add_loop t [] = Some [t]"
| "add_loop t (u # us) =
    (if delta_time u > delta_time t then do {
       d \<leftarrow> c_int (delta_time u - delta_time t);
       Some (t # u\<lparr>delta_time := d\<rparr> # us) }
     else do {
       d \<leftarrow> c_int (delta_time t - delta_time u);
       us \<leftarrow> add_loop (t\<lparr>delta_time := d\<rparr>) us;
       Some (u # us) })"

definition add_delay_task :: "'p delay_task \<Rightarrow> ('p, 'z) timers_scheme \<Rightarrow> ('p, 'z) timers_scheme option" where
  "add_delay_task t s = do {
     s \<leftarrow> sync_delay_time s;
     q \<leftarrow> add_loop t (delay_task_queue s);
     Some (s\<lparr>delay_task_queue := q\<rparr>) }"

text \<open>The removal of the task at an address; \<open>single\<close> is \<open>list_is_singular\<close>. A task that is not
  in the queue has poisoned links.\<close>

fun unlink :: "bool \<Rightarrow> nat \<Rightarrow> 'p delay_task list \<Rightarrow> ('p delay_task \<times> 'p delay_task list) option" where
  "unlink single a [] = None"
| "unlink single a (t # ts) =
    (if addr t = a then
       (if single then Some (t, ts)
        else case ts of
          [] \<Rightarrow> None
        | u # us \<Rightarrow> do {
            d \<leftarrow> c_int (delta_time u + delta_time t);
            Some (t, u\<lparr>delta_time := d\<rparr> # us) })
     else do {
       (x, ts) \<leftarrow> unlink single a ts;
       Some (x, t # ts) })"

definition del_delay_task :: "nat \<Rightarrow> ('p, 'z) timers_scheme \<Rightarrow> ('p delay_task \<times> ('p, 'z) timers_scheme) option" where
  "del_delay_task a s = do {
     (t, q) \<leftarrow> unlink (length (delay_task_queue s) = 1) a (delay_task_queue s);
     Some (t, s\<lparr>delay_task_queue := q\<rparr>) }"

subsection \<open>The operations of the interface\<close>

text \<open>\<open>a\<close> is the address that the allocator returns.\<close>

definition create_delay_task ::
  "nat \<Rightarrow> 'p \<Rightarrow> nat \<Rightarrow> int \<Rightarrow> ('p, 'z) timers_scheme \<times> mem \<Rightarrow> (nat option \<times> ('p, 'z) timers_scheme \<times> mem) option" where
  "create_delay_task a p x delay = (\<lambda>(s, m). case malloc a m of
     (None, m) \<Rightarrow> Some (None, s, m)
   | (Some a, m) \<Rightarrow> do {
       s \<leftarrow> add_delay_task \<lparr>addr = a, delta_time = delay, arg = x, proc = p\<rparr> s;
       Some (Some a, s, m) })"

definition destroy_delay_task :: "nat \<Rightarrow> ('p, 'z) timers_scheme \<Rightarrow> ('p, 'z) timers_scheme option" where
  "destroy_delay_task a s = (if a \<in> set (map addr (delay_task_queue s)) then do {
       (t, s) \<leftarrow> del_delay_task a s;
       Some s }
     else Some s)"

definition update_delay_time :: "nat \<Rightarrow> int \<Rightarrow> ('p, 'z) timers_scheme \<Rightarrow> ('p, 'z) timers_scheme option" where
  "update_delay_time a delay s = do {
     (t, s) \<leftarrow> del_delay_task a s;
     add_delay_task (t\<lparr>delta_time := delay\<rparr>) s }"

text \<open>\<open>run p x\<close> is the callback \<open>p\<close> applied to the argument \<open>x\<close>; it may itself change the queue.\<close>

definition do_delay_task ::
  "('p \<Rightarrow> nat \<Rightarrow> ('p, 'z) timers_scheme \<Rightarrow> (int \<times> ('p, 'z) timers_scheme) option)
    \<Rightarrow> ('p, 'z) timers_scheme \<Rightarrow> ('p, 'z) timers_scheme option" where
  "do_delay_task run s = (case delay_task_queue s of
     [] \<Rightarrow> Some s
   | t # _ \<Rightarrow> do {
       s \<leftarrow> (if delta_time t \<noteq> 0 then sync_delay_time s else Some s);
       let t = hd (delay_task_queue s);
       if delta_time t = 0 then do {
         (next_delay, s) \<leftarrow> run (proc t) (arg t) s;
         if next_delay \<ge> 0 then update_delay_time (addr t) next_delay s
         else destroy_delay_task (addr t) s }
       else Some s })"

text \<open>\<open>list_for_each_entry_safe\<close> fetches the successor before the body runs; the bodies here remove
  only the current task.\<close>

fun destroy_matching :: "nat \<Rightarrow> nat list \<Rightarrow> ('p, 'z) timers_scheme \<Rightarrow> ('p, 'z) timers_scheme option" where
  "destroy_matching x [] s = Some s"
| "destroy_matching x (a # as) s =
    (if \<exists>t \<in> set (delay_task_queue s). addr t = a \<and> arg t = x then do {
       s \<leftarrow> destroy_delay_task a s;
       destroy_matching x as s }
     else destroy_matching x as s)"

definition destroy_sess_task :: "nat \<Rightarrow> ('p, 'z) timers_scheme \<Rightarrow> ('p, 'z) timers_scheme option" where
  "destroy_sess_task x s = destroy_matching x (map addr (delay_task_queue s)) s"

definition init_delay_task_queue :: "('p, 'z) timers_scheme \<Rightarrow> ('p, 'z) timers_scheme" where
  "init_delay_task_queue s = (let s = s\<lparr>delay_task_queue := []\<rparr>; (now, s) = time_now s in
     s\<lparr>last_sync_time := now\<rparr>)"

end
