(* ===== verification/Delay_Task_Correct.thy ===== *)
theory Delay_Task_Correct
  imports Delay_Task
begin

text \<open>
  The queue of \<open>delay_task.c\<close> against the contract of a timer queue. The locale \<open>timer_queue\<close> states
  what a client relies on: the view of the pending timers with their remaining times, and what
  synchronising, adding and removing do to it; \<open>run_accurate\<close> is proved in it once. The
  interpretation \<open>delays\<close> discharges it on the loops of the code through \<open>due\<close>, the running sums
  of the relative delays.
\<close>

subsection \<open>The contract of a timer queue\<close>

text \<open>What a client of the queue sees: the pending timers with the time that remains to each, in
  the order in which they fall due.\<close>

type_synonym view = "(nat \<times> int) list"

definition view_advance :: "int \<Rightarrow> view \<Rightarrow> view" where
  "view_advance e V = map (\<lambda>(a, r). (a, max 0 (r - e))) V"

definition view_add :: "nat \<Rightarrow> int \<Rightarrow> view \<Rightarrow> view" where
  "view_add a d V = takeWhile (\<lambda>(_, r). r \<le> d) V @ (a, d) # dropWhile (\<lambda>(_, r). r \<le> d) V"

definition view_remove :: "nat \<Rightarrow> view \<Rightarrow> view" where
  "view_remove a V = filter (\<lambda>(b, _). b \<noteq> a) V"

datatype timer_op = Advance int | Add nat int | Remove nat

fun view_op :: "timer_op \<Rightarrow> view \<Rightarrow> view" where
  "view_op (Advance e) V = view_advance e V"
| "view_op (Add a d) V = view_add a d V"
| "view_op (Remove a) V = view_remove a V"

fun legal :: "timer_op \<Rightarrow> view \<Rightarrow> bool" where
  "legal (Advance e) V \<longleftrightarrow> 0 \<le> e \<and> e \<le> INT_MAX"
| "legal (Add a d) V \<longleftrightarrow> a \<notin> fst ` set V \<and> 0 \<le> d \<and> d \<le> INT_MAX"
| "legal (Remove a) V \<longleftrightarrow> a \<in> fst ` set V \<and> (length V = 1 \<or> fst (last V) \<noteq> a)"

fun legal_ops :: "timer_op list \<Rightarrow> view \<Rightarrow> bool" where
  "legal_ops [] V \<longleftrightarrow> True"
| "legal_ops (c # cs) V \<longleftrightarrow> legal c V \<and> legal_ops cs (view_op c V)"

fun time_passed :: "timer_op list \<Rightarrow> int" where
  "time_passed [] = 0"
| "time_passed (Advance e # cs) = e + time_passed cs"
| "time_passed (_ # cs) = time_passed cs"

fun run_ops :: "(timer_op \<Rightarrow> 'q \<Rightarrow> 'q option) \<Rightarrow> timer_op list \<Rightarrow> 'q \<Rightarrow> 'q option" where
  "run_ops step [] q = Some q"
| "run_ops step (c # cs) q = step c q \<bind> run_ops step cs"

lemma keys_view_op [simp]:
  "fst ` set (view_advance e V) = fst ` set V"
  "fst ` set (view_add a d V) = insert a (fst ` set V)"
  "fst ` set (view_remove a V) = fst ` set V - {a}"
proof -
  show "fst ` set (view_advance e V) = fst ` set V" by (force simp: view_advance_def)
  have "set V = set (takeWhile (\<lambda>(_, r). r \<le> d) V) \<union> set (dropWhile (\<lambda>(_, r). r \<le> d) V)"
    by (metis set_append takeWhile_dropWhile_id)
  then show "fst ` set (view_add a d V) = insert a (fst ` set V)" by (auto simp: view_add_def)
  show "fst ` set (view_remove a V) = fst ` set V - {a}" by (force simp: view_remove_def)
qed

lemma time_passed_nonneg: "legal_ops cs V \<Longrightarrow> 0 \<le> time_passed cs"
  by (induction cs arbitrary: V rule: time_passed.induct) fastforce+

lemma mem_view_op:
  assumes "legal c V" "c \<noteq> Remove a" "(a, r) \<in> set V" "distinct (map fst V)"
  shows "(a, case c of Advance e \<Rightarrow> max 0 (r - e) | _ \<Rightarrow> r) \<in> set (view_op c V)"
proof (cases c)
  case (Advance e)
  then show ?thesis using assms by (force simp: view_advance_def)
next
  case (Add b d)
  have "(a, r) \<in> set (takeWhile (\<lambda>(_, r). r \<le> d) V) \<union> set (dropWhile (\<lambda>(_, r). r \<le> d) V)"
    using assms(3) by (metis set_append takeWhile_dropWhile_id)
  then show ?thesis using Add by (auto simp: view_add_def)
next
  case (Remove b)
  then show ?thesis using assms by (auto simp: view_remove_def)
qed

locale timer_queue =
  fixes ok :: "'q \<Rightarrow> bool" and view :: "'q \<Rightarrow> view" and step :: "timer_op \<Rightarrow> 'q \<Rightarrow> 'q option"
  assumes view_distinct: "ok q \<Longrightarrow> distinct (map fst (view q))"
    and view_sorted: "ok q \<Longrightarrow> sorted (map snd (view q))"
    and view_range: "ok q \<Longrightarrow> (a, r) \<in> set (view q) \<Longrightarrow> 0 \<le> r \<and> r \<le> INT_MAX"
    and step_ok: "ok q \<Longrightarrow> legal c (view q) \<Longrightarrow> \<exists>q'. step c q = Some q' \<and> ok q' \<and> view q' = view_op c (view q)"
begin

lemma run_correct:
  "ok q \<Longrightarrow> legal_ops cs (view q) \<Longrightarrow> \<exists>q'. run_ops step cs q = Some q' \<and> ok q' \<and> view q' = fold view_op cs (view q)"
proof (induction cs arbitrary: q)
  case Nil
  then show ?case by simp
next
  case (Cons c cs)
  then obtain q' where "step c q = Some q'" "ok q'" "view q' = view_op c (view q)"
    using step_ok[of q c] by auto
  moreover obtain q'' where "run_ops step cs q' = Some q''" "ok q''" "view q'' = fold view_op cs (view q')"
    using Cons.IH[of q'] Cons.prems calculation by auto
  ultimately show ?case by auto
qed

text \<open>A timer that is not removed loses exactly the time that passes, down to zero.\<close>

lemma run_accurate:
  "\<lbrakk>ok q; legal_ops cs (view q); Remove a \<notin> set cs; (a, r) \<in> set (view q)\<rbrakk>
   \<Longrightarrow> \<exists>q'. run_ops step cs q = Some q' \<and> ok q' \<and> (a, max 0 (r - time_passed cs)) \<in> set (view q')"
proof (induction cs arbitrary: q r)
  case Nil
  then show ?case using view_range by force
next
  case (Cons c cs)
  then obtain q' where q': "step c q = Some q'" "ok q'" "view q' = view_op c (view q)"
    using step_ok[of q c] by auto
  define r' where "r' = (case c of Advance e \<Rightarrow> max 0 (r - e) | _ \<Rightarrow> r)"
  have "(a, r') \<in> set (view q')"
    using mem_view_op[of c "view q" a r] Cons.prems view_distinct q'(3) by (auto simp: r'_def)
  then obtain q'' where "run_ops step cs q' = Some q''" "ok q''" "(a, max 0 (r' - time_passed cs)) \<in> set (view q'')"
    using Cons.IH[of q' r'] Cons.prems q' by auto
  moreover have "max 0 (r' - time_passed cs) = max 0 (r - time_passed (c # cs))"
    using time_passed_nonneg[of cs "view_op c (view q)"] Cons.prems(2) by (cases c) (auto simp: r'_def)
  ultimately show ?case using q'(1) by auto
qed

end

subsection \<open>The queue of the server meets the contract\<close>

fun due :: "'p delay_task list \<Rightarrow> view" where
  "due [] = []"
| "due (t # ts) = (addr t, delta_time t) # map (\<lambda>(a, r). (a, delta_time t + r)) (due ts)"

definition queue_ok :: "'p delay_task list \<Rightarrow> bool" where
  "queue_ok q \<longleftrightarrow> distinct (map addr q) \<and> (\<forall>t \<in> set q. 0 \<le> delta_time t) \<and> sum_list (map delta_time q) \<le> INT_MAX"

fun queue_step :: "'p \<Rightarrow> nat \<Rightarrow> timer_op \<Rightarrow> 'p delay_task list \<Rightarrow> 'p delay_task list option" where
  "queue_step p x (Advance e) q = sync_loop e q"
| "queue_step p x (Add a d) q = add_loop \<lparr>addr = a, delta_time = d, arg = x, proc = p\<rparr> q"
| "queue_step p x (Remove a) q = map_option snd (unlink (length q = 1) a q)"

lemma map_fst_due [simp]: "map fst (due q) = map addr q"
  by (induction q) (auto simp: comp_def case_prod_beta)

lemma fst_due [simp]: "fst ` set (due q) = addr ` set q"
  by (metis list.set_map map_fst_due)

lemma length_due [simp]: "length (due q) = length q"
  by (induction q) auto

lemma due_range:
  "(\<forall>t \<in> set q. 0 \<le> delta_time t) \<Longrightarrow> (a, r) \<in> set (due q) \<Longrightarrow> 0 \<le> r \<and> r \<le> sum_list (map delta_time q)"
proof (induction q arbitrary: a r)
  case (Cons t ts)
  have "0 \<le> sum_list (map delta_time ts)" using Cons.prems(1) by (intro sum_list_nonneg) auto
  moreover have "(a, r) = (addr t, delta_time t) \<or> (\<exists>r'. r = delta_time t + r' \<and> (a, r') \<in> set (due ts))"
    using Cons.prems(2) by auto
  ultimately show ?case using Cons.IH[of a] Cons.prems(1) by auto
qed simp

lemma due_sorted: "(\<forall>t \<in> set q. 0 \<le> delta_time t) \<Longrightarrow> sorted (map snd (due q))"
proof (induction q)
  case (Cons t ts)
  have "sorted (map snd (map (\<lambda>(a, r). (a, delta_time t + r)) (due ts)))"
    using Cons by (auto simp: sorted_wrt_map case_prod_beta)
  moreover have "\<forall>r \<in> snd ` set (due ts). 0 \<le> r" using due_range Cons.prems by fastforce
  ultimately show ?case by auto
qed simp

lemma queue_okD:
  "queue_ok (t # ts) \<Longrightarrow> queue_ok ts \<and> 0 \<le> delta_time t \<and> delta_time t \<le> INT_MAX \<and> addr t \<notin> addr ` set ts
    \<and> delta_time t + sum_list (map delta_time ts) \<le> INT_MAX \<and> 0 \<le> sum_list (map delta_time ts)"
proof -
  assume "queue_ok (t # ts)"
  then have a: "distinct (map addr (t # ts))" "\<forall>u \<in> set (t # ts). 0 \<le> delta_time u"
    "delta_time t + sum_list (map delta_time ts) \<le> INT_MAX" by (auto simp: queue_ok_def)
  moreover have "0 \<le> sum_list (map delta_time ts)" using a(2) by (intro sum_list_nonneg) auto
  ultimately show ?thesis by (auto simp: queue_ok_def)
qed

lemma sync_loop_correct:
  "queue_ok q \<Longrightarrow> 0 \<le> e \<Longrightarrow> e \<le> INT_MAX \<Longrightarrow>
    \<exists>q'. sync_loop e q = Some q' \<and> queue_ok q' \<and> due q' = view_advance e (due q)
      \<and> sum_list (map delta_time q') \<le> sum_list (map delta_time q)
      \<and> map (\<lambda>t. t\<lparr>delta_time := 0\<rparr>) q' = map (\<lambda>t. t\<lparr>delta_time := 0\<rparr>) q"
proof (induction e q rule: sync_loop.induct)
  case (1 e)
  then show ?case by (simp add: queue_ok_def view_advance_def INT_MAX_def)
next
  case (2 e t ts)
  note ok = queue_okD[OF "2.prems"(1)]
  show ?case
  proof (cases "delta_time t \<le> e")
    case True
    then have c: "c_int (e - delta_time t) = Some (e - delta_time t)" using "2.prems" ok by simp
    obtain ts' where ts': "sync_loop (e - delta_time t) ts = Some ts'" "queue_ok ts'"
      "due ts' = view_advance (e - delta_time t) (due ts)"
      "sum_list (map delta_time ts') \<le> sum_list (map delta_time ts)"
      "map (\<lambda>t. t\<lparr>delta_time := 0\<rparr>) ts' = map (\<lambda>t. t\<lparr>delta_time := 0\<rparr>) ts"
      using "2.IH"[OF True c] ok True "2.prems" by auto
    have addrs: "map addr ts' = map addr ts" using arg_cong[OF ts'(5), of "map addr"] by (simp add: comp_def)
    then have "addr ` set ts' = addr ` set ts" by (metis list.set_map)
    then show ?thesis
      using True c ts' ok addrs by (auto simp: queue_ok_def view_advance_def intro!: arg_cong[where f = "\<lambda>x. max 0 x"])
  next
    case False
    then have c: "c_int (delta_time t - e) = Some (delta_time t - e)" using "2.prems" ok by simp
    have "map (\<lambda>(a, r). (a, (delta_time t - e) + r)) (due ts)
        = view_advance e (map (\<lambda>(a, r). (a, delta_time t + r)) (due ts))"
      unfolding view_advance_def using due_range[of ts] ok False by (fastforce simp: queue_ok_def)
    then show ?thesis
      using False c ok "2.prems" by (auto simp: queue_ok_def view_advance_def)
  qed
qed

lemma view_add_shift:
  "view_add a (k + d) (map (\<lambda>(a, r). (a, k + r)) V) = map (\<lambda>(a, r). (a, k + r)) (view_add a d V)"
proof -
  have "(\<lambda>(_, r). r \<le> k + d) \<circ> (\<lambda>(a :: nat, r). (a, k + r)) = (\<lambda>(_, r). r \<le> d)" by auto
  then show ?thesis by (simp add: view_add_def takeWhile_map dropWhile_map)
qed

lemma add_loop_correct:
  "queue_ok q \<Longrightarrow> 0 \<le> delta_time t \<Longrightarrow> delta_time t \<le> INT_MAX \<Longrightarrow> addr t \<notin> addr ` set q \<Longrightarrow>
    \<exists>q'. add_loop t q = Some q' \<and> queue_ok q' \<and> due q' = view_add (addr t) (delta_time t) (due q)
      \<and> addr ` set q' = insert (addr t) (addr ` set q)
      \<and> sum_list (map delta_time q') = max (delta_time t) (sum_list (map delta_time q))"
proof (induction t q rule: add_loop.induct)
  case (1 t)
  then show ?case by (simp add: queue_ok_def view_add_def)
next
  case (2 t u us)
  note ok = queue_okD[OF "2.prems"(1)]
  show ?case
  proof (cases "delta_time u > delta_time t")
    case True
    then have c: "c_int (delta_time u - delta_time t) = Some (delta_time u - delta_time t)" using ok "2.prems" by simp
    show ?thesis
      using True c ok "2.prems" by (auto simp: queue_ok_def view_add_def)
  next
    case False
    let ?d = "delta_time t - delta_time u"
    have c: "c_int ?d = Some ?d" using False ok "2.prems" by simp
    obtain us' where us': "add_loop (t\<lparr>delta_time := ?d\<rparr>) us = Some us'" "queue_ok us'"
      "due us' = view_add (addr t) ?d (due us)" "addr ` set us' = insert (addr t) (addr ` set us)"
      "sum_list (map delta_time us') = max ?d (sum_list (map delta_time us))"
      using "2.IH"[OF False c] ok False "2.prems" by auto
    have "due (u # us') = view_add (addr t) (delta_time t) (due (u # us))"
      using view_add_shift[of "addr t" "delta_time u" ?d "due us"] us'(3) False by (simp add: view_add_def)
    moreover have "queue_ok (u # us')"
      using us'(2,4,5) ok "2.prems" by (auto simp: queue_ok_def)
    ultimately show ?thesis using False c us' by auto
  qed
qed

lemma view_remove_shift:
  "view_remove a (map (\<lambda>(a, r). (a, k + r)) V) = map (\<lambda>(a, r). (a, k + r)) (view_remove a V)"
  by (induction V) (auto simp: view_remove_def)

lemma view_remove_Cons: "view_remove a (x # V) = (if fst x \<noteq> a then x # view_remove a V else view_remove a V)"
  by (cases x) (simp add: view_remove_def)

lemma unlink_several:
  "queue_ok q \<Longrightarrow> a \<in> addr ` set q \<Longrightarrow> addr (last q) \<noteq> a
    \<Longrightarrow> \<exists>t q'. unlink False a q = Some (t, q') \<and> queue_ok q' \<and> due q' = view_remove a (due q)
      \<and> t \<in> set q \<and> addr t = a \<and> addr ` set q' = addr ` set q - {a}
      \<and> sum_list (map delta_time q') = sum_list (map delta_time q)"
proof (induction q)
  case Nil
  then show ?case by simp
next
  case (Cons t ts)
  note ok = queue_okD[OF Cons.prems(1)]
  show ?case
  proof (cases "addr t = a")
    case True
    then obtain u us where ts: "ts = u # us" using Cons.prems(3) by (cases ts) auto
    note ok' = queue_okD[OF conjunct1[OF ok, unfolded ts]]
    have c: "c_int (delta_time u + delta_time t) = Some (delta_time u + delta_time t)"
      using ok ok' by (simp add: ts)
    have keep: "view_remove a (due us) = due us"
      unfolding view_remove_def using ok True by (intro filter_True) (force simp: ts simp flip: fst_due)
    have "due (u\<lparr>delta_time := delta_time u + delta_time t\<rparr> # us) = view_remove a (due (t # ts))"
    proof -
      have "view_remove a (due (t # ts)) = (addr u, delta_time t + delta_time u)
          # view_remove a (map (\<lambda>(b, r). (b, delta_time t + r)) (map (\<lambda>(b, r). (b, delta_time u + r)) (due us)))"
        using True ok by (auto simp: ts view_remove_def)
      also have "view_remove a (map (\<lambda>(b, r). (b, delta_time t + r)) (map (\<lambda>(b, r). (b, delta_time u + r)) (due us)))
          = map (\<lambda>(b, r). (b, delta_time t + r)) (map (\<lambda>(b, r). (b, delta_time u + r)) (due us))"
        by (simp only: view_remove_shift keep)
      finally show ?thesis by (auto simp: add.assoc add.commute)
    qed
    moreover have "queue_ok (u\<lparr>delta_time := delta_time u + delta_time t\<rparr> # us)"
      using ok ok' by (auto simp: ts queue_ok_def)
    ultimately show ?thesis using True c ok by (auto simp: ts)
  next
    case False
    then have "ts \<noteq> []" using Cons.prems(2) by auto
    then obtain x q' where q': "unlink False a ts = Some (x, q')" "queue_ok q'" "due q' = view_remove a (due ts)"
      "x \<in> set ts" "addr x = a" "addr ` set q' = addr ` set ts - {a}"
      "sum_list (map delta_time q') = sum_list (map delta_time ts)"
      using Cons.IH ok Cons.prems False by auto
    have "due (t # q') = view_remove a (due (t # ts))"
      using False q'(3) by (simp add: view_remove_shift view_remove_Cons)
    moreover have "queue_ok (t # q')" using q'(2,6,7) ok Cons.prems(1) by (auto simp: queue_ok_def)
    ultimately show ?thesis using False q' by auto
  qed
qed

lemma unlink_last:
  "1 < length q \<Longrightarrow> distinct (map addr q) \<Longrightarrow> unlink False (addr (last q)) q = None"
proof (induction q rule: induct_list012)
  case (3 t u us)
  then show ?case by (cases us) (auto split: if_splits)
qed auto

lemma unlink_correct:
  assumes "queue_ok q" "a \<in> addr ` set q" "length q = 1 \<or> addr (last q) \<noteq> a"
  shows "\<exists>t q'. unlink (length q = 1) a q = Some (t, q') \<and> queue_ok q' \<and> due q' = view_remove a (due q)
      \<and> t \<in> set q \<and> addr t = a \<and> addr ` set q' = addr ` set q - {a}"
proof (cases "length q = 1")
  case True
  then obtain t where "q = [t]" by (cases q) auto
  then show ?thesis using assms by (auto simp: queue_ok_def view_remove_def INT_MAX_def)
next
  case False
  then show ?thesis using unlink_several[OF assms(1,2)] assms(3) by auto
qed

interpretation delays: timer_queue queue_ok due "queue_step p x" for p :: 'p and x :: nat
proof
  fix q :: "'p delay_task list" and a r c
  assume ok: "queue_ok q"
  then have nn: "\<forall>t \<in> set q. 0 \<le> delta_time t" "sum_list (map delta_time q) \<le> INT_MAX" "distinct (map addr q)"
    by (auto simp: queue_ok_def)
  show "distinct (map fst (due q))" using nn(3) by simp
  show "sorted (map snd (due q))" using due_sorted nn(1) .
  show "(a, r) \<in> set (due q) \<Longrightarrow> 0 \<le> r \<and> r \<le> INT_MAX" using due_range[OF nn(1)] nn(2) by fastforce
  show "legal c (due q) \<Longrightarrow> \<exists>q'. queue_step p x c q = Some q' \<and> queue_ok q' \<and> due q' = view_op c (due q)"
  proof (cases c)
    case (Advance e)
    assume "legal c (due q)"
    then show ?thesis using sync_loop_correct[OF ok, of e] Advance by auto
  next
    case (Add b d)
    assume "legal c (due q)"
    then show ?thesis
      using add_loop_correct[OF ok, of "\<lparr>addr = b, delta_time = d, arg = x, proc = p\<rparr>"] Add by auto
  next
    case (Remove b)
    assume l: "legal c (due q)"
    then have "q \<noteq> []" using Remove by auto
    then have "fst (last (due q)) = addr (last q)" by (metis last_map map_fst_due map_is_Nil_conv)
    then show ?thesis using unlink_correct[OF ok, of b] Remove l by auto
  qed
qed

subsection \<open>The operations of the interface\<close>

text \<open>The time that a synchronisation accounts for.\<close>

definition clock_elapsed :: "('p, 'z) timers_scheme \<Rightarrow> int" where
  "clock_elapsed s = (let now = fst (time_now s) in
     if now < last_sync_time s then 0 else elapsed_since (last_sync_time s) now)"

lemma clock_elapsed_range: "0 \<le> clock_elapsed s \<and> clock_elapsed s \<le> INT_MAX"
  by (auto simp: clock_elapsed_def elapsed_since_def Let_def INT_MAX_def)

lemma time_now_state [simp]:
  "delay_task_queue (snd (time_now s)) = delay_task_queue s" "last_sync_time (snd (time_now s)) = last_sync_time s"
  by (auto simp: time_now_def split: list.split)

lemma view_advance_0: "(\<forall>(a, r) \<in> set V. 0 \<le> r) \<Longrightarrow> view_advance 0 V = V"
  unfolding view_advance_def by (intro map_idI) auto

lemma sync_correct:
  assumes "queue_ok (delay_task_queue s)"
  shows "\<exists>s'. sync_delay_time s = Some s' \<and> queue_ok (delay_task_queue s')
    \<and> due (delay_task_queue s') = view_advance (clock_elapsed s) (due (delay_task_queue s))
    \<and> map (\<lambda>t. t\<lparr>delta_time := 0\<rparr>) (delay_task_queue s') = map (\<lambda>t. t\<lparr>delta_time := 0\<rparr>) (delay_task_queue s)
    \<and> addr ` set (delay_task_queue s') = addr ` set (delay_task_queue s)
    \<and> last_sync_time s' = fst (time_now s)"
proof (cases "fst (time_now s) < last_sync_time s")
  case True
  have "\<forall>(a, r) \<in> set (due (delay_task_queue s)). 0 \<le> r"
    using due_range[of "delay_task_queue s"] assms by (fastforce simp: queue_ok_def)
  then show ?thesis
    using True assms view_advance_0
    by (cases "time_now s") (auto simp: sync_delay_time_def clock_elapsed_def dest!: arg_cong[of _ _ snd])
next
  case False
  let ?e = "elapsed_since (last_sync_time s) (fst (time_now s))"
  have e: "clock_elapsed s = ?e" using False by (simp add: clock_elapsed_def Let_def)
  obtain q where q: "sync_loop ?e (delay_task_queue s) = Some q" "queue_ok q"
    "due q = view_advance ?e (due (delay_task_queue s))"
    "map (\<lambda>t. t\<lparr>delta_time := 0\<rparr>) q = map (\<lambda>t. t\<lparr>delta_time := 0\<rparr>) (delay_task_queue s)"
    using sync_loop_correct[OF assms] clock_elapsed_range[of s] e by metis
  have "map addr q = map addr (delay_task_queue s)" using arg_cong[OF q(4), of "map addr"] by (simp add: comp_def)
  then have "addr ` set q = addr ` set (delay_task_queue s)" by (metis list.set_map)
  then show ?thesis
    using q e False by (auto simp: sync_delay_time_def Let_def case_prod_beta)
qed

lemma add_correct:
  assumes "queue_ok (delay_task_queue s)" "0 \<le> delta_time t" "delta_time t \<le> INT_MAX"
    "addr t \<notin> addr ` set (delay_task_queue s)"
  shows "\<exists>s'. add_delay_task t s = Some s' \<and> queue_ok (delay_task_queue s')
    \<and> due (delay_task_queue s') = view_add (addr t) (delta_time t) (view_advance (clock_elapsed s) (due (delay_task_queue s)))"
proof -
  obtain s1 where s1: "sync_delay_time s = Some s1" "queue_ok (delay_task_queue s1)"
    "due (delay_task_queue s1) = view_advance (clock_elapsed s) (due (delay_task_queue s))"
    "addr ` set (delay_task_queue s1) = addr ` set (delay_task_queue s)"
    using sync_correct[OF assms(1)] by blast
  obtain q where "add_loop t (delay_task_queue s1) = Some q" "queue_ok q"
    "due q = view_add (addr t) (delta_time t) (due (delay_task_queue s1))"
    using add_loop_correct[OF s1(2) assms(2,3)] assms(4) s1(4) by auto
  then show ?thesis using s1 by (auto simp: add_delay_task_def)
qed

text \<open>What may be removed without leaving the structure: any task but the last of several.\<close>

abbreviation removable :: "nat \<Rightarrow> 'p delay_task list \<Rightarrow> bool" where
  "removable a q \<equiv> a \<in> addr ` set q \<and> (length q = 1 \<or> addr (last q) \<noteq> a)"

lemma del_correct:
  assumes "queue_ok (delay_task_queue s)" "removable a (delay_task_queue s)"
  shows "\<exists>t s'. del_delay_task a s = Some (t, s') \<and> queue_ok (delay_task_queue s')
    \<and> due (delay_task_queue s') = view_remove a (due (delay_task_queue s)) \<and> addr t = a
    \<and> t \<in> set (delay_task_queue s) \<and> a \<notin> addr ` set (delay_task_queue s')
    \<and> (\<exists>q. s' = s\<lparr>delay_task_queue := q\<rparr>)"
  using unlink_correct[of "delay_task_queue s" a] assms by (auto simp: del_delay_task_def)

lemma update_correct:
  assumes "queue_ok (delay_task_queue s)" "removable a (delay_task_queue s)" "0 \<le> d" "d \<le> INT_MAX"
  shows "\<exists>s'. update_delay_time a d s = Some s' \<and> queue_ok (delay_task_queue s')
    \<and> due (delay_task_queue s') = view_add a d (view_advance (clock_elapsed s) (view_remove a (due (delay_task_queue s))))"
proof -
  obtain t s1 q where s1: "del_delay_task a s = Some (t, s1)" "queue_ok (delay_task_queue s1)"
    "due (delay_task_queue s1) = view_remove a (due (delay_task_queue s))" "addr t = a"
    "a \<notin> addr ` set (delay_task_queue s1)" "s1 = s\<lparr>delay_task_queue := q\<rparr>"
    using del_correct[OF assms(1,2)] by blast
  have "clock_elapsed s1 = clock_elapsed s"
    unfolding s1(6) by (auto simp: clock_elapsed_def time_now_def split: list.split)
  then show ?thesis
    using add_correct[OF s1(2), of "t\<lparr>delta_time := d\<rparr>"] s1 assms(3,4) by (auto simp: update_delay_time_def)
qed

lemma create_correct:
  assumes "queue_ok (delay_task_queue s)" "0 \<le> d" "d \<le> INT_MAX" "a \<notin> addr ` set (delay_task_queue s)"
  shows "\<exists>r s'. create_delay_task a p x d (s, m) = Some (r, s', snd (malloc a m)) \<and> queue_ok (delay_task_queue s')
    \<and> r = fst (malloc a m) \<and> due (delay_task_queue s') = (if r = None then due (delay_task_queue s)
        else view_add a d (view_advance (clock_elapsed s) (due (delay_task_queue s))))"
  using add_correct[OF assms(1), of "\<lparr>addr = a, delta_time = d, arg = x, proc = p\<rparr>"] assms
  by (cases rule: malloc_cases[of a m]) (auto simp: create_delay_task_def)

lemma view_remove_absent: "a \<notin> addr ` set q \<Longrightarrow> view_remove a (due q) = due q"
  unfolding view_remove_def by (intro filter_True) (force simp flip: fst_due)

lemma destroy_correct:
  assumes "queue_ok (delay_task_queue s)" "a \<notin> addr ` set (delay_task_queue s) \<or> removable a (delay_task_queue s)"
  shows "\<exists>s'. destroy_delay_task a s = Some s' \<and> queue_ok (delay_task_queue s')
    \<and> due (delay_task_queue s') = view_remove a (due (delay_task_queue s))"
proof (cases "a \<in> addr ` set (delay_task_queue s)")
  case True
  then show ?thesis using del_correct[OF assms(1), of a] assms(2) by (auto simp: destroy_delay_task_def)
next
  case False
  then show ?thesis using view_remove_absent[OF False] assms(1) by (auto simp: destroy_delay_task_def)
qed

lemma get_min_correct:
  assumes "queue_ok (delay_task_queue s)"
  shows "\<exists>v s'. get_min_delay_time s = Some (v, s') \<and> queue_ok (delay_task_queue s')
    \<and> (if delay_task_queue s = [] then v = - 1
       else due (delay_task_queue s') = view_advance (clock_elapsed s) (due (delay_task_queue s))
         \<and> v = Min (snd ` set (due (delay_task_queue s'))))"
proof (cases "delay_task_queue s = []")
  case True
  then show ?thesis using assms by (auto simp: get_min_delay_time_def)
next
  case False
  obtain s1 where s1: "sync_delay_time s = Some s1" "queue_ok (delay_task_queue s1)"
    "due (delay_task_queue s1) = view_advance (clock_elapsed s) (due (delay_task_queue s))"
    "addr ` set (delay_task_queue s1) = addr ` set (delay_task_queue s)"
    using sync_correct[OF assms] by blast
  then have "delay_task_queue s1 \<noteq> []" using False by auto
  then obtain t ts where ts: "delay_task_queue s1 = t # ts" by (cases "delay_task_queue s1") auto
  have "\<forall>r \<in> snd ` set (due (t # ts)). delta_time t \<le> r"
    using due_range[of ts] s1(2) unfolding ts queue_ok_def by fastforce
  then have "Min (snd ` set (due (t # ts))) = delta_time t" by (intro Min_eqI) auto
  then have "get_min_delay_time s = Some (Min (snd ` set (due (delay_task_queue s1))), s1)"
    using False s1(1) ts by (simp only: get_min_delay_time_def) simp
  then show ?thesis using False s1 by simp
qed

text \<open>C13: The queue of delayed tasks implements a set of timers with absolute deadlines. Write
  \<open>due q\<close> for the pending tasks with the time that remains to each. Every operation keeps the
  queue well formed and acts on \<open>due\<close> as it should: first the elapsed time \<open>clock_elapsed\<close> is
  taken off every task, down to zero; \<open>create_delay_task\<close> then adds the new task behind those
  that fall due no later and changes no other; \<open>update_delay_time\<close> and \<open>destroy_delay_task\<close>
  move or remove one task (not the last of several) and change no other;
  \<open>get_min_delay_time\<close> returns the least remaining time, or \<open>-1\<close>. No signed overflow occurs.\<close>
theorem delay_task_refines:
  assumes "queue_ok (delay_task_queue s)"
  shows "(0 \<le> d \<and> d \<le> INT_MAX \<and> a \<notin> addr ` set (delay_task_queue s) \<longrightarrow>
      (\<exists>r s'. create_delay_task a p x d (s, m) = Some (r, s', snd (malloc a m)) \<and> queue_ok (delay_task_queue s')
        \<and> r = fst (malloc a m)
        \<and> due (delay_task_queue s') = (if r = None then due (delay_task_queue s)
            else view_add a d (view_advance (clock_elapsed s) (due (delay_task_queue s))))))
    \<and> (0 \<le> d \<and> d \<le> INT_MAX \<and> removable a (delay_task_queue s) \<longrightarrow>
      (\<exists>s'. update_delay_time a d s = Some s' \<and> queue_ok (delay_task_queue s')
        \<and> due (delay_task_queue s') = view_add a d (view_advance (clock_elapsed s) (view_remove a (due (delay_task_queue s))))))
    \<and> (a \<notin> addr ` set (delay_task_queue s) \<or> removable a (delay_task_queue s) \<longrightarrow>
      (\<exists>s'. destroy_delay_task a s = Some s' \<and> queue_ok (delay_task_queue s')
        \<and> due (delay_task_queue s') = view_remove a (due (delay_task_queue s))))
    \<and> (\<exists>v s'. get_min_delay_time s = Some (v, s') \<and> queue_ok (delay_task_queue s')
        \<and> (if delay_task_queue s = [] then v = - 1
           else due (delay_task_queue s') = view_advance (clock_elapsed s) (due (delay_task_queue s))
             \<and> v = Min (snd ` set (due (delay_task_queue s')))))"
  using create_correct[OF assms] update_correct[OF assms] destroy_correct[OF assms] get_min_correct[OF assms] by blast

lemma delay_task_refines_witness:
  "\<exists>r s'. create_delay_task 7 () 1 40000 (\<lparr>delay_task_queue = [\<lparr>addr = 3, delta_time = 5000, arg = 0, proc = ()\<rparr>],
      last_sync_time = 100, clock = [1100]\<rparr>, []) = Some (r, s', [])
    \<and> due (delay_task_queue s') = [(3, 4000), (7, 40000)]"
proof -
  let ?s = "\<lparr>delay_task_queue = [\<lparr>addr = 3, delta_time = 5000, arg = 0, proc = ()\<rparr>], last_sync_time = 100 :: u64, clock = [1100]\<rparr>"
  have "queue_ok (delay_task_queue ?s)" by (simp add: queue_ok_def INT_MAX_def)
  moreover have "clock_elapsed ?s = 1000"
    by (simp add: clock_elapsed_def time_now_def elapsed_since_def INT_MAX_def)
  ultimately show ?thesis
    using delay_task_refines[of ?s 40000 7 "()" 1 "[]"]
    by (simp add: INT_MAX_def view_add_def view_advance_def) blast
qed

text \<open>C32: Accuracy. Whatever is added, removed and synchronised in between, a task that falls due
  after \<open>r\<close> microseconds and is not removed is, after synchronisations with the elapsed times that
  add up to \<open>time_passed\<close>, due after \<open>max 0 (r - time_passed)\<close>: the relative delays of the code
  never lose or gain time for it.\<close>
theorem delay_task_accurate:
  assumes "queue_ok q" "legal_ops cs (due q)" "Remove a \<notin> set cs" "(a, r) \<in> set (due q)"
  shows "\<exists>q'. run_ops (queue_step p x) cs q = Some q' \<and> queue_ok q' \<and> (a, max 0 (r - time_passed cs)) \<in> set (due q')"
  by (rule delays.run_accurate[OF assms])

lemma delay_task_accurate_witness:
  "\<exists>q'. run_ops (queue_step () 0) [Add 1 300, Advance 100, Add 2 50, Remove 2, Advance 150]
      [\<lparr>addr = 9, delta_time = 200, arg = 0, proc = ()\<rparr>] = Some q' \<and> queue_ok q' \<and> (9, 0) \<in> set (due q')"
proof -
  let ?q = "[\<lparr>addr = 9, delta_time = 200, arg = 0, proc = ()\<rparr>]"
  let ?cs = "[Add 1 300, Advance 100, Add 2 50, Remove 2, Advance 150]"
  have "queue_ok ?q" "legal_ops ?cs (due ?q)"
    by (simp_all add: queue_ok_def INT_MAX_def view_add_def view_advance_def view_remove_def)
  then show ?thesis using delay_task_accurate[of ?q ?cs 9 200 "()" 0] by simp
qed

text \<open>The dispatcher in two steps: the first task of the synchronised queue is the first task of the queue,
  and its callback's result removes it or sets it anew.\<close>

lemma head_synced:
  assumes "queue_ok (delay_task_queue s)" "delay_task_queue s = t # ts"
  shows "\<exists>s1 u us. (if delta_time t \<noteq> 0 then sync_delay_time s else Some s) = Some s1 \<and> queue_ok (delay_task_queue s1)
    \<and> delay_task_queue s1 = u # us \<and> addr u = addr t \<and> arg u = arg t \<and> proc u = proc t
    \<and> delta_time u = (if delta_time t \<noteq> 0 then max 0 (delta_time t - clock_elapsed s) else 0)"
proof -
  obtain s1 where s1: "(if delta_time t \<noteq> 0 then sync_delay_time s else Some s) = Some s1"
    "queue_ok (delay_task_queue s1)" "map (\<lambda>t. t\<lparr>delta_time := 0\<rparr>) (delay_task_queue s1) = map (\<lambda>t. t\<lparr>delta_time := 0\<rparr>) (t # ts)"
    "due (delay_task_queue s1) = (if delta_time t \<noteq> 0 then view_advance (clock_elapsed s) (due (t # ts)) else due (t # ts))"
    using sync_correct[OF assms(1)] assms by (cases "delta_time t = 0") force+
  then obtain u us where u: "delay_task_queue s1 = u # us" by (cases "delay_task_queue s1") auto
  then have "u\<lparr>delta_time := 0\<rparr> = t\<lparr>delta_time := 0\<rparr>" using s1(3) by simp
  from arg_cong[OF this, of addr] arg_cong[OF this, of arg] arg_cong[OF this, of proc]
  have "addr u = addr t" "arg u = arg t" "proc u = proc t" by simp_all
  moreover have "delta_time u = (if delta_time t \<noteq> 0 then max 0 (delta_time t - clock_elapsed s) else 0)"
    using arg_cong[OF s1(4), of "\<lambda>V. snd (hd V)"] by (simp add: u view_advance_def split: if_splits)
  ultimately show ?thesis using s1(1,2) u by blast
qed

lemma do_delay_task_head:
  assumes "delay_task_queue s = t # ts" "(if delta_time t \<noteq> 0 then sync_delay_time s else Some s) = Some s1"
    "delay_task_queue s1 = u # us" "addr u = addr t" "arg u = arg t" "proc u = proc t"
  shows "do_delay_task run s = (if delta_time u = 0 then do {
      (next_delay, s) \<leftarrow> run (proc t) (arg t) s1;
      if next_delay \<ge> 0 then update_delay_time (addr t) next_delay s
      else destroy_delay_task (addr t) s } else Some s1)"
  unfolding do_delay_task_def assms(1) list.case assms(2) Option.bind.bind_lunit Let_def assms(3) list.sel assms(4-6) ..

lemma unlink_absent: "a \<notin> addr ` set q \<Longrightarrow> unlink b a q = None"
  by (induction q) auto

lemma update_absent: "a \<notin> addr ` set (delay_task_queue s) \<Longrightarrow> update_delay_time a n s = None"
  by (simp add: update_delay_time_def del_delay_task_def unlink_absent)

lemma destroy_removable:
  assumes "queue_ok (delay_task_queue s)" "removable a (delay_task_queue s)"
  shows "\<exists>s'. destroy_delay_task a s = Some s' \<and> due (delay_task_queue s') = view_remove a (due (delay_task_queue s))"
  using destroy_correct[OF assms(1)] assms(2) by blast

lemma update_removable:
  assumes "queue_ok (delay_task_queue s)" "removable a (delay_task_queue s)" "0 \<le> n" "n \<le> INT_MAX"
  shows "\<exists>s'. update_delay_time a n s = Some s' \<and> due (delay_task_queue s')
    = view_add a n (view_advance (clock_elapsed s) (view_remove a (due (delay_task_queue s))))"
  using update_correct[OF assms(1,2), OF assms(3,4)] by blast

lemma destroy_absent: "a \<notin> addr ` set (delay_task_queue s) \<Longrightarrow> destroy_delay_task a s = Some s"
  by (simp add: destroy_delay_task_def)

text \<open>C33: The dispatcher. \<open>do_delay_task\<close> runs a callback only when the first task has no time
  left, and then exactly that task's callback, once, on its argument. A negative result removes
  the task, another one sets it anew after that many microseconds; a callback that has removed
  its own task and still asks for a delay makes the code touch freed memory.\<close>
theorem do_delay_task_dispatch:
  assumes "queue_ok (delay_task_queue s)" "delay_task_queue s = t # ts"
  shows "\<exists>s1. (if delta_time t \<noteq> 0 then sync_delay_time s else Some s) = Some s1 \<and> queue_ok (delay_task_queue s1)
    \<and> (let r = snd (hd (due (delay_task_queue s1))) in
        r = (if delta_time t \<noteq> 0 then max 0 (delta_time t - clock_elapsed s) else 0)
        \<and> (0 < r \<longrightarrow> do_delay_task run s = Some s1)
        \<and> (r = 0 \<longrightarrow> (run (proc t) (arg t) s1 = None \<longrightarrow> do_delay_task run s = None)
          \<and> (\<forall>n s2. run (proc t) (arg t) s1 = Some (n, s2) \<and> queue_ok (delay_task_queue s2) \<longrightarrow>
              (n < 0 \<and> addr t \<notin> addr ` set (delay_task_queue s2) \<longrightarrow> do_delay_task run s = Some s2)
              \<and> (n < 0 \<and> removable (addr t) (delay_task_queue s2) \<longrightarrow>
                  (\<exists>s3. do_delay_task run s = Some s3 \<and> due (delay_task_queue s3) = view_remove (addr t) (due (delay_task_queue s2))))
              \<and> (0 \<le> n \<and> n \<le> INT_MAX \<and> removable (addr t) (delay_task_queue s2) \<longrightarrow>
                  (\<exists>s3. do_delay_task run s = Some s3 \<and> due (delay_task_queue s3)
                    = view_add (addr t) n (view_advance (clock_elapsed s2) (view_remove (addr t) (due (delay_task_queue s2))))))
              \<and> (0 \<le> n \<and> addr t \<notin> addr ` set (delay_task_queue s2) \<longrightarrow> do_delay_task run s = None))))"
proof -
  obtain s1 u us where s1: "(if delta_time t \<noteq> 0 then sync_delay_time s else Some s) = Some s1" "queue_ok (delay_task_queue s1)"
    "delay_task_queue s1 = u # us" "addr u = addr t" "arg u = arg t" "proc u = proc t"
    "delta_time u = (if delta_time t \<noteq> 0 then max 0 (delta_time t - clock_elapsed s) else 0)"
    using head_synced[OF assms] by blast
  have first: "snd (hd (due (delay_task_queue s1))) = delta_time u" by (simp add: s1(3))
  note head = do_delay_task_head[OF assms(2) s1(1,3-6), of run]
  show ?thesis
    unfolding Let_def
    by (rule exI[of _ s1], intro conjI impI allI; (elim conjE)?)
      (simp_all add: s1(1,2,7) first head update_absent destroy_absent destroy_removable update_removable)
qed

lemma do_delay_task_dispatch_witness:
  "\<exists>s3. do_delay_task (\<lambda>p x s. Some (300, s))
      \<lparr>delay_task_queue = [\<lparr>addr = 3, delta_time = 500, arg = 0, proc = ()\<rparr>], last_sync_time = 100, clock = [1100]\<rparr> = Some s3
    \<and> due (delay_task_queue s3) = [(3, 300)]"
proof -
  let ?t = "\<lparr>addr = 3, delta_time = 500, arg = 0, proc = ()\<rparr>"
  let ?s = "\<lparr>delay_task_queue = [?t], last_sync_time = 100 :: u64, clock = [1100]\<rparr>"
  let ?s1 = "\<lparr>delay_task_queue = [?t\<lparr>delta_time := 0\<rparr>], last_sync_time = 1100 :: u64, clock = []\<rparr>"
  have ok: "queue_ok (delay_task_queue ?s)" "queue_ok (delay_task_queue ?s1)"
    by (simp_all add: queue_ok_def INT_MAX_def)
  have "sync_delay_time ?s = Some ?s1"
    by (simp add: sync_delay_time_def time_now_def elapsed_since_def INT_MAX_def c_int_def)
  then show ?thesis
    using do_delay_task_dispatch[OF ok(1), of ?t "[]" "\<lambda>p x s. Some (300, s)"] ok(2)
    by (simp add: Let_def INT_MAX_def view_add_def view_advance_def view_remove_def)
qed

text \<open>Further result: Removing the last of several tasks. \<open>del_delay_task\<close> adds the delay of the removed task
  to "the next task" even when the next list entry is the list head: it then writes behind the
  structure \<open>rtsp_srv\<close>, whose last member the list head is. Both functions that remove a task,
  \<open>destroy_delay_task\<close> and \<open>update_delay_time\<close>, do so for the last of two or more tasks.\<close>
theorem delay_task_last_removed:
  assumes "distinct (map addr (delay_task_queue s))" "1 < length (delay_task_queue s)"
  shows "destroy_delay_task (addr (last (delay_task_queue s))) s = None
    \<and> update_delay_time (addr (last (delay_task_queue s))) d s = None"
proof -
  have "delay_task_queue s \<noteq> []" using assms(2) by auto
  then have "addr (last (delay_task_queue s)) \<in> addr ` set (delay_task_queue s)" by simp
  then show ?thesis
    using unlink_last[OF assms(2,1)] assms(2) by (simp add: destroy_delay_task_def update_delay_time_def del_delay_task_def)
qed

lemma delay_task_last_removed_witness:
  "destroy_delay_task 2 \<lparr>delay_task_queue = [\<lparr>addr = 1, delta_time = 0, arg = 0, proc = ()\<rparr>, \<lparr>addr = 2, delta_time = 5, arg = 0, proc = ()\<rparr>],
      last_sync_time = 0, clock = []\<rparr> = None"
  using delay_task_last_removed[of "\<lparr>delay_task_queue = [\<lparr>addr = 1, delta_time = 0, arg = 0, proc = ()\<rparr>,
      \<lparr>addr = 2, delta_time = 5, arg = 0, proc = ()\<rparr>], last_sync_time = 0, clock = []\<rparr>"] by simp

end
