(* ===== verification/Rtsp_Types.thy ===== *)
theory Rtsp_Types
  imports C_Base
begin

text \<open>
  The data of the RTSP server \<open>A-V/libRtspServer\<close>: the enumerations and structures of
  \<open>rtsp_srv.h\<close>, \<open>rtsp_sess.h\<close>, \<open>rtp.h\<close>, \<open>util.h\<close> and \<open>librtspsrv.h\<close>. Character data are lists of
  bytes, pointers that the code tests are options.
\<close>

subsection \<open>Enumerations\<close>

datatype rtsp_method =
    RTSP_METHOD_OPTIONS | RTSP_METHOD_DESCRIBE | RTSP_METHOD_SETUP | RTSP_METHOD_PLAY
  | RTSP_METHOD_PAUSE | RTSP_METHOD_GET_PARAMETER | RTSP_METHOD_SET_PARAMETER | RTSP_METHOD_TEARDOWN

datatype rtsp_state = RTSP_STATE_INIT | RTSP_STATE_READY | RTSP_STATE_PLAYING

datatype handling_state =
    HANDLING_STATE_INIT | HANDLING_STATE_READY | HANDLING_STATE_PARSED | HANDLING_STATE_HANDLED
  | HANDLING_STATE_RETRY | HANDLING_STATE_DONE | HANDLING_STATE_ERROR | HANDLING_STATE_FAILED

datatype data_type =
    DATA_TYPE_RTSP_RESP | DATA_TYPE_RTP_V_PKT | DATA_TYPE_RTP_A_PKT
  | DATA_TYPE_RTCP_V_PKT | DATA_TYPE_RTCP_A_PKT

fun data_type_bit :: "data_type \<Rightarrow> u32" where
  "data_type_bit DATA_TYPE_RTSP_RESP = 0x01"
| "data_type_bit DATA_TYPE_RTP_V_PKT = 0x02"
| "data_type_bit DATA_TYPE_RTP_A_PKT = 0x04"
| "data_type_bit DATA_TYPE_RTCP_V_PKT = 0x08"
| "data_type_bit DATA_TYPE_RTCP_A_PKT = 0x10"

datatype media_type = MEDIA_TYPE_VIDEO | MEDIA_TYPE_AUDIO

text \<open>\<open>frm_type\<close> is 0 before a frame has been fetched.\<close>

datatype frm_type = FRM_TYPE_NONE | FRM_TYPE_I | FRM_TYPE_B | FRM_TYPE_P | FRM_TYPE_A

datatype chn_type = CHN_TYPE_MAIN | CHN_TYPE_MINOR

subsection \<open>Status codes\<close>

datatype status_code =
    CONTINUE | OK | CREATED | LOW_ON_STORAGE_SPACE | MULTIPLE_CHOICES | MOVED_PERMANENTLY |
    MOVED_TEMPORARILY | SEE_OTHER | NOT_MODIFIED | USE_PROXY | BAD_REQUEST | UNAUTHORIZED |
    PAYMENT_REQUIRED | FORBIDDEN | NOT_FOUND | METHOD_NOT_ALLOWED | NOT_ACCEPTABLE |
    PROXY_AUTHENTICATION_REQUIRED | REQUEST_TIME_OUT | GONE | LENGTH_REQUIRED |
    PRECONDITION_FAILED | REQUEST_ENTITY_TOO_LARGE | REQUEST_URI_TOO_LARGE |
    UNSUPPORTED_MEDIA_TYPE | PARAMETER_NOT_UNDERSTOOD | CONFERENCE_NOT_FOUND |
    NOT_ENOUGH_BANDWIDTH | SESSION_NOT_FOUND | METHOD_NOT_VALID_IN_THIS_STATE |
    HEADER_FIELD_NOT_VALID_FOR_RESOURCE | INVALID_RANGE | PARAMETER_IS_READ_ONLY |
    AGGREGATE_OPERATION_NOT_ALLOWED | ONLY_AGGREGATE_OPERATION_ALLOWED |
    UNSUPPORTED_TRANSPORT | DESTINATION_UNREACHABLE | INTERNAL_SERVER_ERROR |
    NOT_IMPLEMENTED | BAD_GATEWAY | SERVICE_UNAVAILABLE | GATEWAY_TIME_OUT |
    VERSION_NOT_SUPPORTED | OPTION_NOT_SUPPORTED

fun status_value :: "status_code \<Rightarrow> u32" where
  "status_value CONTINUE = 100"
| "status_value OK = 200"
| "status_value CREATED = 201"
| "status_value LOW_ON_STORAGE_SPACE = 250"
| "status_value MULTIPLE_CHOICES = 300"
| "status_value MOVED_PERMANENTLY = 301"
| "status_value MOVED_TEMPORARILY = 302"
| "status_value SEE_OTHER = 303"
| "status_value NOT_MODIFIED = 304"
| "status_value USE_PROXY = 305"
| "status_value BAD_REQUEST = 400"
| "status_value UNAUTHORIZED = 401"
| "status_value PAYMENT_REQUIRED = 402"
| "status_value FORBIDDEN = 403"
| "status_value NOT_FOUND = 404"
| "status_value METHOD_NOT_ALLOWED = 405"
| "status_value NOT_ACCEPTABLE = 406"
| "status_value PROXY_AUTHENTICATION_REQUIRED = 407"
| "status_value REQUEST_TIME_OUT = 408"
| "status_value GONE = 410"
| "status_value LENGTH_REQUIRED = 411"
| "status_value PRECONDITION_FAILED = 412"
| "status_value REQUEST_ENTITY_TOO_LARGE = 413"
| "status_value REQUEST_URI_TOO_LARGE = 414"
| "status_value UNSUPPORTED_MEDIA_TYPE = 415"
| "status_value PARAMETER_NOT_UNDERSTOOD = 451"
| "status_value CONFERENCE_NOT_FOUND = 452"
| "status_value NOT_ENOUGH_BANDWIDTH = 453"
| "status_value SESSION_NOT_FOUND = 454"
| "status_value METHOD_NOT_VALID_IN_THIS_STATE = 455"
| "status_value HEADER_FIELD_NOT_VALID_FOR_RESOURCE = 456"
| "status_value INVALID_RANGE = 457"
| "status_value PARAMETER_IS_READ_ONLY = 458"
| "status_value AGGREGATE_OPERATION_NOT_ALLOWED = 459"
| "status_value ONLY_AGGREGATE_OPERATION_ALLOWED = 460"
| "status_value UNSUPPORTED_TRANSPORT = 461"
| "status_value DESTINATION_UNREACHABLE = 462"
| "status_value INTERNAL_SERVER_ERROR = 500"
| "status_value NOT_IMPLEMENTED = 501"
| "status_value BAD_GATEWAY = 502"
| "status_value SERVICE_UNAVAILABLE = 503"
| "status_value GATEWAY_TIME_OUT = 504"
| "status_value VERSION_NOT_SUPPORTED = 505"
| "status_value OPTION_NOT_SUPPORTED = 551"

definition status_code_and_reason :: "(status_code \<times> string) list" where
  "status_code_and_reason = [
    (CONTINUE, ''Continue''),
    (OK, ''OK''),
    (CREATED, ''Created''),
    (LOW_ON_STORAGE_SPACE, ''Low on Storage Space''),
    (MULTIPLE_CHOICES, ''Multiple Choices''),
    (MOVED_PERMANENTLY, ''Moved Permanently''),
    (MOVED_TEMPORARILY, ''Moved Temporarily''),
    (SEE_OTHER, ''See Other''),
    (NOT_MODIFIED, ''Not Modified''),
    (USE_PROXY, ''Use Proxy''),
    (BAD_REQUEST, ''Bad Request''),
    (UNAUTHORIZED, ''Unauthorized''),
    (PAYMENT_REQUIRED, ''Payment Required''),
    (FORBIDDEN, ''Forbidden''),
    (NOT_FOUND, ''Not Found''),
    (METHOD_NOT_ALLOWED, ''Method Not Allowed''),
    (NOT_ACCEPTABLE, ''Not Acceptable''),
    (PROXY_AUTHENTICATION_REQUIRED, ''Proxy Authentication Required''),
    (REQUEST_TIME_OUT, ''Request Time-out''),
    (GONE, ''Gone''),
    (LENGTH_REQUIRED, ''Length Required''),
    (PRECONDITION_FAILED, ''Precondition Failed''),
    (REQUEST_ENTITY_TOO_LARGE, ''Request Entity Too Large''),
    (REQUEST_URI_TOO_LARGE, ''Request-URI Too Large''),
    (UNSUPPORTED_MEDIA_TYPE, ''Unsupported Media Type''),
    (PARAMETER_NOT_UNDERSTOOD, ''Parameter Not Understood''),
    (CONFERENCE_NOT_FOUND, ''Conference Not Found''),
    (NOT_ENOUGH_BANDWIDTH, ''Not Enough Bandwidth''),
    (SESSION_NOT_FOUND, ''Session Not Found''),
    (METHOD_NOT_VALID_IN_THIS_STATE, ''Method Not Valid in This State''),
    (HEADER_FIELD_NOT_VALID_FOR_RESOURCE, ''Header Field Not Valid for Resource''),
    (INVALID_RANGE, ''Invalid Range''),
    (PARAMETER_IS_READ_ONLY, ''Parameter Is Read-Only''),
    (AGGREGATE_OPERATION_NOT_ALLOWED, ''Aggregate operation not allowed''),
    (ONLY_AGGREGATE_OPERATION_ALLOWED, ''Only aggregate operation allowed''),
    (UNSUPPORTED_TRANSPORT, ''Unsupported transport''),
    (DESTINATION_UNREACHABLE, ''Destination unreachable''),
    (INTERNAL_SERVER_ERROR, ''Internal Server Error''),
    (NOT_IMPLEMENTED, ''Not Implemented''),
    (BAD_GATEWAY, ''Bad Gateway''),
    (SERVICE_UNAVAILABLE, ''Service Unavailable''),
    (GATEWAY_TIME_OUT, ''Gateway Time-out''),
    (VERSION_NOT_SUPPORTED, ''Version not supported''),
    (OPTION_NOT_SUPPORTED, ''Option not supported'')]"

subsection \<open>Structures\<close>

text \<open>The bit fields of \<open>rtp_hdr\<close> are kept as bytes below their width; \<open>seq\<close>, \<open>ts\<close> and \<open>ssrc\<close> are the
  memory words of a little-endian machine, in network byte order.\<close>

record rtp_hdr =
  hdr_v :: u8
  hdr_p :: u8
  hdr_x :: u8
  hdr_cc :: u8
  hdr_m :: u8
  hdr_pt :: u8
  hdr_seq :: u16
  hdr_ts :: u32
  hdr_ssrc :: u32

record transport =
  t_rtp_chn :: u8
  t_rtcp_chn :: u8
  t_rtp_cli_port :: u16
  t_rtcp_cli_port :: u16
  t_rtp_srv_port :: u16
  t_rtcp_srv_port :: u16

record rtsp_req =
  req_method :: "rtsp_method option"
  req_uri :: "u8 list option"
  req_ver :: "u8 list option"
  req_sess_id :: u64
  req_cseq :: u32
  req_transport :: transport
  req_media :: media_type

record rtsp_resp =
  resp_ver :: "u8 list option"
  resp_status :: status_code
  resp_sess_id :: u64
  resp_cseq :: u32
  resp_server :: "u8 list option"
  resp_public :: "u8 list option"
  resp_transport :: transport
  resp_sdp_info :: "u8 list option"

record strm_info =
  chn_no :: int
  chn_type :: chn_type
  file_name :: "u8 list option"

record frm_info =
  frm_sz :: u32
  frm_type :: frm_type
  frm_buf :: "u8 list"

text \<open>The union of \<open>struct tcp\<close> and \<open>struct udp\<close> is its first two words \<open>rtp_sd\<close> and \<open>rtcp_sd\<close>; the
  channels of the interleaved mode are the two low bytes of the first. \<open>rtp_port\<close> and \<open>rtcp_port\<close>
  are the ports of the client's addresses.\<close>

record rtp_rtcp =
  rtp_hdr :: rtp_hdr
  rtp_sd :: u32
  rtcp_sd :: u32
  rtp_port :: u16
  rtcp_port :: u16

definition tcp_rtp_chn :: "rtp_rtcp \<Rightarrow> u8" where
  "tcp_rtp_chn r = ucast (rtp_sd r)"

definition set_tcp_chns :: "u8 \<Rightarrow> u8 \<Rightarrow> rtp_rtcp \<Rightarrow> rtp_rtcp" where
  "set_tcp_chns c d r = r\<lparr>rtp_sd := or (and (rtp_sd r) 0xFFFF0000) (or (ucast c) (push_bit 8 (ucast d)))\<rparr>"

record send_buf =
  buf_type :: data_type
  buf_sz :: u32
  buf_data :: "u8 list"

record rtsp_sess =
  sess_id :: u64
  rtsp_state :: rtsp_state
  handling_state :: handling_state
  rtsp_sd :: u32
  intlvd_mode :: bool
  send_queue :: "send_buf list"
  recv_buf :: "u8 list"
  req :: "rtsp_req option"
  resp :: "rtsp_resp option"
  strm_info :: strm_info
  frm_info :: frm_info
  rtp_video :: rtp_rtcp
  rtp_audio :: rtp_rtcp

abbreviation rtp_of :: "media_type \<Rightarrow> rtsp_sess \<Rightarrow> rtp_rtcp" where
  "rtp_of media s \<equiv> (case media of MEDIA_TYPE_VIDEO \<Rightarrow> rtp_video s | MEDIA_TYPE_AUDIO \<Rightarrow> rtp_audio s)"

definition set_rtp :: "media_type \<Rightarrow> rtp_rtcp \<Rightarrow> rtsp_sess \<Rightarrow> rtsp_sess" where
  "set_rtp media r s = (case media of MEDIA_TYPE_VIDEO \<Rightarrow> s\<lparr>rtp_video := r\<rparr> | MEDIA_TYPE_AUDIO \<Rightarrow> s\<lparr>rtp_audio := r\<rparr>)"

subsection \<open>Zeroed structures\<close>

text \<open>What \<open>mallocz\<close> returns; the status of a response is set to 200 right after its allocation.\<close>

definition zero_transport :: transport where
  "zero_transport = \<lparr>t_rtp_chn = 0, t_rtcp_chn = 0, t_rtp_cli_port = 0, t_rtcp_cli_port = 0,
     t_rtp_srv_port = 0, t_rtcp_srv_port = 0\<rparr>"

definition zero_req :: rtsp_req where
  "zero_req = \<lparr>req_method = Some RTSP_METHOD_OPTIONS, req_uri = None, req_ver = None, req_sess_id = 0, req_cseq = 0,
     req_transport = zero_transport, req_media = MEDIA_TYPE_VIDEO\<rparr>"

definition zero_resp :: rtsp_resp where
  "zero_resp = \<lparr>resp_ver = None, resp_status = OK, resp_sess_id = 0, resp_cseq = 0, resp_server = None,
     resp_public = None, resp_transport = zero_transport, resp_sdp_info = None\<rparr>"

definition zero_rtp_rtcp :: rtp_rtcp where
  "zero_rtp_rtcp = \<lparr>rtp_hdr = \<lparr>hdr_v = 0, hdr_p = 0, hdr_x = 0, hdr_cc = 0, hdr_m = 0, hdr_pt = 0, hdr_seq = 0,
     hdr_ts = 0, hdr_ssrc = 0\<rparr>, rtp_sd = 0, rtcp_sd = 0, rtp_port = 0, rtcp_port = 0\<rparr>"

definition zero_sess :: rtsp_sess where
  "zero_sess = \<lparr>sess_id = 0, rtsp_state = RTSP_STATE_INIT, handling_state = HANDLING_STATE_INIT, rtsp_sd = 0,
     intlvd_mode = False, send_queue = [], recv_buf = [], req = None, resp = None,
     strm_info = \<lparr>chn_no = 0, chn_type = CHN_TYPE_MAIN, file_name = None\<rparr>,
     frm_info = \<lparr>frm_sz = 0, frm_type = FRM_TYPE_NONE, frm_buf = []\<rparr>,
     rtp_video = zero_rtp_rtcp, rtp_audio = zero_rtp_rtcp\<rparr>"

end
