(* ===== verification/Rtsp_Util.thy ===== *)
theory Rtsp_Util
  imports Rtsp_Types
begin

text \<open>
  The pure helpers of the RTSP server: \<open>util.c\<close> (reason phrases, the scanner of H.264 start codes,
  the base-64 encoder) and \<open>rtsp_encodeBase64\<close> of \<open>rtsp_method.c\<close>. Frames are lists of bytes and
  the pointers into them indices; a scan that looks past the list has no result.
\<close>

subsection \<open>Reason phrases\<close>

text \<open>The loop does not stop at the first match.\<close>

definition get_status_reason :: "u32 \<Rightarrow> string" where
  "get_status_reason code = fold (\<lambda>(c, r) reason. if status_value c = code then r else reason)
     status_code_and_reason ''Corresponding Reason Undefined''"

subsection \<open>Start codes\<close>

text \<open>A chain of comparisons \<open>p[0] == b0 && p[1] == b1 && ...\<close> reads no further than its first
  mismatch.\<close>

fun bytes_at :: "u8 list \<Rightarrow> nat \<Rightarrow> u8 list \<Rightarrow> bool option" where
  "bytes_at buf p [] = Some True"
| "bytes_at buf p (b # bs) = do {
     c \<leftarrow> rd buf p;
     if c = b then bytes_at buf (Suc p) bs else Some False }"

function skip_nalu_start_code :: "u8 list \<Rightarrow> nat \<Rightarrow> nat \<Rightarrow> nat option option" where
  "skip_nalu_start_code buf ptr end = (if ptr + 3 < end then do {
       four \<leftarrow> bytes_at buf ptr [0, 0, 0, 1];
       if four then Some (Some (ptr + 4)) else do {
         three \<leftarrow> bytes_at buf ptr [0, 0, 1];
         if three then Some (Some (ptr + 3)) else skip_nalu_start_code buf (Suc ptr) end } }
     else Some None)"
  by pat_completeness auto
termination by (relation "measure (\<lambda>(buf, ptr, end). end - ptr)") auto

declare skip_nalu_start_code.simps [simp del]

function nalu_end :: "u8 list \<Rightarrow> nat \<Rightarrow> nat \<Rightarrow> nat option" where
  "nalu_end buf p end = (if end \<le> p then Some end else do {
     z \<leftarrow> bytes_at buf p [0, 0, 0, 0];
     if z then Some end else do {
       four \<leftarrow> bytes_at buf p [0, 0, 0, 1];
       if four then Some (if end \<le> p + 4 then end else p) else do {
         three \<leftarrow> bytes_at buf p [0, 0, 1];
         if three then Some (if end \<le> p + 3 then end else p) else nalu_end buf (Suc p) end } } })"
  by pat_completeness auto
termination by (relation "measure (\<lambda>(buf, p, end). end - p)") auto

declare nalu_end.simps [simp del]

definition get_nalu_sz :: "u8 list \<Rightarrow> nat \<Rightarrow> nat \<Rightarrow> nat option" where
  "get_nalu_sz buf nalu end = do { p \<leftarrow> nalu_end buf nalu end; Some (p - nalu) }"

subsection \<open>Base 64\<close>

definition b64_alphabet :: "u8 list" where
  "b64_alphabet = map (\<lambda>c. of_nat (of_char c))
     ''ABCDEFGHIJKLMNOPQRSTUVWXYZabcdefghijklmnopqrstuvwxyz0123456789+/''"

text \<open>The inner loop, \<open>do ... while (shift > 6 || (left == 0 && shift > 0))\<close>.\<close>

function emit_digits :: "u32 \<Rightarrow> nat \<Rightarrow> int \<Rightarrow> nat \<Rightarrow> u8 list \<Rightarrow> (int \<times> nat \<times> u8 list) option" where
  "emit_digits bits left shift d res = do {
     c \<leftarrow> rd b64_alphabet (unat (and (drop_bit (nat shift) (push_bit 6 bits)) 0x3F));
     res \<leftarrow> wr res d c;
     if shift - 6 > 6 \<or> left = 0 \<and> shift - 6 > 0 then emit_digits bits left (shift - 6) (Suc d) res
     else Some (shift - 6, Suc d, res) }"
  by pat_completeness auto
termination by (relation "measure (\<lambda>(bits, left, shift, d, res). nat shift)") auto

declare emit_digits.simps [simp del]

text \<open>The outer loop; \<open>ext\<close> is the conversion of a source byte to \<open>unsigned\<close>: \<open>*src++\<close> is
  zero-extended from an \<open>unsigned char\<close> and sign-extended from a \<open>char\<close>.\<close>

fun encode_loop :: "(u8 \<Rightarrow> u32) \<Rightarrow> u8 list \<Rightarrow> u32 \<Rightarrow> int \<Rightarrow> nat \<Rightarrow> u8 list \<Rightarrow> (nat \<times> u8 list) option" where
  "encode_loop ext [] bits shift d res = Some (d, res)"
| "encode_loop ext (c # src) bits shift d res = (let bits = push_bit 8 bits + ext c in do {
     (shift, d, res) \<leftarrow> emit_digits bits (length src) (shift + 8) d res;
     encode_loop ext src bits shift d res })"

function pad_loop :: "nat \<Rightarrow> u8 list \<Rightarrow> (nat \<times> u8 list) option" where
  "pad_loop d res = (if d mod 4 \<noteq> 0 then do {
     res \<leftarrow> wr res d 61;
     pad_loop (Suc d) res }
   else Some (d, res))"
  by pat_completeness auto
termination by (relation "measure (\<lambda>(d, res). (4 - d mod 4) mod 4)") (auto simp: mod_Suc)

declare pad_loop.simps [simp del]

definition encode_into :: "(u8 \<Rightarrow> u32) \<Rightarrow> u8 list \<Rightarrow> u8 list \<Rightarrow> u8 list option" where
  "encode_into ext src res = do {
     (d, res) \<leftarrow> encode_loop ext src 0 0 0 res;
     (d, res) \<leftarrow> pad_loop d res;
     wr res d 0 }"

text \<open>\<open>UINT_MAX / 4\<close> is \<open>2 ^ 30 - 1\<close>. The result is \<open>None\<close> for NULL.\<close>

definition encode_base64 :: "u8 list \<Rightarrow> mem \<Rightarrow> (u8 list option \<times> mem) option" where
  "encode_base64 src m = (if length src \<ge> 2 ^ 30 - 1 then Some (None, m)
     else let
       padded = (if length src > length src div 3 * 3 then 1 else 0);
       res_sz = 4 * (length src div 3 + padded)
     in case malloc (replicate (res_sz + 1) 0) m of
       (None, m) \<Rightarrow> Some (None, m)
     | (Some res, m) \<Rightarrow> do {
         res \<leftarrow> encode_into scast src res;
         Some (Some res, m) })"

definition rtsp_encodeBase64 :: "u8 list \<Rightarrow> int \<Rightarrow> u8 list \<Rightarrow> u8 list option option" where
  "rtsp_encodeBase64 buf buf_len src =
    (if length src \<ge> 2 ^ 30 - 1 then Some None
     else do {
       n \<leftarrow> c_int (int (length src) * 4);
       if buf_len < n div 3 + 12 then Some None
       else do { res \<leftarrow> encode_into ucast src buf; Some (Some res) } })"

end
