(* ===== verification/Rtsp_Util_Correct.thy ===== *)
theory Rtsp_Util_Correct
  imports Rtsp_Util Base64_Correct
begin

text \<open>
  The base-64 encoders of the RTSP server against the reference encoding \<open>b64\<close> of
  \<^bold>\<open>Base64_Correct\<close>. The loop that keeps a 32-bit accumulator and emits a digit whenever
  six bits are there (\<open>emit_digits\<close>) is followed group by group: \<open>emit8\<close>, \<open>emit10\<close>, \<open>emit12\<close>
  give the digits of the three positions in a group.
\<close>

subsection \<open>Six bits of the accumulator\<close>

lemma plus_byte: "push_bit 8 B + ucast (a :: u8) = or (push_bit 8 B) (ucast a :: u32)"
  by (rule disjunctive_add) (auto simp: bit_simps dest: bit_imp_le_length)

lemma and63: "and (w :: u32) 0x3F = take_bit 6 w"
  by (simp add: take_bit_eq_mask mask_eq_exp_minus_1)

lemma accumulator_words:
  fixes a b c :: u8 and B :: u32
  shows "and (drop_bit 8 (push_bit 6 (push_bit 8 B + ucast a))) 0x3F = ucast (drop_bit 2 a)"
    "and (drop_bit 2 (push_bit 6 (push_bit 8 B + ucast a))) 0x3F = ucast (push_bit 4 (take_bit 2 a))"
    "and (drop_bit 10 (push_bit 6 (push_bit 8 (push_bit 8 B + ucast a) + ucast b))) 0x3F
       = ucast (or (push_bit 4 (take_bit 2 a)) (drop_bit 4 b))"
    "and (drop_bit 4 (push_bit 6 (push_bit 8 B + ucast b))) 0x3F = ucast (push_bit 2 (take_bit 4 b))"
    "and (drop_bit 12 (push_bit 6 (push_bit 8 (push_bit 8 B + ucast b) + ucast c))) 0x3F
       = ucast (or (push_bit 2 (take_bit 4 b)) (drop_bit 6 c))"
    "and (drop_bit 6 (push_bit 6 (push_bit 8 B + ucast c))) 0x3F = ucast (take_bit 6 c)"
    "and (drop_bit 14 (push_bit 6 (push_bit 8 (push_bit 8 B + ucast c) + ucast a))) 0x3F = ucast (take_bit 6 c)"
  unfolding plus_byte and63
  by (rule bit_word_eqI; fastforce simp: bit_simps dest: bit_imp_le_length)+

lemma or_plus:
  "or (push_bit 4 (take_bit 2 a)) (drop_bit 4 b) = push_bit 4 (take_bit 2 a) + drop_bit 4 b"
  "or (push_bit 2 (take_bit 4 a)) (drop_bit 6 b) = push_bit 2 (take_bit 4 a) + drop_bit 6 b" for a b :: u8
  by (rule disjunctive_add[symmetric]; auto simp: bit_simps dest: bit_imp_le_length)+

lemma unat_ucast_u8: "unat (ucast (x :: u8) :: u32) = unat x"
  by (simp add: unsigned_ucast_eq take_bit_nat_eq_self unsigned_less[of x, THEN less_le_trans])

lemma accumulator:
  fixes a b c :: u8 and B :: u32
  shows "unat (and (drop_bit 8 (push_bit 6 (push_bit 8 B + ucast a))) 0x3F) = unat a div 4"
    "unat (and (drop_bit 2 (push_bit 6 (push_bit 8 B + ucast a))) 0x3F) = unat a mod 4 * 16"
    "unat (and (drop_bit 10 (push_bit 6 (push_bit 8 (push_bit 8 B + ucast a) + ucast b))) 0x3F)
       = unat a mod 4 * 16 + unat b div 16"
    "unat (and (drop_bit 4 (push_bit 6 (push_bit 8 B + ucast b))) 0x3F) = unat b mod 16 * 4"
    "unat (and (drop_bit 12 (push_bit 6 (push_bit 8 (push_bit 8 B + ucast b) + ucast c))) 0x3F)
       = unat b mod 16 * 4 + unat c div 64"
    "unat (and (drop_bit 6 (push_bit 6 (push_bit 8 B + ucast c))) 0x3F) = unat c mod 64"
    "unat (and (drop_bit 14 (push_bit 6 (push_bit 8 (push_bit 8 B + ucast c) + ucast a))) 0x3F) = unat c mod 64"
  unfolding accumulator_words or_plus unat_ucast_u8
  using u8_bound[of a] u8_bound[of b] u8_bound[of c] by (simp_all add: unat_parts)

lemma b64_alphabet: "b64_alphabet = BASE64_TABLE"
  by code_simp

subsection \<open>The encoder loops\<close>

text \<open>The digits without the padding.\<close>

fun digits :: "u8 list \<Rightarrow> u8 list" where
  "digits (a # b # c # r) = quad a b c @ digits r"
| "digits [a, b] = take 3 (quad a b 0)"
| "digits [a] = take 2 (quad a 0 0)"
| "digits [] = []"

lemma emit_step:
  assumes "length p = d" "unat (and (drop_bit (nat shift) (push_bit 6 bits)) 0x3F) = k" "k < 64"
  shows "emit_digits bits left shift d (p @ x # q) =
    (if shift - 6 > 6 \<or> left = 0 \<and> shift - 6 > 0
     then emit_digits bits left (shift - 6) (Suc d) ((p @ [BASE64_TABLE ! k]) @ q)
     else Some (shift - 6, Suc d, (p @ [BASE64_TABLE ! k]) @ q))"
  using assms by (subst emit_digits.simps) (auto simp: b64_alphabet list_update_append)

lemma emit8:
  assumes "length p = d"
  shows "emit_digits (push_bit 8 B + ucast (a :: u8)) (Suc l) 8 d (p @ x # q)
      = Some (2, Suc d, (p @ [BASE64_TABLE ! (unat a div 4)]) @ q)"
    and "emit_digits (push_bit 8 B + ucast a) 0 8 d (p @ x # y # q)
      = Some (- 4, Suc (Suc d), (p @ [BASE64_TABLE ! (unat a div 4), BASE64_TABLE ! (unat a mod 4 * 16)]) @ q)"
proof -
  note k = accumulator(1)[of B a] accumulator(2)[of B a]
  show "emit_digits (push_bit 8 B + ucast a) (Suc l) 8 d (p @ x # q)
      = Some (2, Suc d, (p @ [BASE64_TABLE ! (unat a div 4)]) @ q)"
    using k digit_bounds by (subst emit_step[OF assms, of _ _ "unat a div 4"]) simp_all
  have "emit_digits (push_bit 8 B + ucast a) 0 8 d (p @ x # y # q)
      = emit_digits (push_bit 8 B + ucast a) 0 2 (Suc d) ((p @ [BASE64_TABLE ! (unat a div 4)]) @ y # q)"
    using k digit_bounds by (subst emit_step[OF assms, of _ _ "unat a div 4"]) simp_all
  also have "\<dots> = Some (- 4, Suc (Suc d), ((p @ [BASE64_TABLE ! (unat a div 4)]) @ [BASE64_TABLE ! (unat a mod 4 * 16)]) @ q)"
    using k digit_bounds(2)[of a 0] assms by (subst emit_step[of _ _ _ _ "unat a mod 4 * 16"]) simp_all
  finally show "emit_digits (push_bit 8 B + ucast a) 0 8 d (p @ x # y # q)
      = Some (- 4, Suc (Suc d), (p @ [BASE64_TABLE ! (unat a div 4), BASE64_TABLE ! (unat a mod 4 * 16)]) @ q)" by simp
qed

lemma emit10:
  assumes "length p = d"
  shows "emit_digits (push_bit 8 (push_bit 8 B + ucast (a :: u8)) + ucast (b :: u8)) (Suc l) 10 d (p @ x # q)
      = Some (4, Suc d, (p @ [BASE64_TABLE ! (unat a mod 4 * 16 + unat b div 16)]) @ q)"
    and "emit_digits (push_bit 8 (push_bit 8 B + ucast a) + ucast b) 0 10 d (p @ x # y # q)
      = Some (- 2, Suc (Suc d), (p @ [BASE64_TABLE ! (unat a mod 4 * 16 + unat b div 16), BASE64_TABLE ! (unat b mod 16 * 4)]) @ q)"
proof -
  let ?k = "unat a mod 4 * 16 + unat b div 16"
  note k = accumulator(3)[of B a b] accumulator(4)[of "push_bit 8 B + ucast a" b]
  show "emit_digits (push_bit 8 (push_bit 8 B + ucast a) + ucast b) (Suc l) 10 d (p @ x # q)
      = Some (4, Suc d, (p @ [BASE64_TABLE ! ?k]) @ q)"
    using k digit_bounds by (subst emit_step[OF assms, of _ _ ?k]) simp_all
  have "emit_digits (push_bit 8 (push_bit 8 B + ucast a) + ucast b) 0 10 d (p @ x # y # q)
      = emit_digits (push_bit 8 (push_bit 8 B + ucast a) + ucast b) 0 4 (Suc d) ((p @ [BASE64_TABLE ! ?k]) @ y # q)"
    using k digit_bounds by (subst emit_step[OF assms, of _ _ ?k]) simp_all
  also have "\<dots> = Some (- 2, Suc (Suc d), ((p @ [BASE64_TABLE ! ?k]) @ [BASE64_TABLE ! (unat b mod 16 * 4)]) @ q)"
    using k digit_bounds(4)[of b] assms by (subst emit_step[of _ _ _ _ "unat b mod 16 * 4"]) simp_all
  finally show "emit_digits (push_bit 8 (push_bit 8 B + ucast a) + ucast b) 0 10 d (p @ x # y # q)
      = Some (- 2, Suc (Suc d), (p @ [BASE64_TABLE ! ?k, BASE64_TABLE ! (unat b mod 16 * 4)]) @ q)" by simp
qed

lemma emit12:
  assumes "length p = d"
  shows "emit_digits (push_bit 8 (push_bit 8 B + ucast (b :: u8)) + ucast (c :: u8)) (Suc l) 12 d (p @ x # q)
      = Some (6, Suc d, (p @ [BASE64_TABLE ! (unat b mod 16 * 4 + unat c div 64)]) @ q)"
    and "emit_digits (push_bit 8 (push_bit 8 B + ucast b) + ucast c) 0 12 d (p @ x # y # q)
      = Some (0, Suc (Suc d), (p @ [BASE64_TABLE ! (unat b mod 16 * 4 + unat c div 64), BASE64_TABLE ! (unat c mod 64)]) @ q)"
proof -
  let ?k = "unat b mod 16 * 4 + unat c div 64"
  note k = accumulator(5)[of B b c] accumulator(6)[of "push_bit 8 B + ucast b" c]
  show "emit_digits (push_bit 8 (push_bit 8 B + ucast b) + ucast c) (Suc l) 12 d (p @ x # q)
      = Some (6, Suc d, (p @ [BASE64_TABLE ! ?k]) @ q)"
    using k digit_bounds by (subst emit_step[OF assms, of _ _ ?k]) simp_all
  have "emit_digits (push_bit 8 (push_bit 8 B + ucast b) + ucast c) 0 12 d (p @ x # y # q)
      = emit_digits (push_bit 8 (push_bit 8 B + ucast b) + ucast c) 0 6 (Suc d) ((p @ [BASE64_TABLE ! ?k]) @ y # q)"
    using k digit_bounds by (subst emit_step[OF assms, of _ _ ?k]) simp_all
  also have "\<dots> = Some (0, Suc (Suc d), ((p @ [BASE64_TABLE ! ?k]) @ [BASE64_TABLE ! (unat c mod 64)]) @ q)"
    using k assms by (subst emit_step[of _ _ _ _ "unat c mod 64"]) simp_all
  finally show "emit_digits (push_bit 8 (push_bit 8 B + ucast b) + ucast c) 0 12 d (p @ x # y # q)
      = Some (0, Suc (Suc d), (p @ [BASE64_TABLE ! ?k, BASE64_TABLE ! (unat c mod 64)]) @ q)" by simp
qed

text \<open>The fourth digit of a group is written when the next byte arrives.\<close>

lemma pending_digit:
  assumes "length p = d"
  shows "encode_loop ucast (a # r) (push_bit 8 B + ucast (c :: u8)) 6 d (p @ x # q)
    = encode_loop ucast (a # r) (push_bit 8 B + ucast c) 0 (Suc d) ((p @ [BASE64_TABLE ! (unat c mod 64)]) @ q)"
proof -
  have "emit_digits (push_bit 8 (push_bit 8 B + ucast c) + ucast a) (length r) 14 d (p @ x # q)
      = emit_digits (push_bit 8 (push_bit 8 B + ucast c) + ucast a) (length r) 8 (Suc d) ((p @ [BASE64_TABLE ! (unat c mod 64)]) @ q)"
    using accumulator(7)[of B c a] by (subst emit_step[OF assms, of _ _ "unat c mod 64"]) simp_all
  then show ?thesis by (simp add: Let_def)
qed

lemma length_digits: "length (digits s) + (if length s mod 3 = 0 then 0 else 3 - length s mod 3) = 4 * ((length s + 2) div 3)"
proof (induction s rule: digits.induct)
  case (1 a b c r)
  have "(length (a # b # c # r) + 2) div 3 = Suc ((length r + 2) div 3)" "length (a # b # c # r) mod 3 = length r mod 3"
    using div_add_self1[of 3 "length r + 2"] mod_add_self1[of 3 "length r"] by simp_all
  moreover have "length (digits (a # b # c # r)) = 4 + length (digits r)" by simp
  ultimately show ?case using 1 by presburger
qed simp_all

lemma encode_loop_digits:
  "\<lbrakk>length p = d; length (digits src) \<le> length q\<rbrakk> \<Longrightarrow>
    encode_loop ucast src B 0 d (p @ q)
      = Some (d + length (digits src), p @ digits src @ drop (length (digits src)) q)"
proof (induction src arbitrary: B d p q rule: digits.induct)
  case (1 a b c r)
  then have "4 \<le> length q" by simp
  then obtain w x y z q' where q: "q = w # x # y # z # q'" by (rule split_4)
  let ?t0 = "BASE64_TABLE ! (unat a div 4)" and ?t1 = "BASE64_TABLE ! (unat a mod 4 * 16 + unat b div 16)"
    and ?t2 = "BASE64_TABLE ! (unat b mod 16 * 4 + unat c div 64)" and ?t3 = "BASE64_TABLE ! (unat c mod 64)"
  let ?B1 = "push_bit 8 B + ucast a :: u32" and ?B2 = "push_bit 8 (push_bit 8 B + ucast a) + ucast b :: u32"
  let ?B3 = "push_bit 8 ?B2 + ucast c :: u32"
  have quad: "quad a b c = [?t0, ?t1, ?t2, ?t3]" by (simp add: quad_eq)
  have two: "encode_loop ucast (a # b # c # r) B 0 d (p @ q)
      = encode_loop ucast (c # r) ?B2 4 (Suc (Suc d)) ((p @ [?t0, ?t1]) @ y # z # q')"
    using emit8(1)[OF "1.prems"(1), of B a "Suc (length r)" w "x # y # z # q'"]
      emit10(1)[of "p @ [?t0]" "Suc d" B a b "length r" x "y # z # q'"] "1.prems"(1)
    by (simp add: q Let_def)
  show ?case
  proof (cases r)
    case Nil
    then show ?thesis
      using two emit12(2)[of "p @ [?t0, ?t1]" "Suc (Suc d)" ?B1 b c y z q'] "1.prems"(1)
      by (simp add: q quad Let_def)
  next
    case (Cons a' r')
    have "encode_loop ucast (c # r) ?B2 4 (Suc (Suc d)) ((p @ [?t0, ?t1]) @ y # z # q')
        = encode_loop ucast r ?B3 6 (Suc (Suc (Suc d))) ((p @ [?t0, ?t1, ?t2]) @ z # q')"
      using emit12(1)[of "p @ [?t0, ?t1]" "Suc (Suc d)" ?B1 b c "length r'" y "z # q'"] "1.prems"(1) Cons
      by (simp add: Let_def)
    also have "\<dots> = encode_loop ucast r ?B3 0 (Suc (Suc (Suc (Suc d)))) ((p @ quad a b c) @ q')"
      using pending_digit[of "p @ [?t0, ?t1, ?t2]" "Suc (Suc (Suc d))" a' r' ?B2 c z q'] "1.prems"(1) Cons
      by (simp add: quad)
    also have "\<dots> = Some (Suc (Suc (Suc (Suc d))) + length (digits r), (p @ quad a b c) @ digits r @ drop (length (digits r)) q')"
      using "1.prems" by (intro "1.IH") (simp_all add: q)
    also have "\<dots> = Some (d + length (digits (a # b # c # r)), p @ digits (a # b # c # r) @ drop (length (digits (a # b # c # r))) q)"
    proof -
      have "drop (length (digits (a # b # c # r))) q = drop (length (digits r)) (drop 4 q)" by (simp add: add.commute)
      moreover have "drop 4 q = q'" by (simp add: q)
      ultimately show ?thesis by simp
    qed
    finally show ?thesis using two by (simp only:)
  qed
next
  case (2 a b)
  then obtain w x y q' where q: "q = w # x # y # q'" by (auto simp: length_Suc_conv numeral_3_eq_3 Suc_le_length_iff)
  let ?t0 = "BASE64_TABLE ! (unat a div 4)"
  have "take 3 (quad a b 0) = [?t0, BASE64_TABLE ! (unat a mod 4 * 16 + unat b div 16), BASE64_TABLE ! (unat b mod 16 * 4)]"
    by (simp add: quad_eq)
  then show ?case
    using emit8(1)[OF "2.prems"(1), of B a 0 w "x # y # q'"]
      emit10(2)[of "p @ [?t0]" "Suc d" B a b x y q'] "2.prems"(1)
    by (simp add: q Let_def)
next
  case (3 a)
  then obtain w x q' where q: "q = w # x # q'" by (auto simp: numeral_2_eq_2 Suc_le_length_iff)
  have "take 2 (quad a 0 0) = [BASE64_TABLE ! (unat a div 4), BASE64_TABLE ! (unat a mod 4 * 16)]"
    by (simp add: quad_eq)
  then show ?case
    using emit8(2)[OF "3.prems"(1), of B a w x q'] "3.prems"(1) by (simp add: q Let_def)
qed simp

lemma pad_loop_eq:
  "\<lbrakk>length p = d; (d + k) mod 4 = 0; k < 4; k \<le> length q\<rbrakk>
   \<Longrightarrow> pad_loop d (p @ q) = Some (d + k, p @ replicate k equals_sign @ drop k q)"
proof (induction k arbitrary: d p q)
  case 0
  then show ?case by (subst pad_loop.simps) simp
next
  case (Suc k)
  have nz: "d mod 4 \<noteq> 0"
  proof
    assume "d mod 4 = 0"
    then have "(d + Suc k) mod 4 = Suc k mod 4" by (metis add_0 mod_add_left_eq)
    then show False using Suc.prems(2,3) by simp
  qed
  obtain x q' where q: "q = x # q'" using Suc.prems(4) by (cases q) auto
  have "pad_loop (Suc d) ((p @ [equals_sign]) @ q') = Some (Suc d + k, (p @ [equals_sign]) @ replicate k equals_sign @ drop k q')"
    using Suc.prems by (intro Suc.IH) (simp_all add: q)
  moreover have "wr (p @ q) d equals_sign = Some ((p @ [equals_sign]) @ q')"
    using Suc.prems(1) by (auto simp: q list_update_append)
  ultimately show ?case
    using nz by (subst pad_loop.simps) (simp add: q)
qed

lemma b64_digits: "b64 s = digits s @ replicate (if length s mod 3 = 0 then 0 else 3 - length s mod 3) equals_sign"
proof (induction s rule: digits.induct)
  case (1 a b c r)
  have "length (a # b # c # r) mod 3 = length r mod 3" using mod_add_self1[of 3 "length r"] by simp
  then show ?case using 1 by simp
qed (simp_all add: numeral_2_eq_2)

lemma encode_into_b64:
  assumes "length (b64 src) < length res"
  shows "encode_into ucast src res = Some (b64 src @ 0 # drop (Suc (length (b64 src))) res)"
proof -
  define k where "k = (if length src mod 3 = 0 then 0 else 3 - length src mod 3)"
  have b: "b64 src = digits src @ replicate k equals_sign" unfolding k_def by (rule b64_digits)
  have "length (digits src) + k = 4 * ((length src + 2) div 3)" unfolding k_def by (rule length_digits)
  then have k: "(length (digits src) + k) mod 4 = 0" by simp
  have k3: "k < 4" by (auto simp: k_def)
  let ?rest = "drop (length (digits src)) res"
  have "encode_loop ucast src 0 0 0 res = Some (length (digits src), digits src @ ?rest)"
    using encode_loop_digits[of "[]" 0 src res 0] assms b by simp
  moreover have "pad_loop (length (digits src)) (digits src @ ?rest)
      = Some (length (b64 src), b64 src @ drop (length (b64 src)) res)"
    using pad_loop_eq[OF refl k k3, of ?rest] assms by (simp add: b add.commute)
  moreover have "wr (b64 src @ drop (length (b64 src)) res) (length (b64 src)) 0
      = Some (b64 src @ 0 # drop (Suc (length (b64 src))) res)"
    using assms by (auto simp: list_update_append Cons_nth_drop_Suc[symmetric])
  ultimately show ?thesis by (simp add: encode_into_def)
qed

subsection \<open>Properties\<close>

lemma scast_small:
  assumes "c < 128"
  shows "scast (c :: u8) = (ucast c :: u32)"
proof -
  have "unat c < 128" using assms by (simp add: word_less_nat_alt)
  then have "\<not> bit (unat c) 7" by (simp add: bit_iff_odd)
  then have no7: "\<not> bit c 7" by (simp add: bit_unsigned_iff)
  have no: "\<not> bit c n" if "7 \<le> n" for n
    using that no7 bit_imp_le_length[of c n] by (cases "n = 7") auto
  show ?thesis
    using no7 no by (intro bit_word_eqI) (auto simp: bit_simps min_def)
qed

lemma encode_loop_cong:
  "\<forall>c \<in> set src. ext c = ext' c \<Longrightarrow> encode_loop ext src bits shift d res = encode_loop ext' src bits shift d res"
  by (induction src arbitrary: bits shift d res) (auto simp: Let_def split: option.split intro!: Option.bind_cong)

lemma encode_into_small:
  "list_all (\<lambda>c. c < 128) src \<Longrightarrow> encode_into scast src res = encode_into ucast src res"
  using encode_loop_cong[of src scast ucast] scast_small by (simp add: encode_into_def list_all_iff)

lemma groups: "4 * (n div 3 + (if n > n div 3 * 3 then 1 else 0)) = 4 * ((n + 2) div (3 :: nat))"
proof -
  obtain q r where n: "n = 3 * q + r" "r < 3" by (metis mod_less_divisor mult_div_mod_eq zero_less_numeral)
  have "n div 3 = q" using n by (intro div_nat_eqI) simp_all
  moreover have "(n + 2) div 3 = (if r = 0 then q else Suc q)" using n by (intro div_nat_eqI) auto
  ultimately show ?thesis using n by simp
qed

lemma malloc_map: "malloc x m = (map_option (\<lambda>_. x) (fst (malloc () m)), snd (malloc () m))"
  by (cases "(x, m)" rule: malloc.cases) auto

text \<open>C34: Both encoders of the server agree with the reference encoding. The one of
  \<open>rtsp_method.c\<close> does so for every source: its check of the buffer leaves room for the text and its
  terminator, and it returns NULL otherwise. The one of \<open>util.c\<close> does so for seven-bit sources.\<close>

theorem rtsp_encoders_reference:
  assumes "length src < 2 ^ 29" "buf_len \<le> int (length buf)"
  shows "rtsp_encodeBase64 buf buf_len src =
      Some (if buf_len < 4 * int (length src) div 3 + 12 then None
            else Some (b64 src @ 0 # drop (length (b64 src) + 1) buf)) \<and>
    (list_all (\<lambda>c. c < 128) src \<longrightarrow>
      encode_base64 src m = Some (map_option (\<lambda>_. b64 src @ [0]) (fst (malloc () m)), snd (malloc () m)))"
proof
  have len: "\<not> 2 ^ 30 - 1 \<le> length src" using assms(1) by simp
  have int: "c_int (int (length src) * 4) = Some (4 * int (length src))"
    using assms(1) by (subst c_int_in) (simp_all add: INT_MAX_def)
  have "length (b64 src) < length buf" if "\<not> buf_len < 4 * int (length src) div 3 + 12"
    using that assms(2) unfolding length_b64 by linarith
  then show "rtsp_encodeBase64 buf buf_len src = Some (if buf_len < 4 * int (length src) div 3 + 12 then None
      else Some (b64 src @ 0 # drop (length (b64 src) + 1) buf))"
    using len int encode_into_b64[of src buf] by (simp add: rtsp_encodeBase64_def)
next
  have len: "\<not> 2 ^ 30 - 1 \<le> length src" using assms(1) by simp
  let ?sz = "4 * (length src div 3 + (if length src > length src div 3 * 3 then 1 else 0))"
  have sz: "?sz = length (b64 src)" unfolding length_b64 by (rule groups)
  have enc: "encode_into scast src (replicate (?sz + 1) 0) = Some (b64 src @ [0])" if "list_all (\<lambda>c. c < 128) src"
    using encode_into_b64[of src "replicate (?sz + 1) 0"] encode_into_small[OF that] unfolding sz by simp
  show "list_all (\<lambda>c. c < 128) src \<longrightarrow>
      encode_base64 src m = Some (map_option (\<lambda>_. b64 src @ [0]) (fst (malloc () m)), snd (malloc () m))"
  proof
    assume small: "list_all (\<lambda>c. c < 128) src"
    show "encode_base64 src m = Some (map_option (\<lambda>_. b64 src @ [0]) (fst (malloc () m)), snd (malloc () m))"
      using len malloc_map[of "replicate (?sz + 1) (0 :: u8)" m] enc[OF small]
      unfolding encode_base64_def Let_def
      by (cases "fst (malloc () m)") (simp_all del: replicate.simps add: replicate_Suc[symmetric] split: if_splits)
  qed
qed

lemma rtsp_encoders_reference_witness:
  "rtsp_encodeBase64 (replicate 20 9) 20 [0x4D, 0xC3, 0xA9] = Some (Some (b64 [0x4D, 0xC3, 0xA9] @ 0 # replicate 15 9)) \<and>
   encode_base64 [0x4D, 0x61] [True] = Some (Some (b64 [0x4D, 0x61] @ [0]), [])"
proof -
  have "rtsp_encodeBase64 (replicate 20 9) 20 [0x4D, 0xC3, 0xA9] = Some (Some (b64 [0x4D, 0xC3, 0xA9] @ 0 # replicate 15 9))"
    using rtsp_encoders_reference[of "[0x4D, 0xC3, 0xA9]" 20 "replicate 20 9" "[]"] by simp
  moreover have "encode_base64 [0x4D, 0x61] [True] = Some (Some (b64 [0x4D, 0x61] @ [0]), [])"
    using rtsp_encoders_reference[of "[0x4D, 0x61]" 0 "[]" "[True]"] by simp
  ultimately show ?thesis by blast
qed

text \<open>The encoder of \<open>util.c\<close> extends the sign of its source bytes: the parameter sets of a stream, whose
  bytes are not seven-bit, get wrong digits (\<open>QYA=\<close> instead of \<open>QoA=\<close>).\<close>

lemma signed_digit: "encode_into scast [0x42, 0x80] [0, 0, 0, 0, 0] = Some [81, 89, 65, 61, 0]"
  "b64 [0x42, 0x80] = [81, 111, 65, 61]"
   by (simp_all add: encode_into_def emit_digits.simps pad_loop.simps b64_alphabet BASE64_TABLE_def quad_eq Let_def)

end
