(* ===== verification/Rtp.thy ===== *)
theory Rtp
  imports Rtsp_Util
begin

text \<open>
  RTP packets (\<open>rtp.c\<close>) and the send buffers of a session (\<open>rtsp_sess.c\<close>). The union of payloads is
  a datatype: reading another member than the one that was stored has no defined result. A payload
  pointer is a frame buffer and an index into it. The stores into a packet are bounded by the
  \<open>MAX_RTP_PKT_SZ\<close> bytes that were allocated for it.
\<close>

subsection \<open>Send buffers\<close>

definition create_send_buf :: "data_type \<Rightarrow> u32 \<Rightarrow> mem \<Rightarrow> send_buf option \<times> mem" where
  "create_send_buf type sz m = (case malloc () m of
     (None, m) \<Rightarrow> (None, m)
   | (Some _, m) \<Rightarrow> (case malloc (replicate (unat sz) 0) m of
       (None, m) \<Rightarrow> (None, m)
     | (Some buf, m) \<Rightarrow> (Some \<lparr>buf_type = type, buf_sz = sz, buf_data = buf\<rparr>, m)))"

definition add_send_buf :: "rtsp_sess \<Rightarrow> send_buf \<Rightarrow> rtsp_sess" where
  "add_send_buf s sendp = s\<lparr>send_queue := send_queue s @ [sendp]\<rparr>"

subsection \<open>Headers\<close>

text \<open>\<open>htons\<close> and \<open>htonl\<close> of a little-endian machine, and the bytes of a word in its memory.\<close>

definition htons :: "u16 \<Rightarrow> u16" where
  "htons w = or (push_bit 8 w) (drop_bit 8 w)"

definition htonl :: "u32 \<Rightarrow> u32" where
  "htonl w = or (or (push_bit 24 w) (push_bit 8 (and w 0xFF00)))
                (or (and (drop_bit 8 w) 0xFF00) (drop_bit 24 w))"

definition bytes16 :: "u16 \<Rightarrow> u8 list" where
  "bytes16 w = [ucast w, ucast (drop_bit 8 w)]"

definition bytes32 :: "u32 \<Rightarrow> u8 list" where
  "bytes32 w = [ucast w, ucast (drop_bit 8 w), ucast (drop_bit 16 w), ucast (drop_bit 24 w)]"

definition hdr_bytes :: "rtp_hdr \<Rightarrow> u8 list" where
  "hdr_bytes h = [or (or (push_bit 6 (hdr_v h)) (push_bit 5 (hdr_p h))) (or (push_bit 4 (hdr_x h)) (hdr_cc h)),
                  or (push_bit 7 (hdr_m h)) (hdr_pt h)] @
                 bytes16 (hdr_seq h) @ bytes32 (hdr_ts h) @ bytes32 (hdr_ssrc h)"

abbreviation (input) RTP_PT_H264 :: u8 where "RTP_PT_H264 \<equiv> 96"
abbreviation (input) RTP_PT_PCMU :: u8 where "RTP_PT_PCMU \<equiv> 0"
abbreviation (input) RTP_PT_PCMA :: u8 where "RTP_PT_PCMA \<equiv> 8"
abbreviation (input) NALU_PT_FU_A :: u8 where "NALU_PT_FU_A \<equiv> 28"
abbreviation (input) NALU_PT_FU_B :: u8 where "NALU_PT_FU_B \<equiv> 29"

definition intlvd_bytes :: "u8 \<Rightarrow> u32 \<Rightarrow> u8 list" where
  "intlvd_bytes chn sz = [0x24, chn] @ bytes16 (htons (ucast sz))"

definition update_seq :: "rtp_hdr \<Rightarrow> rtp_hdr" where
  "update_seq h = h\<lparr>hdr_seq := htons (htons (hdr_seq h) + 1)\<rparr>"

definition update_ts :: "media_type \<Rightarrow> rtp_hdr \<Rightarrow> rtp_hdr" where
  "update_ts media h = (case media of
     MEDIA_TYPE_VIDEO \<Rightarrow> h\<lparr>hdr_ts := htonl (htonl (hdr_ts h) + 90000 div 25)\<rparr>
   | MEDIA_TYPE_AUDIO \<Rightarrow> h)"

text \<open>The three arguments are the results of the calls of \<open>random\<close>.\<close>

definition init_rtp_hdr :: "u16 \<Rightarrow> u32 \<Rightarrow> u32 \<Rightarrow> media_type \<Rightarrow> rtp_hdr" where
  "init_rtp_hdr r_seq r_ts r_ssrc media =
    \<lparr>hdr_v = 2, hdr_p = 0, hdr_x = 0, hdr_cc = 0, hdr_m = 0,
     hdr_pt = (if media = MEDIA_TYPE_VIDEO then RTP_PT_H264 else RTP_PT_PCMU),
     hdr_seq = r_seq, hdr_ts = r_ts, hdr_ssrc = r_ssrc\<rparr>"

subsection \<open>Packets\<close>

datatype rtp_pl =
    Single u8 "u8 list" nat u32
  | Fu_a u8 u8 "u8 list" nat u32
  | Fu_b u8 u8 u16 "u8 list" nat u32
  | Audio "u8 list" nat u8

fun first_byte :: "rtp_pl \<Rightarrow> u8 option" where
  "first_byte (Single hdr _ _ _) = Some hdr"
| "first_byte (Fu_a idr _ _ _ _) = Some idr"
| "first_byte (Fu_b idr _ _ _ _ _) = Some idr"
| "first_byte (Audio _ _ _) = None"

text \<open>\<open>*ptr++ = b\<close> for the bytes of \<open>hs\<close>, then \<open>memcpy(ptr, pl, sz)\<close>.\<close>

definition store_payload :: "u8 list \<Rightarrow> nat \<Rightarrow> u8 list \<Rightarrow> u8 list \<Rightarrow> nat \<Rightarrow> nat \<Rightarrow> u8 list option" where
  "store_payload pkt ptr hs buf off sz = do {
     pkt \<leftarrow> memcpy pkt ptr hs;
     pl \<leftarrow> slice buf off sz;
     memcpy pkt (ptr + length hs) pl }"

text \<open>The \<open>switch\<close> over the payload type: the packet and its size, or \<open>None\<close> for an unsupported
  type.\<close>

definition put_payload :: "u8 list \<Rightarrow> nat \<Rightarrow> u8 \<Rightarrow> rtp_pl \<Rightarrow> (u8 list \<times> u32) option option" where
  "put_payload pkt ptr pt pl =
    (if pt = RTP_PT_H264 then do {
       b \<leftarrow> first_byte pl;
       let nalu_pt = and b 0x1F;
       if 1 \<le> nalu_pt \<and> nalu_pt \<le> 23 then
         (case pl of
           Single hdr buf off sz \<Rightarrow> do {
             pkt \<leftarrow> store_payload pkt ptr [hdr] buf off (unat sz);
             Some (Some (pkt, sz + 1)) }
         | _ \<Rightarrow> None)
       else if nalu_pt = NALU_PT_FU_A then
         (case pl of
           Fu_a idr hdr buf off sz \<Rightarrow> do {
             pkt \<leftarrow> store_payload pkt ptr [idr, hdr] buf off (unat sz);
             Some (Some (pkt, sz + 2)) }
         | _ \<Rightarrow> None)
       else if nalu_pt = NALU_PT_FU_B then
         (case pl of
           Fu_b idr hdr don buf off sz \<Rightarrow> do {
             pkt \<leftarrow> store_payload pkt ptr [idr, hdr, ucast (drop_bit 8 don), ucast don] buf off (unat sz);
             Some (Some (pkt, sz + 2)) }
         | _ \<Rightarrow> None)
       else Some None }
     else if pt = RTP_PT_PCMA \<or> pt = RTP_PT_PCMU then
       (case pl of
         Audio buf off sz \<Rightarrow> if sint sz < 0 then None else do {
           pkt \<leftarrow> store_payload pkt ptr [] buf off (unat sz);
           Some (Some (pkt, ucast sz)) }
       | _ \<Rightarrow> None)
     else Some None)"

text \<open>A packet of an unsupported type is not freed; the heap is not part of the state, so the model
  only drops it.\<close>

definition produce_rtp_pkt ::
  "rtsp_sess \<Rightarrow> media_type \<Rightarrow> rtp_hdr \<Rightarrow> rtp_pl \<Rightarrow> mem \<Rightarrow> (int \<times> rtsp_sess \<times> mem) option" where
  "produce_rtp_pkt s media hdr pl m = (let
     chn = tcp_rtp_chn (rtp_of media s);
     data_type = (if media = MEDIA_TYPE_VIDEO then DATA_TYPE_RTP_V_PKT else DATA_TYPE_RTP_A_PKT)
   in case create_send_buf data_type 1440 m of
     (None, m) \<Rightarrow> Some (- 1, s, m)
   | (Some sendp, m) \<Rightarrow> do {
       let ptr = (if intlvd_mode s then 4 else 0);
       pkt \<leftarrow> memcpy (buf_data sendp) ptr (hdr_bytes hdr);
       done \<leftarrow> put_payload pkt (ptr + 12) (hdr_pt hdr) pl;
       case done of
         None \<Rightarrow> Some (- 1, s, m)
       | Some (pkt, send_sz) \<Rightarrow> do {
           let send_sz = send_sz + 12;
           (pkt, send_sz) \<leftarrow> (if intlvd_mode s then do {
               pkt \<leftarrow> memcpy pkt 0 (intlvd_bytes chn send_sz);
               Some (pkt, send_sz + 4) }
             else Some (pkt, send_sz));
           Some (0, add_send_buf s (sendp\<lparr>buf_data := pkt, buf_sz := send_sz\<rparr>), m) } })"

subsection \<open>NAL units\<close>

definition upd_hdr :: "(rtp_hdr \<Rightarrow> rtp_hdr) \<Rightarrow> rtsp_sess \<Rightarrow> rtsp_sess" where
  "upd_hdr f s = s\<lparr>rtp_video := (rtp_video s)\<lparr>rtp_hdr := f (rtp_hdr (rtp_video s))\<rparr>\<rparr>"

abbreviation video_hdr :: "rtsp_sess \<Rightarrow> rtp_hdr" where
  "video_hdr s \<equiv> rtp_hdr (rtp_video s)"

definition fu_step :: "u8 list \<Rightarrow> nat \<Rightarrow> u8 \<Rightarrow> nat \<Rightarrow> nat \<Rightarrow> (rtsp_sess \<times> mem \<times> nat \<times> u32)
    \<Rightarrow> (rtsp_sess \<times> mem \<times> nat \<times> u32) option" where
  "fu_step buf nalu lst num i = (\<lambda>(s, m, ptr, left). do {
     let end = (i = num - 1);
     let s = upd_hdr (hdr_m_update (\<lambda>_. if end then lst else 0)) s;
     n \<leftarrow> rd buf nalu;
     let idr = or (or (and n 0xF0) (and n 0x60)) NALU_PT_FU_A;
     let hdr = or (or (if i \<noteq> 0 then 0 else 0x80) (if end then 0x40 else 0)) (and n 0x1F);
     let pl_sz = (if end then left else 1422);
     (_, s, m) \<leftarrow> produce_rtp_pkt s MEDIA_TYPE_VIDEO (video_hdr s) (Fu_a idr hdr buf ptr pl_sz) m;
     let s = upd_hdr update_seq s;
     Some (s, m, ptr + unat pl_sz, left - pl_sz) })"

definition send_h264_nalu :: "rtsp_sess \<Rightarrow> u8 list \<Rightarrow> nat \<Rightarrow> u32 \<Rightarrow> u8 \<Rightarrow> mem \<Rightarrow> (rtsp_sess \<times> mem) option" where
  "send_h264_nalu s buf nalu sz lst m = do {
     (s, m) \<leftarrow> (if sz \<le> 1424 then do {
         let s = upd_hdr (hdr_m_update (\<lambda>_. lst)) s;
         n \<leftarrow> rd buf nalu;
         (_, s, m) \<leftarrow> produce_rtp_pkt s MEDIA_TYPE_VIDEO (video_hdr s) (Single n buf (nalu + 1) (sz - 1)) m;
         Some (upd_hdr update_seq s, m) }
       else do {
         let left = sz - 1;
         let num = left div 1422 + (if left mod 1422 \<noteq> 0 then 1 else 0);
         let s = upd_hdr (hdr_m_update (\<lambda>_. 0)) s;
         (s, m, _, _) \<leftarrow> for_up 0 (unat num) (fu_step buf nalu lst (unat num)) (s, m, nalu + 1, left);
         Some (s, m) });
     Some (if lst \<noteq> 0 then upd_hdr (update_ts MEDIA_TYPE_VIDEO) s else s, m) }"

subsection \<open>Frames\<close>

lemma skip_nalu_start_code_less:
  "skip_nalu_start_code buf ptr end = Some (Some q) \<Longrightarrow> ptr + 3 < end \<and> ptr < q"
proof (induction buf ptr "end" rule: skip_nalu_start_code.induct)
  case (1 buf ptr "end")
  note step = 1(2)[unfolded skip_nalu_start_code.simps[of buf ptr "end"]]
  show ?case
  proof (cases "ptr + 3 < end")
    case True
    then obtain four where four: "bytes_at buf ptr [0, 0, 0, 1] = Some four"
      using step by (cases "bytes_at buf ptr [0, 0, 0, 1]") (simp_all del: bytes_at.simps)
    then obtain three where three: "four \<or> bytes_at buf ptr [0, 0, 1] = Some three"
      using step True by (cases "bytes_at buf ptr [0, 0, 1]") (simp_all del: bytes_at.simps split: if_splits)
    show ?thesis
    proof (cases "four \<or> three")
      case False
      then have "\<not> four" "\<not> three" by simp_all
      then have "skip_nalu_start_code buf (Suc ptr) end = Some (Some q)"
        using step True four three by (simp del: bytes_at.simps)
      then have "Suc ptr < q"
        using 1(1)[OF True four \<open>\<not> four\<close> _ \<open>\<not> three\<close>] three \<open>\<not> four\<close> by blast
      then show ?thesis using True by simp
    qed (use step True four three in \<open>auto simp del: bytes_at.simps split: if_splits\<close>)
  qed (use step in simp)
qed

function send_video_frm :: "rtsp_sess \<Rightarrow> u8 list \<Rightarrow> nat \<Rightarrow> nat \<Rightarrow> mem \<Rightarrow> (rtsp_sess \<times> mem) option" where
  "send_video_frm s fb ptr end m = (if ptr \<noteq> end then
     (case skip_nalu_start_code fb ptr end of
       None \<Rightarrow> None
     | Some None \<Rightarrow> Some (s, m)
     | Some (Some ptr) \<Rightarrow> do {
         nalu_sz \<leftarrow> get_nalu_sz fb ptr end;
         let nalu_sz = (of_nat nalu_sz :: u32);
         let lst = (if ptr + unat nalu_sz = end then 1 else 0);
         (s, m) \<leftarrow> send_h264_nalu s fb ptr nalu_sz lst m;
         send_video_frm s fb (ptr + unat nalu_sz) end m })
   else Some (s, m))"
  by pat_completeness auto
termination
  by (relation "measure (\<lambda>(s, fb, ptr, end, m). end - ptr)") (auto dest!: skip_nalu_start_code_less)

declare send_video_frm.simps [simp del]

definition send_audio_frm :: "rtsp_sess \<Rightarrow> u8 list \<Rightarrow> u32 \<Rightarrow> rtsp_sess" where
  "send_audio_frm s fb sz = s"

text \<open>\<open>got\<close> is what the application's \<open>get_frm\<close> returns and leaves in the frame structure.\<close>

definition prefetch_frm :: "rtsp_sess \<Rightarrow> int \<times> frm_info \<Rightarrow> mem \<Rightarrow> (int \<times> rtsp_sess \<times> mem) option" where
  "prefetch_frm s got m =
    (if rtsp_state s \<noteq> RTSP_STATE_PLAYING \<or> handling_state s \<noteq> HANDLING_STATE_INIT then Some (- 1, s, m)
     else let s = s\<lparr>frm_info := snd got\<rparr>; f = snd got in
       if fst got < 0 then Some (5 * 1000, s, m)
       else (case frm_type f of
         FRM_TYPE_A \<Rightarrow> Some (10 * 1000, send_audio_frm s (frm_buf f) (frm_sz f), m)
       | FRM_TYPE_NONE \<Rightarrow> Some (- 1, s, m)
       | _ \<Rightarrow> do {
           (s, m) \<leftarrow> send_video_frm s (frm_buf f) 0 (unat (frm_sz f)) m;
           Some (10 * 1000, s, m) }))"

end
