(* ===== verification/Rtp_Correct.thy ===== *)
theory Rtp_Correct
  imports Rtp
begin

text \<open>
  The packetiser against a receiver written after RFC 3550 (\<open>rtp_parse\<close>), RFC 2326
  (\<open>unwrap\<close>, the interleaved prefix) and RFC 6184 (\<open>depack\<close>). One packet is \<open>rtp_pkt\<close>, a unit
  becomes \<open>bodies\<close>, and \<open>sent\<close> is the session once these are queued; \<open>send_video_frm_units\<close> runs the
  scanner over a frame of units behind start codes.
\<close>

subsection \<open>Byte order\<close>

lemma htons_htons [simp]: "htons (htons w) = w"
  unfolding htons_def by (rule bit_word_eqI) (fastforce simp: bit_simps dest: bit_imp_le_length)

text \<open>The receiver's reading of the bytes of a packet, big end first.\<close>

definition be16 :: "u8 \<Rightarrow> u8 \<Rightarrow> u16" where
  "be16 a b = or (push_bit 8 (ucast a)) (ucast b)"

definition be32 :: "u8 \<Rightarrow> u8 \<Rightarrow> u8 \<Rightarrow> u8 \<Rightarrow> u32" where
  "be32 a b c d = or (or (push_bit 24 (ucast a)) (push_bit 16 (ucast b))) (or (push_bit 8 (ucast c)) (ucast d))"

lemma be16_bytes: "be16 (ucast w) (ucast (drop_bit 8 w)) = htons w"
  unfolding htons_def be16_def by (rule bit_word_eqI) (fastforce simp: bit_simps dest: bit_imp_le_length)

lemma be16_htons: "be16 (ucast (htons w)) (ucast (drop_bit 8 (htons w))) = w"
  by (simp add: be16_bytes)

lemma upt_32: "[0..<32] = [0, 1, 2, 3, 4, 5, 6, 7, 8, 9, 10, 11, 12, 13, 14, 15, 16, 17, 18, 19, 20, 21, 22, 23, 24, 25, 26, 27, 28, 29, 30, 31]"
  by code_simp

lemma word32_eqI:
  assumes "list_all (\<lambda>n. bit v n = bit (w :: u32) n) [0..<32]"
  shows "v = w"
  using assms by (intro bit_word_eqI) (simp add: list_all_iff)

lemma bit_past_32 [simp]: "32 \<le> n \<Longrightarrow> \<not> bit (w :: u32) n"
  by (auto dest: bit_imp_le_length)

lemma htonl_htonl [simp]: "htonl (htonl w) = w"
  by (rule word32_eqI) (simp add: htonl_def bit_simps upt_32)

lemma be32_bytes: "be32 (ucast w) (ucast (drop_bit 8 w)) (ucast (drop_bit 16 w)) (ucast (drop_bit 24 w)) = htonl w"
  by (rule word32_eqI) (simp add: htonl_def be32_def bit_simps upt_32)

subsection \<open>The receiver\<close>

text \<open>What a receiver reads in a packet (RFC 3550): marker, payload type, sequence number, time stamp,
  source and payload; the interleaved prefix of RFC 2326 is checked against the length.\<close>

record rtp_view =
  v_version :: u8
  v_m :: bool
  v_pt :: u8
  v_seq :: u16
  v_ts :: u32
  v_ssrc :: u32
  v_body :: "u8 list"

fun rtp_parse :: "u8 list \<Rightarrow> rtp_view option" where
  "rtp_parse (b0 # b1 # s0 # s1 # t0 # t1 # t2 # t3 # r0 # r1 # r2 # r3 # body) =
    Some \<lparr>v_version = drop_bit 6 b0, v_m = bit b1 7, v_pt = take_bit 7 b1, v_seq = be16 s0 s1,
          v_ts = be32 t0 t1 t2 t3, v_ssrc = be32 r0 r1 r2 r3, v_body = body\<rparr>"
| "rtp_parse _ = None"

fun unwrap :: "u8 \<Rightarrow> u8 list \<Rightarrow> u8 list option" where
  "unwrap chn (d # c # l0 # l1 # p) =
    (if d = 0x24 \<and> c = chn \<and> unat (be16 l0 l1) = length p then Some p else None)"
| "unwrap _ _ = None"

text \<open>The bytes that go out for a send buffer, and the view of the receiver.\<close>

definition wire :: "send_buf \<Rightarrow> u8 list" where
  "wire p = take (unat (buf_sz p)) (buf_data p)"

definition view :: "rtsp_sess \<Rightarrow> send_buf \<Rightarrow> rtp_view option" where
  "view s p = (if intlvd_mode s then unwrap (tcp_rtp_chn (rtp_video s)) (wire p) \<bind> rtp_parse
               else rtp_parse (wire p))"

text \<open>Depacketisation (RFC 6184): payloads of single NAL units and of fragments of type FU-A; a
  receiver fails on anything else and on an incomplete unit.\<close>

fun depack :: "u8 list option \<Rightarrow> u8 list list \<Rightarrow> u8 list list option" where
  "depack None [] = Some []"
| "depack (Some _) [] = None"
| "depack acc ([] # bs) = None"
| "depack acc ((x # r) # bs) = (let t = and x 0x1F in
     if 1 \<le> t \<and> t \<le> 23 then (if acc = None then map_option ((#) (x # r)) (depack None bs) else None)
     else if t = 28 then (case r of
         [] \<Rightarrow> None
       | h # pl \<Rightarrow>
           if bit h 7 \<and> bit h 6 then None
           else if bit h 7 then
             (if acc = None then depack (Some (or (and x 0xE0) (and h 0x1F) # pl)) bs else None)
           else (case acc of
               None \<Rightarrow> None
             | Some a \<Rightarrow> if bit h 6 then map_option ((#) (a @ pl)) (depack None bs)
                         else depack (Some (a @ pl)) bs))
     else None)"

subsection \<open>One packet\<close>

lemma memcpy_append:
  "\<lbrakk>length a = n; length xs \<le> k\<rbrakk>
   \<Longrightarrow> memcpy (a @ replicate k (0 :: u8)) n xs = Some (a @ xs @ replicate (k - length xs) 0)"
  by (simp add: memcpy_def overlay_def)

lemma memcpy_front: "length xs = length a \<Longrightarrow> memcpy (a @ r) 0 xs = Some (xs @ r)"
  by (simp add: memcpy_def overlay_def)

lemma length_hdr_bytes [simp]: "length (hdr_bytes h) = 12"
  by (simp add: hdr_bytes_def bytes16_def bytes32_def)

lemma length_intlvd_bytes [simp]: "length (intlvd_bytes c n) = 4"
  by (simp add: intlvd_bytes_def bytes16_def)

text \<open>The send buffer that carries a payload.\<close>

definition prefix_len :: "rtsp_sess \<Rightarrow> nat" where
  "prefix_len s = (if intlvd_mode s then 4 else 0)"

definition pkt_bytes :: "rtsp_sess \<Rightarrow> rtp_hdr \<Rightarrow> u8 list \<Rightarrow> u8 list" where
  "pkt_bytes s h body =
    (if intlvd_mode s then intlvd_bytes (tcp_rtp_chn (rtp_video s)) (of_nat (12 + length body)) else []) @
    hdr_bytes h @ body"

definition rtp_pkt :: "rtsp_sess \<Rightarrow> rtp_hdr \<Rightarrow> u8 list \<Rightarrow> send_buf" where
  "rtp_pkt s h body = \<lparr>buf_type = DATA_TYPE_RTP_V_PKT, buf_sz = of_nat (length (pkt_bytes s h body)),
     buf_data = pkt_bytes s h body @ replicate (1440 - length (pkt_bytes s h body)) 0\<rparr>"

lemma length_pkt_bytes: "length (pkt_bytes s h body) = prefix_len s + 12 + length body"
  by (simp add: pkt_bytes_def prefix_len_def)

lemma prefix_len_le: "prefix_len s \<le> 4"
  by (simp add: prefix_len_def)

lemma unat_small: "n < 4294967296 \<Longrightarrow> unat (of_nat n :: u32) = n"
  by (simp add: unsigned_of_nat take_bit_nat_eq_self)

lemma rtp_pkt_sz: "length body \<le> 1424 \<Longrightarrow> unat (buf_sz (rtp_pkt s h body)) = prefix_len s + 12 + length body"
  using prefix_len_le[of s] unat_small[of "length (pkt_bytes s h body)"]
  by (simp add: rtp_pkt_def length_pkt_bytes)

lemma wire_rtp_pkt: "length body \<le> 1424 \<Longrightarrow> wire (rtp_pkt s h body) = pkt_bytes s h body"
  using rtp_pkt_sz[of body s h] by (simp add: wire_def) (simp add: rtp_pkt_def length_pkt_bytes)

definition payload :: "rtp_pl \<Rightarrow> u8 list" where
  "payload pl = (case pl of
     Single hdr buf off sz \<Rightarrow> hdr # take (unat sz) (drop off buf)
   | Fu_a idr hdr buf off sz \<Rightarrow> idr # hdr # take (unat sz) (drop off buf)
   | Fu_b idr hdr don buf off sz \<Rightarrow> [idr, hdr, ucast (drop_bit 8 don), ucast don] @ take (unat sz) (drop off buf)
   | Audio buf off sz \<Rightarrow> take (unat sz) (drop off buf))"

text \<open>The payloads that the sender makes: a NAL unit of a single-unit type or a fragment.\<close>

fun sendable :: "rtp_pl \<Rightarrow> bool" where
  "sendable (Single hdr buf off sz) \<longleftrightarrow> 1 \<le> and hdr 0x1F \<and> and hdr 0x1F \<le> 23 \<and>
     off + unat sz \<le> length buf \<and> unat sz < 1424"
| "sendable (Fu_a idr hdr buf off sz) \<longleftrightarrow> and idr 0x1F = 28 \<and> off + unat sz \<le> length buf \<and> unat sz < 1423"
| "sendable _ \<longleftrightarrow> False"

lemma length_payload: "sendable pl \<Longrightarrow> length (payload pl) \<le> 1424"
  by (cases pl) (auto simp: payload_def)

lemma store_payload_append:
  assumes "length a = n" "off + sz \<le> length buf" "length hs + sz \<le> k"
  shows "store_payload (a @ replicate k 0) n hs buf off sz
    = Some (a @ hs @ take sz (drop off buf) @ replicate (k - length hs - sz) 0)"
  using assms memcpy_append[of "a @ hs" "n + length hs" "take sz (drop off buf)" "k - length hs"]
  by (simp add: store_payload_def memcpy_append del: memcpy_in)

lemma length_slice: "off + sz \<le> length buf \<Longrightarrow> length (take sz (drop off buf)) = sz"
  by simp

lemma put_payload_sendable:
  assumes "sendable pl" "length a = n" "1424 \<le> k"
  shows "put_payload (a @ replicate k 0) n RTP_PT_H264 pl
    = Some (Some (a @ payload pl @ replicate (k - length (payload pl)) 0, of_nat (length (payload pl))))"
proof (cases pl)
  case (Single hdr buf off sz)
  moreover have "of_nat (Suc (unat sz)) = sz + 1" by (simp add: add.commute)
  ultimately show ?thesis
    using assms by (simp add: put_payload_def payload_def store_payload_append length_slice
      del: of_nat_Suc length_take)
next
  case (Fu_a idr hdr buf off sz)
  moreover have "of_nat (Suc (Suc (unat sz))) = sz + 2" by (simp add: add.commute)
  ultimately show ?thesis
    using assms by (simp add: put_payload_def payload_def store_payload_append length_slice
      del: of_nat_Suc length_take)
qed (use assms in simp_all)

lemma create_send_buf_ok:
  assumes "mem_ok m"
  shows "create_send_buf t 1440 m = (Some \<lparr>buf_type = t, buf_sz = 1440, buf_data = replicate 1440 0\<rparr>, tl (tl m))"
proof -
  have "unat (1440 :: u32) = 1440" by simp
  then show ?thesis using assms by (simp only: create_send_buf_def malloc_ok mem_ok_tl prod.case option.case)
qed

lemma produce_rtp_pkt_eq:
  assumes "sendable pl" "hdr_pt h = RTP_PT_H264" "mem_ok m"
  shows "produce_rtp_pkt s MEDIA_TYPE_VIDEO h pl m = Some (0, add_send_buf s (rtp_pkt s h (payload pl)), tl (tl m))"
proof (cases "intlvd_mode s")
  case True
  have hdr: "memcpy (replicate 1440 0) 4 (hdr_bytes h) = Some (replicate 4 0 @ hdr_bytes h @ replicate 1424 0)"
    using memcpy_append[of "replicate 4 0" 4 "hdr_bytes h" 1436] by (simp add: replicate_add[symmetric] del: memcpy_in)
  have pl: "put_payload (replicate 4 0 @ hdr_bytes h @ replicate 1424 0) 16 RTP_PT_H264 pl
      = Some (Some (replicate 4 0 @ hdr_bytes h @ payload pl @ replicate (1424 - length (payload pl)) 0, of_nat (length (payload pl))))"
    using put_payload_sendable[of pl "replicate 4 0 @ hdr_bytes h" 16 1424] assms(1) by simp
  show ?thesis
    using assms True length_payload[OF assms(1)]
    by (simp add: produce_rtp_pkt_def create_send_buf_ok hdr pl memcpy_front rtp_pkt_def pkt_bytes_def add.commute
        del: memcpy_in)
next
  case False
  have hdr: "memcpy (replicate 1440 0) 0 (hdr_bytes h) = Some (hdr_bytes h @ replicate 1428 0)"
    using memcpy_append[of "[]" 0 "hdr_bytes h" 1440] by (simp del: memcpy_in)
  have pl: "put_payload (hdr_bytes h @ replicate 1428 0) 12 RTP_PT_H264 pl
      = Some (Some (hdr_bytes h @ payload pl @ replicate (1428 - length (payload pl)) 0, of_nat (length (payload pl))))"
    using put_payload_sendable[of pl "hdr_bytes h" 12 1428] assms(1) by simp
  show ?thesis
    using assms False length_payload[OF assms(1)]
    by (simp add: produce_rtp_pkt_def create_send_buf_ok hdr pl rtp_pkt_def pkt_bytes_def add.commute
        del: memcpy_in)
qed

definition hdr_ok :: "rtp_hdr \<Rightarrow> bool" where
  "hdr_ok h \<longleftrightarrow> hdr_v h = 2 \<and> hdr_p h = 0 \<and> hdr_x h = 0 \<and> hdr_cc h = 0 \<and> hdr_pt h = RTP_PT_H264"

lemma hdr_ok_update [simp]:
  "hdr_ok (update_seq h) = hdr_ok h" "hdr_ok (update_ts media h) = hdr_ok h" "hdr_ok (h\<lparr>hdr_m := x\<rparr>) = hdr_ok h"
  by (simp_all add: hdr_ok_def update_seq_def update_ts_def split: media_type.split)

text \<open>The view of a packet that is sent with a given header.\<close>

definition view_of :: "rtp_hdr \<Rightarrow> u8 list \<Rightarrow> rtp_view" where
  "view_of h body = \<lparr>v_version = 2, v_m = (hdr_m h = 1), v_pt = RTP_PT_H264, v_seq = htons (hdr_seq h),
     v_ts = htonl (hdr_ts h), v_ssrc = htonl (hdr_ssrc h), v_body = body\<rparr>"

lemma rtp_parse_hdr:
  assumes "hdr_ok h" "hdr_m h = 0 \<or> hdr_m h = 1"
  shows "rtp_parse (hdr_bytes h @ body) = Some (view_of h body)"
proof -
  have "bit (or (push_bit 7 (hdr_m h)) 96) 7 = (hdr_m h = 1)" "take_bit 7 (or (push_bit 7 (hdr_m h)) 96 :: u8) = 96"
    using assms(2) by auto
  then show ?thesis
    using assms(1) by (simp add: hdr_bytes_def bytes16_def bytes32_def hdr_ok_def view_of_def be16_bytes be32_bytes)
qed

lemma view_rtp_pkt:
  assumes "hdr_ok h" "hdr_m h = 0 \<or> hdr_m h = 1" "length body \<le> 1424"
  shows "view s (rtp_pkt s h body) = Some (view_of h body)"
proof -
  have u16: "unat (ucast (of_nat (12 + length body) :: u32) :: u16) = 12 + length body"
    using assms(3) by (simp add: unsigned_ucast_eq unsigned_of_nat take_bit_nat_eq_self del: of_nat_add)
  show ?thesis
    using assms rtp_parse_hdr[OF assms(1,2)] u16
    by (auto simp: view_def wire_rtp_pkt pkt_bytes_def intlvd_bytes_def bytes16_def be16_htons simp del: of_nat_add)
qed

subsection \<open>The packets of a NAL unit\<close>

text \<open>The payloads: the unit itself, or its fragments of 1422 bytes behind the FU indicator and header.\<close>

definition fu_idr :: "u8 \<Rightarrow> u8" where
  "fu_idr n = or (or (and n 0xF0) (and n 0x60)) NALU_PT_FU_A"

definition fu_hdr :: "bool \<Rightarrow> bool \<Rightarrow> u8 \<Rightarrow> u8" where
  "fu_hdr start end n = or (or (if start then 0x80 else 0) (if end then 0x40 else 0)) (and n 0x1F)"

function fu_bodies :: "u8 \<Rightarrow> bool \<Rightarrow> u8 list \<Rightarrow> u8 list list" where
  "fu_bodies n start rest =
    (if length rest \<le> 1422 then [fu_idr n # fu_hdr start True n # rest]
     else (fu_idr n # fu_hdr start False n # take 1422 rest) # fu_bodies n False (drop 1422 rest))"
  by pat_completeness auto
termination by (relation "measure (\<lambda>(n, start, rest). length rest)") auto

declare fu_bodies.simps [simp del]

definition bodies :: "u8 list \<Rightarrow> u8 list list" where
  "bodies n = (if length n \<le> 1424 then [n] else fu_bodies (hd n) True (tl n))"

fun packets :: "rtsp_sess \<Rightarrow> u8 \<Rightarrow> rtp_hdr \<Rightarrow> u8 list list \<Rightarrow> send_buf list" where
  "packets s lst h [] = []"
| "packets s lst h (b # bs) =
    rtp_pkt s (h\<lparr>hdr_m := if bs = [] then lst else 0\<rparr>) b # packets s lst (update_seq h) bs"

text \<open>The session after the packets of a unit have been queued.\<close>

definition sent :: "u8 \<Rightarrow> u8 list list \<Rightarrow> rtsp_sess \<Rightarrow> rtsp_sess" where
  "sent lst bs s = s\<lparr>send_queue := send_queue s @ packets s lst (video_hdr s) bs,
     rtp_video := (rtp_video s)\<lparr>rtp_hdr := ((update_seq ^^ length bs) (video_hdr s))\<lparr>hdr_m := lst\<rparr>\<rparr>\<rparr>"

lemma rtp_pkt_cong:
  "intlvd_mode s = intlvd_mode t \<Longrightarrow> rtp_sd (rtp_video s) = rtp_sd (rtp_video t) \<Longrightarrow> rtp_pkt s h b = rtp_pkt t h b"
  by (simp add: rtp_pkt_def pkt_bytes_def tcp_rtp_chn_def)

lemma update_seq_m [simp]: "update_seq (h\<lparr>hdr_m := x\<rparr>) = (update_seq h)\<lparr>hdr_m := x\<rparr>"
  by (simp add: update_seq_def)

lemma update_seqs_m [simp]: "(update_seq ^^ k) (h\<lparr>hdr_m := x\<rparr>) = ((update_seq ^^ k) h)\<lparr>hdr_m := x\<rparr>"
  by (induction k) simp_all

lemma packets_cong:
  assumes "intlvd_mode s = intlvd_mode t" "rtp_sd (rtp_video s) = rtp_sd (rtp_video t)"
  shows "packets s lst (h\<lparr>hdr_m := x\<rparr>) bs = packets t lst h bs"
proof -
  have same: "packets s lst h bs = packets t lst h bs" for h
    by (induction bs arbitrary: h) (simp_all add: rtp_pkt_cong[OF assms])
  have "packets t lst (h\<lparr>hdr_m := x\<rparr>) bs = packets t lst h bs" for h
    by (induction bs arbitrary: h) simp_all
  then show ?thesis by (simp add: same)
qed

lemma sent_single:
  "upd_hdr update_seq (add_send_buf (upd_hdr (hdr_m_update (\<lambda>_. lst)) s)
     (rtp_pkt (upd_hdr (hdr_m_update (\<lambda>_. lst)) s) ((video_hdr s)\<lparr>hdr_m := lst\<rparr>) b)) = sent lst [b] s"
  by (simp add: sent_def upd_hdr_def add_send_buf_def rtp_pkt_def pkt_bytes_def tcp_rtp_chn_def)

lemma sent_Cons:
  assumes "bs \<noteq> []"
  shows "sent lst bs (upd_hdr update_seq (add_send_buf (upd_hdr (hdr_m_update (\<lambda>_. 0)) s)
      (rtp_pkt (upd_hdr (hdr_m_update (\<lambda>_. 0)) s) ((video_hdr s)\<lparr>hdr_m := 0\<rparr>) b))) = sent lst (b # bs) s"
proof -
  let ?s1 = "upd_hdr (hdr_m_update (\<lambda>_. 0)) s"
  let ?p = "rtp_pkt ?s1 ((video_hdr s)\<lparr>hdr_m := 0\<rparr>) b"
  let ?t = "upd_hdr update_seq (add_send_buf ?s1 ?p)"
  have hdr: "video_hdr ?t = (update_seq (video_hdr s))\<lparr>hdr_m := 0\<rparr>" by (simp add: upd_hdr_def add_send_buf_def)
  have "packets ?t lst (video_hdr ?t) bs = packets s lst (update_seq (video_hdr s)) bs"
    unfolding hdr by (rule packets_cong) (simp_all add: upd_hdr_def add_send_buf_def)
  moreover have "?p = rtp_pkt s ((video_hdr s)\<lparr>hdr_m := 0\<rparr>) b"
    by (rule rtp_pkt_cong) (simp_all add: upd_hdr_def)
  moreover have "send_queue ?t = send_queue s @ [?p]" by (simp add: upd_hdr_def add_send_buf_def)
  moreover have "(update_seq ^^ length bs) (video_hdr ?t) = ((update_seq ^^ length (b # bs)) (video_hdr s))\<lparr>hdr_m := 0\<rparr>"
    unfolding hdr by (simp add: funpow_swap1)
  ultimately show ?thesis
    using assms by (simp add: sent_def) (simp add: upd_hdr_def add_send_buf_def)
qed

lemma mem_ok_drop: "mem_ok m \<Longrightarrow> mem_ok (drop k m)"
  by (auto simp: mem_ok_def list_all_iff dest: in_set_dropD)

lemma tl_tl: "tl (tl m) = drop 2 m"
  by (simp add: numeral_2_eq_2 drop_Suc)

lemma word8_eqI:
  assumes "list_all (\<lambda>n. bit v n = bit (w :: u8) n) [0, 1, 2, 3, 4, 5, 6, 7]"
  shows "v = w"
proof (rule bit_word_eqI)
  fix n assume "n < LENGTH(8)"
  then have "n \<in> set [0, 1, 2, 3, 4, 5, 6, 7]" by auto
  then show "bit v n = bit w n" using assms unfolding list_all_iff by blast
qed

lemma fu_idr_type [simp]: "and (fu_idr n) 0x1F = 28"
  by (rule word8_eqI) (simp add: fu_idr_def bit_simps)

text \<open>One round of the loop over the fragments.\<close>

lemma fu_step_eq:
  assumes "nalu < length buf" "ptr + unat sz \<le> length buf" "unat sz < 1423" "mem_ok m"
    "hdr_pt (video_hdr s) = RTP_PT_H264" "sz = (if i = num - 1 then left else 1422)"
    "t = upd_hdr (hdr_m_update (\<lambda>_. if i = num - 1 then lst else 0)) s"
    "b = fu_idr (buf ! nalu) # fu_hdr (i = 0) (i = num - 1) (buf ! nalu) # take (unat sz) (drop ptr buf)"
  shows "fu_step buf nalu lst num i (s, m, ptr, left)
    = Some (upd_hdr update_seq (add_send_buf t (rtp_pkt t (video_hdr t) b)), drop 2 m, ptr + unat sz, left - sz)"
proof -
  let ?pl = "Fu_a (fu_idr (buf ! nalu)) (fu_hdr (i = 0) (i = num - 1) (buf ! nalu)) buf ptr sz"
  have "produce_rtp_pkt t MEDIA_TYPE_VIDEO (video_hdr t) ?pl m
      = Some (0, add_send_buf t (rtp_pkt t (video_hdr t) (payload ?pl)), tl (tl m))"
    using assms(2-5) by (intro produce_rtp_pkt_eq) (simp_all add: assms(7) upd_hdr_def)
  moreover have "payload ?pl = b" by (simp add: payload_def assms(8))
  moreover have fu_hdr: "or (or (if i \<noteq> 0 then 0 else 0x80) (if i = num - 1 then 0x40 else 0)) (and (buf ! nalu) 0x1F)
      = fu_hdr (i = 0) (i = num - 1) (buf ! nalu)"
    by (simp add: fu_hdr_def)
  ultimately show ?thesis
    using assms(1,6)
    by (simp only: fu_step_def Let_def prod.case rd_in Option.bind.bind_lunit assms(7)[symmetric]
        fu_idr_def[symmetric] fu_hdr tl_tl)
qed

lemma fu_loop:
  assumes "nalu < length buf" "mem_ok m" "hdr_pt (video_hdr s) = RTP_PT_H264"
    "0 < unat left" "ptr + unat left \<le> length buf" "i + (unat left + 1421) div 1422 = num"
    "bs = fu_bodies (buf ! nalu) (i = 0) (take (unat left) (drop ptr buf))"
  shows "for_up i num (fu_step buf nalu lst num) (s, m, ptr, left)
    = Some (sent lst bs s, drop (2 * length bs) m, ptr + unat left, 0)"
  using assms
proof (induction "num - i" arbitrary: i s m ptr left bs)
  case 0
  then show ?case by simp
next
  case (Suc k)
  let ?n = "buf ! nalu"
  have "i < num" using Suc.hyps(2) by simp
  show ?case
  proof (cases "i = num - 1")
    case True
    then have "unat left \<le> 1422" using Suc.prems(6) \<open>i < num\<close> by linarith
    let ?b = "fu_idr ?n # fu_hdr (i = 0) True ?n # take (unat left) (drop ptr buf)"
    let ?t = "upd_hdr (hdr_m_update (\<lambda>_. lst)) s"
    have bs: "bs = [?b]"
      using Suc.prems(5,7) \<open>unat left \<le> 1422\<close> by (simp add: fu_bodies.simps)
    have "fu_step buf nalu lst num i (s, m, ptr, left)
       = Some (upd_hdr update_seq (add_send_buf ?t (rtp_pkt ?t (video_hdr ?t) ?b)), drop 2 m, ptr + unat left, left - left)"
      using True \<open>unat left \<le> 1422\<close> Suc.prems(1-5)
      by (intro fu_step_eq) simp_all
    moreover have "upd_hdr update_seq (add_send_buf ?t (rtp_pkt ?t (video_hdr ?t) ?b)) = sent lst bs s"
      using sent_single[of lst s ?b] unfolding bs by (simp add: upd_hdr_def add_send_buf_def)
    ultimately show ?thesis using \<open>i < num\<close> True by (simp add: for_up_step bs)
  next
    case False
    then have big: "1422 < unat left" using Suc.prems(6) \<open>i < num\<close> by linarith
    have left: "unat (left - 1422) = unat left - 1422" using big by (simp add: unat_sub word_le_nat_alt)
    let ?r = "take (unat left) (drop ptr buf)"
    let ?b = "fu_idr ?n # fu_hdr (i = 0) False ?n # take 1422 (drop ptr buf)"
    let ?bs = "fu_bodies ?n False (take (unat (left - 1422)) (drop (ptr + 1422) buf))"
    have r: "length ?r = unat left" "take 1422 ?r = take 1422 (drop ptr buf)"
      "drop 1422 ?r = take (unat (left - 1422)) (drop (ptr + 1422) buf)"
      using Suc.prems(5) big by (simp_all add: left drop_take add.commute)
    have bs: "bs = ?b # ?bs"
    proof -
      have "\<not> unat left \<le> 1422" using big by simp
      then show ?thesis
        using Suc.prems(7) by (subst (asm) fu_bodies.simps) (simp only: r if_False)
    qed
    have ne: "?bs \<noteq> []" by (subst fu_bodies.simps) simp
    let ?t = "upd_hdr (hdr_m_update (\<lambda>_. 0)) s"
    let ?s = "upd_hdr update_seq (add_send_buf ?t (rtp_pkt ?t (video_hdr ?t) ?b))"
    have step: "fu_step buf nalu lst num i (s, m, ptr, left) = Some (?s, drop 2 m, ptr + 1422, left - 1422)"
      using Suc.prems False big by (subst fu_step_eq[OF _ _ _ _ _ refl refl refl]) simp_all
    have "for_up (Suc i) num (fu_step buf nalu lst num) (?s, drop 2 m, ptr + 1422, left - 1422)
      = Some (sent lst ?bs ?s, drop (2 * length ?bs) (drop 2 m), ptr + 1422 + unat (left - 1422), 0)"
    proof (rule Suc.hyps(1))
      show "Suc i + (unat (left - 1422) + 1421) div 1422 = num"
        using Suc.prems(6) big by (simp add: left) 
    qed (use Suc.prems Suc.hyps(2) big left mem_ok_drop in \<open>simp_all add: upd_hdr_def add_send_buf_def update_seq_def\<close>)
    moreover have "sent lst ?bs ?s = sent lst bs s"
      using sent_Cons[OF ne, of lst s ?b] by (simp add: bs upd_hdr_def add_send_buf_def)
    ultimately show ?thesis
      using step \<open>i < num\<close> big left by (simp add: for_up_step bs)
  qed
qed

lemma num_fragments: "0 < x \<Longrightarrow> x div 1422 + (if x mod 1422 \<noteq> 0 then 1 else 0) = (x + 1421) div (1422 :: nat)"
proof -
  assume "0 < x"
  have x: "x = 1422 * (x div 1422) + x mod 1422" by simp
  show ?thesis
  proof (cases "x mod 1422 = 0")
    case True
    then have "x + 1421 = 1422 * (x div 1422) + 1421" using x by linarith
    then show ?thesis using True by simp
  next
    case False
    then have "x + 1421 = 1422 * Suc (x div 1422) + (x mod 1422 - 1)" "x mod 1422 - 1 < 1422" using x by auto
    then have "(x + 1421) div 1422 = Suc (x div 1422)" by (metis div_mult_self4 div_less add.right_neutral nat.simps(3) Zero_neq_Suc mult.commute rel_simps(76))
    then show ?thesis using False by simp
  qed
qed

lemma send_h264_nalu_eq:
  assumes "unat sz = length n" "take (length n) (drop off buf) = n" "n \<noteq> []"
    "1 \<le> and (hd n) 0x1F" "and (hd n) 0x1F \<le> 23" "hdr_pt (video_hdr s) = RTP_PT_H264" "mem_ok m"
  shows "send_h264_nalu s buf off sz lst m
    = Some (if lst \<noteq> 0 then upd_hdr (update_ts MEDIA_TYPE_VIDEO) (sent lst (bodies n) s) else sent lst (bodies n) s,
        drop (2 * length (bodies n)) m)"
proof -
  have pos: "0 < length n" using assms(3) by simp
  have "length n = min (length n) (length buf - off)" using arg_cong[OF assms(2), of length] by simp
  then have len: "off + length n \<le> length buf" "0 < length n" using pos by linarith+
  have "off < length buf" using pos len by linarith
  then have n0: "buf ! off = hd n"
    using arg_cong[OF assms(2), of hd] pos hd_drop_conv_nth[of off buf] by simp
  have "tl n = tl (take (length n) (drop off buf))" by (simp only: assms(2))
  then have tln: "take (length n - 1) (drop (off + 1) buf) = tl n"
    by (simp add: tl_take tl_drop drop_Suc)
  have sz1: "unat (sz - 1) = length n - 1" using assms(1) len(2) unat_minus_one[of sz] by fastforce
  show ?thesis
  proof (cases "sz \<le> 1424")
    case True
    then have small: "length n \<le> 1424" using assms(1) by (simp add: word_le_nat_alt)
    let ?t = "upd_hdr (hdr_m_update (\<lambda>_. lst)) s"
    have produce: "produce_rtp_pkt ?t MEDIA_TYPE_VIDEO (video_hdr ?t) (Single (hd n) buf (off + 1) (sz - 1)) m
      = Some (0, add_send_buf ?t (rtp_pkt ?t (video_hdr ?t) (payload (Single (hd n) buf (off + 1) (sz - 1)))), tl (tl m))"
    proof (rule produce_rtp_pkt_eq)
      have "off + 1 + unat (sz - 1) \<le> length buf" "unat (sz - 1) < 1424" using len small sz1 by linarith+
      then show "sendable (Single (hd n) buf (off + 1) (sz - 1))" using assms(4,5) by simp
    qed (use assms(6,7) in \<open>simp_all add: upd_hdr_def\<close>)
    moreover have pl: "payload (Single (hd n) buf (off + 1) (sz - 1)) = n"
      using assms(3) tln by (simp add: payload_def sz1)
    moreover have sent: "upd_hdr update_seq (add_send_buf ?t (rtp_pkt ?t (video_hdr ?t) n)) = sent lst (bodies n) s"
      using sent_single[of lst s n] small by (simp add: bodies_def upd_hdr_def add_send_buf_def)
    moreover have "rd buf off = Some (hd n)" using \<open>off < length buf\<close> n0 by simp
    ultimately have "send_h264_nalu s buf off sz lst m
        = Some (if lst \<noteq> 0 then upd_hdr (update_ts MEDIA_TYPE_VIDEO) (sent lst (bodies n) s) else sent lst (bodies n) s, tl (tl m))"
      using True by (simp only: send_h264_nalu_def Let_def if_True Option.bind.bind_lunit prod.case)
    then show ?thesis using small by (simp add: tl_tl bodies_def)
  next
    case False
    then have big: "1424 < length n" using assms(1) by (simp add: word_le_nat_alt)
    let ?num = "(sz - 1) div 1422 + (if (sz - 1) mod 1422 \<noteq> 0 then 1 else 0)"
    have num: "unat ?num = (length n - 1 + 1421) div 1422"
    proof -
      have "(sz - 1) mod 1422 \<noteq> 0 \<longleftrightarrow> unat (sz - 1) mod 1422 \<noteq> 0"
        by (simp add: unat_eq_zero[symmetric] unat_mod)
      moreover have "unat ((sz - 1) div 1422 + 1) = unat ((sz - 1) div 1422) + 1"
      proof -
        have "unat ((sz - 1) div 1422) \<le> unat (sz - 1) div 1422" by (simp add: unat_div)
        also have "\<dots> \<le> 4294967295 div 1422" using unsigned_less[of "sz - 1", where ?'a = nat] by (intro div_le_mono) simp
        finally show ?thesis by (simp add: unat_word_ariths)
      qed
      ultimately show ?thesis
        using num_fragments[of "unat (sz - 1)"] big by (auto simp: sz1 unat_div)
    qed
    let ?t = "upd_hdr (hdr_m_update (\<lambda>_. 0)) s"
    have "for_up 0 (unat ?num) (fu_step buf off lst (unat ?num)) (?t, m, off + 1, sz - 1)
      = Some (sent lst (bodies n) ?t, drop (2 * length (bodies n)) m, off + 1 + unat (sz - 1), 0)"
    proof (rule fu_loop)
      show "0 + (unat (sz - 1) + 1421) div 1422 = unat ?num" by (simp add: num sz1)
      show "bodies n = fu_bodies (buf ! off) (0 = 0) (take (unat (sz - 1)) (drop (off + 1) buf))"
        using big tln by (simp add: bodies_def n0 sz1)
    qed (use assms len big sz1 in \<open>simp_all add: upd_hdr_def\<close>)
    moreover have "sent lst (bodies n) ?t = sent lst (bodies n) s"
      unfolding sent_def using packets_cong[of ?t s lst 0 "video_hdr s" "bodies n"] by (simp add: upd_hdr_def)
    ultimately show ?thesis
      using False by (simp add: send_h264_nalu_def Let_def del: One_nat_def)
  qed
qed

subsection \<open>Sequences of packets\<close>

lemma packets_append:
  "cs \<noteq> [] \<Longrightarrow> packets s lst h (bs @ cs) = packets s 0 h bs @ packets s lst ((update_seq ^^ length bs) h) cs"
  by (induction bs arbitrary: h) (simp_all add: funpow_swap1)

lemma sent_append:
  assumes "cs \<noteq> []"
  shows "sent lst cs (sent 0 bs s) = sent lst (bs @ cs) s"
proof -
  let ?t = "sent 0 bs s"
  have hdr: "video_hdr ?t = ((update_seq ^^ length bs) (video_hdr s))\<lparr>hdr_m := 0\<rparr>" by (simp add: sent_def)
  have "packets ?t lst (video_hdr ?t) cs = packets s lst ((update_seq ^^ length bs) (video_hdr s)) cs"
    unfolding hdr by (rule packets_cong) (simp_all add: sent_def)
  then have "send_queue ?t @ packets ?t lst (video_hdr ?t) cs = send_queue s @ packets s lst (video_hdr s) (bs @ cs)"
    using assms by (simp add: packets_append) (simp add: sent_def)
  moreover have "(update_seq ^^ length cs) (video_hdr ?t)
      = ((update_seq ^^ length (bs @ cs)) (video_hdr s))\<lparr>hdr_m := 0\<rparr>"
    unfolding hdr using funpow_add[of "length cs" "length bs" update_seq] by (simp add: add.commute)
  ultimately show ?thesis
    unfolding sent_def[of lst cs ?t] sent_def[of lst "bs @ cs" s] by (simp add: sent_def)
qed

lemma hdr_seq_update_seqs: "htons (hdr_seq ((update_seq ^^ k) h)) = htons (hdr_seq h) + of_nat k"
  by (induction k) (simp_all add: update_seq_def)

lemma update_seqs_other [simp]:
  "hdr_ts ((update_seq ^^ k) h) = hdr_ts h" "hdr_ssrc ((update_seq ^^ k) h) = hdr_ssrc h"
  "hdr_ok ((update_seq ^^ k) h) = hdr_ok h" "hdr_pt ((update_seq ^^ k) h) = hdr_pt h"
  by (induction k) (simp_all add: update_seq_def hdr_ok_def)

text \<open>What the receiver sees of a sequence of packets.\<close>

definition views :: "bool \<Rightarrow> rtp_hdr \<Rightarrow> u8 list list \<Rightarrow> rtp_view list" where
  "views mark h bs = map (\<lambda>i. \<lparr>v_version = 2, v_m = (mark \<and> i = length bs - 1), v_pt = RTP_PT_H264,
     v_seq = htons (hdr_seq h) + of_nat i, v_ts = htonl (hdr_ts h), v_ssrc = htonl (hdr_ssrc h), v_body = bs ! i\<rparr>)
     [0..<length bs]"

lemma upt_Suc_0: "[0..<Suc n] = 0 # map Suc [0..<n]"
  by (simp add: upt_conv_Cons map_Suc_upt del: upt_Suc)

lemma views_Cons:
  "views mark h (b # bs) = view_of (h\<lparr>hdr_m := if mark \<and> bs = [] then 1 else 0\<rparr>) b # views mark (update_seq h) bs"
  by (cases bs) (auto simp: views_def view_of_def upt_Suc_0 update_seq_def simp del: upt_Suc)

lemma view_packets:
  assumes "\<forall>b \<in> set bs. length b \<le> 1424" "hdr_ok h"
  shows "map (view s) (packets s (if mark then 1 else 0) h bs) = map Some (views mark h bs)"
  using assms
proof (induction bs arbitrary: h)
  case Nil
  then show ?case by (simp add: views_def)
next
  case (Cons b bs)
  then show ?case by (auto simp: views_Cons view_rtp_pkt)
qed

lemma packets_sz:
  assumes "\<forall>b \<in> set bs. length b \<le> 1424"
  shows "\<forall>p \<in> set (packets s lst h bs). unat (buf_sz p) \<le> 1440 \<and> length (buf_data p) = 1440"
  using assms prefix_len_le[of s]
  by (induction bs arbitrary: h) (auto simp: rtp_pkt_sz, auto simp: rtp_pkt_def length_pkt_bytes)

subsection \<open>Depacketisation\<close>

lemma fu_hdr_bits [simp]: "bit (fu_hdr start end n) 7 = start" "bit (fu_hdr start end n) 6 = end"
  by (auto simp: fu_hdr_def bit_simps)

lemma fu_header: "or (and (fu_idr n) 0xE0) (and (fu_hdr start end n) 0x1F) = n"
  by (rule word8_eqI) (simp add: fu_idr_def fu_hdr_def bit_simps)

lemma depack_fu_rest:
  "depack (Some a) (fu_bodies n False r @ bs) = map_option ((#) (a @ r)) (depack None bs)"
proof (induction n "False" r arbitrary: a rule: fu_bodies.induct)
  case (1 n r)
  show ?case
  proof (cases "length r \<le> 1422")
    case True
    then show ?thesis by (subst fu_bodies.simps) (simp add: Let_def)
  next
    case False
    then have "depack (Some (a @ take 1422 r)) (fu_bodies n False (drop 1422 r) @ bs)
        = map_option ((#) (a @ r)) (depack None bs)"
      using 1 by simp
    then show ?thesis using False by (subst fu_bodies.simps) (simp add: Let_def)
  qed
qed

lemma depack_bodies:
  assumes "n \<noteq> []" "1 \<le> and (hd n) 0x1F" "and (hd n) 0x1F \<le> 23"
  shows "depack None (bodies n @ bs) = map_option ((#) n) (depack None bs)"
proof (cases "length n \<le> 1424")
  case True
  then show ?thesis using assms by (cases n) (simp_all add: bodies_def Let_def)
next
  case False
  then have "\<not> length (tl n) \<le> 1422" by simp
  then have "depack None (bodies n @ bs) = depack (Some (hd n # take 1422 (tl n))) (fu_bodies (hd n) False (drop 1422 (tl n)) @ bs)"
    using False by (simp add: bodies_def fu_bodies.simps[of "hd n" True] Let_def fu_header)
  also have "\<dots> = map_option ((#) n) (depack None bs)"
    using assms(1) by (simp add: depack_fu_rest)
  finally show ?thesis .
qed

lemma fu_bodies_le: "\<forall>b \<in> set (fu_bodies n start r). length b \<le> 1424"
  by (induction n start r rule: fu_bodies.induct) (subst fu_bodies.simps, auto)

lemma bodies_le: "\<forall>b \<in> set (bodies n). length b \<le> 1424"
  using fu_bodies_le by (auto simp: bodies_def)

lemma bodies_ne [simp]: "bodies n \<noteq> []"
  by (simp add: bodies_def fu_bodies.simps)

lemma depack_all:
  assumes "\<forall>n \<in> set ns. n \<noteq> [] \<and> 1 \<le> and (hd n) 0x1F \<and> and (hd n) 0x1F \<le> 23"
  shows "depack None (concat (map bodies ns)) = Some ns"
  using assms by (induction ns) (simp_all add: depack_bodies)

subsection \<open>Scanning a frame\<close>

text \<open>A NAL unit (H.264, 7.4.1): it does not end in a zero byte, holds no start code and is of one of
  the types of a single-unit packet.\<close>

definition nalu :: "u8 list \<Rightarrow> bool" where
  "nalu n \<longleftrightarrow> n \<noteq> [] \<and> last n \<noteq> 0 \<and> 1 \<le> and (hd n) 0x1F \<and> and (hd n) 0x1F \<le> 23 \<and>
     (\<forall>i < length n - 2. n ! i = 0 \<and> n ! Suc i = 0 \<longrightarrow> n ! Suc (Suc i) \<noteq> 0 \<and> n ! Suc (Suc i) \<noteq> 1)"

definition start_code :: "u8 list \<Rightarrow> bool" where
  "start_code c \<longleftrightarrow> c = [0, 0, 0, 1] \<or> c = [0, 0, 1]"

lemma nalu_end_past: "nalu_end buf end end = Some end"
  by (simp add: nalu_end.simps)

lemma nalu_end_step:
  assumes "nalu n" "i < length n" "buf = pre @ n @ post" "length pre + length n \<le> end"
  shows "nalu_end buf (length pre + i) end = nalu_end buf (Suc (length pre + i)) end"
proof -
  let ?p = "length pre + i"
  have at: "rd buf (?p + k) = Some (n ! (i + k))" if "i + k < length n" for k
    using that by (simp add: assms(3) nth_append rd_def)
  have last: "n ! (length n - 1) \<noteq> 0" using assms(1) by (auto simp: nalu_def last_conv_nth)
  have no: "bytes_at buf ?p [0, 0, 0, 0] = Some False \<and> bytes_at buf ?p [0, 0, 0, 1] = Some False \<and>
      bytes_at buf ?p [0, 0, 1] = Some False"
  proof (cases "n ! i = 0")
    case False
    then show ?thesis using at[of 0] assms(2) by simp
  next
    case True
    then have i1: "Suc i < length n" using last assms(2) by (cases "i = length n - 1") auto
    show ?thesis
    proof (cases "n ! Suc i = 0")
      case False
      then show ?thesis using at[of 0] at[of 1] True i1 by simp
    next
      case zero: True
      then have i2: "Suc (Suc i) < length n" using last i1 by (cases "Suc i = length n - 1") auto
      then have "n ! Suc (Suc i) \<noteq> 0" "n ! Suc (Suc i) \<noteq> 1" using assms(1) True zero by (auto simp: nalu_def)
      then show ?thesis using at[of 0] at[of 1] at[of 2] True zero i1 i2 by simp
    qed
  qed
  then show ?thesis
    using assms(2,4) by (subst nalu_end.simps) (simp del: bytes_at.simps)
qed

lemma nalu_end_skip:
  assumes "nalu n" "buf = pre @ n @ post" "length pre + length n \<le> end" "i \<le> length n"
  shows "nalu_end buf (length pre + i) end = nalu_end buf (length pre + length n) end"
  using assms(4)
proof (induction "length n - i" arbitrary: i)
  case 0
  then show ?case by simp
next
  case (Suc k)
  then have "i < length n" by simp
  moreover have "nalu_end buf (length pre + Suc i) end = nalu_end buf (length pre + length n) end"
    using Suc.hyps(2) calculation by (intro Suc.hyps(1)) auto
  ultimately show ?case using nalu_end_step[OF assms(1) _ assms(2,3)] by simp
qed

lemma bytes_at_shift: "bytes_at (pre @ xs) (length pre + k) bs = bytes_at xs k bs"
proof (induction bs arbitrary: k)
  case (Cons b bs)
  have "rd (pre @ xs) (length pre + k) = rd xs k" by (simp add: rd_def nth_append)
  moreover have "bytes_at (pre @ xs) (Suc (length pre + k)) bs = bytes_at xs (Suc k) bs" using Cons[of "Suc k"] by simp
  ultimately show ?case by (simp only: bytes_at.simps)
qed simp

lemma bytes_at_code:
  assumes "start_code c" "buf = pre @ c @ post"
  shows "bytes_at buf (length pre) [0, 0, 0, 0] = Some False \<or> length post = 0"
    "bytes_at buf (length pre) [0, 0, 0, 1] = Some (length c = 4)"
    "length c = 3 \<Longrightarrow> bytes_at buf (length pre) [0, 0, 1] = Some True"
proof -
  have at: "bytes_at buf (length pre) bs = bytes_at (c @ post) 0 bs" for bs
    using bytes_at_shift[of pre "c @ post" 0] assms(2) by simp
  show "bytes_at buf (length pre) [0, 0, 0, 0] = Some False \<or> length post = 0"
    "bytes_at buf (length pre) [0, 0, 0, 1] = Some (length c = 4)"
    "length c = 3 \<Longrightarrow> bytes_at buf (length pre) [0, 0, 1] = Some True"
    using assms(1) unfolding at by (auto simp: start_code_def rd_def)
qed

lemma nalu_end_code:
  assumes "start_code c" "buf = pre @ c @ post" "length pre + length c < end" "end \<le> length buf"
  shows "nalu_end buf (length pre) end = Some (length pre)"
proof -
  have "length post \<noteq> 0" using assms(2-4) by auto
  then show ?thesis
    using bytes_at_code[OF assms(1,2)] assms(1,3)
    by (subst nalu_end.simps) (auto simp del: bytes_at.simps simp: start_code_def)
qed

lemma skip_code:
  assumes "start_code c" "buf = pre @ c @ post" "length pre + length c < end"
  shows "skip_nalu_start_code buf (length pre) end = Some (Some (length pre + length c))"
  using bytes_at_code[OF assms(1,2)] assms(1,3)
  by (subst skip_nalu_start_code.simps) (auto simp del: bytes_at.simps simp: start_code_def)

lemma send_video_frm_end [simp]: "send_video_frm s buf end end m = Some (s, m)"
  by (simp add: send_video_frm.simps)

text \<open>The frame of a list of units, each behind its start code.\<close>

definition frame_of :: "(u8 list \<times> u8 list) list \<Rightarrow> u8 list" where
  "frame_of us = concat (map (\<lambda>(c, n). c @ n) us)"

lemma get_nalu_sz_unit:
  assumes "nalu n" "\<forall>(c, n) \<in> set us. start_code c \<and> nalu n" "buf = pre @ n @ frame_of us @ extra"
    "end = length pre + length n + length (frame_of us)"
  shows "get_nalu_sz buf (length pre) end = Some (length n)"
proof -
  have "nalu_end buf (length pre) end = nalu_end buf (length pre + length n) end"
    using nalu_end_skip[OF assms(1,3), of "end" 0] assms(4) by simp
  also have "\<dots> = Some (length pre + length n)"
  proof (cases us)
    case Nil
    then show ?thesis using assms(4) nalu_end_past by (simp add: frame_of_def)
  next
    case (Cons u us')
    then obtain c n' where "u = (c, n')" "start_code c" "nalu n'" using assms(2) by (cases u) auto
    then show ?thesis
      using nalu_end_code[of c buf "pre @ n" "n' @ frame_of us' @ extra" "end"] assms(3,4) Cons
      by (simp add: frame_of_def nalu_def)
  qed
  finally show ?thesis by (simp add: get_nalu_sz_def)
qed

lemma send_video_frm_units:
  assumes "us \<noteq> []" "\<forall>(c, n) \<in> set us. start_code c \<and> nalu n" "buf = pre @ frame_of us @ extra"
    "end = length pre + length (frame_of us)" "length (frame_of us) < 2 ^ 32"
    "hdr_pt (video_hdr s) = RTP_PT_H264" "mem_ok m"
  shows "send_video_frm s buf (length pre) end m
    = Some (upd_hdr (update_ts MEDIA_TYPE_VIDEO) (sent 1 (concat (map (bodies \<circ> snd) us)) s),
        drop (2 * length (concat (map (bodies \<circ> snd) us))) m)"
  using assms
proof (induction us arbitrary: pre s m)
  case Nil
  then show ?case by simp
next
  case (Cons u us)
  obtain c n where u: "u = (c, n)" by (cases u)
  have c: "start_code c" and n: "nalu n" and us: "\<forall>(c, n) \<in> set us. start_code c \<and> nalu n"
    using Cons.prems(2) u by auto
  have pos: "0 < length n" "0 < length c" using c n by (auto simp: nalu_def start_code_def)
  let ?p = "pre @ c"
  have buf: "buf = ?p @ n @ frame_of us @ extra" and fe: "end = length ?p + length n + length (frame_of us)"
    using Cons.prems(3,4) by (simp_all add: u frame_of_def)
  have skip: "skip_nalu_start_code buf (length pre) end = Some (Some (length ?p))"
    using skip_code[OF c, of buf pre "n @ frame_of us @ extra" "end"] buf fe pos by simp
  have sz: "get_nalu_sz buf (length ?p) end = Some (length n)"
    by (rule get_nalu_sz_unit[OF n us buf fe])
  have un: "unat (of_nat (length n) :: u32) = length n"
    using Cons.prems(5) by (intro unat_small) (simp add: u frame_of_def)
  let ?lst = "if length ?p + length n = end then 1 else 0 :: u8"
  have lst: "?lst = (if us = [] then 1 else 0)"
  proof (cases us)
    case (Cons v vs)
    then obtain c' n' where "v = (c', n')" "start_code c'" using us by (cases v) auto
    then show ?thesis using Cons fe by (auto simp: frame_of_def start_code_def)
  qed (use fe in \<open>simp add: frame_of_def\<close>)
  have nalu: "send_h264_nalu s buf (length ?p) (of_nat (length n)) ?lst m
    = Some (if ?lst \<noteq> 0 then upd_hdr (update_ts MEDIA_TYPE_VIDEO) (sent ?lst (bodies n) s) else sent ?lst (bodies n) s,
        drop (2 * length (bodies n)) m)"
  proof (rule send_h264_nalu_eq[OF un])
    show "take (length n) (drop (length ?p) buf) = n" by (simp add: buf)
  qed (use n Cons.prems(6,7) in \<open>auto simp: nalu_def\<close>)
  note step = send_video_frm.simps[of s buf "length pre" "end" m]
  show ?case
  proof (cases us)
    case Nil
    then show ?thesis
      using step skip sz nalu lst un fe pos by (simp add: u Let_def frame_of_def)
  next
    case (Cons v vs)
    then have ne: "us \<noteq> []" by simp
    define cs where "cs = concat (map (bodies \<circ> snd) us)"
    have all: "concat (map (bodies \<circ> snd) (u # us)) = bodies n @ cs" by (simp add: cs_def u)
    have ne': "cs \<noteq> []" using Cons by (simp add: cs_def)
    have "send_video_frm (sent 0 (bodies n) s) buf (length (?p @ n)) end (drop (2 * length (bodies n)) m)
      = Some (upd_hdr (update_ts MEDIA_TYPE_VIDEO) (sent 1 cs (sent 0 (bodies n) s)), drop (2 * length cs) (drop (2 * length (bodies n)) m))"
      unfolding cs_def
    proof (rule Cons.IH[OF ne us])
      show "hdr_pt (video_hdr (sent 0 (bodies n) s)) = 96"
        using Cons.prems(6) by (simp add: sent_def)
    qed (use Cons.prems buf fe in \<open>simp_all add: u frame_of_def mem_ok_drop\<close>)
    then show ?thesis
      using step skip sz nalu lst un fe pos ne sent_append[OF ne', of 1 "bodies n" s]
      unfolding all by (simp add: Let_def ac_simps)
  qed
qed

subsection \<open>Properties\<close>

lemma map_bodies: "concat (map (bodies \<circ> snd) us) = concat (map bodies (map snd us))"
  by simp

lemma send_frame:
  assumes "us \<noteq> []" "list_all (\<lambda>(c, n). start_code c \<and> nalu n) us" "length (frame_of us) < 2 ^ 32"
    "hdr_ok (video_hdr s)" "mem_ok m" "bs = concat (map bodies (map snd us))"
  shows "send_video_frm s (frame_of us @ extra) 0 (length (frame_of us)) m
    = Some (upd_hdr (update_ts MEDIA_TYPE_VIDEO) (sent 1 bs s), drop (2 * length bs) m)"
  using send_video_frm_units[of us "frame_of us @ extra" "[]" extra "length (frame_of us)" s m] assms
  unfolding map_bodies by (auto simp: list_all_iff hdr_ok_def)

text \<open>C4: A frame built from NAL units behind start codes of three or four bytes arrives: the packets
  that \<open>send_video_frm\<close> appends to the send queue are RTP packets (interleaved ones with their prefix)
  whose payloads a receiver of RFC 6184 puts together to exactly these units, in order, whatever lies
  behind the frame in its buffer.\<close>

theorem frame_delivered:
  assumes "us \<noteq> []" "list_all (\<lambda>(c, n). start_code c \<and> nalu n) us" "length (frame_of us) < 2 ^ 32"
    "hdr_ok (video_hdr s)" "mem_ok m"
  shows "\<exists>s' m' pkts vs. send_video_frm s (frame_of us @ extra) 0 (length (frame_of us)) m = Some (s', m') \<and>
    send_queue s' = send_queue s @ pkts \<and> map (view s) pkts = map Some vs \<and>
    depack None (map v_body vs) = Some (map snd us)"
proof -
  define bs where "bs = concat (map bodies (map snd us))"
  let ?h = "video_hdr s"
  have le: "\<forall>b \<in> set bs. length b \<le> 1424" using bodies_le by (auto simp: bs_def)
  have "map (view s) (packets s 1 ?h bs) = map Some (views True ?h bs)"
    using view_packets[OF le assms(4), of s True] by simp
  moreover have "map v_body (views True ?h bs) = bs"
    by (simp add: views_def o_def map_nth)
  moreover have "depack None bs = Some (map snd us)"
    unfolding bs_def using assms(2) by (intro depack_all) (auto simp: nalu_def list_all_iff)
  moreover have "send_queue (upd_hdr (update_ts MEDIA_TYPE_VIDEO) (sent 1 bs s)) = send_queue s @ packets s 1 ?h bs"
    by (simp add: upd_hdr_def sent_def)
  ultimately show ?thesis using send_frame[OF assms bs_def] by metis
qed

text \<open>C30: The packets of a frame form a proper RTP stream: they carry version 2 and the payload type of
  H.264, their sequence numbers count up by one modulo \<open>2 ^ 16\<close>, they share the time stamp of the frame,
  the marker is set on the last packet only, and the time stamp advances by \<open>90000 / 25\<close> for the next
  frame.\<close>

theorem frame_stream:
  assumes "us \<noteq> []" "list_all (\<lambda>(c, n). start_code c \<and> nalu n) us" "length (frame_of us) < 2 ^ 32"
    "hdr_ok (video_hdr s)" "mem_ok m"
  shows "\<exists>s' m' pkts vs. send_video_frm s (frame_of us @ extra) 0 (length (frame_of us)) m = Some (s', m') \<and>
    send_queue s' = send_queue s @ pkts \<and> map (view s) pkts = map Some vs \<and>
    list_all (\<lambda>p. unat (buf_sz p) \<le> 1440 \<and> length (buf_data p) = 1440) pkts \<and>
    list_all (\<lambda>v. v_version v = 2 \<and> v_pt v = 96 \<and> v_ts v = htonl (hdr_ts (video_hdr s))) vs \<and>
    map v_seq vs = map (\<lambda>i. htons (hdr_seq (video_hdr s)) + of_nat i) [0..<length vs] \<and>
    map v_m vs = replicate (length vs - 1) False @ [True] \<and>
    htonl (hdr_ts (video_hdr s')) = htonl (hdr_ts (video_hdr s)) + 3600 \<and>
    htons (hdr_seq (video_hdr s')) = htons (hdr_seq (video_hdr s)) + of_nat (length vs)"
proof -
  define bs where "bs = concat (map bodies (map snd us))"
  let ?h = "video_hdr s" and ?s = "upd_hdr (update_ts MEDIA_TYPE_VIDEO) (sent 1 bs s)"
  let ?pkts = "packets s 1 ?h bs" and ?vs = "views True ?h bs"
  have le: "\<forall>b \<in> set bs. length b \<le> 1424" using bodies_le by (auto simp: bs_def)
  have ne: "bs \<noteq> []" using assms(1) by (cases us) (simp_all add: bs_def)
  have len: "length ?vs = length bs" by (simp add: views_def)
  have "[0..<length bs] = [0..<length bs - 1] @ [length bs - 1]"
    using ne upt_Suc_append[of 0 "length bs - 1"] by simp
  then have "map v_m ?vs = replicate (length ?vs - 1) False @ [True]"
    by (simp add: views_def o_def) (rule replicate_eqI, auto)
  moreover have "map (view s) ?pkts = map Some ?vs"
    using view_packets[OF le assms(4), of s True] by simp
  moreover have "send_queue ?s = send_queue s @ ?pkts"
    by (simp add: upd_hdr_def sent_def)
  moreover have "list_all (\<lambda>p. unat (buf_sz p) \<le> 1440 \<and> length (buf_data p) = 1440) ?pkts"
    using packets_sz[OF le] by (simp add: list_all_iff)
  moreover have "list_all (\<lambda>v. v_version v = 2 \<and> v_pt v = 96 \<and> v_ts v = htonl (hdr_ts ?h)) ?vs"
    "map v_seq ?vs = map (\<lambda>i. htons (hdr_seq ?h) + of_nat i) [0..<length ?vs]"
    by (simp_all add: views_def list_all_iff)
  moreover have "htonl (hdr_ts (video_hdr ?s)) = htonl (hdr_ts ?h) + 3600"
    "htons (hdr_seq (video_hdr ?s)) = htons (hdr_seq ?h) + of_nat (length ?vs)"
    unfolding len by (simp_all add: upd_hdr_def sent_def update_ts_def hdr_seq_update_seqs)
  ultimately show ?thesis
    using send_frame[OF assms bs_def, of extra]
    by (intro exI[of _ ?s] exI[of _ "drop (2 * length bs) m"] exI[of _ ?pkts] exI[of _ ?vs] conjI)
qed

definition sess_1 :: rtsp_sess where
  "sess_1 = upd_hdr (\<lambda>_. init_rtp_hdr 0xFFFF 7 9 MEDIA_TYPE_VIDEO) (zero_sess\<lparr>intlvd_mode := True\<rparr>)"

definition units_1 :: "(u8 list \<times> u8 list) list" where
  "units_1 = [([0, 0, 0, 1], [0x67, 0, 3]), ([0, 0, 1], [0x65, 5])]"

lemma units_1: "units_1 \<noteq> []" "list_all (\<lambda>(c, n). start_code c \<and> nalu n) units_1"
  "length (frame_of units_1) < 2 ^ 32" "hdr_ok (video_hdr sess_1)" "mem_ok []"
  "frame_of units_1 = [0, 0, 0, 1, 0x67, 0, 3, 0, 0, 1, 0x65, 5]" "length (frame_of units_1) = 12"
  "map snd units_1 = [[0x67, 0, 3], [0x65, 5]]"
  by (simp_all add: units_1_def start_code_def nalu_def frame_of_def sess_1_def zero_sess_def zero_rtp_rtcp_def upd_hdr_def
      init_rtp_hdr_def hdr_ok_def)

lemma frame_delivered_witness:
  "\<exists>s' m' pkts vs. send_video_frm sess_1 [0, 0, 0, 1, 0x67, 0, 3, 0, 0, 1, 0x65, 5, 9, 9] 0 12 [] = Some (s', m') \<and>
    send_queue s' = send_queue sess_1 @ pkts \<and> map (view sess_1) pkts = map Some vs \<and>
    depack None (map v_body vs) = Some [[0x67, 0, 3], [0x65, 5]]"
  using frame_delivered[OF units_1(1-5), of "[9, 9]", unfolded units_1(7)] unfolding units_1(6,8) append_Cons append_Nil .

lemma frame_stream_witness:
  "\<exists>s' m' pkts vs. send_video_frm sess_1 [0, 0, 0, 1, 0x67, 0, 3, 0, 0, 1, 0x65, 5] 0 12 [] = Some (s', m') \<and>
    send_queue s' = send_queue sess_1 @ pkts \<and> map (view sess_1) pkts = map Some vs \<and>
    map v_seq vs = map (\<lambda>i. 0xFFFF + of_nat i) [0..<length vs]"
proof -
  have "htons (hdr_seq (video_hdr sess_1)) = 0xFFFF"
    by (simp add: sess_1_def upd_hdr_def init_rtp_hdr_def htons_def)
  then show ?thesis using frame_stream[OF units_1(1-5), of "[]", unfolded units_1(7)] unfolding units_1(6) append_Nil2 by auto
qed

text \<open>A session whose video track was never set up (only the audio track was) still has payload type 0:
  the union of payloads is then read as an audio payload.\<close>

lemma produce_None:
  assumes "mem_ok m" "\<And>pkt n. length pkt = 1440 \<Longrightarrow> n \<le> 16 \<Longrightarrow> put_payload pkt n (hdr_pt h) pl = None"
  shows "produce_rtp_pkt s MEDIA_TYPE_VIDEO h pl m = None"
  using assms by (simp add: produce_rtp_pkt_def create_send_buf_ok)

lemma video_never_set_up:
  assumes "hdr_pt (video_hdr s) = 0" "off < length buf" "sz \<le> 1424" "mem_ok m"
  shows "send_h264_nalu s buf off sz lst m = None"
proof -
  let ?t = "upd_hdr (hdr_m_update (\<lambda>_. lst)) s"
  have "produce_rtp_pkt ?t MEDIA_TYPE_VIDEO (video_hdr ?t) (Single (buf ! off) buf (off + 1) (sz - 1)) m = None"
    using assms by (intro produce_None) (simp_all add: put_payload_def upd_hdr_def)
  then show ?thesis
    using assms(2,3) by (simp add: send_h264_nalu_def Let_def)
qed

text \<open>A frame that is nothing but a start code: the size of the unit is 0, \<open>sz - 1\<close> wraps around and, if
  the byte behind the frame looks like the header of a unit, \<open>memcpy\<close> is called for \<open>2 ^ 32 - 1\<close> bytes.\<close>

lemma bare_start_code:
  assumes "1 \<le> and b 0x1F" "and b 0x1F \<le> 23" "hdr_pt (video_hdr s) = RTP_PT_H264" "mem_ok m"
  shows "send_h264_nalu s ([0, 0, 0, 1] @ b # r) 4 0 1 m = None"
proof -
  let ?t = "upd_hdr (hdr_m_update (\<lambda>_. 1)) s"
  have big: "unat (- 1 :: u32) = 4294967295" by (simp add: unsigned_minus_1_eq_mask mask_eq_exp_minus_1)
  have "store_payload pkt n [b] ([0, 0, 0, 1] @ b # r) 5 (unat (- 1 :: u32)) = None" if "length pkt = 1440" "n \<le> 16" for pkt n
  proof (cases "slice ([0, 0, 0, 1] @ b # r) 5 (unat (- 1 :: u32))")
    case (Some pl)
    then have "length pl = 4294967295" by (auto simp: slice_def big split: if_splits)
    then show ?thesis using that Some by (simp add: store_payload_def) (simp add: memcpy_def)
  qed (use that in \<open>simp add: store_payload_def\<close>)
  then have "produce_rtp_pkt ?t MEDIA_TYPE_VIDEO (video_hdr ?t) (Single b ([0, 0, 0, 1] @ b # r) 5 (- 1)) m = None"
    using assms by (intro produce_None) (simp_all add: put_payload_def upd_hdr_def del: append_Cons)
  then show ?thesis
    by (simp add: send_h264_nalu_def Let_def)
qed

end
