(* ===== verification/Rtsp_Parser.thy ===== *)
theory Rtsp_Parser
  imports Rtsp_Types
begin

text \<open>
  The parser of RTSP requests (\<open>rtsp_parser.c\<close>) and the method table of \<open>rtsp_method.c\<close>. A pointer
  into a NUL-terminated string is the list of the bytes from there to the terminator; the conversions
  of \<open>sscanf\<close> that the parser uses are interpreted after the C standard and glibc.
\<close>

subsection \<open>Strings\<close>

definition str :: "string \<Rightarrow> u8 list" where
  "str s = map uchar s"

abbreviation (input) SP :: u8 where "SP \<equiv> 0x20"
abbreviation (input) CR :: u8 where "CR \<equiv> 0x0D"
abbreviation (input) LF :: u8 where "LF \<equiv> 0x0A"

text \<open>The string at the start of a buffer; there is none without a terminator.\<close>

definition c_str :: "u8 list \<Rightarrow> u8 list option" where
  "c_str buf = (if 0 \<in> set buf then Some (takeWhile (\<lambda>c. c \<noteq> 0) buf) else None)"

text \<open>\<open>strncmp(s, t, strlen(t)) == 0\<close> and \<open>strncasecmp(s, t, strlen(t)) == 0\<close>.\<close>

definition starts :: "u8 list \<Rightarrow> string \<Rightarrow> bool" where
  "starts s t \<longleftrightarrow> take (length t) s = str t"

definition lower :: "u8 \<Rightarrow> u8" where
  "lower c = (if 0x41 \<le> c \<and> c \<le> 0x5A then c + 0x20 else c)"

definition starts_nocase :: "u8 list \<Rightarrow> string \<Rightarrow> bool" where
  "starts_nocase s t \<longleftrightarrow> map lower (take (length t) s) = map lower (str t)"

definition strpbrk :: "u8 list \<Rightarrow> u8 list \<Rightarrow> u8 list option" where
  "strpbrk s accept = (case dropWhile (\<lambda>c. c \<notin> set accept) s of [] \<Rightarrow> None | r \<Rightarrow> Some r)"

definition strndup :: "u8 list \<Rightarrow> nat \<Rightarrow> mem \<Rightarrow> u8 list option \<times> mem" where
  "strndup s n m = malloc (take n s) m"

text \<open>What \<open>%u\<close> of \<open>printf\<close> writes.\<close>

fun dec :: "nat \<Rightarrow> u8 list" where
  "dec n = (if n < 10 then [0x30 + of_nat n] else dec (n div 10) @ [0x30 + of_nat (n mod 10)])"

declare dec.simps [simp del]

subsection \<open>sscanf\<close>

datatype conv = Lit u8 | White | Not_in u8 | Str | Dec | Udec

datatype scanned = Num int | Text "u8 list"

definition white :: "u8 \<Rightarrow> bool" where
  "white c \<longleftrightarrow> c \<in> set [0x20, 0x09, 0x0A, 0x0B, 0x0C, 0x0D]"

definition digit :: "u8 \<Rightarrow> bool" where
  "digit c \<longleftrightarrow> 0x30 \<le> c \<and> c \<le> 0x39"

definition number :: "u8 list \<Rightarrow> int" where
  "number ds = foldl (\<lambda>v c. 10 * v + (uint c - 0x30)) 0 ds"

definition integer_at :: "u8 list \<Rightarrow> (int \<times> u8 list) option" where
  "integer_at s = (let
     signed = s \<noteq> [] \<and> hd s \<in> set [0x2B, 0x2D];
     r = (if signed then tl s else s);
     v = number (takeWhile digit r)
   in if takeWhile digit r = [] then None
      else Some (if signed \<and> hd s = 0x2D then - v else v, dropWhile digit r))"

text \<open>\<open>strtol\<close> and \<open>strtoul\<close> of a 64-bit \<open>long\<close> saturate; the assignment then truncates.\<close>

definition to_long :: "int \<Rightarrow> int" where
  "to_long v = max (- (2 ^ 63)) (min (2 ^ 63 - 1) v)"

definition to_ulong :: "int \<Rightarrow> int" where
  "to_ulong v = (if \<bar>v\<bar> \<ge> 2 ^ 64 then 2 ^ 64 - 1 else v mod 2 ^ 64)"

text \<open>\<open>None\<close> is EOF; otherwise the result of the call is the number of the values that were assigned.\<close>

definition input_end :: "scanned list \<Rightarrow> scanned list option" where
  "input_end vs = (if vs = [] then None else Some vs)"

fun scan :: "conv list \<Rightarrow> u8 list \<Rightarrow> scanned list \<Rightarrow> scanned list option" where
  "scan [] s vs = Some vs"
| "scan (Lit c # fs) s vs = (case s of
     [] \<Rightarrow> input_end vs
   | x # r \<Rightarrow> if x = c then scan fs r vs else Some vs)"
| "scan (White # fs) s vs = scan fs (dropWhile white s) vs"
| "scan (Not_in c # fs) s vs =
    (if s = [] then input_end vs
     else if hd s = c then Some vs
     else scan fs (dropWhile (\<lambda>x. x \<noteq> c) s) vs)"
| "scan (Str # fs) s vs = (let s = dropWhile white s in
     if s = [] then input_end vs
     else scan fs (dropWhile (\<lambda>c. \<not> white c) s) (vs @ [Text (takeWhile (\<lambda>c. \<not> white c) s)]))"
| "scan (Dec # fs) s vs = (let s = dropWhile white s in
     if s = [] then input_end vs
     else (case integer_at s of
       None \<Rightarrow> Some vs
     | Some (v, r) \<Rightarrow> scan fs r (vs @ [Num (to_long v)])))"
| "scan (Udec # fs) s vs = (let s = dropWhile white s in
     if s = [] then input_end vs
     else (case integer_at s of
       None \<Rightarrow> Some vs
     | Some (v, r) \<Rightarrow> scan fs r (vs @ [Num (to_ulong v)])))"

definition lits :: "string \<Rightarrow> conv list" where
  "lits s = map (\<lambda>c. Lit (uchar c)) s"

definition sscanf :: "u8 list \<Rightarrow> conv list \<Rightarrow> scanned list option" where
  "sscanf s fmt = scan fmt s []"

text \<open>\<open>sscanf(...) == 2\<close> with two integers, \<open>sscanf(...) == 1\<close> with an integer or a string.\<close>

fun two_nums :: "scanned list option \<Rightarrow> (int \<times> int) option" where
  "two_nums (Some [Num a, Num b]) = Some (a, b)"
| "two_nums _ = None"

fun one_num :: "scanned list option \<Rightarrow> int option" where
  "one_num (Some [Num a]) = Some a"
| "one_num _ = None"

fun one_text :: "scanned list option \<Rightarrow> u8 list option" where
  "one_text (Some [Text t]) = Some t"
| "one_text _ = None"

text \<open>The value of a signed 32-bit target.\<close>

definition as_int :: "int \<Rightarrow> int" where
  "as_int v = sint (word_of_int v :: u32)"

subsection \<open>Words and lines\<close>

fun get_next_word :: "u8 list \<Rightarrow> u8 list option" where
  "get_next_word [] = None"
| "get_next_word (c # s) =
    (if c = SP \<and> (case s of [] \<Rightarrow> True | d # _ \<Rightarrow> d \<noteq> SP) then Some s
     else if c = CR \<or> c = LF then None
     else get_next_word s)"

fun get_next_line :: "u8 list \<Rightarrow> u8 list option" where
  "get_next_line [] = None"
| "get_next_line (c # s) =
    (if take 4 (c # s) = [CR, LF, CR, LF] \<or> take 2 (c # s) = [CR, CR] \<or> take 2 (c # s) = [LF, LF] then None
     else if take 2 (c # s) = [CR, LF] then Some (tl s)
     else if c = CR \<or> c = LF then Some s
     else get_next_line s)"

definition get_word_sz :: "u8 list \<Rightarrow> nat" where
  "get_word_sz word = length (takeWhile (\<lambda>c. c \<noteq> SP \<and> c \<noteq> CR \<and> c \<noteq> LF) word)"

subsection \<open>Methods\<close>

definition rtsp_method_token :: "(rtsp_method \<times> string) list" where
  "rtsp_method_token = [
    (RTSP_METHOD_OPTIONS, ''OPTIONS''),
    (RTSP_METHOD_DESCRIBE, ''DESCRIBE''),
    (RTSP_METHOD_SETUP, ''SETUP''),
    (RTSP_METHOD_PLAY, ''PLAY''),
    (RTSP_METHOD_PAUSE, ''PAUSE''),
    (RTSP_METHOD_GET_PARAMETER, ''GET_PARAMETER''),
    (RTSP_METHOD_SET_PARAMETER, ''SET_PARAMETER''),
    (RTSP_METHOD_TEARDOWN, ''TEARDOWN'')]"

definition get_rtsp_method :: "u8 list \<Rightarrow> rtsp_method option" where
  "get_rtsp_method s = map_option fst (find (\<lambda>(meth, token). starts s token) rtsp_method_token)"

subsection \<open>The request line\<close>

abbreviation set_status :: "status_code \<Rightarrow> rtsp_resp \<Rightarrow> rtsp_resp" where
  "set_status c rs \<equiv> rs\<lparr>resp_status := c\<rparr>"

abbreviation upd_strm :: "(strm_info \<Rightarrow> strm_info) \<Rightarrow> rtsp_sess \<Rightarrow> rtsp_sess" where
  "upd_strm \<equiv> strm_info_update"

text \<open>The session, its request and its response; \<open>exists\<close> is \<open>access(file_name, F_OK) >= 0\<close>.\<close>

type_synonym parsing = "rtsp_sess \<times> rtsp_req \<times> rtsp_resp \<times> mem"

definition parse_rtsp_uri :: "(u8 list \<Rightarrow> bool) \<Rightarrow> u8 list \<Rightarrow> parsing \<Rightarrow> parsing" where
  "parse_rtsp_uri exists uri = (\<lambda>(s, rq, rs, m).
    if \<not> starts_nocase uri ''rtsp://'' then (s, rq, set_status NOT_FOUND rs, m)
    else if length uri \<ge> 256 then (s, rq, set_status REQUEST_URI_TOO_LARGE rs, m)
    else case two_nums (sscanf uri (lits ''rtsp://'' @ [Not_in 0x2F] @ lits ''/av'' @ [Dec] @ lits ''_'' @ [Dec])) of
      Some (chn, typ) \<Rightarrow>
        if as_int chn < 0 \<or> as_int chn \<ge> 8 \<or> as_int typ < 0 \<or> as_int typ > 1
        then (s, rq, set_status INVALID_RANGE rs, m)
        else (upd_strm (\<lambda>i. i\<lparr>chn_no := as_int chn,
                chn_type := (if as_int typ \<noteq> 0 then CHN_TYPE_MAIN else CHN_TYPE_MINOR)\<rparr>) s, rq, rs, m)
    | None \<Rightarrow> (case one_num (sscanf uri (lits ''rtsp://'' @ [Not_in 0x2F] @ lits ''/'' @ [Not_in 0x2F] @ lits ''/track'' @ [Dec])) of
      Some media \<Rightarrow>
        if as_int media < 0 \<or> as_int media > 1 then (s, rq, set_status INVALID_RANGE rs, m)
        else (s, rq\<lparr>req_media := (if as_int media \<noteq> 0 then MEDIA_TYPE_AUDIO else MEDIA_TYPE_VIDEO)\<rparr>, rs, m)
    | None \<Rightarrow> (case one_text (sscanf uri (lits ''rtsp://'' @ [Not_in 0x2F] @ lits ''/'' @ [Str])) of
      Some name \<Rightarrow>
        if \<not> exists name then (s, rq, set_status INVALID_RANGE rs, m)
        else let (name, m) = strndup name (length name) m in (upd_strm (\<lambda>i. i\<lparr>file_name := name\<rparr>) s, rq, rs, m)
    | None \<Rightarrow>
        if sscanf uri (lits ''rtsp://'' @ [Not_in 0x2F]) = Some []
        then (upd_strm (\<lambda>i. i\<lparr>chn_no := 0, chn_type := CHN_TYPE_MAIN\<rparr>) s, rq, rs, m)
        else (s, rq, set_status INVALID_RANGE rs, m))))"

text \<open>A copy of a word that could not be allocated is passed on as a NULL string.\<close>

definition parse_req_line :: "(u8 list \<Rightarrow> bool) \<Rightarrow> u8 list \<Rightarrow> parsing \<Rightarrow> parsing option" where
  "parse_req_line exists line = (\<lambda>(s, rq, rs, m).
    let rq = rq\<lparr>req_method := get_rtsp_method line\<rparr> in
    if req_method rq = None then Some (s, rq, set_status NOT_IMPLEMENTED rs, m)
    else case get_next_word line of
      None \<Rightarrow> Some (s\<lparr>handling_state := HANDLING_STATE_FAILED\<rparr>, rq, rs, m)
    | Some ptr \<Rightarrow> (case strndup ptr (get_word_sz ptr) m of
        (None, m) \<Rightarrow> None
      | (Some uri, m) \<Rightarrow> (case parse_rtsp_uri exists uri (s, rq\<lparr>req_uri := Some uri\<rparr>, rs, m) of (s, rq, rs, m) \<Rightarrow>
         (case get_next_word ptr of
           None \<Rightarrow> Some (s\<lparr>handling_state := HANDLING_STATE_FAILED\<rparr>, rq, rs, m)
         | Some ptr \<Rightarrow> (case strndup ptr (get_word_sz ptr) m of
             (None, m) \<Rightarrow> None
           | (Some ver, m) \<Rightarrow>
               Some (s, rq\<lparr>req_ver := Some ver\<rparr>,
                 if ver \<noteq> str ''RTSP/1.0'' then set_status VERSION_NOT_SUPPORTED rs else rs, m))))))"

subsection \<open>Header fields\<close>

fun set_cli_ports :: "scanned list \<Rightarrow> transport \<Rightarrow> transport" where
  "set_cli_ports [Num a] t = t\<lparr>t_rtp_cli_port := word_of_int a\<rparr>"
| "set_cli_ports [Num a, Num b] t = t\<lparr>t_rtp_cli_port := word_of_int a, t_rtcp_cli_port := word_of_int b\<rparr>"
| "set_cli_ports _ t = t"

fun set_chns :: "scanned list \<Rightarrow> transport \<Rightarrow> transport" where
  "set_chns [Num a] t = t\<lparr>t_rtp_chn := word_of_int a\<rparr>"
| "set_chns [Num a, Num b] t = t\<lparr>t_rtp_chn := word_of_int a, t_rtcp_chn := word_of_int b\<rparr>"
| "set_chns _ t = t"

definition assigned :: "scanned list option \<Rightarrow> scanned list" where
  "assigned r = (case r of None \<Rightarrow> [] | Some vs \<Rightarrow> vs)"

text \<open>One round of the loop over the parameters: the return value of an early return, or \<open>None\<close>.\<close>

definition transport_param :: "u8 list \<Rightarrow> rtsp_sess \<times> rtsp_req \<Rightarrow> int option \<times> rtsp_sess \<times> rtsp_req" where
  "transport_param ptr = (\<lambda>(s, rq).
    if starts ptr ''RTP/AVP/TCP'' then (None, s\<lparr>intlvd_mode := True\<rparr>, rq)
    else if starts ptr ''RTP/AVP/UDP'' \<or> starts ptr ''RTP/AVP'' then (None, s\<lparr>intlvd_mode := False\<rparr>, rq)
    else if starts ptr ''unicast'' then (None, s, rq)
    else if starts ptr ''mode'' then (None, s, rq)
    else if starts ptr ''client_port'' then
      (let vs = assigned (sscanf ptr (lits ''client_port='' @ [Udec] @ lits ''-'' @ [Udec]));
           rq = rq\<lparr>req_transport := set_cli_ports vs (req_transport rq)\<rparr>
       in (if length vs \<noteq> 2 then Some (- 1) else None, s, rq))
    else if starts ptr ''interleaved'' then
      (let vs = assigned (sscanf ptr (lits ''interleaved='' @ [Dec] @ lits ''-'' @ [Dec]));
           rq = rq\<lparr>req_transport := set_chns vs (req_transport rq)\<rparr>
       in (if length vs \<noteq> 2 then Some (- 1) else None, s, rq))
    else (None, s, rq))"

lemma strpbrk_le: "strpbrk s a = Some r \<Longrightarrow> length r \<le> length s"
  by (auto simp: strpbrk_def split: list.splits) (metis length_dropWhile_le length_Cons)

lemma strpbrk_hd: "strpbrk s a = Some r \<Longrightarrow> r \<noteq> [] \<and> hd r \<in> set a"
  by (auto simp: strpbrk_def split: list.splits) (metis hd_dropWhile list.discI list.sel(1))

lemma separators_shorter:
  assumes "strpbrk s (str '';'' @ [CR, LF]) = Some p" "q = dropWhile (\<lambda>c. c = 0x3B) p"
    "q \<noteq> []" "hd q \<noteq> CR" "hd q \<noteq> LF"
  shows "length q < length s"
proof -
  have semi: "str '';'' = [0x3B]" by (simp add: str_def uchar_def)
  obtain x p' where p: "p = x # p'" "x = 0x3B \<or> x = CR \<or> x = LF"
    using strpbrk_hd[OF assms(1)] by (cases p) (auto simp: semi)
  then have "x = 0x3B" using assms(2,4,5) by auto
  then have "length q \<le> length p'" by (simp add: assms(2) p(1) length_dropWhile_le)
  then show ?thesis using strpbrk_le[OF assms(1)] p(1) by simp
qed

function transport_loop :: "u8 list \<Rightarrow> rtsp_sess \<times> rtsp_req \<Rightarrow> (int \<times> rtsp_sess \<times> rtsp_req) option" where
  "transport_loop ptr st =
    (if ptr = [] then Some (0, st)
     else case transport_param ptr st of
       (Some r, st) \<Rightarrow> Some (r, st)
     | (None, st) \<Rightarrow> (case strpbrk ptr (str '';'' @ [CR, LF]) of
         None \<Rightarrow> None
       | Some ptr \<Rightarrow> (let ptr = dropWhile (\<lambda>c. c = 0x3B) ptr in
           if ptr = [] \<or> hd ptr = CR \<or> hd ptr = LF then Some (0, st)
           else transport_loop ptr st)))"
  by pat_completeness auto
termination
  by (relation "measure (\<lambda>(ptr, st). length ptr)") (auto intro: separators_shorter)

declare transport_loop.simps [simp del]

definition parse_hdr_transport :: "u8 list \<Rightarrow> rtsp_sess \<times> rtsp_req \<Rightarrow> (int \<times> rtsp_sess \<times> rtsp_req) option" where
  "parse_hdr_transport line st =
    (if \<not> starts line ''Transport: '' then Some (- 1, st)
     else transport_loop (drop 11 line) st)"

lemma get_next_line_less: "get_next_line s = Some r \<Longrightarrow> length r < length s"
proof (induction s)
  case (Cons c s)
  then show ?case by (cases s) (auto split: if_splits)
qed simp

text \<open>One round of the loop over the lines. The result says whether the loop goes on, and \<open>cseq_found\<close>;
  \<open>known\<close> is \<open>rtsp_sess_id_exist\<close>.\<close>

type_synonym headers = "rtsp_sess \<times> rtsp_req \<times> rtsp_resp \<times> bool"

definition parse_hdr :: "(u64 \<Rightarrow> bool) \<Rightarrow> u8 list \<Rightarrow> headers \<Rightarrow> (bool \<times> headers) option" where
  "parse_hdr known line = (\<lambda>(s, rq, rs, cseq_found).
    if starts line ''CSeq'' then
      (case one_num (sscanf line (lits ''CSeq:'' @ [White, Dec])) of
        Some v \<Rightarrow> (let rq = rq\<lparr>req_cseq := word_of_int v\<rparr> in
          Some (True, s, rq, rs\<lparr>resp_cseq := req_cseq rq\<rparr>, True))
      | None \<Rightarrow> Some (False, s, rq, set_status INTERNAL_SERVER_ERROR rs, cseq_found))
    else if starts line ''Session'' then
      (case one_num (sscanf line (lits ''Session:'' @ [White, Udec])) of
        Some v \<Rightarrow> (let rq = rq\<lparr>req_sess_id := word_of_int v\<rparr> in
          if known (req_sess_id rq) then Some (True, s, rq, rs\<lparr>resp_sess_id := req_sess_id rq\<rparr>, cseq_found)
          else Some (False, s, rq, set_status SESSION_NOT_FOUND (rs\<lparr>resp_sess_id := 0\<rparr>), cseq_found))
      | None \<Rightarrow> Some (False, s, rq, set_status INTERNAL_SERVER_ERROR rs, cseq_found))
    else if starts line ''User-Agent'' then Some (True, s, rq, rs, cseq_found)
    else if starts line ''Transport'' then do {
      (r, s, rq) \<leftarrow> parse_hdr_transport line (s, rq);
      if r < 0 then Some (False, s, rq, set_status INTERNAL_SERVER_ERROR rs, cseq_found)
      else Some (True, s, rq, rs, cseq_found) }
    else Some (True, s, rq, rs, cseq_found))"

function hdr_loop :: "(u64 \<Rightarrow> bool) \<Rightarrow> u8 list \<Rightarrow> headers \<Rightarrow> headers option" where
  "hdr_loop known line st = (case parse_hdr known line st of
     None \<Rightarrow> None
   | Some (False, st) \<Rightarrow> Some st
   | Some (True, st) \<Rightarrow> (case get_next_line line of
       None \<Rightarrow> Some st
     | Some line \<Rightarrow> hdr_loop known line st))"
  by pat_completeness auto
termination
  by (relation "measure (\<lambda>(known, line, st). length line)") (auto dest: get_next_line_less)

declare hdr_loop.simps [simp del]

definition parse_req_hdrs :: "(u64 \<Rightarrow> bool) \<Rightarrow> u8 list \<Rightarrow> rtsp_sess \<times> rtsp_req \<times> rtsp_resp \<Rightarrow>
    (rtsp_sess \<times> rtsp_req \<times> rtsp_resp) option" where
  "parse_req_hdrs known line = (\<lambda>(s, rq, rs). do {
     (s, rq, rs, cseq_found) \<leftarrow> hdr_loop known line (s, rq, rs, False);
     Some (s, rq, if \<not> cseq_found then set_status INTERNAL_SERVER_ERROR rs else rs) })"

subsection \<open>The request\<close>

definition parse_rtsp_req :: "(u8 list \<Rightarrow> bool) \<Rightarrow> (u64 \<Rightarrow> bool) \<Rightarrow> rtsp_sess \<Rightarrow> mem \<Rightarrow> (rtsp_sess \<times> mem) option" where
  "parse_rtsp_req exists known s m =
    (if handling_state s \<noteq> HANDLING_STATE_READY then Some (s, m)
     else do {
       rq \<leftarrow> req s;
       rs \<leftarrow> resp s;
       line \<leftarrow> c_str (recv_buf s);
       let (ver, m) = strndup (str ''RTSP/1.0'') 8 m;
       let (server, m) = strndup (str ''Zmodo-RTSP-Server'') 17 m;
       let rs = rs\<lparr>resp_ver := ver, resp_server := server, resp_cseq := req_cseq rq, resp_sess_id := req_sess_id rq\<rparr>;
       (s, rq, rs, m) \<leftarrow> parse_req_line exists line (s, rq, rs, m);
       (s, rq, rs) \<leftarrow> (case get_next_line line of
           Some line \<Rightarrow> parse_req_hdrs known line (s, rq, rs)
         | None \<Rightarrow> Some (s, rq, rs));
       let s = s\<lparr>req := Some rq, resp := Some rs\<rparr>;
       Some (if handling_state s \<noteq> HANDLING_STATE_FAILED
             then s\<lparr>handling_state := (if resp_status rs = OK then HANDLING_STATE_PARSED else HANDLING_STATE_ERROR)\<rparr>
             else s, m) })"

end
