(* ===== verification/Rtsp_Parser_Correct.thy ===== *)
theory Rtsp_Parser_Correct
  imports Rtsp_Parser
begin

text \<open>
  The request parser. First its safety on arbitrary input that ends in a line break; then requests
  as a client writes them (\<open>request\<close>, a list of \<open>hdr_line\<close> for the header): scanning printed
  text gives back what was printed (\<open>scan_lits\<close>, \<open>scan_Dec\<close>), each line has its effect
  (\<open>parse_hdr_line\<close>), and the parser composes them. At the end, requests that the code misreads.
\<close>

subsection \<open>Every request that ends in a line break is parsed\<close>

definition ended :: "u8 list \<Rightarrow> bool" where
  "ended s \<longleftrightarrow> s \<noteq> [] \<longrightarrow> last s = CR \<or> last s = LF"

lemma ended_Cons: "ended (c # s) \<Longrightarrow> ended s"
  by (auto simp: ended_def split: if_splits)

lemma ended_drop: "ended s \<Longrightarrow> ended (drop n s)"
  by (auto simp: ended_def)

lemma ended_dropWhile: "ended s \<Longrightarrow> ended (dropWhile P s)"
  by (simp add: dropWhile_eq_drop ended_drop)

lemma ended_tl: "ended s \<Longrightarrow> ended (tl s)"
  by (cases s) (auto dest: ended_Cons)

lemma get_next_line_ended: "get_next_line s = Some r \<Longrightarrow> ended s \<Longrightarrow> ended r"
proof (induction s)
  case (Cons c s)
  then show ?case by (auto dest: ended_Cons ended_tl split: if_splits)
qed simp

lemma semicolon: "str '';'' = [0x3B]"
  by (simp add: str_def uchar_def)

lemma strpbrk_ended:
  assumes "ended s" "s \<noteq> []"
  obtains p where "strpbrk s (str '';'' @ [CR, LF]) = Some p" "ended p"
    "dropWhile (\<lambda>c. c = 0x3B) p \<noteq> []"
proof -
  let ?p = "dropWhile (\<lambda>c. c \<notin> set (str '';'' @ [CR, LF])) s"
  have l: "last s \<in> set s" "last s = CR \<or> last s = LF" using assms by (simp_all add: ended_def)
  then have ne: "?p \<noteq> []" by (auto simp: dropWhile_eq_Nil_conv)
  then have "last ?p = last s" by (simp add: dropWhile_eq_drop last_drop)
  then have "last ?p \<in> set ?p" "last ?p \<noteq> 0x3B" using last_in_set[OF ne] l(2) by force+
  then have "dropWhile (\<lambda>c. c = 0x3B) ?p \<noteq> []" unfolding dropWhile_eq_Nil_conv by blast
  moreover have "strpbrk s (str '';'' @ [CR, LF]) = Some ?p"
    using ne by (simp add: strpbrk_def split: list.split)
  ultimately show thesis using that ended_dropWhile[OF assms(1)] by blast
qed

lemma transport_loop_total: "ended ptr \<Longrightarrow> \<exists>r. transport_loop ptr st = Some r"
proof (induction ptr st rule: transport_loop.induct)
  case (1 ptr st)
  show ?case
  proof (cases "ptr = []")
    case False
    obtain res st' where par: "transport_param ptr st = (res, st')" by (cases "transport_param ptr st")
    obtain p where p: "strpbrk ptr (str '';'' @ [CR, LF]) = Some p" "ended p"
      using strpbrk_ended[OF 1(2) False] by metis
    have "\<exists>r. transport_loop (dropWhile (\<lambda>c. c = 0x3B) p) st' = Some r"
      if "res = None" "\<not> (dropWhile (\<lambda>c. c = 0x3B) p = [] \<or> hd (dropWhile (\<lambda>c. c = 0x3B) p) = CR \<or> hd (dropWhile (\<lambda>c. c = 0x3B) p) = LF)"
      using 1(1)[OF False par[symmetric] that(1) p(1) refl that(2) ended_dropWhile[OF p(2)]] .
    then show ?thesis
      using False par p(1) by (subst transport_loop.simps) (auto simp: Let_def split: option.split)
  qed (simp add: transport_loop.simps)
qed

lemma parse_hdr_total: "ended line \<Longrightarrow> \<exists>r. parse_hdr known line st = Some r"
proof -
  assume "ended line"
  then have tr: "\<exists>r. parse_hdr_transport line x = Some r" for x
    using transport_loop_total[OF ended_drop] by (auto simp: parse_hdr_transport_def)
  obtain s rq rs f where st: "st = (s, rq, rs, f)" by (cases st)
  obtain r s' rq' where "parse_hdr_transport line (s, rq) = Some (r, s', rq')" using tr[of "(s, rq)"] by auto
  then show ?thesis
    by (auto simp: st parse_hdr_def Let_def split: option.split)
qed

lemma hdr_loop_total: "ended line \<Longrightarrow> \<exists>r. hdr_loop known line st = Some r"
proof (induction known line st rule: hdr_loop.induct)
  case (1 known line st)
  obtain go st' where p: "parse_hdr known line st = Some (go, st')"
    using parse_hdr_total[OF 1(2), of known st] by auto
  show ?case
  proof (cases "get_next_line line")
    case (Some r)
    then have "go \<Longrightarrow> \<exists>x. hdr_loop known r st' = Some x"
      using 1(1)[OF p[unfolded prod.case] refl _ Some] get_next_line_ended[OF Some 1(2)] by auto
    then show ?thesis using p Some by (subst hdr_loop.simps) (cases go; cases st'; auto)
  qed (use p in \<open>subst hdr_loop.simps, cases go; cases st'; simp\<close>)
qed


subsection \<open>The handling state while parsing\<close>

lemma parse_rtsp_uri_frame:
  assumes "parse_rtsp_uri exists uri (s, rq, rs, m) = (s', rq', rs', m')"
  shows "handling_state s' = handling_state s" "mem_ok m \<Longrightarrow> mem_ok m'"
  using assms
  by (auto simp: parse_rtsp_uri_def strndup_def mem_ok_tl split: if_splits option.splits prod.splits)

lemma parse_req_line_total:
  assumes "mem_ok m"
  shows "\<exists>s' rq' rs' m'. parse_req_line exists line (s, rq, rs, m) = Some (s', rq', rs', m') \<and> mem_ok m' \<and>
    (handling_state s' = handling_state s \<or> handling_state s' = HANDLING_STATE_FAILED)"
proof (cases "get_rtsp_method line = None \<or> get_next_word line = None")
  case False
  then obtain meth ptr where ptr: "get_rtsp_method line = Some meth" "get_next_word line = Some ptr" by auto
  let ?uri = "take (get_word_sz ptr) ptr"
  obtain s' rq' rs' m' where uri: "parse_rtsp_uri exists ?uri (s, rq\<lparr>req_method := Some meth, req_uri := Some ?uri\<rparr>, rs, tl m) = (s', rq', rs', m')"
    by (metis prod.exhaust)
  have "handling_state s' = handling_state s" "mem_ok m'"
    using parse_rtsp_uri_frame[OF uri] assms by (simp_all add: mem_ok_tl)
  then show ?thesis
    using assms ptr uri by (auto simp: parse_req_line_def strndup_def mem_ok_tl Let_def split: option.split)
qed (use assms in \<open>auto simp: parse_req_line_def Let_def\<close>)

lemma transport_param_frame:
  "transport_param ptr (s, rq) = (r, s', rq') \<Longrightarrow> handling_state s' = handling_state s"
  by (auto simp: transport_param_def Let_def split: if_splits)

lemma transport_loop_frame:
  "transport_loop ptr (s, rq) = Some (r, s', rq') \<Longrightarrow> handling_state s' = handling_state s"
proof (induction ptr "(s, rq)" arbitrary: s rq rule: transport_loop.induct)
  case (1 ptr)
  obtain res s1 rq1 where par: "transport_param ptr (s, rq) = (res, s1, rq1)" by (cases "transport_param ptr (s, rq)")
  note keep = transport_param_frame[OF par]
  note step = 1(2)[unfolded transport_loop.simps[of ptr "(s, rq)"]]
  show ?case
  proof (cases "ptr = [] \<or> res \<noteq> None")
    case False
    then obtain p where p: "strpbrk ptr (str '';'' @ [CR, LF]) = Some p"
      using step par by (auto split: option.splits)
    show ?thesis
      using step False par p keep 1(1)[OF _ par[symmetric] _ p refl] by (auto simp: Let_def split: if_splits)
  qed (use step par keep in \<open>auto split: if_splits\<close>)
qed

lemma parse_hdr_frame:
  "parse_hdr known line (s, rq, rs, f) = Some (go, s', rq', rs', f') \<Longrightarrow> handling_state s' = handling_state s"
  by (auto simp: parse_hdr_def parse_hdr_transport_def Let_def bind_eq_Some_conv
      split: if_splits option.splits dest: transport_loop_frame)

lemma hdr_loop_frame:
  "hdr_loop known line (s, rq, rs, f) = Some (s', rq', rs', f') \<Longrightarrow> handling_state s' = handling_state s"
proof (induction known line "(s, rq, rs, f)" arbitrary: s rq rs f rule: hdr_loop.induct)
  case (1 known line)
  note step = 1(2)[unfolded hdr_loop.simps[of known line "(s, rq, rs, f)"]]
  obtain go s1 rq1 rs1 f1 where p: "parse_hdr known line (s, rq, rs, f) = Some (go, s1, rq1, rs1, f1)"
    using step by (cases "parse_hdr known line (s, rq, rs, f)") (simp_all, metis prod.exhaust)
  show ?case
    using step p parse_hdr_frame[OF p] 1(1)[OF p refl] by (cases go) (auto split: option.splits)
qed

text \<open>C28: Parsing is safe when the allocations succeed: a request whose text ends in a line break is parsed
  without reading through a NULL pointer, whatever else the buffer holds (a copy that \<open>strndup\<close> could not
  allocate is passed on unchecked and has no result); the handling state afterwards is PARSED,
  ERROR or FAILED, and PARSED exactly for the status 200.\<close>

theorem parse_rtsp_req_safe:
  assumes "c_str (recv_buf s) = Some msg" "ended msg" "handling_state s = HANDLING_STATE_READY" "req s \<noteq> None"
    "resp s \<noteq> None" "mem_ok m"
  shows "\<exists>s' m' rs'. parse_rtsp_req exists known s m = Some (s', m') \<and> resp s' = Some rs' \<and> req s' \<noteq> None \<and>
    (handling_state s' = HANDLING_STATE_PARSED \<and> resp_status rs' = OK \<or>
     handling_state s' = HANDLING_STATE_ERROR \<and> resp_status rs' \<noteq> OK \<or>
     handling_state s' = HANDLING_STATE_FAILED)"
proof -
  obtain rq rs where rq: "req s = Some rq" "resp s = Some rs" using assms(4,5) by auto
  let ?rs = "rs\<lparr>resp_ver := Some (str ''RTSP/1.0''), resp_server := Some (str ''Zmodo-RTSP-Server''),
    resp_cseq := req_cseq rq, resp_sess_id := req_sess_id rq\<rparr>"
  have ok: "mem_ok (tl (tl m))" using assms(6) by (simp add: mem_ok_tl)
  obtain s1 rq1 rs1 m1 where line: "parse_req_line exists msg (s, rq, ?rs, tl (tl m)) = Some (s1, rq1, rs1, m1)"
    and st: "handling_state s1 = HANDLING_STATE_READY \<or> handling_state s1 = HANDLING_STATE_FAILED"
    using parse_req_line_total[OF ok, of exists msg s rq ?rs] assms(3) by auto
  have "\<exists>s2 rq2 rs2. (case get_next_line msg of
        Some line \<Rightarrow> parse_req_hdrs known line (s1, rq1, rs1) | None \<Rightarrow> Some (s1, rq1, rs1)) = Some (s2, rq2, rs2) \<and>
      handling_state s2 = handling_state s1"
  proof (cases "get_next_line msg")
    case (Some l)
    obtain s2 rq2 rs2 f2 where "hdr_loop known l (s1, rq1, rs1, False) = Some (s2, rq2, rs2, f2)"
      using hdr_loop_total[OF get_next_line_ended[OF Some assms(2)], of known "(s1, rq1, rs1, False)"] by auto
    then show ?thesis using Some hdr_loop_frame by (auto simp: parse_req_hdrs_def)
  qed simp
  then obtain s2 rq2 rs2 where hdrs: "(case get_next_line msg of
        Some line \<Rightarrow> parse_req_hdrs known line (s1, rq1, rs1) | None \<Rightarrow> Some (s1, rq1, rs1)) = Some (s2, rq2, rs2)"
      "handling_state s2 = handling_state s1" by blast
  have copy: "strndup (str ''RTSP/1.0'') 8 m = (Some (str ''RTSP/1.0''), tl m)"
    "strndup (str ''Zmodo-RTSP-Server'') 17 (tl m) = (Some (str ''Zmodo-RTSP-Server''), tl (tl m))"
    using assms(6) by (simp_all add: strndup_def mem_ok_tl str_def)
  have "parse_rtsp_req exists known s m = Some (if handling_state s2 \<noteq> HANDLING_STATE_FAILED
      then s2\<lparr>req := Some rq2, resp := Some rs2, handling_state := (if resp_status rs2 = OK then HANDLING_STATE_PARSED else HANDLING_STATE_ERROR)\<rparr>
      else s2\<lparr>req := Some rq2, resp := Some rs2\<rparr>, m1)"
    using assms(1,3) by (simp add: parse_rtsp_req_def rq copy line hdrs(1) Let_def)
  then show ?thesis using st hdrs(2) by auto
qed

subsection \<open>Scanning what has been printed\<close>

lemma digit_of: "k < 10 \<Longrightarrow> digit (0x30 + of_nat k) \<and> uint (0x30 + of_nat k :: u8) - 0x30 = int k"
proof -
  assume "k < 10"
  then have "k \<in> set [0, 1, 2, 3, 4, 5, 6, 7, 8, 9]" by auto
  then show ?thesis by (auto simp: digit_def)
qed

lemma number_append: "number (ds @ [c]) = 10 * number ds + (uint c - 0x30)"
  by (simp add: number_def)

lemma dec_digits: "dec n \<noteq> [] \<and> (\<forall>c \<in> set (dec n). digit c) \<and> number (dec n) = int n"
proof (induction n rule: dec.induct)
  case (1 n)
  show ?case
  proof (cases "n < 10")
    case True
    then show ?thesis using digit_of[of n] by (subst (1 2 3) dec.simps) (simp add: number_def)
  next
    case False
    then have "dec (n div 10) \<noteq> [] \<and> (\<forall>c \<in> set (dec (n div 10)). digit c) \<and> number (dec (n div 10)) = int (n div 10)"
      by (rule 1)
    moreover have "n mod 10 < 10" by simp
    moreover have "10 * int (n div 10) + int (n mod 10) = int n" using mult_div_mod_eq[of 10 n] by linarith
    ultimately show ?thesis
      using False digit_of[of "n mod 10"] by (subst (1 2 3) dec.simps) (auto simp: number_append)
  qed
qed

lemma digit_facts: "digit c \<Longrightarrow> c \<noteq> 0x2B \<and> c \<noteq> 0x2D \<and> \<not> white c \<and> c \<noteq> SP \<and> c \<noteq> CR \<and> c \<noteq> LF \<and> c \<noteq> 0x2F \<and> c \<noteq> 0x3B"
  by (auto simp: digit_def white_def)

definition no_digit :: "u8 list \<Rightarrow> bool" where
  "no_digit r \<longleftrightarrow> (r \<noteq> [] \<longrightarrow> \<not> digit (hd r))"

lemma no_digit_Cons [simp]: "no_digit (c # r) = (\<not> digit c)" "no_digit []"
  by (simp_all add: no_digit_def)

lemma takeWhile_run:
  assumes "\<forall>c \<in> set w. P c" "r \<noteq> [] \<longrightarrow> \<not> P (hd r)"
  shows "takeWhile P (w @ r) = w" "dropWhile P (w @ r) = r"
proof -
  have "takeWhile P r = []" "dropWhile P r = r" using assms(2) by (cases r; simp)+
  then show "takeWhile P (w @ r) = w" "dropWhile P (w @ r) = r"
    using assms(1) by (simp_all add: takeWhile_append2 dropWhile_append2)
qed

lemma integer_at_dec: "no_digit r \<Longrightarrow> integer_at (dec n @ r) = Some (int n, r)"
proof -
  assume r: "no_digit r"
  obtain c d where d: "dec n = c # d" "digit c" using dec_digits[of n] by (cases "dec n") auto
  have "takeWhile digit (dec n @ r) = dec n" "dropWhile digit (dec n @ r) = r"
    using dec_digits[of n] r by (intro takeWhile_run; simp add: no_digit_def)+
  moreover have "\<not> (dec n @ r \<noteq> [] \<and> hd (dec n @ r) \<in> set [0x2B, 0x2D])" using d digit_facts by auto
  ultimately show ?thesis
    using dec_digits[of n] unfolding integer_at_def Let_def by simp
qed

lemma white_dec: "dropWhile white (dec n @ r) = dec n @ r" "dec n \<noteq> []"
  using dec_digits[of n] digit_facts by (cases "dec n"; simp)+

lemma scan_lits: "scan (lits t @ fs) (str t @ r) vs = scan fs r vs"
  by (induction t) (simp_all add: lits_def str_def)

lemma scan_lits_mismatch:
  "length t \<le> length s \<Longrightarrow> take (length t) s \<noteq> str t \<Longrightarrow> scan (lits t @ fs) s vs = Some vs"
proof (induction t arbitrary: s)
  case (Cons c t)
  then obtain x s' where s: "s = x # s'" by (cases s) auto
  show ?case
  proof (cases "x = uchar c")
    case True
    then show ?thesis using Cons s by (simp add: lits_def str_def)
  qed (simp add: s lits_def)
qed (simp add: str_def)

lemma scan_Dec: "no_digit r \<Longrightarrow> n < 2 ^ 63 \<Longrightarrow> scan (Dec # fs) (dec n @ r) vs = scan fs r (vs @ [Num (int n)])"
  using white_dec(1)[of n r] white_dec(2)[of n] by (simp add: integer_at_dec to_long_def Let_def)

lemma scan_Udec: "no_digit r \<Longrightarrow> n < 2 ^ 64 \<Longrightarrow> scan (Udec # fs) (dec n @ r) vs = scan fs r (vs @ [Num (int n)])"
  using white_dec(1)[of n r] white_dec(2)[of n] by (simp add: integer_at_dec to_ulong_def Let_def)

lemma scan_White: "scan (White # fs) (SP # dec n @ r) vs = scan fs (dec n @ r) vs"
  using white_dec(1)[of n r] white_dec(2)[of n] by (simp add: white_def)

lemma scan_Not_in:
  assumes "w \<noteq> []" "c \<notin> set w" "r \<noteq> [] \<longrightarrow> hd r = c"
  shows "scan (Not_in c # fs) (w @ r) vs = scan fs r vs"
proof -
  have "dropWhile (\<lambda>x. x \<noteq> c) (w @ r) = r" using assms by (intro takeWhile_run) auto
  moreover have "hd (w @ r) \<noteq> c" using assms(1,2) by (cases w) auto
  ultimately show ?thesis using assms(1) by simp
qed

subsection \<open>Words and lines\<close>

definition word_ok :: "u8 list \<Rightarrow> bool" where
  "word_ok w \<longleftrightarrow> (\<forall>c \<in> set w. c \<noteq> SP \<and> c \<noteq> CR \<and> c \<noteq> LF)"

definition line_ok :: "u8 list \<Rightarrow> bool" where
  "line_ok w \<longleftrightarrow> (\<forall>c \<in> set w. c \<noteq> CR \<and> c \<noteq> LF)"

lemma line_ok_simps [simp]: "line_ok []" "line_ok (c # w) = (c \<noteq> CR \<and> c \<noteq> LF \<and> line_ok w)"
  "line_ok (v @ w) = (line_ok v \<and> line_ok w)"
  by (auto simp: line_ok_def)

lemma word_ok_simps [simp]: "word_ok []" "word_ok (c # w) = (c \<noteq> SP \<and> c \<noteq> CR \<and> c \<noteq> LF \<and> word_ok w)"
  "word_ok (v @ w) = (word_ok v \<and> word_ok w)"
  by (auto simp: word_ok_def)

lemma word_line: "word_ok w \<Longrightarrow> line_ok w"
  by (auto simp: word_ok_def line_ok_def)

lemma dec_ok [simp]: "word_ok (dec n)" "line_ok (dec n)"
  using dec_digits[of n] digit_facts by (auto simp: word_ok_def line_ok_def)

lemma get_next_word_skip:
  "word_ok w \<Longrightarrow> r \<noteq> [] \<Longrightarrow> hd r \<noteq> SP \<Longrightarrow> get_next_word (w @ SP # r) = Some r"
proof (induction w)
  case Nil
  then show ?case by (cases r) simp_all
qed simp

lemma get_word_sz_word: "word_ok w \<Longrightarrow> r \<noteq> [] \<Longrightarrow> hd r \<in> {SP, CR, LF} \<Longrightarrow> get_word_sz (w @ r) = length w"
  using takeWhile_run(1)[of w "\<lambda>c. c \<noteq> SP \<and> c \<noteq> CR \<and> c \<noteq> LF" r] unfolding get_word_sz_def word_ok_def by auto

text \<open>\<open>lines r\<close>: the rest of the message behind a line break.\<close>

lemma get_next_line_skip:
  "line_ok l \<Longrightarrow> take 2 r \<noteq> [CR, LF] \<Longrightarrow> get_next_line (l @ CR # LF # r) = Some r"
  by (induction l) auto

lemma get_next_line_last: "line_ok l \<Longrightarrow> get_next_line (l @ CR # LF # CR # LF # r) = None"
  by (induction l) auto

lemma str_append: "str (s @ t) = str s @ str t"
  by (simp add: str_def)

lemma starts_same: "starts (str t @ r) t"
  by (simp add: starts_def str_def)

subsection \<open>Requests as a client writes them\<close>

datatype hdr_line = Cseq nat | Sess nat | Over_tcp nat nat | Over_udp nat nat | Other "u8 list"

fun hdr_text :: "hdr_line \<Rightarrow> u8 list" where
  "hdr_text (Cseq n) = str ''CSeq: '' @ dec n"
| "hdr_text (Sess i) = str ''Session: '' @ dec i"
| "hdr_text (Over_tcp a b) = str ''Transport: RTP/AVP/TCP;unicast;interleaved='' @ dec a @ str ''-'' @ dec b"
| "hdr_text (Over_udp a b) = str ''Transport: RTP/AVP;unicast;client_port='' @ dec a @ str ''-'' @ dec b"
| "hdr_text (Other t) = t"

fun hdr_line_ok :: "(u64 \<Rightarrow> bool) \<Rightarrow> hdr_line \<Rightarrow> bool" where
  "hdr_line_ok known (Cseq n) \<longleftrightarrow> n < 2 ^ 32"
| "hdr_line_ok known (Sess i) \<longleftrightarrow> i < 2 ^ 64 \<and> known (of_nat i)"
| "hdr_line_ok known (Over_tcp a b) \<longleftrightarrow> a < 2 ^ 8 \<and> b < 2 ^ 8"
| "hdr_line_ok known (Over_udp a b) \<longleftrightarrow> a < 2 ^ 16 \<and> b < 2 ^ 16"
| "hdr_line_ok known (Other t) \<longleftrightarrow> line_ok t \<and> 0 \<notin> set t \<and> t \<noteq> [] \<and> hd t \<noteq> uchar (CHR ''C'') \<and> hd t \<noteq> uchar (CHR ''S'') \<and>
     hd t \<noteq> uchar (CHR ''T'')"

text \<open>What a line tells the server.\<close>

fun hdr_effect :: "hdr_line \<Rightarrow> headers \<Rightarrow> headers" where
  "hdr_effect (Cseq n) (s, rq, rs, f) = (s, rq\<lparr>req_cseq := of_nat n\<rparr>, rs\<lparr>resp_cseq := of_nat n\<rparr>, True)"
| "hdr_effect (Sess i) (s, rq, rs, f) = (s, rq\<lparr>req_sess_id := of_nat i\<rparr>, rs\<lparr>resp_sess_id := of_nat i\<rparr>, f)"
| "hdr_effect (Over_tcp a b) (s, rq, rs, f) =
    (s\<lparr>intlvd_mode := True\<rparr>, rq\<lparr>req_transport := (req_transport rq)\<lparr>t_rtp_chn := of_nat a, t_rtcp_chn := of_nat b\<rparr>\<rparr>, rs, f)"
| "hdr_effect (Over_udp a b) (s, rq, rs, f) =
    (s\<lparr>intlvd_mode := False\<rparr>,
     rq\<lparr>req_transport := (req_transport rq)\<lparr>t_rtp_cli_port := of_nat a, t_rtcp_cli_port := of_nat b\<rparr>\<rparr>, rs, f)"
| "hdr_effect (Other t) st = st"

definition lines_of :: "hdr_line list \<Rightarrow> u8 list" where
  "lines_of hs = concat (map (\<lambda>h. hdr_text h @ [CR, LF]) hs)"

definition token :: "rtsp_method \<Rightarrow> string" where
  "token meth = the (map_of rtsp_method_token meth)"

definition channel_uri :: "u8 list \<Rightarrow> nat \<Rightarrow> nat \<Rightarrow> u8 list" where
  "channel_uri host c t = str ''rtsp://'' @ host @ str ''/av'' @ dec c @ str ''_'' @ dec t"

definition request :: "rtsp_method \<Rightarrow> u8 list \<Rightarrow> hdr_line list \<Rightarrow> u8 list" where
  "request meth uri hs = str (token meth) @ SP # uri @ SP # str ''RTSP/1.0'' @ CR # LF # lines_of hs @ [CR, LF]"

subsection \<open>Line by line\<close>

lemma starts_append: "starts (str t @ r) u \<longleftrightarrow> starts (str t) u" if "length u \<le> length t"
  using that by (simp add: starts_def str_def)

lemmas literal_defs = starts_def str_def uchar_def

lemma not_digit [simp]: "\<not> digit 0x0D" "\<not> digit 0x20"
  by (simp_all add: digit_def)

lemma no_digit_lits [simp]: "no_digit (str ''-'' @ r)" "no_digit (str ''_'' @ r)" "no_digit (CR # r)"
  by (simp_all add: str_def uchar_def digit_def)

lemma str_split: "str (s @ t) = str s @ str t" for s t
  by (simp add: str_def)

lemma parse_hdr_cseq:
  "n < 2 ^ 32 \<Longrightarrow> parse_hdr known (str ''CSeq: '' @ dec n @ CR # r) (s, rq, rs, f)
    = Some (True, s, rq\<lparr>req_cseq := of_nat n\<rparr>, rs\<lparr>resp_cseq := of_nat n\<rparr>, True)"
proof -
  assume "n < 2 ^ 32"
  have split: "str ''CSeq: '' @ x = str ''CSeq:'' @ SP # x" for x by (simp add: str_def uchar_def)
  have "sscanf (str ''CSeq: '' @ dec n @ CR # r) (lits ''CSeq:'' @ [White, Dec]) = Some [Num (int n)]"
    using \<open>n < 2 ^ 32\<close> unfolding sscanf_def split scan_lits by (simp only: scan_White, subst scan_Dec) (simp_all add: digit_def)
  then show ?thesis by (simp add: parse_hdr_def literal_defs)
qed

lemma parse_hdr_sess:
  "i < 2 ^ 64 \<Longrightarrow> known (of_nat i) \<Longrightarrow> parse_hdr known (str ''Session: '' @ dec i @ CR # r) (s, rq, rs, f)
    = Some (True, s, rq\<lparr>req_sess_id := of_nat i\<rparr>, rs\<lparr>resp_sess_id := of_nat i\<rparr>, f)"
proof -
  assume "i < 2 ^ 64" "known (of_nat i)"
  have split: "str ''Session: '' @ x = str ''Session:'' @ SP # x" for x by (simp add: str_def uchar_def)
  have "sscanf (str ''Session: '' @ dec i @ CR # r) (lits ''Session:'' @ [White, Udec]) = Some [Num (int i)]"
    using \<open>i < 2 ^ 64\<close> unfolding sscanf_def split scan_lits by (simp only: scan_White, subst scan_Udec) (simp_all add: digit_def)
  then show ?thesis using \<open>known (of_nat i)\<close> by (simp add: parse_hdr_def literal_defs)
qed

lemma strpbrk_skip:
  "\<forall>c \<in> set w. c \<noteq> 0x3B \<and> c \<noteq> CR \<and> c \<noteq> LF \<Longrightarrow> r \<noteq> [] \<Longrightarrow> hd r \<in> {0x3B, CR, LF}
    \<Longrightarrow> strpbrk (w @ r) (str '';'' @ [CR, LF]) = Some r"
  using takeWhile_run(2)[of w "\<lambda>c. c \<notin> set (str '';'' @ [CR, LF])" r]
  by (auto simp: strpbrk_def semicolon split: list.split)

text \<open>A parameter of the transport line: its separator follows, or the end of the line.\<close>

lemma transport_loop_param:
  assumes "transport_param (w @ 0x3B # r) st = (None, st')" "\<forall>c \<in> set w. c \<noteq> 0x3B \<and> c \<noteq> CR \<and> c \<noteq> LF"
    "r \<noteq> []" "hd r \<noteq> 0x3B" "hd r \<noteq> CR" "hd r \<noteq> LF"
  shows "transport_loop (w @ 0x3B # r) st = transport_loop r st'"
proof -
  have "strpbrk (w @ 0x3B # r) (str '';'' @ [CR, LF]) = Some (0x3B # r)" using assms(2) by (intro strpbrk_skip) auto
  moreover have "dropWhile (\<lambda>c. c = 0x3B) (0x3B # r) = r" using assms(3,4) by (cases r) auto
  ultimately show ?thesis
    using assms(1,3,5,6) by (subst transport_loop.simps) (simp add: Let_def)
qed

lemma transport_loop_last:
  assumes "transport_param (w @ CR # r) st = (None, st')" "\<forall>c \<in> set w. c \<noteq> 0x3B \<and> c \<noteq> CR \<and> c \<noteq> LF"
  shows "transport_loop (w @ CR # r) st = Some (0, st')"
proof -
  have "strpbrk (w @ CR # r) (str '';'' @ [CR, LF]) = Some (CR # r)" using assms(2) by (intro strpbrk_skip) auto
  then show ?thesis using assms(1) by (subst transport_loop.simps) (simp add: Let_def)
qed

lemma dec_no_sep: "c \<in> set (dec n) \<Longrightarrow> c \<noteq> 0x3B \<and> c \<noteq> CR \<and> c \<noteq> LF"
  using dec_digits[of n] digit_facts[of c] by auto

lemma two_decimals:
  assumes "no_digit r"
  shows "a < 2 ^ 63 \<Longrightarrow> b < 2 ^ 63 \<Longrightarrow>
      sscanf (str t @ dec a @ str ''-'' @ dec b @ r) (lits t @ [Dec] @ lits ''-'' @ [Dec]) = Some [Num (int a), Num (int b)]"
    and "a < 2 ^ 64 \<Longrightarrow> b < 2 ^ 64 \<Longrightarrow>
      sscanf (str t @ dec a @ str ''-'' @ dec b @ r) (lits t @ [Udec] @ lits ''-'' @ [Udec]) = Some [Num (int a), Num (int b)]"
  using assms unfolding sscanf_def
  by (simp_all only: scan_lits append_Cons append_Nil scan_Dec scan_Udec no_digit_lits scan.simps(1))

lemma parse_hdr_tcp:
  assumes "a < 2 ^ 8" "b < 2 ^ 8"
  shows "parse_hdr known (hdr_text (Over_tcp a b) @ CR # r) (s, rq, rs, f)
    = Some (True, hdr_effect (Over_tcp a b) (s, rq, rs, f))"
proof -
  let ?w = "str ''interleaved='' @ dec a @ str ''-'' @ dec b"
  let ?rq = "rq\<lparr>req_transport := (req_transport rq)\<lparr>t_rtp_chn := of_nat a, t_rtcp_chn := of_nat b\<rparr>\<rparr>"
  have lits: "\<forall>c \<in> set (str t). c \<noteq> 0x3B \<and> c \<noteq> CR \<and> c \<noteq> LF"
    if "t \<in> set [''RTP/AVP/TCP'', ''unicast'', ''interleaved='', ''-'']" for t
    using that by (auto simp: str_def uchar_def)
  have "transport_loop (str ''RTP/AVP/TCP'' @ 0x3B # str ''unicast'' @ 0x3B # ?w @ CR # r) (s, rq)
      = transport_loop (str ''unicast'' @ 0x3B # ?w @ CR # r) (s\<lparr>intlvd_mode := True\<rparr>, rq)"
    by (rule transport_loop_param) (use lits in \<open>auto simp: transport_param_def literal_defs\<close>)
  also have "\<dots> = transport_loop (?w @ CR # r) (s\<lparr>intlvd_mode := True\<rparr>, rq)"
    by (rule transport_loop_param) (use lits in \<open>auto simp: transport_param_def literal_defs\<close>)
  also have "\<dots> = Some (0, s\<lparr>intlvd_mode := True\<rparr>, ?rq)"
  proof (rule transport_loop_last)
    have "sscanf (?w @ CR # r) (lits ''interleaved='' @ [Dec] @ lits ''-'' @ [Dec]) = Some [Num (int a), Num (int b)]"
      using two_decimals(1)[of "CR # r" a b "''interleaved=''"] assms by simp
    moreover have "starts (?w @ CR # r) ''interleaved''" "\<not> starts (?w @ CR # r) ''RTP/AVP/TCP''"
      "\<not> starts (?w @ CR # r) ''RTP/AVP/UDP''" "\<not> starts (?w @ CR # r) ''RTP/AVP''" "\<not> starts (?w @ CR # r) ''unicast''"
      "\<not> starts (?w @ CR # r) ''mode''" "\<not> starts (?w @ CR # r) ''client_port''"
      by (simp_all add: literal_defs)
    ultimately show "transport_param (?w @ CR # r) (s\<lparr>intlvd_mode := True\<rparr>, rq) = (None, s\<lparr>intlvd_mode := True\<rparr>, ?rq)"
      unfolding transport_param_def by (simp add: Let_def assigned_def)
  qed (use lits dec_no_sep in auto)
  finally have loop: "transport_loop (str ''RTP/AVP/TCP;unicast;'' @ ?w @ CR # r) (s, rq) = Some (0, s\<lparr>intlvd_mode := True\<rparr>, ?rq)"
    by (simp add: str_def uchar_def)
  have "hdr_text (Over_tcp a b) @ CR # r = str ''Transport: '' @ str ''RTP/AVP/TCP;unicast;'' @ ?w @ CR # r"
    by (simp add: str_def)
  then show ?thesis
    using loop by (simp add: parse_hdr_def parse_hdr_transport_def literal_defs)
qed

lemma parse_hdr_udp:
  assumes "a < 2 ^ 16" "b < 2 ^ 16"
  shows "parse_hdr known (hdr_text (Over_udp a b) @ CR # r) (s, rq, rs, f)
    = Some (True, hdr_effect (Over_udp a b) (s, rq, rs, f))"
proof -
  let ?w = "str ''client_port='' @ dec a @ str ''-'' @ dec b"
  let ?rq = "rq\<lparr>req_transport := (req_transport rq)\<lparr>t_rtp_cli_port := of_nat a, t_rtcp_cli_port := of_nat b\<rparr>\<rparr>"
  have lits: "\<forall>c \<in> set (str t). c \<noteq> 0x3B \<and> c \<noteq> CR \<and> c \<noteq> LF"
    if "t \<in> set [''RTP/AVP'', ''unicast'', ''client_port='', ''-'']" for t
    using that by (auto simp: str_def uchar_def)
  have "transport_loop (str ''RTP/AVP'' @ 0x3B # str ''unicast'' @ 0x3B # ?w @ CR # r) (s, rq)
      = transport_loop (str ''unicast'' @ 0x3B # ?w @ CR # r) (s\<lparr>intlvd_mode := False\<rparr>, rq)"
    by (rule transport_loop_param) (use lits in \<open>auto simp: transport_param_def literal_defs\<close>)
  also have "\<dots> = transport_loop (?w @ CR # r) (s\<lparr>intlvd_mode := False\<rparr>, rq)"
    by (rule transport_loop_param) (use lits in \<open>auto simp: transport_param_def literal_defs\<close>)
  also have "\<dots> = Some (0, s\<lparr>intlvd_mode := False\<rparr>, ?rq)"
  proof (rule transport_loop_last)
    have "sscanf (?w @ CR # r) (lits ''client_port='' @ [Udec] @ lits ''-'' @ [Udec]) = Some [Num (int a), Num (int b)]"
      using two_decimals(2)[of "CR # r" a b "''client_port=''"] assms by simp
    moreover have "starts (?w @ CR # r) ''client_port''" "\<not> starts (?w @ CR # r) ''RTP/AVP/TCP''"
      "\<not> starts (?w @ CR # r) ''RTP/AVP/UDP''" "\<not> starts (?w @ CR # r) ''RTP/AVP''" "\<not> starts (?w @ CR # r) ''unicast''"
      "\<not> starts (?w @ CR # r) ''mode''"
      by (simp_all add: literal_defs)
    ultimately show "transport_param (?w @ CR # r) (s\<lparr>intlvd_mode := False\<rparr>, rq) = (None, s\<lparr>intlvd_mode := False\<rparr>, ?rq)"
      unfolding transport_param_def by (simp add: Let_def assigned_def)
  qed (use lits dec_no_sep in auto)
  finally have loop: "transport_loop (str ''RTP/AVP;unicast;'' @ ?w @ CR # r) (s, rq) = Some (0, s\<lparr>intlvd_mode := False\<rparr>, ?rq)"
    by (simp add: str_def uchar_def)
  have "hdr_text (Over_udp a b) @ CR # r = str ''Transport: '' @ str ''RTP/AVP;unicast;'' @ ?w @ CR # r"
    by (simp add: str_def)
  then show ?thesis
    using loop by (simp add: parse_hdr_def parse_hdr_transport_def literal_defs)
qed

lemma parse_hdr_other:
  assumes "t \<noteq> []" "hd t \<noteq> uchar (CHR ''C'')" "hd t \<noteq> uchar (CHR ''S'')" "hd t \<noteq> uchar (CHR ''T'')"
  shows "parse_hdr known (t @ r) (s, rq, rs, f) = Some (True, s, rq, rs, f)"
  using assms by (cases t) (simp_all add: parse_hdr_def starts_def str_def)

lemma parse_hdr_line:
  assumes "hdr_line_ok known h"
  shows "parse_hdr known (hdr_text h @ CR # r) st = Some (True, hdr_effect h st)"
proof -
  obtain s rq rs f where st: "st = (s, rq, rs, f)" by (cases st)
  show ?thesis
  proof (cases h)
    case (Cseq n)
    then show ?thesis using assms parse_hdr_cseq[of n known r s rq rs f] by (simp add: st)
  next
    case (Sess i)
    then show ?thesis using assms parse_hdr_sess[of i known r s rq rs f] by (simp add: st)
  next
    case (Over_tcp a b)
    then show ?thesis using assms parse_hdr_tcp[of a b known r s rq rs f] by (simp add: st)
  next
    case (Over_udp a b)
    then show ?thesis using assms parse_hdr_udp[of a b known r s rq rs f] by (simp add: st)
  next
    case (Other t)
    then show ?thesis using assms parse_hdr_other[of t known "CR # r" s rq rs f] by (simp add: st)
  qed
qed

lemma literals_line_ok: "line_ok (str ''CSeq: '')" "line_ok (str ''Session: '')"
  "line_ok (str ''Transport: RTP/AVP/TCP;unicast;interleaved='')" "line_ok (str ''-'')"
  "line_ok (str ''Transport: RTP/AVP;unicast;client_port='')" "line_ok (str ''RTSP/1.0'')" "word_ok (str ''RTSP/1.0'')"
  by (simp_all add: str_def uchar_def)

lemma hdr_text_line_ok: "hdr_line_ok known h \<Longrightarrow> line_ok (hdr_text h) \<and> hdr_text h \<noteq> [] \<and> hd (hdr_text h) \<noteq> CR"
  using literals_line_ok
  using dec_no_sep by (cases h) (auto simp: line_ok_def str_def uchar_def hd_in_set)

lemma lines_of_Cons: "lines_of (h # hs) = hdr_text h @ CR # LF # lines_of hs"
  by (simp add: lines_of_def)

lemma lines_of_hd: "list_all (hdr_line_ok known) hs \<Longrightarrow> hs \<noteq> [] \<Longrightarrow> take 2 (lines_of hs @ r) \<noteq> [CR, LF]"
proof (cases hs)
  case (Cons h hs')
  assume "list_all (hdr_line_ok known) hs"
  then have "hdr_text h \<noteq> []" "hd (hdr_text h) \<noteq> CR" using hdr_text_line_ok[of known h] Cons by simp_all
  then show ?thesis by (cases "hdr_text h") (simp_all add: Cons lines_of_Cons)
qed simp

lemma hdr_loop_lines:
  "list_all (hdr_line_ok known) hs \<Longrightarrow> hs \<noteq> [] \<Longrightarrow>
    hdr_loop known (lines_of hs @ CR # LF # junk) st = Some (fold hdr_effect hs st)"
proof (induction hs arbitrary: st)
  case (Cons h hs)
  then have h: "hdr_line_ok known h" "line_ok (hdr_text h)" using hdr_text_line_ok by auto
  have line: "parse_hdr known (hdr_text h @ CR # LF # r) st = Some (True, hdr_effect h st)" for r
    using parse_hdr_line[OF h(1), of "LF # r" st] .
  show ?case
  proof (cases "hs = []")
    case True
    then show ?thesis
      using line h(2) get_next_line_last[of "hdr_text h" junk]
      by (subst hdr_loop.simps) (simp add: lines_of_Cons, simp add: lines_of_def)
  next
    case False
    then have "get_next_line (hdr_text h @ CR # LF # lines_of hs @ CR # LF # junk) = Some (lines_of hs @ CR # LF # junk)"
      using get_next_line_skip[OF h(2)] lines_of_hd[of known hs "CR # LF # junk"] Cons.prems(1) by simp
    then show ?thesis
      using line False Cons by (subst hdr_loop.simps) (simp add: lines_of_Cons)
  qed
qed simp

lemma fold_hdr_effect:
  assumes "fold hdr_effect hs (s, rq, rs, f) = (s', rq', rs', f')"
  shows "resp_status rs' = resp_status rs" "handling_state s' = handling_state s"
    "f' \<longleftrightarrow> f \<or> (\<exists>n. Cseq n \<in> set hs)"
proof -
  have "resp_status rs' = resp_status rs \<and> handling_state s' = handling_state s \<and> (f' \<longleftrightarrow> f \<or> (\<exists>n. Cseq n \<in> set hs))"
    using assms
  proof (induction hs arbitrary: s rq rs f)
    case (Cons h hs)
    then show ?case by (cases h) fastforce+
  qed auto
  then show "resp_status rs' = resp_status rs" "handling_state s' = handling_state s"
    "f' \<longleftrightarrow> f \<or> (\<exists>n. Cseq n \<in> set hs)" by blast+
qed

subsection \<open>The request line\<close>

lemma get_rtsp_method_token: "get_rtsp_method (str (token meth) @ r) = Some meth"
  by (cases meth) (simp_all add: token_def get_rtsp_method_def rtsp_method_token_def literal_defs)

lemma token_word_ok: "word_ok (str (token meth))"
  by (cases meth) (simp_all add: token_def rtsp_method_token_def str_def uchar_def)

lemma as_int_small: "n < 2 ^ 31 \<Longrightarrow> as_int (int n) = int n"
  unfolding as_int_def by (simp add: signed_of_nat signed_take_bit_int_eq_self)

text \<open>A host name and what may follow the channel.\<close>

definition host_ok :: "u8 list \<Rightarrow> bool" where
  "host_ok host \<longleftrightarrow> host \<noteq> [] \<and> word_ok host \<and> 0x2F \<notin> set host \<and> 0 \<notin> set host"

lemma parse_channel_uri:
  assumes "host_ok host" "c < 2 ^ 31" "t < 2 ^ 31" "length (channel_uri host c t) < 256"
  shows "parse_rtsp_uri exists (channel_uri host c t) (s, rq, rs, m) =
    (if c < 8 \<and> t < 2 then (upd_strm (\<lambda>i. i\<lparr>chn_no := int c, chn_type := (if t = 1 then CHN_TYPE_MAIN else CHN_TYPE_MINOR)\<rparr>) s, rq, rs, m)
     else (s, rq, set_status INVALID_RANGE rs, m))"
proof -
  let ?u = "channel_uri host c t"
  have "scan (Not_in 0x2F # fs) (host @ str ''/av'' @ r) vs = scan fs (str ''/av'' @ r) vs" for fs r vs
    using assms(1) by (intro scan_Not_in) (auto simp: host_ok_def str_def uchar_def)
  then have "sscanf ?u (lits ''rtsp://'' @ [Not_in 0x2F] @ lits ''/av'' @ [Dec] @ lits ''_'' @ [Dec]) = Some [Num (int c), Num (int t)]"
    using assms(2,3) scan_Dec[of "[]" t "[]"] unfolding sscanf_def channel_uri_def
    by (simp only: scan_lits append_Cons append_Nil)
      (subst scan_Dec, simp, simp, simp only: scan_lits, simp)
  then have two: "two_nums (sscanf ?u (lits ''rtsp://'' @ [Not_in 0x2F] @ lits ''/av'' @ [Dec] @ lits ''_'' @ [Dec])) = Some (int c, int t)"
    by simp
  have "starts_nocase ?u ''rtsp://''" by (simp add: starts_nocase_def channel_uri_def str_def uchar_def)
  then show ?thesis
    using assms(2-4) two as_int_small[of c] as_int_small[of t]
    unfolding parse_rtsp_uri_def by (auto simp: not_le)
qed

subsection \<open>The whole request\<close>

lemma channel_uri_word_ok: "host_ok host \<Longrightarrow> word_ok (channel_uri host c t)"
  by (simp add: channel_uri_def host_ok_def str_def uchar_def)

lemma channel_uri_hd: "channel_uri host c t \<noteq> []" "hd (channel_uri host c t) \<noteq> SP"
  by (simp_all add: channel_uri_def str_def uchar_def)

lemma parse_req_line_request:
  assumes "word_ok uri" "uri \<noteq> []" "hd uri \<noteq> SP" "mem_ok m"
    "parse_rtsp_uri exists uri (s, rq\<lparr>req_method := Some meth, req_uri := Some uri\<rparr>, rs, tl m) = (s', rq', rs', m')"
    "mem_ok m'"
  shows "parse_req_line exists (request meth uri hs @ junk) (s, rq, rs, m)
    = Some (s', rq'\<lparr>req_ver := Some (str ''RTSP/1.0'')\<rparr>, rs', tl m')"
proof -
  let ?t = "SP # str ''RTSP/1.0'' @ CR # LF # lines_of hs @ [CR, LF] @ junk"
  have msg: "request meth uri hs @ junk = str (token meth) @ SP # uri @ ?t" by (simp add: request_def)
  have w1: "get_next_word (request meth uri hs @ junk) = Some (uri @ ?t)"
    unfolding msg using assms(2,3) by (intro get_next_word_skip[OF token_word_ok]) simp_all
  have s1: "get_word_sz (uri @ ?t) = length uri"
    using get_word_sz_word[OF assms(1), of ?t] by simp
  have w2: "get_next_word (uri @ ?t) = Some (str ''RTSP/1.0'' @ CR # LF # lines_of hs @ [CR, LF] @ junk)"
    by (rule get_next_word_skip[OF assms(1)]) (simp_all add: str_def uchar_def)
  have s2: "get_word_sz (str ''RTSP/1.0'' @ CR # LF # lines_of hs @ [CR, LF] @ junk) = length (str ''RTSP/1.0'')"
    by (rule get_word_sz_word[OF literals_line_ok(7)]) simp_all
  have meth: "get_rtsp_method (request meth uri hs @ junk) = Some meth"
    unfolding msg by (rule get_rtsp_method_token)
  show ?thesis
    using assms(4-6) w1 s1 w2 s2 meth by (simp add: parse_req_line_def Let_def strndup_def)
qed

text \<open>A request holds no NUL, so the string in the buffer goes on into what is behind it.\<close>

lemma dec_no_0: "0 \<notin> set (dec n)"
  using dec_digits[of n] by (auto simp: digit_def)

lemma lines_of_no_0: "list_all (hdr_line_ok known) hs \<Longrightarrow> 0 \<notin> set (lines_of hs)"
proof (induction hs)
  case (Cons h hs)
  then show ?case using dec_no_0 by (cases h) (auto simp: lines_of_Cons str_def uchar_def)
qed (simp add: lines_of_def)

lemma request_no_0:
  assumes "host_ok host" "list_all (hdr_line_ok known) hs"
  shows "0 \<notin> set (request meth (channel_uri host c t) hs)"
proof -
  have "0 \<notin> set (str (token meth))"
    by (cases meth) (simp_all add: token_def rtsp_method_token_def str_def uchar_def)
  then show ?thesis
    using assms lines_of_no_0 dec_no_0 by (auto simp: request_def channel_uri_def host_ok_def str_def uchar_def)
qed

lemma c_str_append: "0 \<notin> set xs \<Longrightarrow> 0 \<in> set ys \<Longrightarrow> c_str (xs @ ys) = Some (xs @ takeWhile (\<lambda>c. c \<noteq> 0) ys)"
  by (induction xs) (auto simp: c_str_def)

text \<open>The state after a request for a channel: what its URI and its lines say.\<close>

definition parsed :: "rtsp_method \<Rightarrow> u8 list \<Rightarrow> nat \<Rightarrow> nat \<Rightarrow> hdr_line list \<Rightarrow> rtsp_sess \<times> rtsp_req \<times> rtsp_resp \<Rightarrow> headers" where
  "parsed meth host c t hs = (\<lambda>(s, rq, rs). fold hdr_effect hs
     (upd_strm (\<lambda>i. i\<lparr>chn_no := int c, chn_type := (if t = 1 then CHN_TYPE_MAIN else CHN_TYPE_MINOR)\<rparr>) s,
      rq\<lparr>req_method := Some meth, req_uri := Some (channel_uri host c t), req_ver := Some (str ''RTSP/1.0'')\<rparr>,
      rs\<lparr>resp_ver := Some (str ''RTSP/1.0''), resp_server := Some (str ''Zmodo-RTSP-Server''),
         resp_cseq := req_cseq rq, resp_sess_id := req_sess_id rq\<rparr>, False))"

lemma parse_request_eq:
  assumes "handling_state s = HANDLING_STATE_READY" "req s = Some rq" "resp s = Some rs" "resp_status rs = OK" "mem_ok m"
    "host_ok host" "c < 8" "t < 2" "length (channel_uri host c t) < 256"
    "list_all (hdr_line_ok known) hs" "Cseq n \<in> set hs"
    "recv_buf s = request meth (channel_uri host c t) hs @ rest" "0 \<in> set rest"
  shows "parse_rtsp_req exists known s m = (case parsed meth host c t hs (s, rq, rs) of (s', rq', rs', _) \<Rightarrow>
    Some (s'\<lparr>req := Some rq', resp := Some rs', handling_state := HANDLING_STATE_PARSED\<rparr>, drop 4 m))"
proof -
  define junk where "junk = takeWhile (\<lambda>c. c \<noteq> 0) rest"
  let ?uri = "channel_uri host c t" and ?text = "request meth (channel_uri host c t) hs @ junk"
  have ctext: "c_str (recv_buf s) = Some ?text"
    unfolding assms(12) junk_def by (rule c_str_append[OF request_no_0[OF assms(6,10)] assms(13)])
  let ?s = "upd_strm (\<lambda>i. i\<lparr>chn_no := int c, chn_type := (if t = 1 then CHN_TYPE_MAIN else CHN_TYPE_MINOR)\<rparr>) s"
  let ?rq = "rq\<lparr>req_method := Some meth, req_uri := Some ?uri\<rparr>"
  let ?rs = "rs\<lparr>resp_ver := Some (str ''RTSP/1.0''), resp_server := Some (str ''Zmodo-RTSP-Server''),
    resp_cseq := req_cseq rq, resp_sess_id := req_sess_id rq\<rparr>"
  have ok: "mem_ok (tl m)" "mem_ok (tl (tl m))" "mem_ok (tl (tl (tl m)))" using assms(5) by (simp_all add: mem_ok_tl)
  have copy: "strndup (str ''RTSP/1.0'') 8 m = (Some (str ''RTSP/1.0''), tl m)"
    "strndup (str ''Zmodo-RTSP-Server'') 17 (tl m) = (Some (str ''Zmodo-RTSP-Server''), tl (tl m))"
    using assms(5) ok by (simp_all add: strndup_def str_def)
  have line: "parse_req_line exists ?text (s, rq, ?rs, tl (tl m))
      = Some (?s, ?rq\<lparr>req_ver := Some (str ''RTSP/1.0'')\<rparr>, ?rs, tl (tl (tl (tl m))))"
  proof (rule parse_req_line_request[OF channel_uri_word_ok[OF assms(6)] channel_uri_hd ok(2)])
    show "parse_rtsp_uri exists ?uri (s, ?rq, ?rs, tl (tl (tl m))) = (?s, ?rq, ?rs, tl (tl (tl m)))"
      using parse_channel_uri[OF assms(6) _ _ assms(9), of exists s ?rq ?rs "tl (tl (tl m))"] assms(7,8) by simp
  qed (rule ok)
  have ne: "hs \<noteq> []" using assms(11) by auto
  have "line_ok (str (token meth) @ SP # ?uri @ SP # str ''RTSP/1.0'')"
    using word_line[OF token_word_ok] word_line[OF channel_uri_word_ok[OF assms(6)]] literals_line_ok by simp
  then have nextl: "get_next_line ?text = Some (lines_of hs @ CR # LF # junk)"
    using get_next_line_skip[of "str (token meth) @ SP # ?uri @ SP # str ''RTSP/1.0''" "lines_of hs @ CR # LF # junk"]
      lines_of_hd[OF assms(10) ne, of "CR # LF # junk"]
    by (simp add: request_def)
  obtain s' rq' rs' f where eff: "parsed meth host c t hs (s, rq, rs) = (s', rq', rs', f)" by (metis prod.exhaust)
  then have eff': "fold hdr_effect hs (?s, ?rq\<lparr>req_ver := Some (str ''RTSP/1.0'')\<rparr>, ?rs, False) = (s', rq', rs', f)"
    by (simp add: parsed_def)
  have f: "f" "resp_status rs' = OK" "handling_state s' = HANDLING_STATE_READY"
    using fold_hdr_effect[OF eff'] assms(1,4,11) by auto
  have "parse_req_hdrs known (lines_of hs @ CR # LF # junk) (?s, ?rq\<lparr>req_ver := Some (str ''RTSP/1.0'')\<rparr>, ?rs) = Some (s', rq', rs')"
    using hdr_loop_lines[OF assms(10) ne] eff' f(1) by (simp add: parse_req_hdrs_def)
  moreover have "drop 4 m = tl (tl (tl (tl m)))" by (simp add: numeral_eq_Suc drop_Suc)
  ultimately show ?thesis
    using assms(1-3) f(2,3) by (simp add: parse_rtsp_req_def ctext copy line nextl eff)
qed

text \<open>C16: Canonical channel requests are understood: a request line \<open>METHOD rtsp://host/avC_T RTSP/1.0\<close>, then
  lines of the forms of \<open>hdr_line\<close> (CSeq, Session of a known session, Transport over TCP or UDP, and lines that
  begin with none of C, S, T) in any order and among them a CSeq, each ended by CRLF, is parsed to its method, URI, version, sequence
  number, session and transport; the session is PARSED. Bytes behind the request, such as the rest of
  an earlier longer one in the receive buffer, do not matter.\<close>

theorem parse_request:
  assumes "handling_state s = HANDLING_STATE_READY" "req s = Some rq" "resp s = Some rs" "resp_status rs = OK" "mem_ok m"
    "host_ok host" "c < 8" "t < 2" "length (channel_uri host c t) < 256"
    "list_all (hdr_line_ok known) hs" "Cseq n \<in> set hs"
    "recv_buf s = request meth (channel_uri host c t) hs @ rest" "0 \<in> set rest"
  shows "parse_rtsp_req exists known s m = (case parsed meth host c t hs (s, rq, rs) of (s', rq', rs', _) \<Rightarrow>
    Some (s'\<lparr>req := Some rq', resp := Some rs', handling_state := HANDLING_STATE_PARSED\<rparr>, drop 4 m))"
  by (rule parse_request_eq[OF assms])

subsection \<open>Witnesses\<close>

definition sess_ready :: "u8 list \<Rightarrow> rtsp_sess" where
  "sess_ready buf = zero_sess\<lparr>handling_state := HANDLING_STATE_READY, recv_buf := buf, req := Some zero_req, resp := Some zero_resp\<rparr>"

lemma parse_rtsp_req_safe_witness:
  "\<exists>s' m' rs'. parse_rtsp_req (\<lambda>_. False) (\<lambda>_. True) (sess_ready (str ''PLAY'' @ [LF, LF, 0])) [] = Some (s', m') \<and>
    resp s' = Some rs' \<and> req s' \<noteq> None \<and>
    (handling_state s' = HANDLING_STATE_PARSED \<and> resp_status rs' = OK \<or>
     handling_state s' = HANDLING_STATE_ERROR \<and> resp_status rs' \<noteq> OK \<or>
     handling_state s' = HANDLING_STATE_FAILED)"
  by (rule parse_rtsp_req_safe[of _ "str ''PLAY'' @ [LF, LF]"]) (simp_all add: sess_ready_def ended_def c_str_def str_def uchar_def)

lemma parse_request_witness:
  "(case parse_rtsp_req (\<lambda>_. False) (\<lambda>_. True)
      (sess_ready (request RTSP_METHOD_SETUP (channel_uri (str ''cam'') 2 1) [Over_udp 5000 5001, Cseq 3] @ [7, 0])) [] of
     Some (s', m') \<Rightarrow> handling_state s' = HANDLING_STATE_PARSED \<and> chn_no (strm_info s') = 2 \<and>
       map_option req_method (req s') = Some (Some RTSP_METHOD_SETUP) \<and>
       map_option (t_rtcp_cli_port \<circ> req_transport) (req s') = Some 5001 \<and> map_option resp_cseq (resp s') = Some 3
   | None \<Rightarrow> False)"
proof -
  have "parse_rtsp_req (\<lambda>_. False) (\<lambda>_. True)
      (sess_ready (request RTSP_METHOD_SETUP (channel_uri (str ''cam'') 2 1) [Over_udp 5000 5001, Cseq 3] @ [7, 0])) []
    = (case parsed RTSP_METHOD_SETUP (str ''cam'') 2 1 [Over_udp 5000 5001, Cseq 3]
        (sess_ready (request RTSP_METHOD_SETUP (channel_uri (str ''cam'') 2 1) [Over_udp 5000 5001, Cseq 3] @ [7, 0]), zero_req, zero_resp)
      of (s', rq', rs', _) \<Rightarrow> Some (s'\<lparr>req := Some rq', resp := Some rs', handling_state := HANDLING_STATE_PARSED\<rparr>, drop 4 []))"
  proof (rule parse_request)
    show "host_ok (str ''cam'')" by (simp add: host_ok_def str_def uchar_def)
    show "length (channel_uri (str ''cam'') 2 1) < 256" by (simp add: channel_uri_def str_def dec.simps)
    show "0 \<in> set [7, 0 :: u8]" unfolding list.set by blast
  qed (simp_all add: sess_ready_def zero_resp_def)
  then show ?thesis by (simp add: parsed_def)
qed

subsection \<open>Requests that are misread\<close>

text \<open>A transport line without a line break after it: \<open>strpbrk\<close> returns NULL and the next line of the
  code reads through it.\<close>

lemma unterminated_transport:
  "parse_hdr_transport (str ''Transport: unicast'') st = None"
proof -
  have "strpbrk (str ''unicast'') (str '';'' @ [CR, LF]) = None" by (simp add: strpbrk_def str_def uchar_def)
  then show ?thesis
    by (cases st) (simp add: parse_hdr_transport_def transport_loop.simps transport_param_def literal_defs)
qed

text \<open>The scheme is compared without regard to case, the rest is not: any URI in upper case selects the
  default resource.\<close>

lemma upper_case_scheme:
  assumes "length (str ''RTSP://'' @ r) < 256"
  shows "parse_rtsp_uri exists (str ''RTSP://'' @ r) (s, rq, rs, m)
    = (upd_strm (\<lambda>i. i\<lparr>chn_no := 0, chn_type := CHN_TYPE_MAIN\<rparr>) s, rq, rs, m)"
proof -
  have "sscanf (str ''RTSP://'' @ r) (lits ''rtsp://'' @ fs) = Some []" for fs
    unfolding sscanf_def by (rule scan_lits_mismatch) (simp_all add: str_def uchar_def)
  then show ?thesis
    using assms by (simp add: parse_rtsp_uri_def starts_nocase_def str_def uchar_def lower_def)
qed

text \<open>The audio track of a channel is taken for the channel itself: the media stays video.\<close>

lemma channel_track:
  "parse_rtsp_uri exists (str ''rtsp://cam/av0_1/track1'') (s, rq, rs, m)
    = (upd_strm (\<lambda>i. i\<lparr>chn_no := 0, chn_type := CHN_TYPE_MAIN\<rparr>) s, rq, rs, m)"
  by (simp add: parse_rtsp_uri_def starts_nocase_def sscanf_def lits_def str_def uchar_def lower_def
      integer_at_def digit_def number_def white_def to_long_def as_int_def Let_def)

end
