(* ===== verification/Rtsp_Server.thy ===== *)
theory Rtsp_Server
  imports Rtsp_Parser Rtp Delay_Task
begin

text \<open>
  The state of the RTSP server (\<open>rtsp_srv.h\<close>, \<open>rtsp_srv.c\<close>), its table of socket handlers
  (\<open>sd_handler.c\<close>), the set-up of RTP sessions (\<open>rtp.c\<close>) and the life of RTSP sessions
  (\<open>rtsp_sess.c\<close>).

  A session is named by its address; the memory of the sessions maps addresses to sessions, and an
  access to a freed one has no result. The calls of the system and of the application's
  \<open>start_strm\<close> take their results from the list \<open>results\<close> (past its end they return 0); a negative
  result is an error, its absolute value the \<open>errno\<close>. A non-negative result of
  \<open>getsockname\<close> is the port that it fills in. Chunks that \<open>recv\<close> delivers and frames that \<open>get_frm\<close>
  delivers come from lists of their own; an exhausted list is the end of the stream.
\<close>

subsection \<open>State\<close>

datatype task_proc = Handle_rtsp_req | Prefetch_frm | Destroy_rtsp_sess

datatype sd_proc = Handle_lsn_sd | Handle_rtsp_sd | Handle_rtp_sd | Handle_rtcp_sd

record sd_handler =
  h_sd :: u32
  h_arg :: nat
  h_proc :: sd_proc

record rtsp_srv = "task_proc timers" +
  rtsp_lsn_sd :: u32
  http_lsn_sd :: u32
  epoll_fd :: u32
  rtsp_sess_list :: "nat list"
  sd_handler_list :: "sd_handler list"
  sess_at :: "nat \<Rightarrow> rtsp_sess option"
  next_addr :: nat
  srv_mem :: mem
  results :: "int list"
  received :: "u8 list list"
  frames :: "(int \<times> frm_info) list"
  transmitted :: "(u32 \<times> u8 list) list"
  closed :: "u32 list"
  epoll :: "u32 \<Rightarrow> u32 option"
  date_hdr :: "u8 list"
  unix_time :: nat
  local_ip :: "u8 list"

definition sys :: "rtsp_srv \<Rightarrow> int \<times> rtsp_srv" where
  "sys S = (case results S of [] \<Rightarrow> (0, S) | r # rs \<Rightarrow> (r, S\<lparr>results := rs\<rparr>))"

definition put :: "nat \<Rightarrow> rtsp_sess \<Rightarrow> rtsp_srv \<Rightarrow> rtsp_srv" where
  "put p s S = S\<lparr>sess_at := (sess_at S)(p \<mapsto> s)\<rparr>"

definition upd :: "nat \<Rightarrow> (rtsp_sess \<Rightarrow> rtsp_sess) \<Rightarrow> rtsp_srv \<Rightarrow> rtsp_srv option" where
  "upd p f S = map_option (\<lambda>s. put p (f s) S) (sess_at S p)"

definition srv_malloc :: "rtsp_srv \<Rightarrow> bool \<times> rtsp_srv" where
  "srv_malloc S = (case malloc () (srv_mem S) of (x, m) \<Rightarrow> (x \<noteq> None, S\<lparr>srv_mem := m\<rparr>))"

definition close_sd :: "u32 \<Rightarrow> rtsp_srv \<Rightarrow> rtsp_srv" where
  "close_sd sd S = S\<lparr>closed := sd # closed S, epoll := (epoll S)(sd := None)\<rparr>"

text \<open>The delayed tasks; the result of \<open>create_delay_task\<close> is not used by its callers here.\<close>

definition new_task :: "task_proc \<Rightarrow> nat \<Rightarrow> int \<Rightarrow> rtsp_srv \<Rightarrow> rtsp_srv option" where
  "new_task prc p delay S = do {
     (_, S, m) \<leftarrow> create_delay_task (next_addr S) prc p delay (S\<lparr>next_addr := Suc (next_addr S)\<rparr>, srv_mem S);
     Some (S\<lparr>srv_mem := m\<rparr>) }"

subsection \<open>Events of descriptors\<close>

abbreviation (input) EPOLLIN :: u32 where "EPOLLIN \<equiv> 0x001"
abbreviation (input) EPOLLOUT :: u32 where "EPOLLOUT \<equiv> 0x004"
abbreviation (input) EPOLLERR :: u32 where "EPOLLERR \<equiv> 0x008"
abbreviation (input) EPOLLHUP :: u32 where "EPOLLHUP \<equiv> 0x010"
abbreviation (input) EPOLLRDHUP :: u32 where "EPOLLRDHUP \<equiv> 0x2000"
abbreviation (input) EPOLLET :: u32 where "EPOLLET \<equiv> 0x80000000"

definition RTSP_SD_DFL_EV :: u32 where "RTSP_SD_DFL_EV = or EPOLLIN EPOLLET"
definition RTP_SD_DFL_EV :: u32 where "RTP_SD_DFL_EV = EPOLLET"
definition RTCP_SD_DFL_EV :: u32 where "RTCP_SD_DFL_EV = or EPOLLIN EPOLLET"

definition monitor_sd_event :: "u32 \<Rightarrow> u32 \<Rightarrow> rtsp_srv \<Rightarrow> int \<times> rtsp_srv" where
  "monitor_sd_event sd ev S = (let (r, S) = sys S in
     if r < 0 then (- 1, S) else (0, S\<lparr>epoll := (epoll S)(sd \<mapsto> ev)\<rparr>))"

definition update_sd_event :: "u32 \<Rightarrow> u32 \<Rightarrow> rtsp_srv \<Rightarrow> int \<times> rtsp_srv" where
  "update_sd_event sd ev S = (let (r, S) = sys S in
     if r < 0 then (- 1, S) else (0, S\<lparr>epoll := (epoll S)(sd \<mapsto> ev)\<rparr>))"

subsection \<open>Handlers of descriptors\<close>

definition register_sd_handler :: "u32 \<Rightarrow> sd_proc \<Rightarrow> nat \<Rightarrow> rtsp_srv \<Rightarrow> int \<times> rtsp_srv" where
  "register_sd_handler sd prc x S = (let (ok, S) = srv_malloc S in
     if \<not> ok then (- 1, S)
     else (0, S\<lparr>sd_handler_list := sd_handler_list S @ [\<lparr>h_sd = sd, h_arg = x, h_proc = prc\<rparr>]\<rparr>))"

fun remove_handler :: "u32 \<Rightarrow> sd_handler list \<Rightarrow> sd_handler list" where
  "remove_handler sd [] = []"
| "remove_handler sd (h # hs) = (if h_sd h = sd then hs else h # remove_handler sd hs)"

definition deregister_sd_handler :: "u32 \<Rightarrow> rtsp_srv \<Rightarrow> rtsp_srv" where
  "deregister_sd_handler sd S = S\<lparr>sd_handler_list := remove_handler sd (sd_handler_list S)\<rparr>"

definition init_sd_handler_list :: "rtsp_srv \<Rightarrow> rtsp_srv" where
  "init_sd_handler_list S = S\<lparr>sd_handler_list := []\<rparr>"

definition deinit_sd_handler_list :: "rtsp_srv \<Rightarrow> rtsp_srv" where
  "deinit_sd_handler_list S = S\<lparr>sd_handler_list := []\<rparr>"

subsection \<open>RTP sessions\<close>

definition upd_resp :: "(rtsp_resp \<Rightarrow> rtsp_resp) \<Rightarrow> rtsp_sess \<Rightarrow> rtsp_sess" where
  "upd_resp f = resp_update (map_option f)"

definition upd_rtp :: "media_type \<Rightarrow> (rtp_rtcp \<Rightarrow> rtp_rtcp) \<Rightarrow> rtsp_sess \<Rightarrow> rtsp_sess" where
  "upd_rtp media f s = set_rtp media (f (rtp_of media s)) s"

definition setup_intlvd_mode :: "nat \<Rightarrow> rtsp_srv \<Rightarrow> (int \<times> rtsp_srv) option" where
  "setup_intlvd_mode p S = do {
     s \<leftarrow> sess_at S p;
     rq \<leftarrow> req s;
     rs \<leftarrow> resp s;
     let t = req_transport rq;
     let rs = rs\<lparr>resp_transport := (resp_transport rs)\<lparr>t_rtp_chn := t_rtp_chn t, t_rtcp_chn := t_rtcp_chn t\<rparr>\<rparr>;
     let s = s\<lparr>resp := Some rs\<rparr>;
     Some (0, put p (upd_rtp (req_media rq) (set_tcp_chns (t_rtp_chn t) (t_rtcp_chn t)) s) S) }"

text \<open>The sockets: the error exit closes both, \<open>-1\<close> for one that was not created. The result of the
  calls before the assignment to the session is the two descriptors and ports.\<close>

definition open_udp_pair :: "rtsp_srv \<Rightarrow> (u32 \<times> u32 \<times> u16 \<times> u16) option \<times> rtsp_srv" where
  "open_udp_pair S = (let
     (first_sd, S) = sys S;
     (bound, S') = sys S;
     (named, S'') = sys S'
   in if first_sd < 0 then (None, close_sd (- 1) (close_sd (- 1) S))
      else let sd1 = word_of_int first_sd in
      if bound < 0 then (None, close_sd (- 1) (close_sd sd1 S'))
      else if named < 0 then (None, close_sd (- 1) (close_sd sd1 S''))
      else let
        first_port = word_of_int named;
        (second_sd, S) = sys S''
      in if second_sd < 0 then (None, close_sd (- 1) (close_sd sd1 S))
      else let
        sd2 = word_of_int second_sd;
        (bound, S) = sys S;
        (bound, S) = (if bound = - 98 then sys S else (bound, S))
      in if bound < 0 then (None, close_sd sd2 (close_sd sd1 S))
      else let (named, S) = sys S
      in if named < 0 then (None, close_sd sd2 (close_sd sd1 S))
      else (Some (sd1, sd2, first_port, word_of_int named), S))"

definition odd_port :: "u16 \<Rightarrow> bool" where
  "odd_port p \<longleftrightarrow> bit p 0"

text \<open>Monitoring, registering and \<open>getpeername\<close>, up to the first failure.\<close>

definition watch_pair :: "u32 \<Rightarrow> u32 \<Rightarrow> nat \<Rightarrow> rtsp_srv \<Rightarrow> int \<times> rtsp_srv" where
  "watch_pair rtp rtcp p S = (let (r, S) = monitor_sd_event rtp RTP_SD_DFL_EV S in
     if r < 0 then (r, S)
     else let (r, S) = monitor_sd_event rtcp RTCP_SD_DFL_EV S in
     if r < 0 then (r, S)
     else let (r, S) = register_sd_handler rtp Handle_rtp_sd p S in
     if r < 0 then (r, S)
     else let (r, S) = register_sd_handler rtcp Handle_rtcp_sd p S in
     if r < 0 then (r, S) else sys S)"

definition setup_non_intlvd_mode :: "nat \<Rightarrow> rtsp_srv \<Rightarrow> (int \<times> rtsp_srv) option" where
  "setup_non_intlvd_mode p S = do {
     s \<leftarrow> sess_at S p;
     rq \<leftarrow> req s;
     rs \<leftarrow> resp s;
     (case open_udp_pair S of
       (None, S) \<Rightarrow> Some (- 1, S)
     | (Some (first_sd, second_sd, first_port, second_port), S) \<Rightarrow> do {
         let rtp = (if odd_port first_port then second_sd else first_sd);
         let rtcp = (if odd_port first_port then first_sd else second_sd);
         let s = upd_rtp (req_media rq) (\<lambda>r. r\<lparr>rtp_sd := rtp, rtcp_sd := rtcp\<rparr>) s;
         (case watch_pair rtp rtcp p (put p s S) of (r, S) \<Rightarrow>
           if r < 0 then Some (- 1, close_sd second_sd (close_sd first_sd S))
           else do {
             let t = req_transport rq;
             let s = upd_rtp (req_media rq) (\<lambda>r. r\<lparr>rtp_port := htons (t_rtp_cli_port t), rtcp_port := htons (t_rtcp_cli_port t)\<rparr>) s;
             let rs = rs\<lparr>resp_transport := (resp_transport rs)\<lparr>
                t_rtp_cli_port := t_rtp_cli_port t, t_rtcp_cli_port := t_rtcp_cli_port t,
                t_rtp_srv_port := (if odd_port first_port then second_port else first_port),
                t_rtcp_srv_port := (if odd_port first_port then first_port else second_port)\<rparr>\<rparr>;
             Some (0, put p (s\<lparr>resp := Some rs\<rparr>) S) }) }) }"

definition random64 :: "rtsp_srv \<Rightarrow> u64 \<times> rtsp_srv" where
  "random64 S = (let (a, S) = sys S; (b, S) = sys S in
     (or (push_bit 32 (word_of_int a)) (word_of_int b), S))"

definition create_rtp_sess :: "nat \<Rightarrow> rtsp_srv \<Rightarrow> (int \<times> rtsp_srv) option" where
  "create_rtp_sess p S = do {
     s \<leftarrow> sess_at S p;
     rq \<leftarrow> req s;
     let media = req_media rq;
     let (s, S) = (if rtsp_state s = RTSP_STATE_INIT
        then let (i, S) = random64 S in (upd_resp (\<lambda>rs. rs\<lparr>resp_sess_id := i\<rparr>) (s\<lparr>sess_id := i\<rparr>), S)
        else (s, S));
     let (r1, S) = sys S;
     let (r2, S) = sys S;
     let (r3, S) = sys S;
     let s = upd_rtp media (\<lambda>r. r\<lparr>rtp_hdr := init_rtp_hdr (word_of_int r1) (word_of_int r2) (word_of_int r3) media\<rparr>) s;
     let S = put p s S;
     (r, S) \<leftarrow> (if intlvd_mode s then setup_intlvd_mode p S else setup_non_intlvd_mode p S);
     if r < 0 then Some (- 1, S)
     else do {
       let (r, S) = sys S;
       Some (if r < 0 then - 1 else 0, S) } }"

definition close_rtp :: "media_type \<Rightarrow> nat \<Rightarrow> rtsp_srv \<Rightarrow> rtsp_srv option" where
  "close_rtp media p S = do {
     s \<leftarrow> sess_at S p;
     let r = rtp_of media s;
     let S = close_sd (rtp_sd r) (deregister_sd_handler (rtp_sd r) S);
     let S = close_sd (rtcp_sd r) (deregister_sd_handler (rtcp_sd r) S);
     Some (put p (upd_rtp media (\<lambda>r. r\<lparr>rtp_sd := - 1, rtcp_sd := - 1\<rparr>) s) S) }"

definition destroy_rtp_sess :: "nat \<Rightarrow> rtsp_srv \<Rightarrow> rtsp_srv option" where
  "destroy_rtp_sess p S = do {
     s \<leftarrow> sess_at S p;
     if intlvd_mode s then Some S
     else do {
       S \<leftarrow> close_rtp MEDIA_TYPE_VIDEO p S;
       close_rtp MEDIA_TYPE_AUDIO p S } }"

end
