(* ===== verification/Rtsp_Session.thy ===== *)
theory Rtsp_Session
  imports Rtsp_Server
begin

text \<open>
  RTSP sessions (\<open>rtsp_sess.c\<close>): the list of sessions, their send queues and their responses. The
  buffer of a response has room for \<open>RTSP_RESP_SZ\<close> bytes; \<open>MOVE_FORWARD\<close> and \<open>snprintf\<close> append to
  the text in it and cut it off at the end of the buffer.
\<close>

subsection \<open>The list of sessions\<close>

fun find_id :: "u64 \<Rightarrow> nat list \<Rightarrow> rtsp_srv \<Rightarrow> bool option" where
  "find_id i [] S = Some False"
| "find_id i (p # ps) S = do {
     s \<leftarrow> sess_at S p;
     if sess_id s = i then Some True else find_id i ps S }"

definition rtsp_sess_id_exist :: "u64 \<Rightarrow> rtsp_srv \<Rightarrow> bool option" where
  "rtsp_sess_id_exist i S = find_id i (rtsp_sess_list S) S"

definition rtsp_sess_exist :: "nat \<Rightarrow> rtsp_srv \<Rightarrow> bool" where
  "rtsp_sess_exist p S \<longleftrightarrow> p \<in> set (rtsp_sess_list S)"

definition init_rtsp_sess_list :: "rtsp_srv \<Rightarrow> rtsp_srv" where
  "init_rtsp_sess_list S = S\<lparr>rtsp_sess_list := []\<rparr>"

text \<open>The allocations are the session, its handler, the receive buffer and the frame buffer. The error
  exit frees the buffers through the session, which is NULL when its own allocation failed.\<close>

definition create_rtsp_sess :: "u32 \<Rightarrow> rtsp_srv \<Rightarrow> (int \<times> rtsp_srv) option" where
  "create_rtsp_sess sd S = (let p = next_addr S; (ok, S) = srv_malloc (S\<lparr>next_addr := Suc p\<rparr>) in
     if \<not> ok then None
     else let (r, S) = register_sd_handler sd Handle_rtsp_sd p S in
     if r < 0 then Some (- 1, deregister_sd_handler sd S)
     else let (ok, S) = srv_malloc S in
     if \<not> ok then Some (- 1, deregister_sd_handler sd S)
     else let (ok, S) = srv_malloc S in
     if \<not> ok then Some (- 1, deregister_sd_handler sd S)
     else let s = zero_sess\<lparr>rtsp_sd := sd, recv_buf := replicate (100 * 1024) 0,
         frm_info := (frm_info zero_sess)\<lparr>frm_buf := replicate (1024 * 1024) 0\<rparr>\<rparr>
     in Some (0, (put p s S)\<lparr>rtsp_sess_list := p # rtsp_sess_list S\<rparr>))"

definition free_sess :: "nat \<Rightarrow> rtsp_srv \<Rightarrow> rtsp_srv" where
  "free_sess p S = S\<lparr>sess_at := (sess_at S)(p := None)\<rparr>"

definition destroy_rtsp_sess :: "nat \<Rightarrow> rtsp_srv \<Rightarrow> (int \<times> rtsp_srv) option" where
  "destroy_rtsp_sess p S = do {
     s \<leftarrow> sess_at S p;
     if handling_state s \<noteq> HANDLING_STATE_INIT then Some (10 * 1000, S)
     else do {
       let s = s\<lparr>rtsp_state := RTSP_STATE_INIT\<rparr>;
       let S = put p s S;
       if \<not> rtsp_sess_exist p S then Some (- 1, S)
       else do {
         let S = S\<lparr>rtsp_sess_list := remove1 p (rtsp_sess_list S)\<rparr>;
         let S = close_sd (rtsp_sd s) (deregister_sd_handler (rtsp_sd s) S);
         let S = put p (s\<lparr>strm_info := (strm_info s)\<lparr>file_name := None\<rparr>, send_queue := []\<rparr>) S;
         S \<leftarrow> destroy_sess_task p S;
         S \<leftarrow> destroy_rtp_sess p S;
         Some (- 1, free_sess p S) } } }"

definition holds_sd :: "u32 \<Rightarrow> rtsp_sess \<Rightarrow> bool" where
  "holds_sd sd s \<longleftrightarrow> rtsp_sd s = sd \<or> rtp_sd (rtp_video s) = sd \<or> rtcp_sd (rtp_video s) = sd \<or>
     rtp_sd (rtp_audio s) = sd \<or> rtcp_sd (rtp_audio s) = sd"

fun find_sd :: "u32 \<Rightarrow> nat list \<Rightarrow> rtsp_srv \<Rightarrow> nat option option" where
  "find_sd sd [] S = Some None"
| "find_sd sd (p # ps) S = do {
     s \<leftarrow> sess_at S p;
     if holds_sd sd s then Some (Some p) else find_sd sd ps S }"

definition destroy_rtsp_sess_contain_sd :: "u32 \<Rightarrow> rtsp_srv \<Rightarrow> rtsp_srv option" where
  "destroy_rtsp_sess_contain_sd sd S = do {
     r \<leftarrow> find_sd sd (rtsp_sess_list S) S;
     (case r of
       None \<Rightarrow> Some S
     | Some p \<Rightarrow> do { (_, S) \<leftarrow> destroy_rtsp_sess p S; Some S }) }"

fun destroy_all :: "nat list \<Rightarrow> rtsp_srv \<Rightarrow> rtsp_srv option" where
  "destroy_all [] S = Some S"
| "destroy_all (p # ps) S = do {
     (_, S) \<leftarrow> destroy_rtsp_sess p S;
     destroy_all ps S }"

definition deinit_rtsp_sess_list :: "rtsp_srv \<Rightarrow> rtsp_srv option" where
  "deinit_rtsp_sess_list S = destroy_all (rtsp_sess_list S) S"

subsection \<open>Sending\<close>

text \<open>The descriptor on which a buffer is sent, and the events it goes back to.\<close>

definition buf_sd :: "rtsp_sess \<Rightarrow> data_type \<Rightarrow> u32 \<times> u32" where
  "buf_sd s t = (if intlvd_mode s \<or> t = DATA_TYPE_RTSP_RESP then (rtsp_sd s, RTSP_SD_DFL_EV)
     else case t of
       DATA_TYPE_RTP_V_PKT \<Rightarrow> (rtp_sd (rtp_video s), RTP_SD_DFL_EV)
     | DATA_TYPE_RTP_A_PKT \<Rightarrow> (rtp_sd (rtp_audio s), RTP_SD_DFL_EV)
     | DATA_TYPE_RTCP_V_PKT \<Rightarrow> (rtcp_sd (rtp_video s), RTCP_SD_DFL_EV)
     | _ \<Rightarrow> (rtcp_sd (rtp_audio s), RTCP_SD_DFL_EV))"

definition send_buf_data :: "rtsp_sess \<Rightarrow> send_buf \<Rightarrow> rtsp_srv \<Rightarrow> (int \<times> rtsp_srv) option" where
  "send_buf_data s b S = do {
     let (sd, ev) = buf_sd s (buf_type b);
     bytes \<leftarrow> slice (buf_data b) 0 (unat (buf_sz b));
     let (ns, S) = sys S;
     let S = (if ns < 0 then S else S\<lparr>transmitted := transmitted S @ [(sd, take (nat ns) bytes)]\<rparr>);
     Some (ns, snd (update_sd_event sd ev S)) }"

definition consume_send_buf :: "nat \<Rightarrow> u32 \<Rightarrow> rtsp_srv \<Rightarrow> (int \<times> rtsp_srv) option" where
  "consume_send_buf p type S = do {
     s \<leftarrow> sess_at S p;
     (case send_queue s of
       [] \<Rightarrow> Some (0, S)
     | b # bs \<Rightarrow>
         if and (data_type_bit (buf_type b)) type \<noteq> 0 then do {
           (ns, S) \<leftarrow> send_buf_data s b S;
           if ns < 0 then Some (- 1, S) else Some (0, put p (s\<lparr>send_queue := bs\<rparr>) S) }
         else Some (0, S)) }"

text \<open>The variable \<open>ev\<close> keeps the bits of the sessions before.\<close>

fun check_queues :: "nat list \<Rightarrow> u32 \<Rightarrow> rtsp_srv \<Rightarrow> (int \<times> rtsp_srv) option" where
  "check_queues [] ev S = Some (0, S)"
| "check_queues (p # ps) ev S = do {
     s \<leftarrow> sess_at S p;
     (case send_queue s of
       [] \<Rightarrow> check_queues ps ev S
     | b # _ \<Rightarrow> (let
           (sd, dfl) = buf_sd s (buf_type b);
           ev = or ev dfl;
           (r, S) = update_sd_event sd ev S
         in if r < 0 then Some (- 1, S) else check_queues ps ev S)) }"

definition check_send_queue :: "rtsp_srv \<Rightarrow> (int \<times> rtsp_srv) option" where
  "check_send_queue S = check_queues (rtsp_sess_list S) EPOLLOUT S"

subsection \<open>Responses\<close>

text \<open>\<open>MOVE_FORWARD(); snprintf(line, left, ...)\<close> in a buffer of \<open>sz\<close> bytes.\<close>

definition emit :: "nat \<Rightarrow> u8 list \<Rightarrow> u8 list \<Rightarrow> u8 list" where
  "emit sz text x = take (sz - 1) (text @ x)"

definition RTSP_RESP_SZ :: nat where
  "RTSP_RESP_SZ = 100 * 1024"

abbreviation (input) crlf :: "u8 list" where
  "crlf \<equiv> [0x0D, 0x0A]"

text \<open>\<open>%hhd\<close> of a signed character.\<close>

definition dec_char :: "u8 \<Rightarrow> u8 list" where
  "dec_char c = (if sint c < 0 then 0x2D # dec (nat (- sint c)) else dec (nat (sint c)))"

definition transport_line :: "bool \<Rightarrow> transport \<Rightarrow> u8 list" where
  "transport_line intlvd t = (if intlvd
     then str ''Transport: RTP/AVP/TCP;unicast;interleaved='' @ dec_char (t_rtp_chn t) @ str ''-'' @
          dec_char (t_rtcp_chn t) @ crlf
     else str ''Transport: RTP/AVP/UDP;unicast;client_port='' @ dec (unat (t_rtp_cli_port t)) @ str ''-'' @
          dec (unat (t_rtcp_cli_port t)) @ str '';server_port='' @ dec (unat (t_rtp_srv_port t)) @ str ''-'' @
          dec (unat (t_rtcp_srv_port t)) @ crlf)"

text \<open>The header fields of the methods.\<close>

definition method_fields :: "rtsp_sess \<Rightarrow> rtsp_req \<Rightarrow> rtsp_resp \<Rightarrow> u8 list list option" where
  "method_fields s rq rs = (case req_method rq of
     Some RTSP_METHOD_OPTIONS \<Rightarrow> do { pub \<leftarrow> resp_public rs; Some [str ''Public: '' @ pub @ crlf] }
   | Some RTSP_METHOD_DESCRIBE \<Rightarrow> do {
       sdp \<leftarrow> resp_sdp_info rs;
       Some [str ''Content-type: application/sdp'' @ crlf,
             str ''Content-length: '' @ dec (length sdp) @ crlf,
             sdp] }
   | Some RTSP_METHOD_SETUP \<Rightarrow> Some [transport_line (intlvd_mode s) (resp_transport rs)]
   | _ \<Rightarrow> Some [])"

definition resp_lines :: "u8 list \<Rightarrow> rtsp_sess \<Rightarrow> rtsp_req \<Rightarrow> rtsp_resp \<Rightarrow> u8 list list option" where
  "resp_lines date s rq rs = do {
     ver \<leftarrow> resp_ver rs;
     server \<leftarrow> resp_server rs;
     let code = status_value (resp_status rs);
     let common = [ver @ [0x20] @ dec (unat code) @ [0x20] @ str (get_status_reason code) @ crlf,
                   str ''CSeq: '' @ dec (unat (resp_cseq rs)) @ crlf,
                   date,
                   str ''Server: '' @ server @ crlf];
     (if handling_state s = HANDLING_STATE_HANDLED then do {
        fields \<leftarrow> method_fields s rq rs;
        Some (common @ (if resp_sess_id rs \<noteq> 0 then [str ''Session: '' @ dec (unat (resp_sess_id rs)) @ crlf] else [])
              @ fields @ [crlf]) }
      else Some (common @ [crlf])) }"

definition resp_buf :: "u8 list \<Rightarrow> send_buf" where
  "resp_buf text = \<lparr>buf_type = DATA_TYPE_RTSP_RESP, buf_sz = of_nat (length text),
     buf_data = text @ replicate (RTSP_RESP_SZ - length text) 0\<rparr>"

definition produce_rtsp_resp :: "nat \<Rightarrow> rtsp_srv \<Rightarrow> rtsp_srv option" where
  "produce_rtsp_resp p S = (if \<not> rtsp_sess_exist p S then Some S else do {
     s \<leftarrow> sess_at S p;
     if handling_state s \<noteq> HANDLING_STATE_ERROR \<and> handling_state s \<noteq> HANDLING_STATE_HANDLED then Some S
     else (case create_send_buf DATA_TYPE_RTSP_RESP (of_nat RTSP_RESP_SZ) (srv_mem S) of
         (None, m) \<Rightarrow> Some (put p (s\<lparr>handling_state := HANDLING_STATE_FAILED\<rparr>) (S\<lparr>srv_mem := m\<rparr>))
       | (Some _, m) \<Rightarrow> do {
           rq \<leftarrow> req s;
           rs \<leftarrow> resp s;
           lines \<leftarrow> resp_lines (date_hdr S) s rq rs;
           let b = resp_buf (fold (\<lambda>l t. emit RTSP_RESP_SZ t l) lines []);
           Some (put p ((add_send_buf s b)\<lparr>handling_state := HANDLING_STATE_DONE\<rparr>) (S\<lparr>srv_mem := m\<rparr>)) }) })"

end
