(* ===== verification/Rtsp_Method.thy ===== *)
theory Rtsp_Method
  imports Rtsp_Session Rtsp_Util
begin

text \<open>
  The handlers of the RTSP methods and the handling of a request (\<open>rtsp_method.c\<close>), the dispatch of
  \<open>rtsp_sess.c\<close>, the handlers of socket events (\<open>sd_handler.c\<close>) and a round of the server thread
  (\<open>rtsp_srv.c\<close>).
\<close>

subsection \<open>The description of a stream\<close>

text \<open>The search for the parameter sets; \<open>sps\<close> and \<open>pps\<close> are NULL until found. The result is
  \<open>None\<close> for the early return.\<close>

function find_sets :: "u8 list \<Rightarrow> nat \<Rightarrow> nat \<Rightarrow> nat option \<Rightarrow> nat option \<Rightarrow> (nat \<times> nat) option option" where
  "find_sets buf ptr end sps pps = (case (sps, pps) of
     (Some a, Some b) \<Rightarrow> Some (Some (a, b))
   | _ \<Rightarrow> (case skip_nalu_start_code buf ptr end of
       None \<Rightarrow> None
     | Some None \<Rightarrow> Some None
     | Some (Some ptr) \<Rightarrow> (case rd buf ptr of
         None \<Rightarrow> None
       | Some c \<Rightarrow>
           if and c 0x1F = 7 then find_sets buf ptr end (Some ptr) pps
           else if and c 0x1F = 8 then find_sets buf ptr end sps (Some ptr)
           else find_sets buf ptr end sps pps)))"
  by pat_completeness auto
termination
  by (relation "measure (\<lambda>(buf, ptr, end, sps, pps). end - ptr)") (auto dest!: skip_nalu_start_code_less)

declare find_sets.simps [simp del]

definition hex_digit :: "nat \<Rightarrow> u8" where
  "hex_digit k = (if k < 10 then 0x30 + of_nat k else 0x37 + of_nat k)"

definition hex2 :: "u8 \<Rightarrow> u8 list" where
  "hex2 c = [hex_digit (unat c div 16), hex_digit (unat c mod 16)]"

definition sdp_lines :: "nat \<Rightarrow> u8 list \<Rightarrow> u8 list list" where
  "sdp_lines now ip = [crlf, str ''v=0'' @ crlf,
     str ''o=- '' @ dec now @ str '' '' @ dec (now + 1) @ str '' IN IP4 '' @ ip @ crlf,
     str ''s=streamed by the ZMODO RTSP server'' @ crlf, str ''t=0 0'' @ crlf,
     str ''m=video 0 RTP/AVP 96'' @ crlf, str ''a=rtpmap:96 H264/90000'' @ crlf, str ''a=control:track0'' @ crlf,
     str ''a=range:npt=0-'' @ crlf]"

text \<open>The comparisons \<open>(b64_sps = encode_base64(...)) < 0\<close> never hold for a pointer; a NULL string is
  passed on to \<open>snprintf\<close>.\<close>

definition make_sdp_info :: "rtsp_sess \<Rightarrow> rtsp_srv \<Rightarrow> (u8 list option \<times> rtsp_srv) option" where
  "make_sdp_info s S = do {
     let f = frm_info s;
     let end = unat (frm_sz f);
     found \<leftarrow> find_sets (frm_buf f) 0 end None None;
     (case found of
       None \<Rightarrow> Some (None, S)
     | Some (sps, pps) \<Rightarrow>
         (case sys S of (r, S) \<Rightarrow> if r < 0 then Some (None, S) else do {
           n \<leftarrow> get_nalu_sz (frm_buf f) sps end;
           sps_bytes \<leftarrow> slice (frm_buf f) sps n;
           (b64_sps, m) \<leftarrow> encode_base64 sps_bytes (srv_mem S);
           n \<leftarrow> get_nalu_sz (frm_buf f) pps end;
           pps_bytes \<leftarrow> slice (frm_buf f) pps n;
           (b64_pps, m) \<leftarrow> encode_base64 pps_bytes m;
           profile \<leftarrow> slice (frm_buf f) (sps + 1) 3;
           b64_sps \<leftarrow> b64_sps \<bind> c_str;
           b64_pps \<leftarrow> b64_pps \<bind> c_str;
           let fmtp = str ''a=fmtp:96 packetization-mode=1;profile-level-id='' @ concat (map hex2 profile) @
             str '';sprop-parameter-sets='' @ b64_sps @ str '','' @ b64_pps @ crlf;
           Some (Some (fold (\<lambda>l t. emit 2048 t l) (sdp_lines (unix_time S) (local_ip S) @ [fmtp]) []), S\<lparr>srv_mem := m\<rparr>) })) }"

subsection \<open>The methods\<close>

definition supported_methods :: string where
  "supported_methods = ''OPTIONS, DESCRIBE, SETUP, TEARDOWN, PLAY, PAUSE, GET_PARAMETER, SET_PARAMETER''"

abbreviation set_handling :: "handling_state \<Rightarrow> rtsp_sess \<Rightarrow> rtsp_sess" where
  "set_handling h \<equiv> handling_state_update (\<lambda>_. h)"

definition handle_method_options :: "nat \<Rightarrow> rtsp_srv \<Rightarrow> rtsp_srv option" where
  "handle_method_options p S = do {
     s \<leftarrow> sess_at S p;
     _ \<leftarrow> resp s;
     let (pub, m) = strndup (str supported_methods) (length supported_methods) (srv_mem S);
     Some (put p (set_handling HANDLING_STATE_HANDLED (upd_resp (\<lambda>rs. rs\<lparr>resp_public := pub\<rparr>) s)) (S\<lparr>srv_mem := m\<rparr>)) }"

definition get_frm :: "rtsp_srv \<Rightarrow> (int \<times> frm_info) \<times> rtsp_srv" where
  "get_frm S = (case frames S of
     [] \<Rightarrow> ((- 1, \<lparr>frm_sz = 0, frm_type = FRM_TYPE_NONE, frm_buf = []\<rparr>), S)
   | f # fs \<Rightarrow> (f, S\<lparr>frames := fs\<rparr>))"

definition handle_method_describe :: "nat \<Rightarrow> rtsp_srv \<Rightarrow> rtsp_srv option" where
  "handle_method_describe p S = do {
     s \<leftarrow> sess_at S p;
     _ \<leftarrow> resp s;
     let (r, S) = (if handling_state s \<noteq> HANDLING_STATE_RETRY then sys S else (0, S));
     if r < 0 then Some (put p (set_handling HANDLING_STATE_FAILED s) S)
     else do {
       let ((r, f), S) = get_frm S;
       let s = s\<lparr>frm_info := f\<rparr>;
       if r < 0 then Some (put p (set_handling HANDLING_STATE_FAILED s) S)
       else if frm_type f \<noteq> FRM_TYPE_I then Some (put p (set_handling HANDLING_STATE_RETRY s) S)
       else do {
         (sdp, S) \<leftarrow> make_sdp_info s S;
         let s = upd_resp (\<lambda>rs. rs\<lparr>resp_sdp_info := sdp\<rparr>) s;
         Some (put p (set_handling (if sdp = None then HANDLING_STATE_FAILED else HANDLING_STATE_HANDLED) s) S) } } }"

definition handle_method_setup :: "nat \<Rightarrow> rtsp_srv \<Rightarrow> rtsp_srv option" where
  "handle_method_setup p S = do {
     (r, S) \<leftarrow> create_rtp_sess p S;
     if r < 0 then upd p (set_handling HANDLING_STATE_FAILED) S
     else upd p (\<lambda>s. set_handling HANDLING_STATE_HANDLED
       (if rtsp_state s \<noteq> RTSP_STATE_PLAYING then s\<lparr>rtsp_state := RTSP_STATE_READY\<rparr> else s)) S }"

definition handle_method_play :: "nat \<Rightarrow> rtsp_srv \<Rightarrow> rtsp_srv option" where
  "handle_method_play p S = do {
     s \<leftarrow> sess_at S p;
     if rtsp_state s = RTSP_STATE_INIT
     then Some (put p (set_handling HANDLING_STATE_ERROR (upd_resp (\<lambda>rs. rs\<lparr>resp_status := METHOD_NOT_VALID_IN_THIS_STATE\<rparr>) s)) S)
     else do {
       S \<leftarrow> new_task Prefetch_frm p 0 (put p (s\<lparr>rtsp_state := RTSP_STATE_PLAYING\<rparr>) S);
       upd p (set_handling HANDLING_STATE_HANDLED) S } }"

definition handle_method_pause :: "nat \<Rightarrow> rtsp_srv \<Rightarrow> rtsp_srv option" where
  "handle_method_pause p S = upd p (\<lambda>s. set_handling HANDLING_STATE_HANDLED
     (if rtsp_state s = RTSP_STATE_PLAYING then s\<lparr>rtsp_state := RTSP_STATE_READY\<rparr> else s)) S"

definition handle_method_get_parameter :: "nat \<Rightarrow> rtsp_srv \<Rightarrow> rtsp_srv option" where
  "handle_method_get_parameter p S = upd p (set_handling HANDLING_STATE_HANDLED) S"

definition handle_method_set_parameter :: "nat \<Rightarrow> rtsp_srv \<Rightarrow> rtsp_srv option" where
  "handle_method_set_parameter p S = upd p (set_handling HANDLING_STATE_HANDLED) S"

definition handle_method_teardown :: "nat \<Rightarrow> rtsp_srv \<Rightarrow> rtsp_srv option" where
  "handle_method_teardown p S = do {
     S \<leftarrow> upd p (\<lambda>s. s\<lparr>rtsp_state := RTSP_STATE_INIT\<rparr>) S;
     S \<leftarrow> new_task Destroy_rtsp_sess p (10 * 1000) S;
     upd p (set_handling HANDLING_STATE_HANDLED) S }"

fun handle_method :: "rtsp_method \<Rightarrow> nat \<Rightarrow> rtsp_srv \<Rightarrow> rtsp_srv option" where
  "handle_method RTSP_METHOD_OPTIONS = handle_method_options"
| "handle_method RTSP_METHOD_DESCRIBE = handle_method_describe"
| "handle_method RTSP_METHOD_SETUP = handle_method_setup"
| "handle_method RTSP_METHOD_PLAY = handle_method_play"
| "handle_method RTSP_METHOD_PAUSE = handle_method_pause"
| "handle_method RTSP_METHOD_GET_PARAMETER = handle_method_get_parameter"
| "handle_method RTSP_METHOD_SET_PARAMETER = handle_method_set_parameter"
| "handle_method RTSP_METHOD_TEARDOWN = handle_method_teardown"

definition run_rtsp_state_machine :: "nat \<Rightarrow> rtsp_srv \<Rightarrow> rtsp_srv option" where
  "run_rtsp_state_machine p S = do {
     s \<leftarrow> sess_at S p;
     if handling_state s \<noteq> HANDLING_STATE_PARSED \<and> handling_state s \<noteq> HANDLING_STATE_RETRY then Some S
     else do {
       rq \<leftarrow> req s;
       meth \<leftarrow> req_method rq;
       handle_method meth p S } }"

subsection \<open>The handling of a request\<close>

text \<open>When an allocation fails the session keeps its former pointers; \<open>req\<close> and \<open>resp\<close> are \<open>None\<close>
  when they are NULL or freed.\<close>

definition handling_method_init :: "nat \<Rightarrow> rtsp_srv \<Rightarrow> rtsp_srv option" where
  "handling_method_init p S = do {
     s \<leftarrow> sess_at S p;
     if handling_state s = HANDLING_STATE_RETRY then Some S
     else do {
       let (ok, S) = srv_malloc S;
       if \<not> ok then Some (put p (set_handling HANDLING_STATE_FAILED s) S)
       else do {
         let (ok, S) = srv_malloc S;
         if \<not> ok then Some (put p (set_handling HANDLING_STATE_FAILED s) S)
         else Some (put p (set_handling HANDLING_STATE_READY (s\<lparr>req := Some zero_req, resp := Some zero_resp\<rparr>)) S) } } }"

definition handling_method_done :: "nat \<Rightarrow> rtsp_srv \<Rightarrow> rtsp_srv option" where
  "handling_method_done p S = do {
     s \<leftarrow> sess_at S p;
     if handling_state s = HANDLING_STATE_RETRY then Some S
     else do {
       _ \<leftarrow> req s;
       _ \<leftarrow> resp s;
       Some (put p (set_handling HANDLING_STATE_INIT (s\<lparr>req := None, resp := None\<rparr>)) S) } }"

definition parse_of :: "(u8 list \<Rightarrow> bool) \<Rightarrow> nat \<Rightarrow> rtsp_srv \<Rightarrow> rtsp_srv option" where
  "parse_of exists p S = do {
     s \<leftarrow> sess_at S p;
     (s, m) \<leftarrow> parse_rtsp_req exists (\<lambda>i. rtsp_sess_id_exist i S = Some True) s (srv_mem S);
     Some (put p s (S\<lparr>srv_mem := m\<rparr>)) }"

definition handle_rtsp_req :: "(u8 list \<Rightarrow> bool) \<Rightarrow> nat \<Rightarrow> rtsp_srv \<Rightarrow> (int \<times> rtsp_srv) option" where
  "handle_rtsp_req exists p S = do {
     S \<leftarrow> handling_method_init p S;
     S \<leftarrow> parse_of exists p S;
     S \<leftarrow> run_rtsp_state_machine p S;
     S \<leftarrow> produce_rtsp_resp p S;
     S \<leftarrow> handling_method_done p S;
     s \<leftarrow> sess_at S p;
     Some (if handling_state s = HANDLING_STATE_RETRY then 40 * 1000 else - 1, S) }"

text \<open>The tasks of the queue.\<close>

definition prefetch_task :: "nat \<Rightarrow> rtsp_srv \<Rightarrow> (int \<times> rtsp_srv) option" where
  "prefetch_task p S = do {
     s \<leftarrow> sess_at S p;
     let (got, S') = get_frm S;
     let S = (if rtsp_state s \<noteq> RTSP_STATE_PLAYING \<or> handling_state s \<noteq> HANDLING_STATE_INIT then S else S');
     (r, s, m) \<leftarrow> prefetch_frm s got (srv_mem S);
     Some (r, put p s (S\<lparr>srv_mem := m\<rparr>)) }"

fun run_task :: "(u8 list \<Rightarrow> bool) \<Rightarrow> task_proc \<Rightarrow> nat \<Rightarrow> rtsp_srv \<Rightarrow> (int \<times> rtsp_srv) option" where
  "run_task exists Handle_rtsp_req = handle_rtsp_req exists"
| "run_task exists Prefetch_frm = prefetch_task"
| "run_task exists Destroy_rtsp_sess = destroy_rtsp_sess"

subsection \<open>Socket events\<close>

definition set_block_mode :: "rtsp_srv \<Rightarrow> int \<times> rtsp_srv" where
  "set_block_mode S = (let (flags, S) = sys S in
     if flags < 0 then (- 1, S) else let (r, S) = sys S in (if r < 0 then - 1 else 0, S))"

definition handle_lsn_sd :: "rtsp_srv \<Rightarrow> (int \<times> rtsp_srv) option" where
  "handle_lsn_sd S = (let (r, S) = sys S in
     if r < 0 then Some (- 1, S)
     else let sd = word_of_int r; (b, S) = set_block_mode S in
     if b < 0 then Some (- 1, close_sd sd S)
     else let (o', S) = sys S in
     if o' < 0 then Some (- 1, S)
     else let (_, S) = monitor_sd_event sd RTSP_SD_DFL_EV S in do {
       (_, S) \<leftarrow> create_rtsp_sess sd S;
       Some (0, S) })"

text \<open>\<open>recv\<close>: the bytes that it stores, none at the end of the stream or on an error.\<close>

definition recv :: "nat \<Rightarrow> rtsp_srv \<Rightarrow> u8 list \<times> rtsp_srv" where
  "recv n S = (case received S of [] \<Rightarrow> ([], S) | c # cs \<Rightarrow> (take n c, S\<lparr>received := cs\<rparr>))"

definition filter_data_from_rtsp_sd :: "nat \<Rightarrow> rtsp_srv \<Rightarrow> (int \<times> rtsp_srv) option" where
  "filter_data_from_rtsp_sd p S = do {
     s \<leftarrow> sess_at S p;
     c \<leftarrow> rd (recv_buf s) 0;
     let offset = (if c = 0x24 then 1 else 0);
     let (data, S) = recv (100 * 1024 - offset) S;
     if data = [] then Some (- 1, S)
     else do {
       buf \<leftarrow> memcpy (recv_buf s) offset data;
       let s = s\<lparr>recv_buf := buf\<rparr>;
       let S = put p s S;
       if length data = 100 * 1024 - offset then Some (0, S)
       else do {
         c \<leftarrow> rd buf 0;
         if c = 0x24 \<and> length data = 1 then Some (0, S)
         else if c = 0x24 then do { buf \<leftarrow> wr buf 0 0; Some (0, put p (s\<lparr>recv_buf := buf\<rparr>) S) }
         else do { S \<leftarrow> new_task Handle_rtsp_req p 0 S; Some (0, S) } } } }"

definition handle_rtsp_sd :: "nat \<Rightarrow> u32 \<Rightarrow> rtsp_srv \<Rightarrow> rtsp_srv option" where
  "handle_rtsp_sd p event S = do {
     (r, S) \<leftarrow> (if and event EPOLLIN \<noteq> 0 then filter_data_from_rtsp_sd p S else Some (0, S));
     if r < 0 then do { (_, S) \<leftarrow> destroy_rtsp_sess p S; Some S }
     else if and event EPOLLOUT \<noteq> 0 then do {
       s \<leftarrow> sess_at S p;
       (r, S) \<leftarrow> consume_send_buf p (if intlvd_mode s then 0x1F else 0x01) S;
       if r < 0 then do { (_, S) \<leftarrow> destroy_rtsp_sess p S; Some S } else Some S }
     else Some S }"

definition handle_rtp_sd :: "u32 \<Rightarrow> nat \<Rightarrow> u32 \<Rightarrow> rtsp_srv \<Rightarrow> rtsp_srv option" where
  "handle_rtp_sd sd p event S = do {
     s \<leftarrow> sess_at S p;
     let type = (if sd = rtp_sd (rtp_video s) then data_type_bit DATA_TYPE_RTP_V_PKT else data_type_bit DATA_TYPE_RTP_A_PKT);
     if and event EPOLLOUT \<noteq> 0 then do {
       (r, S) \<leftarrow> consume_send_buf p type S;
       if r < 0 then do { (_, S) \<leftarrow> destroy_rtsp_sess p S; Some S } else Some S }
     else Some S }"

definition handle_rtcp_sd :: "rtsp_srv \<Rightarrow> rtsp_srv option" where
  "handle_rtcp_sd S = Some S"

definition do_sd_handler :: "u32 \<Rightarrow> u32 \<Rightarrow> rtsp_srv \<Rightarrow> rtsp_srv option" where
  "do_sd_handler sd event S = (case find (\<lambda>h. h_sd h = sd) (sd_handler_list S) of
     None \<Rightarrow> Some S
   | Some h \<Rightarrow> (case h_proc h of
       Handle_lsn_sd \<Rightarrow> map_option snd (handle_lsn_sd S)
     | Handle_rtsp_sd \<Rightarrow> handle_rtsp_sd (h_arg h) event S
     | Handle_rtp_sd \<Rightarrow> handle_rtp_sd sd (h_arg h) event S
     | Handle_rtcp_sd \<Rightarrow> handle_rtcp_sd S))"

text \<open>A round of the server thread: the events that \<open>epoll_wait\<close> reports, then a delayed task.\<close>

fun do_events :: "(u32 \<times> u32) list \<Rightarrow> rtsp_srv \<Rightarrow> rtsp_srv option" where
  "do_events [] S = Some S"
| "do_events ((sd, ev) # evs) S = do {
     S \<leftarrow> (if and ev EPOLLERR \<noteq> 0 \<or> and ev EPOLLRDHUP \<noteq> 0 \<or> and ev EPOLLHUP \<noteq> 0
          then destroy_rtsp_sess_contain_sd sd S else do_sd_handler sd ev S);
     do_events evs S }"

definition srv_round :: "(u8 list \<Rightarrow> bool) \<Rightarrow> (u32 \<times> u32) list \<Rightarrow> rtsp_srv \<Rightarrow> rtsp_srv option" where
  "srv_round exists evs S = do {
     (r, S) \<leftarrow> check_send_queue S;
     if r < 0 then Some S
     else do {
       (_, S) \<leftarrow> get_min_delay_time S;
       S \<leftarrow> do_events evs S;
       do_delay_task (run_task exists) S } }"

subsection \<open>Starting and stopping\<close>

definition create_and_bind :: "rtsp_srv \<Rightarrow> u32 \<times> rtsp_srv" where
  "create_and_bind S = (let (r, S) = sys S in
     if r < 0 then (- 1, S)
     else let sd = word_of_int r; (b, S) = set_block_mode S in
     if b < 0 then (- 1, close_sd sd S)
     else let (r, S) = sys S in
     if r < 0 then (- 1, close_sd sd S)
     else let (r, S) = sys S in
     if r < 0 then (- 1, close_sd sd S) else (sd, S))"

definition start_rtsp_srv :: "rtsp_srv \<Rightarrow> int \<times> rtsp_srv" where
  "start_rtsp_srv S = (let
     S = init_delay_task_queue (init_sd_handler_list (init_rtsp_sess_list (S\<lparr>rtsp_lsn_sd := - 1, http_lsn_sd := - 1\<rparr>)));
     (r, S) = sys S
   in if r \<noteq> 0 then (- 1, S) else (0, S))"

text \<open>The server thread up to its loop: the limit of open files (\<open>EPERM\<close> is 1, \<open>EINVAL\<close> 22), the epoll
  descriptor, the listening socket and its handler, whose argument is the server, the room for the
  events. The result says whether the loop is entered.\<close>

definition thrd_exit :: "rtsp_srv \<Rightarrow> rtsp_srv" where
  "thrd_exit S = (close_sd (epoll_fd S) (close_sd (http_lsn_sd S) (close_sd (rtsp_lsn_sd S)
     (deregister_sd_handler (rtsp_lsn_sd S) S))))\<lparr>rtsp_lsn_sd := - 1, http_lsn_sd := - 1\<rparr>"

definition thrd_init :: "rtsp_srv \<Rightarrow> bool \<times> rtsp_srv" where
  "thrd_init S = (let (limit, S) = sys S in
     if limit = - 1 \<or> limit = - 22 then
       (let (limit, S) = sys S in if limit < 0 then (False, thrd_exit S) else (False, snd (sys S)))
     else if limit < 0 then (False, S)
     else let (epfd, S) = sys S in
     if epfd < 0 then (False, thrd_exit S)
     else let (sd, S) = create_and_bind (S\<lparr>epoll_fd := word_of_int epfd\<rparr>) in
     if sint sd < 0 then (False, thrd_exit S)
     else let (r, S) = sys S in
     if r < 0 then (False, thrd_exit S)
     else let (r, S) = monitor_sd_event sd (or EPOLLIN EPOLLET) (S\<lparr>rtsp_lsn_sd := sd\<rparr>) in
     if r < 0 then (False, thrd_exit S)
     else let (r, S) = register_sd_handler sd Handle_lsn_sd 0 S in
     if r < 0 then (False, thrd_exit S)
     else let (ok, S) = srv_malloc S in
     if ok then (True, S) else (False, thrd_exit S))"

definition stop_rtsp_srv :: "rtsp_srv \<Rightarrow> (int \<times> rtsp_srv) option" where
  "stop_rtsp_srv S = do {
     S \<leftarrow> deinit_rtsp_sess_list (deinit_sd_handler_list S);
     Some (0, S) }"

end
