(* ===== verification/Rtsp_Invariant.thy ===== *)
theory Rtsp_Invariant
  imports Rtsp_Method "HOL-Library.Multiset"
begin

text \<open>
  The state of the RTSP server between events. \<open>srv_ok\<close> is its invariant; every handler of an event,
  every delayed task and the loop of the thread keep it, so it holds in all reachable states
  (\<open>server_consistent\<close>). The locale \<open>timed_tasks\<close> states what the queue of tasks asks of the
  invariant of its client, and the interpretation \<open>srv_tasks\<close> provides it. Then: the order of the
  send queue, and a handler that survives its session.
\<close>

subsection \<open>The tasks of the queue\<close>

abbreviation task_key :: "'p delay_task \<Rightarrow> nat \<times> nat" where
  "task_key t \<equiv> (addr t, arg t)"

definition tasks :: "'p delay_task list \<Rightarrow> (nat \<times> nat) multiset" where
  "tasks q = mset (map task_key q)"

lemma tasks_simps [simp]: "tasks [] = {#}" "tasks (t # q) = add_mset (task_key t) (tasks q)"
  by (simp_all add: tasks_def)

lemma tasks_sync_loop: "sync_loop e q = Some q' \<Longrightarrow> tasks q' = tasks q"
proof (induction e q arbitrary: q' rule: sync_loop.induct)
  case (2 e t ts)
  then show ?case by (fastforce split: if_splits bind_splits)
qed simp

lemma tasks_add_loop: "add_loop t q = Some q' \<Longrightarrow> tasks q' = add_mset (task_key t) (tasks q)"
proof (induction t q arbitrary: q' rule: add_loop.induct)
  case (2 t u us)
  show ?case
  proof (cases "delta_time u > delta_time t")
    case True
    then show ?thesis using "2.prems" by (auto split: bind_splits)
  next
    case False
    then obtain d us' where d: "c_int (delta_time t - delta_time u) = Some d" "add_loop (t\<lparr>delta_time := d\<rparr>) us = Some us'" "q' = u # us'"
      using "2.prems" by (auto split: bind_splits)
    then show ?thesis using "2.IH"[OF False d(1,2)] by (simp add: add_mset_commute)
  qed
qed auto

lemma tasks_unlink: "unlink single a q = Some (t, q') \<Longrightarrow> tasks q = add_mset (task_key t) (tasks q') \<and> addr t = a"
proof (induction q arbitrary: q')
  case (Cons u us)
  show ?case
  proof (cases "addr u = a")
    case True
    then show ?thesis using Cons.prems by (cases us) (auto split: if_splits bind_splits)
  next
    case False
    then obtain q'' where q'': "unlink single a us = Some (t, q'')" "q' = u # q''"
      using Cons.prems by (auto split: bind_splits)
    then show ?thesis using Cons.IH[OF q''(1)] by (simp add: add_mset_commute)
  qed
qed simp

lemma sync_other:
  assumes "sync_delay_time s = Some s'"
  obtains q l c where "s' = s\<lparr>delay_task_queue := q, last_sync_time := l, clock := c\<rparr>" "tasks q = tasks (delay_task_queue s)"
proof -
  have "\<exists>c. snd (time_now s) = s\<lparr>clock := c\<rparr>"
    by (cases "clock s") (auto simp: time_now_def intro: exI[of _ "clock s"])
  then obtain n c where n: "time_now s = (n, s\<lparr>clock := c\<rparr>)" by (metis prod.collapse)
  then consider "s' = s\<lparr>delay_task_queue := delay_task_queue s, last_sync_time := n, clock := c\<rparr>"
    | q where "sync_loop (elapsed_since (last_sync_time s) n) (delay_task_queue s) = Some q"
      "s' = s\<lparr>delay_task_queue := q, last_sync_time := n, clock := c\<rparr>"
    using assms by (auto simp: sync_delay_time_def Let_def split: if_splits bind_splits)
  then show thesis using that tasks_sync_loop by metis
qed

lemma add_other:
  assumes "add_delay_task t s = Some s'"
  obtains q l c where "s' = s\<lparr>delay_task_queue := q, last_sync_time := l, clock := c\<rparr>"
    "tasks q = add_mset (task_key t) (tasks (delay_task_queue s))"
proof -
  obtain s1 q' where s1: "sync_delay_time s = Some s1" and s': "s' = s1\<lparr>delay_task_queue := q'\<rparr>"
    and q': "add_loop t (delay_task_queue s1) = Some q'"
    using assms by (auto simp: add_delay_task_def split: bind_splits)
  obtain q l c where 1: "s1 = s\<lparr>delay_task_queue := q, last_sync_time := l, clock := c\<rparr>" "tasks q = tasks (delay_task_queue s)"
    by (rule sync_other[OF s1])
  show thesis by (rule that[where q = q' and l = l and c = c]) (use 1 s' tasks_add_loop[OF q'] in simp_all)
qed

subsection \<open>The invariant\<close>

text \<open>Between two events the sessions in memory are the listed ones, once each; a request is either
  finished or waits for a key frame; and the tasks have addresses of their own and belong to listed
  sessions.\<close>

definition tasks_ok :: "nat list \<Rightarrow> nat \<Rightarrow> (nat \<times> nat) multiset \<Rightarrow> bool" where
  "tasks_ok live n M \<longleftrightarrow> (\<forall>a. count (image_mset fst M) a \<le> 1) \<and> (\<forall>(a, x) \<in># M. a < n \<and> x \<in> set live)"

definition idle :: "rtsp_sess \<Rightarrow> bool" where
  "idle s \<longleftrightarrow> handling_state s = HANDLING_STATE_INIT \<or> handling_state s = HANDLING_STATE_RETRY"

definition srv_ok :: "rtsp_srv \<Rightarrow> bool" where
  "srv_ok S \<longleftrightarrow> distinct (rtsp_sess_list S) \<and> dom (sess_at S) = set (rtsp_sess_list S) \<and>
     (\<forall>p \<in> set (rtsp_sess_list S). p < next_addr S) \<and> (\<forall>p s. sess_at S p = Some s \<longrightarrow> idle s) \<and>
     tasks_ok (rtsp_sess_list S) (next_addr S) (tasks (delay_task_queue S))"

text \<open>What the handling of an event for the session at \<open>p\<close> may do: that session changes, and tasks are
  scheduled for it.\<close>

definition serves :: "nat \<Rightarrow> rtsp_srv \<Rightarrow> rtsp_srv \<Rightarrow> bool" where
  "serves p S S' \<longleftrightarrow> sess_at S p \<noteq> None \<and> sess_at S' p \<noteq> None \<and> (\<forall>q. q \<noteq> p \<longrightarrow> sess_at S' q = sess_at S q) \<and>
     rtsp_sess_list S' = rtsp_sess_list S \<and> next_addr S \<le> next_addr S' \<and>
     (\<forall>live. tasks_ok live (next_addr S) (tasks (delay_task_queue S)) \<longrightarrow> p \<in> set live \<longrightarrow>
        tasks_ok live (next_addr S') (tasks (delay_task_queue S')))"

definition same :: "rtsp_srv \<Rightarrow> rtsp_srv \<Rightarrow> bool" where
  "same S T \<longleftrightarrow> sess_at T = sess_at S \<and> rtsp_sess_list T = rtsp_sess_list S \<and> next_addr T = next_addr S \<and>
     delay_task_queue T = delay_task_queue S"

lemma same_refl [simp]: "same S S"
  by (simp add: same_def)

lemma same_trans [trans]: "same S T \<Longrightarrow> same T U \<Longrightarrow> same S U"
  by (simp add: same_def)

lemma serves_trans: "serves p S T \<Longrightarrow> serves p T U \<Longrightarrow> serves p S U"
  by (auto simp: serves_def)

lemma same_serves: "same S T \<Longrightarrow> sess_at S p \<noteq> None \<Longrightarrow> serves p S T"
  by (simp add: serves_def same_def)

lemma serves_put: "sess_at S p \<noteq> None \<Longrightarrow> same S T \<Longrightarrow> serves p S (put p s T)"
  by (simp add: serves_def same_def put_def)

lemma serves_live: "serves p S T \<Longrightarrow> sess_at T p \<noteq> None" "serves p S T \<Longrightarrow> sess_at S p \<noteq> None"
  by (simp_all add: serves_def)

lemma tasks_ok_add:
  assumes "tasks_ok live n M" "x \<in> set live"
  shows "tasks_ok live (Suc n) (add_mset (n, x) M)"
proof -
  have "n \<notin># image_mset fst M" using assms(1) by (fastforce simp: tasks_ok_def)
  then have "count (image_mset fst M) n = 0" by (simp only: count_eq_zero_iff not_False_eq_True)
  then show ?thesis using assms by (fastforce simp: tasks_ok_def)
qed

lemma serves_srv_ok:
  assumes "srv_ok S" "serves p S S'" "\<And>s. sess_at S' p = Some s \<Longrightarrow> idle s"
  shows "srv_ok S'"
proof -
  have p: "p \<in> set (rtsp_sess_list S)" using assms(1,2) by (auto simp: srv_ok_def serves_def dom_def)
  have "dom (sess_at S') = dom (sess_at S)" using assms(2) by (auto simp: serves_def dom_def)
  moreover have "idle s" if "sess_at S' q = Some s" for q s
    using that assms by (cases "q = p") (auto simp: srv_ok_def serves_def)
  moreover have "tasks_ok (rtsp_sess_list S') (next_addr S') (tasks (delay_task_queue S'))"
    using assms(1,2) p unfolding srv_ok_def serves_def by metis
  moreover have "\<forall>q \<in> set (rtsp_sess_list S). q < next_addr S'"
    using assms(1,2) unfolding srv_ok_def serves_def by (meson order_less_le_trans)
  moreover have "rtsp_sess_list S' = rtsp_sess_list S" using assms(2) by (simp add: serves_def)
  ultimately show ?thesis using assms(1) unfolding srv_ok_def by metis
qed

subsection \<open>Calls that leave the sessions alone\<close>

lemma same_sys: "sys S = (r, T) \<Longrightarrow> same S T"
  by (cases "results S") (auto simp: sys_def same_def)

lemma same_updates [simp]:
  "same S (T\<lparr>results := a\<rparr>) = same S T" "same S (T\<lparr>srv_mem := m\<rparr>) = same S T" "same S (T\<lparr>epoll := e\<rparr>) = same S T"
  "same S (T\<lparr>closed := c\<rparr>) = same S T" "same S (T\<lparr>sd_handler_list := h\<rparr>) = same S T" "same S (T\<lparr>received := d\<rparr>) = same S T"
  "same S (T\<lparr>frames := f\<rparr>) = same S T" "same S (T\<lparr>transmitted := x\<rparr>) = same S T"
  by (simp_all add: same_def)

lemma same_close [simp]: "same S (close_sd sd T) = same S T" "same S (deregister_sd_handler sd T) = same S T"
  by (simp_all add: close_sd_def deregister_sd_handler_def)

lemma same_malloc: "srv_malloc S = (b, T) \<Longrightarrow> same S T"
  by (auto simp: srv_malloc_def split: prod.splits)

lemma same_events:
  "monitor_sd_event sd ev S = (r, T) \<Longrightarrow> same S T" "update_sd_event sd ev S = (r, T) \<Longrightarrow> same S T"
  by (auto simp: monitor_sd_event_def update_sd_event_def dest: same_sys split: prod.splits if_splits)

lemma same_register: "register_sd_handler sd prc x S = (r, T) \<Longrightarrow> same S T"
  by (auto simp: register_sd_handler_def dest: same_malloc split: prod.splits if_splits)

lemma same_get_frm: "get_frm S = (x, T) \<Longrightarrow> same S T"
  by (auto simp: get_frm_def split: list.splits)

lemma same_recv: "recv n S = (x, T) \<Longrightarrow> same S T"
  by (auto simp: recv_def split: list.splits)

lemma same_block: "set_block_mode S = (x, T) \<Longrightarrow> same S T"
  by (auto simp: set_block_mode_def dest!: same_sys intro: same_trans split: prod.splits if_splits)

lemma same_random64: "random64 S = (x, T) \<Longrightarrow> same S T"
  by (auto simp: random64_def dest!: same_sys intro: same_trans split: prod.splits)

lemma same_open_udp_pair: "open_udp_pair S = (x, T) \<Longrightarrow> same S T"
proof -
  obtain r1 S1 r2 S2 r3 S3 r4 S4 r5 S5 r6 S6 r7 S7 where
    s: "sys S = (r1, S1)" "sys S1 = (r2, S2)" "sys S2 = (r3, S3)" "sys S3 = (r4, S4)" "sys S4 = (r5, S5)"
    "sys S5 = (r6, S6)" "sys S6 = (r7, S7)" by (metis prod.exhaust)
  note eq = s[THEN same_sys, unfolded same_def]
  assume "open_udp_pair S = (x, T)"
  then show "same S T"
    using eq by (auto simp: open_udp_pair_def s Let_def split: if_splits) (simp_all add: same_def close_sd_def)
qed

lemma same_watch_pair: "watch_pair a b p S = (x, T) \<Longrightarrow> same S T"
  by (auto simp: watch_pair_def dest!: same_sys same_events same_register split: prod.splits if_splits)
    (simp_all add: same_def)

lemma serves_trans_same:
  assumes "serves p S T" "same T U"
  shows "serves p S U"
  by (rule serves_trans[OF assms(1) same_serves[OF assms(2) serves_live(1)[OF assms(1)]]])

lemma serves_again: "serves p S T \<Longrightarrow> serves p S (put p s T)"
  by (rule serves_trans[OF _ serves_put[OF serves_live(1) same_refl]])

lemma serves_upd: "upd p f S = Some S' \<Longrightarrow> serves p S S'"
  by (auto simp: upd_def intro: serves_put)

lemma serves_new_task: "new_task prc p d S = Some S' \<Longrightarrow> sess_at S p \<noteq> None \<Longrightarrow> serves p S S'"
proof -
  assume new: "new_task prc p d S = Some S'" and p: "sess_at S p \<noteq> None"
  let ?S = "S\<lparr>next_addr := Suc (next_addr S)\<rparr>" and ?t = "\<lparr>addr = next_addr S, delta_time = d, arg = p, proc = prc\<rparr>"
  have "\<exists>m. S' = ?S\<lparr>srv_mem := m\<rparr> \<or> (\<exists>T. add_delay_task ?t ?S = Some T \<and> S' = T\<lparr>srv_mem := m\<rparr>)"
    using new by (cases rule: malloc_cases[of "next_addr S" "srv_mem S"])
      (auto simp: new_task_def create_delay_task_def split: bind_splits)
  then consider (full) m where "S' = ?S\<lparr>srv_mem := m\<rparr>"
    | (added) T m where "add_delay_task ?t ?S = Some T" "S' = T\<lparr>srv_mem := m\<rparr>" by blast
  then show ?thesis
  proof cases
    case full
    then show ?thesis using p by (fastforce simp: serves_def tasks_ok_def)
  next
    case added
    obtain q l c where "T = ?S\<lparr>delay_task_queue := q, last_sync_time := l, clock := c\<rparr>"
      "tasks q = add_mset (next_addr S, p) (tasks (delay_task_queue S))"
      by (rule add_other[OF added(1)]) simp
    then show ?thesis using p added(2) tasks_ok_add by (simp add: serves_def)
  qed
qed

subsection \<open>The handling of a request\<close>

lemma serves_setup_intlvd: "setup_intlvd_mode p S = Some (r, S') \<Longrightarrow> serves p S S'"
  by (auto simp: setup_intlvd_mode_def Let_def split: bind_splits intro!: serves_put)

lemma serves_setup_non_intlvd: "setup_non_intlvd_mode p S = Some (r, S') \<Longrightarrow> serves p S S'"
  unfolding setup_non_intlvd_mode_def Let_def
  by (auto split: bind_splits prod.splits option.splits if_splits dest!: same_open_udp_pair same_watch_pair
    simp: same_def serves_def put_def close_sd_def)

lemma serves_via:
  assumes "serves p (put p s V) W" "same S V \<and> same W U \<and> sess_at S p \<noteq> None"
  shows "serves p S U"
  using assms by (meson serves_put serves_trans serves_trans_same)

lemma serves_create_rtp_sess: "create_rtp_sess p S = Some (r, S') \<Longrightarrow> serves p S S'"
  by (auto simp: create_rtp_sess_def Let_def split: bind_splits if_splits prod.splits
    dest!: same_random64 same_sys serves_setup_intlvd serves_setup_non_intlvd)
    (erule serves_via, simp add: same_def)+

lemma serves_options: "handle_method_options p S = Some S' \<Longrightarrow> serves p S S'"
  by (auto simp: handle_method_options_def split: bind_splits prod.splits intro!: serves_put)

lemma same_encode: "make_sdp_info s S = Some (x, T) \<Longrightarrow> same S T"
  by (auto simp: make_sdp_info_def Let_def split: bind_splits prod.splits option.splits if_splits dest: same_sys)

lemma serves_describe: "handle_method_describe p S = Some S' \<Longrightarrow> serves p S S'"
  by (auto simp: handle_method_describe_def Let_def split: bind_splits prod.splits if_splits
    dest!: same_sys same_get_frm same_encode intro!: serves_put) (auto simp: same_def)

lemma serves_setup: "handle_method_setup p S = Some S' \<Longrightarrow> serves p S S'"
  by (auto simp: handle_method_setup_def split: bind_splits if_splits
    dest!: serves_create_rtp_sess serves_upd intro: serves_trans)

lemma serves_play: "handle_method_play p S = Some S' \<Longrightarrow> serves p S S'"
proof -
  assume play: "handle_method_play p S = Some S'"
  then obtain s where s: "sess_at S p = Some s" by (auto simp: handle_method_play_def split: bind_splits)
  show ?thesis
  proof (cases "rtsp_state s = RTSP_STATE_INIT")
    case True
    then show ?thesis using play s by (auto simp: handle_method_play_def intro!: serves_put)
  next
    case False
    then obtain S1 where "new_task Prefetch_frm p 0 (put p (s\<lparr>rtsp_state := RTSP_STATE_PLAYING\<rparr>) S) = Some S1"
      "upd p (set_handling HANDLING_STATE_HANDLED) S1 = Some S'"
      using play s by (auto simp: handle_method_play_def split: bind_splits)
    then show ?thesis
      using serves_new_task[of _ p] serves_upd serves_trans serves_put[OF _ same_refl, of S p] s
      by (metis option.distinct(1) serves_live(1))
  qed
qed

lemma serves_teardown: "handle_method_teardown p S = Some S' \<Longrightarrow> serves p S S'"
  by (auto simp: handle_method_teardown_def split: bind_splits dest!: serves_upd)
    (meson serves_live serves_new_task serves_trans)

lemma serves_handle_method: "handle_method meth p S = Some S' \<Longrightarrow> serves p S S'"
  using serves_options serves_describe serves_setup serves_play serves_teardown serves_upd
  by (cases meth)
    (auto simp: handle_method_pause_def handle_method_get_parameter_def handle_method_set_parameter_def)

lemma serves_run: "run_rtsp_state_machine p S = Some S' \<Longrightarrow> serves p S S'"
  by (auto simp: run_rtsp_state_machine_def split: bind_splits if_splits intro: serves_handle_method same_serves[OF same_refl])

lemma serves_init: "handling_method_init p S = Some S' \<Longrightarrow> serves p S S'"
  by (auto simp: handling_method_init_def split: bind_splits if_splits prod.splits dest!: same_malloc
    intro!: serves_put same_serves[OF same_refl]) (auto simp: same_def)

lemma serves_parse: "parse_of exists p S = Some S' \<Longrightarrow> serves p S S'"
  by (auto simp: parse_of_def split: bind_splits prod.splits intro!: serves_put)

lemma serves_produce: "produce_rtsp_resp p S = Some S' \<Longrightarrow> sess_at S p \<noteq> None \<Longrightarrow> serves p S S'"
  by (auto simp: produce_rtsp_resp_def Let_def split: bind_splits if_splits prod.splits option.splits
    intro!: serves_put same_serves[OF same_refl])

lemma serves_done: "handling_method_done p S = Some S' \<Longrightarrow> serves p S S' \<and> (\<forall>s. sess_at S' p = Some s \<longrightarrow> idle s)"
  by (auto simp: handling_method_done_def idle_def put_def split: bind_splits if_splits
    intro: serves_put[unfolded put_def, OF _ same_refl] same_serves[OF same_refl])

lemma handle_rtsp_req_ok:
  assumes "srv_ok S" "handle_rtsp_req exists p S = Some (r, S')"
  shows "srv_ok S'"
proof -
  obtain S1 S2 S3 S4 where s: "handling_method_init p S = Some S1" "parse_of exists p S1 = Some S2"
    "run_rtsp_state_machine p S2 = Some S3" "produce_rtsp_resp p S3 = Some S4" and d: "handling_method_done p S4 = Some S'"
    using assms(2) by (auto simp: handle_rtsp_req_def split: bind_splits)
  have 3: "serves p S S3"
    by (rule serves_trans[OF serves_init[OF s(1)] serves_trans[OF serves_parse[OF s(2)] serves_run[OF s(3)]]])
  have "serves p S S4" by (rule serves_trans[OF 3 serves_produce[OF s(4) serves_live(1)[OF 3]]])
  then have "serves p S S'" using serves_done[OF d] serves_trans by blast
  then show ?thesis using serves_srv_ok[OF assms(1)] serves_done[OF d] by blast
qed

subsection \<open>The end of a session\<close>

lemma tasks_ok_mono:
  assumes "tasks_ok live n M" "M' \<subseteq># M"
  shows "tasks_ok live n M'"
proof -
  have "count (image_mset fst M') a \<le> count (image_mset fst M) a" for a
    using image_mset_subseteq_mono[OF assms(2), of fst] by (simp add: mset_subset_eq_count)
  then show ?thesis using assms mset_subset_eqD[OF assms(2)] unfolding tasks_ok_def
    by (meson order_trans)
qed

lemma in_tasks: "(a, x) \<in># tasks q \<longleftrightarrow> (\<exists>t \<in> set q. addr t = a \<and> arg t = x)"
  by (auto simp: tasks_def)

lemma destroy_delay_task_other:
  assumes "destroy_delay_task a s = Some s'"
  shows "\<exists>q. s' = s\<lparr>delay_task_queue := q\<rparr> \<and> tasks q \<subseteq># tasks (delay_task_queue s) \<and>
    (a \<in> addr ` set (delay_task_queue s) \<longrightarrow> (\<exists>x. tasks (delay_task_queue s) = add_mset (a, x) (tasks q)))"
proof (cases "a \<in> addr ` set (delay_task_queue s)")
  case True
  then obtain t q where u: "unlink (length (delay_task_queue s) = 1) a (delay_task_queue s) = Some (t, q)"
    and s': "s' = s\<lparr>delay_task_queue := q\<rparr>"
    using assms by (auto simp: destroy_delay_task_def del_delay_task_def split: bind_splits)
  have "tasks (delay_task_queue s) = add_mset (task_key t) (tasks q)" "addr t = a" using tasks_unlink[OF u] by simp_all
  then show ?thesis using s' by (intro exI[of _ q] conjI impI exI[of _ "arg t"]) simp_all
next
  case False
  then have "s' = s\<lparr>delay_task_queue := delay_task_queue s\<rparr>" using assms by (simp add: destroy_delay_task_def)
  then show ?thesis using False by (intro exI[of _ "delay_task_queue s"]) simp
qed

lemma destroy_matching_other:
  assumes "destroy_matching x as s = Some s'" "\<forall>a. count (image_mset fst (tasks (delay_task_queue s))) a \<le> 1"
  shows "\<exists>q. s' = s\<lparr>delay_task_queue := q\<rparr> \<and> tasks q \<subseteq># tasks (delay_task_queue s) \<and> (\<forall>a \<in> set as. (a, x) \<notin># tasks q)"
  using assms
proof (induction as arbitrary: s)
  case Nil
  then show ?case by (intro exI[of _ "delay_task_queue s"]) simp
next
  case (Cons a as)
  obtain s1 q1 where 1: "destroy_matching x as s1 = Some s'" "s1 = s\<lparr>delay_task_queue := q1\<rparr>"
    "tasks q1 \<subseteq># tasks (delay_task_queue s)" "(a, x) \<notin># tasks q1"
  proof (cases "\<exists>t \<in> set (delay_task_queue s). addr t = a \<and> arg t = x")
    case True
    then obtain s1 where s1: "destroy_delay_task a s = Some s1" "destroy_matching x as s1 = Some s'"
      using Cons.prems(1) by (auto split: bind_splits)
    have a: "a \<in> addr ` set (delay_task_queue s)" using True by force
    obtain q1 where q1: "s1 = s\<lparr>delay_task_queue := q1\<rparr>" "tasks q1 \<subseteq># tasks (delay_task_queue s)"
      "\<exists>x. tasks (delay_task_queue s) = add_mset (a, x) (tasks q1)"
      using destroy_delay_task_other[OF s1(1)] a by blast
    then have "count (image_mset fst (tasks (delay_task_queue s))) a = Suc (count (image_mset fst (tasks q1)) a)" by auto
    then have "count (image_mset fst (tasks q1)) a = 0" using Cons.prems(2)[rule_format, of a] by simp
    then have "a \<notin># image_mset fst (tasks q1)" by (simp only: count_eq_zero_iff not_False_eq_True)
    then have "(a, x) \<notin># tasks q1" by force
    then show thesis using that s1(2) q1(1,2) by blast
  next
    case False
    then have "destroy_matching x as s = Some s'" using Cons.prems(1) by (simp only: destroy_matching.simps if_False)
    then show thesis using that[of s "delay_task_queue s"] False by (auto simp: in_tasks)
  qed
  have q1: "delay_task_queue s1 = q1" using 1(2) by simp
  have "\<forall>b. count (image_mset fst (tasks q1)) b \<le> 1"
    using image_mset_subseteq_mono[OF 1(3), of fst] Cons.prems(2) by (meson mset_subset_eq_count order_trans)
  then obtain q where q: "s' = s1\<lparr>delay_task_queue := q\<rparr>" "tasks q \<subseteq># tasks q1" "\<forall>b \<in> set as. (b, x) \<notin># tasks q"
    using Cons.IH[OF 1(1), unfolded q1] by blast
  then have "(a, x) \<notin># tasks q" using 1(4) mset_subset_eqD[OF q(2), of "(a, x)"] by auto
  moreover have "tasks q \<subseteq># tasks (delay_task_queue s)" by (rule subset_mset.order_trans[OF q(2) 1(3)])
  ultimately show ?case using q(1,3) 1(2) by (intro exI[of _ q] conjI) simp_all
qed

lemma destroy_sess_task_other:
  assumes "destroy_sess_task x s = Some s'" "tasks_ok live n (tasks (delay_task_queue s))" "distinct live"
  obtains q where "s' = s\<lparr>delay_task_queue := q\<rparr>" "tasks_ok (remove1 x live) n (tasks q)"
proof -
  obtain q where q: "s' = s\<lparr>delay_task_queue := q\<rparr>" "tasks q \<subseteq># tasks (delay_task_queue s)"
    "\<forall>a \<in> set (map addr (delay_task_queue s)). (a, x) \<notin># tasks q"
    using destroy_matching_other assms(1,2) unfolding destroy_sess_task_def tasks_ok_def by metis
  have "y \<noteq> x" if "(a, y) \<in># tasks q" for a y
  proof
    assume "y = x"
    moreover have "a \<in> set (map addr (delay_task_queue s))" using mset_subset_eqD[OF q(2) that] by (auto simp: in_tasks)
    ultimately show False using that q(3) by blast
  qed
  then have "tasks_ok (remove1 x live) n (tasks q)"
    using tasks_ok_mono[OF assms(2) q(2)] assms(3) by (auto simp: tasks_ok_def)
  then show thesis using that q(1) by blast
qed

lemma close_rtp_other:
  "close_rtp media p S = Some S' \<Longrightarrow> rtsp_sess_list S' = rtsp_sess_list S \<and> next_addr S' = next_addr S \<and>
     delay_task_queue S' = delay_task_queue S \<and> (\<forall>q. q \<noteq> p \<longrightarrow> sess_at S' q = sess_at S q)"
  by (auto simp: close_rtp_def Let_def put_def close_sd_def deregister_sd_handler_def split: bind_splits)

lemma destroy_rtp_other:
  "destroy_rtp_sess p S = Some S' \<Longrightarrow> rtsp_sess_list S' = rtsp_sess_list S \<and> next_addr S' = next_addr S \<and>
     delay_task_queue S' = delay_task_queue S \<and> (\<forall>q. q \<noteq> p \<longrightarrow> sess_at S' q = sess_at S q)"
  by (auto simp: destroy_rtp_sess_def split: bind_splits if_splits dest!: close_rtp_other)

lemma destroy_rtsp_sess_ok:
  assumes "srv_ok S" "destroy_rtsp_sess p S = Some (r, S')"
  shows "srv_ok S'"
proof -
  obtain s where s: "sess_at S p = Some s" using assms(2) by (auto simp: destroy_rtsp_sess_def split: bind_splits)
  have listed: "p \<in> set (rtsp_sess_list S)" "distinct (rtsp_sess_list S)"
    using assms(1) s by (auto simp: srv_ok_def)
  show ?thesis
  proof (cases "handling_state s = HANDLING_STATE_INIT")
    case False
    then show ?thesis using assms s by (auto simp: destroy_rtsp_sess_def)
  next
    case True
    define s1 where "s1 = s\<lparr>rtsp_state := RTSP_STATE_INIT, strm_info := (strm_info s)\<lparr>file_name := None\<rparr>, send_queue := []\<rparr>"
    define S1 where "S1 = put p s1 (close_sd (rtsp_sd s) (deregister_sd_handler (rtsp_sd s)
      ((put p (s\<lparr>rtsp_state := RTSP_STATE_INIT\<rparr>) S)\<lparr>rtsp_sess_list := remove1 p (rtsp_sess_list S)\<rparr>)))"
    obtain S2 S3 where 2: "destroy_sess_task p S1 = Some S2" "destroy_rtp_sess p S2 = Some S3" "S' = free_sess p S3"
      using assms(2) s True listed(1)
      by (auto simp: destroy_rtsp_sess_def rtsp_sess_exist_def put_def S1_def s1_def Let_def split: bind_splits)
    have S1: "sess_at S1 = (sess_at S)(p \<mapsto> s1)" "rtsp_sess_list S1 = remove1 p (rtsp_sess_list S)" "next_addr S1 = next_addr S"
      "delay_task_queue S1 = delay_task_queue S"
      by (simp_all add: S1_def put_def close_sd_def deregister_sd_handler_def)
    obtain q where q: "S2 = S1\<lparr>delay_task_queue := q\<rparr>" "tasks_ok (remove1 p (rtsp_sess_list S)) (next_addr S) (tasks q)"
      by (rule destroy_sess_task_other[OF 2(1), of "rtsp_sess_list S" "next_addr S"])
        (use assms(1) S1 in \<open>simp_all add: srv_ok_def\<close>)
    have "sess_at S' = (sess_at S)(p := None)"
    proof
      fix x show "sess_at S' x = ((sess_at S)(p := None)) x"
        using destroy_rtp_other[OF 2(2)] q(1) S1(1) 2(3) by (cases "x = p") (simp_all add: free_sess_def)
    qed
    moreover have "rtsp_sess_list S' = remove1 p (rtsp_sess_list S)" "next_addr S' = next_addr S" "delay_task_queue S' = q"
      using destroy_rtp_other[OF 2(2)] q(1) S1 2(3) by (simp_all add: free_sess_def)
    ultimately show ?thesis using assms(1) q(2) listed by (auto simp: srv_ok_def dom_def)
  qed
qed

subsection \<open>The other events\<close>

text \<open>Events that do not run the state machine leave the handling state alone.\<close>

definition keeps_handling :: "nat \<Rightarrow> rtsp_srv \<Rightarrow> rtsp_srv \<Rightarrow> bool" where
  "keeps_handling p S S' \<longleftrightarrow> serves p S S' \<and>
     map_option handling_state (sess_at S' p) = map_option handling_state (sess_at S p)"

lemma keeps_srv_ok:
  assumes "srv_ok S" "keeps_handling p S S'"
  shows "srv_ok S'"
proof (rule serves_srv_ok[OF assms(1)])
  show "serves p S S'" using assms(2) by (simp add: keeps_handling_def)
  fix s assume "sess_at S' p = Some s"
  then obtain s0 where "sess_at S p = Some s0" "handling_state s = handling_state s0"
    using assms(2) by (cases "sess_at S p") (auto simp: keeps_handling_def)
  then show "idle s" using assms(1) by (auto simp: srv_ok_def idle_def)
qed

lemma keeps_put: "sess_at S p = Some s \<Longrightarrow> handling_state s' = handling_state s \<Longrightarrow> same S T \<Longrightarrow> keeps_handling p S (put p s' T)"
  by (simp add: keeps_handling_def serves_put) (simp add: put_def)

lemma keeps_same: "same S T \<Longrightarrow> sess_at S p = Some s \<Longrightarrow> keeps_handling p S T"
  by (simp add: keeps_handling_def same_serves) (simp add: same_def)

lemma same_send_buf: "send_buf_data s b S = Some (r, T) \<Longrightarrow> same S T"
proof -
  assume "send_buf_data s b S = Some (r, T)"
  then obtain sd ev bytes ns S1 where 1: "sys S = (ns, S1)"
    "T = snd (update_sd_event sd ev (if ns < 0 then S1 else S1\<lparr>transmitted := transmitted S1 @ [(sd, take (nat ns) bytes)]\<rparr>))"
    by (auto simp: send_buf_data_def split: bind_splits prod.splits)
  show "same S T"
    using same_sys[OF 1(1)] same_events(2)[OF prod.collapse[symmetric], where sd = sd and ev = ev and S = "if ns < 0 then S1 else S1\<lparr>transmitted := transmitted S1 @ [(sd, take (nat ns) bytes)]\<rparr>"]
    unfolding 1(2) by (auto simp: same_def split: if_splits)
qed

lemma keeps_consume: "consume_send_buf p type S = Some (r, S') \<Longrightarrow> keeps_handling p S S'"
  by (auto simp: consume_send_buf_def split: bind_splits list.splits if_splits dest!: same_send_buf
    intro!: keeps_put intro: keeps_same[OF same_refl] keeps_same)


lemma same_check: "check_queues ps ev S = Some (r, T) \<Longrightarrow> same S T"
proof (induction ps arbitrary: ev S)
  case (Cons p ps)
  then obtain s where s: "sess_at S p = Some s" by (auto split: bind_splits)
  show ?case
  proof (cases "send_queue s")
    case Nil
    then show ?thesis using Cons s by simp
  next
    case q: (Cons b bs)
    obtain sd dfl where sd: "buf_sd s (buf_type b) = (sd, dfl)" by (metis prod.exhaust)
    obtain r' T' where u: "update_sd_event sd (or ev dfl) S = (r', T')" by (metis prod.exhaust)
    have T': "same S T'" by (rule same_events(2)[OF u])
    show ?thesis
    proof (cases "r' < 0")
      case True
      then show ?thesis using Cons.prems s q sd u T' by simp
    next
      case False
      then have "check_queues ps (or ev dfl) T' = Some (r, T)" using Cons.prems s q sd u by simp
      then show ?thesis using Cons.IH same_trans[OF T'] by blast
    qed
  qed
qed simp

subsection \<open>Frames\<close>

lemma produce_rtp_pkt_handling:
  "produce_rtp_pkt s media h pl m = Some (r, s', m') \<Longrightarrow> handling_state s' = handling_state s"
  by (auto simp: produce_rtp_pkt_def Let_def add_send_buf_def split: prod.splits option.splits bind_splits if_splits)

lemma upd_hdr_handling [simp]: "handling_state (upd_hdr f s) = handling_state s"
  by (simp add: upd_hdr_def)

lemma fu_step_handling:
  "fu_step buf nalu lst num i (s, m, ptr, left) = Some (s', m', ptr', left') \<Longrightarrow> handling_state s' = handling_state s"
  by (auto simp: fu_step_def Let_def split: bind_splits dest!: produce_rtp_pkt_handling)

lemma for_up_handling:
  "for_up i n (fu_step buf nalu lst num) (s, m, ptr, left) = Some (s', m', ptr', left') \<Longrightarrow> handling_state s' = handling_state s"
proof (induction "n - i" arbitrary: i s m ptr left)
  case (Suc k)
  then obtain s1 m1 ptr1 left1 where 1: "fu_step buf nalu lst num i (s, m, ptr, left) = Some (s1, m1, ptr1, left1)"
    "for_up (Suc i) n (fu_step buf nalu lst num) (s1, m1, ptr1, left1) = Some (s', m', ptr', left')"
    by (auto simp: for_up_step split: bind_splits)
  then show ?case using Suc.hyps(1)[OF _ 1(2)] Suc.hyps(2) fu_step_handling[OF 1(1)] by simp
qed simp

lemma send_h264_nalu_handling:
  "send_h264_nalu s buf nalu sz lst m = Some (s', m') \<Longrightarrow> handling_state s' = handling_state s"
  by (auto simp: send_h264_nalu_def Let_def split: bind_splits if_splits dest!: produce_rtp_pkt_handling for_up_handling)

lemma send_video_frm_handling:
  "send_video_frm s fb ptr end m = Some (s', m') \<Longrightarrow> handling_state s' = handling_state s"
proof (induction s fb ptr "end" m rule: send_video_frm.induct)
  case (1 s fb ptr "end" m)
  note step = "1.prems"[unfolded send_video_frm.simps[of s fb ptr "end" m]]
  show ?case
  proof (cases "ptr = end")
    case True
    then show ?thesis using step by simp
  next
    case False
    then show ?thesis
    proof (cases "skip_nalu_start_code fb ptr end")
      case (Some q)
      show ?thesis
      proof (cases q)
        case None
        then show ?thesis using step Some False by simp
      next
        case q': (Some p)
        then obtain k s1 m1 where k: "get_nalu_sz fb p end = Some k"
          "send_h264_nalu s fb p (of_nat k) (if p + unat (of_nat k :: u32) = end then 1 else 0) m = Some (s1, m1)"
          "send_video_frm s1 fb (p + unat (of_nat k :: u32)) end m1 = Some (s', m')"
          using step Some False by (auto simp: Let_def split: bind_splits)
        then show ?thesis using "1.IH"[OF False Some q' k(1) refl refl k(2) refl k(3)] send_h264_nalu_handling[OF k(2)] by simp
      qed
    qed (use step False in simp)
  qed
qed

lemma prefetch_frm_handling: "prefetch_frm s got m = Some (r, s', m') \<Longrightarrow> handling_state s' = handling_state s"
  by (auto simp: prefetch_frm_def Let_def send_audio_frm_def split: if_splits frm_type.splits bind_splits dest!: send_video_frm_handling)

lemma keeps_prefetch: "prefetch_task p S = Some (r, S') \<Longrightarrow> keeps_handling p S S'"
proof -
  assume "prefetch_task p S = Some (r, S')"
  then obtain s got T s' m' where 1: "sess_at S p = Some s" "get_frm S = (got, T)"
    "prefetch_frm s got (srv_mem (if rtsp_state s \<noteq> RTSP_STATE_PLAYING \<or> handling_state s \<noteq> HANDLING_STATE_INIT then S else T)) = Some (r, s', m')"
    "S' = put p s' ((if rtsp_state s \<noteq> RTSP_STATE_PLAYING \<or> handling_state s \<noteq> HANDLING_STATE_INIT then S else T)\<lparr>srv_mem := m'\<rparr>)"
    by (auto simp: prefetch_task_def Let_def split: bind_splits prod.splits)
  show ?thesis
    unfolding 1(4) by (rule keeps_put[OF 1(1) prefetch_frm_handling[OF 1(3)]]) (simp add: same_get_frm[OF 1(2)])
qed

subsection \<open>Data on a connection\<close>

lemma keeps_handling_trans: "keeps_handling p S T \<Longrightarrow> keeps_handling p T U \<Longrightarrow> keeps_handling p S U"
  unfolding keeps_handling_def using serves_trans by auto

lemma new_task_sess: "new_task prc p d S = Some S' \<Longrightarrow> sess_at S' = sess_at S"
proof -
  assume new: "new_task prc p d S = Some S'"
  let ?S = "S\<lparr>next_addr := Suc (next_addr S)\<rparr>" and ?t = "\<lparr>addr = next_addr S, delta_time = d, arg = p, proc = prc\<rparr>"
  have "\<exists>m. S' = ?S\<lparr>srv_mem := m\<rparr> \<or> (\<exists>T. add_delay_task ?t ?S = Some T \<and> S' = T\<lparr>srv_mem := m\<rparr>)"
    using new by (cases rule: malloc_cases[of "next_addr S" "srv_mem S"])
      (auto simp: new_task_def create_delay_task_def split: bind_splits)
  then consider (full) m where "S' = ?S\<lparr>srv_mem := m\<rparr>"
    | (added) T m where "add_delay_task ?t ?S = Some T" "S' = T\<lparr>srv_mem := m\<rparr>" by blast
  then show ?thesis
  proof cases
    case added
    then show ?thesis by - (rule add_other[OF added(1)], simp)
  qed simp
qed

lemma keeps_new_task: "new_task prc p d S = Some S' \<Longrightarrow> sess_at S p = Some s \<Longrightarrow> keeps_handling p S S'"
  by (simp add: keeps_handling_def serves_new_task new_task_sess)

lemma keeps_filter:
  assumes "filter_data_from_rtsp_sd p S = Some (r, S')"
  shows "keeps_handling p S S'"
proof -
  obtain s c where 1: "sess_at S p = Some s" "rd (recv_buf s) 0 = Some c"
    using assms unfolding filter_data_from_rtsp_sd_def by (elim Option.bind_eq_Some_conv[THEN iffD1, elim_format] exE conjE)
  define off where "off = (if c = 0x24 then 1 else 0 :: nat)"
  obtain data T where 2: "recv (100 * 1024 - off) S = (data, T)" by (metis prod.exhaust)
  have same: "same S T" by (rule same_recv[OF 2])
  note run = assms[unfolded filter_data_from_rtsp_sd_def Let_def 1 Option.bind.bind_lunit off_def[symmetric] 2 prod.case]
  show ?thesis
  proof (cases "data = []")
    case True
    then show ?thesis using run keeps_same[OF same 1(1)] by simp
  next
    case False
    obtain buf where "S' = put p (s\<lparr>recv_buf := buf\<rparr>) T
      \<or> new_task Handle_rtsp_req p 0 (put p (s\<lparr>recv_buf := buf\<rparr>) T) = Some S'"
    proof -
      obtain buf where buf: "memcpy (recv_buf s) off data = Some buf"
        using run False by (cases "memcpy (recv_buf s) off data") simp_all
      note run' = run[unfolded if_not_P[OF False] buf Option.bind.bind_lunit]
      show thesis
      proof (cases "length data = 100 * 1024 - off")
        case True
        then show ?thesis using run' that[of buf] by simp
      next
        case False
        obtain d where "rd buf 0 = Some d" using run' False by (cases "rd buf 0") simp_all
        then show ?thesis using run' False that
          by (cases "d = 0x24"; cases "wr buf 0 0") (auto simp: put_def Option.bind_eq_Some_conv split: if_splits)
      qed
    qed
    moreover have "keeps_handling p S (put p (s\<lparr>recv_buf := buf\<rparr>) T)" by (rule keeps_put[OF 1(1) _ same]) simp
    ultimately show ?thesis using keeps_handling_trans keeps_new_task[of Handle_rtsp_req p 0 "put p (s\<lparr>recv_buf := buf\<rparr>) T" S']
      by (auto simp: put_def)
  qed
qed

subsection \<open>Tasks that respect an invariant\<close>

text \<open>What the queue of tasks asks of its client: the invariant allows tasks to go and time to pass, and
  the callbacks keep it. The queue then keeps it too.\<close>

locale timed_tasks =
  fixes inv :: "('p, 'z) timers_scheme \<Rightarrow> bool"
    and run :: "'p \<Rightarrow> nat \<Rightarrow> ('p, 'z) timers_scheme \<Rightarrow> (int \<times> ('p, 'z) timers_scheme) option"
  assumes run_inv: "inv s \<Longrightarrow> run p x s = Some (d, s') \<Longrightarrow> inv s'"
    and queue_inv: "inv s \<Longrightarrow> tasks q \<subseteq># tasks (delay_task_queue s) \<Longrightarrow>
      inv (s\<lparr>delay_task_queue := q, last_sync_time := l, clock := c\<rparr>)"
begin

lemma sync_inv: "inv s \<Longrightarrow> sync_delay_time s = Some s' \<Longrightarrow> inv s'"
  by (erule sync_other) (simp add: queue_inv)

lemma destroy_inv: "inv s \<Longrightarrow> destroy_delay_task a s = Some s' \<Longrightarrow> inv s'"
proof -
  assume inv: "inv s" and d: "destroy_delay_task a s = Some s'"
  obtain q where q: "s' = s\<lparr>delay_task_queue := q\<rparr>" "tasks q \<subseteq># tasks (delay_task_queue s)"
    using destroy_delay_task_other[OF d] by blast
  show ?thesis using queue_inv[OF inv q(2), where l = "last_sync_time s" and c = "clock s"] q(1) by simp
qed

lemma update_inv:
  assumes "inv s" "update_delay_time a d s = Some s'"
  shows "inv s'"
proof -
  obtain t q where u: "unlink (length (delay_task_queue s) = 1) a (delay_task_queue s) = Some (t, q)"
    and add: "add_delay_task (t\<lparr>delta_time := d\<rparr>) (s\<lparr>delay_task_queue := q\<rparr>) = Some s'"
    using assms(2) by (auto simp: update_delay_time_def del_delay_task_def Option.bind_eq_Some_conv)
  obtain q' l c where s': "s' = s\<lparr>delay_task_queue := q\<rparr>\<lparr>delay_task_queue := q', last_sync_time := l, clock := c\<rparr>"
    "tasks q' = add_mset (task_key t) (tasks q)"
    by (rule add_other[OF add]) simp
  have "tasks q' = tasks (delay_task_queue s)" using tasks_unlink[OF u] s'(2) by simp
  then show ?thesis using queue_inv[OF assms(1), where q = q' and l = l and c = c] s'(1) by simp
qed

lemma do_delay_task_inv:
  assumes "inv s" "do_delay_task run s = Some s'"
  shows "inv s'"
proof (cases "delay_task_queue s")
  case Nil
  then show ?thesis using assms by (simp add: do_delay_task_def)
next
  case (Cons t ts)
  then obtain s1 where s1: "(if delta_time t \<noteq> 0 then sync_delay_time s else Some s) = Some s1"
    "(let t = hd (delay_task_queue s1) in if delta_time t = 0 then do {
         (next_delay, s) \<leftarrow> run (proc t) (arg t) s1;
         if next_delay \<ge> 0 then update_delay_time (addr t) next_delay s
         else destroy_delay_task (addr t) s }
       else Some s1) = Some s'"
    using assms(2) by (auto simp: do_delay_task_def Option.bind_eq_Some_conv)
  have inv1: "inv s1" using s1(1) assms(1) sync_inv by (auto split: if_splits)
  show ?thesis
  proof (cases "delta_time (hd (delay_task_queue s1)) = 0")
    case False
    then show ?thesis using s1(2) inv1 by simp
  next
    case True
    define t1 where "t1 = hd (delay_task_queue s1)"
    obtain d s2 where 2: "run (proc t1) (arg t1) s1 = Some (d, s2)"
      "(if d \<ge> 0 then update_delay_time (addr t1) d s2 else destroy_delay_task (addr t1) s2) = Some s'"
      using s1(2) True unfolding Let_def t1_def[symmetric] by (auto simp: Option.bind_eq_Some_conv)
    have inv2: "inv s2" by (rule run_inv[OF inv1 2(1)])
    show ?thesis
    proof (cases "d \<ge> 0")
      case True
      then have "update_delay_time (addr t1) d s2 = Some s'" using 2(2) by simp
      then show ?thesis by (rule update_inv[OF inv2])
    next
      case False
      then have "destroy_delay_task (addr t1) s2 = Some s'" using 2(2) by simp
      then show ?thesis by (rule destroy_inv[OF inv2])
    qed
  qed
qed

end

lemma keeps_okI: "keeps_handling p S S' \<Longrightarrow> srv_ok S \<Longrightarrow> srv_ok S'"
  by (rule keeps_srv_ok)

lemma run_task_ok:
  assumes "srv_ok S" "run_task exists prc p S = Some (d, S')"
  shows "srv_ok S'"
proof (cases prc)
  case Handle_rtsp_req
  then have "handle_rtsp_req exists p S = Some (d, S')" using assms(2) by simp
  then show ?thesis by (rule handle_rtsp_req_ok[OF assms(1)])
next
  case Prefetch_frm
  then have "prefetch_task p S = Some (d, S')" using assms(2) by simp
  then show ?thesis by (rule keeps_okI[OF keeps_prefetch assms(1)])
next
  case Destroy_rtsp_sess
  then have "destroy_rtsp_sess p S = Some (d, S')" using assms(2) by simp
  then show ?thesis by (rule destroy_rtsp_sess_ok[OF assms(1)])
qed

lemma srv_ok_queue:
  assumes "srv_ok S" "tasks q \<subseteq># tasks (delay_task_queue S)"
  shows "srv_ok (S\<lparr>delay_task_queue := q, last_sync_time := l, clock := c\<rparr>)"
proof -
  have "tasks_ok (rtsp_sess_list S) (next_addr S) (tasks q)"
    by (rule tasks_ok_mono[OF _ assms(2)]) (use assms(1) in \<open>simp add: srv_ok_def\<close>)
  then show ?thesis using assms(1) by (simp add: srv_ok_def)
qed

interpretation srv_tasks: timed_tasks srv_ok "run_task exists" for "exists"
  by unfold_locales (erule run_task_ok srv_ok_queue, assumption)+

subsection \<open>Events\<close>

lemma sent_ok:
  assumes "srv_ok S" "consume_send_buf p type S = Some (r, S1)"
    "(if r < 0 then do { (_, S) \<leftarrow> destroy_rtsp_sess p S1; Some S } else Some S1) = Some S'"
  shows "srv_ok S'"
proof -
  have ok1: "srv_ok S1" by (rule keeps_okI[OF keeps_consume[OF assms(2)] assms(1)])
  show ?thesis
  proof (cases "r < 0")
    case True
    then obtain r' where "destroy_rtsp_sess p S1 = Some (r', S')" using assms(3) by (auto simp: Option.bind_eq_Some_conv)
    then show ?thesis by (rule destroy_rtsp_sess_ok[OF ok1])
  qed (use ok1 assms(3) in simp)
qed

lemma handle_rtsp_sd_ok:
  assumes "srv_ok S" "handle_rtsp_sd p ev S = Some S'"
  shows "srv_ok S'"
proof -
  obtain r S1 where 1: "(if and ev EPOLLIN \<noteq> 0 then filter_data_from_rtsp_sd p S else Some (0, S)) = Some (r, S1)"
    "(if r < 0 then do { (_, S) \<leftarrow> destroy_rtsp_sess p S1; Some S }
     else if and ev EPOLLOUT \<noteq> 0 then do {
       s \<leftarrow> sess_at S1 p;
       (r, S) \<leftarrow> consume_send_buf p (if intlvd_mode s then 0x1F else 0x01) S1;
       if r < 0 then do { (_, S) \<leftarrow> destroy_rtsp_sess p S; Some S } else Some S }
     else Some S1) = Some S'"
    using assms(2) unfolding handle_rtsp_sd_def by (auto simp only: Option.bind_eq_Some_conv split: prod.splits)
  have ok1: "srv_ok S1" using 1(1) assms(1) keeps_okI[OF keeps_filter] by (auto split: if_splits)
  consider (failed) r' where "r < 0" "destroy_rtsp_sess p S1 = Some (r', S')" | (unchanged) "S' = S1"
    | (sent) type r' S2 where "consume_send_buf p type S1 = Some (r', S2)"
      "(if r' < 0 then do { (_, S) \<leftarrow> destroy_rtsp_sess p S2; Some S } else Some S2) = Some S'"
    using 1(2) by (auto simp: Option.bind_eq_Some_conv split: if_splits)
  then show ?thesis
  proof cases
    case failed
    then show ?thesis using destroy_rtsp_sess_ok[OF ok1] by blast
  next
    case unchanged
    then show ?thesis using ok1 by simp
  next
    case sent
    then show ?thesis by (intro sent_ok[OF ok1])
  qed
qed

lemma handle_rtp_sd_ok:
  assumes "srv_ok S" "handle_rtp_sd sd p ev S = Some S'"
  shows "srv_ok S'"
proof -
  consider (unchanged) "S' = S"
    | (sent) type r' S2 where "consume_send_buf p type S = Some (r', S2)"
      "(if r' < 0 then do { (_, S) \<leftarrow> destroy_rtsp_sess p S2; Some S } else Some S2) = Some S'"
    using assms(2) unfolding handle_rtp_sd_def Let_def by (auto simp: Option.bind_eq_Some_conv split: if_splits)
  then show ?thesis using assms(1) sent_ok by cases blast+
qed

lemma same_srv_ok: "same S T \<Longrightarrow> srv_ok T = srv_ok S"
  by (simp add: same_def srv_ok_def)

lemma create_rtsp_sess_ok:
  assumes "srv_ok S" "create_rtsp_sess sd S = Some (r, S')"
  shows "srv_ok S'"
proof -
  let ?p = "next_addr S" and ?S = "S\<lparr>next_addr := Suc (next_addr S)\<rparr>"
  have fresh: "?p \<notin> set (rtsp_sess_list S)" "sess_at S ?p = None"
    using assms(1) by (auto simp: srv_ok_def dom_def)
  have tasks: "tasks_ok live (Suc ?p) (tasks (delay_task_queue S))" if "set (rtsp_sess_list S) \<subseteq> set live" for live
    using assms(1) that by (fastforce simp: srv_ok_def tasks_ok_def)
  have ok0: "srv_ok ?S" using assms(1) tasks by (auto simp: srv_ok_def less_Suc_eq)
  obtain b1 S1 r2 S2 b3 S3 b4 S4 where 1: "srv_malloc ?S = (b1, S1)" "register_sd_handler sd Handle_rtsp_sd ?p S1 = (r2, S2)"
    "srv_malloc S2 = (b3, S3)" "srv_malloc S3 = (b4, S4)" by (metis prod.exhaust)
  have same: "same ?S S2" "same ?S S3" "same ?S S4"
    using same_malloc[OF 1(1)] same_register[OF 1(2)] same_malloc[OF 1(3)] same_malloc[OF 1(4)] by (simp_all add: same_def)
  consider (failed) T where "S' = deregister_sd_handler sd T" "same ?S T"
    | (created) s where "S' = (put ?p s S4)\<lparr>rtsp_sess_list := ?p # rtsp_sess_list S4\<rparr>" "idle s"
    using assms(2) 1 same by (auto simp: create_rtsp_sess_def Let_def idle_def zero_sess_def split: if_splits)
  then show ?thesis
  proof cases
    case failed
    then have "same ?S S'" by simp
    then show ?thesis using ok0 same_srv_ok by blast
  next
    case created
    then show ?thesis
      using same(3) assms(1) fresh tasks[of "?p # rtsp_sess_list S"]
      by (auto simp: srv_ok_def same_def put_def less_Suc_eq)
  qed
qed

lemma handle_lsn_sd_ok:
  assumes "srv_ok S" "handle_lsn_sd S = Some (r, S')"
  shows "srv_ok S'"
proof -
  obtain r1 S1 r2 S2 r3 S3 r4 S4 where 1: "sys S = (r1, S1)" "set_block_mode S1 = (r2, S2)" "sys S2 = (r3, S3)"
    "monitor_sd_event (word_of_int r1) RTSP_SD_DFL_EV S3 = (r4, S4)" by (metis prod.exhaust)
  have same: "same S S1" "same S S2" "same S S3" "same S S4"
    using same_sys[OF 1(1)] same_block[OF 1(2)] same_sys[OF 1(3)] same_events(1)[OF 1(4)] by (simp_all add: same_def)
  consider (failed) T where "S' = T" "same S T" | (accepted) sd r' where "create_rtsp_sess sd S4 = Some (r', S')"
    using assms(2) 1 same by (auto simp: handle_lsn_sd_def Let_def Option.bind_eq_Some_conv split: if_splits)
  then show ?thesis
  proof cases
    case failed
    then show ?thesis using assms(1) same_srv_ok by blast
  next
    case accepted
    have "srv_ok S4" using assms(1) same(4) same_srv_ok by blast
    then show ?thesis using create_rtsp_sess_ok accepted by blast
  qed
qed

lemma do_sd_handler_ok:
  assumes "srv_ok S" "do_sd_handler sd ev S = Some S'"
  shows "srv_ok S'"
proof (cases "find (\<lambda>h. h_sd h = sd) (sd_handler_list S)")
  case None
  then show ?thesis using assms by (simp add: do_sd_handler_def)
next
  case (Some h)
  then show ?thesis
  proof (cases "h_proc h")
    case Handle_lsn_sd
    then obtain r where "handle_lsn_sd S = Some (r, S')" using assms(2) Some by (auto simp: do_sd_handler_def)
    then show ?thesis by (rule handle_lsn_sd_ok[OF assms(1)])
  next
    case Handle_rtsp_sd
    then show ?thesis using assms Some handle_rtsp_sd_ok by (simp add: do_sd_handler_def)
  next
    case Handle_rtp_sd
    then show ?thesis using assms Some handle_rtp_sd_ok by (simp add: do_sd_handler_def)
  next
    case Handle_rtcp_sd
    then show ?thesis using assms Some by (simp add: do_sd_handler_def handle_rtcp_sd_def)
  qed
qed

lemma destroy_contain_ok:
  assumes "srv_ok S" "destroy_rtsp_sess_contain_sd sd S = Some S'"
  shows "srv_ok S'"
proof -
  obtain r where r: "find_sd sd (rtsp_sess_list S) S = Some r"
    "(case r of None \<Rightarrow> Some S | Some p \<Rightarrow> do { (_, S) \<leftarrow> destroy_rtsp_sess p S; Some S }) = Some S'"
    using assms(2) by (auto simp: destroy_rtsp_sess_contain_sd_def Option.bind_eq_Some_conv)
  show ?thesis
  proof (cases r)
    case None
    then show ?thesis using r(2) assms(1) by simp
  next
    case (Some p)
    then obtain r' where "destroy_rtsp_sess p S = Some (r', S')" using r(2) by (auto simp: Option.bind_eq_Some_conv)
    then show ?thesis by (rule destroy_rtsp_sess_ok[OF assms(1)])
  qed
qed

lemma do_events_ok: "srv_ok S \<Longrightarrow> do_events evs S = Some S' \<Longrightarrow> srv_ok S'"
proof (induction evs arbitrary: S)
  case (Cons e evs)
  obtain sd ev where e: "e = (sd, ev)" by (metis prod.exhaust)
  obtain S1 where S1: "(if and ev EPOLLERR \<noteq> 0 \<or> and ev EPOLLRDHUP \<noteq> 0 \<or> and ev EPOLLHUP \<noteq> 0
          then destroy_rtsp_sess_contain_sd sd S else do_sd_handler sd ev S) = Some S1" "do_events evs S1 = Some S'"
    using Cons.prems(2) unfolding e do_events.simps by (auto simp only: Option.bind_eq_Some_conv)
  have "srv_ok S1"
    using S1(1) destroy_contain_ok[OF Cons.prems(1)] do_sd_handler_ok[OF Cons.prems(1)] by (auto split: if_splits)
  then show ?case using Cons.IH S1(2) by blast
qed simp

lemma srv_round_ok:
  assumes "srv_ok S" "srv_round exists evs S = Some S'"
  shows "srv_ok S'"
proof -
  obtain r S1 where 1: "check_send_queue S = Some (r, S1)"
    using assms(2) by (auto simp: srv_round_def Option.bind_eq_Some_conv)
  have "same S S1" using 1 same_check by (simp add: check_send_queue_def)
  then have ok1: "srv_ok S1" using assms(1) same_srv_ok by blast
  show ?thesis
  proof (cases "r < 0")
    case True
    then show ?thesis using assms(2) 1 ok1 by (simp add: srv_round_def)
  next
    case False
    then obtain d S2 S3 where 2: "get_min_delay_time S1 = Some (d, S2)" "do_events evs S2 = Some S3"
      "do_delay_task (run_task exists) S3 = Some S'"
      using assms(2) 1 by (auto simp: srv_round_def Option.bind_eq_Some_conv)
    have "S2 = S1 \<or> sync_delay_time S1 = Some S2"
      using 2(1) by (auto simp: get_min_delay_time_def Option.bind_eq_Some_conv split: if_splits)
    then have "srv_ok S2" using ok1 srv_tasks.sync_inv by blast
    then have "srv_ok S3" using do_events_ok 2(2) by blast
    then show ?thesis using srv_tasks.do_delay_task_inv 2(3) by blast
  qed
qed

subsection \<open>The reachable states\<close>

inductive srv_reachable :: "(u8 list \<Rightarrow> bool) \<Rightarrow> rtsp_srv \<Rightarrow> bool" for "exists" where
  start: "sess_at S = (\<lambda>_. None) \<Longrightarrow> start_rtsp_srv S = (0, T) \<Longrightarrow> thrd_init T = (True, U) \<Longrightarrow> srv_reachable exists U"
| round: "srv_reachable exists S \<Longrightarrow> srv_round exists evs S = Some S' \<Longrightarrow> srv_reachable exists S'"

inductive_simps srv_reachable_simps: "srv_reachable exists S"

lemma same_create_and_bind: "create_and_bind S = (sd, T) \<Longrightarrow> same S T"
proof -
  obtain r1 S1 r2 S2 r3 S3 r4 S4 where 1: "sys S = (r1, S1)" "set_block_mode S1 = (r2, S2)" "sys S2 = (r3, S3)" "sys S3 = (r4, S4)"
    by (metis prod.exhaust)
  have "same S S1" "same S S2" "same S S3" "same S S4"
    using same_sys[OF 1(1)] same_block[OF 1(2)] same_sys[OF 1(3)] same_sys[OF 1(4)] by (simp_all add: same_def)
  then show "create_and_bind S = (sd, T) \<Longrightarrow> same S T"
    using 1 by (auto simp: create_and_bind_def Let_def split: if_splits)
qed

lemma same_thrd_init: "thrd_init S = (True, T) \<Longrightarrow> same S T"
proof -
  obtain r1 S1 r2 S2 sd S3 r4 S4 r5 S5 r6 S6 r7 S7 where 1: "sys S = (r1, S1)" "sys S1 = (r2, S2)" "create_and_bind (S2\<lparr>epoll_fd := word_of_int r2\<rparr>) = (sd, S3)"
    "sys S3 = (r4, S4)" "monitor_sd_event sd (or EPOLLIN EPOLLET) (S4\<lparr>rtsp_lsn_sd := sd\<rparr>) = (r5, S5)"
    "register_sd_handler sd Handle_lsn_sd 0 S5 = (r6, S6)" "srv_malloc S6 = (r7, S7)"
    by (metis prod.exhaust)
  have "same S S7"
    using same_sys[OF 1(1)] same_sys[OF 1(2)] same_create_and_bind[OF 1(3)] same_sys[OF 1(4)] same_events(1)[OF 1(5)]
      same_register[OF 1(6)] same_malloc[OF 1(7)] by (simp add: same_def)
  then show "thrd_init S = (True, T) \<Longrightarrow> same S T"
    using 1 by (auto simp: thrd_init_def Let_def split: if_splits)
qed

lemma start_ok:
  assumes "sess_at S = (\<lambda>_. None)" "start_rtsp_srv S = (0, T)"
  shows "srv_ok T"
proof -
  let ?S = "init_delay_task_queue (init_sd_handler_list (init_rtsp_sess_list (S\<lparr>rtsp_lsn_sd := - 1, http_lsn_sd := - 1\<rparr>)))"
  obtain r where "sys ?S = (r, T)" using assms(2) by (auto simp: start_rtsp_srv_def Let_def split: prod.splits if_splits)
  then have "same ?S T" by (rule same_sys)
  moreover have "srv_ok ?S"
    using assms(1) by (simp add: srv_ok_def tasks_ok_def init_delay_task_queue_def init_sd_handler_list_def
      init_rtsp_sess_list_def time_now_def Let_def split: list.split)
  ultimately show ?thesis using same_srv_ok by blast
qed

lemma srv_reachable_ok: "srv_reachable exists S \<Longrightarrow> srv_ok S"
proof (induction rule: srv_reachable.induct)
  case (start S T U)
  then show ?case using start_ok same_thrd_init same_srv_ok by blast
next
  case (round S evs S')
  then show ?case using srv_round_ok by blast
qed

lemma tasks_ok_distinct: "tasks_ok live n (tasks q) \<Longrightarrow> distinct (map addr q)"
proof -
  assume "tasks_ok live n (tasks q)"
  then have "\<forall>a. count (image_mset fst (tasks q)) a \<le> 1" by (simp add: tasks_ok_def)
  moreover have "image_mset fst (tasks q) = mset (map addr q)" by (simp add: tasks_def multiset.map_comp comp_def)
  ultimately have le: "\<forall>a. count (mset (map addr q)) a \<le> 1" by simp
  have "count (mset (map addr q)) a = (if a \<in> set (map addr q) then 1 else 0)" for a
  proof (cases "a \<in> set (map addr q)")
    case True
    then have "0 < count (mset (map addr q)) a" by (simp only: count_greater_zero_iff set_mset_mset)
    then have "count (mset (map addr q)) a = 1" using le[rule_format, of a] by linarith
    then show ?thesis by (simp only: True if_True)
  next
    case False
    then have "count (mset (map addr q)) a = 0" by (simp only: count_eq_zero_iff set_mset_mset not_False_eq_True)
    then show ?thesis by (simp only: False if_False)
  qed
  then show ?thesis unfolding distinct_count_atmost_1 by blast
qed

text \<open>C3: In every state that the server reaches between two rounds of its thread, whatever the events, the
  requests, the failures of calls and the exhaustion of memory were: no session is listed twice; the
  sessions in memory are exactly the listed ones; none is in the middle of a request, except one that
  waits for a key frame; the tasks have different addresses; and no task refers to a session that has
  been destroyed.\<close>

theorem server_consistent:
  assumes "srv_reachable exists S"
  shows "distinct (rtsp_sess_list S) \<and> (\<forall>p. sess_at S p \<noteq> None \<longleftrightarrow> p \<in> set (rtsp_sess_list S)) \<and>
    (\<forall>p s. sess_at S p = Some s \<longrightarrow> handling_state s \<in> {HANDLING_STATE_INIT, HANDLING_STATE_RETRY}) \<and>
    distinct (map addr (delay_task_queue S)) \<and> (\<forall>t \<in> set (delay_task_queue S). arg t \<in> set (rtsp_sess_list S))"
proof -
  have ok: "srv_ok S" using assms by (rule srv_reachable_ok)
  then have tasks: "tasks_ok (rtsp_sess_list S) (next_addr S) (tasks (delay_task_queue S))" by (simp add: srv_ok_def)
  have "arg t \<in> set (rtsp_sess_list S)" if "t \<in> set (delay_task_queue S)" for t
    using that tasks by (fastforce simp: tasks_ok_def tasks_def)
  then show ?thesis
    using ok tasks_ok_distinct[OF tasks] by (auto simp: srv_ok_def idle_def dom_def)
qed

subsection \<open>A handler that outlives its session\<close>

lemma find_remove_handler:
  "sd \<noteq> sd' \<Longrightarrow> find (\<lambda>h. h_sd h = sd) (remove_handler sd' hs) = find (\<lambda>h. h_sd h = sd) hs"
  by (induction hs) auto

lemma destroy_matching_frame:
  "destroy_matching x as S = Some S' \<Longrightarrow> \<exists>q. S' = S\<lparr>delay_task_queue := q\<rparr>"
proof (induction as arbitrary: S)
  case Nil
  then show ?case by (intro exI[of _ "delay_task_queue S"]) simp
next
  case (Cons a as)
  then obtain S1 where "destroy_delay_task a S = Some S1 \<or> S1 = S" "destroy_matching x as S1 = Some S'"
    by (auto simp: Option.bind_eq_Some_conv split: if_splits)
  moreover then obtain q where "S1 = S\<lparr>delay_task_queue := q\<rparr>"
    using destroy_delay_task_other by (metis (no_types, lifting) timers.surjective timers.update_convs(1))
  ultimately show ?case using Cons.IH by fastforce
qed

text \<open>C40: Destroying a session in interleaved mode leaves the handlers of its UDP sockets behind. When a
  client has set up UDP transport and then asks for interleaved transport, the destruction of the
  session removes only the handler of its RTSP socket; the next event on the RTP socket is dispatched
  with the freed session.\<close>

theorem stale_rtp_handler:
  assumes "sess_at S p = Some s" "handling_state s = HANDLING_STATE_INIT" "p \<in> set (rtsp_sess_list S)" "intlvd_mode s"
    "find (\<lambda>h. h_sd h = sd) (sd_handler_list S) = Some h" "h_arg h = p" "h_proc h = Handle_rtp_sd" "sd \<noteq> rtsp_sd s"
    "destroy_rtsp_sess p S = Some (r, S')"
  shows "do_sd_handler sd ev S' = None"
proof -
  define s1 where "s1 = s\<lparr>rtsp_state := RTSP_STATE_INIT, strm_info := (strm_info s)\<lparr>file_name := None\<rparr>, send_queue := []\<rparr>"
  define S1 where "S1 = put p s1 (close_sd (rtsp_sd s) (deregister_sd_handler (rtsp_sd s)
    ((put p (s\<lparr>rtsp_state := RTSP_STATE_INIT\<rparr>) S)\<lparr>rtsp_sess_list := remove1 p (rtsp_sess_list S)\<rparr>)))"
  obtain S2 S3 where 2: "destroy_sess_task p S1 = Some S2" "destroy_rtp_sess p S2 = Some S3" "S' = free_sess p S3"
    using assms(1-3,9)
    by (auto simp: destroy_rtsp_sess_def rtsp_sess_exist_def put_def S1_def s1_def Let_def split: bind_splits)
  obtain q where q: "S2 = S1\<lparr>delay_task_queue := q\<rparr>"
    using destroy_matching_frame 2(1) unfolding destroy_sess_task_def by blast
  have "S3 = S2"
    using 2(2) assms(4) by (simp add: destroy_rtp_sess_def q S1_def put_def s1_def)
  then have "find (\<lambda>h. h_sd h = sd) (sd_handler_list S') = Some h" "sess_at S' p = None"
    using assms(5) find_remove_handler[OF assms(8)]
    by (simp_all add: 2(3) q S1_def put_def close_sd_def deregister_sd_handler_def free_sess_def)
  then show ?thesis using assms(6,7) by (simp add: do_sd_handler_def handle_rtp_sd_def)
qed

subsection \<open>The send queue\<close>

fun consume_times :: "nat \<Rightarrow> nat \<Rightarrow> u32 \<Rightarrow> rtsp_srv \<Rightarrow> rtsp_srv option" where
  "consume_times 0 p type S = Some S"
| "consume_times (Suc n) p type S = do {
     (r, S) \<leftarrow> consume_send_buf p type S;
     if r < 0 then None else consume_times n p type S }"

lemma consume_one:
  assumes "sess_at S p = Some s" "send_queue s = b # bs" "and (data_type_bit (buf_type b)) type \<noteq> 0"
    "unat (buf_sz b) \<le> length (buf_data b)" "results S = int k # e # rs"
  shows "\<exists>S'. consume_send_buf p type S = Some (0, S') \<and> sess_at S' = (sess_at S)(p \<mapsto> s\<lparr>send_queue := bs\<rparr>) \<and> results S' = rs \<and>
    transmitted S' = transmitted S @ [(fst (buf_sd s (buf_type b)), take k (take (unat (buf_sz b)) (buf_data b)))]"
proof -
  obtain sd ev where sd: "buf_sd s (buf_type b) = (sd, ev)" by (metis prod.exhaust)
  show ?thesis
    using assms by (auto simp: consume_send_buf_def send_buf_data_def sd slice_def sys_def update_sd_event_def put_def Let_def)
qed

text \<open>C31: The queue of a session is sent in order, each buffer on the socket of its kind. But a buffer leaves the
  queue whatever part of it \<open>send\<close> accepted: of buffer \<open>i\<close> only the first \<open>k\<^sub>i\<close> bytes that went out in the one
  call reach the client, and the stream is cut where the socket was full.\<close>

theorem send_queue_in_order:
  assumes "sess_at S p = Some s" "length ks = length (send_queue s)" "length es = length ks"
    "\<forall>b \<in> set (send_queue s). and (data_type_bit (buf_type b)) type \<noteq> 0 \<and> unat (buf_sz b) \<le> length (buf_data b)"
    "results S = concat (map (\<lambda>(k, e). [int k, e]) (zip ks es)) @ rs"
  shows "\<exists>S'. consume_times (length (send_queue s)) p type S = Some S' \<and> sess_at S' = (sess_at S)(p \<mapsto> s\<lparr>send_queue := []\<rparr>) \<and>
    results S' = rs \<and>
    transmitted S' = transmitted S @ map (\<lambda>(k, b). (fst (buf_sd s (buf_type b)), take k (take (unat (buf_sz b)) (buf_data b))))
      (zip ks (send_queue s))"
  using assms
proof (induction "send_queue s" arbitrary: s S ks es)
  case Nil
  then show ?case by (auto simp: fun_upd_idem)
next
  case (Cons b bs)
  obtain k ks' where ks: "ks = k # ks'" using Cons.prems(2) Cons.hyps(2) by (cases ks) auto
  obtain e es' where es: "es = e # es'" using Cons.prems(3) ks by (cases es) auto
  have b: "and (data_type_bit (buf_type b)) type \<noteq> 0" "unat (buf_sz b) \<le> length (buf_data b)"
    using Cons.prems(4) Cons.hyps(2) by (metis list.set_intros(1))+
  let ?s = "s\<lparr>send_queue := bs\<rparr>"
  obtain S1 where 1: "consume_send_buf p type S = Some (0, S1)" "sess_at S1 = (sess_at S)(p \<mapsto> ?s)"
    "results S1 = concat (map (\<lambda>(k, e). [int k, e]) (zip ks' es')) @ rs"
    "transmitted S1 = transmitted S @ [(fst (buf_sd s (buf_type b)), take k (take (unat (buf_sz b)) (buf_data b)))]"
    using consume_one[OF Cons.prems(1) Cons.hyps(2)[symmetric] b] Cons.prems(5) ks es by auto
  have prems: "bs = send_queue ?s" "sess_at S1 p = Some ?s" "length ks' = length (send_queue ?s)" "length es' = length ks'"
    "\<forall>b \<in> set (send_queue ?s). and (data_type_bit (buf_type b)) type \<noteq> 0 \<and> unat (buf_sz b) \<le> length (buf_data b)"
    using 1(2) Cons.prems(2,3,4) Cons.hyps(2)[symmetric] ks es by simp_all
  have sd: "buf_sd ?s = buf_sd s" by (simp add: buf_sd_def fun_eq_iff split: data_type.split)
  show ?case
    using Cons.hyps(1)[OF prems 1(3)] 1(1,2,4) Cons.hyps(2)[symmetric] ks sd by auto
qed

subsection \<open>Witnesses\<close>

definition zero_srv :: "int list \<Rightarrow> rtsp_srv" where
  "zero_srv rs = \<lparr>delay_task_queue = [], last_sync_time = 0, clock = [], rtsp_lsn_sd = 0, http_lsn_sd = 0, epoll_fd = 0,
     rtsp_sess_list = [], sd_handler_list = [],
     sess_at = (\<lambda>_. None), next_addr = 100, srv_mem = [], results = rs, received = [], frames = [], transmitted = [], closed = [],
     epoll = (\<lambda>_. None), date_hdr = [], unix_time = 0, local_ip = []\<rparr>"

lemmas srv_ops = sys_def monitor_sd_event_def update_sd_event_def register_sd_handler_def srv_malloc_def set_block_mode_def
  create_and_bind_def close_sd_def deregister_sd_handler_def put_def Let_def

lemma server_consistent_witness:
  "\<exists>S. srv_reachable (\<lambda>_. False) S \<and> rtsp_sess_list S = [100] \<and> distinct (map addr (delay_task_queue S)) \<and> sess_at S 100 \<noteq> None"
proof -
  define U where "U = snd (thrd_init (snd (start_rtsp_srv (zero_srv [0, 0, 4, 5, 0, 0, 0, 0, 0, 0, 6]))))"
  have U: "srv_reachable (\<lambda>_. False) U"
  proof (rule start)
    show "sess_at (zero_srv [0, 0, 4, 5, 0, 0, 0, 0, 0, 0, 6]) = (\<lambda>_. None)" by (simp add: zero_srv_def)
    show "start_rtsp_srv (zero_srv [0, 0, 4, 5, 0, 0, 0, 0, 0, 0, 6]) = (0, snd (start_rtsp_srv (zero_srv [0, 0, 4, 5, 0, 0, 0, 0, 0, 0, 6])))"
      by (simp add: start_rtsp_srv_def zero_srv_def srv_ops init_rtsp_sess_list_def init_sd_handler_list_def init_delay_task_queue_def time_now_def)
    show "thrd_init (snd (start_rtsp_srv (zero_srv [0, 0, 4, 5, 0, 0, 0, 0, 0, 0, 6]))) = (True, U)"
      by (simp add: U_def thrd_init_def start_rtsp_srv_def zero_srv_def srv_ops init_rtsp_sess_list_def init_sd_handler_list_def
        init_delay_task_queue_def time_now_def)
  qed
  have lists: "rtsp_sess_list U = []" "delay_task_queue U = []" "sd_handler_list U = [\<lparr>h_sd = 5, h_arg = 0, h_proc = Handle_lsn_sd\<rparr>]"
    "results U = [6]" "srv_mem U = []" "next_addr U = 100"
    by (simp_all add: U_def thrd_init_def start_rtsp_srv_def zero_srv_def srv_ops init_rtsp_sess_list_def init_sd_handler_list_def
        init_delay_task_queue_def time_now_def)
  have acc: "\<exists>S'. handle_lsn_sd U = Some (0, S') \<and> rtsp_sess_list S' = [100] \<and> delay_task_queue S' = []"
    by (simp add: handle_lsn_sd_def create_rtsp_sess_def lists srv_ops)
  then obtain S' where S': "handle_lsn_sd U = Some (0, S')" "rtsp_sess_list S' = [100]" "delay_task_queue S' = []" by blast
  have "srv_round (\<lambda>_. False) [(5, 1)] U = Some S'"
    using S' by (simp add: srv_round_def check_send_queue_def lists get_min_delay_time_def do_sd_handler_def do_delay_task_def)
  then have r: "srv_reachable (\<lambda>_. False) S'" by (rule round[OF U])
  have "sess_at S' 100 \<noteq> None \<and> distinct (map addr (delay_task_queue S'))" using server_consistent[OF r] S'(2) by simp
  then show ?thesis using r S'(2) by blast
qed

lemma stale_rtp_handler_witness:
  "\<exists>r S'. destroy_rtsp_sess 5 ((zero_srv [])\<lparr>sess_at := [5 \<mapsto> zero_sess\<lparr>rtsp_sd := 7, intlvd_mode := True\<rparr>], rtsp_sess_list := [5],
       sd_handler_list := [\<lparr>h_sd = 7, h_arg = 5, h_proc = Handle_rtsp_sd\<rparr>, \<lparr>h_sd = 9, h_arg = 5, h_proc = Handle_rtp_sd\<rparr>]\<rparr>) = Some (r, S') \<and>
     do_sd_handler 9 4 S' = None"
proof -
  define S where "S = (zero_srv [])\<lparr>sess_at := [5 \<mapsto> zero_sess\<lparr>rtsp_sd := 7, intlvd_mode := True\<rparr>], rtsp_sess_list := [5],
       sd_handler_list := [\<lparr>h_sd = 7, h_arg = 5, h_proc = Handle_rtsp_sd\<rparr>, \<lparr>h_sd = 9, h_arg = 5, h_proc = Handle_rtp_sd\<rparr>]\<rparr>"
  have "\<exists>S'. destroy_rtsp_sess 5 S = Some (- 1, S')"
    by (simp add: S_def zero_srv_def zero_sess_def destroy_rtsp_sess_def rtsp_sess_exist_def destroy_sess_task_def destroy_rtp_sess_def srv_ops)
  then obtain S' where S': "destroy_rtsp_sess 5 S = Some (- 1, S')" by blast
  have "do_sd_handler 9 4 S' = None"
    by (rule stale_rtp_handler[OF _ _ _ _ _ _ _ _ S', where h = "\<lparr>h_sd = 9, h_arg = 5, h_proc = Handle_rtp_sd\<rparr>"
        and s = "zero_sess\<lparr>rtsp_sd := 7, intlvd_mode := True\<rparr>"])
      (simp_all add: S_def zero_srv_def zero_sess_def)
  then show ?thesis using S' unfolding S_def by blast
qed

lemma send_queue_in_order_witness:
  "\<exists>S'. consume_times 2 5 1 ((zero_srv [3, 0, 1, 0])\<lparr>sess_at := [5 \<mapsto> zero_sess\<lparr>rtsp_sd := 7, send_queue :=
      [\<lparr>buf_type = DATA_TYPE_RTSP_RESP, buf_sz = 3, buf_data = [65, 66, 67, 0]\<rparr>,
       \<lparr>buf_type = DATA_TYPE_RTSP_RESP, buf_sz = 2, buf_data = [68, 69]\<rparr>]\<rparr>]\<rparr>) = Some S' \<and>
    transmitted S' = [(7, [65, 66, 67]), (7, [68])]"
proof -
  define s where "s = zero_sess\<lparr>rtsp_sd := 7, send_queue :=
      [\<lparr>buf_type = DATA_TYPE_RTSP_RESP, buf_sz = 3, buf_data = [65, 66, 67, 0]\<rparr>,
       \<lparr>buf_type = DATA_TYPE_RTSP_RESP, buf_sz = 2, buf_data = [68, 69]\<rparr>]\<rparr>"
  define S where "S = (zero_srv [3, 0, 1, 0])\<lparr>sess_at := [5 \<mapsto> s]\<rparr>"
  have sd: "fst (buf_sd s DATA_TYPE_RTSP_RESP) = 7" by (simp add: s_def buf_sd_def)
  have "\<exists>S'. consume_times (length (send_queue s)) 5 1 S = Some S' \<and> sess_at S' = (sess_at S)(5 \<mapsto> s\<lparr>send_queue := []\<rparr>) \<and>
    results S' = [] \<and>
    transmitted S' = transmitted S @ map (\<lambda>(k, b). (fst (buf_sd s (buf_type b)), take k (take (unat (buf_sz b)) (buf_data b))))
      (zip [3, 1] (send_queue s))"
    by (rule send_queue_in_order[where es = "[0, 0]"]) (simp_all add: S_def s_def zero_srv_def)
  moreover have "length (send_queue s) = 2" by (simp add: s_def)
  moreover have "transmitted S @ map (\<lambda>(k, b). (fst (buf_sd s (buf_type b)), take k (take (unat (buf_sz b)) (buf_data b))))
      (zip [3, 1] (send_queue s)) = [(7, [65, 66, 67]), (7, [68])]"
    using sd by (simp add: S_def zero_srv_def) (simp add: s_def)
  ultimately have "\<exists>S'. consume_times 2 5 1 S = Some S' \<and> transmitted S' = [(7, [65, 66, 67]), (7, [68])]" by metis
  then show ?thesis unfolding S_def s_def .
qed

end
