(* ===== verification/Rtsp_Session_Correct.thy ===== *)
theory Rtsp_Session_Correct
  imports Rtsp_Invariant Rtsp_Parser_Correct Delay_Task_Correct
begin

text \<open>
  The handling of an RTSP request from the bytes in the receive buffer to the response in the send
  queue, when the calls of the system and the allocations succeed: each method against the table of
  states \<open>srv_next\<close> and of scheduled tasks \<open>task_of\<close> (\<open>handle_method_ok\<close>), the response
  (\<open>produce_ok\<close>), and the whole (\<open>request_answered\<close>).
\<close>

subsection \<open>The state table\<close>

text \<open>The state of a session after a method, and the status of the response. This is the table of
  RFC 2326, A.2, except that the server accepts PAUSE and the parameter methods in every state.\<close>

fun srv_next :: "rtsp_state \<Rightarrow> rtsp_method \<Rightarrow> status_code \<times> rtsp_state" where
  "srv_next RTSP_STATE_INIT RTSP_METHOD_PLAY = (METHOD_NOT_VALID_IN_THIS_STATE, RTSP_STATE_INIT)"
| "srv_next _ RTSP_METHOD_PLAY = (OK, RTSP_STATE_PLAYING)"
| "srv_next RTSP_STATE_PLAYING RTSP_METHOD_PAUSE = (OK, RTSP_STATE_READY)"
| "srv_next RTSP_STATE_INIT RTSP_METHOD_SETUP = (OK, RTSP_STATE_READY)"
| "srv_next _ RTSP_METHOD_TEARDOWN = (OK, RTSP_STATE_INIT)"
| "srv_next st _ = (OK, st)"

subsection \<open>Calls that succeed\<close>

abbreviation results_ok :: "rtsp_srv \<Rightarrow> bool" where
  "results_ok S \<equiv> list_all (\<lambda>r. 0 \<le> r) (results S)"

lemma sys_ok:
  assumes "results_ok S"
  obtains r rs where "sys S = (r, S\<lparr>results := rs\<rparr>)" "0 \<le> r" "list_all (\<lambda>r. 0 \<le> r) rs"
proof (cases "results S")
  case Nil
  then have "sys S = (0, S\<lparr>results := []\<rparr>)" by (simp add: sys_def)
  then show thesis using that by simp
next
  case (Cons r rs)
  then show thesis using that[of r rs] assms by (simp add: sys_def)
qed

text \<open>What the calls of the system may change.\<close>

definition sys_frame :: "rtsp_srv \<Rightarrow> rtsp_srv \<Rightarrow> bool" where
  "sys_frame S S' \<longleftrightarrow> (\<exists>rs hs m e. S' = S\<lparr>results := rs, sd_handler_list := hs, srv_mem := m, epoll := e\<rparr> \<and>
     (results_ok S \<longrightarrow> list_all (\<lambda>r. 0 \<le> r) rs) \<and> (mem_ok (srv_mem S) \<longrightarrow> mem_ok m))"

lemma sys_frameI:
  "S' = S\<lparr>results := rs, sd_handler_list := hs, srv_mem := m, epoll := e\<rparr> \<Longrightarrow>
   (results_ok S \<Longrightarrow> list_all (\<lambda>r. 0 \<le> r) rs) \<Longrightarrow> (mem_ok (srv_mem S) \<Longrightarrow> mem_ok m) \<Longrightarrow> sys_frame S S'"
  unfolding sys_frame_def by blast

lemma sys_frame_refl [simp]: "sys_frame S S"
  by (rule sys_frameI[where rs = "results S" and hs = "sd_handler_list S" and m = "srv_mem S" and e = "epoll S"]) simp_all

lemma sys_frame_trans:
  assumes "sys_frame S T" "sys_frame T U"
  shows "sys_frame S U"
proof -
  obtain rs hs m e where T: "T = S\<lparr>results := rs, sd_handler_list := hs, srv_mem := m, epoll := e\<rparr>"
    "results_ok S \<longrightarrow> list_all (\<lambda>r. 0 \<le> r) rs" "mem_ok (srv_mem S) \<longrightarrow> mem_ok m"
    using assms(1) unfolding sys_frame_def by blast
  obtain rs' hs' m' e' where U: "U = T\<lparr>results := rs', sd_handler_list := hs', srv_mem := m', epoll := e'\<rparr>"
    "results_ok T \<longrightarrow> list_all (\<lambda>r. 0 \<le> r) rs'" "mem_ok (srv_mem T) \<longrightarrow> mem_ok m'"
    using assms(2) unfolding sys_frame_def by blast
  show ?thesis
    by (rule sys_frameI[where rs = rs' and hs = hs' and m = m' and e = e']) (use T U in auto)
qed

lemma sys_frame_ok: "sys_frame S S' \<Longrightarrow> results_ok S \<Longrightarrow> results_ok S'" "sys_frame S S' \<Longrightarrow> mem_ok (srv_mem S) \<Longrightarrow> mem_ok (srv_mem S')"
  by (auto simp: sys_frame_def)

lemma sys_frame_same:
  "sys_frame S S' \<Longrightarrow> sess_at S' = sess_at S \<and> rtsp_sess_list S' = rtsp_sess_list S \<and> date_hdr S' = date_hdr S \<and>
     delay_task_queue S' = delay_task_queue S \<and> next_addr S' = next_addr S"
  by (auto simp: sys_frame_def)

lemma sys_frame_sys: "sys_frame S (snd (sys S))"
proof (cases "results S")
  case Nil
  then show ?thesis by (simp add: sys_def)
next
  case (Cons r rs)
  then show ?thesis
    by (intro sys_frameI[where rs = rs and hs = "sd_handler_list S" and m = "srv_mem S" and e = "epoll S"]) (simp_all add: sys_def)
qed

lemma sys_nonneg: "results_ok S \<Longrightarrow> 0 \<le> fst (sys S)"
  by (rule sys_ok) auto

lemma monitor_ok:
  assumes "results_ok S"
  shows "fst (monitor_sd_event sd ev S) = 0" "sys_frame S (snd (monitor_sd_event sd ev S))"
proof -
  obtain r rs where r: "sys S = (r, S\<lparr>results := rs\<rparr>)" "0 \<le> r" "list_all (\<lambda>r. 0 \<le> r) rs" by (rule sys_ok[OF assms])
  then show "fst (monitor_sd_event sd ev S) = 0" by (simp add: monitor_sd_event_def)
  show "sys_frame S (snd (monitor_sd_event sd ev S))"
    by (rule sys_frameI[where rs = rs and hs = "sd_handler_list S" and m = "srv_mem S" and e = "(epoll S)(sd \<mapsto> ev)"]) (use r in \<open>simp_all add: monitor_sd_event_def\<close>)
qed

lemma register_ok:
  assumes "mem_ok (srv_mem S)"
  shows "fst (register_sd_handler sd prc p S) = 0" "sys_frame S (snd (register_sd_handler sd prc p S))"
proof -
  show "fst (register_sd_handler sd prc p S) = 0" using assms by (simp add: register_sd_handler_def srv_malloc_def Let_def)
  show "sys_frame S (snd (register_sd_handler sd prc p S))"
    by (rule sys_frameI[where rs = "results S" and hs = "sd_handler_list S @ [\<lparr>h_sd = sd, h_arg = p, h_proc = prc\<rparr>]" and m = "tl (srv_mem S)" and e = "epoll S"])
      (use assms in \<open>simp_all add: register_sd_handler_def srv_malloc_def Let_def mem_ok_tl\<close>)
qed

lemma open_udp_pair_ok:
  assumes "results_ok S"
  obtains r S' where "open_udp_pair S = (Some r, S')" "sys_frame S S'"
proof -
  obtain a r1 where 1: "sys S = (a, S\<lparr>results := r1\<rparr>)" "0 \<le> a" "list_all (\<lambda>r. 0 \<le> r) r1" by (rule sys_ok[OF assms])
  obtain b r2 where 2: "sys (S\<lparr>results := r1\<rparr>) = (b, S\<lparr>results := r2\<rparr>)" "0 \<le> b" "list_all (\<lambda>r. 0 \<le> r) r2"
    using 1(3) by (rule sys_ok[of "S\<lparr>results := r1\<rparr>", simplified])
  obtain c r3 where 3: "sys (S\<lparr>results := r2\<rparr>) = (c, S\<lparr>results := r3\<rparr>)" "0 \<le> c" "list_all (\<lambda>r. 0 \<le> r) r3"
    using 2(3) by (rule sys_ok[of "S\<lparr>results := r2\<rparr>", simplified])
  obtain d r4 where 4: "sys (S\<lparr>results := r3\<rparr>) = (d, S\<lparr>results := r4\<rparr>)" "0 \<le> d" "list_all (\<lambda>r. 0 \<le> r) r4"
    using 3(3) by (rule sys_ok[of "S\<lparr>results := r3\<rparr>", simplified])
  obtain e r5 where 5: "sys (S\<lparr>results := r4\<rparr>) = (e, S\<lparr>results := r5\<rparr>)" "0 \<le> e" "list_all (\<lambda>r. 0 \<le> r) r5"
    using 4(3) by (rule sys_ok[of "S\<lparr>results := r4\<rparr>", simplified])
  obtain f r6 where 6: "sys (S\<lparr>results := r5\<rparr>) = (f, S\<lparr>results := r6\<rparr>)" "0 \<le> f" "list_all (\<lambda>r. 0 \<le> r) r6"
    using 5(3) by (rule sys_ok[of "S\<lparr>results := r5\<rparr>", simplified])
  have "sys_frame S (S\<lparr>results := r6\<rparr>)"
    by (rule sys_frameI[where rs = r6 and hs = "sd_handler_list S" and m = "srv_mem S" and e = "epoll S"]) (use 6(3) in simp_all)
  moreover have "open_udp_pair S = (Some (word_of_int a, word_of_int d, word_of_int c, word_of_int f), S\<lparr>results := r6\<rparr>)"
    using 1 2 3 4 5 6 by (simp add: open_udp_pair_def Let_def)
  ultimately show thesis using that by blast
qed

subsection \<open>What a method leaves alone\<close>

definition resp_keep :: "rtsp_resp \<Rightarrow> rtsp_resp \<Rightarrow> bool" where
  "resp_keep rs rs' \<longleftrightarrow> resp_ver rs' = resp_ver rs \<and> resp_server rs' = resp_server rs \<and> resp_cseq rs' = resp_cseq rs \<and>
     resp_status rs' = resp_status rs \<and> resp_public rs' = resp_public rs"

definition sess_keep :: "rtsp_sess \<Rightarrow> rtsp_sess \<Rightarrow> bool" where
  "sess_keep s s' \<longleftrightarrow> rtsp_state s' = rtsp_state s \<and> handling_state s' = handling_state s \<and> req s' = req s \<and>
     send_queue s' = send_queue s \<and> (\<forall>rs. resp s = Some rs \<longrightarrow> (\<exists>rs'. resp s' = Some rs' \<and> resp_keep rs rs'))"

lemma resp_keep_refl [simp]: "resp_keep rs rs"
  by (simp add: resp_keep_def)

lemma resp_keep_trans: "resp_keep a b \<Longrightarrow> resp_keep b c \<Longrightarrow> resp_keep a c"
  by (simp add: resp_keep_def)

lemma sess_keep_refl [simp]: "sess_keep s s"
  by (simp add: sess_keep_def)

lemma sess_keep_trans: "sess_keep a b \<Longrightarrow> sess_keep b c \<Longrightarrow> sess_keep a c"
  unfolding sess_keep_def by (metis resp_keep_trans)

lemma sess_keep_rtp [simp]: "sess_keep s (upd_rtp media f t) = sess_keep s t"
  by (simp add: sess_keep_def upd_rtp_def set_rtp_def split: media_type.split)

lemma sess_keep_fields [simp]: "sess_keep s (t\<lparr>sess_id := i\<rparr>) = sess_keep s t"
  by (simp add: sess_keep_def)

lemma sess_keep_resp:
  "sess_keep s t \<Longrightarrow> (\<And>rs. resp_keep rs (f rs)) \<Longrightarrow> sess_keep s (upd_resp f t)"
  unfolding sess_keep_def upd_resp_def using resp_keep_trans by fastforce

lemma upd_rtp_other [simp]:
  "req (upd_rtp media f s) = req s" "resp (upd_rtp media f s) = resp s" "intlvd_mode (upd_rtp media f s) = intlvd_mode s"
  "handling_state (upd_rtp media f s) = handling_state s" "rtsp_state (upd_rtp media f s) = rtsp_state s"
  "send_queue (upd_rtp media f s) = send_queue s"
  by (simp_all add: upd_rtp_def set_rtp_def split: media_type.split)

text \<open>The server after an operation on the session at \<open>p\<close>: apart from that session, the handlers and
  what the environment supplies, it is the same.\<close>

definition srv_keep :: "nat \<Rightarrow> rtsp_sess \<Rightarrow> rtsp_srv \<Rightarrow> rtsp_srv \<Rightarrow> bool" where
  "srv_keep p s' S S' \<longleftrightarrow> sess_at S' = (sess_at S)(p \<mapsto> s') \<and> rtsp_sess_list S' = rtsp_sess_list S \<and>
     date_hdr S' = date_hdr S \<and> delay_task_queue S' = delay_task_queue S \<and> next_addr S' = next_addr S \<and>
     (results_ok S \<longrightarrow> results_ok S') \<and> (mem_ok (srv_mem S) \<longrightarrow> mem_ok (srv_mem S'))"

lemma srv_keep_put: "sys_frame S T \<Longrightarrow> srv_keep p s S (put p s T)"
  using sys_frame_same[of S T] sys_frame_ok[of S T] by (auto simp: srv_keep_def put_def)

lemma srv_keep_frame: "srv_keep p s S T \<Longrightarrow> sys_frame T U \<Longrightarrow> srv_keep p s S U"
  using sys_frame_same[of T U] sys_frame_ok[of T U] by (auto simp: srv_keep_def)

lemma srv_keep_again: "srv_keep p s S T \<Longrightarrow> srv_keep p s' T U \<Longrightarrow> srv_keep p s' S U"
  by (auto simp: srv_keep_def)

lemma srv_keep_at [simp]: "srv_keep p s S T \<Longrightarrow> sess_at T p = Some s"
  by (simp add: srv_keep_def)

lemma srv_keep_ok: "srv_keep p s S T \<Longrightarrow> results_ok S \<Longrightarrow> results_ok T"
  "srv_keep p s S T \<Longrightarrow> mem_ok (srv_mem S) \<Longrightarrow> mem_ok (srv_mem T)"
  by (simp_all add: srv_keep_def)

subsection \<open>Setting up the transport\<close>

lemma setup_intlvd_ok:
  assumes "sess_at S p = Some s" "req s = Some rq" "resp s = Some rs"
  shows "\<exists>S' s'. setup_intlvd_mode p S = Some (0, S') \<and> srv_keep p s' S S' \<and> sess_keep s s'"
proof -
  let ?t = "req_transport rq"
  let ?s = "upd_rtp (req_media rq) (set_tcp_chns (t_rtp_chn ?t) (t_rtcp_chn ?t))
    (s\<lparr>resp := Some (rs\<lparr>resp_transport := (resp_transport rs)\<lparr>t_rtp_chn := t_rtp_chn ?t, t_rtcp_chn := t_rtcp_chn ?t\<rparr>\<rparr>)\<rparr>)"
  have "setup_intlvd_mode p S = Some (0, put p ?s S)"
    using assms by (simp add: setup_intlvd_mode_def Let_def)
  moreover have "sess_keep s ?s" using assms by (simp add: sess_keep_def resp_keep_def)
  ultimately show ?thesis using srv_keep_put[OF sys_frame_refl] by blast
qed

lemma watch_pair_ok:
  assumes "results_ok S" "mem_ok (srv_mem S)"
  obtains r S' where "watch_pair rtp rtcp p S = (r, S')" "(r < 0) = False" "sys_frame S S'"
proof -
  obtain S2 where 2: "monitor_sd_event rtp RTP_SD_DFL_EV S = (0, S2)" "sys_frame S S2"
    using monitor_ok[OF assms(1)] by (metis prod.collapse)
  obtain S3 where 3: "monitor_sd_event rtcp RTCP_SD_DFL_EV S2 = (0, S3)" "sys_frame S2 S3"
    using monitor_ok[OF sys_frame_ok(1)[OF 2(2) assms(1)]] by (metis prod.collapse)
  have f3: "sys_frame S S3" using 2(2) 3(2) by (rule sys_frame_trans)
  obtain S4 where 4: "register_sd_handler rtp Handle_rtp_sd p S3 = (0, S4)" "sys_frame S3 S4"
    using register_ok[OF sys_frame_ok(2)[OF f3 assms(2)]] by (metis prod.collapse)
  have f4: "sys_frame S S4" using f3 4(2) by (rule sys_frame_trans)
  obtain S5 where 5: "register_sd_handler rtcp Handle_rtcp_sd p S4 = (0, S5)" "sys_frame S4 S5"
    using register_ok[OF sys_frame_ok(2)[OF f4 assms(2)]] by (metis prod.collapse)
  have f5: "sys_frame S S5" using f4 5(2) by (rule sys_frame_trans)
  obtain r S6 where 6: "sys S5 = (r, S6)" "0 \<le> r" "sys_frame S5 S6"
    using sys_nonneg[OF sys_frame_ok(1)[OF f5 assms(1)]] sys_frame_sys[of S5] by (metis prod.collapse)
  have "watch_pair rtp rtcp p S = (r, S6)" using 2(1) 3(1) 4(1) 5(1) 6(1) by (simp add: watch_pair_def)
  then show thesis using that 6(2) sys_frame_trans[OF f5 6(3)] by auto
qed

lemma setup_non_intlvd_ok:
  assumes "sess_at S p = Some s" "req s = Some rq" "resp s = Some rs" "results_ok S" "mem_ok (srv_mem S)"
  shows "\<exists>S' s'. setup_non_intlvd_mode p S = Some (0, S') \<and> srv_keep p s' S S' \<and> sess_keep s s'"
proof -
  obtain sd1 sd2 p1 p2 S1 where udp: "open_udp_pair S = (Some (sd1, sd2, p1, p2), S1)" and f1: "sys_frame S S1"
    by (rule open_udp_pair_ok[OF assms(4)]) (metis prod.exhaust)
  define rtp where "rtp = (if odd_port p1 then sd2 else sd1)"
  define rtcp where "rtcp = (if odd_port p1 then sd1 else sd2)"
  define s1 where "s1 = upd_rtp (req_media rq) (\<lambda>r. r\<lparr>rtp_sd := rtp, rtcp_sd := rtcp\<rparr>) s"
  have keep: "srv_keep p s1 S (put p s1 S1)" by (rule srv_keep_put[OF f1])
  obtain r S2 where w: "watch_pair rtp rtcp p (put p s1 S1) = (r, S2)" "(r < 0) = False" "sys_frame (put p s1 S1) S2"
    by (rule watch_pair_ok[OF srv_keep_ok[OF keep], OF assms(4,5)])
  define t where "t = req_transport rq"
  define rs1 where "rs1 = rs\<lparr>resp_transport := (resp_transport rs)\<lparr>t_rtp_cli_port := t_rtp_cli_port t, t_rtcp_cli_port := t_rtcp_cli_port t,
    t_rtp_srv_port := (if odd_port p1 then p2 else p1), t_rtcp_srv_port := (if odd_port p1 then p1 else p2)\<rparr>\<rparr>"
  define s2 where "s2 = (upd_rtp (req_media rq) (\<lambda>r. r\<lparr>rtp_port := htons (t_rtp_cli_port t), rtcp_port := htons (t_rtcp_cli_port t)\<rparr>) s1)\<lparr>resp := Some rs1\<rparr>"
  have "setup_non_intlvd_mode p S = Some (0, put p s2 S2)"
    using assms(1-3) udp w(1,2)
    by (cases "odd_port p1")
      (simp_all add: setup_non_intlvd_mode_def s2_def rs1_def s1_def t_def rtp_def rtcp_def Let_def)
  moreover have "srv_keep p s2 S (put p s2 S2)"
    using srv_keep_again[OF srv_keep_frame[OF keep w(3)] srv_keep_put[OF sys_frame_refl]] .
  moreover have "sess_keep s s2" using assms by (simp add: s2_def s1_def rs1_def sess_keep_def resp_keep_def)
  ultimately show ?thesis by blast
qed

lemma create_rtp_sess_ok:
  assumes "sess_at S p = Some s" "req s = Some rq" "resp s = Some rs" "results_ok S" "mem_ok (srv_mem S)"
  shows "\<exists>S' s'. create_rtp_sess p S = Some (0, S') \<and> srv_keep p s' S S' \<and> sess_keep s s'"
proof -
  define init where "init = (if rtsp_state s = RTSP_STATE_INIT
        then let (i, S) = random64 S in (upd_resp (\<lambda>rs. rs\<lparr>resp_sess_id := i\<rparr>) (s\<lparr>sess_id := i\<rparr>), S)
        else (s, S))"
  obtain s1 S1 where init1: "init = (s1, S1)" by (cases init)
  have s1: "sess_keep s s1" "req s1 = Some rq" "intlvd_mode s1 = intlvd_mode s" and f1: "sys_frame S S1"
  proof -
    have "sys_frame S (snd (random64 S))"
      using sys_frame_sys sys_frame_trans by (simp add: random64_def Let_def case_prod_beta) blast
    then show "sys_frame S S1" using init1 by (auto simp: init_def Let_def case_prod_beta split: if_splits)
    have "sess_keep s (upd_resp (\<lambda>rs. rs\<lparr>resp_sess_id := i\<rparr>) (s\<lparr>sess_id := i\<rparr>))" for i
      by (rule sess_keep_resp) (simp_all add: resp_keep_def)
    then show "sess_keep s s1" "req s1 = Some rq" "intlvd_mode s1 = intlvd_mode s"
      using init1 assms(2) by (auto simp: init_def Let_def case_prod_beta upd_resp_def split: if_splits)
  qed
  obtain r1 S2 r2 S3 r3 S4 where r: "sys S1 = (r1, S2)" "sys S2 = (r2, S3)" "sys S3 = (r3, S4)"
    by (metis prod.exhaust)
  have f4: "sys_frame S S4"
    using f1 r sys_frame_sys[of S1] sys_frame_sys[of S2] sys_frame_sys[of S3] by (simp, metis sys_frame_trans)
  define s2 where "s2 = upd_rtp (req_media rq) (\<lambda>x. x\<lparr>rtp_hdr := init_rtp_hdr (word_of_int r1) (word_of_int r2) (word_of_int r3) (req_media rq)\<rparr>) s1"
  have s2: "sess_keep s s2" "req s2 = Some rq" using s1 by (simp_all add: s2_def)
  then obtain rs2 where rs2: "resp s2 = Some rs2" using assms(3) unfolding sess_keep_def by blast
  have k2: "srv_keep p s2 S (put p s2 S4)" by (rule srv_keep_put[OF f4])
  note ok2 = srv_keep_ok(1)[OF k2 assms(4)] srv_keep_ok(2)[OF k2 assms(5)]
  obtain S5 s5 where 5: "(if intlvd_mode s2 then setup_intlvd_mode p (put p s2 S4) else setup_non_intlvd_mode p (put p s2 S4)) = Some (0, S5)"
    "srv_keep p s5 (put p s2 S4) S5" "sess_keep s2 s5"
    using setup_intlvd_ok[OF srv_keep_at[OF k2] s2(2) rs2] setup_non_intlvd_ok[OF srv_keep_at[OF k2] s2(2) rs2 ok2]
    by (metis (full_types))
  have k5: "srv_keep p s5 S S5" by (rule srv_keep_again[OF k2 5(2)])
  obtain r6 S6 where 6: "sys S5 = (r6, S6)" "0 \<le> r6" "sys_frame S5 S6"
    using sys_nonneg[OF srv_keep_ok(1)[OF k5 assms(4)]] sys_frame_sys[of S5] by (metis prod.collapse)
  have m: "intlvd_mode s2 = intlvd_mode s1" by (simp add: s2_def)
  have "create_rtp_sess p S = Some (0, S6)"
  proof (cases "intlvd_mode s1")
    case True
    then show ?thesis using assms(1,2) init1 r 5(1) 6(1,2) m unfolding create_rtp_sess_def
      by (simp add: init_def[symmetric] s2_def[symmetric] Let_def)
  next
    case False
    then show ?thesis using assms(1,2) init1 r 5(1) 6(1,2) m unfolding create_rtp_sess_def
      by (simp add: init_def[symmetric] s2_def[symmetric] Let_def)
  qed
  moreover have "srv_keep p s5 S S6" by (rule srv_keep_frame[OF k5 6(3)])
  moreover have "sess_keep s s5" by (rule sess_keep_trans[OF s2(1) 5(3)])
  ultimately show ?thesis by blast
qed

subsection \<open>Scheduling a task\<close>

text \<open>The server after an operation that may also schedule tasks.\<close>

definition srv_step :: "nat \<Rightarrow> rtsp_sess \<Rightarrow> rtsp_srv \<Rightarrow> rtsp_srv \<Rightarrow> bool" where
  "srv_step p s' S S' \<longleftrightarrow> sess_at S' = (sess_at S)(p \<mapsto> s') \<and> rtsp_sess_list S' = rtsp_sess_list S \<and>
     date_hdr S' = date_hdr S \<and> (results_ok S \<longrightarrow> results_ok S') \<and> (mem_ok (srv_mem S) \<longrightarrow> mem_ok (srv_mem S'))"

lemma srv_keep_step: "srv_keep p s S T \<Longrightarrow> srv_step p s S T"
  by (simp add: srv_keep_def srv_step_def)

lemma srv_step_again: "srv_step p s S T \<Longrightarrow> srv_step p s' T U \<Longrightarrow> srv_step p s' S U"
  by (auto simp: srv_step_def)

lemma srv_step_at [simp]: "srv_step p s S T \<Longrightarrow> sess_at T p = Some s"
  by (simp add: srv_step_def)

lemma srv_step_put [simp]: "srv_step p s S (put p s S)"
  by (simp add: srv_step_def put_def)

lemma put_queue [simp]: "delay_task_queue (put p s S) = delay_task_queue S" "next_addr (put p s S) = next_addr S"
  "sess_at (put p s S) = (sess_at S)(p \<mapsto> s)" "srv_mem (put p s S) = srv_mem S" "results (put p s S) = results S"
  "rtsp_sess_list (put p s S) = rtsp_sess_list S" "date_hdr (put p s S) = date_hdr S"
  "clock_elapsed (put p s S) = clock_elapsed S" "clock_elapsed (S\<lparr>srv_mem := m\<rparr>) = clock_elapsed S"
  by (simp_all add: put_def clock_elapsed_def time_now_def Let_def split: list.split)

text \<open>The task that is inserted keeps its callback.\<close>

lemma add_loop_member:
  "add_loop t q = Some q' \<Longrightarrow> \<exists>u \<in> set q'. addr u = addr t \<and> arg u = arg t \<and> proc u = proc t"
proof (induction t q arbitrary: q' rule: add_loop.induct)
  case (2 t u us)
  show ?case
  proof (cases "delta_time u > delta_time t")
    case True
    then show ?thesis using "2.prems" by (auto split: bind_splits)
  next
    case False
    then obtain d us' where d: "c_int (delta_time t - delta_time u) = Some d" "add_loop (t\<lparr>delta_time := d\<rparr>) us = Some us'" "q' = u # us'"
      using "2.prems" by (auto split: bind_splits)
    then show ?thesis using "2.IH"[OF False d(1,2)] by auto
  qed
qed simp

lemma new_task_ok:
  assumes "mem_ok (srv_mem S)" "queue_ok (delay_task_queue S)" "0 \<le> d" "d \<le> INT_MAX"
    "next_addr S \<notin> addr ` set (delay_task_queue S)" "sess_at S p = Some s"
  shows "\<exists>S'. new_task prc x d S = Some S' \<and> srv_step p s S S' \<and> queue_ok (delay_task_queue S') \<and>
    due (delay_task_queue S') = view_add (next_addr S) d (view_advance (clock_elapsed S) (due (delay_task_queue S))) \<and>
    (\<exists>t \<in> set (delay_task_queue S'). addr t = next_addr S \<and> proc t = prc \<and> arg t = x)"
proof -
  let ?S = "S\<lparr>next_addr := Suc (next_addr S)\<rparr>" and ?t = "\<lparr>addr = next_addr S, delta_time = d, arg = x, proc = prc\<rparr>"
  have c: "clock_elapsed ?S = clock_elapsed S" by (simp add: clock_elapsed_def time_now_def Let_def split: list.split)
  obtain S' where S': "add_delay_task ?t ?S = Some S'" "queue_ok (delay_task_queue S')"
    "due (delay_task_queue S') = view_add (next_addr S) d (view_advance (clock_elapsed S) (due (delay_task_queue S)))"
    using add_correct[of ?S ?t] assms c by auto
  have "new_task prc x d S = Some (S'\<lparr>srv_mem := tl (srv_mem S)\<rparr>)"
    using S'(1) assms(1) by (simp add: new_task_def create_delay_task_def)
  moreover obtain q l c where e: "S' = ?S\<lparr>delay_task_queue := q, last_sync_time := l, clock := c\<rparr>"
    by (rule add_other[OF S'(1)]) blast
  moreover have "srv_step p s S (S'\<lparr>srv_mem := tl (srv_mem S)\<rparr>)"
    unfolding e srv_step_def using assms(1) fun_upd_triv[of "sess_at S" p] assms(6) by (simp add: mem_ok_tl)
  moreover have "\<exists>t \<in> set (delay_task_queue S'). addr t = next_addr S \<and> proc t = prc \<and> arg t = x"
  proof -
    obtain s1 q where "add_loop ?t (delay_task_queue s1) = Some q" "S' = s1\<lparr>delay_task_queue := q\<rparr>"
      using S'(1) by (auto simp: add_delay_task_def split: bind_splits)
    then show ?thesis using add_loop_member[of ?t] by auto
  qed
  ultimately show ?thesis using S'(2,3) by auto
qed

subsection \<open>The methods\<close>

text \<open>The task that a method schedules.\<close>

fun task_of :: "rtsp_state \<Rightarrow> rtsp_method \<Rightarrow> (task_proc \<times> int) option" where
  "task_of RTSP_STATE_INIT RTSP_METHOD_PLAY = None"
| "task_of _ RTSP_METHOD_PLAY = Some (Prefetch_frm, 0)"
| "task_of _ RTSP_METHOD_TEARDOWN = Some (Destroy_rtsp_sess, 10000)"
| "task_of _ _ = None"

definition scheduled :: "nat \<Rightarrow> (task_proc \<times> int) option \<Rightarrow> rtsp_srv \<Rightarrow> rtsp_srv \<Rightarrow> bool" where
  "scheduled p task S S' \<longleftrightarrow> queue_ok (delay_task_queue S') \<and> (case task of
     None \<Rightarrow> delay_task_queue S' = delay_task_queue S
   | Some (prc, d) \<Rightarrow>
       due (delay_task_queue S') = view_add (next_addr S) d (view_advance (clock_elapsed S) (due (delay_task_queue S))) \<and>
       (\<exists>t \<in> set (delay_task_queue S'). addr t = next_addr S \<and> proc t = prc \<and> arg t = p))"

definition method_done :: "rtsp_method \<Rightarrow> rtsp_sess \<Rightarrow> rtsp_sess \<Rightarrow> bool" where
  "method_done meth s s' \<longleftrightarrow> req s' = req s \<and> send_queue s' = send_queue s \<and>
     rtsp_state s' = snd (srv_next (rtsp_state s) meth) \<and>
     (case srv_next (rtsp_state s) meth of
       (OK, _) \<Rightarrow> handling_state s' = HANDLING_STATE_HANDLED
     | _ \<Rightarrow> handling_state s' = HANDLING_STATE_ERROR) \<and>
     (\<exists>rs'. resp s' = Some rs' \<and> resp_ver rs' = resp_ver (the (resp s)) \<and> resp_server rs' = resp_server (the (resp s)) \<and>
        resp_cseq rs' = resp_cseq (the (resp s)) \<and> resp_status rs' = fst (srv_next (rtsp_state s) meth) \<and>
        (meth = RTSP_METHOD_OPTIONS \<longrightarrow> resp_public rs' = Some (str supported_methods)))"

lemma upd_ok: "sess_at S p = Some s \<Longrightarrow> upd p f S = Some (put p (f s) S)"
  by (simp add: upd_def)

lemma srv_next_simps [simp]:
  "srv_next st RTSP_METHOD_OPTIONS = (OK, st)" "srv_next st RTSP_METHOD_GET_PARAMETER = (OK, st)"
  "srv_next st RTSP_METHOD_SET_PARAMETER = (OK, st)" "srv_next st RTSP_METHOD_TEARDOWN = (OK, RTSP_STATE_INIT)"
  "srv_next st RTSP_METHOD_PAUSE = (OK, if st = RTSP_STATE_PLAYING then RTSP_STATE_READY else st)"
  "srv_next st RTSP_METHOD_SETUP = (OK, if st = RTSP_STATE_PLAYING then st else RTSP_STATE_READY)"
  "st \<noteq> RTSP_STATE_INIT \<Longrightarrow> srv_next st RTSP_METHOD_PLAY = (OK, RTSP_STATE_PLAYING)"
  by (cases st; simp)+

lemma task_of_simps [simp]:
  "task_of st RTSP_METHOD_OPTIONS = None" "task_of st RTSP_METHOD_GET_PARAMETER = None" "task_of st RTSP_METHOD_SET_PARAMETER = None"
  "task_of st RTSP_METHOD_PAUSE = None" "task_of st RTSP_METHOD_SETUP = None"
  "task_of st RTSP_METHOD_TEARDOWN = Some (Destroy_rtsp_sess, 10000)"
  "st \<noteq> RTSP_STATE_INIT \<Longrightarrow> task_of st RTSP_METHOD_PLAY = Some (Prefetch_frm, 0)"
  by (cases st; simp)+

lemma scheduled_put [simp]: "scheduled p None S T \<Longrightarrow> scheduled p None S (put q s T)"
  "queue_ok (delay_task_queue S) \<Longrightarrow> scheduled p None S (put q s S)"
  by (auto simp: scheduled_def)

lemma options_ok:
  assumes "sess_at S p = Some s" "resp s = Some rs" "resp_status rs = OK" "mem_ok (srv_mem S)" "queue_ok (delay_task_queue S)"
  shows "\<exists>S' s'. handle_method_options p S = Some S' \<and> srv_step p s' S S' \<and> method_done RTSP_METHOD_OPTIONS s s' \<and>
    scheduled p None S S'"
proof -
  obtain m' where m': "strndup (str supported_methods) (length supported_methods) (srv_mem S) = (Some (str supported_methods), m')" "mem_ok m'"
    using assms(4) by (simp add: strndup_def str_def mem_ok_tl)
  let ?s = "set_handling HANDLING_STATE_HANDLED (upd_resp (\<lambda>rs. rs\<lparr>resp_public := Some (str supported_methods)\<rparr>) s)"
  have "handle_method_options p S = Some (put p ?s (S\<lparr>srv_mem := m'\<rparr>))"
    using assms m'(1) by (simp add: handle_method_options_def)
  moreover have "srv_step p ?s S (put p ?s (S\<lparr>srv_mem := m'\<rparr>))"
    using m'(2) by (simp add: srv_step_def)
  moreover have "method_done RTSP_METHOD_OPTIONS s ?s"
    using assms by (simp add: method_done_def upd_resp_def)
  moreover have "scheduled p None S (put p ?s (S\<lparr>srv_mem := m'\<rparr>))" using assms(5) by (simp add: scheduled_def)
  ultimately show ?thesis by blast
qed

lemma setup_ok:
  assumes "sess_at S p = Some s" "req s = Some rq" "resp s = Some rs" "resp_status rs = OK" "results_ok S"
    "mem_ok (srv_mem S)" "queue_ok (delay_task_queue S)"
  shows "\<exists>S' s'. handle_method_setup p S = Some S' \<and> srv_step p s' S S' \<and> method_done RTSP_METHOD_SETUP s s' \<and>
    scheduled p None S S'"
proof -
  obtain S1 s1 where 1: "create_rtp_sess p S = Some (0, S1)" "srv_keep p s1 S S1" "sess_keep s s1"
    using create_rtp_sess_ok[OF assms(1-3,5,6)] by blast
  let ?s = "set_handling HANDLING_STATE_HANDLED
       (if rtsp_state s1 \<noteq> RTSP_STATE_PLAYING then s1\<lparr>rtsp_state := RTSP_STATE_READY\<rparr> else s1)"
  have "handle_method_setup p S = Some (put p ?s S1)"
    using 1 by (simp add: handle_method_setup_def upd_ok[OF srv_keep_at[OF 1(2)]])
  moreover have "srv_step p ?s S (put p ?s S1)"
    by (rule srv_step_again[OF srv_keep_step[OF 1(2)] srv_step_put])
  moreover have "method_done RTSP_METHOD_SETUP s ?s"
    using 1(3) assms(3,4) by (auto simp: method_done_def sess_keep_def resp_keep_def)
  moreover have "scheduled p None S (put p ?s S1)"
    using 1(2) assms(7) by (simp add: scheduled_def srv_keep_def)
  ultimately show ?thesis by blast
qed

lemma play_ok:
  assumes "sess_at S p = Some s" "resp s = Some rs" "resp_status rs = OK"
    "mem_ok (srv_mem S)" "queue_ok (delay_task_queue S)" "next_addr S \<notin> addr ` set (delay_task_queue S)"
  shows "\<exists>S' s'. handle_method_play p S = Some S' \<and> srv_step p s' S S' \<and> method_done RTSP_METHOD_PLAY s s' \<and>
    scheduled p (task_of (rtsp_state s) RTSP_METHOD_PLAY) S S'"
proof (cases "rtsp_state s = RTSP_STATE_INIT")
  case True
  let ?s = "set_handling HANDLING_STATE_ERROR (upd_resp (\<lambda>rs. rs\<lparr>resp_status := METHOD_NOT_VALID_IN_THIS_STATE\<rparr>) s)"
  have "handle_method_play p S = Some (put p ?s S)" using assms True by (simp add: handle_method_play_def)
  moreover have "method_done RTSP_METHOD_PLAY s ?s" using assms True by (simp add: method_done_def upd_resp_def)
  moreover have "scheduled p (task_of (rtsp_state s) RTSP_METHOD_PLAY) S (put p ?s S)" using True assms(5) by simp
  ultimately show ?thesis using srv_step_put by blast
next
  case False
  let ?s1 = "s\<lparr>rtsp_state := RTSP_STATE_PLAYING\<rparr>"
  let ?S = "put p ?s1 S" and ?s = "set_handling HANDLING_STATE_HANDLED ?s1"
  obtain S1 where 1: "new_task Prefetch_frm p 0 ?S = Some S1" "srv_step p ?s1 ?S S1" "queue_ok (delay_task_queue S1)"
    "due (delay_task_queue S1) = view_add (next_addr S) 0 (view_advance (clock_elapsed S) (due (delay_task_queue S)))"
    "\<exists>t \<in> set (delay_task_queue S1). addr t = next_addr S \<and> proc t = Prefetch_frm \<and> arg t = p"
    using new_task_ok[of ?S 0 p ?s1 Prefetch_frm p] assms by (auto simp: INT_MAX_def)
  have "handle_method_play p S = Some (put p ?s S1)"
    using assms False 1 by (simp add: handle_method_play_def upd_ok[OF srv_step_at[OF 1(2)]])
  moreover have "srv_step p ?s S (put p ?s S1)"
    by (rule srv_step_again[OF srv_step_again[OF srv_step_put 1(2)] srv_step_put])
  moreover have "method_done RTSP_METHOD_PLAY s ?s" using assms False by (simp add: method_done_def)
  moreover have "scheduled p (task_of (rtsp_state s) RTSP_METHOD_PLAY) S (put p ?s S1)"
    using False 1(3-5) by (simp add: scheduled_def)
  ultimately show ?thesis by blast
qed

lemma teardown_ok:
  assumes "sess_at S p = Some s" "resp s = Some rs" "resp_status rs = OK"
    "mem_ok (srv_mem S)" "queue_ok (delay_task_queue S)" "next_addr S \<notin> addr ` set (delay_task_queue S)"
  shows "\<exists>S' s'. handle_method_teardown p S = Some S' \<and> srv_step p s' S S' \<and> method_done RTSP_METHOD_TEARDOWN s s' \<and>
    scheduled p (task_of (rtsp_state s) RTSP_METHOD_TEARDOWN) S S'"
proof -
  let ?s1 = "s\<lparr>rtsp_state := RTSP_STATE_INIT\<rparr>"
  let ?S = "put p ?s1 S" and ?s = "set_handling HANDLING_STATE_HANDLED ?s1"
  obtain S1 where 1: "new_task Destroy_rtsp_sess p 10000 ?S = Some S1" "srv_step p ?s1 ?S S1" "queue_ok (delay_task_queue S1)"
    "due (delay_task_queue S1) = view_add (next_addr S) 10000 (view_advance (clock_elapsed S) (due (delay_task_queue S)))"
    "\<exists>t \<in> set (delay_task_queue S1). addr t = next_addr S \<and> proc t = Destroy_rtsp_sess \<and> arg t = p"
    using new_task_ok[of ?S 10000 p ?s1 Destroy_rtsp_sess p] assms by (auto simp: INT_MAX_def)
  have "handle_method_teardown p S = Some (put p ?s S1)"
    using assms 1 by (simp add: handle_method_teardown_def upd_ok[OF srv_step_at[OF 1(2)]] upd_ok[OF assms(1)])
  moreover have "srv_step p ?s S (put p ?s S1)"
    by (rule srv_step_again[OF srv_step_again[OF srv_step_put 1(2)] srv_step_put])
  moreover have "method_done RTSP_METHOD_TEARDOWN s ?s" using assms by (simp add: method_done_def)
  moreover have "scheduled p (task_of (rtsp_state s) RTSP_METHOD_TEARDOWN) S (put p ?s S1)"
    using 1(3-5) by (simp add: scheduled_def)
  ultimately show ?thesis by blast
qed

lemma handle_method_ok:
  assumes "sess_at S p = Some s" "req s = Some rq" "resp s = Some rs" "resp_status rs = OK" "results_ok S"
    "mem_ok (srv_mem S)" "queue_ok (delay_task_queue S)" "next_addr S \<notin> addr ` set (delay_task_queue S)"
    "meth \<noteq> RTSP_METHOD_DESCRIBE"
  shows "\<exists>S' s'. handle_method meth p S = Some S' \<and> srv_step p s' S S' \<and> method_done meth s s' \<and>
    scheduled p (task_of (rtsp_state s) meth) S S'"
proof -
  have upd: "\<exists>S' s'. upd p f S = Some S' \<and> srv_step p s' S S' \<and> method_done meth s s' \<and> scheduled p None S S'"
    if "method_done meth s (f s)" for f
    using that upd_ok[OF assms(1)] srv_step_put assms(7) scheduled_put(2) by blast
  show ?thesis
  proof (cases meth)
    case RTSP_METHOD_OPTIONS
    then show ?thesis using options_ok[OF assms(1,3,4,6,7)] by simp
  next
    case RTSP_METHOD_SETUP
    then show ?thesis using setup_ok[OF assms(1-7)] by simp
  next
    case RTSP_METHOD_PLAY
    then show ?thesis using play_ok[OF assms(1,3,4,6-8)] by simp
  next
    case RTSP_METHOD_TEARDOWN
    then show ?thesis using teardown_ok[OF assms(1,3,4,6-8)] by simp
  next
    case RTSP_METHOD_PAUSE
    then show ?thesis using assms(3,4) upd by (simp add: handle_method_pause_def method_done_def)
  next
    case RTSP_METHOD_GET_PARAMETER
    then show ?thesis using assms(3,4) upd by (simp add: handle_method_get_parameter_def method_done_def)
  next
    case RTSP_METHOD_SET_PARAMETER
    then show ?thesis using assms(3,4) upd by (simp add: handle_method_set_parameter_def method_done_def)
  qed (use assms(9) in simp)
qed

subsection \<open>The response\<close>

text \<open>The lines that a client reads first.\<close>

definition status_line :: "status_code \<Rightarrow> u8 list" where
  "status_line st = str ''RTSP/1.0'' @ [SP] @ dec (unat (status_value st)) @ [SP] @ str (get_status_reason (status_value st)) @ [CR, LF]"

definition cseq_line :: "nat \<Rightarrow> u8 list" where
  "cseq_line n = str ''CSeq: '' @ dec n @ [CR, LF]"

lemma length_dec: "n < 10 ^ Suc k \<Longrightarrow> length (dec n) \<le> Suc k"
proof (induction k arbitrary: n)
  case 0
  then show ?case by (simp add: dec.simps)
next
  case (Suc k)
  then have "n div 10 < 10 ^ Suc k" by auto
  then show ?case using Suc.IH[of "n div 10"] by (subst dec.simps) simp
qed

lemma length_status_line: "length (status_line OK) \<le> 100" "length (status_line METHOD_NOT_VALID_IN_THIS_STATE) \<le> 100"
  by (simp_all add: status_line_def str_def dec.simps get_status_reason_def status_code_and_reason_def)

lemma length_cseq_line: "n < 2 ^ 32 \<Longrightarrow> length (cseq_line n) \<le> 100"
  using length_dec[of n 9] by (simp add: cseq_line_def str_def)

lemma fold_emit: "length t \<le> sz - 1 \<Longrightarrow> fold (\<lambda>l t. emit sz t l) ls t = take (sz - 1) (t @ concat ls)"
proof (induction ls arbitrary: t)
  case (Cons l ls)
  have "take (sz - 1) (take (sz - 1) (t @ l) @ concat ls) = take (sz - 1) (t @ l @ concat ls)"
    using Cons.prems by (cases "length (t @ l) \<le> sz - 1") (simp_all add: min_absorb1)
  then show ?case using Cons.IH[of "emit sz t l"] by (simp add: emit_def)
qed simp

lemma fold_emit_prefix:
  assumes "length (a @ b) \<le> sz - 1"
  shows "\<exists>r. fold (\<lambda>l t. emit sz t l) (a # b # ls) [] = a @ b @ r"
  using assms by (simp only: fold_emit list.size) (simp add: append_assoc[symmetric] del: append_assoc)

lemma method_fields_ok:
  assumes "req_method rq = Some meth" "meth \<noteq> RTSP_METHOD_DESCRIBE"
    "meth = RTSP_METHOD_OPTIONS \<longrightarrow> resp_public rs = Some pub"
  shows "\<exists>fs. method_fields s rq rs = Some fs"
  using assms by (cases meth) (simp_all add: method_fields_def)

lemma produce_ok:
  assumes "p \<in> set (rtsp_sess_list S)" "sess_at S p = Some s" "req s = Some rq" "resp s = Some rs" "mem_ok (srv_mem S)"
    "handling_state s = (if st = OK then HANDLING_STATE_HANDLED else HANDLING_STATE_ERROR)"
    "st = OK \<or> st = METHOD_NOT_VALID_IN_THIS_STATE"
    "resp_ver rs = Some (str ''RTSP/1.0'')" "resp_server rs = Some srv" "resp_status rs = st" "resp_cseq rs = of_nat n" "n < 2 ^ 32"
    "req_method rq = Some meth" "meth \<noteq> RTSP_METHOD_DESCRIBE" "meth = RTSP_METHOD_OPTIONS \<longrightarrow> resp_public rs = Some pub"
  shows "\<exists>S' r. produce_rtsp_resp p S = Some S' \<and>
    srv_step p ((add_send_buf s (resp_buf (status_line st @ cseq_line n @ r)))\<lparr>handling_state := HANDLING_STATE_DONE\<rparr>) S S' \<and>
    delay_task_queue S' = delay_task_queue S"
proof -
  obtain b m where m: "create_send_buf DATA_TYPE_RTSP_RESP (of_nat RTSP_RESP_SZ) (srv_mem S) = (Some b, m)" "mem_ok m"
    using assms(5) by (auto simp: create_send_buf_def mem_ok_tl Let_def split: prod.split option.split)
  obtain fs where fs: "method_fields s rq rs = Some fs" using method_fields_ok[OF assms(13-15)] by blast
  have "\<exists>ls. resp_lines (date_hdr S) s rq rs = Some (status_line st # cseq_line n # ls)"
    using assms fs by (simp add: resp_lines_def status_line_def cseq_line_def unsigned_of_nat take_bit_nat_eq_self Let_def)
  then obtain ls where ls: "resp_lines (date_hdr S) s rq rs = Some (status_line st # cseq_line n # ls)" by blast
  have "length (status_line st @ cseq_line n) \<le> RTSP_RESP_SZ - 1"
    using length_status_line length_cseq_line[OF assms(12)] assms(7) by (auto simp: RTSP_RESP_SZ_def)
  then obtain r where r: "fold (\<lambda>l t. emit RTSP_RESP_SZ t l) (status_line st # cseq_line n # ls) [] = status_line st @ cseq_line n @ r"
    using fold_emit_prefix by blast
  let ?s = "(add_send_buf s (resp_buf (status_line st @ cseq_line n @ r)))\<lparr>handling_state := HANDLING_STATE_DONE\<rparr>"
  have "produce_rtsp_resp p S = Some (put p ?s (S\<lparr>srv_mem := m\<rparr>))"
    using assms(1-4,6,7) m ls r by (auto simp: produce_rtsp_resp_def rtsp_sess_exist_def Let_def simp del: fold_simps)
  moreover have "srv_step p ?s S (put p ?s (S\<lparr>srv_mem := m\<rparr>))" using m(2) by (simp add: srv_step_def)
  moreover have "delay_task_queue (put p ?s (S\<lparr>srv_mem := m\<rparr>)) = delay_task_queue S" by simp
  ultimately show ?thesis by blast
qed

subsection \<open>A request from its bytes to its response\<close>

lemma fold_hdr_effect_keep:
  assumes "fold hdr_effect hs (s, rq, rs, f) = (s', rq', rs', f')"
  shows "rtsp_state s' = rtsp_state s \<and> send_queue s' = send_queue s \<and> req_method rq' = req_method rq \<and>
    resp_ver rs' = resp_ver rs \<and> resp_server rs' = resp_server rs"
  using assms
proof (induction hs arbitrary: s rq rs f)
  case (Cons h hs)
  then show ?case by (cases h) fastforce+
qed simp

lemma hdr_effect_cseq:
  "hdr_effect h (s, rq, rs, f) = (s1, rq1, rs1, f1) \<Longrightarrow>
    resp_cseq rs1 = (case h of Cseq k \<Rightarrow> of_nat k | _ \<Rightarrow> resp_cseq rs)"
  by (cases h) auto

lemma fold_hdr_effect_cseq:
  assumes "fold hdr_effect hs (s, rq, rs, f) = (s', rq', rs', f')" "\<forall>k. Cseq k \<in> set hs \<longrightarrow> k = n"
    "Cseq n \<in> set hs \<or> resp_cseq rs = of_nat n"
  shows "resp_cseq rs' = of_nat n"
  using assms
proof (induction hs arbitrary: s rq rs f)
  case (Cons h hs)
  obtain s1 rq1 rs1 f1 where h: "hdr_effect h (s, rq, rs, f) = (s1, rq1, rs1, f1)" by (metis prod.exhaust)
  have "Cseq n \<in> set hs \<or> resp_cseq rs1 = of_nat n"
    using Cons.prems(2,3) hdr_effect_cseq[OF h] by (cases h) simp_all
  moreover have "fold hdr_effect hs (s1, rq1, rs1, f1) = (s', rq', rs', f')" using Cons.prems(1) h by simp
  ultimately show ?case using Cons.IH Cons.prems(2) by simp
qed simp

lemma find_id_same:
  assumes "sess_at S p = Some s" "sess_id s' = sess_id s" "sess_at T = (sess_at S)(p \<mapsto> s')"
  shows "find_id i ps T = find_id i ps S"
proof (induction ps)
  case (Cons q ps)
  then show ?case using assms by (cases "q = p"; cases "sess_at S q") simp_all
qed simp

lemma rtsp_sess_id_exist_same:
  assumes "sess_at S p = Some s" "sess_id s' = sess_id s" "sess_at T = (sess_at S)(p \<mapsto> s')"
    "rtsp_sess_list T = rtsp_sess_list S"
  shows "rtsp_sess_id_exist i T = rtsp_sess_id_exist i S"
  using find_id_same[OF assms(1-3)] assms(4) by (simp add: rtsp_sess_id_exist_def)

lemma init_ok:
  assumes "sess_at S p = Some s" "handling_state s = HANDLING_STATE_INIT" "mem_ok (srv_mem S)"
  shows "\<exists>S'. handling_method_init p S = Some S' \<and>
    srv_keep p (s\<lparr>req := Some zero_req, resp := Some zero_resp, handling_state := HANDLING_STATE_READY\<rparr>) S S' \<and> clock_elapsed S' = clock_elapsed S"
proof -
  let ?S = "put p (s\<lparr>req := Some zero_req, resp := Some zero_resp, handling_state := HANDLING_STATE_READY\<rparr>) (S\<lparr>srv_mem := tl (tl (srv_mem S))\<rparr>)"
  have "handling_method_init p S = Some ?S"
    using assms mem_ok_tl[OF assms(3)] by (simp add: handling_method_init_def srv_malloc_def)
  moreover have "srv_keep p (s\<lparr>req := Some zero_req, resp := Some zero_resp, handling_state := HANDLING_STATE_READY\<rparr>) S ?S"
    by (simp add: srv_keep_def mem_ok_tl)
  moreover have "clock_elapsed ?S = clock_elapsed S" by simp
  ultimately show ?thesis by blast
qed

lemma parse_of_ok:
  assumes "sess_at S p = Some s" "handling_state s = HANDLING_STATE_READY" "req s = Some zero_req" "resp s = Some zero_resp"
    "mem_ok (srv_mem S)" "host_ok host" "c < 8" "t < 2" "length (channel_uri host c t) < 256"
    "list_all (hdr_line_ok (\<lambda>i. rtsp_sess_id_exist i S = Some True)) hs" "Cseq n \<in> set hs" "\<forall>k. Cseq k \<in> set hs \<longrightarrow> k = n"
    "recv_buf s = request meth (channel_uri host c t) hs @ rest" "0 \<in> set rest"
  shows "\<exists>S' s' rq rs. parse_of exists p S = Some S' \<and> srv_keep p s' S S' \<and> clock_elapsed S' = clock_elapsed S \<and>
    handling_state s' = HANDLING_STATE_PARSED \<and> rtsp_state s' = rtsp_state s \<and> send_queue s' = send_queue s \<and>
    req s' = Some rq \<and> req_method rq = Some meth \<and> resp s' = Some rs \<and> resp_status rs = OK \<and>
    resp_ver rs = Some (str ''RTSP/1.0'') \<and> resp_server rs = Some (str ''Zmodo-RTSP-Server'') \<and> resp_cseq rs = of_nat n"
proof -
  obtain s1 rq rs f where eff: "parsed meth host c t hs (s, zero_req, zero_resp) = (s1, rq, rs, f)" by (metis prod.exhaust)
  let ?s = "s1\<lparr>req := Some rq, resp := Some rs, handling_state := HANDLING_STATE_PARSED\<rparr>"
  let ?S = "put p ?s (S\<lparr>srv_mem := drop 4 (srv_mem S)\<rparr>)"
  have ok0: "resp_status zero_resp = OK" by (simp add: zero_resp_def)
  have run: "parse_of exists p S = Some ?S"
    using assms(1) parse_request_eq[OF assms(2-4) ok0 assms(5-11,13,14), of exists] eff by (simp add: parse_of_def)
  have mem: "mem_ok (drop 4 (srv_mem S))" if "mem_ok (srv_mem S)"
    using that by (simp add: mem_ok_tl numeral_eq_Suc drop_Suc)
  have keep: "srv_keep p ?s S ?S" using mem by (simp add: srv_keep_def)
  have clock: "clock_elapsed ?S = clock_elapsed S" by simp
  note fold = eff[unfolded parsed_def, simplified]
  have "rtsp_state ?s = rtsp_state s" "send_queue ?s = send_queue s" "req_method rq = Some meth" "resp_status rs = OK"
    "resp_ver rs = Some (str ''RTSP/1.0'')" "resp_server rs = Some (str ''Zmodo-RTSP-Server'')" "resp_cseq rs = of_nat n"
    using fold_hdr_effect_keep[OF fold] fold_hdr_effect(1)[OF fold] fold_hdr_effect_cseq[OF fold assms(12)] assms(11)
    by (simp_all add: zero_resp_def)
  then show ?thesis using run keep clock
    by (intro exI[of _ ?S] exI[of _ ?s] exI[of _ rq] exI[of _ rs] conjI) simp_all
qed

definition answered :: "rtsp_method \<Rightarrow> nat \<Rightarrow> rtsp_sess \<Rightarrow> rtsp_sess \<Rightarrow> bool" where
  "answered meth n s s' \<longleftrightarrow> (case srv_next (rtsp_state s) meth of (st, state) \<Rightarrow>
     rtsp_state s' = state \<and> handling_state s' = HANDLING_STATE_INIT \<and> req s' = None \<and> resp s' = None \<and>
     (\<exists>r. send_queue s' = send_queue s @ [resp_buf (status_line st @ cseq_line n @ r)]))"

lemma done_ok:
  assumes "sess_at S p = Some s" "handling_state s \<noteq> HANDLING_STATE_RETRY" "req s \<noteq> None" "resp s \<noteq> None"
  shows "handling_method_done p S = Some (put p (s\<lparr>req := None, resp := None, handling_state := HANDLING_STATE_INIT\<rparr>) S)"
  using assms by (auto simp: handling_method_done_def)

text \<open>After a method has run, its response is produced and the request is released.\<close>

lemma respond_ok:
  assumes "p \<in> set (rtsp_sess_list S)" "sess_at S p = Some s2" "req s = Some rq" "resp s = Some rs" "mem_ok (srv_mem S)"
    "method_done meth s s2" "resp_ver rs = Some (str ''RTSP/1.0'')" "resp_server rs = Some srv" "resp_cseq rs = of_nat n"
    "n < 2 ^ 32" "req_method rq = Some meth" "meth \<noteq> RTSP_METHOD_DESCRIBE"
  shows "\<exists>S' s'. (do { S \<leftarrow> produce_rtsp_resp p S; handling_method_done p S }) = Some S' \<and> srv_step p s' S S' \<and>
    delay_task_queue S' = delay_task_queue S \<and> answered meth n s s'"
proof -
  obtain st state where nx: "srv_next (rtsp_state s) meth = (st, state)" by (metis prod.exhaust)
  have st: "st = OK \<or> st = METHOD_NOT_VALID_IN_THIS_STATE"
    using nx by (cases "rtsp_state s"; cases meth) auto
  note fin = assms(6)[unfolded method_done_def nx, simplified]
  obtain rs2 where rs2: "resp s2 = Some rs2" "resp_ver rs2 = Some (str ''RTSP/1.0'')" "resp_server rs2 = Some srv"
    "resp_cseq rs2 = of_nat n" "resp_status rs2 = st" "meth = RTSP_METHOD_OPTIONS \<longrightarrow> resp_public rs2 = Some (str supported_methods)"
    using fin assms(4,7-9) by auto
  have hand: "handling_state s2 = (if st = OK then HANDLING_STATE_HANDLED else HANDLING_STATE_ERROR)"
    using fin st by auto
  have rq2: "req s2 = Some rq" using fin assms(3) by simp
  obtain S3 r where 3: "produce_rtsp_resp p S = Some S3"
    "srv_step p ((add_send_buf s2 (resp_buf (status_line st @ cseq_line n @ r)))\<lparr>handling_state := HANDLING_STATE_DONE\<rparr>) S S3"
    "delay_task_queue S3 = delay_task_queue S"
    using produce_ok[OF assms(1,2) rq2 rs2(1) assms(5) hand st rs2(2,3,5,4) assms(10-12) rs2(6)] by blast
  define s3 where "s3 = (add_send_buf s2 (resp_buf (status_line st @ cseq_line n @ r)))\<lparr>handling_state := HANDLING_STATE_DONE\<rparr>"
  define s4 where "s4 = s3\<lparr>req := None, resp := None, handling_state := HANDLING_STATE_INIT\<rparr>"
  have at3: "sess_at S3 p = Some s3" using 3(2) unfolding s3_def by (rule srv_step_at)
  have "handling_method_done p S3 = Some (put p s4 S3)"
    unfolding s4_def by (rule done_ok[OF at3]) (simp_all add: s3_def add_send_buf_def rq2 rs2(1))
  then have "(do { S \<leftarrow> produce_rtsp_resp p S; handling_method_done p S }) = Some (put p s4 S3)"
    using 3(1) by simp
  moreover have "srv_step p s4 S (put p s4 S3)" by (rule srv_step_again[OF 3(2) srv_step_put])
  moreover have "answered meth n s s4"
    using fin nx by (auto simp: answered_def s4_def s3_def add_send_buf_def)
  ultimately show ?thesis using 3(3) by (metis put_queue(1))
qed

text \<open>The handler up to the parsed request: the session is otherwise as it was.\<close>

lemma request_parsed:
  assumes "sess_at S p = Some s" "handling_state s = HANDLING_STATE_INIT"
    "recv_buf s = request meth (channel_uri host c t) hs @ rest" "0 \<in> set rest"
    "host_ok host" "c < 8" "t < 2" "length (channel_uri host c t) < 256"
    "list_all (hdr_line_ok (\<lambda>i. rtsp_sess_id_exist i S = Some True)) hs" "Cseq n \<in> set hs" "\<forall>k. Cseq k \<in> set hs \<longrightarrow> k = n"
    "mem_ok (srv_mem S)"
  shows "\<exists>S0 S1 s1 rq rs. handling_method_init p S = Some S0 \<and> parse_of exists p S0 = Some S1 \<and> srv_keep p s1 S S1
    \<and> clock_elapsed S1 = clock_elapsed S \<and> handling_state s1 = HANDLING_STATE_PARSED
    \<and> rtsp_state s1 = rtsp_state s \<and> send_queue s1 = send_queue s
    \<and> req s1 = Some rq \<and> req_method rq = Some meth \<and> resp s1 = Some rs \<and> resp_status rs = OK
    \<and> resp_ver rs = Some (str ''RTSP/1.0'') \<and> resp_server rs = Some (str ''Zmodo-RTSP-Server'') \<and> resp_cseq rs = of_nat n"
proof -
  define s0 where "s0 = s\<lparr>req := Some zero_req, resp := Some zero_resp, handling_state := HANDLING_STATE_READY\<rparr>"
  obtain S0 where 0: "handling_method_init p S = Some S0" "srv_keep p s0 S S0" "clock_elapsed S0 = clock_elapsed S"
    using init_ok[OF assms(1,2,12)] unfolding s0_def by blast
  have known: "rtsp_sess_id_exist i S0 = rtsp_sess_id_exist i S" for i
    using 0(2) by (intro rtsp_sess_id_exist_same[OF assms(1), of s0]) (simp_all add: srv_keep_def s0_def)
  have s0: "handling_state s0 = HANDLING_STATE_READY" "req s0 = Some zero_req" "resp s0 = Some zero_resp"
    "recv_buf s0 = request meth (channel_uri host c t) hs @ rest"
    "list_all (hdr_line_ok (\<lambda>i. rtsp_sess_id_exist i S0 = Some True)) hs"
    "rtsp_state s0 = rtsp_state s" "send_queue s0 = send_queue s"
    using assms(3,9) known by (simp_all add: s0_def)
  obtain S1 s1 rq rs where 1: "parse_of exists p S0 = Some S1" "srv_keep p s1 S0 S1" "clock_elapsed S1 = clock_elapsed S0"
    "handling_state s1 = HANDLING_STATE_PARSED" "rtsp_state s1 = rtsp_state s0" "send_queue s1 = send_queue s0"
    "req s1 = Some rq" "req_method rq = Some meth" "resp s1 = Some rs" "resp_status rs = OK"
    "resp_ver rs = Some (str ''RTSP/1.0'')" "resp_server rs = Some (str ''Zmodo-RTSP-Server'')" "resp_cseq rs = of_nat n"
    using parse_of_ok[OF srv_keep_at[OF 0(2)] s0(1-3) srv_keep_ok(2)[OF 0(2) assms(12)] assms(5-8) s0(5) assms(10,11) s0(4) assms(4),
      where exists = exists] by blast
  show ?thesis
    using 0(1,3) 1(1,3-13) srv_keep_again[OF 0(2) 1(2)] s0(6,7) by (intro exI[of _ S0] exI[of _ S1] exI[of _ s1]) simp
qed

text \<open>C1: A request is answered as the state table \<open>srv_next\<close> says, which is that of RFC 2326, A.2 except that
  PAUSE and the parameter methods are accepted in every state. When the calls of the system and the
  allocations succeed and a canonical request for a channel (any method but DESCRIBE, whose answer depends on the encoder) is in the receive buffer of a
  listed session, the handler of requests returns; the session moves to the state of the table, is ready
  for the next request, and has one response more in its queue, whose first lines are the status of the
  table and the sequence number of the request. PLAY outside INIT schedules the sending of frames at
  once, TEARDOWN the destruction of the session in 10 ms; no other session changes.\<close>

theorem request_answered:
  assumes "sess_at S p = Some s" "p \<in> set (rtsp_sess_list S)" "handling_state s = HANDLING_STATE_INIT"
    "recv_buf s = request meth (channel_uri host c t) hs @ rest" "0 \<in> set rest" "meth \<noteq> RTSP_METHOD_DESCRIBE"
    "host_ok host" "c < 8" "t < 2" "length (channel_uri host c t) < 256"
    "list_all (hdr_line_ok (\<lambda>i. rtsp_sess_id_exist i S = Some True)) hs" "Cseq n \<in> set hs" "\<forall>k. Cseq k \<in> set hs \<longrightarrow> k = n"
    "mem_ok (srv_mem S)" "results_ok S"
    "queue_ok (delay_task_queue S)" "next_addr S \<notin> addr ` set (delay_task_queue S)"
  shows "\<exists>S' s'. handle_rtsp_req exists p S = Some (- 1, S') \<and> sess_at S' = (sess_at S)(p \<mapsto> s') \<and>
    rtsp_sess_list S' = rtsp_sess_list S \<and> answered meth n s s' \<and> scheduled p (task_of (rtsp_state s) meth) S S'"
proof -
  obtain S0 S1 s1 rq rs where 0: "handling_method_init p S = Some S0" and 1: "parse_of exists p S0 = Some S1"
    and k1: "srv_keep p s1 S S1" and clk: "clock_elapsed S1 = clock_elapsed S"
    and s1: "handling_state s1 = HANDLING_STATE_PARSED" "rtsp_state s1 = rtsp_state s" "send_queue s1 = send_queue s"
      "req s1 = Some rq" "req_method rq = Some meth" "resp s1 = Some rs" "resp_status rs = OK"
      "resp_ver rs = Some (str ''RTSP/1.0'')" "resp_server rs = Some (str ''Zmodo-RTSP-Server'')" "resp_cseq rs = of_nat n"
    using request_parsed[OF assms(1,3,4,5,7-14), where exists = exists] by blast
  have q: "queue_ok (delay_task_queue S1)" "next_addr S1 \<notin> addr ` set (delay_task_queue S1)"
    "delay_task_queue S1 = delay_task_queue S" "next_addr S1 = next_addr S"
    using k1 assms(16,17) by (simp_all add: srv_keep_def)
  obtain S2 s2 where 2: "handle_method meth p S1 = Some S2" "srv_step p s2 S1 S2" "method_done meth s1 s2"
    "scheduled p (task_of (rtsp_state s1) meth) S1 S2"
    using handle_method_ok[OF srv_keep_at[OF k1] s1(4,6,7) srv_keep_ok(1)[OF k1 assms(15)] srv_keep_ok(2)[OF k1 assms(14)] q(1,2) assms(6)]
    by blast
  have k2: "srv_step p s2 S S2" by (rule srv_step_again[OF srv_keep_step[OF k1] 2(2)])
  have run: "run_rtsp_state_machine p S1 = Some S2"
    using srv_keep_at[OF k1] s1(1,4,5) 2(1) by (simp add: run_rtsp_state_machine_def)
  have listed: "p \<in> set (rtsp_sess_list S2)" "mem_ok (srv_mem S2)" using k2 assms(2,14) by (simp_all add: srv_step_def)
  have n: "n < 2 ^ 32" using assms(11,12) by (auto simp: list_all_iff)
  obtain S3 s3 where 3: "(do { S \<leftarrow> produce_rtsp_resp p S2; handling_method_done p S }) = Some S3" "srv_step p s3 S2 S3"
    "delay_task_queue S3 = delay_task_queue S2" "answered meth n s1 s3"
    using respond_ok[OF listed(1) srv_step_at[OF k2] s1(4,6) listed(2) 2(3) s1(8-10) n s1(5) assms(6)] by blast
  have k3: "srv_step p s3 S S3" by (rule srv_step_again[OF k2 3(2)])
  have a: "answered meth n s s3" using 3(4) s1(2,3) by (simp add: answered_def)
  then have "handling_state s3 = HANDLING_STATE_INIT" by (simp add: answered_def split: prod.splits)
  then have "handle_rtsp_req exists p S = Some (- 1, S3)"
    using 0 1 run 3(1) srv_step_at[OF k3] by (auto simp: handle_rtsp_req_def split: bind_splits)
  moreover have "scheduled p (task_of (rtsp_state s) meth) S S3"
    using 2(4) 3(3) q(3,4) s1(2) clk by (cases "task_of (rtsp_state s) meth") (auto simp: scheduled_def)
  ultimately show ?thesis using k3 a by (auto simp: srv_step_def)
qed

lemma request_answered_witness:
  "\<exists>S' s'. handle_rtsp_req (\<lambda>_. False) 5 ((zero_srv [])\<lparr>sess_at := [5 \<mapsto> zero_sess\<lparr>recv_buf :=
      request RTSP_METHOD_SETUP (channel_uri (str ''cam'') 2 1) [Over_udp 5000 5001, Cseq 3] @ [0]\<rparr>], rtsp_sess_list := [5]\<rparr>) = Some (- 1, S') \<and>
    sess_at S' 5 = Some s' \<and> rtsp_state s' = RTSP_STATE_READY \<and> length (send_queue s') = 1"
proof -
  define s where "s = zero_sess\<lparr>recv_buf := request RTSP_METHOD_SETUP (channel_uri (str ''cam'') 2 1) [Over_udp 5000 5001, Cseq 3] @ [0]\<rparr>"
  define S where "S = (zero_srv [])\<lparr>sess_at := [5 \<mapsto> s], rtsp_sess_list := [5]\<rparr>"
  have "\<exists>S' s'. handle_rtsp_req (\<lambda>_. False) 5 S = Some (- 1, S') \<and> sess_at S' = (sess_at S)(5 \<mapsto> s') \<and>
    rtsp_sess_list S' = rtsp_sess_list S \<and> answered RTSP_METHOD_SETUP 3 s s' \<and>
    scheduled 5 (task_of (rtsp_state s) RTSP_METHOD_SETUP) S S'"
  proof (rule request_answered)
    show "host_ok (str ''cam'')" by (simp add: host_ok_def str_def uchar_def)
    show "length (channel_uri (str ''cam'') 2 1) < 256" by (simp add: channel_uri_def str_def dec.simps)
    show "recv_buf s = request RTSP_METHOD_SETUP (channel_uri (str ''cam'') 2 1) [Over_udp 5000 5001, Cseq 3] @ [0]"
      by (simp add: s_def)
  qed (simp_all add: S_def s_def zero_srv_def zero_sess_def queue_ok_def INT_MAX_def)
  then obtain S' s' where "handle_rtsp_req (\<lambda>_. False) 5 S = Some (- 1, S')" "sess_at S' 5 = Some s'" "answered RTSP_METHOD_SETUP 3 s s'"
    by auto
  moreover have "rtsp_state s = RTSP_STATE_INIT" "send_queue s = []" by (simp_all add: s_def zero_sess_def)
  ultimately have "\<exists>S' s'. handle_rtsp_req (\<lambda>_. False) 5 S = Some (- 1, S') \<and> sess_at S' 5 = Some s' \<and>
    rtsp_state s' = RTSP_STATE_READY \<and> length (send_queue s') = 1"
    by (auto simp: answered_def)
  then show ?thesis unfolding S_def s_def .
qed

end
