(* ===== verification/Hash_Table.thy ===== *)
theory Hash_Table
  imports C_Base
begin

text \<open>
  \<open>Algorithm/HashTable/hashtable.c\<close>: a chained hash table that grows and shrinks. A chain is the list
  of its elements. A key is the bytes that its pointer and length name, so two keys are equal when
  \<open>key_len\<close> and \<open>memcmp\<close> say so; a value is kept as it is (type \<open>'v\<close>, a pointer or the copied bytes).
  The caller does not change the bytes of a key that the table refers to. \<open>key_count\<close> is a number of
  allocated elements and does not wrap; \<open>key_num\<close> is the 16-bit field of the structure.
\<close>

subsection \<open>State\<close>

datatype hash_table_mode = MODE_COPY | MODE_VALUEREF | MODE_ALLREF

record 'v hash_element =
  hkey :: "u8 list"
  hvalue :: 'v
  value_len :: nat

record 'v hash_table =
  store_house :: "'v hash_element list list"
  hmode :: hash_table_mode
  key_count :: nat
  key_num :: u16
  key_ratio :: nat

definition hash_table_new :: "hash_table_mode \<Rightarrow> mem \<Rightarrow> 'v hash_table option \<times> mem" where
  "hash_table_new md m = (case malloc () m of
     (None, m) \<Rightarrow> (None, m)
   | (Some _, m) \<Rightarrow> (case malloc () m of
       (None, m) \<Rightarrow> (None, m)
     | (Some _, m) \<Rightarrow> (Some \<lparr>store_house = replicate 128 [], hmode = md, key_count = 0, key_num = 128, key_ratio = 4\<rparr>, m)))"

subsection \<open>The hash function\<close>

text \<open>The key is read as 16-bit words of a little-endian machine; a last odd byte is not read.\<close>

fun hash_words :: "nat \<Rightarrow> u16 \<Rightarrow> u8 list \<Rightarrow> u16" where
  "hash_words i hash (a # b # r) = (let w = or (ucast a) (push_bit 8 (ucast b)) in
     hash_words (Suc i) (xor hash (xor (xor (push_bit 4 (of_nat i)) (push_bit 8 w)) w)) r)"
| "hash_words i hash _ = hash"

definition hash_table_do_hash :: "u8 list \<Rightarrow> u16 \<Rightarrow> nat option" where
  "hash_table_do_hash key max_key = (if max_key = 0 then None else Some (unat (hash_words 0 0xbabe key mod max_key)))"

subsection \<open>Chains\<close>

text \<open>The search of \<open>hash_table_add\<close> starts behind the first element. The first component says
  whether \<open>key_count\<close> grows.\<close>

fun add_behind :: "'v hash_element \<Rightarrow> 'v hash_element list \<Rightarrow> bool \<times> 'v hash_element list" where
  "add_behind e [] = (True, [e])"
| "add_behind e (x # xs) = (if hkey x = hkey e then (False, e # xs)
     else case add_behind e xs of (grown, ys) \<Rightarrow> (grown, x # ys))"

fun chain_add :: "'v hash_element \<Rightarrow> 'v hash_element list \<Rightarrow> bool \<times> 'v hash_element list" where
  "chain_add e [] = (True, [e])"
| "chain_add e (x # xs) = (case add_behind e xs of (grown, ys) \<Rightarrow> (grown, x # ys))"

fun chain_lookup :: "u8 list \<Rightarrow> 'v hash_element list \<Rightarrow> 'v option" where
  "chain_lookup k [] = None"
| "chain_lookup k (x # xs) = (if hkey x = k then Some (hvalue x) else chain_lookup k xs)"

text \<open>The removal at position \<open>i\<close>: \<open>prev\<close> is the first element for the first and for the second one, and
  then the head of the chain is set to the successor of the removed element.\<close>

fun position :: "u8 list \<Rightarrow> 'v hash_element list \<Rightarrow> nat option" where
  "position k [] = None"
| "position k (x # xs) = (if hkey x = k then Some 0 else map_option Suc (position k xs))"

definition chain_remove :: "u8 list \<Rightarrow> 'v hash_element list \<Rightarrow> 'v hash_element list option" where
  "chain_remove k xs = map_option (\<lambda>i. if i \<le> 1 then drop (Suc i) xs else take i xs @ drop (Suc i) xs) (position k xs)"

subsection \<open>Resizing and adding\<close>

definition hash_table_get_elements :: "'v hash_table \<Rightarrow> mem \<Rightarrow> (nat \<times> 'v hash_element list option \<times> mem) option" where
  "hash_table_get_elements T m = (case malloc () m of
     (None, m) \<Rightarrow> Some (1, None, m)
   | (Some _, m) \<Rightarrow> do {
       chains \<leftarrow> slice (store_house T) 0 (unat (key_num T));
       if length (concat chains) > key_count T then None
       else Some (length (concat chains), Some (concat chains), m) })"

fun alloc_parts :: "hash_table_mode \<Rightarrow> mem \<Rightarrow> bool \<times> mem" where
  "alloc_parts MODE_COPY m = (let (k, m) = malloc () m; (v, m) = malloc () m in (k \<noteq> None \<and> v \<noteq> None, m))"
| "alloc_parts MODE_VALUEREF m = (let (k, m) = malloc () m in (k \<noteq> None, m))"
| "alloc_parts MODE_ALLREF m = (True, m)"

text \<open>\<open>hash_table_add\<close> from the computation of the hash on.\<close>

definition add_element :: "'v hash_element \<Rightarrow> 'v hash_table \<times> mem \<Rightarrow> (int \<times> 'v hash_table \<times> mem) option" where
  "add_element e = (\<lambda>(T, m). do {
     hash \<leftarrow> hash_table_do_hash (hkey e) (key_num T);
     (case malloc () m of
       (None, m) \<Rightarrow> Some (- 1, T, m)
     | (Some _, m) \<Rightarrow> (case alloc_parts (hmode T) m of (ok, m) \<Rightarrow>
         if \<not> ok then Some (- 1, T, m)
         else do {
           chain \<leftarrow> rd (store_house T) hash;
           let (grown, chain) = chain_add e chain;
           store \<leftarrow> wr (store_house T) hash chain;
           Some (0, T\<lparr>store_house := store, key_count := (if grown then key_count T + 1 else key_count T)\<rparr>, m) })) })"

fun readd :: "('v hash_element \<Rightarrow> 'v hash_table \<times> mem \<Rightarrow> (int \<times> 'v hash_table \<times> mem) option)
    \<Rightarrow> 'v hash_element list \<Rightarrow> 'v hash_table \<times> mem \<Rightarrow> ('v hash_table \<times> mem) option" where
  "readd add [] S = Some S"
| "readd add (e # es) S = do { (_, S) \<leftarrow> add e S; readd add es S }"

definition resize_with :: "('v hash_element \<Rightarrow> 'v hash_table \<times> mem \<Rightarrow> (int \<times> 'v hash_table \<times> mem) option)
    \<Rightarrow> nat \<Rightarrow> 'v hash_table \<times> mem \<Rightarrow> (int \<times> 'v hash_table \<times> mem) option" where
  "resize_with add len = (\<lambda>(T, m). do {
     (count, elements, m) \<leftarrow> hash_table_get_elements T m;
     if count = 0 then Some (- 1, T, m)
     else (case malloc () m of
       (None, m) \<Rightarrow> Some (- 2, T, m)
     | (Some _, m) \<Rightarrow> do {
         es \<leftarrow> elements;
         (T', m) \<leftarrow> readd add (rev es)
           (T\<lparr>store_house := replicate len [], key_num := of_nat len, hmode := MODE_ALLREF, key_count := 0\<rparr>, m);
         Some (0, T'\<lparr>hmode := hmode T\<rparr>, m) }) })"

text \<open>Adding may resize, and resizing adds. Each such level doubles \<open>key_num\<close>, which is 0 after at most
  16 of them, and a table with \<open>key_num = 0\<close> divides by zero; the fuel is never used up before.\<close>

primrec add_fuel :: "nat \<Rightarrow> 'v hash_element \<Rightarrow> 'v hash_table \<times> mem \<Rightarrow> (int \<times> 'v hash_table \<times> mem) option" where
  "add_fuel 0 e = (\<lambda>_. None)"
| "add_fuel (Suc n) e = (\<lambda>(T, m).
    if key_num T = 0 then None
    else if key_count T div unat (key_num T) \<ge> key_ratio T then do {
      (_, S) \<leftarrow> resize_with (add_fuel n) (unat (key_num T) * 2) (T, m);
      add_element e S }
    else add_element e (T, m))"

definition hash_table_add :: "'v hash_table \<Rightarrow> u8 list \<Rightarrow> 'v \<Rightarrow> nat \<Rightarrow> mem \<Rightarrow> (int \<times> 'v hash_table \<times> mem) option" where
  "hash_table_add T key v len m = add_fuel 18 \<lparr>hkey = key, hvalue = v, value_len = len\<rparr> (T, m)"

definition hash_table_resize :: "'v hash_table \<Rightarrow> nat \<Rightarrow> mem \<Rightarrow> (int \<times> 'v hash_table \<times> mem) option" where
  "hash_table_resize T len m = resize_with (add_fuel 18) len (T, m)"

subsection \<open>The other operations\<close>

definition hash_table_remove :: "'v hash_table \<Rightarrow> u8 list \<Rightarrow> mem \<Rightarrow> (int \<times> 'v hash_table \<times> mem) option" where
  "hash_table_remove T key m = (if key_count T = 0 then None else do {
     (T, m) \<leftarrow> (if unat (key_num T) div key_count T \<ge> key_ratio T then do {
         (_, S) \<leftarrow> hash_table_resize T (unat (key_num T) div 2) m;
         Some S }
       else Some (T, m));
     hash \<leftarrow> hash_table_do_hash key (key_num T);
     chain \<leftarrow> rd (store_house T) hash;
     (case chain_remove key chain of
       None \<Rightarrow> Some (- 1, T, m)
     | Some chain \<Rightarrow> do {
         store \<leftarrow> wr (store_house T) hash chain;
         Some (0, T\<lparr>store_house := store, key_count := key_count T - 1\<rparr>, m) }) })"

definition hash_table_lookup :: "'v hash_table \<Rightarrow> u8 list \<Rightarrow> 'v option option" where
  "hash_table_lookup T key = do {
     hash \<leftarrow> hash_table_do_hash key (key_num T);
     chain \<leftarrow> rd (store_house T) hash;
     Some (chain_lookup key chain) }"

definition hash_table_has_key :: "'v hash_table \<Rightarrow> u8 list \<Rightarrow> bool option" where
  "hash_table_has_key T key = do {
     hash \<leftarrow> hash_table_do_hash key (key_num T);
     chain \<leftarrow> rd (store_house T) hash;
     Some (position key chain \<noteq> None) }"

text \<open>The array of \<open>hash_table_get_keys\<close> is stored in the parameter, so the caller's \<open>keys\<close> stays as it
  was.\<close>

definition hash_table_get_keys :: "'v hash_table \<Rightarrow> 'k \<Rightarrow> mem \<Rightarrow> (nat \<times> 'k \<times> mem) option" where
  "hash_table_get_keys T keys m = (case malloc () m of (array, m) \<Rightarrow> do {
     chains \<leftarrow> slice (store_house T) 0 (unat (key_num T));
     if concat chains \<noteq> [] \<and> (array = None \<or> length (concat chains) > key_count T) then None
     else Some (length (concat chains), keys, m) })"

fun iterate_chain :: "('u \<Rightarrow> 'v \<Rightarrow> u8 list \<Rightarrow> bool \<times> 'u) \<Rightarrow> 'u \<Rightarrow> 'v hash_element list \<Rightarrow> 'v hash_element list \<times> nat \<times> 'u" where
  "iterate_chain fct user [] = ([], 0, user)"
| "iterate_chain fct user (e # es) = (case fct user (hvalue e) (hkey e) of (r, user) \<Rightarrow>
     case iterate_chain fct user es of (es, removed, user) \<Rightarrow>
       if r then (es, Suc removed, user) else (e # es, removed, user))"

fun iterate_chains :: "('u \<Rightarrow> 'v \<Rightarrow> u8 list \<Rightarrow> bool \<times> 'u) \<Rightarrow> 'u \<Rightarrow> 'v hash_element list list
    \<Rightarrow> 'v hash_element list list \<times> nat \<times> 'u" where
  "iterate_chains fct user [] = ([], 0, user)"
| "iterate_chains fct user (c # cs) = (case iterate_chain fct user c of (c, n, user) \<Rightarrow>
     case iterate_chains fct user cs of (cs, k, user) \<Rightarrow> (c # cs, n + k, user))"

definition hash_table_iterate :: "'v hash_table \<Rightarrow> ('u \<Rightarrow> 'v \<Rightarrow> u8 list \<Rightarrow> bool \<times> 'u) \<Rightarrow> 'u \<Rightarrow> (int \<times> 'v hash_table \<times> 'u) option" where
  "hash_table_iterate T fct user = do {
     chains \<leftarrow> slice (store_house T) 0 (unat (key_num T));
     let (chains, removed, user) = iterate_chains fct user chains;
     Some (0, T\<lparr>store_house := chains @ drop (length chains) (store_house T), key_count := key_count T - removed\<rparr>, user) }"

text \<open>What \<open>hash_table_delete\<close> frees: the elements, in this order.\<close>

definition hash_table_delete :: "'v hash_table \<Rightarrow> 'v hash_element list option" where
  "hash_table_delete T = map_option concat (slice (store_house T) 0 (unat (key_num T)))"

end
