(* ===== verification/Hash_Table_Correct.thy ===== *)
theory Hash_Table_Correct
  imports Hash_Table "HOL-Library.Multiset"
begin

text \<open>
  The hash table as a map. The locale \<open>growing_map\<close> states what a client needs who adds new keys up to
  a capacity; the interpretation \<open>table\<close> proves it for the code, through the invariant \<open>ht_inv\<close>, the
  behaviour of \<open>add_element\<close> on a new key and of the resizing in between (\<open>resize_ok\<close>). Then the
  cases in which the table is no map: the 131073rd element, the value of the first key of a chain, the
  removal of the second one.
\<close>

subsection \<open>A growing map\<close>

text \<open>What a client needs who fills a map with new keys only, up to its capacity.\<close>

locale growing_map =
  fixes ok :: "'t \<Rightarrow> bool" and size_of :: "'t \<Rightarrow> nat" and capacity :: nat
    and lookup :: "'t \<Rightarrow> 'k \<Rightarrow> 'v option" and add :: "'k \<Rightarrow> 'v \<Rightarrow> 't \<Rightarrow> 't option"
  assumes add_new: "ok t \<Longrightarrow> size_of t < capacity \<Longrightarrow> lookup t k = None \<Longrightarrow>
    \<exists>t'. add k v t = Some t' \<and> ok t' \<and> size_of t' = Suc (size_of t) \<and> lookup t' = (lookup t)(k \<mapsto> v)"
begin

fun add_all :: "('k \<times> 'v) list \<Rightarrow> 't \<Rightarrow> 't option" where
  "add_all [] t = Some t"
| "add_all ((k, v) # kvs) t = add k v t \<bind> add_all kvs"

lemma add_all_new:
  "ok t \<Longrightarrow> size_of t + length kvs \<le> capacity \<Longrightarrow> distinct (map fst kvs) \<Longrightarrow> \<forall>k \<in> set (map fst kvs). lookup t k = None \<Longrightarrow>
    \<exists>t'. add_all kvs t = Some t' \<and> ok t' \<and> size_of t' = size_of t + length kvs \<and> lookup t' = lookup t ++ map_of kvs"
proof (induction kvs arbitrary: t)
  case (Cons kv kvs)
  obtain k v where kv: "kv = (k, v)" by (metis prod.exhaust)
  obtain t1 where t1: "add k v t = Some t1" "ok t1" "size_of t1 = Suc (size_of t)" "lookup t1 = (lookup t)(k \<mapsto> v)"
    using add_new[of t k v] Cons.prems kv by auto
  have pre: "\<forall>x \<in> set (map fst kvs). lookup t1 x = None"
    using Cons.prems(3,4) kv t1(4) by auto
  obtain t' where t': "add_all kvs t1 = Some t'" "ok t'" "size_of t' = size_of t1 + length kvs" "lookup t' = lookup t1 ++ map_of kvs"
    using Cons.IH[OF t1(2) _ _ pre] Cons.prems kv t1(3) by auto
  have "k \<notin> dom (map_of kvs)" using Cons.prems(3) kv by (simp add: dom_map_of_conv_image_fst)
  then have l: "lookup t' = lookup t ++ map_of (kv # kvs)"
    using t'(4) t1(4) kv by (auto simp: map_add_upd_left fun_eq_iff map_add_def domIff split: option.split)
  have "add_all (kv # kvs) t = Some t'" using t1(1) t'(1) kv by simp
  moreover have "size_of t' = size_of t + length (kv # kvs)" using t1(3) t'(3) by simp
  ultimately show ?case using t'(2) l by blast
qed simp

end

subsection \<open>Tables in order\<close>

definition elements :: "'v hash_table \<Rightarrow> 'v hash_element list" where
  "elements T = concat (store_house T)"

definition ht_inv :: "'v hash_table \<Rightarrow> bool" where
  "ht_inv T \<longleftrightarrow> key_num T \<noteq> 0 \<and> length (store_house T) = unat (key_num T) \<and> key_ratio T = 4 \<and>
     key_count T = length (elements T) \<and> distinct (map hkey (elements T)) \<and>
     (\<forall>i < length (store_house T). \<forall>e \<in> set (store_house T ! i). hash_table_do_hash (hkey e) (key_num T) = Some i)"

definition ht_ok :: "'v hash_table \<Rightarrow> bool" where
  "ht_ok T \<longleftrightarrow> ht_inv T \<and> key_count T \<le> 4 * unat (key_num T)"

lemma hash_bound: "k \<noteq> 0 \<Longrightarrow> \<exists>h. hash_table_do_hash key k = Some h \<and> h < unat k"
  by (simp add: hash_table_do_hash_def unat_mod unat_gt_0)

lemma chain_lookup_None: "chain_lookup k xs = None \<longleftrightarrow> k \<notin> hkey ` set xs"
  by (induction xs) auto

lemma chain_lookup_Some: "distinct (map hkey xs) \<Longrightarrow> chain_lookup k xs = Some v \<longleftrightarrow> (\<exists>e \<in> set xs. hkey e = k \<and> hvalue e = v)"
  by (induction xs) (auto simp: image_iff)

lemma distinct_part:
  assumes "distinct (map f (concat xss))" "i < length xss"
  shows "distinct (map f (xss ! i))"
  using assms
proof (induction xss arbitrary: i)
  case (Cons xs xss)
  then show ?case by (cases i) auto
qed simp

text \<open>A lookup finds what is anywhere in the table.\<close>

lemma lookup_elements:
  assumes "ht_inv T"
  shows "\<exists>r. hash_table_lookup T k = Some r \<and> (\<forall>v. r = Some v \<longleftrightarrow> (\<exists>e \<in> set (elements T). hkey e = k \<and> hvalue e = v))"
proof -
  obtain h where h: "hash_table_do_hash k (key_num T) = Some h" "h < length (store_house T)"
    using hash_bound[of "key_num T" k] assms by (auto simp: ht_inv_def)
  let ?c = "store_house T ! h"
  have d: "distinct (map hkey ?c)" using distinct_part[of hkey "store_house T" h] assms h(2) by (simp add: ht_inv_def elements_def)
  have "(\<exists>e \<in> set (elements T). hkey e = k \<and> hvalue e = v) \<longleftrightarrow> (\<exists>e \<in> set ?c. hkey e = k \<and> hvalue e = v)" for v
  proof
    assume "\<exists>e \<in> set (elements T). hkey e = k \<and> hvalue e = v"
    then obtain e i where e: "hkey e = k" "hvalue e = v" "i < length (store_house T)" "e \<in> set (store_house T ! i)"
      unfolding elements_def set_concat by (metis UN_E in_set_conv_nth)
    then have "i = h" using assms h by (auto simp: ht_inv_def)
    then show "\<exists>e \<in> set ?c. hkey e = k \<and> hvalue e = v" using e by blast
  next
    assume "\<exists>e \<in> set ?c. hkey e = k \<and> hvalue e = v"
    then show "\<exists>e \<in> set (elements T). hkey e = k \<and> hvalue e = v" using nth_mem[OF h(2)] by (auto simp: elements_def)
  qed
  then show ?thesis using h chain_lookup_Some[OF d] by (simp add: hash_table_lookup_def)
qed

lemma lookup_total: "ht_inv T \<Longrightarrow> \<exists>r. hash_table_lookup T k = Some r"
  using lookup_elements by blast

lemma lookup_None_iff: "ht_inv T \<Longrightarrow> hash_table_lookup T k = Some None \<longleftrightarrow> k \<notin> hkey ` set (elements T)"
proof -
  assume "ht_inv T"
  then obtain r where r: "hash_table_lookup T k = Some r" "\<forall>v. r = Some v \<longleftrightarrow> (\<exists>e \<in> set (elements T). hkey e = k \<and> hvalue e = v)"
    using lookup_elements by blast
  then show ?thesis by (cases r) auto
qed

subsection \<open>Adding without growing\<close>

lemma chain_add_new: "hkey e \<notin> hkey ` set xs \<Longrightarrow> chain_add e xs = (True, xs @ [e])"
proof -
  have "hkey e \<notin> hkey ` set xs \<Longrightarrow> add_behind e xs = (True, xs @ [e])" for xs
    by (induction xs) auto
  then show "hkey e \<notin> hkey ` set xs \<Longrightarrow> chain_add e xs = (True, xs @ [e])" by (cases xs) auto
qed

lemma mset_concat_update: "i < length xss \<Longrightarrow> mset (concat (xss[i := xss ! i @ [e]])) = add_mset e (mset (concat xss))"
proof (induction xss arbitrary: i)
  case (Cons xs xss)
  then show ?case by (cases i) auto
qed simp

lemma alloc_parts_ok: "mem_ok m \<Longrightarrow> \<exists>m'. alloc_parts md m = (True, m') \<and> mem_ok m'"
  by (cases md) (simp_all add: mem_ok_tl)

lemma add_element_ok:
  assumes "ht_inv T" "mem_ok m" "hkey e \<notin> hkey ` set (elements T)"
  shows "\<exists>T' m'. add_element e (T, m) = Some (0, T', m') \<and> mem_ok m' \<and> ht_inv T' \<and>
    mset (elements T') = add_mset e (mset (elements T)) \<and> key_num T' = key_num T \<and> hmode T' = hmode T \<and> key_count T' = Suc (key_count T)"
proof -
  obtain h where h: "hash_table_do_hash (hkey e) (key_num T) = Some h" "h < length (store_house T)"
    using hash_bound[of "key_num T" "hkey e"] assms(1) by (auto simp: ht_inv_def)
  let ?c = "store_house T ! h"
  have "set ?c \<subseteq> set (elements T)" using nth_mem[OF h(2)] by (auto simp: elements_def)
  then have new: "chain_add e ?c = (True, ?c @ [e])" using assms(3) by (intro chain_add_new) auto
  obtain m' where m': "alloc_parts (hmode T) (tl m) = (True, m')" "mem_ok m'"
    using alloc_parts_ok[OF mem_ok_tl[OF assms(2)]] by blast
  let ?T = "T\<lparr>store_house := (store_house T)[h := ?c @ [e]], key_count := key_count T + 1\<rparr>"
  have run: "add_element e (T, m) = Some (0, ?T, m')"
    using h new m'(1) assms(2) by (simp add: add_element_def)
  have ms: "mset (elements ?T) = add_mset e (mset (elements T))"
    using mset_concat_update[OF h(2)] by (simp add: elements_def)
  then have "mset (map hkey (elements ?T)) = mset (hkey e # map hkey (elements T))" by simp
  then have "distinct (map hkey (elements ?T))"
    using mset_eq_imp_distinct_iff[of "map hkey (elements ?T)" "hkey e # map hkey (elements T)"] assms(1,3)
    by (auto simp: ht_inv_def)
  moreover have "length (elements ?T) = Suc (length (elements T))"
    using arg_cong[OF ms, of size] by simp
  moreover have "hash_table_do_hash (hkey x) (key_num T) = Some i"
    if "i < length (store_house T)" "x \<in> set ((store_house T)[h := ?c @ [e]] ! i)" for i x
    using that assms(1) h by (cases "i = h") (auto simp: ht_inv_def)
  ultimately have "ht_inv ?T" using assms(1) by (simp add: ht_inv_def)
  then show ?thesis using run m'(2) ms by (intro exI[of _ ?T] exI[of _ m']) simp
qed

subsection \<open>Resizing\<close>

lemma add_fuel_small:
  assumes "ht_inv T" "key_count T < 4 * unat (key_num T)"
  shows "add_fuel (Suc n) e (T, m) = add_element e (T, m)"
proof -
  have "key_count T div unat (key_num T) < 4" using assms(2) by (simp add: less_mult_imp_div_less)
  then show ?thesis using assms(1) by (auto simp: ht_inv_def)
qed

lemma readd_ok:
  "ht_inv T \<Longrightarrow> mem_ok m \<Longrightarrow> distinct (map hkey es) \<Longrightarrow> hkey ` set es \<inter> hkey ` set (elements T) = {} \<Longrightarrow>
   key_count T + length es \<le> 4 * unat (key_num T) \<Longrightarrow>
   \<exists>T' m'. readd (add_fuel (Suc n)) es (T, m) = Some (T', m') \<and> mem_ok m' \<and> ht_inv T' \<and>
     mset (elements T') = mset es + mset (elements T) \<and> key_num T' = key_num T"
proof (induction es arbitrary: T m)
  case (Cons e es)
  obtain T1 m1 where 1: "add_element e (T, m) = Some (0, T1, m1)" "mem_ok m1" "ht_inv T1"
    "mset (elements T1) = add_mset e (mset (elements T))" "key_num T1 = key_num T" "key_count T1 = Suc (key_count T)"
    using add_element_ok[OF Cons.prems(1,2), of e] Cons.prems(4) by auto
  have set1: "set (elements T1) = insert e (set (elements T))" using arg_cong[OF 1(4), of set_mset] by simp
  have pre: "distinct (map hkey es)" "hkey ` set es \<inter> hkey ` set (elements T1) = {}"
    "key_count T1 + length es \<le> 4 * unat (key_num T1)"
    using Cons.prems(3-5) set1 1(5,6) by auto
  obtain T' m' where "readd (add_fuel (Suc n)) es (T1, m1) = Some (T', m')" "mem_ok m'" "ht_inv T'"
    "mset (elements T') = mset es + mset (elements T1)" "key_num T' = key_num T1"
    using Cons.IH[OF 1(3,2) pre] by blast
  moreover have "add_fuel (Suc n) e (T, m) = add_element e (T, m)"
    using Cons.prems(5) by (intro add_fuel_small[OF Cons.prems(1)]) simp
  ultimately show ?case using 1 by (intro exI[of _ T'] exI[of _ m']) (simp del: add_fuel.simps)
qed simp

lemma get_elements_ok:
  "ht_inv T \<Longrightarrow> mem_ok m \<Longrightarrow> hash_table_get_elements T m = Some (key_count T, Some (elements T), tl m)"
  by (simp add: hash_table_get_elements_def ht_inv_def elements_def slice_def)

lemma elements_mode [simp]: "elements (T\<lparr>hmode := md\<rparr>) = elements T" "ht_inv (T\<lparr>hmode := md\<rparr>) = ht_inv T"
  by (simp_all add: elements_def ht_inv_def)

lemma resize_ok:
  assumes "ht_inv T" "mem_ok m" "0 < len" "len < 65536" "0 < key_count T" "key_count T \<le> 4 * len"
  shows "\<exists>T' m'. resize_with (add_fuel (Suc n)) len (T, m) = Some (0, T', m') \<and> mem_ok m' \<and> ht_inv T' \<and>
    mset (elements T') = mset (elements T) \<and> unat (key_num T') = len"
proof -
  let ?T = "T\<lparr>store_house := replicate len [], key_num := of_nat len, hmode := MODE_ALLREF, key_count := 0\<rparr>"
  have len: "unat (of_nat len :: u16) = len" using assms(4) by (simp add: unsigned_of_nat take_bit_nat_eq_self)
  then have nz: "(of_nat len :: u16) \<noteq> 0" using assms(3) by (metis less_irrefl unat_0)
  have inv: "ht_inv ?T"
    using assms(1) len nz by (simp add: ht_inv_def elements_def)
  have count: "key_count T = length (elements T)" "distinct (map hkey (elements T))" using assms(1) by (simp_all add: ht_inv_def)
  obtain T' m' where T': "readd (add_fuel (Suc n)) (rev (elements T)) (?T, tl (tl m)) = Some (T', m')" "mem_ok m'" "ht_inv T'"
    "mset (elements T') = mset (rev (elements T)) + mset (elements ?T)" "key_num T' = key_num ?T"
    using readd_ok[OF inv, of "tl (tl m)" "rev (elements T)" n] assms(2,6) count len
    by (auto simp: mem_ok_tl elements_def rev_map[symmetric])
  have "resize_with (add_fuel (Suc n)) len (T, m) = Some (0, T'\<lparr>hmode := hmode T\<rparr>, m')"
    using get_elements_ok[OF assms(1,2)] T'(1) assms(2,5) by (simp add: resize_with_def mem_ok_tl del: add_fuel.simps)
  then show ?thesis
    using T' len by (intro exI[of _ "T'\<lparr>hmode := hmode T\<rparr>"] exI[of _ m']) (simp add: elements_def)
qed

subsection \<open>Adding\<close>

lemma hash_table_add_ok:
  assumes "ht_ok T" "mem_ok m" "hkey e \<notin> hkey ` set (elements T)" "key_count T < 131072"
  shows "\<exists>T' m'. add_fuel (Suc (Suc n)) e (T, m) = Some (0, T', m') \<and> mem_ok m' \<and> ht_ok T' \<and>
    mset (elements T') = add_mset e (mset (elements T))"
proof (cases "key_count T < 4 * unat (key_num T)")
  case True
  have inv: "ht_inv T" using assms(1) by (simp add: ht_ok_def)
  obtain T' m' where T': "add_element e (T, m) = Some (0, T', m')" "mem_ok m'" "ht_inv T'"
    "mset (elements T') = add_mset e (mset (elements T))" "key_num T' = key_num T" "key_count T' = Suc (key_count T)"
    using add_element_ok[OF inv assms(2,3)] by blast
  then have "ht_ok T'" using True by (simp add: ht_ok_def)
  moreover have "add_fuel (Suc (Suc n)) e (T, m) = Some (0, T', m')"
    using T'(1) add_fuel_small[OF inv True, of "Suc n" e m] by (simp del: add_fuel.simps)
  ultimately show ?thesis using T' by blast
next
  case False
  have inv: "ht_inv T" using assms(1) by (simp add: ht_ok_def)
  then have nz: "key_num T \<noteq> 0" "0 < unat (key_num T)" "key_ratio T = 4" by (simp_all add: ht_inv_def unat_gt_0)
  have full: "key_count T = 4 * unat (key_num T)" using False assms(1) by (simp add: ht_ok_def)
  let ?len = "unat (key_num T) * 2"
  obtain T1 m1 where 1: "resize_with (add_fuel (Suc n)) ?len (T, m) = Some (0, T1, m1)" "mem_ok m1" "ht_inv T1"
    "mset (elements T1) = mset (elements T)" "unat (key_num T1) = ?len"
    using resize_ok[OF inv assms(2), of ?len n] nz full assms(4) by auto
  have new: "hkey e \<notin> hkey ` set (elements T1)" using mset_eq_setD[OF 1(4)] assms(3) by simp
  obtain T' m' where T': "add_element e (T1, m1) = Some (0, T', m')" "mem_ok m'" "ht_inv T'"
    "mset (elements T') = add_mset e (mset (elements T1))" "key_num T' = key_num T1" "key_count T' = Suc (key_count T1)"
    using add_element_ok[OF 1(3,2) new] by blast
  have "key_count T1 = key_count T" using 1(3,4) inv by (metis ht_inv_def size_mset)
  then have "ht_ok T'" using T'(3,5,6) 1(5) full nz(2) by (simp add: ht_ok_def)
  moreover have "add_fuel (Suc (Suc n)) e (T, m) = Some (0, T', m')"
    using 1(1) T'(1) nz full unfolding add_fuel.simps(2)[of "Suc n"] by (simp del: add_fuel.simps)
  ultimately show ?thesis using T' 1(4) by auto
qed

text \<open>The table with the outcomes of the allocations as a growing map.\<close>

definition ht_add :: "u8 list \<Rightarrow> 'v \<Rightarrow> 'v hash_table \<times> mem \<Rightarrow> ('v hash_table \<times> mem) option" where
  "ht_add k v = (\<lambda>(T, m). case hash_table_add T k v 0 m of Some (r, T', m') \<Rightarrow> if r = 0 then Some (T', m') else None | None \<Rightarrow> None)"

definition ht_map :: "'v hash_table \<times> mem \<Rightarrow> u8 list \<Rightarrow> 'v option" where
  "ht_map = (\<lambda>(T, m) k. the (hash_table_lookup T k))"

lemma ht_map_Some: "ht_inv T \<Longrightarrow> ht_map (T, m) k = Some v \<longleftrightarrow> (\<exists>e \<in> set (elements T). hkey e = k \<and> hvalue e = v)"
  using lookup_elements[of T k] by (auto simp: ht_map_def)

lemma ht_map_None: "ht_inv T \<Longrightarrow> ht_map (T, m) k = None \<longleftrightarrow> k \<notin> hkey ` set (elements T)"
  using lookup_None_iff[of T k] lookup_total[of T k] by (auto simp: ht_map_def)

interpretation table: growing_map "\<lambda>(T, m). ht_ok T \<and> mem_ok m" "\<lambda>(T, m). key_count T" 131072 ht_map ht_add
proof
  fix t :: "'v hash_table \<times> mem" and k and v :: 'v
  obtain T m where t: "t = (T, m)" by (cases t)
  assume "case t of (T, m) \<Rightarrow> ht_ok T \<and> mem_ok m" "(case t of (T, m) \<Rightarrow> key_count T) < 131072" "ht_map t k = None"
  then have ok: "ht_ok T" "mem_ok m" "key_count T < 131072" "ht_inv T" "k \<notin> hkey ` set (elements T)"
    using ht_map_None[of T m k] by (simp_all add: t ht_ok_def)
  let ?e = "\<lparr>hkey = k, hvalue = v, value_len = 0\<rparr>"
  have new: "hkey ?e \<notin> hkey ` set (elements T)" using ok(5) by simp
  have fuel: "18 = Suc (Suc 16)" by simp
  obtain T' m' where T': "add_fuel 18 ?e (T, m) = Some (0, T', m')" "mem_ok m'" "ht_ok T'"
    "mset (elements T') = add_mset ?e (mset (elements T))"
    using hash_table_add_ok[OF ok(1,2) new ok(3), of 16] unfolding fuel by blast
  have inv': "ht_inv T'" using T'(3) by (simp add: ht_ok_def)
  have set': "set (elements T') = insert ?e (set (elements T))" using arg_cong[OF T'(4), of set_mset] by simp
  have "ht_map (T', m') x = ((ht_map (T, m))(k \<mapsto> v)) x" for x
  proof (cases "x = k")
    case True
    have "ht_map (T', m') k = Some v" using ht_map_Some[OF inv'] set' by auto
    then show ?thesis using True by simp
  next
    case False
    have "ht_map (T', m') x = Some w \<longleftrightarrow> ht_map (T, m) x = Some w" for w
      using False set' by (auto simp: ht_map_Some[OF inv'] ht_map_Some[OF ok(4)])
    then have "ht_map (T', m') x = ht_map (T, m) x" by (metis not_None_eq)
    then show ?thesis using False by simp
  qed
  moreover have "key_count T' = Suc (key_count T)"
    using arg_cong[OF T'(4), of size] inv' ok(4) by (simp add: ht_inv_def)
  ultimately show "\<exists>t'. ht_add k v t = Some t' \<and> (case t' of (T, m) \<Rightarrow> ht_ok T \<and> mem_ok m) \<and>
      (case t' of (T, m) \<Rightarrow> key_count T) = Suc (case t of (T, m) \<Rightarrow> key_count T) \<and> ht_map t' = (ht_map t)(k \<mapsto> v)"
    using T' by (intro exI[of _ "(T', m')"]) (auto simp: t ht_add_def hash_table_add_def fun_eq_iff)
qed

subsection \<open>Filling a table\<close>

fun ht_adds :: "(u8 list \<times> 'v) list \<Rightarrow> 'v hash_table \<times> mem \<Rightarrow> ('v hash_table \<times> mem) option" where
  "ht_adds [] S = Some S"
| "ht_adds ((k, v) # kvs) S = ht_add k v S \<bind> ht_adds kvs"

lemma ht_adds_all: "ht_adds kvs = table.add_all kvs"
proof (induction kvs)
  case Nil
  show ?case by (rule ext) simp
next
  case (Cons kv kvs)
  show ?case by (rule ext, cases kv) (simp add: Cons.IH)
qed

lemma new_ok: "mem_ok m \<Longrightarrow> \<exists>T. hash_table_new md m = (Some T, tl (tl m)) \<and> ht_ok T \<and> elements T = [] \<and> key_count T = 0"
  by (auto simp: hash_table_new_def mem_ok_tl ht_ok_def ht_inv_def elements_def)

text \<open>C18: A table is a map. Up to 131072 pairs with different keys that are added to a new table, in any of the
  three modes, are all stored, whatever the table grows in between, and a lookup returns for every key
  the value it was added with, and NULL for every other key.\<close>

theorem hash_table_build:
  fixes kvs :: "(u8 list \<times> 'v) list" and T :: "'v hash_table"
  assumes "distinct (map fst kvs)" "length kvs \<le> 131072" "mem_ok m" "hash_table_new md m = (Some T, m0)"
  shows "\<exists>T' m'. ht_adds kvs (T, m0) = Some (T', m') \<and> key_count T' = length kvs \<and>
    (\<forall>k. hash_table_lookup T' k = Some (map_of kvs k)) \<and> (\<forall>k. hash_table_has_key T' k = Some (k \<in> set (map fst kvs)))"
proof -
  have T: "m0 = tl (tl m)" "ht_ok T" "elements T = []" "key_count T = 0" 
    using new_ok[OF assms(3), of md, where ?'a = 'v] assms(4) by auto
  have inv: "ht_inv T" using T(2) by (simp add: ht_ok_def)
  have ok: "case (T, m0) of (T, m) \<Rightarrow> ht_ok T \<and> mem_ok m" using T(1,2) assms(3) by (simp add: mem_ok_tl)
  have empty: "ht_map (T, m0) k = None" for k using ht_map_None[OF inv] T(3) by simp
  obtain S where S: "table.add_all kvs (T, m0) = Some S" "case S of (T, m) \<Rightarrow> ht_ok T \<and> mem_ok m"
    "(case S of (T, m) \<Rightarrow> key_count T) = length kvs" "ht_map S = ht_map (T, m0) ++ map_of kvs"
    using table.add_all_new[OF ok _ assms(1)] assms(2) T(4) empty by auto
  obtain T' m' where T': "S = (T', m')" by (cases S)
  have inv': "ht_inv T'" using S(2) T' by (simp add: ht_ok_def)
  have "ht_map (T', m') = map_of kvs" using S(4) empty T' by (auto simp: map_add_def fun_eq_iff split: option.split)
  then have l: "hash_table_lookup T' k = Some (map_of kvs k)" for k
  proof -
    assume eq: "ht_map (T', m') = map_of kvs"
    obtain r where "hash_table_lookup T' k = Some r" using lookup_total[OF inv'] by blast
    then show ?thesis using fun_cong[OF eq, of k] by (simp add: ht_map_def)
  qed
  have "hash_table_has_key T' k = map_option (\<lambda>r. r \<noteq> None) (hash_table_lookup T' k)" for k
  proof -
    have "position k c = None \<longleftrightarrow> chain_lookup k c = None" for c :: "'v hash_element list"
      by (induction c) auto
    then show ?thesis
      unfolding hash_table_has_key_def hash_table_lookup_def
      by (cases "hash_table_do_hash k (key_num T')"; cases "rd (store_house T') (the (hash_table_do_hash k (key_num T')))") simp_all
  qed
  then have "hash_table_has_key T' k = Some (k \<in> set (map fst kvs))" for k
    using l map_of_eq_None_iff[of kvs k] by auto
  then show ?thesis using S(1,3) T' l by (auto simp: ht_adds_all)
qed

subsection \<open>The capacity\<close>

lemma add_fuel_zero: "key_num T = 0 \<Longrightarrow> add_fuel n e (T, m) = None"
  by (cases n) simp_all

text \<open>C37: The next element breaks the table. When 131072 elements are stored, the length of the store is 32768;
  doubling it does not fit into the 16-bit \<open>key_num\<close>, which becomes 0, and the first element that is
  moved into the new store divides by zero.\<close>

theorem hash_table_full:
  assumes "key_num T = 32768" "key_ratio T = 4" "length (store_house T) = 32768" "length (concat (store_house T)) = 131072"
    "key_count T = 131072" "mem_ok m"
  shows "hash_table_add T k v len m = None"
proof -
  have un: "unat (key_num T) = 32768" using assms(1) by simp
  have el: "hash_table_get_elements T m = Some (131072, Some (concat (store_house T)), tl m)"
    using assms un by (simp add: hash_table_get_elements_def slice_def)
  have "concat (store_house T) \<noteq> []" using assms(4) by (metis list.size(3) zero_neq_numeral)
  then obtain e es where es: "rev (concat (store_house T)) = e # es" by (cases "rev (concat (store_house T))") auto
  have z: "(65536 :: u16) = 0" by simp
  have fuel: "18 = Suc (Suc 16)" by simp
  have "resize_with (add_fuel (Suc 16)) 65536 (T, m) = None"
    using assms(6) el unfolding resize_with_def 
    by (simp add: es z mem_ok_tl add_fuel_zero del: add_fuel.simps)
  then have "add_fuel (Suc (Suc 16)) \<lparr>hkey = k, hvalue = v, value_len = len\<rparr> (T, m) = None"
    using assms(1,2,5) un unfolding add_fuel.simps(2)[of "Suc 16"] by (simp del: add_fuel.simps)
  then show ?thesis unfolding hash_table_add_def fuel .
qed

subsection \<open>The first two elements of a chain\<close>

text \<open>Further result: The value of a key is never replaced when the key is the first of its chain. \<open>hash_table_add\<close> returns
  success, counts one key more and stores a second element behind; a lookup still returns the old value.\<close>

theorem hash_table_update_lost:
  assumes "key_num T \<noteq> 0" "key_count T < key_ratio T * unat (key_num T)" "length (store_house T) = unat (key_num T)" "mem_ok m"
    "hash_table_do_hash k (key_num T) = Some h" "store_house T ! h = e # es" "hkey e = k" "k \<notin> hkey ` set es"
  shows "\<exists>T' m'. hash_table_add T k v len m = Some (0, T', m') \<and> key_count T' = key_count T + 1 \<and>
    hash_table_lookup T' k = Some (Some (hvalue e))"
proof -
  have h: "h < length (store_house T)" using hash_bound[OF assms(1), of k] assms(3,5) by auto
  let ?e = "\<lparr>hkey = k, hvalue = v, value_len = len\<rparr>"
  have "add_behind ?e es = (True, es @ [?e])" using assms(8) by (induction es) auto
  then have c: "chain_add ?e (store_house T ! h) = (True, e # es @ [?e])" using assms(6) by simp
  obtain m' where m': "alloc_parts (hmode T) (tl m) = (True, m')"
    using alloc_parts_ok[OF mem_ok_tl[OF assms(4)]] by blast
  let ?T = "T\<lparr>store_house := (store_house T)[h := e # es @ [?e]], key_count := key_count T + 1\<rparr>"
  have "\<not> key_ratio T \<le> key_count T div unat (key_num T)" using assms(2) by (simp add: not_le less_mult_imp_div_less)
  then have "add_fuel (Suc 17) ?e (T, m) = add_element ?e (T, m)"
    using assms(1) by (simp only: add_fuel.simps prod.case if_False)
  moreover have "add_element ?e (T, m) = Some (0, ?T, m')"
    using assms(4,5) h c m' by (simp add: add_element_def)
  ultimately have "hash_table_add T k v len m = Some (0, ?T, m')"
    by (simp add: hash_table_add_def eval_nat_numeral del: add_fuel.simps)
  moreover have "hash_table_lookup ?T k = Some (Some (hvalue e))"
    using assms(5,7) h by (simp add: hash_table_lookup_def)
  ultimately show ?thesis by (intro exI[of _ ?T] exI[of _ m']) simp
qed

lemma length_concat_update:
  "h < length xss \<Longrightarrow> xss ! h = a # b # es \<Longrightarrow> length (concat xss) = length (concat (xss[h := es])) + 2"
proof (induction xss arbitrary: h)
  case (Cons xs xss)
  then show ?case by (cases h) auto
qed simp

text \<open>Further result: Removing the second key of a chain removes the first one with it: the head of the chain is set to the
  successor of the removed element. The first key is gone, and \<open>key_count\<close> is one too high.\<close>

theorem hash_table_remove_second:
  assumes "ht_inv T" "unat (key_num T) div key_count T < 4" "hash_table_do_hash (hkey b) (key_num T) = Some h"
    "store_house T ! h = a # b # es"
  shows "\<exists>T'. hash_table_remove T (hkey b) m = Some (0, T', m) \<and> hash_table_lookup T (hkey a) = Some (Some (hvalue a)) \<and>
    hash_table_lookup T' (hkey a) = Some None \<and> key_count T' = length (concat (store_house T')) + 1"
proof -
  have inv: "key_num T \<noteq> 0" "length (store_house T) = unat (key_num T)" "key_ratio T = 4" "key_count T = length (concat (store_house T))"
    using assms(1) by (simp_all add: ht_inv_def elements_def)
  have h: "h < length (store_house T)" using hash_bound[OF inv(1), of "hkey b"] assms(3) inv(2) by auto
  have ha: "hash_table_do_hash (hkey a) (key_num T) = Some h" using assms(1,4) h by (fastforce simp: ht_inv_def)
  have d: "distinct (map hkey (a # b # es))"
    using distinct_part[of hkey "store_house T" h] assms(1,4) h by (simp add: ht_inv_def elements_def)
  let ?T = "T\<lparr>store_house := (store_house T)[h := es], key_count := key_count T - 1\<rparr>"
  have len: "length (concat (store_house T)) = length (concat ((store_house T)[h := es])) + 2"
    using length_concat_update[OF h assms(4)] .
  have "hash_table_remove T (hkey b) m = Some (0, ?T, m)"
    using assms(2-4) inv h d len by (simp add: hash_table_remove_def chain_remove_def)
  moreover have "hash_table_lookup T (hkey a) = Some (Some (hvalue a))"
    using ha h assms(4) by (simp add: hash_table_lookup_def)
  moreover have "hash_table_lookup ?T (hkey a) = Some None"
    using ha h d by (simp add: hash_table_lookup_def chain_lookup_None)
  moreover have "key_count ?T = length (concat (store_house ?T)) + 1" using inv(4) len by simp
  ultimately show ?thesis by blast
qed

subsection \<open>Iteration\<close>

text \<open>A callback that does not look at its state removes exactly the elements it is true of.\<close>

lemma iterate_chain_filter:
  "iterate_chain (\<lambda>u v k. (P v k, u)) u es = (filter (\<lambda>e. \<not> P (hvalue e) (hkey e)) es, length (filter (\<lambda>e. P (hvalue e) (hkey e)) es), u)"
  by (induction es) auto

lemma iterate_chains_filter:
  "iterate_chains (\<lambda>u v k. (P v k, u)) u cs = (map (filter (\<lambda>e. \<not> P (hvalue e) (hkey e))) cs,
     length (filter (\<lambda>e. P (hvalue e) (hkey e)) (concat cs)), u)"
  by (induction cs) (auto simp: iterate_chain_filter)

subsection \<open>Witnesses\<close>

lemma hash_table_build_witness:
  "\<exists>T m0 T' m'. hash_table_new MODE_COPY [] = (Some T, m0) \<and> ht_adds [([1, 2], 10 :: nat), ([3], 20)] (T, m0) = Some (T', m') \<and>
    hash_table_lookup T' [3] = Some (Some 20) \<and> hash_table_lookup T' [4] = Some None"
proof -
  obtain T :: "nat hash_table" and m0 where T: "hash_table_new MODE_COPY [] = (Some T, m0)" by (simp add: hash_table_new_def)
  then show ?thesis using hash_table_build[OF _ _ _ T, of "[([1, 2], 10), ([3], 20)]"] by auto
qed

definition full_table :: "nat hash_table" where
  "full_table = \<lparr>store_house = replicate 131072 \<lparr>hkey = [], hvalue = 0, value_len = 0\<rparr> # replicate 32767 [], hmode = MODE_COPY,
     key_count = 131072, key_num = 32768, key_ratio = 4\<rparr>"

lemma hash_table_full_witness: "hash_table_add full_table [1] 5 0 [] = None"
  by (rule hash_table_full) (simp_all add: full_table_def)

lemma hash_table_update_lost_witness:
  "\<exists>T' m'. hash_table_add \<lparr>store_house = replicate 62 [] @ [[\<lparr>hkey = [1], hvalue = 10 :: nat, value_len = 0\<rparr>]] @ replicate 65 [],
       hmode = MODE_COPY, key_count = 1, key_num = 128, key_ratio = 4\<rparr> [1] 20 0 [] = Some (0, T', m') \<and>
     hash_table_lookup T' [1] = Some (Some 10)"
proof -
  let ?T = "\<lparr>store_house = replicate 62 [] @ [[\<lparr>hkey = [1], hvalue = 10 :: nat, value_len = 0\<rparr>]] @ replicate 65 [],
       hmode = MODE_COPY, key_count = 1, key_num = 128, key_ratio = 4\<rparr>"
  have h: "hash_table_do_hash [1] (key_num ?T) = Some 62" by (simp add: hash_table_do_hash_def)
  show ?thesis
    using hash_table_update_lost[OF _ _ _ _ h, where e = "\<lparr>hkey = [1], hvalue = 10, value_len = 0\<rparr>" and es = "[]" and m = "[]" and v = 20 and len = 0]
    by (auto simp: nth_append)
qed

lemma hash_table_remove_second_witness:
  "\<exists>T'. hash_table_remove \<lparr>store_house = [[\<lparr>hkey = [1], hvalue = 10 :: nat, value_len = 0\<rparr>, \<lparr>hkey = [2], hvalue = 20, value_len = 0\<rparr>], []],
       hmode = MODE_COPY, key_count = 2, key_num = 2, key_ratio = 4\<rparr> [2] [] = Some (0, T', []) \<and>
     hash_table_lookup T' [1] = Some None"
proof -
  let ?T = "\<lparr>store_house = [[\<lparr>hkey = [1], hvalue = 10 :: nat, value_len = 0\<rparr>, \<lparr>hkey = [2], hvalue = 20, value_len = 0\<rparr>], []],
       hmode = MODE_COPY, key_count = 2, key_num = 2, key_ratio = 4\<rparr>"
  let ?a = "\<lparr>hkey = [1], hvalue = 10 :: nat, value_len = 0\<rparr>" and ?b = "\<lparr>hkey = [2], hvalue = 20 :: nat, value_len = 0\<rparr>"
  have inv: "ht_inv ?T" by (auto simp: ht_inv_def elements_def hash_table_do_hash_def nth_Cons split: nat.split)
  have "\<exists>T'. hash_table_remove ?T (hkey ?b) [] = Some (0, T', []) \<and> hash_table_lookup ?T (hkey ?a) = Some (Some (hvalue ?a)) \<and>
    hash_table_lookup T' (hkey ?a) = Some None \<and> key_count T' = length (concat (store_house T')) + 1"
    by (rule hash_table_remove_second[OF inv, where h = 0 and es = "[]"]) (simp_all add: hash_table_do_hash_def)
  then show ?thesis by auto
qed

subsection \<open>The depth of resizing\<close>

definition key_mult :: "nat \<Rightarrow> 'v hash_table \<Rightarrow> bool" where
  "key_mult j T \<longleftrightarrow> 2 ^ j dvd unat (key_num T)"

lemma key_mult_zero: "16 \<le> j \<Longrightarrow> key_mult j T \<Longrightarrow> key_num T = 0"
proof (rule ccontr)
  assume "16 \<le> j" "key_mult j T" "key_num T \<noteq> 0"
  then have "(2 :: nat) ^ 16 dvd unat (key_num T)" using power_le_dvd[of "2 :: nat" j "unat (key_num T)" 16] by (simp only: key_mult_def)
  moreover have "0 < unat (key_num T)" using \<open>key_num T \<noteq> 0\<close> by (simp add: unat_gt_0)
  moreover have "unat (key_num T) < 2 ^ 16" using unsigned_less[of "key_num T"] by simp
  ultimately show False using dvd_imp_le by fastforce
qed

lemma key_mult_double:
  "key_mult j T \<Longrightarrow> key_mult (Suc j) (U\<lparr>key_num := of_nat (unat (key_num T) * 2)\<rparr>)"
proof (cases "Suc j \<le> 16")
  case True
  assume "key_mult j T"
  then have "2 ^ Suc j dvd unat (key_num T) * 2" by (auto simp: key_mult_def)
  moreover have "(2 :: nat) ^ Suc j dvd 2 ^ 16" using True by (rule le_imp_power_dvd)
  ultimately have "2 ^ Suc j dvd unat (key_num T) * 2 mod 2 ^ 16" by (rule dvd_mod)
  moreover have "unat (of_nat x :: u16) = x mod 2 ^ 16" for x by (simp add: unsigned_of_nat take_bit_eq_mod)
  moreover have "key_num (U\<lparr>key_num := x\<rparr>) = x" for x by simp
  ultimately show ?thesis by (simp only: key_mult_def)
next
  case False
  assume "key_mult j T"
  then have "key_num T = 0" using False by (intro key_mult_zero[of j]) simp_all
  then show ?thesis by (simp add: key_mult_def)
qed

lemma add_element_key: "add_element e (T, m) = Some (r, T', m') \<Longrightarrow> key_num T' = key_num T"
proof -
  assume run: "add_element e (T, m) = Some (r, T', m')"
  obtain a m1 where a: "malloc () m = (a, m1)" by (cases "malloc () m")
  obtain ok m2 where ok: "alloc_parts (hmode T) m1 = (ok, m2)" by (cases "alloc_parts (hmode T) m1")
  show ?thesis
    using run by (cases a; cases ok) (auto simp: add_element_def a ok Option.bind_eq_Some_conv Let_def case_prod_beta)
qed

lemma readd_key_mult:
  assumes "\<And>e T m r T' m'. add e (T, m) = Some (r, T', m') \<Longrightarrow> key_mult j T \<Longrightarrow> key_mult j T'"
  shows "readd add es (T, m) = Some (T', m') \<Longrightarrow> key_mult j T \<Longrightarrow> key_mult j T'"
proof (induction es arbitrary: T m)
  case (Cons e es)
  then obtain r T1 m1 where "add e (T, m) = Some (r, T1, m1)" "readd add es (T1, m1) = Some (T', m')"
    by (auto simp: Option.bind_eq_Some_conv)
  then show ?case using Cons.IH[of T1 m1] assms Cons.prems(2) by blast
qed simp

text \<open>A resize to twice the length ends with a multiple of the doubled length, when adding keeps multiples.\<close>

lemma resize_key_mult:
  assumes add: "\<And>e T m r T' m'. add e (T, m) = Some (r, T', m') \<Longrightarrow> key_mult (Suc j) T \<Longrightarrow> key_mult (Suc j) T'"
    and run: "resize_with add (unat (key_num T) * 2) (T, m) = Some (r, T', m')" and T: "key_mult j T"
  shows "key_mult j T'"
proof -
  let ?U = "\<lparr>store_house = replicate (unat (key_num T) * 2) [], hmode = MODE_ALLREF, key_count = 0,
    key_num = of_nat (unat (key_num T) * 2), key_ratio = key_ratio T\<rparr>"
  have "T' = T \<or> (\<exists>es m1 T1 m2. readd add es (?U, m1) = Some (T1, m2) \<and> T' = T1\<lparr>hmode := hmode T\<rparr>)"
  proof -
    obtain n es m1 where g: "hash_table_get_elements T m = Some (n, es, m1)"
      using run by (auto simp: resize_with_def Option.bind_eq_Some_conv)
    obtain a m2 where a: "malloc () m1 = (a, m2)" by (cases "malloc () m1")
    have U: "T\<lparr>store_house := replicate (unat (key_num T) * 2) [], key_num := of_nat (unat (key_num T) * 2),
      hmode := MODE_ALLREF, key_count := 0\<rparr> = ?U" by simp
    show ?thesis
      using run unfolding resize_with_def prod.case g Option.bind.bind_lunit a U
      by (cases a; cases es) (auto simp: Option.bind_eq_Some_conv split: if_split_asm)
  qed
  moreover have "key_mult (Suc j) ?U" using key_mult_double[OF T, of ?U] by simp
  moreover have "key_mult j T1" if "key_mult (Suc j) T1" for T1 :: "'a hash_table"
    using that dvd_trans[of "2 ^ j" "2 ^ Suc j"] by (simp add: key_mult_def)
  ultimately show ?thesis
    using T readd_key_mult[of add "Suc j", OF add] by (auto simp: key_mult_def)
qed

lemma add_fuel_key_mult:
  "add_fuel n e (T, m) = Some (r, T', m') \<Longrightarrow> key_mult j T \<Longrightarrow> key_mult j T'"
proof (induction n arbitrary: j e T m r T' m')
  case (Suc n)
  show ?case
  proof (cases "key_count T div unat (key_num T) \<ge> key_ratio T")
    case True
    then obtain r1 T1 m1 where 1: "resize_with (add_fuel n) (unat (key_num T) * 2) (T, m) = Some (r1, T1, m1)"
      "add_element e (T1, m1) = Some (r, T', m')"
      using Suc.prems(1) by (auto simp: Option.bind_eq_Some_conv split: if_split_asm)
    have "key_mult j T1" by (rule resize_key_mult[OF Suc.IH 1(1) Suc.prems(2)])
    then show ?thesis using add_element_key[OF 1(2)] by (simp add: key_mult_def)
  next
    case False
    then have "add_element e (T, m) = Some (r, T', m')" using Suc.prems(1) by (simp split: if_split_asm)
    then show ?thesis using add_element_key Suc.prems(2) by (fastforce simp: key_mult_def)
  qed
qed simp

lemma readd_cong:
  assumes "\<And>e T m. key_mult j T \<Longrightarrow> add e (T, m) = add' e (T, m)"
    and keep: "\<And>e T m r T' m'. add e (T, m) = Some (r, T', m') \<Longrightarrow> key_mult j T \<Longrightarrow> key_mult j T'"
  shows "key_mult j T \<Longrightarrow> readd add es (T, m) = readd add' es (T, m)"
proof (induction es arbitrary: T m)
  case (Cons e es)
  show ?case
  proof (cases "add e (T, m)")
    case None
    then show ?thesis using assms(1)[OF Cons.prems, of e m] by simp
  next
    case (Some x)
    obtain r T1 m1 where x: "x = (r, T1, m1)" by (cases x)
    then have "key_mult j T1" using keep Some Cons.prems by blast
    then show ?thesis using Some x assms(1)[OF Cons.prems, of e m] Cons.IH[of T1 m1] by simp
  qed
qed simp

lemma resize_cong:
  assumes "\<And>es m. readd add es (T\<lparr>store_house := replicate len [], key_num := of_nat len, hmode := MODE_ALLREF, key_count := 0\<rparr>, m)
    = readd add' es (T\<lparr>store_house := replicate len [], key_num := of_nat len, hmode := MODE_ALLREF, key_count := 0\<rparr>, m)"
  shows "resize_with add len (T, m) = resize_with add' len (T, m)"
  unfolding resize_with_def prod.case assms ..

lemma add_fuel_enough:
  "key_mult j T \<Longrightarrow> 16 \<le> n + j \<Longrightarrow> 16 \<le> n' + j \<Longrightarrow> add_fuel n e (T, m) = add_fuel n' e (T, m)"
proof (induction n arbitrary: n' j e T m)
  case 0
  then have "key_num T = 0" by (intro key_mult_zero[of j]) simp_all
  then show ?case by (simp only: add_fuel_zero)
next
  case (Suc n)
  show ?case
  proof (cases n')
    case 0
    then have "key_num T = 0" using Suc.prems by (intro key_mult_zero[of j]) simp_all
    then show ?thesis by (simp only: add_fuel_zero)
  next
    case (Suc n'')
    let ?U = "T\<lparr>store_house := replicate (unat (key_num T) * 2) [], key_num := of_nat (unat (key_num T) * 2),
      hmode := MODE_ALLREF, key_count := 0\<rparr>"
    have "key_mult (Suc j) ?U" using key_mult_double[OF Suc.prems(1), of T] by (simp add: key_mult_def)
    then have "readd (add_fuel n) es (?U, m) = readd (add_fuel n'') es (?U, m)" for es m
      using Suc.prems(2,3) Suc
      by (intro readd_cong[of "Suc j"] Suc.IH[of "Suc j"]) (auto intro: add_fuel_key_mult)
    from resize_cong[OF this] show ?thesis by (simp only: Suc add_fuel.simps prod.case)
  qed
qed

text \<open>
  C24: adding and resizing end. Adding may resize and resizing adds, but each level of this recursion
  doubles \<open>key_num\<close>, a 16-bit number, so it is at most 16 levels deep: from there on the result does not
  depend on the fuel of the model, for every table, consistent or not, and every outcome of the allocations.
\<close>

theorem hash_table_fuel:
  assumes "16 \<le> n"
  shows "hash_table_add T key v len m = add_fuel n \<lparr>hkey = key, hvalue = v, value_len = len\<rparr> (T, m)
    \<and> hash_table_resize T k m = resize_with (add_fuel n) k (T, m)"
proof
  have all: "key_mult 0 U" for U :: "'a hash_table" by (simp add: key_mult_def)
  show "hash_table_add T key v len m = add_fuel n \<lparr>hkey = key, hvalue = v, value_len = len\<rparr> (T, m)"
    unfolding hash_table_add_def using assms by (intro add_fuel_enough[OF all]) simp_all
  have "readd (add_fuel 18) es (U, m) = readd (add_fuel n) es (U, m)" for es m and U :: "'a hash_table"
    using assms by (intro readd_cong[of 0] add_fuel_enough[OF all] all) simp_all
  from resize_cong[OF this] show "hash_table_resize T k m = resize_with (add_fuel n) k (T, m)"
    by (simp only: hash_table_resize_def)
qed

theorem hash_table_fuel_witness:
  "hash_table_add full_table [1] 5 0 [] = add_fuel 20 \<lparr>hkey = [1], hvalue = 5, value_len = 0\<rparr> (full_table, [])"
  using hash_table_fuel[of 20 full_table "[1]" 5 0 "[]" 4] by simp

end
