(* ===== verification/Block_Hash.thy ===== *)
theory Block_Hash
  imports Word_Bytes
begin

text \<open>
  Hash functions that absorb a message in blocks of 64 bytes (MD5, SHA-224, SHA-256). The meaning of
  absorbing is \<open>absorb\<close>, the bytes that are held back for the next block are \<open>rest\<close>. The locale
  \<open>streaming_hash\<close> is the contract between an update operation that takes the message in pieces and the
  operations that finish the digest; it is interpreted on each of the implementations.
\<close>

subsection \<open>Absorbing full blocks\<close>

fun absorb :: "('s \<Rightarrow> u8 list \<Rightarrow> 's) \<Rightarrow> 's \<Rightarrow> u8 list \<Rightarrow> 's" where
  "absorb step s m = (if length m < 64 then s else absorb step (step s (take 64 m)) (drop 64 m))"

declare absorb.simps [simp del]

definition rest :: "u8 list \<Rightarrow> u8 list" where
  "rest m = drop (length m - length m mod 64) m"

lemma absorb_short [simp]: "length m < 64 \<Longrightarrow> absorb step s m = s"
  by (simp add: absorb.simps)

lemma absorb_block: "64 \<le> length m \<Longrightarrow> absorb step s m = absorb step (step s (take 64 m)) (drop 64 m)"
  by (subst absorb.simps) simp

lemma absorb_one [simp]: "length m = 64 \<Longrightarrow> absorb step s m = step s m"
  by (simp add: absorb_block)

lemma rest_short [simp]: "length m < 64 \<Longrightarrow> rest m = m"
  by (simp add: rest_def)

lemma length_rest [simp]: "length (rest m) = length m mod 64"
  by (simp add: rest_def)

lemma rest_block:
  assumes "64 \<le> length m" shows "rest m = rest (drop 64 m)"
proof -
  have "(length m - 64) mod 64 = length m mod 64" using assms by (simp add: le_mod_geq)
  moreover have "length m mod 64 \<le> length m - 64"
    using assms calculation by (metis mod_less_eq_dividend)
  ultimately show ?thesis using assms by (simp add: rest_def)
qed

lemma absorb_append: "absorb step s (m @ bs) = absorb step (absorb step s m) (rest m @ bs)"
proof (induction step s m rule: absorb.induct)
  case (1 step s m)
  then show ?case
    by (cases "length m < 64") (simp_all add: absorb_block[of m] absorb_block[of "m @ bs"] rest_block)
qed

lemma rest_append: "rest (m @ bs) = rest (rest m @ bs)"
proof (induction "length m" arbitrary: m rule: less_induct)
  case less
  show ?case
  proof (cases "length m < 64")
    case False
    then show ?thesis using less[of "drop 64 m"] by (simp add: rest_block[of m] rest_block[of "m @ bs"])
  qed simp
qed

lemma rest_full [simp]: "length m mod 64 = 0 \<Longrightarrow> rest m = []"
  by (simp add: rest_def)

text \<open>A loop over the full blocks of \<open>bs\<close>, in memory that goes on behind them.\<close>

lemma full_blocks:
  assumes loop: "\<And>p l st. lp p l st = (if 64 \<le> l then slice (bs @ junk) p 64 \<bind> (\<lambda>b. lp (p + 64) (l - 64) (step st b)) else Some (st, p, l))"
    and "p + l = length bs"
  shows "lp p l st = Some (absorb step st (drop p bs), length bs - l mod 64, l mod 64)"
  using assms(2)
proof (induction l arbitrary: p st rule: less_induct)
  case (less l)
  show ?case
  proof (cases "64 \<le> l")
    case True
    have "slice (bs @ junk) p 64 = Some (take 64 (drop p bs))" using True less.prems by simp
    moreover have "lp (p + 64) (l - 64) (step st (take 64 (drop p bs)))
      = Some (absorb step (step st (take 64 (drop p bs))) (drop (p + 64) bs), length bs - (l - 64) mod 64, (l - 64) mod 64)"
      using True less.prems by (intro less.IH) simp_all
    moreover have "absorb step st (drop p bs) = absorb step (step st (take 64 (drop p bs))) (drop (p + 64) bs)"
      using True less.prems by (subst absorb_block) (simp_all add: add.commute)
    ultimately show ?thesis using True le_mod_geq[of 64 l] by (subst loop) simp
  next
    case False
    then show ?thesis using less.prems by (subst loop) simp
  qed
qed

text \<open>A pending part \<open>h\<close> of a block that the next bytes complete.\<close>

lemma absorb_held:
  assumes "length h < 64" "64 \<le> length h + length bs"
  shows "absorb step s (h @ bs) = absorb step (step s (h @ take (64 - length h) bs)) (drop (64 - length h) bs)"
  using assms by (subst absorb_block) simp_all

lemma rest_held:
  assumes "length h < 64" "64 \<le> length h + length bs"
  shows "rest (h @ bs) = rest (drop (64 - length h) bs)"
  using assms by (subst rest_block) simp_all

lemma absorb_cong: "(\<And>s b. length b = 64 \<Longrightarrow> f s b = g s b) \<Longrightarrow> absorb f s m = absorb g s m"
proof (induction "length m" arbitrary: s m rule: less_induct)
  case less
  then show ?case by (cases "length m < 64") (simp_all add: absorb_block)
qed

lemma absorb_hom:
  assumes "\<And>s b. length b = 64 \<Longrightarrow> g (f s b) = f' (g s) b"
  shows "g (absorb f s m) = absorb f' (g s) m"
proof (induction "length m" arbitrary: s m rule: less_induct)
  case less
  then show ?case using assms by (cases "length m < 64") (simp_all add: absorb_block)
qed

subsection \<open>Padding\<close>

text \<open>The message, a one bit, zeros up to eight bytes short of a block, and the length.\<close>

definition pad_zeros :: "nat \<Rightarrow> nat" where
  "pad_zeros n = (119 - n mod 64) mod 64"

definition md_pad :: "u8 list \<Rightarrow> u8 list \<Rightarrow> u8 list" where
  "md_pad len m = m @ 0x80 # replicate (pad_zeros (length m)) 0 @ len"

lemma pad_zeros_cases: "pad_zeros n = (if n mod 64 < 56 then 55 - n mod 64 else 119 - n mod 64)"
proof (cases "n mod 64 < 56")
  case True
  then have "(119 - n mod 64) mod 64 = (55 - n mod 64 + 64) mod 64" by (simp add: algebra_simps)
  also have "\<dots> = 55 - n mod 64" by simp
  finally show ?thesis using True by (simp add: pad_zeros_def)
qed (simp add: pad_zeros_def)

lemma md_pad_full:
  assumes "length len = 8" shows "length (md_pad len m) mod 64 = 0"
proof -
  define q r where "q = length m div 64" and "r = length m mod 64"
  then have n: "length m = q * 64 + r" "r < 64" by simp_all
  then have r: "length m mod 64 = r" by simp
  have "length (md_pad len m) = q * 64 + r + 1 + (if r < 56 then 55 - r else 119 - r) + 8"
    using assms by (simp add: md_pad_def pad_zeros_cases r) (simp add: n)
  also have "\<dots> = (q + (if r < 56 then 1 else 2)) * 64" using n(2) by simp
  finally show ?thesis by simp
qed

text \<open>The padding in the form of the code: a prefix of a constant block.\<close>

definition padding :: "u8 list" where
  "padding = 0x80 # replicate 63 0"

lemma take_padding:
  "take (Suc n) padding = 0x80 # replicate (min n 63) 0"
  by (simp add: padding_def min.commute)

lemma md_pad_parts:
  "md_pad len m = (m @ take (Suc (pad_zeros (length m))) padding) @ len"
proof -
  have "pad_zeros (length m) \<le> 63" by (simp add: pad_zeros_def less_Suc_eq_le[symmetric])
  then show ?thesis by (simp add: md_pad_def take_padding min_absorb1)
qed

subsection \<open>Pieces of a message\<close>

fun foldM :: "('c \<Rightarrow> 'a \<Rightarrow> 'c option) \<Rightarrow> 'c \<Rightarrow> 'a list \<Rightarrow> 'c option" where
  "foldM f c [] = Some c"
| "foldM f c (x # xs) = f c x \<bind> (\<lambda>c. foldM f c xs)"

locale streaming_hash =
  fixes step :: "'s \<Rightarrow> u8 list \<Rightarrow> 's"
    and update :: "'c \<Rightarrow> u8 list \<Rightarrow> 'c option"
    and chain :: "'c \<Rightarrow> 's"
    and held :: "'c \<Rightarrow> u8 list"
    and counted :: "'c \<Rightarrow> nat \<Rightarrow> bool"
    and limit :: nat
  assumes update_law: "\<lbrakk> counted c n; length (held c) = n mod 64; length bs < limit \<rbrakk> \<Longrightarrow>
      \<exists>c'. update c bs = Some c' \<and> counted c' (n + length bs) \<and>
        chain c' = absorb step (chain c) (held c @ bs) \<and> held c' = rest (held c @ bs)"
    and limit_pad: "64 < limit"
begin

text \<open>The context holds the message \<open>m\<close>, from the chaining value \<open>iv\<close> on.\<close>

definition holds :: "'s \<Rightarrow> 'c \<Rightarrow> u8 list \<Rightarrow> bool" where
  "holds iv c m \<longleftrightarrow> chain c = absorb step iv m \<and> held c = rest m \<and> counted c (length m)"

lemma holds_empty: "chain c = iv \<Longrightarrow> held c = [] \<Longrightarrow> counted c 0 \<Longrightarrow> holds iv c []"
  by (simp add: holds_def)

lemma holds_update:
  assumes "holds iv c m" "length bs < limit"
  obtains c' where "update c bs = Some c'" "holds iv c' (m @ bs)"
proof -
  obtain c' where c': "update c bs = Some c'" "counted c' (length m + length bs)"
    "chain c' = absorb step (chain c) (held c @ bs)" "held c' = rest (held c @ bs)"
    using update_law[of c "length m" bs] assms by (auto simp: holds_def)
  then have "holds iv c' (m @ bs)"
    using assms(1) by (simp add: holds_def absorb_append[of _ _ m] rest_append[of m])
  then show thesis using c'(1) that by blast
qed

lemma holds_updates:
  assumes "holds iv c m" "\<forall>bs\<in>set pieces. length bs < limit"
  shows "\<exists>c'. foldM update c pieces = Some c' \<and> holds iv c' (m @ concat pieces)"
  using assms
proof (induction pieces arbitrary: c m)
  case Nil
  then show ?case by simp
next
  case (Cons bs pieces)
  obtain c' where "update c bs = Some c'" "holds iv c' (m @ bs)"
    using holds_update[of iv c m bs] Cons.prems by auto
  then show ?case using Cons.IH[of c' "m @ bs"] Cons.prems by simp
qed

lemma holds_pad:
  assumes "holds iv c m" "length len = 8"
  obtains c1 c2 where
    "update c (take (Suc (pad_zeros (length m))) padding) = Some c1" "update c1 len = Some c2"
    "chain c2 = absorb step iv (md_pad len m)" "held c2 = []"
proof -
  have short: "length (take (Suc (pad_zeros (length m))) padding) < limit"
    using limit_pad by (simp add: padding_def)
  obtain c1 where c1: "update c (take (Suc (pad_zeros (length m))) padding) = Some c1"
    "holds iv c1 (m @ take (Suc (pad_zeros (length m))) padding)"
    using holds_update[OF assms(1) short] .
  have l8: "length len < limit" using assms(2) limit_pad by simp
  obtain c2 where c2: "update c1 len = Some c2" "holds iv c2 ((m @ take (Suc (pad_zeros (length m))) padding) @ len)"
    using holds_update[OF c1(2) l8] .
  have h: "holds iv c2 (md_pad len m)" using c2(2) by (simp only: md_pad_parts)
  have "chain c2 = absorb step iv (md_pad len m)" "held c2 = []"
    using h md_pad_full[OF assms(2), of m] by (simp_all add: holds_def)
  then show thesis using that[OF c1(1) c2(1)] by blast
qed

end

end
