(* ===== verification/Md5.thy ===== *)
theory Md5
  imports Block_Hash
begin

text \<open>
  The MD5 implementations of the collection: \<open>Crypto/MD5/md5c.c\<close> (the RSA reference code) and
  \<open>Crypto/MD5rfc1321/md5.c\<close>. The type \<open>UINT4\<close> of the first is \<open>unsigned long int\<close>, whose width depends
  on the platform, so its operations are polymorphic in the width \<open>'w\<close> of a word: 32 on the platforms
  that the code was written for, 64 on a 64-bit Linux. The second uses \<open>uint32_t\<close>.

  The variables \<open>a, b, c, d\<close> of a block transformation are a list of four words, and each line of its
  rounds is an entry of a table: the positions of the four arguments of the macro, the index of the
  message word, the shift and the constant. A file is the list of the pieces that the successive calls
  of \<open>fread\<close> return, or \<open>None\<close> when it cannot be opened.
\<close>

subsection \<open>The context of \<open>md5c.c\<close>\<close>

text \<open>The structure, over the type \<open>UINT4\<close>.\<close>

record 'uint4 MD5_CTX =
  md_state :: "'uint4 list"
  md_count :: "'uint4 list"
  md_buffer :: "u8 list"

definition PADDING :: "u8 list" where
  "PADDING = [
    0x80, 0, 0, 0, 0, 0, 0, 0, 0, 0, 0, 0, 0, 0, 0, 0, 0, 0, 0, 0, 0, 0,
    0, 0, 0, 0, 0, 0, 0, 0, 0, 0, 0, 0, 0, 0, 0, 0, 0, 0, 0, 0, 0, 0, 0,
    0, 0, 0, 0, 0, 0, 0, 0, 0, 0, 0, 0, 0, 0, 0, 0, 0, 0, 0]"

subsection \<open>The macros\<close>

definition MD_F :: "'w::len word \<Rightarrow> 'w word \<Rightarrow> 'w word \<Rightarrow> 'w word" where
  "MD_F x y z = or (and x y) (and (not x) z)"

definition MD_G :: "'w::len word \<Rightarrow> 'w word \<Rightarrow> 'w word \<Rightarrow> 'w word" where
  "MD_G x y z = or (and x z) (and y (not z))"

definition MD_H :: "'w::len word \<Rightarrow> 'w word \<Rightarrow> 'w word \<Rightarrow> 'w word" where
  "MD_H x y z = xor (xor x y) z"

definition MD_I :: "'w::len word \<Rightarrow> 'w word \<Rightarrow> 'w word \<Rightarrow> 'w word" where
  "MD_I x y z = xor y (or x (not z))"

definition ROTATE_LEFT :: "'w::len word \<Rightarrow> nat \<Rightarrow> 'w word" where
  "ROTATE_LEFT x n = or (push_bit n x) (drop_bit (32 - n) x)"

type_synonym 'w md_macro = "'w word \<Rightarrow> 'w word \<Rightarrow> 'w word \<Rightarrow> 'w word \<Rightarrow> 'w word \<Rightarrow> nat \<Rightarrow> 'w word \<Rightarrow> 'w word"

definition FF :: "'w::len md_macro" where
  "FF a b c d x s ac = (let a = a + (MD_F b c d + x + ac); a = ROTATE_LEFT a s in a + b)"

definition GG :: "'w::len md_macro" where
  "GG a b c d x s ac = (let a = a + (MD_G b c d + x + ac); a = ROTATE_LEFT a s in a + b)"

definition HH :: "'w::len md_macro" where
  "HH a b c d x s ac = (let a = a + (MD_H b c d + x + ac); a = ROTATE_LEFT a s in a + b)"

definition II :: "'w::len md_macro" where
  "II a b c d x s ac = (let a = a + (MD_I b c d + x + ac); a = ROTATE_LEFT a s in a + b)"

subsection \<open>The block transformation\<close>

text \<open>The shifts of the four rounds.\<close>

abbreviation (input) S11 :: nat where "S11 \<equiv> 7"
abbreviation (input) S12 :: nat where "S12 \<equiv> 12"
abbreviation (input) S13 :: nat where "S13 \<equiv> 17"
abbreviation (input) S14 :: nat where "S14 \<equiv> 22"
abbreviation (input) S21 :: nat where "S21 \<equiv> 5"
abbreviation (input) S22 :: nat where "S22 \<equiv> 9"
abbreviation (input) S23 :: nat where "S23 \<equiv> 14"
abbreviation (input) S24 :: nat where "S24 \<equiv> 20"
abbreviation (input) S31 :: nat where "S31 \<equiv> 4"
abbreviation (input) S32 :: nat where "S32 \<equiv> 11"
abbreviation (input) S33 :: nat where "S33 \<equiv> 16"
abbreviation (input) S34 :: nat where "S34 \<equiv> 23"
abbreviation (input) S41 :: nat where "S41 \<equiv> 6"
abbreviation (input) S42 :: nat where "S42 \<equiv> 10"
abbreviation (input) S43 :: nat where "S43 \<equiv> 15"
abbreviation (input) S44 :: nat where "S44 \<equiv> 21"

type_synonym 'w md_line = "nat \<times> nat \<times> nat \<times> nat \<times> nat \<times> nat \<times> 'w word"

definition round1 :: "'w::len md_line list" where
  "round1 = [
    (0, 1, 2, 3, 0, S11, 0xd76aa478),
    (3, 0, 1, 2, 1, S12, 0xe8c7b756),
    (2, 3, 0, 1, 2, S13, 0x242070db),
    (1, 2, 3, 0, 3, S14, 0xc1bdceee),
    (0, 1, 2, 3, 4, S11, 0xf57c0faf),
    (3, 0, 1, 2, 5, S12, 0x4787c62a),
    (2, 3, 0, 1, 6, S13, 0xa8304613),
    (1, 2, 3, 0, 7, S14, 0xfd469501),
    (0, 1, 2, 3, 8, S11, 0x698098d8),
    (3, 0, 1, 2, 9, S12, 0x8b44f7af),
    (2, 3, 0, 1, 10, S13, 0xffff5bb1),
    (1, 2, 3, 0, 11, S14, 0x895cd7be),
    (0, 1, 2, 3, 12, S11, 0x6b901122),
    (3, 0, 1, 2, 13, S12, 0xfd987193),
    (2, 3, 0, 1, 14, S13, 0xa679438e),
    (1, 2, 3, 0, 15, S14, 0x49b40821)]"

definition round2 :: "'w::len md_line list" where
  "round2 = [
    (0, 1, 2, 3, 1, S21, 0xf61e2562),
    (3, 0, 1, 2, 6, S22, 0xc040b340),
    (2, 3, 0, 1, 11, S23, 0x265e5a51),
    (1, 2, 3, 0, 0, S24, 0xe9b6c7aa),
    (0, 1, 2, 3, 5, S21, 0xd62f105d),
    (3, 0, 1, 2, 10, S22, 0x2441453),
    (2, 3, 0, 1, 15, S23, 0xd8a1e681),
    (1, 2, 3, 0, 4, S24, 0xe7d3fbc8),
    (0, 1, 2, 3, 9, S21, 0x21e1cde6),
    (3, 0, 1, 2, 14, S22, 0xc33707d6),
    (2, 3, 0, 1, 3, S23, 0xf4d50d87),
    (1, 2, 3, 0, 8, S24, 0x455a14ed),
    (0, 1, 2, 3, 13, S21, 0xa9e3e905),
    (3, 0, 1, 2, 2, S22, 0xfcefa3f8),
    (2, 3, 0, 1, 7, S23, 0x676f02d9),
    (1, 2, 3, 0, 12, S24, 0x8d2a4c8a)]"

definition round3 :: "'w::len md_line list" where
  "round3 = [
    (0, 1, 2, 3, 5, S31, 0xfffa3942),
    (3, 0, 1, 2, 8, S32, 0x8771f681),
    (2, 3, 0, 1, 11, S33, 0x6d9d6122),
    (1, 2, 3, 0, 14, S34, 0xfde5380c),
    (0, 1, 2, 3, 1, S31, 0xa4beea44),
    (3, 0, 1, 2, 4, S32, 0x4bdecfa9),
    (2, 3, 0, 1, 7, S33, 0xf6bb4b60),
    (1, 2, 3, 0, 10, S34, 0xbebfbc70),
    (0, 1, 2, 3, 13, S31, 0x289b7ec6),
    (3, 0, 1, 2, 0, S32, 0xeaa127fa),
    (2, 3, 0, 1, 3, S33, 0xd4ef3085),
    (1, 2, 3, 0, 6, S34, 0x4881d05),
    (0, 1, 2, 3, 9, S31, 0xd9d4d039),
    (3, 0, 1, 2, 12, S32, 0xe6db99e5),
    (2, 3, 0, 1, 15, S33, 0x1fa27cf8),
    (1, 2, 3, 0, 2, S34, 0xc4ac5665)]"

definition round4 :: "'w::len md_line list" where
  "round4 = [
    (0, 1, 2, 3, 0, S41, 0xf4292244),
    (3, 0, 1, 2, 7, S42, 0x432aff97),
    (2, 3, 0, 1, 14, S43, 0xab9423a7),
    (1, 2, 3, 0, 5, S44, 0xfc93a039),
    (0, 1, 2, 3, 12, S41, 0x655b59c3),
    (3, 0, 1, 2, 3, S42, 0x8f0ccc92),
    (2, 3, 0, 1, 10, S43, 0xffeff47d),
    (1, 2, 3, 0, 1, S44, 0x85845dd1),
    (0, 1, 2, 3, 8, S41, 0x6fa87e4f),
    (3, 0, 1, 2, 15, S42, 0xfe2ce6e0),
    (2, 3, 0, 1, 6, S43, 0xa3014314),
    (1, 2, 3, 0, 13, S44, 0x4e0811a1),
    (0, 1, 2, 3, 4, S41, 0xf7537e82),
    (3, 0, 1, 2, 11, S42, 0xbd3af235),
    (2, 3, 0, 1, 2, S43, 0x2ad7d2bb),
    (1, 2, 3, 0, 9, S44, 0xeb86d391)]"

fun md_line :: "'w::len md_macro \<Rightarrow> 'w word list \<Rightarrow> 'w word list \<Rightarrow> 'w md_line \<Rightarrow> 'w word list" where
  "md_line macro x v (a, b, c, d, k, s, ac) = v[a := macro (v ! a) (v ! b) (v ! c) (v ! d) (x ! k) s ac]"

definition Decode :: "u8 list \<Rightarrow> nat \<Rightarrow> 'w::len word list" where
  "Decode input len = map (\<lambda>i. let j = 4 * i in
     or (or (or (ucast (input ! j)) (push_bit 8 (ucast (input ! (j + 1)))))
       (push_bit 16 (ucast (input ! (j + 2))))) (push_bit 24 (ucast (input ! (j + 3))))) [0..<len div 4]"

definition Encode :: "'w::len word list \<Rightarrow> nat \<Rightarrow> u8 list" where
  "Encode input len = concat (map (\<lambda>i.
     [ucast (and (input ! i) 0xff), ucast (and (drop_bit 8 (input ! i)) 0xff),
      ucast (and (drop_bit 16 (input ! i)) 0xff), ucast (and (drop_bit 24 (input ! i)) 0xff)]) [0..<len div 4])"

definition MD5Transform :: "'w::len word list \<Rightarrow> u8 list \<Rightarrow> 'w word list" where
  "MD5Transform st block = (let
     x = Decode block 64;
     v = [st ! 0, st ! 1, st ! 2, st ! 3];
     v = foldl (md_line FF x) v round1;
     v = foldl (md_line GG x) v round2;
     v = foldl (md_line HH x) v round3;
     v = foldl (md_line II x) v round4
   in [st ! 0 + v ! 0, st ! 1 + v ! 1, st ! 2 + v ! 2, st ! 3 + v ! 3])"

subsection \<open>Operations\<close>

definition MD5Init :: "'w::len word MD5_CTX \<Rightarrow> 'w word MD5_CTX" where
  "MD5Init context = context\<lparr>md_count := [0, 0],
     md_state := [0x67452301, 0xefcdab89, 0x98badcfe, 0x10325476]\<rparr>"

text \<open>The loop over the full blocks of the input. The index is an \<open>unsigned int\<close> and may wrap.\<close>

partial_function (option) md5_blocks ::
  "u8 list \<Rightarrow> u32 \<Rightarrow> u32 \<Rightarrow> 'w::len word list \<Rightarrow> ('w word list \<times> u32) option" where
  "md5_blocks input inputLen i st = (if i + 63 < inputLen then do {
       b \<leftarrow> slice input (unat i) 64;
       md5_blocks input inputLen (i + 64) (MD5Transform st b)
     } else Some (st, i))"

declare md5_blocks.simps [code]

definition md5_count_bits :: "'w::len word list \<Rightarrow> u32 \<Rightarrow> 'w word list" where
  "md5_count_bits count inputLen = (let
     bits = push_bit 3 (ucast inputLen);
     c0 = count ! 0 + bits;
     c1 = (if c0 < bits then count ! 1 + 1 else count ! 1)
   in [c0, c1 + drop_bit 29 (ucast inputLen)])"

definition MD5Update :: "'w::len word MD5_CTX \<Rightarrow> u8 list \<Rightarrow> u32 \<Rightarrow> 'w word MD5_CTX option" where
  "MD5Update context input inputLen = (let
     index = ucast (and (drop_bit 3 (md_count context ! 0)) 0x3F) :: u32;
     count = md5_count_bits (md_count context) inputLen;
     partLen = 64 - index
   in do {
     (st, buf, i, index) \<leftarrow> (if partLen \<le> inputLen then do {
         b \<leftarrow> slice input 0 (unat partLen);
         buf \<leftarrow> memcpy (md_buffer context) (unat index) b;
         (st, i) \<leftarrow> md5_blocks input inputLen partLen (MD5Transform (md_state context) buf);
         Some (st, buf, i, 0)
       } else Some (md_state context, md_buffer context, 0, index));
     b \<leftarrow> slice input (unat i) (unat (inputLen - i));
     buf \<leftarrow> memcpy buf (unat index) b;
     Some \<lparr>md_state = st, md_count = count, md_buffer = buf\<rparr>
   })"

definition MD5Final :: "'w::len word MD5_CTX \<Rightarrow> (u8 list \<times> 'w word MD5_CTX) option" where
  "MD5Final context = (let
     bits = Encode (md_count context) 8;
     index = ucast (and (drop_bit 3 (md_count context ! 0)) 0x3f) :: u32;
     padLen = (if index < 56 then 56 - index else 120 - index)
   in do {
     context \<leftarrow> MD5Update context PADDING padLen;
     context \<leftarrow> MD5Update context bits 8;
     Some (Encode (md_state context) 16,
       \<lparr>md_state = replicate 4 0, md_count = replicate 2 0, md_buffer = replicate 64 0\<rparr>)
   })"

definition MD5UpdaterString :: "'w::len word MD5_CTX \<Rightarrow> u8 list \<Rightarrow> 'w word MD5_CTX option" where
  "MD5UpdaterString context string = do {
     len \<leftarrow> strlen string;
     MD5Update context string (of_nat len)
   }"

definition MDString :: "'w::len word MD5_CTX \<Rightarrow> u8 list \<Rightarrow> u8 list option" where
  "MDString context string = do {
     len \<leftarrow> strlen string;
     context \<leftarrow> MD5Update (MD5Init context) string (of_nat len);
     (digest, _) \<leftarrow> MD5Final context;
     Some digest
   }"

text \<open>\<open>while (len = fread (buffer, 1, 1024, file)) MD5Update (&context, buffer, len);\<close>\<close>

fun md5_read_file :: "'w::len word MD5_CTX \<Rightarrow> u8 list list \<Rightarrow> 'w word MD5_CTX option" where
  "md5_read_file context [] = Some context"
| "md5_read_file context (buffer # file) = (if buffer = [] then Some context else do {
     context \<leftarrow> MD5Update context buffer (of_nat (length buffer));
     md5_read_file context file
   })"

definition MD5File :: "'w::len word MD5_CTX \<Rightarrow> u8 list list option \<Rightarrow> u8 list \<Rightarrow> (int \<times> u8 list) option" where
  "MD5File context filename digest = (case filename of
     None \<Rightarrow> Some (-1, digest)
   | Some file \<Rightarrow> do {
       context \<leftarrow> md5_read_file (MD5Init context) file;
       (digest, _) \<leftarrow> MD5Final context;
       Some (0, digest)
     })"

definition MD5FileUpdateFile :: "'w::len word MD5_CTX \<Rightarrow> u8 list list option \<Rightarrow> (int \<times> 'w word MD5_CTX) option" where
  "MD5FileUpdateFile context filename = (case filename of
     None \<Rightarrow> Some (-1, context)
   | Some file \<Rightarrow> do {
       context \<leftarrow> md5_read_file context file;
       Some (0, context)
     })"

subsection \<open>The second implementation, \<open>md5.c\<close>\<close>

record md5_state =
  pms_count :: "u32 list"
  abcd :: "u32 list"
  pms_buf :: "u8 list"

definition T_MASK :: u32 where
  "T_MASK = not 0"

text \<open>The constants \<open>T1\<close> to \<open>T64\<close>.\<close>

definition MD_T :: "u32 list" where
  "MD_T = [
    xor T_MASK 0x28955b87, xor T_MASK 0x173848a9, 0x242070db, xor T_MASK 0x3e423111,
    xor T_MASK 0x0a83f050, 0x4787c62a, xor T_MASK 0x57cfb9ec, xor T_MASK 0x02b96afe,
    0x698098d8, xor T_MASK 0x74bb0850, xor T_MASK 0x0000a44e, xor T_MASK 0x76a32841,
    0x6b901122, xor T_MASK 0x02678e6c, xor T_MASK 0x5986bc71, 0x49b40821,
    xor T_MASK 0x09e1da9d, xor T_MASK 0x3fbf4cbf, 0x265e5a51, xor T_MASK 0x16493855,
    xor T_MASK 0x29d0efa2, 0x02441453, xor T_MASK 0x275e197e, xor T_MASK 0x182c0437,
    0x21e1cde6, xor T_MASK 0x3cc8f829, xor T_MASK 0x0b2af278, 0x455a14ed,
    xor T_MASK 0x561c16fa, xor T_MASK 0x03105c07, 0x676f02d9, xor T_MASK 0x72d5b375,
    xor T_MASK 0x0005c6bd, xor T_MASK 0x788e097e, 0x6d9d6122, xor T_MASK 0x021ac7f3,
    xor T_MASK 0x5b4115bb, 0x4bdecfa9, xor T_MASK 0x0944b49f, xor T_MASK 0x4140438f,
    0x289b7ec6, xor T_MASK 0x155ed805, xor T_MASK 0x2b10cf7a, 0x04881d05,
    xor T_MASK 0x262b2fc6, xor T_MASK 0x1924661a, 0x1fa27cf8, xor T_MASK 0x3b53a99a,
    xor T_MASK 0x0bd6ddbb, 0x432aff97, xor T_MASK 0x546bdc58, xor T_MASK 0x036c5fc6,
    0x655b59c3, xor T_MASK 0x70f3336d, xor T_MASK 0x00100b82, xor T_MASK 0x7a7ba22e,
    0x6fa87e4f, xor T_MASK 0x01d3191f, xor T_MASK 0x5cfebceb, 0x4e0811a1,
    xor T_MASK 0x08ac817d, xor T_MASK 0x42c50dca, 0x2ad7d2bb, xor T_MASK 0x14792c6e]"

text \<open>The macro \<open>SET\<close> of each round, by the function of the round.\<close>

definition SET :: "(u32 \<Rightarrow> u32 \<Rightarrow> u32 \<Rightarrow> u32) \<Rightarrow> 32 md_macro" where
  "SET f a b c d x s Ti = (let t = a + f b c d + x + Ti in ROTATE_LEFT t s + b)"

definition set_round1 :: "32 md_line list" where
  "set_round1 = [
    (0, 1, 2, 3, 0, 7, MD_T ! 0),
    (3, 0, 1, 2, 1, 12, MD_T ! 1),
    (2, 3, 0, 1, 2, 17, MD_T ! 2),
    (1, 2, 3, 0, 3, 22, MD_T ! 3),
    (0, 1, 2, 3, 4, 7, MD_T ! 4),
    (3, 0, 1, 2, 5, 12, MD_T ! 5),
    (2, 3, 0, 1, 6, 17, MD_T ! 6),
    (1, 2, 3, 0, 7, 22, MD_T ! 7),
    (0, 1, 2, 3, 8, 7, MD_T ! 8),
    (3, 0, 1, 2, 9, 12, MD_T ! 9),
    (2, 3, 0, 1, 10, 17, MD_T ! 10),
    (1, 2, 3, 0, 11, 22, MD_T ! 11),
    (0, 1, 2, 3, 12, 7, MD_T ! 12),
    (3, 0, 1, 2, 13, 12, MD_T ! 13),
    (2, 3, 0, 1, 14, 17, MD_T ! 14),
    (1, 2, 3, 0, 15, 22, MD_T ! 15)]"

definition set_round2 :: "32 md_line list" where
  "set_round2 = [
    (0, 1, 2, 3, 1, 5, MD_T ! 16),
    (3, 0, 1, 2, 6, 9, MD_T ! 17),
    (2, 3, 0, 1, 11, 14, MD_T ! 18),
    (1, 2, 3, 0, 0, 20, MD_T ! 19),
    (0, 1, 2, 3, 5, 5, MD_T ! 20),
    (3, 0, 1, 2, 10, 9, MD_T ! 21),
    (2, 3, 0, 1, 15, 14, MD_T ! 22),
    (1, 2, 3, 0, 4, 20, MD_T ! 23),
    (0, 1, 2, 3, 9, 5, MD_T ! 24),
    (3, 0, 1, 2, 14, 9, MD_T ! 25),
    (2, 3, 0, 1, 3, 14, MD_T ! 26),
    (1, 2, 3, 0, 8, 20, MD_T ! 27),
    (0, 1, 2, 3, 13, 5, MD_T ! 28),
    (3, 0, 1, 2, 2, 9, MD_T ! 29),
    (2, 3, 0, 1, 7, 14, MD_T ! 30),
    (1, 2, 3, 0, 12, 20, MD_T ! 31)]"

definition set_round3 :: "32 md_line list" where
  "set_round3 = [
    (0, 1, 2, 3, 5, 4, MD_T ! 32),
    (3, 0, 1, 2, 8, 11, MD_T ! 33),
    (2, 3, 0, 1, 11, 16, MD_T ! 34),
    (1, 2, 3, 0, 14, 23, MD_T ! 35),
    (0, 1, 2, 3, 1, 4, MD_T ! 36),
    (3, 0, 1, 2, 4, 11, MD_T ! 37),
    (2, 3, 0, 1, 7, 16, MD_T ! 38),
    (1, 2, 3, 0, 10, 23, MD_T ! 39),
    (0, 1, 2, 3, 13, 4, MD_T ! 40),
    (3, 0, 1, 2, 0, 11, MD_T ! 41),
    (2, 3, 0, 1, 3, 16, MD_T ! 42),
    (1, 2, 3, 0, 6, 23, MD_T ! 43),
    (0, 1, 2, 3, 9, 4, MD_T ! 44),
    (3, 0, 1, 2, 12, 11, MD_T ! 45),
    (2, 3, 0, 1, 15, 16, MD_T ! 46),
    (1, 2, 3, 0, 2, 23, MD_T ! 47)]"

definition set_round4 :: "32 md_line list" where
  "set_round4 = [
    (0, 1, 2, 3, 0, 6, MD_T ! 48),
    (3, 0, 1, 2, 7, 10, MD_T ! 49),
    (2, 3, 0, 1, 14, 15, MD_T ! 50),
    (1, 2, 3, 0, 5, 21, MD_T ! 51),
    (0, 1, 2, 3, 12, 6, MD_T ! 52),
    (3, 0, 1, 2, 3, 10, MD_T ! 53),
    (2, 3, 0, 1, 10, 15, MD_T ! 54),
    (1, 2, 3, 0, 1, 21, MD_T ! 55),
    (0, 1, 2, 3, 8, 6, MD_T ! 56),
    (3, 0, 1, 2, 15, 10, MD_T ! 57),
    (2, 3, 0, 1, 6, 15, MD_T ! 58),
    (1, 2, 3, 0, 13, 21, MD_T ! 59),
    (0, 1, 2, 3, 4, 6, MD_T ! 60),
    (3, 0, 1, 2, 11, 10, MD_T ! 61),
    (2, 3, 0, 1, 2, 15, MD_T ! 62),
    (1, 2, 3, 0, 9, 21, MD_T ! 63)]"

text \<open>The words \<open>X\<close> of a block on a little-endian machine, where the code reads them in place or, when
  the block is not aligned, from a copy.\<close>

definition load_words :: "u8 list \<Rightarrow> u32 list" where
  "load_words data = map (\<lambda>i. word_rcat [data ! (4 * i + 3), data ! (4 * i + 2), data ! (4 * i + 1), data ! (4 * i)]) [0..<16]"

definition md5_process :: "u32 list \<Rightarrow> u8 list \<Rightarrow> u32 list" where
  "md5_process st data = (let
     X = load_words data;
     v = [st ! 0, st ! 1, st ! 2, st ! 3];
     v = foldl (md_line (SET MD_F) X) v set_round1;
     v = foldl (md_line (SET MD_G) X) v set_round2;
     v = foldl (md_line (SET MD_H) X) v set_round3;
     v = foldl (md_line (SET MD_I) X) v set_round4
   in [st ! 0 + v ! 0, st ! 1 + v ! 1, st ! 2 + v ! 2, st ! 3 + v ! 3])"

definition md5_init :: "md5_state \<Rightarrow> md5_state" where
  "md5_init pms = pms\<lparr>pms_count := [0, 0],
     abcd := [0x67452301, xor T_MASK 0x10325476, xor T_MASK 0x67452301, 0x10325476]\<rparr>"

text \<open>The full blocks from position \<open>p\<close> on, and what is left.\<close>

function md5_full :: "u8 list \<Rightarrow> nat \<Rightarrow> nat \<Rightarrow> u32 list \<Rightarrow> (u32 list \<times> nat \<times> nat) option" where
  "md5_full data p left st = (if 64 \<le> left then do {
       b \<leftarrow> slice data p 64;
       md5_full data (p + 64) (left - 64) (md5_process st b)
     } else Some (st, p, left))"
  by pat_completeness auto
termination by (relation "measure (\<lambda>(_, _, left, _). left)") auto

declare md5_full.simps [simp del]

text \<open>The part of \<open>md5_append\<close> behind the partial block: the full blocks and the final partial block.\<close>

definition md5_append_blocks :: "md5_state \<Rightarrow> u8 list \<Rightarrow> nat \<Rightarrow> nat \<Rightarrow> md5_state option" where
  "md5_append_blocks pms data p left = do {
     (st, p, left) \<leftarrow> md5_full data p left (abcd pms);
     if left \<noteq> 0 then do {
       b \<leftarrow> slice data p left;
       buf \<leftarrow> memcpy (pms_buf pms) 0 b;
       Some (pms\<lparr>abcd := st, pms_buf := buf\<rparr>)
     } else Some (pms\<lparr>abcd := st\<rparr>)
   }"

text \<open>\<open>nbytes << 3\<close> is an operation on \<open>int\<close>.\<close>

definition md5_append :: "md5_state \<Rightarrow> u8 list \<Rightarrow> int \<Rightarrow> md5_state option" where
  "md5_append pms data nbytes = do {
     let offset = unat (and (drop_bit 3 (pms_count pms ! 0)) 63);
     nbits \<leftarrow> map_option word_of_int (c_int (nbytes * 8));
     if nbytes \<le> 0 then Some pms
     else do {
       let c1 = pms_count pms ! 1 + word_of_int (drop_bit 29 nbytes);
       let c0 = pms_count pms ! 0 + nbits;
       let c1 = (if c0 < nbits then c1 + 1 else c1);
       let pms = pms\<lparr>pms_count := [c0, c1]\<rparr>;
       if offset \<noteq> 0 then do {
         let copy = (if offset + nat nbytes > 64 then 64 - offset else nat nbytes);
         b \<leftarrow> slice data 0 copy;
         buf \<leftarrow> memcpy (pms_buf pms) offset b;
         let pms = pms\<lparr>pms_buf := buf\<rparr>;
         if offset + copy < 64 then Some pms
         else md5_append_blocks (pms\<lparr>abcd := md5_process (abcd pms) buf\<rparr>) data copy (nat nbytes - copy)
       } else md5_append_blocks pms data 0 (nat nbytes)
     }
   }"

definition md5_finish :: "md5_state \<Rightarrow> (u8 list \<times> md5_state) option" where
  "md5_finish pms = do {
     let data = map (\<lambda>i. ucast (drop_bit (8 * (i mod 4)) (pms_count pms ! (i div 4)))) [0..<8];
     pms \<leftarrow> md5_append pms PADDING (uint (and (55 - drop_bit 3 (pms_count pms ! 0)) 63 + 1));
     pms \<leftarrow> md5_append pms data 8;
     Some (map (\<lambda>i. ucast (drop_bit (8 * (i mod 4)) (abcd pms ! (i div 4)))) [0..<16], pms)
   }"

end
