(* ===== verification/Md5_Correct.thy ===== *)
theory Md5_Correct
  imports Md5
begin

text \<open>
  The MD5 implementations against RFC 1321 (\<open>md5_digest\<close>): the block transformations of both, by
  their tables of lines (\<open>placed\<close>), then the contract of a streaming hash for \<open>MD5Update\<close> at every width
  of the word type, and the digests of \<open>md5c.c\<close> with words of 32 and of 64 bits.
\<close>

subsection \<open>RFC 1321\<close>

text \<open>The message digest algorithm of RFC 1321: the functions of the rounds, the order of the words, the
  shifts, and the table \<open>T[i] = floor (4294967296 * abs (sin i))\<close>, here in decimal.\<close>

definition rfc_T :: "u32 list" where
  "rfc_T = [
    3614090360, 3905402710, 606105819, 3250441966,
    4118548399, 1200080426, 2821735955, 4249261313,
    1770035416, 2336552879, 4294925233, 2304563134,
    1804603682, 4254626195, 2792965006, 1236535329,
    4129170786, 3225465664, 643717713, 3921069994,
    3593408605, 38016083, 3634488961, 3889429448,
    568446438, 3275163606, 4107603335, 1163531501,
    2850285829, 4243563512, 1735328473, 2368359562,
    4294588738, 2272392833, 1839030562, 4259657740,
    2763975236, 1272893353, 4139469664, 3200236656,
    681279174, 3936430074, 3572445317, 76029189,
    3654602809, 3873151461, 530742520, 3299628645,
    4096336452, 1126891415, 2878612391, 4237533241,
    1700485571, 2399980690, 4293915773, 2240044497,
    1873313359, 4264355552, 2734768916, 1309151649,
    4149444226, 3174756917, 718787259, 3951481745]"

definition rfc_f :: "nat \<Rightarrow> u32 \<Rightarrow> u32 \<Rightarrow> u32 \<Rightarrow> u32" where
  "rfc_f r x y z = (if r = 0 then or (and x y) (and (not x) z)
     else if r = 1 then or (and x z) (and y (not z))
     else if r = 2 then xor (xor x y) z
     else xor y (or x (not z)))"

definition rfc_k :: "nat \<Rightarrow> nat" where
  "rfc_k i = (if i < 16 then i else if i < 32 then (5 * i + 1) mod 16
     else if i < 48 then (3 * i + 5) mod 16 else 7 * i mod 16)"

definition rfc_s :: "nat \<Rightarrow> nat" where
  "rfc_s i = [[7, 12, 17, 22], [5, 9, 14, 20], [4, 11, 16, 23], [6, 10, 15, 21]] ! (i div 16) ! (i mod 4)"

type_synonym md_vars = "u32 \<times> u32 \<times> u32 \<times> u32"

fun rfc_op :: "(u32 \<Rightarrow> u32 \<Rightarrow> u32 \<Rightarrow> u32) \<Rightarrow> u32 list \<Rightarrow> md_vars \<Rightarrow> nat \<times> nat \<times> u32 \<Rightarrow> md_vars" where
  "rfc_op f X (a, b, c, d) (k, s, t) = (d, b + word_rotl s (a + f b c d + X ! k + t), b, c)"

definition rfc_round :: "u32 list \<Rightarrow> md_vars \<Rightarrow> nat \<Rightarrow> md_vars" where
  "rfc_round X v r = foldl (rfc_op (rfc_f r) X) v (map (\<lambda>i. (rfc_k i, rfc_s i, rfc_T ! i)) [16 * r..<16 * r + 16])"

text \<open>Words and message length are read and written with the low-order byte first.\<close>

definition le_words :: "u8 list \<Rightarrow> u32 list" where
  "le_words b = map (\<lambda>i. word_rcat (rev (take 4 (drop (4 * i) b)))) [0..<16]"

definition le_bytes :: "u32 list \<Rightarrow> u8 list" where
  "le_bytes ws = concat (map (\<lambda>w. le_num 4 (unat w)) ws)"

definition rfc_compress :: "u32 list \<Rightarrow> u8 list \<Rightarrow> u32 list" where
  "rfc_compress st block = (case foldl (rfc_round (le_words block)) (st ! 0, st ! 1, st ! 2, st ! 3) [0..<4] of
     (a, b, c, d) \<Rightarrow> [st ! 0 + a, st ! 1 + b, st ! 2 + c, st ! 3 + d])"

definition rfc_iv :: "u32 list" where
  "rfc_iv = map (\<lambda>b. word_rcat (rev b)) [[0x01, 0x23, 0x45, 0x67 :: u8], [0x89, 0xab, 0xcd, 0xef],
     [0xfe, 0xdc, 0xba, 0x98], [0x76, 0x54, 0x32, 0x10]]"

definition md5_digest :: "u8 list \<Rightarrow> u8 list" where
  "md5_digest m = le_bytes (absorb rfc_compress rfc_iv (md_pad (le_num 8 (8 * length m)) m))"

subsection \<open>The block transformations\<close>

text \<open>The lines of a round of the code with their rotating variables, made from the operations of RFC 1321.\<close>

fun placed :: "(nat \<times> nat \<times> u32) list \<Rightarrow> 32 md_line list" where
  "placed (p # q # r # s # ops) = (0, 1, 2, 3, p) # (3, 0, 1, 2, q) # (2, 3, 0, 1, r) # (1, 2, 3, 0, s) # placed ops"
| "placed _ = []"

text \<open>The list of the four variables in the order of the code, after \<open>i\<close> operations.\<close>

fun vlist :: "nat \<Rightarrow> md_vars \<Rightarrow> u32 list" where
  "vlist i (a, b, c, d) = rotate i [a, b, c, d]"

definition implements_macro :: "32 md_macro \<Rightarrow> (u32 \<Rightarrow> u32 \<Rightarrow> u32 \<Rightarrow> u32) \<Rightarrow> bool" where
  "implements_macro M f \<longleftrightarrow> (\<forall>a b c d x s t. 0 < s \<longrightarrow> s < 32 \<longrightarrow> M a b c d x s t = b + word_rotl s (a + f b c d + x + t))"

lemma placed_line:
  assumes "implements_macro M f" "0 < fst (snd op)" "fst (snd op) < 32"
  shows "md_line M X (vlist 0 v) (0, 1, 2, 3, op) = vlist 1 (rfc_op f X v op)"
    "md_line M X (vlist 1 v) (3, 0, 1, 2, op) = vlist 2 (rfc_op f X v op)"
    "md_line M X (vlist 2 v) (2, 3, 0, 1, op) = vlist 3 (rfc_op f X v op)"
    "md_line M X (vlist 3 v) (1, 2, 3, 0, op) = vlist 0 (rfc_op f X v op)"
  using assms by (cases op; cases v; simp add: implements_macro_def numeral_eq_Suc)+

lemma placed_lines:
  assumes "implements_macro M f" "\<forall>op\<in>set ops. 0 < fst (snd op) \<and> fst (snd op) < 32" "length ops = 4 * n"
  shows "foldl (md_line M X) (vlist 0 v) (placed ops) = vlist 0 (foldl (rfc_op f X) v ops)"
  using assms(2,3)
proof (induction ops arbitrary: v n rule: placed.induct)
  case (1 p q r s ops)
  have "length ops = 4 * (n - 1)" using "1.prems" by simp
  note IH = "1.IH"[OF _ this]
  show ?case using "1.prems"(1)
    by (simp del: vlist.simps rfc_op.simps md_line.simps One_nat_def add: placed_line[OF assms(1)] IH)
qed (simp, (simp only: list.size, presburger)+)

definition rfc_ops :: "nat \<Rightarrow> (nat \<times> nat \<times> u32) list" where
  "rfc_ops r = map (\<lambda>i. (rfc_k i, rfc_s i, rfc_T ! i)) [16 * r..<16 * r + 16]"

lemma rounds_placed:
  "round1 = placed (rfc_ops 0)" "round2 = placed (rfc_ops 1)"
  "round3 = placed (rfc_ops 2)" "round4 = placed (rfc_ops 3)"
  by code_simp+

lemma set_rounds_placed:
  "set_round1 = placed (rfc_ops 0)" "set_round2 = placed (rfc_ops 1)"
  "set_round3 = placed (rfc_ops 2)" "set_round4 = placed (rfc_ops 3)"
  by code_simp+

lemma rfc_ops_shifts:
  assumes "r < 4" shows "\<forall>op\<in>set (rfc_ops r). 0 < fst (snd op) \<and> fst (snd op) < 32"
proof -
  have "\<forall>r\<in>set [0, 1, 2, 3]. \<forall>op\<in>set (rfc_ops r). 0 < fst (snd op) \<and> fst (snd op) < 32"
    by code_simp
  then show ?thesis using assms by (auto simp: less_Suc_eq numeral_eq_Suc)
qed

lemma rotate_left_rotl:
  assumes "0 < n" "n < 32" shows "ROTATE_LEFT (x :: u32) n = word_rotl n x"
proof (rule bit_word_eqI)
  fix i assume "i < LENGTH(32)"
  then have i: "i < 32" by simp
  show "bit (ROTATE_LEFT x n) i = bit (word_rotl n x) i"
  proof (cases "n \<le> i")
    case True
    then have "(i + 32 - n) mod 32 = i - n" using i by (simp add: mod_if)
    moreover have "\<not> bit x (32 - n + i)" using True assms by (auto dest: bit_imp_le_length)
    ultimately show ?thesis using True assms i by (simp add: ROTATE_LEFT_def bit_simps)
  next
    case False
    then have "(i + 32 - n) mod 32 = 32 - n + i" using assms by simp
    then show ?thesis using False assms i by (simp add: ROTATE_LEFT_def bit_simps)
  qed
qed

lemma macros:
  "implements_macro FF (rfc_f 0)" "implements_macro GG (rfc_f 1)"
  "implements_macro HH (rfc_f 2)" "implements_macro II (rfc_f 3)"
  by (simp_all add: implements_macro_def FF_def GG_def HH_def II_def rfc_f_def MD_F_def MD_G_def
      MD_H_def MD_I_def rotate_left_rotl add_ac)

lemma set_macros:
  "implements_macro (SET MD_F) (rfc_f 0)" "implements_macro (SET MD_G) (rfc_f 1)"
  "implements_macro (SET MD_H) (rfc_f 2)" "implements_macro (SET MD_I) (rfc_f 3)"
  by (simp_all add: implements_macro_def SET_def rfc_f_def MD_F_def MD_G_def
      MD_H_def MD_I_def rotate_left_rotl add_ac)

lemma Decode_le_words: "length b = 64 \<Longrightarrow> Decode b 64 = le_words b"
  by (simp add: Decode_def le_words_def take4 le_word_bits Let_def)

lemma load_le_words: "length b = 64 \<Longrightarrow> load_words b = le_words b"
  by (simp add: load_words_def le_words_def take4)

lemma rfc_round_ops: "rfc_round X v r = foldl (rfc_op (rfc_f r) X) v (rfc_ops r)"
  by (simp add: rfc_round_def rfc_ops_def)

lemma length_rfc_ops: "length (rfc_ops r) = 4 * 4"
  by (simp add: rfc_ops_def)

lemma round_lines:
  assumes "r < 4" "implements_macro M (rfc_f r)"
  shows "foldl (md_line M X) (vlist 0 v) (placed (rfc_ops r)) = vlist 0 (rfc_round X v r)"
  unfolding rfc_round_ops by (rule placed_lines[OF assms(2) rfc_ops_shifts[OF assms(1)] length_rfc_ops])

lemma code_rounds:
  "foldl (md_line FF X) (vlist 0 v) (placed (rfc_ops 0)) = vlist 0 (rfc_round X v 0)"
  "foldl (md_line GG X) (vlist 0 v) (placed (rfc_ops 1)) = vlist 0 (rfc_round X v 1)"
  "foldl (md_line HH X) (vlist 0 v) (placed (rfc_ops 2)) = vlist 0 (rfc_round X v 2)"
  "foldl (md_line II X) (vlist 0 v) (placed (rfc_ops 3)) = vlist 0 (rfc_round X v 3)"
  by (rule round_lines, simp, rule macros)+

lemma set_code_rounds:
  "foldl (md_line (SET MD_F) X) (vlist 0 v) (placed (rfc_ops 0)) = vlist 0 (rfc_round X v 0)"
  "foldl (md_line (SET MD_G) X) (vlist 0 v) (placed (rfc_ops 1)) = vlist 0 (rfc_round X v 1)"
  "foldl (md_line (SET MD_H) X) (vlist 0 v) (placed (rfc_ops 2)) = vlist 0 (rfc_round X v 2)"
  "foldl (md_line (SET MD_I) X) (vlist 0 v) (placed (rfc_ops 3)) = vlist 0 (rfc_round X v 3)"
  by (rule round_lines, simp, rule set_macros)+

lemma rfc_rounds: "foldl (rfc_round X) v [0..<4] = rfc_round X (rfc_round X (rfc_round X (rfc_round X v 0) 1) 2) 3"
proof -
  have "[0..<4] = [0, 1, 2, 3 :: nat]" by (simp add: upt_rec)
  then show ?thesis by simp
qed

lemma vlist_start: "[st ! 0, st ! 1, st ! 2, st ! 3] = vlist 0 (st ! 0, st ! 1, st ! 2, st ! 3)"
  by simp

lemma vlist_add:
  "(case v of (a, b, c, d) \<Rightarrow> [w + a, x + b, y + c, z + d]) =
     [w + vlist 0 v ! 0, x + vlist 0 v ! 1, y + vlist 0 v ! 2, z + vlist 0 v ! 3]"
  by (cases v) simp

lemma MD5Transform_rfc:
  assumes "length b = 64" shows "MD5Transform st b = rfc_compress st b"
  unfolding MD5Transform_def Let_def Decode_le_words[OF assms] vlist_start rounds_placed
    code_rounds rfc_compress_def rfc_rounds vlist_add ..

lemma md5_process_rfc:
  assumes "length b = 64" shows "md5_process st b = rfc_compress st b"
  unfolding md5_process_def Let_def load_le_words[OF assms] vlist_start set_rounds_placed
    set_code_rounds rfc_compress_def rfc_rounds vlist_add ..

subsection \<open>Lengths\<close>

lemma mod_exp_mod_64: "9 \<le> L \<Longrightarrow> (8 * n mod 2 ^ L) div 8 mod 64 = n mod (64 :: nat)"
proof -
  assume "9 \<le> L"
  then have "take_bit 6 (drop_bit 3 (take_bit L (push_bit 3 n))) = take_bit 6 n"
    by (auto intro!: bit_eqI simp: bit_simps)
  then show ?thesis by (simp add: take_bit_eq_mod drop_bit_eq_div push_bit_eq_mult mult.commute)
qed

lemma index_of_bits:
  assumes "9 \<le> LENGTH('w)"
  shows "unat (ucast (and (drop_bit 3 (of_nat (8 * n) :: 'w::len word)) 0x3F) :: u32) = n mod 64"
proof -
  have "unat (of_nat (8 * n) :: 'w word) = 8 * n mod 2 ^ LENGTH('w)"
    by (simp only: unsigned_of_nat take_bit_eq_mod of_nat_id)
  then have "drop_bit 3 (unat (of_nat (8 * n) :: 'w word)) mod 64 = n mod 64"
    using mod_exp_mod_64[OF assms, of n] by (simp only: drop_bit_eq_div) simp
  then have "unat (and (drop_bit 3 (of_nat (8 * n) :: 'w word)) 0x3F) = n mod 64"
    by (simp only: and_63 unat_drop_bit_eq)
  then show ?thesis by (simp add: unsigned_ucast_eq take_bit_nat_eq_self)
qed

lemma ucast_of_nat32: "n < 2 ^ 32 \<Longrightarrow> (ucast (of_nat n :: u32) :: 'a::len word) = of_nat n"
  by (simp add: word_unat_eq_iff unsigned_ucast_eq unsigned_of_nat take_bit_nat_eq_self)

subsection \<open>\<open>MD5Update\<close>\<close>

lemma unat32 [simp]: "n < 2 ^ 32 \<Longrightarrow> unat (of_nat n :: u32) = n"
  by (simp add: unsigned_of_nat take_bit_nat_eq_self)

lemma of_nat32_less: "a < 2 ^ 32 \<Longrightarrow> b < 2 ^ 32 \<Longrightarrow> (of_nat a :: u32) < of_nat b \<longleftrightarrow> a < b"
  by (simp only: word_less_nat_alt unat32)

lemma of_nat32_le: "a < 2 ^ 32 \<Longrightarrow> b < 2 ^ 32 \<Longrightarrow> (of_nat a :: u32) \<le> of_nat b \<longleftrightarrow> a \<le> b"
  by (simp only: word_le_nat_alt unat32)

text \<open>The bytes \<open>junk\<close> behind the input are not read.\<close>

lemma md5_blocks_absorb:
  assumes "length input < 2 ^ 32 - 64" "i \<le> length input"
  shows "md5_blocks (input @ junk) (of_nat (length input)) (of_nat i) st =
    Some (absorb MD5Transform st (drop i input), of_nat (length input - (length input - i) mod 64))"
  using assms(2)
proof (induction "length input - i" arbitrary: i st rule: less_induct)
  case less
  have i63: "(of_nat i :: u32) + 63 = of_nat (i + 63)" and i64: "(of_nat i :: u32) + 64 = of_nat (i + 64)"
    by simp_all
  have iff: "(of_nat i :: u32) + 63 < of_nat (length input) \<longleftrightarrow> i + 63 < length input"
    unfolding i63 using assms(1) less.prems by (subst of_nat32_less) simp_all
  show ?case
  proof (cases "i + 63 < length input")
    case True
    have u: "unat (of_nat i :: u32) = i" using assms(1) less.prems by (intro unat32) simp
    have sl: "slice (input @ junk) i 64 = Some (take 64 (drop i input))" using True by simp
    have "(length input - (i + 64)) mod 64 = (length input - i) mod 64"
      using True le_mod_geq[of 64 "length input - i"] by simp
    moreover have "absorb MD5Transform st (drop i input)
        = absorb MD5Transform (MD5Transform st (take 64 (drop i input))) (drop (i + 64) input)"
      using True by (subst absorb_block) (simp_all add: add.commute)
    moreover have "length input - (i + 64) < length input - i" "i + 64 \<le> length input" using True by simp_all
    note IH = less.hyps[OF this]
    ultimately show ?thesis using True
      by (subst md5_blocks.simps) (simp only: iff if_True u sl Option.bind.bind_lunit i64 IH)
  next
    case False
    then have "length input - (length input - i) mod 64 = i" using less.prems by simp
    then show ?thesis using False
      by (subst md5_blocks.simps) (simp only: iff if_False, simp)
  qed
qed

definition md5_held :: "'w::len word MD5_CTX \<Rightarrow> u8 list" where
  "md5_held c = take (unat (ucast (and (drop_bit 3 (md_count c ! 0)) 0x3F) :: u32)) (md_buffer c)"

text \<open>The context has counted \<open>n\<close> bytes; the high word of the count is meaningful for 32-bit words.\<close>

definition md5_counted :: "'w::len word MD5_CTX \<Rightarrow> nat \<Rightarrow> bool" where
  "md5_counted c n \<longleftrightarrow> 9 \<le> LENGTH('w) \<and> length (md_buffer c) = 64 \<and> length (md_count c) = 2 \<and>
     md_count c ! 0 = of_nat (8 * n) \<and>
     (LENGTH('w) = 32 \<longrightarrow> md_count c ! 1 = of_nat (8 * n div 2 ^ 32))"

lemma md5_counted_index:
  "md5_counted c n \<Longrightarrow> unat (ucast (and (drop_bit 3 (md_count c ! 0)) 0x3F) :: u32) = n mod 64"
  unfolding md5_counted_def using index_of_bits by metis

lemma md5_counted_index':
  assumes "md5_counted c n"
  shows "(ucast (and (drop_bit 3 (md_count c ! 0)) 0x3F) :: u32) = of_nat (n mod 64)"
  by (simp only: word_unat_eq_iff md5_counted_index[OF assms]) simp

lemma md5_counted_held: "md5_counted c n \<Longrightarrow> md5_held c = take (n mod 64) (md_buffer c)"
  by (simp only: md5_held_def md5_counted_index)

lemma md5_count_bits_step:
  assumes "md5_counted (c :: 'w::len word MD5_CTX) n" "len < 2 ^ 32" "length buf = 64"
  shows "md5_counted \<lparr>md_state = st, md_count = md5_count_bits (md_count c) (of_nat len), md_buffer = buf\<rparr> (n + len)"
proof -
  have bits: "push_bit 3 (ucast (of_nat len :: u32)) = (of_nat (8 * len) :: 'w word)"
    by (simp only: ucast_of_nat32[OF assms(2)] push_bit_of_nat) (simp add: push_bit_eq_mult mult.commute)
  have low: "md_count c ! 0 + of_nat (8 * len) = of_nat (8 * (n + len))"
    using assms(1) by (simp add: md5_counted_def)
  have "(if (of_nat (8 * (n + len)) :: 'w word) < of_nat (8 * len) then md_count c ! 1 + 1 else md_count c ! 1)
      + drop_bit 29 (ucast (of_nat len :: u32)) = of_nat (8 * (n + len) div 2 ^ 32)" if L: "LENGTH('w) = 32"
  proof -
    have un: "unat (of_nat x :: 'w word) = x mod 2 ^ 32" for x
      by (simp add: unsigned_of_nat take_bit_eq_mod L)
    have "drop_bit 29 (ucast (of_nat len :: u32)) = (of_nat (len div 2 ^ 29) :: 'w word)"
      by (simp only: ucast_of_nat32[OF assms(2)] word_unat_eq_iff unat_drop_bit_eq un)
        (use assms(2) in \<open>simp add: drop_bit_eq_div\<close>)
    moreover have "md_count c ! 1 = of_nat (8 * n div 2 ^ 32)" using assms(1) L by (simp add: md5_counted_def)
    moreover have "8 * (n + len) div 2 ^ 32 = 8 * n div 2 ^ 32 + len div 2 ^ 29
        + (if 8 * (n + len) mod 2 ^ 32 < 8 * len mod 2 ^ 32 then 1 else 0)"
      using carry_div[of "2 ^ 32" "8 * n" "8 * len"] by (simp add: distrib_left)
    moreover have "(of_nat (8 * (n + len)) :: 'w word) < of_nat (8 * len) \<longleftrightarrow> 8 * (n + len) mod 2 ^ 32 < 8 * len mod 2 ^ 32"
      by (simp only: word_less_nat_alt un)
    ultimately show ?thesis by (simp only: of_nat_add of_nat_1 of_nat_0 split: if_split) simp
  qed
  then show ?thesis using assms(1,3) low
    by (simp add: md5_counted_def md5_count_bits_def Let_def bits del: of_nat_mult)
qed

lemma drop_rest: "64 \<le> length h + length bs \<Longrightarrow> length h < 64 \<Longrightarrow>
    rest (h @ bs) = drop (length bs - (length bs - (64 - length h)) mod 64) bs"
proof -
  assume a: "64 \<le> length h + length bs" "length h < 64"
  let ?k = "64 - length h"
  have "rest (h @ bs) = rest (drop ?k bs)" using a by (subst rest_block) simp_all
  also have "\<dots> = drop (length bs - ?k - (length bs - ?k) mod 64 + ?k) bs" by (simp add: rest_def add.commute)
  also have "length bs - ?k - (length bs - ?k) mod 64 + ?k = length bs - (length bs - ?k) mod 64"
    using a mod_less_eq_dividend[of "length bs - ?k" 64] by simp
  finally show ?thesis .
qed

lemma MD5Update_law:
  fixes c :: "'w::len word MD5_CTX"
  assumes c: "md5_counted c n" and len: "length bs < 2 ^ 32 - 64"
  shows "\<exists>c'. (\<forall>junk. MD5Update c (bs @ junk) (of_nat (length bs)) = Some c') \<and> md5_counted c' (n + length bs) \<and>
    md_state c' = absorb MD5Transform (md_state c) (md5_held c @ bs) \<and> md5_held c' = rest (md5_held c @ bs)"
proof -
  define r where "r = n mod 64"
  have r: "r < 64" by (simp add: r_def)
  have buf: "length (md_buffer c) = 64" using c by (simp add: md5_counted_def)
  have held: "md5_held c = take r (md_buffer c)" using md5_counted_held[OF c] by (simp add: r_def)
  then have lh: "length (md5_held c) = r" using r buf by simp
  have index: "(ucast (and (drop_bit 3 (md_count c ! 0)) 0x3F) :: u32) = of_nat r"
    unfolding r_def by (rule md5_counted_index'[OF c])
  have part: "(64 :: u32) - of_nat r = of_nat (64 - r)" using r by (simp add: of_nat_diff)
  have l32: "length bs < 2 ^ 32" "64 - r < 2 ^ 32" using len by simp_all
  have ur: "unat (of_nat (64 - r) :: u32) = 64 - r" "unat (of_nat r :: u32) = r" by (rule unat32, use r in simp)+
  note step = md5_count_bits_step[OF c l32(1)]
  show ?thesis
  proof (cases "64 \<le> r + length bs")
    case True
    let ?b = "take (64 - r) bs" and ?buf = "overlay (md_buffer c) r (take (64 - r) bs)"
    let ?i = "length bs - (length bs - (64 - r)) mod 64"
    have fit: "64 - r \<le> length bs" using True by simp
    have lb: "length ?buf = 64" using buf r fit by simp
    have buf': "?buf = md5_held c @ ?b" using buf r fit by (simp add: overlay_def held)
    have diff: "(of_nat (length bs) :: u32) - of_nat ?i = of_nat (length bs - ?i)" by (simp add: of_nat_diff)
    have ui: "unat (of_nat ?i :: u32) = ?i" "unat (of_nat (length bs - ?i) :: u32) = length bs - ?i"
      by (rule unat32, use l32 in simp)+
    have li: "length bs - ?i = (length bs - (64 - r)) mod 64"
      using mod_less_eq_dividend[of "length bs - (64 - r)" 64] by simp
    let ?new = "overlay ?buf 0 (drop ?i bs)"
    let ?c' = "\<lparr>md_state = absorb MD5Transform (MD5Transform (md_state c) ?buf) (drop (64 - r) bs),
      md_count = md5_count_bits (md_count c) (of_nat (length bs)), md_buffer = ?new\<rparr>"
    have small: "length (drop ?i bs) < 64" using li by simp
    have new: "length ?new = 64" using lb small by simp
    have s0: "slice (bs @ junk) 0 (64 - r) = Some ?b" for junk using fit by simp
    have m0: "memcpy (md_buffer c) r ?b = Some ?buf" using fit buf r by simp
    have s1: "slice (bs @ junk) ?i (length bs - ?i) = Some (drop ?i bs)" for junk by (simp add: slice_def)
    have m1: "memcpy ?buf 0 (drop ?i bs) = Some ?new" using small lb by simp
    have run: "MD5Update c (bs @ junk) (of_nat (length bs)) = Some ?c'" for junk
      unfolding MD5Update_def Let_def index part of_nat32_le[OF l32(2,1)]
      by (simp only: fit simp_thms if_True ur s0 m0 Option.bind.bind_lunit prod.case ui diff
          md5_blocks_absorb[OF len fit] s1 m1 unsigned_0)
    have cnt: "md5_counted ?c' (n + length bs)" by (rule step[OF new])
    have "(n + length bs) mod 64 = (r + length bs) mod 64" unfolding r_def by (simp add: mod_add_left_eq)
    also have "\<dots> = (length bs - (64 - r)) mod 64" using True r le_mod_geq[of 64 "r + length bs"]
      by (simp add: algebra_simps)
    finally have k: "(n + length bs) mod 64 = length (drop ?i bs)" using li by simp
    have "md5_held ?c' = drop ?i bs"
      unfolding md5_counted_held[OF cnt] k using small lb by (simp add: overlay_def)
    then show ?thesis using run cnt True r lh buf'
      by (simp add: absorb_held drop_rest)
  next
    case False
    let ?new = "overlay (md_buffer c) r bs"
    let ?c' = "\<lparr>md_state = md_state c, md_count = md5_count_bits (md_count c) (of_nat (length bs)), md_buffer = ?new\<rparr>"
    have new: "length ?new = 64" using buf False by simp
    have nf: "\<not> 64 - r \<le> length bs" using False r by simp
    have s0: "slice (bs @ junk) 0 (length bs) = Some bs" for junk by simp
    have m0: "memcpy (md_buffer c) r bs = Some ?new" using False buf by simp
    have ul: "unat (of_nat (length bs) :: u32) = length bs" by (rule unat32[OF l32(1)])
    have run: "MD5Update c (bs @ junk) (of_nat (length bs)) = Some ?c'" for junk
      unfolding MD5Update_def Let_def index part of_nat32_le[OF l32(2,1)]
      by (simp only: nf if_False Option.bind.bind_lunit prod.case diff_zero unsigned_0 ul s0 ur m0)
    have cnt: "md5_counted ?c' (n + length bs)" by (rule step[OF new])
    have k: "(n + length bs) mod 64 = r + length bs" using False unfolding r_def
      by (metis mod_add_left_eq mod_less not_le)
    have "md5_held ?c' = md5_held c @ bs"
      unfolding md5_counted_held[OF cnt] k held using buf False r by (simp add: overlay_def)
    then show ?thesis using run cnt False lh by simp
  qed
qed

lemma MD5Update_ok:
  assumes "md5_counted c n" "length bs < 2 ^ 32 - 64"
  shows "\<exists>c'. MD5Update c bs (of_nat (length bs)) = Some c' \<and> md5_counted c' (n + length bs) \<and>
    md_state c' = absorb MD5Transform (md_state c) (md5_held c @ bs) \<and> md5_held c' = rest (md5_held c @ bs)"
  using MD5Update_law[OF assms] by (metis append_Nil2)

lemma MD5Update_junk:
  assumes "md5_counted c n" "length bs < 2 ^ 32 - 64"
  shows "MD5Update c (bs @ junk) (of_nat (length bs)) = MD5Update c bs (of_nat (length bs))"
  using MD5Update_law[OF assms] by (metis append_Nil2)

interpretation md5c: streaming_hash MD5Transform "\<lambda>c bs. MD5Update c bs (of_nat (length bs))"
  md_state md5_held md5_counted "2 ^ 32 - 64"
  by unfold_locales (simp_all add: MD5Update_ok)

subsection \<open>Digests\<close>

lemma ucast_and_ff: "ucast (and w 0xff :: u32) = (ucast w :: u8)"
proof -
  have "(0xff :: u32) = mask 8" by (simp add: mask_eq_exp_minus_1)
  then have "and w 0xff = take_bit 8 w" by (simp only: take_bit_eq_mask)
  moreover have "ucast (take_bit 8 w) = (ucast w :: u8)" by (rule bit_word_eqI) (simp add: bit_simps)
  ultimately show ?thesis by simp
qed

lemma Encode_le: "Encode (w :: u32 list) len = concat (map (\<lambda>i. le_num 4 (unat (w ! i))) [0..<len div 4])"
proof -
  have "ucast x = (of_nat (unat x) :: u8)" for x :: u32 by (simp only: of_nat_unat)
  then show ?thesis unfolding Encode_def le_num4 ucast_and_ff ucast_byte by simp
qed

lemma Encode_state: "length st = 4 \<Longrightarrow> Encode (st :: u32 list) 16 = le_bytes st"
proof -
  assume "length st = 4"
  then have "map (\<lambda>i. le_num 4 (unat (st ! i))) [0..<4] = map (\<lambda>w. le_num 4 (unat w)) st"
    by (auto intro: nth_equalityI)
  then show ?thesis by (simp add: Encode_le le_bytes_def)
qed

lemma Encode_count: "Encode [of_nat n, of_nat (n div 2 ^ 32) :: u32] 8 = le_num 8 n"
proof -
  have upt2: "[0..<2] = [0, 1 :: nat]" by (simp add: upt_rec)
  have "Encode [of_nat n, of_nat (n div 2 ^ 32) :: u32] 8 = le_num 4 n @ le_num 4 (n div 2 ^ 32)"
    using le_num_mod[of n] le_num_mod[of "n div 2 ^ 32"]
    by (simp add: Encode_le upt2 unsigned_of_nat take_bit_eq_mod)
  then show ?thesis using le_num_split[of 4 4 n] by simp
qed

subsection \<open>\<open>md5c.c\<close> with 32-bit words\<close>

abbreviation md5c_holds :: "u32 MD5_CTX \<Rightarrow> u8 list \<Rightarrow> bool" where
  "md5c_holds \<equiv> md5c.holds rfc_iv"

definition md5_zero :: "'w::len word MD5_CTX" where
  "md5_zero = \<lparr>md_state = replicate 4 0, md_count = replicate 2 0, md_buffer = replicate 64 0\<rparr>"

lemma rfc_iv_words: "rfc_iv = [0x67452301, 0xefcdab89, 0x98badcfe, 0x10325476]"
  by code_simp

lemma length_rfc_compress [simp]: "length (rfc_compress st b) = 4"
  by (simp add: rfc_compress_def split: prod.split)

lemma length_absorb_rfc: "length st = 4 \<Longrightarrow> length (absorb rfc_compress st m) = 4"
  by (induction rfc_compress st m rule: absorb.induct)
    (metis absorb.simps length_rfc_compress)

lemma MD5Init_holds: "length (md_buffer c) = 64 \<Longrightarrow> md5c_holds (MD5Init c) []"
  by (rule md5c.holds_empty)
    (simp_all add: MD5Init_def rfc_iv_words md5_held_def md5_counted_def)

lemma PADDING_padding: "PADDING = padding"
  by (simp add: PADDING_def padding_def numeral_eq_Suc)

lemma pad_len:
  fixes index :: u32 assumes "index = of_nat (n mod 64)"
  shows "(if index < 56 then 56 - index else 120 - index) = of_nat (Suc (pad_zeros n))"
proof -
  have m: "n mod 64 < 64" by simp
  have "index < 56 \<longleftrightarrow> n mod 64 < 56" using assms of_nat32_less[of "n mod 64" 56] m by simp
  moreover have "(56 :: u32) - index = of_nat (56 - n mod 64)" if "n mod 64 < 56"
    using that assms by (simp add: of_nat_diff)
  moreover have "(120 :: u32) - index = of_nat (120 - n mod 64)"
    using assms by (simp add: of_nat_diff)
  ultimately show ?thesis by (simp add: pad_zeros_cases)
qed

text \<open>The digest of what the context holds, at every width of \<open>UINT4\<close>.\<close>

lemma MD5Final_any:
  assumes h: "md5c.holds iv c m"
  shows "MD5Final c = Some (Encode (absorb MD5Transform iv (md_pad (Encode (md_count c) 8) m)) 16, md5_zero)"
proof -
  have cnt: "md5_counted c (length m)" using h by (simp add: md5c.holds_def)
  note idx = md5_counted_index'[OF cnt]
  let ?k = "Suc (pad_zeros (length m))" and ?len = "Encode (md_count c) 8"
  have k: "?k \<le> 64" by (simp add: pad_zeros_def Suc_le_eq)
  have l8: "length ?len = 8" by (simp add: Encode_def length_concat sum_list_replicate map_replicate_const comp_def)
  obtain c1 c2 where c1: "MD5Update c (take ?k padding) (of_nat (length (take ?k padding))) = Some c1"
    and c2: "MD5Update c1 ?len (of_nat (length ?len)) = Some c2"
    and st: "md_state c2 = absorb MD5Transform iv (md_pad ?len m)"
    using md5c.holds_pad[OF h l8] .
  have lk: "length (take ?k padding) = ?k" using k by (simp add: padding_def)
  have "length (take ?k padding) < 2 ^ 32 - 64" using k lk by simp
  from MD5Update_junk[OF cnt this, of "drop ?k padding"] c1 have p: "MD5Update c PADDING (of_nat ?k) = Some c1"
    by (simp only: lk append_take_drop_id PADDING_padding)
  have c2': "MD5Update c1 ?len 8 = Some c2" using c2 by (simp add: l8)
  show ?thesis
    unfolding MD5Final_def Let_def pad_len[OF idx] p Option.bind.bind_lunit c2' st md5_zero_def ..
qed

lemma absorb_rfc: "absorb MD5Transform st m = absorb rfc_compress st m"
  by (rule absorb_cong) (rule MD5Transform_rfc)

lemma MD5Final_digest:
  assumes h: "md5c_holds c m"
  shows "MD5Final c = Some (md5_digest m, md5_zero)"
proof -
  have "md5_counted c (length m)" using h by (simp add: md5c.holds_def)
  then have "md_count c = [of_nat (8 * length m), of_nat (8 * length m div 2 ^ 32)]"
    by (auto simp: md5_counted_def length_Suc_conv numeral_2_eq_2)
  then have bits: "Encode (md_count c) 8 = le_num 8 (8 * length m)" by (simp only: Encode_count)
  have "length (absorb rfc_compress rfc_iv (md_pad (le_num 8 (8 * length m)) m)) = 4"
    by (rule length_absorb_rfc) (simp add: rfc_iv_def)
  then show ?thesis
    using MD5Final_any[OF h] unfolding bits absorb_rfc md5_digest_def by (simp only: Encode_state)
qed

lemma md5c_pieces:
  fixes c :: "u32 MD5_CTX"
  assumes "length (md_buffer c) = 64" "\<forall>bs\<in>set pieces. length bs < 2 ^ 32 - 64"
  shows "\<exists>c'. foldM (\<lambda>c bs. MD5Update c bs (of_nat (length bs))) (MD5Init c) pieces = Some c' \<and>
    MD5Final c' = Some (md5_digest (concat pieces), md5_zero)"
  using md5c.holds_updates[OF MD5Init_holds[OF assms(1)] assms(2)] MD5Final_digest by fastforce

lemma md5_read_file_pieces:
  "md5_read_file c chunks = foldM (\<lambda>c bs. MD5Update c bs (of_nat (length bs))) c (takeWhile (\<lambda>b. b \<noteq> []) chunks)"
  by (induction c chunks rule: md5_read_file.induct) (simp_all split: Option.bind_split)

lemma MD5File_digest:
  fixes c :: "u32 MD5_CTX"
  assumes "length (md_buffer c) = 64" "\<forall>b\<in>set chunks. length b \<le> 1024"
  shows "MD5File c (Some chunks) d = Some (0, md5_digest (concat (takeWhile (\<lambda>b. b \<noteq> []) chunks)))"
proof -
  have "\<forall>bs\<in>set (takeWhile (\<lambda>b. b \<noteq> []) chunks). length bs < 2 ^ 32 - 64"
    using assms(2) by (fastforce dest: set_takeWhileD)
  from md5c_pieces[OF assms(1) this] show ?thesis
    by (auto simp: MD5File_def md5_read_file_pieces)
qed

lemma MDString_digest:
  fixes c :: "u32 MD5_CTX"
  assumes "length (md_buffer c) = 64" "0 \<notin> set s" "length s < 2 ^ 32 - 64"
  shows "MDString c (s @ 0 # r) = Some (md5_digest s)"
proof -
  have cnt: "md5_counted (MD5Init c) 0" using MD5Init_holds[OF assms(1)] by (simp add: md5c.holds_def)
  obtain c' where c': "MD5Update (MD5Init c) s (of_nat (length s)) = Some c'" "md5c_holds c' ([] @ s)"
    using md5c.holds_update[OF MD5Init_holds[OF assms(1)] assms(3)] .
  have "MD5Update (MD5Init c) (s @ 0 # r) (of_nat (length s)) = Some c'"
    using MD5Update_junk[OF cnt assms(3)] c'(1) by simp
  moreover have "MD5Final c' = Some (md5_digest s, md5_zero)"
    using MD5Final_digest[OF c'(2)] by simp
  ultimately show ?thesis
    by (simp only: MDString_def strlen_append[OF assms(2)] Option.bind.bind_lunit prod.case)
qed

subsection \<open>Two digests\<close>

text \<open>The rounds on the padded messages \<open>""\<close> (in both widths) and \<open>"abc"\<close>.\<close>

lemma rounds_empty:
  "foldl (md_line FF [128, 0, 0, 0, 0, 0, 0, 0, 0, 0, 0, 0, 0, 0, 0, 0]) [1732584193, 4023233417, 2562383102, 271733878] round1 = ([4117527793, 3598818410, 1520779125, 927548327] :: 32 word list)"
  "foldl (md_line GG [128, 0, 0, 0, 0, 0, 0, 0, 0, 0, 0, 0, 0, 0, 0, 0]) [4117527793, 3598818410, 1520779125, 927548327] round2 = ([326135862, 2720030495, 473023364, 2927104987] :: 32 word list)"
  "foldl (md_line HH [128, 0, 0, 0, 0, 0, 0, 0, 0, 0, 0, 0, 0, 0, 0, 0]) [326135862, 2720030495, 473023364, 2927104987] round3 = ([1062596093, 3397201341, 1759006370, 581115732] :: 32 word list)"
  "foldl (md_line II [128, 0, 0, 0, 0, 0, 0, 0, 0, 0, 0, 0, 0, 0, 0, 0]) [1062596093, 3397201341, 1759006370, 581115732] round4 = ([1917254355, 350508294, 4283343851, 1846584438] :: 32 word list)"
  by (simp_all add: round1_def round2_def round3_def round4_def FF_def GG_def HH_def II_def
      MD_F_def MD_G_def MD_H_def MD_I_def ROTATE_LEFT_def Let_def)

lemma rounds_empty64:
  "foldl (md_line FF [128, 0, 0, 0, 0, 0, 0, 0, 0, 0, 0, 0, 0, 0, 0, 0]) [1732584193, 4023233417, 2562383102, 271733878] round1 = ([10871433800582520069, 10445878844286575515, 1585618057195662231, 6079375046028346327] :: 64 word list)"
  "foldl (md_line GG [128, 0, 0, 0, 0, 0, 0, 0, 0, 0, 0, 0, 0, 0, 0, 0]) [10871433800582520069, 10445878844286575515, 1585618057195662231, 6079375046028346327] round2 = ([3720851114925492716, 15983705072902754029, 15006569089568068913, 11367238944272938529] :: 64 word list)"
  "foldl (md_line HH [128, 0, 0, 0, 0, 0, 0, 0, 0, 0, 0, 0, 0, 0, 0, 0]) [3720851114925492716, 15983705072902754029, 15006569089568068913, 11367238944272938529] round3 = ([16013921822190226924, 12556789716051873983, 5441147249984637601, 2302140967492144413] :: 64 word list)"
  "foldl (md_line II [128, 0, 0, 0, 0, 0, 0, 0, 0, 0, 0, 0, 0, 0, 0, 0]) [16013921822190226924, 12556789716051873983, 5441147249984637601, 2302140967492144413] round4 = ([8863795446308577251, 4224312351078579556, 12192877750745007488, 14788787346903034911] :: 64 word list)"
  by (simp_all add: round1_def round2_def round3_def round4_def FF_def GG_def HH_def II_def
      MD_F_def MD_G_def MD_H_def MD_I_def ROTATE_LEFT_def Let_def)

lemma rounds_abc:
  "foldl (md_line FF [2153996897, 0, 0, 0, 0, 0, 0, 0, 0, 0, 0, 0, 0, 0, 24, 0]) [1732584193, 4023233417, 2562383102, 271733878] round1 = ([3718887846, 1924133600, 3818292587, 2701465749] :: 32 word list)"
  "foldl (md_line GG [2153996897, 0, 0, 0, 0, 0, 0, 0, 0, 0, 0, 0, 0, 0, 24, 0]) [3718887846, 1924133600, 3818292587, 2701465749] round2 = ([2030729211, 1919107795, 2787673258, 2672289016] :: 32 word list)"
  "foldl (md_line HH [2153996897, 0, 0, 0, 0, 0, 0, 0, 0, 0, 0, 0, 0, 0, 24, 0]) [2030729211, 1919107795, 2787673258, 2672289016] round3 = ([2133741691, 2079037184, 2410570649, 2581161885] :: 32 word list)"
  "foldl (md_line II [2153996897, 0, 0, 0, 0, 0, 0, 0, 0, 0, 0, 0, 0, 0, 24, 0]) [2133741691, 2079037184, 2410570649, 2581161885] round4 = ([822795919, 3229755059, 3833903576, 1649249458] :: 32 word list)"
  by (simp_all add: round1_def round2_def round3_def round4_def FF_def GG_def HH_def II_def
      MD_F_def MD_G_def MD_H_def MD_I_def ROTATE_LEFT_def Let_def)

lemma transform_empty: "MD5Transform [0x67452301, 0xefcdab89, 0x98badcfe, 0x10325476] (0x80 # replicate 63 0) = ([3649838548, 78774415, 2550759657, 2118318316] :: u32 list)"
proof -
  have "Decode (0x80 # replicate 63 0) 64 = ([128, 0, 0, 0, 0, 0, 0, 0, 0, 0, 0, 0, 0, 0, 0, 0] :: u32 list)" by code_simp
  then show ?thesis unfolding MD5Transform_def Let_def by (simp add: rounds_empty)
qed

lemma transform_empty64: "MD5Transform [0x67452301, 0xefcdab89, 0x98badcfe, 0x10325476] (0x80 # replicate 63 0) = ([8863795448041161444, 4224312355101812973, 12192877753307390590, 14788787347174768789] :: 64 word list)"
proof -
  have "Decode (0x80 # replicate 63 0) 64 = ([128, 0, 0, 0, 0, 0, 0, 0, 0, 0, 0, 0, 0, 0, 0, 0] :: 64 word list)" by code_simp
  then show ?thesis unfolding MD5Transform_def Let_def by (simp add: rounds_empty64)
qed

lemma md_pad_abc: "md_pad (le_num 8 24) [97, 98, 99] = 97 # 98 # 99 # 0x80 # replicate 52 0 @ [24, 0, 0, 0, 0, 0, 0, 0]"
proof -
  have "[0..<8] = [0, 1, 2, 3, 4, 5, 6, 7 :: nat]" by (simp add: upt_rec)
  then show ?thesis by (simp add: md_pad_def pad_zeros_def le_num_def)
qed

lemma transform_abc: "MD5Transform [0x67452301, 0xefcdab89, 0x98badcfe, 0x10325476] (md_pad (le_num 8 24) [97, 98, 99]) = ([2555380112, 2958021180, 2101319382, 1920983336] :: u32 list)"
proof -
  have "Decode (97 # 98 # 99 # 0x80 # replicate 52 0 @ [24, 0, 0, 0, 0, 0, 0, 0]) 64 = ([2153996897, 0, 0, 0, 0, 0, 0, 0, 0, 0, 0, 0, 0, 0, 24, 0] :: u32 list)" by code_simp
  then show ?thesis unfolding MD5Transform_def Let_def by (simp add: rounds_abc md_pad_abc)
qed

lemma md5_digest_empty:
  "md5_digest [] = [0xd4, 0x1d, 0x8c, 0xd9, 0x8f, 0x00, 0xb2, 0x04, 0xe9, 0x80, 0x09, 0x98, 0xec, 0xf8, 0x42, 0x7e]"
proof -
  have "md_pad (le_num 8 0) [] = 0x80 # replicate 63 0"
    by (simp add: md_pad_def pad_zeros_def le_num_def map_replicate_const replicate_add[symmetric])
  then have "md5_digest [] = le_bytes (MD5Transform rfc_iv (0x80 # replicate 63 0))"
    by (simp add: md5_digest_def MD5Transform_rfc)
  then show ?thesis by (simp add: rfc_iv_words transform_empty le_bytes_def le_num4)
qed

lemma md5_digest_abc:
  "md5_digest [97, 98, 99] = [0x90, 0x01, 0x50, 0x98, 0x3c, 0xd2, 0x4f, 0xb0, 0xd6, 0x96, 0x3f, 0x7d, 0x28, 0xe1, 0x7f, 0x72]"
proof -
  have "length (md_pad (le_num 8 24) [97, 98, 99]) = 64" by (simp add: md_pad_abc)
  then have "md5_digest [97, 98, 99] = le_bytes (MD5Transform rfc_iv (md_pad (le_num 8 24) [97, 98, 99]))"
    by (simp add: md5_digest_def MD5Transform_rfc)
  then show ?thesis by (simp add: rfc_iv_words transform_abc le_bytes_def le_num4)
qed

text \<open>
  C9: \<open>md5c.c\<close> with 32-bit words computes the MD5 digest of RFC 1321: for a message given to
  \<open>MD5Update\<close> in any number of pieces, of any lengths below \<open>2 ^ 32 - 64\<close>, for a string, and for the
  contents of a file up to the first empty read. The context is cleared afterwards.
\<close>

theorem md5c_digest:
  fixes c :: "u32 MD5_CTX"
  assumes "length (md_buffer c) = 64" "\<forall>bs\<in>set pieces. length bs < 2 ^ 32 - 64"
    "0 \<notin> set s" "length s < 2 ^ 32 - 64" "\<forall>b\<in>set chunks. length b \<le> 1024"
  shows "foldM (\<lambda>c bs. MD5Update c bs (of_nat (length bs))) (MD5Init c) pieces \<bind> MD5Final
      = Some (md5_digest (concat pieces), \<lparr>md_state = [0, 0, 0, 0], md_count = [0, 0], md_buffer = replicate 64 0\<rparr>)
    \<and> MDString c (s @ 0 # r) = Some (md5_digest s)
    \<and> MD5File c (Some chunks) d = Some (0, md5_digest (concat (takeWhile (\<lambda>b. b \<noteq> []) chunks)))"
proof -
  have "md5_zero = \<lparr>md_state = [0, 0, 0, 0], md_count = [0, 0], md_buffer = replicate 64 0 :: u8 list\<rparr>"
    by (simp add: md5_zero_def numeral_eq_Suc)
  then show ?thesis
    using md5c_pieces[OF assms(1,2)] MDString_digest[OF assms(1,3,4), of r] MD5File_digest[OF assms(1,5), of d]
    by auto
qed

theorem md5c_digest_witness:
  "foldM (\<lambda>c bs. MD5Update c bs (of_nat (length bs))) (MD5Init (\<lparr>md_state = [], md_count = [], md_buffer = replicate 64 7\<rparr> :: u32 MD5_CTX)) [[97], [98, 99]] \<bind> MD5Final
     = Some ([0x90, 0x01, 0x50, 0x98, 0x3c, 0xd2, 0x4f, 0xb0, 0xd6, 0x96, 0x3f, 0x7d, 0x28, 0xe1, 0x7f, 0x72],
         \<lparr>md_state = [0, 0, 0, 0], md_count = [0, 0], md_buffer = replicate 64 0\<rparr>)"
  using md5c_digest[where c = "\<lparr>md_state = [], md_count = [], md_buffer = replicate 64 7\<rparr>"
      and pieces = "[[97], [98, 99]]" and s = "[]" and chunks = "[]" and r = "[]" and d = "[]"]
  by (simp only: concat.simps append.simps md5_digest_abc) simp

lemma MD5Update_count: "MD5Update c input n = Some c' \<Longrightarrow> md_count c' = md5_count_bits (md_count c) n"
  by (auto simp: MD5Update_def Let_def Option.bind_eq_Some_conv)

text \<open>
  C29: where \<open>unsigned long int\<close> has 64 bits, as on a 64-bit Linux, \<open>md5c.c\<close> does not compute MD5: the
  digest of the empty string is another one. The rotation of a word by shifts keeps the bits above the
  32nd, which the type \<open>UINT4\<close> ("a four byte word") was to drop.
\<close>

theorem md5c_lp64:
  fixes c :: "64 word MD5_CTX"
  assumes "length (md_buffer c) = 64"
  shows "MDString c [0] = Some [0xe4, 0xc2, 0x37, 0x62, 0xed, 0x28, 0x23, 0xa2, 0x7e, 0x62, 0xa6, 0x4b, 0x95, 0xc0, 0x24, 0xe7]
    \<and> md5_digest [] = [0xd4, 0x1d, 0x8c, 0xd9, 0x8f, 0x00, 0xb2, 0x04, 0xe9, 0x80, 0x09, 0x98, 0xec, 0xf8, 0x42, 0x7e]"
proof
  let ?iv = "[0x67452301, 0xefcdab89, 0x98badcfe, 0x10325476] :: 64 word list"
  have h: "md5c.holds ?iv (MD5Init c) []"
    by (rule md5c.holds_empty) (use assms in \<open>simp_all add: MD5Init_def md5_held_def md5_counted_def\<close>)
  have cnt: "md5_counted (MD5Init c) 0" using h by (simp add: md5c.holds_def)
  obtain c' where c': "MD5Update (MD5Init c) [] (of_nat (length ([] :: u8 list))) = Some c'" "md5c.holds ?iv c' ([] @ [])"
    using md5c.holds_update[OF h, of "[]"] by auto
  have up: "MD5Update (MD5Init c) [0] 0 = Some c'"
    using MD5Update_junk[OF cnt, of "[]" "[0]"] c'(1) by simp
  have "md_count c' = [0, 0]"
    using MD5Update_count[OF up] by (simp add: MD5Init_def md5_count_bits_def)
  moreover have "md_pad (Encode [0, 0 :: 64 word] 8) [] = 0x80 # replicate 63 0" by code_simp
  ultimately have "MD5Final c' = Some (Encode (MD5Transform ?iv (0x80 # replicate 63 0)) 16, md5_zero)"
    using MD5Final_any[OF c'(2)[unfolded append_Nil]] by simp
  moreover have "strlen [0 :: u8] = Some 0" by (simp add: strlen_def)
  moreover have "Encode (MD5Transform ?iv (0x80 # replicate 63 0)) 16
      = [0xe4, 0xc2, 0x37, 0x62, 0xed, 0x28, 0x23, 0xa2, 0x7e, 0x62, 0xa6, 0x4b, 0x95, 0xc0, 0x24, 0xe7]"
    unfolding transform_empty64 Encode_def by (simp add: upt4)
  ultimately show "MDString c [0] = Some [0xe4, 0xc2, 0x37, 0x62, 0xed, 0x28, 0x23, 0xa2, 0x7e, 0x62, 0xa6, 0x4b, 0x95, 0xc0, 0x24, 0xe7]"
    by (simp add: MDString_def up)
qed (rule md5_digest_empty)

theorem md5c_lp64_witness:
  "MDString (\<lparr>md_state = [], md_count = [], md_buffer = replicate 64 0\<rparr> :: 64 word MD5_CTX) [0]
     = Some [0xe4, 0xc2, 0x37, 0x62, 0xed, 0x28, 0x23, 0xa2, 0x7e, 0x62, 0xa6, 0x4b, 0x95, 0xc0, 0x24, 0xe7]"
  using md5c_lp64[of "\<lparr>md_state = [], md_count = [], md_buffer = replicate 64 0\<rparr>"] by simp

end
