(* ===== verification/Md5_Agree.thy ===== *)
theory Md5_Agree
  imports Md5_Correct
begin

text \<open>
  The second MD5 implementation, \<open>md5.c\<close>: the contract of a streaming hash for \<open>md5_append\<close>, and the
  agreement of the two implementations.
\<close>

subsection \<open>The second implementation\<close>

definition pms_offset :: "md5_state \<Rightarrow> nat" where
  "pms_offset pms = unat (and (drop_bit 3 (pms_count pms ! 0)) 63)"

definition pms_held :: "md5_state \<Rightarrow> u8 list" where
  "pms_held pms = take (pms_offset pms) (pms_buf pms)"

definition pms_counted :: "md5_state \<Rightarrow> nat \<Rightarrow> bool" where
  "pms_counted pms n \<longleftrightarrow> length (pms_buf pms) = 64 \<and>
     pms_count pms = [of_nat (8 * n), of_nat (8 * n div 2 ^ 32)]"

lemma pms_counted_offset: "pms_counted pms n \<Longrightarrow> pms_offset pms = n mod 64"
proof -
  assume c: "pms_counted pms n"
  have "unat (and (drop_bit 3 (of_nat (8 * n) :: u32)) 63) < 64" by (simp only: and_63)
  then have "unat (and (drop_bit 3 (of_nat (8 * n) :: u32)) 63)
      = unat (ucast (and (drop_bit 3 (of_nat (8 * n) :: u32)) 63) :: u32)" by simp
  also have "\<dots> = n mod 64" by (rule index_of_bits) simp
  finally show ?thesis using c by (simp only: pms_offset_def pms_counted_def nth_Cons_0)
qed

lemma md5_full_absorb:
  "p + left = length bs \<Longrightarrow>
    md5_full (bs @ junk) p left st = Some (absorb md5_process st (drop p bs), length bs - left mod 64, left mod 64)"
  by (rule full_blocks, rule md5_full.simps)

lemma md5_append_blocks_absorb:
  assumes "p + left = length bs" "length (pms_buf pms) = 64"
  obtains buf where "\<And>junk. md5_append_blocks pms (bs @ junk) p left
      = Some (pms\<lparr>abcd := absorb md5_process (abcd pms) (drop p bs), pms_buf := buf\<rparr>)"
    "length buf = 64" "take (left mod 64) buf = rest (drop p bs)"
proof (cases "left mod 64 = 0")
  case True
  then have "md5_append_blocks pms (bs @ junk) p left
      = Some (pms\<lparr>abcd := absorb md5_process (abcd pms) (drop p bs), pms_buf := pms_buf pms\<rparr>)" for junk
    by (simp add: md5_append_blocks_def md5_full_absorb[OF assms(1)])
  moreover have "length (drop p bs) = left" using assms(1) by simp
  ultimately show thesis using that[of "pms_buf pms"] assms(2) True by simp
next
  case False
  let ?q = "length bs - left mod 64"
  let ?t = "drop ?q bs"
  have le: "left mod 64 \<le> left" by simp
  then have q: "?q + left mod 64 = length bs" using assms(1) by linarith
  have lt: "length ?t = left mod 64" using q by simp
  have sl: "slice (bs @ junk) ?q (left mod 64) = Some ?t" for junk
    using q by (simp add: slice_def)
  have "length ?t \<le> 64" by (simp add: lt)
  then have mc: "memcpy (pms_buf pms) 0 ?t = Some (overlay (pms_buf pms) 0 ?t)" using assms(2) by simp
  have run: "md5_append_blocks pms (bs @ junk) p left
      = Some (pms\<lparr>abcd := absorb md5_process (abcd pms) (drop p bs), pms_buf := overlay (pms_buf pms) 0 ?t\<rparr>)" for junk
    by (simp only: md5_append_blocks_def md5_full_absorb[OF assms(1)] Option.bind.bind_lunit prod.case
        if_P[OF False] sl mc)
  have "length (drop p bs) = left" using assms(1) by simp
  moreover have "left - left mod 64 + p = ?q" using assms(1) le by linarith
  ultimately have r: "rest (drop p bs) = ?t" by (simp only: rest_def drop_drop)
  show thesis
    by (rule that[OF run]) (use \<open>length ?t \<le> 64\<close> assms(2) lt r in \<open>simp_all add: overlay_def\<close>)
qed

lemma pms_count_step:
  assumes "len < 2 ^ 28"
  shows "(let c1 = of_nat (8 * n div 2 ^ 32) + word_of_int (drop_bit 29 (int len));
      c0 = of_nat (8 * n) + word_of_int (int len * 8)
    in [c0, if c0 < word_of_int (int len * 8) then c1 + 1 else c1 :: u32])
    = [of_nat (8 * (n + len)), of_nat (8 * (n + len) div 2 ^ 32)]"
proof -
  have b: "(word_of_int (int len * 8) :: u32) = of_nat (8 * len)"
    by (metis mult.commute of_int_of_nat_eq of_nat_mult of_nat_numeral)
  have un: "unat (of_nat x :: u32) = x mod 2 ^ 32" for x by (simp add: unsigned_of_nat take_bit_eq_mod)
  have "drop_bit 29 (int len) = 0" using assms by (simp add: drop_bit_eq_div)
  moreover have "(of_nat (8 * n) + of_nat (8 * len) :: u32) = of_nat (8 * (n + len))" by simp
  moreover have "(of_nat (8 * (n + len)) :: u32) < of_nat (8 * len) \<longleftrightarrow> 8 * (n + len) mod 2 ^ 32 < 8 * len mod 2 ^ 32"
    by (simp only: word_less_nat_alt un)
  moreover have "8 * (n + len) div 2 ^ 32 = 8 * n div 2 ^ 32 + (if 8 * (n + len) mod 2 ^ 32 < 8 * len mod 2 ^ 32 then 1 else 0)"
    using carry_div[of "2 ^ 32" "8 * n" "8 * len"] assms by (simp add: distrib_left)
  ultimately show ?thesis unfolding Let_def b by (simp only: of_nat_add of_nat_1 of_nat_0 split: if_split) simp
qed

lemma md5_append_blocks_counted:
  assumes "p \<le> length bs" "length (pms_buf pms) = 64"
    "pms_count pms = [of_nat (8 * n), of_nat (8 * n div 2 ^ 32)]" "n mod 64 = (length bs - p) mod 64"
  shows "\<exists>pms'. (\<forall>junk. md5_append_blocks pms (bs @ junk) p (length bs - p) = Some pms') \<and> pms_counted pms' n \<and>
    abcd pms' = absorb md5_process (abcd pms) (drop p bs) \<and> pms_held pms' = rest (drop p bs)"
proof -
  have fit: "p + (length bs - p) = length bs" using assms(1) by simp
  show ?thesis
  proof (rule md5_append_blocks_absorb[OF fit assms(2)])
    fix buf
    assume run: "\<And>junk. md5_append_blocks pms (bs @ junk) p (length bs - p)
        = Some (pms\<lparr>abcd := absorb md5_process (abcd pms) (drop p bs), pms_buf := buf\<rparr>)"
      and buf: "length buf = 64" "take ((length bs - p) mod 64) buf = rest (drop p bs)"
    let ?new = "pms\<lparr>abcd := absorb md5_process (abcd pms) (drop p bs), pms_buf := buf\<rparr>"
    have cnt: "pms_counted ?new n" using buf assms(3) by (simp add: pms_counted_def)
    have "pms_held ?new = rest (drop p bs)"
      unfolding pms_held_def pms_counted_offset[OF cnt] assms(4) using buf by simp
    with run cnt show ?thesis by auto
  qed
qed

lemma md5_append_step:
  assumes c: "pms_counted pms n" and len: "length bs < 2 ^ 28" "bs \<noteq> []" and r: "r = n mod 64"
  shows "md5_append pms (bs @ junk) (int (length bs)) =
     (let pms = pms\<lparr>pms_count := [of_nat (8 * (n + length bs)), of_nat (8 * (n + length bs) div 2 ^ 32)]\<rparr> in
       if r \<noteq> 0 then do {
         let copy = (if r + length bs > 64 then 64 - r else length bs);
         b \<leftarrow> slice (bs @ junk) 0 copy;
         buf \<leftarrow> memcpy (pms_buf pms) r b;
         let pms = pms\<lparr>pms_buf := buf\<rparr>;
         if r + copy < 64 then Some pms
         else md5_append_blocks (pms\<lparr>abcd := md5_process (abcd pms) buf\<rparr>) (bs @ junk) copy (length bs - copy)
       } else md5_append_blocks pms (bs @ junk) 0 (length bs))"
proof -
  have ci: "c_int (int (length bs) * 8) = Some (int (length bs) * 8)"
    using len by (simp add: c_int_def INT_MAX_def)
  have pos: "\<not> int (length bs) \<le> 0" using len(2) by simp
  have count: "pms_count pms ! 0 = of_nat (8 * n)" "pms_count pms ! 1 = of_nat (8 * n div 2 ^ 32)"
    using c by (simp_all add: pms_counted_def)
  have off: "pms_offset pms = r" using c by (simp add: pms_counted_offset r)
  show ?thesis
    unfolding md5_append_def Let_def ci count
    by (simp only: option.map Option.bind.bind_lunit if_not_P[OF pos] nat_int
        pms_count_step[OF len(1), of n, unfolded Let_def] off[unfolded pms_offset_def count])
qed

lemma md5_append_law:
  assumes c: "pms_counted pms n" and len: "length bs < 2 ^ 28"
  shows "\<exists>pms'. (\<forall>junk. md5_append pms (bs @ junk) (int (length bs)) = Some pms') \<and> pms_counted pms' (n + length bs) \<and>
    abcd pms' = absorb md5_process (abcd pms) (pms_held pms @ bs) \<and> pms_held pms' = rest (pms_held pms @ bs)"
proof (cases "bs = []")
  case True
  then show ?thesis using c by (auto simp: md5_append_def c_int_def INT_MAX_def pms_held_def pms_counted_offset)
next
  case False
  define r where "r = n mod 64"
  have r: "r < 64" by (simp add: r_def)
  have buf: "length (pms_buf pms) = 64" using c by (simp add: pms_counted_def)
  have held: "pms_held pms = take r (pms_buf pms)" using c by (simp add: pms_held_def pms_counted_offset r_def)
  have lh: "length (pms_held pms) = r" using r buf by (simp add: held)
  note step = md5_append_step[OF c len False r_def]
  have total: "(n + length bs) mod 64 = (r + length bs) mod 64" unfolding r_def by (simp add: mod_add_left_eq)
  let ?cnt = "[of_nat (8 * (n + length bs)), of_nat (8 * (n + length bs) div 2 ^ 32)] :: u32 list"
  let ?pms = "pms\<lparr>pms_count := ?cnt\<rparr>"
  consider "r = 0" | "r \<noteq> 0" "64 \<le> r + length bs" | "r \<noteq> 0" "r + length bs < 64" by linarith
  then show ?thesis
  proof cases
    case 1
    have "(n + length bs) mod 64 = (length bs - 0) mod 64" using total 1 by simp
    from md5_append_blocks_counted[of 0 bs ?pms, OF _ _ _ this] show ?thesis
      using buf 1 held unfolding step by simp
  next
    case 2
    let ?buf = "overlay (pms_buf pms) r (take (64 - r) bs)"
    let ?pms1 = "?pms\<lparr>pms_buf := ?buf\<rparr>\<lparr>abcd := md5_process (abcd pms) ?buf\<rparr>"
    have cp: "(if r + length bs > 64 then 64 - r else length bs) = 64 - r" "\<not> r + (64 - r) < 64" using 2 by auto
    have s: "slice (bs @ junk) 0 (64 - r) = Some (take (64 - r) bs)" for junk using 2 by simp
    have m: "memcpy (pms_buf pms) r (take (64 - r) bs) = Some ?buf" using buf r 2 by simp
    have fields: "pms_buf ?pms = pms_buf pms" "abcd (?pms\<lparr>pms_buf := b\<rparr>) = abcd pms" for b by simp_all
    have run: "md5_append pms (bs @ junk) (int (length bs)) = md5_append_blocks ?pms1 (bs @ junk) (64 - r) (length bs - (64 - r))" for junk
      unfolding step Let_def cp(1) s
      by (simp only: 2 not_False_eq_True if_True Option.bind.bind_lunit m cp(2) if_False fields)
    have "(n + length bs) mod 64 = (length bs - (64 - r)) mod 64" using total 2 r le_mod_geq[of 64 "r + length bs"]
      by (simp add: algebra_simps)
    note blocks = md5_append_blocks_counted[of "64 - r" bs ?pms1, OF _ _ _ this]
    have b: "?buf = pms_held pms @ take (64 - r) bs" using 2 buf r by (simp add: overlay_def held)
    have h: "rest (pms_held pms @ bs) = rest (drop (64 - r) bs)" using 2 r lh by (simp add: rest_held)
    have a: "absorb md5_process (abcd pms) (pms_held pms @ bs)
        = absorb md5_process (md5_process (abcd pms) ?buf) (drop (64 - r) bs)"
      unfolding b using 2 r lh by (simp add: absorb_held)
    show ?thesis unfolding run h a using blocks buf 2 r by simp
  next
    case 3
    let ?new = "?pms\<lparr>pms_buf := overlay (pms_buf pms) r bs\<rparr>"
    have run: "md5_append pms (bs @ junk) (int (length bs)) = Some ?new" for junk
      unfolding step Let_def using 3 buf by simp
    have cnt: "pms_counted ?new (n + length bs)" using buf 3 by (simp add: pms_counted_def)
    have "pms_held ?new = pms_held pms @ bs"
      unfolding pms_held_def[of ?new] pms_counted_offset[OF cnt] total held using 3 buf by (simp add: overlay_def)
    then show ?thesis using run cnt 3 lh by auto
  qed
qed

lemma md5_append_ok:
  assumes "pms_counted pms n" "length bs < 2 ^ 28"
  shows "\<exists>pms'. md5_append pms bs (int (length bs)) = Some pms' \<and> pms_counted pms' (n + length bs) \<and>
    abcd pms' = absorb md5_process (abcd pms) (pms_held pms @ bs) \<and> pms_held pms' = rest (pms_held pms @ bs)"
  using md5_append_law[OF assms] by (metis append_Nil2)

lemma md5_append_junk:
  assumes "pms_counted pms n" "length bs < 2 ^ 28"
  shows "md5_append pms (bs @ junk) (int (length bs)) = md5_append pms bs (int (length bs))"
  using md5_append_law[OF assms] by (metis append_Nil2)

interpretation pms: streaming_hash md5_process "\<lambda>c bs. md5_append c bs (int (length bs))"
  abcd pms_held pms_counted "2 ^ 28"
  by unfold_locales (simp_all add: md5_append_ok)

lemma md5_init_holds: "length (pms_buf c) = 64 \<Longrightarrow> pms.holds rfc_iv (md5_init c) []"
proof (rule pms.holds_empty)
  assume "length (pms_buf c) = 64"
  then show c: "pms_counted (md5_init c) 0" by (simp add: pms_counted_def md5_init_def)
  show "pms_held (md5_init c) = []" by (simp add: pms_held_def pms_counted_offset[OF c])
  show "abcd (md5_init c) = rfc_iv" by (simp add: md5_init_def T_MASK_def rfc_iv_words)
qed

lemma pms_pad_len:
  assumes "pms_counted pms n"
  shows "uint (and (55 - drop_bit 3 (pms_count pms ! 0)) 63 + 1) = int (Suc (pad_zeros n))"
proof -
  let ?w = "drop_bit 3 (pms_count pms ! 0)" and ?x = "and (55 - drop_bit 3 (pms_count pms ! 0)) 63"
  have "unat ?w mod 64 = n mod 64"
    using pms_counted_offset[OF assms] by (simp only: pms_offset_def and_63)
  then have w: "uint ?w mod 64 = int (n mod 64)" by (metis of_nat_mod of_nat_numeral uint_nat)
  have "uint ?x = int (unat (55 - ?w) mod 64)" by (simp only: uint_nat and_63)
  also have "\<dots> = uint (55 - ?w) mod 64" by (simp add: zmod_int)
  also have "\<dots> = (55 - uint ?w) mod 2 ^ 32 mod 64" by (simp add: uint_word_ariths)
  also have "\<dots> = (55 - uint ?w) mod 64" by (simp add: mod_mod_cancel)
  also have "\<dots> = (55 - int (n mod 64)) mod 64" by (simp only: w[symmetric] mod_diff_right_eq)
  also have "\<dots> = (55 - int (n mod 64) + 64) mod 64" by (simp only: mod_add_self2)
  also have "55 - int (n mod 64) + 64 = int (119 - n mod 64)" by (simp add: of_nat_diff)
  also have "int (119 - n mod 64) mod 64 = int (pad_zeros n)" by (simp add: pad_zeros_def zmod_int)
  finally have x: "uint ?x = int (pad_zeros n)" .
  moreover have "pad_zeros n < 64" by (simp add: pad_zeros_def)
  ultimately have "uint ?x + 1 < 2 ^ 32" by simp
  then show ?thesis using x by (simp add: uint_word_ariths)
qed

lemma bytes_le:
  "length w = k \<Longrightarrow> map (\<lambda>i. ucast (drop_bit (8 * (i mod 4)) (w ! (i div 4) :: u32))) [0..<4 * k] = le_bytes w"
proof (induction w arbitrary: k rule: rev_induct)
  case (snoc x w)
  obtain j where k: "k = Suc j" "length w = j" using snoc.prems by auto
  have split: "[0..<4 * k] = [0..<4 * j] @ [4 * j, 4 * j + 1, 4 * j + 2, 4 * j + 3]"
    by (simp add: k numeral_eq_Suc)
  have front: "map (\<lambda>i. ucast (drop_bit (8 * (i mod 4)) ((w @ [x]) ! (i div 4)))) [0..<4 * j] = le_bytes w"
    unfolding snoc.IH[OF k(2), symmetric] by (rule map_cong) (auto simp: nth_append k(2))
  have "(4 * j + c) div 4 = j \<and> (4 * j + c) mod 4 = c" if "c < 4" for c using that by simp
  from this[of 1] this[of 2] this[of 3]
  have "map (\<lambda>i. ucast (drop_bit (8 * (i mod 4)) ((w @ [x]) ! (i div 4)))) [4 * j, 4 * j + 1, 4 * j + 2, 4 * j + 3]
      = [ucast x, ucast (drop_bit 8 x), ucast (drop_bit 16 x), ucast (drop_bit 24 x) :: u8]"
    using k(2)[symmetric] by (simp add: nth_append)
  also have "\<dots> = le_num 4 (unat x)"
    by (simp only: le_num4 ucast_byte of_nat_unat)
  finally show ?case unfolding split map_append front by (simp add: le_bytes_def)
qed (simp add: le_bytes_def)

lemma le_bytes_count: "le_bytes [of_nat n, of_nat (n div 2 ^ 32)] = le_num 8 n"
proof -
  have "le_bytes [of_nat n, of_nat (n div 2 ^ 32)] = le_num 4 n @ le_num 4 (n div 2 ^ 32)"
    using le_num_mod[of n] le_num_mod[of "n div 2 ^ 32"]
    by (simp add: le_bytes_def unsigned_of_nat take_bit_eq_mod)
  then show ?thesis using le_num_split[of 4 4 n] by simp
qed

lemma md5_finish_digest:
  assumes h: "pms.holds rfc_iv c m"
  shows "\<exists>c'. md5_finish c = Some (md5_digest m, c')"
proof -
  have cnt: "pms_counted c (length m)" using h by (simp add: pms.holds_def)
  have "pms_count c = [of_nat (8 * length m), of_nat (8 * length m div 2 ^ 32)]"
    using cnt by (simp add: pms_counted_def)
  moreover from this bytes_le[of "pms_count c" 2]
  have bits: "map (\<lambda>i. ucast (drop_bit (8 * (i mod 4)) (pms_count c ! (i div 4)))) [0..<8] = le_bytes (pms_count c)"
    by simp
  ultimately have bits: "map (\<lambda>i. ucast (drop_bit (8 * (i mod 4)) (pms_count c ! (i div 4)))) [0..<8] = le_num 8 (8 * length m)"
    by (simp only: le_bytes_count)
  let ?k = "Suc (pad_zeros (length m))" and ?len = "le_num 8 (8 * length m)"
  have k: "?k \<le> 64" by (simp add: pad_zeros_def Suc_le_eq)
  have l8: "length ?len = 8" by (simp add: le_num_def)
  obtain c1 c2 where c1: "md5_append c (take ?k padding) (int (length (take ?k padding))) = Some c1"
    and c2: "md5_append c1 ?len (int (length ?len)) = Some c2"
    and st: "abcd c2 = absorb md5_process rfc_iv (md_pad ?len m)"
    using pms.holds_pad[OF h l8] .
  have lk: "length (take ?k padding) = ?k" using k by (simp add: padding_def)
  have "length (take ?k padding) < 2 ^ 28" using k lk by simp
  from md5_append_junk[OF cnt this, of "drop ?k padding"] c1 have p: "md5_append c PADDING (int ?k) = Some c1"
    by (simp only: lk append_take_drop_id PADDING_padding)
  have c2': "md5_append c1 ?len 8 = Some c2" using c2 by (simp add: l8)
  have st': "abcd c2 = absorb rfc_compress rfc_iv (md_pad ?len m)"
    unfolding st by (rule absorb_cong) (rule md5_process_rfc)
  then have "length (abcd c2) = 4" by (simp add: length_absorb_rfc rfc_iv_def)
  from bytes_le[OF this] have d: "map (\<lambda>i. ucast (drop_bit (8 * (i mod 4)) (abcd c2 ! (i div 4)))) [0..<16] = md5_digest m"
    by (simp add: md5_digest_def st')
  show ?thesis
    unfolding md5_finish_def Let_def bits pms_pad_len[OF cnt] p Option.bind.bind_lunit c2' d by blast
qed

lemma pms_pieces:
  assumes "length (pms_buf c) = 64" "\<forall>bs\<in>set pieces. length bs < 2 ^ 28"
  shows "map_option fst (foldM (\<lambda>c bs. md5_append c bs (int (length bs))) (md5_init c) pieces \<bind> md5_finish)
    = Some (md5_digest (concat pieces))"
  using pms.holds_updates[OF md5_init_holds[OF assms(1)] assms(2)] md5_finish_digest by fastforce

text \<open>
  C21: the two MD5 implementations agree: for a message in any number of pieces below \<open>2 ^ 28\<close> bytes, the
  second implementation (\<open>md5.c\<close>) returns the digest of RFC 1321, which is what the first one (\<open>md5c.c\<close>)
  returns with 32-bit words, also when the message is cut in another way. From \<open>2 ^ 28\<close> bytes on, an
  append overflows the \<open>int\<close> expression \<open>nbytes << 3\<close>.
\<close>

theorem md5_implementations_agree:
  fixes c :: "u32 MD5_CTX"
  assumes "length (pms_buf pms) = 64" "\<forall>bs\<in>set pieces. length bs < 2 ^ 28"
    "length (md_buffer c) = 64" "\<forall>bs\<in>set pieces'. length bs < 2 ^ 32 - 64" "concat pieces' = concat pieces"
    "2 ^ 28 \<le> len"
  shows "map_option fst (foldM (\<lambda>c bs. md5_append c bs (int (length bs))) (md5_init pms) pieces \<bind> md5_finish)
      = Some (md5_digest (concat pieces))
    \<and> map_option fst (foldM (\<lambda>c bs. MD5Update c bs (of_nat (length bs))) (MD5Init c) pieces' \<bind> MD5Final)
      = Some (md5_digest (concat pieces))
    \<and> md5_append pms data len = None"
proof (intro conjI)
  show "map_option fst (foldM (\<lambda>c bs. md5_append c bs (int (length bs))) (md5_init pms) pieces \<bind> md5_finish)
      = Some (md5_digest (concat pieces))"
    by (rule pms_pieces[OF assms(1,2)])
  show "map_option fst (foldM (\<lambda>c bs. MD5Update c bs (of_nat (length bs))) (MD5Init c) pieces' \<bind> MD5Final)
      = Some (md5_digest (concat pieces))"
    using md5c_pieces[OF assms(3,4)] assms(5) by auto
  show "md5_append pms data len = None"
    using assms(6) by (simp add: md5_append_def c_int_def INT_MAX_def)
qed

theorem md5_implementations_agree_witness:
  "map_option fst (foldM (\<lambda>c bs. md5_append c bs (int (length bs)))
     (md5_init \<lparr>pms_count = [], abcd = [], pms_buf = replicate 64 9\<rparr>) [[97], [98, 99]] \<bind> md5_finish)
   = Some [0x90, 0x01, 0x50, 0x98, 0x3c, 0xd2, 0x4f, 0xb0, 0xd6, 0x96, 0x3f, 0x7d, 0x28, 0xe1, 0x7f, 0x72]"
  using md5_implementations_agree[where pms = "\<lparr>pms_count = [], abcd = [], pms_buf = replicate 64 9\<rparr>"
      and pieces = "[[97], [98, 99]]" and c = "\<lparr>md_state = [], md_count = [], md_buffer = replicate 64 7\<rparr>"
      and pieces' = "[[97, 98], [99]]" and len = "2 ^ 28" and data = "[]"]
  by (simp only: concat.simps append.simps md5_digest_abc) simp

end
