(* ===== verification/Sha2.thy ===== *)
theory Sha2
  imports Block_Hash
begin

text \<open>
  \<open>Crypto/SHA256/sha2.c\<close>: SHA-224, SHA-256 and their HMAC. The code keeps 32-bit quantities in
  \<open>unsigned long\<close>, whose width depends on the platform, so the operations are polymorphic in the width
  \<open>'w\<close>. The variables \<open>A\<close> to \<open>H\<close> of \<open>sha2_process\<close> are a list of eight words, and a line of its rounds is
  an entry of a table: the positions of the eight arguments of the macro \<open>P\<close>, the word of the schedule
  that it reads (\<open>W_at\<close>) or computes (\<open>R_at\<close>), and the constant. A file is the list of the pieces that
  the calls of \<open>fread\<close> return with the result of \<open>ferror\<close>, or \<open>None\<close> when it cannot be opened.
\<close>

subsection \<open>The context\<close>

record 'ulong sha2_context =
  sha_total :: "'ulong list"
  sha_state :: "'ulong list"
  sha_buffer :: "u8 list"
  sha_ipad :: "u8 list"
  sha_opad :: "u8 list"
  is224 :: int

subsection \<open>The macros\<close>

definition GET_ULONG_BE :: "u8 list \<Rightarrow> nat \<Rightarrow> 'w::len word" where
  "GET_ULONG_BE b i = or (or (or (push_bit 24 (ucast (b ! i))) (push_bit 16 (ucast (b ! (i + 1)))))
     (push_bit 8 (ucast (b ! (i + 2))))) (ucast (b ! (i + 3)))"

definition PUT_ULONG_BE :: "'w::len word \<Rightarrow> u8 list" where
  "PUT_ULONG_BE n = [ucast (drop_bit 24 n), ucast (drop_bit 16 n), ucast (drop_bit 8 n), ucast n]"

definition SHR :: "'w::len word \<Rightarrow> nat \<Rightarrow> 'w word" where
  "SHR x n = drop_bit n (and x 0xFFFFFFFF)"

definition ROTR :: "'w::len word \<Rightarrow> nat \<Rightarrow> 'w word" where
  "ROTR x n = or (SHR x n) (push_bit (32 - n) x)"

definition SHA_S0 :: "'w::len word \<Rightarrow> 'w word" where
  "SHA_S0 x = xor (xor (ROTR x 7) (ROTR x 18)) (SHR x 3)"

definition SHA_S1 :: "'w::len word \<Rightarrow> 'w word" where
  "SHA_S1 x = xor (xor (ROTR x 17) (ROTR x 19)) (SHR x 10)"

definition SHA_S2 :: "'w::len word \<Rightarrow> 'w word" where
  "SHA_S2 x = xor (xor (ROTR x 2) (ROTR x 13)) (ROTR x 22)"

definition SHA_S3 :: "'w::len word \<Rightarrow> 'w word" where
  "SHA_S3 x = xor (xor (ROTR x 6) (ROTR x 11)) (ROTR x 25)"

definition SHA_F0 :: "'w::len word \<Rightarrow> 'w word \<Rightarrow> 'w word \<Rightarrow> 'w word" where
  "SHA_F0 x y z = or (and x y) (and z (or x y))"

definition SHA_F1 :: "'w::len word \<Rightarrow> 'w word \<Rightarrow> 'w word \<Rightarrow> 'w word" where
  "SHA_F1 x y z = xor z (and x (xor y z))"

definition SHA_R :: "'w::len word list \<Rightarrow> nat \<Rightarrow> 'w word" where
  "SHA_R W t = SHA_S1 (W ! (t - 2)) + W ! (t - 7) + SHA_S0 (W ! (t - 15)) + W ! (t - 16)"

text \<open>The macro \<open>P\<close> on the variables at the positions \<open>p\<close>.\<close>

definition SHA_P :: "'w::len word list \<Rightarrow> nat list \<Rightarrow> 'w word \<Rightarrow> 'w word \<Rightarrow> 'w word list" where
  "SHA_P v p x K = (let
     temp1 = v ! (p ! 7) + SHA_S3 (v ! (p ! 4)) + SHA_F1 (v ! (p ! 4)) (v ! (p ! 5)) (v ! (p ! 6)) + K + x;
     temp2 = SHA_S2 (v ! (p ! 0)) + SHA_F0 (v ! (p ! 0)) (v ! (p ! 1)) (v ! (p ! 2))
   in v[p ! 3 := v ! (p ! 3) + temp1, p ! 7 := temp1 + temp2])"

subsection \<open>The block transformation\<close>

datatype sha2_x = W_at nat | R_at nat

definition sha2_lines :: "(nat list \<times> sha2_x \<times> 'w::len word) list" where
  "sha2_lines = [
    ([0,1,2,3,4,5,6,7], W_at 0, 0x428A2F98),
    ([7,0,1,2,3,4,5,6], W_at 1, 0x71374491),
    ([6,7,0,1,2,3,4,5], W_at 2, 0xB5C0FBCF),
    ([5,6,7,0,1,2,3,4], W_at 3, 0xE9B5DBA5),
    ([4,5,6,7,0,1,2,3], W_at 4, 0x3956C25B),
    ([3,4,5,6,7,0,1,2], W_at 5, 0x59F111F1),
    ([2,3,4,5,6,7,0,1], W_at 6, 0x923F82A4),
    ([1,2,3,4,5,6,7,0], W_at 7, 0xAB1C5ED5),
    ([0,1,2,3,4,5,6,7], W_at 8, 0xD807AA98),
    ([7,0,1,2,3,4,5,6], W_at 9, 0x12835B01),
    ([6,7,0,1,2,3,4,5], W_at 10, 0x243185BE),
    ([5,6,7,0,1,2,3,4], W_at 11, 0x550C7DC3),
    ([4,5,6,7,0,1,2,3], W_at 12, 0x72BE5D74),
    ([3,4,5,6,7,0,1,2], W_at 13, 0x80DEB1FE),
    ([2,3,4,5,6,7,0,1], W_at 14, 0x9BDC06A7),
    ([1,2,3,4,5,6,7,0], W_at 15, 0xC19BF174),
    ([0,1,2,3,4,5,6,7], R_at 16, 0xE49B69C1),
    ([7,0,1,2,3,4,5,6], R_at 17, 0xEFBE4786),
    ([6,7,0,1,2,3,4,5], R_at 18, 0x0FC19DC6),
    ([5,6,7,0,1,2,3,4], R_at 19, 0x240CA1CC),
    ([4,5,6,7,0,1,2,3], R_at 20, 0x2DE92C6F),
    ([3,4,5,6,7,0,1,2], R_at 21, 0x4A7484AA),
    ([2,3,4,5,6,7,0,1], R_at 22, 0x5CB0A9DC),
    ([1,2,3,4,5,6,7,0], R_at 23, 0x76F988DA),
    ([0,1,2,3,4,5,6,7], R_at 24, 0x983E5152),
    ([7,0,1,2,3,4,5,6], R_at 25, 0xA831C66D),
    ([6,7,0,1,2,3,4,5], R_at 26, 0xB00327C8),
    ([5,6,7,0,1,2,3,4], R_at 27, 0xBF597FC7),
    ([4,5,6,7,0,1,2,3], R_at 28, 0xC6E00BF3),
    ([3,4,5,6,7,0,1,2], R_at 29, 0xD5A79147),
    ([2,3,4,5,6,7,0,1], R_at 30, 0x06CA6351),
    ([1,2,3,4,5,6,7,0], R_at 31, 0x14292967),
    ([0,1,2,3,4,5,6,7], R_at 32, 0x27B70A85),
    ([7,0,1,2,3,4,5,6], R_at 33, 0x2E1B2138),
    ([6,7,0,1,2,3,4,5], R_at 34, 0x4D2C6DFC),
    ([5,6,7,0,1,2,3,4], R_at 35, 0x53380D13),
    ([4,5,6,7,0,1,2,3], R_at 36, 0x650A7354),
    ([3,4,5,6,7,0,1,2], R_at 37, 0x766A0ABB),
    ([2,3,4,5,6,7,0,1], R_at 38, 0x81C2C92E),
    ([1,2,3,4,5,6,7,0], R_at 39, 0x92722C85),
    ([0,1,2,3,4,5,6,7], R_at 40, 0xA2BFE8A1),
    ([7,0,1,2,3,4,5,6], R_at 41, 0xA81A664B),
    ([6,7,0,1,2,3,4,5], R_at 42, 0xC24B8B70),
    ([5,6,7,0,1,2,3,4], R_at 43, 0xC76C51A3),
    ([4,5,6,7,0,1,2,3], R_at 44, 0xD192E819),
    ([3,4,5,6,7,0,1,2], R_at 45, 0xD6990624),
    ([2,3,4,5,6,7,0,1], R_at 46, 0xF40E3585),
    ([1,2,3,4,5,6,7,0], R_at 47, 0x106AA070),
    ([0,1,2,3,4,5,6,7], R_at 48, 0x19A4C116),
    ([7,0,1,2,3,4,5,6], R_at 49, 0x1E376C08),
    ([6,7,0,1,2,3,4,5], R_at 50, 0x2748774C),
    ([5,6,7,0,1,2,3,4], R_at 51, 0x34B0BCB5),
    ([4,5,6,7,0,1,2,3], R_at 52, 0x391C0CB3),
    ([3,4,5,6,7,0,1,2], R_at 53, 0x4ED8AA4A),
    ([2,3,4,5,6,7,0,1], R_at 54, 0x5B9CCA4F),
    ([1,2,3,4,5,6,7,0], R_at 55, 0x682E6FF3),
    ([0,1,2,3,4,5,6,7], R_at 56, 0x748F82EE),
    ([7,0,1,2,3,4,5,6], R_at 57, 0x78A5636F),
    ([6,7,0,1,2,3,4,5], R_at 58, 0x84C87814),
    ([5,6,7,0,1,2,3,4], R_at 59, 0x8CC70208),
    ([4,5,6,7,0,1,2,3], R_at 60, 0x90BEFFFA),
    ([3,4,5,6,7,0,1,2], R_at 61, 0xA4506CEB),
    ([2,3,4,5,6,7,0,1], R_at 62, 0xBEF9A3F7),
    ([1,2,3,4,5,6,7,0], R_at 63, 0xC67178F2)]"

fun sha2_line :: "'w::len word list \<times> 'w word list \<Rightarrow> nat list \<times> sha2_x \<times> 'w word \<Rightarrow> 'w word list \<times> 'w word list" where
  "sha2_line (v, W) (p, W_at t, K) = (SHA_P v p (W ! t) K, W)"
| "sha2_line (v, W) (p, R_at t, K) = (SHA_P v p (SHA_R W t) K, W[t := SHA_R W t])"

text \<open>The last 48 words of the schedule are not initialised; they are written before they are read.\<close>

definition sha2_process :: "'w::len word list \<Rightarrow> u8 list \<Rightarrow> 'w word list" where
  "sha2_process st data = (let
     W = map (\<lambda>i. GET_ULONG_BE data (4 * i)) [0..<16] @ replicate 48 0;
     (v, W) = foldl sha2_line (map (\<lambda>i. st ! i) [0..<8], W) sha2_lines
   in map (\<lambda>i. st ! i + v ! i) [0..<8])"

subsection \<open>The hash\<close>

definition sha2_starts :: "'w::len word sha2_context \<Rightarrow> int \<Rightarrow> 'w word sha2_context" where
  "sha2_starts ctx k = ctx\<lparr>sha_total := [0, 0],
     sha_state := (if k = 0
       then [0x6A09E667, 0xBB67AE85, 0x3C6EF372, 0xA54FF53A, 0x510E527F, 0x9B05688C, 0x1F83D9AB, 0x5BE0CD19]
       else [0xC1059ED8, 0x367CD507, 0x3070DD17, 0xF70E5939, 0xFFC00B31, 0x68581511, 0x64F98FA7, 0xBEFA4FA4]),
     is224 := k\<rparr>"

text \<open>The loop over the full blocks from position \<open>p\<close> of the input on.\<close>

function sha2_blocks :: "u8 list \<Rightarrow> nat \<Rightarrow> nat \<Rightarrow> 'w::len word list \<Rightarrow> ('w word list \<times> nat \<times> nat) option" where
  "sha2_blocks input p ilen st = (if 64 \<le> ilen then do {
       b \<leftarrow> slice input p 64;
       sha2_blocks input (p + 64) (ilen - 64) (sha2_process st b)
     } else Some (st, p, ilen))"
  by pat_completeness auto
termination by (relation "measure (\<lambda>(_, _, ilen, _). ilen)") auto

declare sha2_blocks.simps [simp del]

definition sha2_count :: "'w::len word list \<Rightarrow> int \<Rightarrow> 'w word list" where
  "sha2_count tot ilen = (let
     t0 = and (tot ! 0 + word_of_int ilen) 0xFFFFFFFF
   in [t0, if t0 < word_of_int ilen then tot ! 1 + 1 else tot ! 1])"

text \<open>The rest of \<open>sha2_update\<close> behind the pending block: full blocks, and what is left to the buffer.\<close>

definition sha2_update_blocks :: "'w::len word sha2_context \<Rightarrow> u8 list \<Rightarrow> nat \<Rightarrow> nat \<Rightarrow> nat \<Rightarrow> 'w word sha2_context option" where
  "sha2_update_blocks ctx input p ilen left = do {
     (st, p, ilen) \<leftarrow> sha2_blocks input p ilen (sha_state ctx);
     if 0 < ilen then do {
       b \<leftarrow> slice input p ilen;
       buf \<leftarrow> memcpy (sha_buffer ctx) left b;
       Some (ctx\<lparr>sha_state := st, sha_buffer := buf\<rparr>)
     } else Some (ctx\<lparr>sha_state := st\<rparr>)
   }"

definition sha2_update :: "'w::len word sha2_context \<Rightarrow> u8 list \<Rightarrow> int \<Rightarrow> 'w word sha2_context option" where
  "sha2_update ctx input ilen = (if ilen \<le> 0 then Some ctx else (let
     left = unat (and (sha_total ctx ! 0) 0x3F);
     fill = 64 - left;
     ctx = ctx\<lparr>sha_total := sha2_count (sha_total ctx) ilen\<rparr>
   in if left \<noteq> 0 \<and> int fill \<le> ilen then do {
       b \<leftarrow> slice input 0 fill;
       buf \<leftarrow> memcpy (sha_buffer ctx) left b;
       sha2_update_blocks (ctx\<lparr>sha_buffer := buf, sha_state := sha2_process (sha_state ctx) buf\<rparr>)
         input fill (nat ilen - fill) 0
     } else sha2_update_blocks ctx input 0 (nat ilen) left))"

definition sha2_padding :: "u8 list" where
  "sha2_padding = [
    0x80, 0, 0, 0, 0, 0, 0, 0, 0, 0, 0, 0, 0, 0, 0, 0,
    0, 0, 0, 0, 0, 0, 0, 0, 0, 0, 0, 0, 0, 0, 0, 0,
    0, 0, 0, 0, 0, 0, 0, 0, 0, 0, 0, 0, 0, 0, 0, 0,
    0, 0, 0, 0, 0, 0, 0, 0, 0, 0, 0, 0, 0, 0, 0, 0]"

definition sha2_finish :: "'w::len word sha2_context \<Rightarrow> u8 list \<Rightarrow> ('w word sha2_context \<times> u8 list) option" where
  "sha2_finish ctx output = (let
     high = or (drop_bit 29 (sha_total ctx ! 0)) (push_bit 3 (sha_total ctx ! 1));
     low = push_bit 3 (sha_total ctx ! 0);
     msglen = PUT_ULONG_BE high @ PUT_ULONG_BE low;
     lst = and (sha_total ctx ! 0) 0x3F;
     padn = (if lst < 56 then 56 - lst else 120 - lst)
   in do {
     ctx \<leftarrow> sha2_update ctx sha2_padding (uint padn);
     ctx \<leftarrow> sha2_update ctx msglen 8;
     output \<leftarrow> memcpy output 0 (concat (map (\<lambda>i. PUT_ULONG_BE (sha_state ctx ! i)) [0..<7]));
     output \<leftarrow> (if is224 ctx = 0 then memcpy output 28 (PUT_ULONG_BE (sha_state ctx ! 7)) else Some output);
     Some (ctx, output)
   })"

definition sha2 :: "'w::len word sha2_context \<Rightarrow> u8 list \<Rightarrow> int \<Rightarrow> u8 list \<Rightarrow> int \<Rightarrow> u8 list option" where
  "sha2 ctx input ilen output k = do {
     ctx \<leftarrow> sha2_update (sha2_starts ctx k) input ilen;
     (_, output) \<leftarrow> sha2_finish ctx output;
     Some output
   }"

fun sha2_read_file :: "'w::len word sha2_context \<Rightarrow> u8 list list \<Rightarrow> 'w word sha2_context option" where
  "sha2_read_file ctx [] = Some ctx"
| "sha2_read_file ctx (buf # f) = (if buf = [] then Some ctx else do {
     ctx \<leftarrow> sha2_update ctx buf (int (length buf));
     sha2_read_file ctx f
   })"

definition sha2_file :: "'w::len word sha2_context \<Rightarrow> (u8 list list \<times> bool) option \<Rightarrow> u8 list \<Rightarrow> int \<Rightarrow> (int \<times> u8 list) option" where
  "sha2_file ctx path output k = (case path of
     None \<Rightarrow> Some (1, output)
   | Some (f, ferror) \<Rightarrow> do {
       ctx \<leftarrow> sha2_read_file (sha2_starts ctx k) f;
       (_, output) \<leftarrow> sha2_finish ctx output;
       Some (if ferror then 2 else 0, output)
     })"

subsection \<open>HMAC\<close>

text \<open>The key, hashed first when it is longer than a block: the local array \<open>sum\<close> is the other argument.\<close>

definition sha2_hmac_key :: "'w::len word sha2_context \<Rightarrow> u8 list \<Rightarrow> u8 list \<Rightarrow> int \<Rightarrow> int \<Rightarrow> (u8 list \<times> int) option" where
  "sha2_hmac_key local sum32 key keylen k = (if 64 < keylen then do {
     sum32 \<leftarrow> sha2 local key keylen sum32 k;
     Some (sum32, if k \<noteq> 0 then 28 else 32)
   } else Some (key, keylen))"

definition sha2_hmac_pads :: "u8 list \<Rightarrow> int \<Rightarrow> (u8 list \<times> u8 list) option" where
  "sha2_hmac_pads key keylen = for_up 0 (nat keylen) (\<lambda>i (ipad, opad). do {
     k \<leftarrow> rd key i;
     ib \<leftarrow> rd ipad i;
     ob \<leftarrow> rd opad i;
     ipad \<leftarrow> wr ipad i (xor ib k);
     opad \<leftarrow> wr opad i (xor ob k);
     Some (ipad, opad)
   }) (replicate 64 0x36, replicate 64 0x5C)"

definition sha2_hmac_starts ::
  "'w::len word sha2_context \<Rightarrow> u8 list \<Rightarrow> 'w word sha2_context \<Rightarrow> u8 list \<Rightarrow> int \<Rightarrow> int \<Rightarrow> 'w word sha2_context option" where
  "sha2_hmac_starts local sum32 ctx key keylen k = do {
     (key, keylen) \<leftarrow> sha2_hmac_key local sum32 key keylen k;
     (ipad, opad) \<leftarrow> sha2_hmac_pads key keylen;
     let ctx = sha2_starts (ctx\<lparr>sha_ipad := ipad, sha_opad := opad\<rparr>) k;
     sha2_update ctx (sha_ipad ctx) 64
   }"

definition sha2_hmac_update :: "'w::len word sha2_context \<Rightarrow> u8 list \<Rightarrow> int \<Rightarrow> 'w word sha2_context option" where
  "sha2_hmac_update ctx input ilen = sha2_update ctx input ilen"

definition sha2_hmac_finish :: "u8 list \<Rightarrow> 'w::len word sha2_context \<Rightarrow> u8 list \<Rightarrow> ('w word sha2_context \<times> u8 list) option" where
  "sha2_hmac_finish tmpbuf ctx output = (let
     k = is224 ctx;
     hlen = (if k = 0 then 32 else 28)
   in do {
     (ctx, tmpbuf) \<leftarrow> sha2_finish ctx tmpbuf;
     let ctx = sha2_starts ctx k;
     ctx \<leftarrow> sha2_update ctx (sha_opad ctx) 64;
     ctx \<leftarrow> sha2_update ctx tmpbuf hlen;
     sha2_finish ctx output
   })"

definition sha2_hmac_reset :: "'w::len word sha2_context \<Rightarrow> 'w word sha2_context option" where
  "sha2_hmac_reset ctx = (let ctx = sha2_starts ctx (is224 ctx) in sha2_update ctx (sha_ipad ctx) 64)"

definition sha2_hmac ::
  "'w::len word sha2_context \<Rightarrow> u8 list \<Rightarrow> u8 list \<Rightarrow> 'w word sha2_context \<Rightarrow> u8 list \<Rightarrow> int \<Rightarrow> u8 list \<Rightarrow> int \<Rightarrow> u8 list \<Rightarrow> int \<Rightarrow> u8 list option" where
  "sha2_hmac local sum32 tmpbuf ctx key keylen input ilen output k = do {
     ctx \<leftarrow> sha2_hmac_starts local sum32 ctx key keylen k;
     ctx \<leftarrow> sha2_hmac_update ctx input ilen;
     (_, output) \<leftarrow> sha2_hmac_finish tmpbuf ctx output;
     Some output
   }"

end
