(* ===== verification/Sha2_Spec.thy ===== *)
theory Sha2_Spec
  imports Sha2
begin

text \<open>
  FIPS 180 on 32-bit words, and the block transformation of \<open>sha2.c\<close>: the macros act on the low 32 bits
  of an \<open>unsigned long\<close> of any width from 32 on as the functions of the standard, a line with rotated
  variables is a round, and the schedule that the lines build on the way is the message schedule.
\<close>

subsection \<open>FIPS 180\<close>

text \<open>
  The secure hash algorithms of FIPS 180-4 on 32-bit words. The constants are the first 32 bits of the
  fractional parts of the cube roots of the first 64 primes, and the initial values those of the square
  roots of the first eight primes (SHA-256); SHA-224 has the second 32 bits for the next eight primes.
\<close>

definition fips_K :: "u32 list" where
  "fips_K = [
    1116352408, 1899447441, 3049323471, 3921009573, 961987163, 1508970993, 2453635748, 2870763221,
    3624381080, 310598401, 607225278, 1426881987, 1925078388, 2162078206, 2614888103, 3248222580,
    3835390401, 4022224774, 264347078, 604807628, 770255983, 1249150122, 1555081692, 1996064986,
    2554220882, 2821834349, 2952996808, 3210313671, 3336571891, 3584528711, 113926993, 338241895,
    666307205, 773529912, 1294757372, 1396182291, 1695183700, 1986661051, 2177026350, 2456956037,
    2730485921, 2820302411, 3259730800, 3345764771, 3516065817, 3600352804, 4094571909, 275423344,
    430227734, 506948616, 659060556, 883997877, 958139571, 1322822218, 1537002063, 1747873779,
    1955562222, 2024104815, 2227730452, 2361852424, 2428436474, 2756734187, 3204031479, 3329325298]"

definition fips_iv :: "bool \<Rightarrow> u32 list" where
  "fips_iv sha224 = (if sha224
     then [3238371032, 914150663, 812702999, 4144912697, 4290775857, 1750603025, 1694076839, 3204075428]
     else [1779033703, 3144134277, 1013904242, 2773480762, 1359893119, 2600822924, 528734635, 1541459225])"

definition Ch :: "u32 \<Rightarrow> u32 \<Rightarrow> u32 \<Rightarrow> u32" where
  "Ch x y z = xor (and x y) (and (not x) z)"

definition Maj :: "u32 \<Rightarrow> u32 \<Rightarrow> u32 \<Rightarrow> u32" where
  "Maj x y z = xor (xor (and x y) (and x z)) (and y z)"

definition Sigma0 :: "u32 \<Rightarrow> u32" where
  "Sigma0 x = xor (xor (word_rotr 2 x) (word_rotr 13 x)) (word_rotr 22 x)"

definition Sigma1 :: "u32 \<Rightarrow> u32" where
  "Sigma1 x = xor (xor (word_rotr 6 x) (word_rotr 11 x)) (word_rotr 25 x)"

definition sigma0 :: "u32 \<Rightarrow> u32" where
  "sigma0 x = xor (xor (word_rotr 7 x) (word_rotr 18 x)) (drop_bit 3 x)"

definition sigma1 :: "u32 \<Rightarrow> u32" where
  "sigma1 x = xor (xor (word_rotr 17 x) (word_rotr 19 x)) (drop_bit 10 x)"

text \<open>The message schedule of a block.\<close>

function fips_W :: "u8 list \<Rightarrow> nat \<Rightarrow> u32" where
  "fips_W b t = (if t < 16 then word_rcat (take 4 (drop (4 * t) b))
     else sigma1 (fips_W b (t - 2)) + fips_W b (t - 7) + sigma0 (fips_W b (t - 15)) + fips_W b (t - 16))"
  by pat_completeness auto
termination by (relation "measure snd") auto

declare fips_W.simps [simp del]

type_synonym 'w sha_vars = "'w word \<times> 'w word \<times> 'w word \<times> 'w word \<times> 'w word \<times> 'w word \<times> 'w word \<times> 'w word"

fun fips_round :: "u8 list \<Rightarrow> 32 sha_vars \<Rightarrow> nat \<Rightarrow> 32 sha_vars" where
  "fips_round blk (a, b, c, d, e, f, g, h) t = (let
     T1 = h + Sigma1 e + Ch e f g + fips_K ! t + fips_W blk t;
     T2 = Sigma0 a + Maj a b c
   in (T1 + T2, a, b, c, d + T1, e, f, g))"

fun vars8 :: "'w::len sha_vars \<Rightarrow> 'w word list" where
  "vars8 (a, b, c, d, e, f, g, h) = [a, b, c, d, e, f, g, h]"

definition fips_compress :: "u32 list \<Rightarrow> u8 list \<Rightarrow> u32 list" where
  "fips_compress st b = map2 (+) st (vars8 (foldl (fips_round b)
     (st ! 0, st ! 1, st ! 2, st ! 3, st ! 4, st ! 5, st ! 6, st ! 7) [0..<64]))"

text \<open>Words and lengths have the high-order byte first.\<close>

definition be_num :: "nat \<Rightarrow> nat \<Rightarrow> u8 list" where
  "be_num k n = rev (le_num k n)"

definition be_bytes :: "u32 list \<Rightarrow> u8 list" where
  "be_bytes ws = concat (map (\<lambda>w. be_num 4 (unat w)) ws)"

definition sha_digest :: "bool \<Rightarrow> u8 list \<Rightarrow> u8 list" where
  "sha_digest sha224 m = take (if sha224 then 28 else 32)
     (be_bytes (absorb fips_compress (fips_iv sha224) (md_pad (be_num 8 (8 * length m)) m)))"

subsection \<open>The macros on the low 32 bits\<close>

lemma low_add: "32 \<le> LENGTH('w) \<Longrightarrow> (ucast (x + y :: 'w::len word) :: u32) = ucast x + ucast y"
proof -
  assume "32 \<le> LENGTH('w)"
  then have "(2 :: nat) ^ 32 dvd 2 ^ LENGTH('w)" by (rule le_imp_power_dvd)
  then have "(unat x + unat y) mod 2 ^ LENGTH('w) mod 2 ^ 32 = (unat x + unat y) mod 2 ^ 32"
    by (rule mod_mod_cancel)
  then show ?thesis
    by (simp add: word_unat_eq_iff unsigned_ucast_eq take_bit_eq_mod unat_word_ariths mod_add_eq)
qed

lemma low_bits:
  "(ucast (and x y :: 'w::len word) :: u32) = and (ucast x) (ucast y)"
  "(ucast (or x y :: 'w word) :: u32) = or (ucast x) (ucast y)"
  "(ucast (xor x y :: 'w word) :: u32) = xor (ucast x) (ucast y)"
  by (rule bit_word_eqI; auto simp: bit_simps)+

lemma low_SHR: "32 \<le> LENGTH('w) \<Longrightarrow> (ucast (SHR (x :: 'w::len word) n) :: u32) = drop_bit n (ucast x)"
proof -
  assume w: "32 \<le> LENGTH('w)"
  have "(0xFFFFFFFF :: 'w word) = mask 32" by (simp add: mask_eq_exp_minus_1)
  then have "SHR x n = drop_bit n (take_bit 32 x)" by (simp only: SHR_def take_bit_eq_mask)
  then show ?thesis by (auto intro!: bit_word_eqI simp: bit_simps)
qed

lemma low_ROTR:
  assumes "32 \<le> LENGTH('w)" "0 < n" "n < 32"
  shows "(ucast (ROTR (x :: 'w::len word) n) :: u32) = word_rotr n (ucast x)"
proof -
  have "ucast (ROTR x n) = or (drop_bit n (ucast x)) (ucast (push_bit (32 - n) x) :: u32)"
    by (simp only: ROTR_def low_bits low_SHR[OF assms(1)])
  also have "\<dots> = word_rotr n (ucast x)"
  proof (rule bit_word_eqI)
    fix i assume "i < LENGTH(32)"
    then have i: "i < 32" by simp
    show "bit (or (drop_bit n (ucast x)) (ucast (push_bit (32 - n) x) :: u32)) i = bit (word_rotr n (ucast x :: u32)) i"
    proof (cases "i + n < 32")
      case True
      then have "\<not> 32 - n \<le> i" "(i + n) mod 32 = i + n" by simp_all
      then show ?thesis using True assms i by (simp add: bit_simps add.commute[of n i])
    next
      case False
      then have "32 - n \<le> i" "(i + n) mod 32 = i - (32 - n)" using i assms by (simp_all add: mod_if)
      moreover have "\<not> bit (ucast x :: u32) (n + i)" using False by (auto dest: bit_imp_le_length)
      moreover have "i - (32 - n) < 32" using i by simp
      ultimately show ?thesis using False assms i by (auto simp: bit_simps)
    qed
  qed
  finally show ?thesis .
qed

lemma low_macros:
  assumes "32 \<le> LENGTH('w::len)"
  shows "(ucast (SHA_S0 (x :: 'w word)) :: u32) = sigma0 (ucast x)" "(ucast (SHA_S1 x) :: u32) = sigma1 (ucast x)"
    "(ucast (SHA_S2 x) :: u32) = Sigma0 (ucast x)" "(ucast (SHA_S3 x) :: u32) = Sigma1 (ucast x)"
  by (simp_all add: SHA_S0_def SHA_S1_def SHA_S2_def SHA_S3_def sigma0_def sigma1_def Sigma0_def Sigma1_def
      low_bits low_ROTR[OF assms] low_SHR[OF assms])

lemma low_F:
  "(ucast (SHA_F0 (x :: 'w::len word) y z) :: u32) = Maj (ucast x) (ucast y) (ucast z)"
  "(ucast (SHA_F1 x y z) :: u32) = Ch (ucast x) (ucast y) (ucast z)"
  by (rule bit_word_eqI; auto simp: SHA_F0_def SHA_F1_def Maj_def Ch_def bit_simps)+

subsection \<open>The rounds\<close>

definition pos :: "nat \<Rightarrow> nat list" where
  "pos i = map (\<lambda>j. (j + 8 - i) mod 8) [0..<8]"

fun P_step :: "'w::len sha_vars \<Rightarrow> 'w word \<Rightarrow> 'w word \<Rightarrow> 'w sha_vars" where
  "P_step (a, b, c, d, e, f, g, h) x K = (let
     temp1 = h + SHA_S3 e + SHA_F1 e f g + K + x;
     temp2 = SHA_S2 a + SHA_F0 a b c
   in (temp1 + temp2, a, b, c, d + temp1, e, f, g))"

lemma less8_cases: "i < 8 \<Longrightarrow> i \<in> {0, 1, 2, 3, 4, 5, 6, 7 :: nat}"
  by auto

lemma pos_lists:
  "pos 0 = [0, 1, 2, 3, 4, 5, 6, 7]" "pos 1 = [7, 0, 1, 2, 3, 4, 5, 6]" "pos 2 = [6, 7, 0, 1, 2, 3, 4, 5]"
  "pos 3 = [5, 6, 7, 0, 1, 2, 3, 4]" "pos 4 = [4, 5, 6, 7, 0, 1, 2, 3]" "pos 5 = [3, 4, 5, 6, 7, 0, 1, 2]"
  "pos 6 = [2, 3, 4, 5, 6, 7, 0, 1]" "pos 7 = [1, 2, 3, 4, 5, 6, 7, 0]"
  by code_simp+

lemma rotate8:
  "rotate 0 [a, b, c, d, e, f, g, h] = [a, b, c, d, e, f, g, h]"
  "rotate 1 [a, b, c, d, e, f, g, h] = [b, c, d, e, f, g, h, a]"
  "rotate 2 [a, b, c, d, e, f, g, h] = [c, d, e, f, g, h, a, b]"
  "rotate 3 [a, b, c, d, e, f, g, h] = [d, e, f, g, h, a, b, c]"
  "rotate 4 [a, b, c, d, e, f, g, h] = [e, f, g, h, a, b, c, d]"
  "rotate 5 [a, b, c, d, e, f, g, h] = [f, g, h, a, b, c, d, e]"
  "rotate 6 [a, b, c, d, e, f, g, h] = [g, h, a, b, c, d, e, f]"
  "rotate 7 [a, b, c, d, e, f, g, h] = [h, a, b, c, d, e, f, g]"
  by (simp_all add: numeral_eq_Suc)

lemma SHA_P_step:
  assumes "i < 8"
  shows "SHA_P (rotate i (vars8 v)) (pos i) x K = rotate (Suc i mod 8) (vars8 (P_step v x K))"
proof -
  obtain a b c d e f g h where v: "v = (a, b, c, d, e, f, g, h)" by (rule vars8.cases)
  have mods: "Suc 0 mod 8 = 1" "Suc 1 mod 8 = 2" "Suc 2 mod 8 = 3" "Suc 3 mod 8 = 4"
    "Suc 4 mod 8 = 5" "Suc 5 mod 8 = 6" "Suc 6 mod 8 = 7" "Suc 7 mod 8 = 0" by simp_all
  show ?thesis
    using less8_cases[OF assms] unfolding v vars8.simps P_step.simps Let_def SHA_P_def
    by (elim insertE emptyE; simp only: pos_lists rotate8 mods; simp)
qed

fun low8 :: "'w::len sha_vars \<Rightarrow> 32 sha_vars" where
  "low8 (a, b, c, d, e, f, g, h) = (ucast a, ucast b, ucast c, ucast d, ucast e, ucast f, ucast g, ucast h)"

lemma low_P_step:
  assumes "32 \<le> LENGTH('w::len)" "ucast x = fips_W blk t" "ucast K = fips_K ! t"
  shows "low8 (P_step (v :: 'w sha_vars) x K) = fips_round blk (low8 v) t"
  by (cases v rule: vars8.cases) (simp add: Let_def low_add[OF assms(1)] low_macros[OF assms(1)] low_F assms(2,3))

lemma low_numeral: "32 \<le> LENGTH('w) \<Longrightarrow> (ucast (numeral k :: 'w::len word) :: u32) = numeral k"
  by (rule bit_word_eqI) (auto simp: bit_simps)

lemma sha2_lines_shape:
  "map (\<lambda>(p, x, K). (p, x)) sha2_lines = map (\<lambda>t. (pos (t mod 8), if t < 16 then W_at t else R_at t)) [0..<64]"
proof -
  have "[0..<64] = [0, 1, 2, 3, 4, 5, 6, 7, 8, 9, 10, 11, 12, 13, 14, 15, 16, 17, 18, 19, 20, 21, 22, 23, 24, 25, 26, 27, 28, 29, 30, 31, 32, 33, 34, 35, 36, 37, 38, 39, 40, 41, 42, 43, 44, 45, 46, 47, 48, 49, 50, 51, 52, 53, 54, 55, 56, 57, 58, 59, 60, 61, 62, 63 :: nat]" by code_simp
  then show ?thesis unfolding sha2_lines_def by (simp add: pos_lists del: One_nat_def)
qed

lemma sha2_lines_K:
  assumes "32 \<le> LENGTH('w::len)"
  shows "map (\<lambda>(p, x, K). ucast (K :: 'w::len word)) sha2_lines = fips_K"
  by (simp only: sha2_lines_def fips_K_def list.map prod.case low_numeral[OF assms])

lemma sha2_line_at:
  assumes "32 \<le> LENGTH('w::len)" "t < 64"
  obtains K :: "'w::len word" where "sha2_lines ! t = (pos (t mod 8), if t < 16 then W_at t else R_at t, K)" "ucast K = fips_K ! t"
proof -
  obtain p x K where l: "sha2_lines ! t = (p, x, K :: 'w word)" by (cases "sha2_lines ! t :: _ \<times> _ \<times> 'w word")
  have len: "length (sha2_lines :: (nat list \<times> sha2_x \<times> 'w word) list) = 64" by (simp add: sha2_lines_def)
  have "map (\<lambda>(p, x, K :: 'w word). (p, x)) sha2_lines ! t = (pos (t mod 8), if t < 16 then W_at t else R_at t)"
    unfolding sha2_lines_shape using assms(2) by simp
  moreover have "map (\<lambda>(p, x, K). ucast (K :: 'w word)) sha2_lines ! t = fips_K ! t"
    unfolding sha2_lines_K[OF assms(1)] ..
  ultimately show thesis using that assms(2) l by (simp add: len)
qed

lemma low_SHA_R:
  assumes "32 \<le> LENGTH('w::len)" "16 \<le> t" "\<forall>j<t. ucast (W ! j :: 'w word) = fips_W b j"
  shows "ucast (SHA_R W t) = fips_W b t"
proof -
  have "fips_W b t = sigma1 (fips_W b (t - 2)) + fips_W b (t - 7) + sigma0 (fips_W b (t - 15)) + fips_W b (t - 16)"
    using assms(2) by (subst fips_W.simps) simp
  then show ?thesis using assms(2,3)
    by (simp add: SHA_R_def low_add[OF assms(1)] low_macros[OF assms(1)])
qed

lemma sha2_lines_rounds:
  fixes v :: "'w::len sha_vars"
  assumes wide: "32 \<le> LENGTH('w)" and W: "length W = 64" "\<forall>j<16. ucast (W ! j) = fips_W blk j" and "t \<le> 64"
  shows "\<exists>u W'. foldl sha2_line (vars8 v, W) (take t sha2_lines) = (rotate (t mod 8) (vars8 u), W') \<and>
    low8 u = foldl (fips_round blk) (low8 v) [0..<t] \<and>
    length W' = 64 \<and> (\<forall>j<max 16 t. ucast (W' ! j) = fips_W blk j)"
  using \<open>t \<le> 64\<close>
proof (induction t)
  case 0
  then show ?case using W by (intro exI[of _ v] exI[of _ W]) simp
next
  case (Suc t)
  then obtain u W' where IH: "foldl sha2_line (vars8 v, W) (take t sha2_lines) = (rotate (t mod 8) (vars8 u), W')"
    "low8 u = foldl (fips_round blk) (low8 v) [0..<t]" "length W' = 64" "\<forall>j<max 16 t. ucast (W' ! j) = fips_W blk j"
    by auto
  have len: "length (sha2_lines :: (nat list \<times> sha2_x \<times> 'w word) list) = 64" by (simp add: sha2_lines_def)
  have t: "t < 64" using Suc.prems by simp
  obtain K :: "'w word" where K: "sha2_lines ! t = (pos (t mod 8), if t < 16 then W_at t else R_at t, K)" "ucast K = fips_K ! t"
    using sha2_line_at[OF wide t] .
  define x where "x = (if t < 16 then W' ! t else SHA_R W' t)"
  define W'' where "W'' = (if t < 16 then W' else W'[t := SHA_R W' t])"
  have x: "ucast x = fips_W blk t"
    using IH(4) low_SHA_R[OF wide, of t W' blk] by (cases "t < 16") (auto simp: x_def)
  have line: "sha2_line (rotate (t mod 8) (vars8 u), W') (sha2_lines ! t)
      = (rotate (Suc (t mod 8) mod 8) (vars8 (P_step u x K)), W'')"
    unfolding K(1) x_def W''_def using SHA_P_step[of "t mod 8" u _ K] by simp
  have "foldl sha2_line (vars8 v, W) (take (Suc t) sha2_lines) = (rotate (Suc t mod 8) (vars8 (P_step u x K)), W'')"
    using t line IH(1) by (simp add: take_Suc_conv_app_nth len mod_Suc_eq)
  moreover have "low8 (P_step u x K) = foldl (fips_round blk) (low8 v) [0..<Suc t]"
    using low_P_step[OF wide x K(2), of u] IH(2) by simp
  moreover have "length W'' = 64" using IH(3) by (simp add: W''_def)
  moreover have "\<forall>j<max 16 (Suc t). ucast (W'' ! j) = fips_W blk j"
  proof (intro allI impI)
    fix j assume j: "j < max 16 (Suc t)"
    show "ucast (W'' ! j) = fips_W blk j"
    proof (cases "j = t")
      case True
      then show ?thesis using x IH(3) t by (auto simp: W''_def x_def)
    next
      case False
      then have "j < max 16 t" using j by auto
      then show ?thesis using IH(4) False by (simp add: W''_def)
    qed
  qed
  ultimately show ?case by blast
qed

lemma be_word_bits:
  "word_rcat [a, b, c, d :: u8] = (or (or (or (push_bit 24 (ucast a)) (push_bit 16 (ucast b))) (push_bit 8 (ucast c))) (ucast d) :: u32)"
  by (simp only: le_word_bits or.commute or.left_commute or.assoc)

lemma low_GET:
  assumes "32 \<le> LENGTH('w::len)" "i + 4 \<le> length b"
  shows "(ucast (GET_ULONG_BE b i :: 'w word) :: u32) = word_rcat (take 4 (drop i b))"
proof -
  have "ucast (push_bit n (ucast (x :: u8) :: 'w word)) = (push_bit n (ucast x) :: u32)" for n x
    using assms(1) by (auto intro!: bit_word_eqI simp: bit_simps dest: bit_imp_le_length)
  moreover have "ucast (ucast (x :: u8) :: 'w word) = (ucast x :: u32)" for x
    using assms(1) by (auto intro!: bit_word_eqI simp: bit_simps dest: bit_imp_le_length)
  ultimately show ?thesis
    using assms(2) by (simp add: GET_ULONG_BE_def low_bits take4 be_word_bits)
qed

definition low_state :: "'w::len word list \<Rightarrow> u32 list" where
  "low_state st = map (\<lambda>i. ucast (st ! i)) [0..<8]"

lemma upt8: "[0..<8] = [0, 1, 2, 3, 4, 5, 6, 7 :: nat]"
  by (simp add: upt_rec)

lemma sha2_process_fips:
  assumes wide: "32 \<le> LENGTH('w::len)" and b: "length b = 64"
  shows "low_state (sha2_process (st :: 'w word list) b) = fips_compress (low_state st) b"
proof -
  let ?v = "(st ! 0, st ! 1, st ! 2, st ! 3, st ! 4, st ! 5, st ! 6, st ! 7)"
  let ?W = "map (\<lambda>i. GET_ULONG_BE b (4 * i)) [0..<16] @ replicate 48 0 :: 'w word list"
  have W: "\<forall>j<16. ucast (?W ! j) = fips_W b j"
  proof (intro allI impI)
    fix j :: nat assume "j < 16"
    moreover from this have "fips_W b j = word_rcat (take 4 (drop (4 * j) b))" by (subst fips_W.simps) simp
    ultimately show "ucast (?W ! j) = fips_W b j" using b by (simp add: nth_append low_GET[OF wide])
  qed
  have lines: "take 64 sha2_lines = (sha2_lines :: (nat list \<times> sha2_x \<times> 'w word) list)"
    by (rule take_all) (simp add: sha2_lines_def)
  have "length ?W = 64" by simp
  from sha2_lines_rounds[OF wide this W, of 64 ?v] obtain u W'
    where u: "foldl sha2_line (vars8 ?v, ?W) sha2_lines = (vars8 u, W')"
      "low8 u = foldl (fips_round b) (low8 ?v) [0..<64]"
    unfolding lines by auto
  have vars: "map (\<lambda>i. st ! i) [0..<8] = vars8 ?v" by (simp add: upt8)
  have "sha2_process st b = map (\<lambda>i. st ! i + vars8 u ! i) [0..<8]"
    unfolding sha2_process_def Let_def vars u(1) by simp
  then show ?thesis
    using u(2)[symmetric] by (cases u rule: vars8.cases)
      (simp add: low_state_def fips_compress_def upt8 low_add[OF wide])
qed

lemma absorb_fips:
  "32 \<le> LENGTH('w) \<Longrightarrow> low_state (absorb sha2_process (st :: 'w::len word list) m) = absorb fips_compress (low_state st) m"
  by (rule absorb_hom) (rule sha2_process_fips)

end
