(* ===== verification/Sha2_Correct.thy ===== *)
theory Sha2_Correct
  imports Sha2_Spec
begin

text \<open>
  The digests of \<open>sha2.c\<close>: the contract of a streaming hash for \<open>sha2_update\<close>, the padding and the output
  of \<open>sha2_finish\<close>, the constants, and the HMAC of RFC 2104.
\<close>

subsection \<open>\<open>sha2_update\<close>\<close>

definition sha2_held :: "'w::len word sha2_context \<Rightarrow> u8 list" where
  "sha2_held c = take (unat (and (sha_total c ! 0) 0x3F)) (sha_buffer c)"

definition sha2_counted :: "'w::len word sha2_context \<Rightarrow> nat \<Rightarrow> bool" where
  "sha2_counted c n \<longleftrightarrow> 32 \<le> LENGTH('w) \<and> length (sha_buffer c) = 64 \<and>
     sha_total c = [of_nat (n mod 2 ^ 32), of_nat (n div 2 ^ 32)]"

lemma unat_below_32: "32 \<le> LENGTH('w::len) \<Longrightarrow> n < 2 ^ 32 \<Longrightarrow> unat (of_nat n :: 'w word) = n"
proof -
  assume "32 \<le> LENGTH('w)" "n < 2 ^ 32"
  moreover have "(2 :: nat) ^ 32 \<le> 2 ^ LENGTH('w)" using calculation(1) by (intro power_increasing) simp_all
  ultimately have "n < 2 ^ LENGTH('w)" by linarith
  then show ?thesis by (simp add: unsigned_of_nat take_bit_nat_eq_self)
qed

lemma sha2_counted_left: "sha2_counted c n \<Longrightarrow> unat (and (sha_total c ! 0) 0x3F) = n mod 64"
proof -
  assume c: "sha2_counted c n"
  then have "unat (sha_total c ! 0) = n mod 2 ^ 32" by (simp add: sha2_counted_def unat_below_32)
  moreover have "n mod 2 ^ 32 mod 64 = n mod (64 :: nat)"
    by (rule mod_mod_cancel) simp
  ultimately show ?thesis by (simp only: and_63)
qed

lemma low_mask: "32 \<le> LENGTH('w::len) \<Longrightarrow> (and (of_nat n :: 'w word) 0xFFFFFFFF) = of_nat (n mod 2 ^ 32)"
proof -
  assume w: "32 \<le> LENGTH('w)"
  have "(0xFFFFFFFF :: 'w word) = mask 32" by (simp add: mask_eq_exp_minus_1)
  then have "and (of_nat n :: 'w word) 0xFFFFFFFF = take_bit 32 (of_nat n)" by (simp only: take_bit_eq_mask)
  also have "\<dots> = of_nat (take_bit 32 n)" using w
    by (auto intro!: bit_word_eqI simp: bit_simps)
  finally show ?thesis by (simp add: take_bit_eq_mod)
qed

lemma sha2_count_step:
  assumes w: "32 \<le> LENGTH('w::len)" and len: "len < 2 ^ 31"
  shows "sha2_count [of_nat (n mod 2 ^ 32), of_nat (n div 2 ^ 32)] (int len)
    = [of_nat ((n + len) mod 2 ^ 32), of_nat ((n + len) div 2 ^ 32) :: 'w word]"
proof -
  have "and (of_nat (n mod 2 ^ 32) + of_nat len :: 'w word) 0xFFFFFFFF = of_nat ((n mod 2 ^ 32 + len) mod 2 ^ 32)"
    unfolding of_nat_add[symmetric] by (rule low_mask[OF w])
  then have t0: "and (of_nat (n mod 2 ^ 32) + of_nat len :: 'w word) 0xFFFFFFFF = of_nat ((n + len) mod 2 ^ 32)"
    by (simp only: mod_add_left_eq)
  have "(of_nat ((n + len) mod 2 ^ 32) :: 'w word) < of_nat len \<longleftrightarrow> (n + len) mod 2 ^ 32 < len"
    using len by (simp add: word_less_nat_alt unat_below_32[OF w])
  moreover have "(n + len) div 2 ^ 32 = n div 2 ^ 32 + (if (n + len) mod 2 ^ 32 < len then 1 else 0)"
    using carry_div[of "2 ^ 32" n len] len by simp
  ultimately show ?thesis
    by (simp only: sha2_count_def Let_def nth_Cons_0 nth_Cons_Suc One_nat_def of_int_of_nat_eq t0 of_nat_add split: if_split) simp
qed

lemma sha2_blocks_absorb:
  "p + l = length bs \<Longrightarrow>
    sha2_blocks (bs @ junk) p l st = Some (absorb sha2_process st (drop p bs), length bs - l mod 64, l mod 64)"
  by (rule full_blocks, rule sha2_blocks.simps)

lemma sha2_update_blocks_absorb:
  assumes "p \<le> length bs" "length (sha_buffer c) = 64" "left + (length bs - p) mod 64 \<le> 64"
  shows "sha2_update_blocks c (bs @ junk) p (length bs - p) left =
    Some (c\<lparr>sha_state := absorb sha2_process (sha_state c) (drop p bs),
      sha_buffer := overlay (sha_buffer c) left (rest (drop p bs))\<rparr>)"
proof -
  let ?l = "length bs - p"
  let ?q = "length bs - ?l mod 64"
  have fit: "p + ?l = length bs" using assms(1) by simp
  have "length (drop p bs) - length (drop p bs) mod 64 + p = ?q"
    using assms(1) mod_less_eq_dividend[of ?l 64] by simp
  then have r: "rest (drop p bs) = drop ?q bs" by (simp only: rest_def drop_drop)
  have q: "?q + ?l mod 64 = length bs" using mod_less_eq_dividend[of ?l 64] by simp
  show ?thesis
  proof (cases "?l mod 64 = 0")
    case True
    then have "rest (drop p bs) = []" by simp
    then show ?thesis using True by (simp add: sha2_update_blocks_def sha2_blocks_absorb[OF fit])
  next
    case False
    have sl: "slice (bs @ junk) ?q (?l mod 64) = Some (rest (drop p bs))"
      using q unfolding r by (simp add: slice_def)
    have mc: "memcpy (sha_buffer c) left (rest (drop p bs)) = Some (overlay (sha_buffer c) left (rest (drop p bs)))"
      using assms(2,3) by simp
    show ?thesis using False
      by (simp only: sha2_update_blocks_def sha2_blocks_absorb[OF fit] Option.bind.bind_lunit prod.case
          sl mc neq0_conv if_True)
  qed
qed

lemma sha2_update_step:
  assumes c: "sha2_counted (c :: 'w::len word sha2_context) n" and len: "length bs < 2 ^ 31" "bs \<noteq> []" and r: "r = n mod 64"
  shows "sha2_update c (bs @ junk) (int (length bs)) =
     (let ctx = c\<lparr>sha_total := [of_nat ((n + length bs) mod 2 ^ 32), of_nat ((n + length bs) div 2 ^ 32)]\<rparr>
      in if r \<noteq> 0 \<and> 64 - r \<le> length bs then do {
         b \<leftarrow> slice (bs @ junk) 0 (64 - r);
         buf \<leftarrow> memcpy (sha_buffer ctx) r b;
         sha2_update_blocks (ctx\<lparr>sha_buffer := buf, sha_state := sha2_process (sha_state ctx) buf\<rparr>)
           (bs @ junk) (64 - r) (length bs - (64 - r)) 0
       } else sha2_update_blocks ctx (bs @ junk) 0 (length bs) r)"
proof -
  have pos: "\<not> int (length bs) \<le> 0" using len(2) by simp
  have wide: "32 \<le> LENGTH('w)" using c by (simp add: sha2_counted_def)
  have tot: "sha_total c = [of_nat (n mod 2 ^ 32), of_nat (n div 2 ^ 32)]" using c by (simp add: sha2_counted_def)
  have left: "unat (and (sha_total c ! 0) 0x3F) = r" unfolding r by (rule sha2_counted_left[OF c])
  have cmp: "int (64 - r) \<le> int (length bs) \<longleftrightarrow> 64 - r \<le> length bs" by (simp only: of_nat_le_iff)
  show ?thesis
    unfolding sha2_update_def Let_def left
    by (simp only: if_not_P[OF pos] cmp nat_int tot sha2_count_step[OF wide len(1)])
qed

lemma sha2_update_law:
  assumes c: "sha2_counted (c :: 'w::len word sha2_context) n" and len: "length bs < 2 ^ 31"
  shows "\<exists>c'. (\<forall>junk. sha2_update c (bs @ junk) (int (length bs)) = Some c') \<and> sha2_counted c' (n + length bs) \<and>
    sha_state c' = absorb sha2_process (sha_state c) (sha2_held c @ bs) \<and> sha2_held c' = rest (sha2_held c @ bs)"
proof (cases "bs = []")
  case True
  then show ?thesis using c sha2_counted_left[OF c] by (auto simp: sha2_update_def sha2_held_def)
next
  case False
  define r where "r = n mod 64"
  have r: "r < 64" by (simp add: r_def)
  have buf: "length (sha_buffer c) = 64" using c by (simp add: sha2_counted_def)
  have held: "sha2_held c = take r (sha_buffer c)" by (simp only: sha2_held_def sha2_counted_left[OF c] r_def)
  have lh: "length (sha2_held c) = r" using r buf by (simp add: held)
  note step = sha2_update_step[OF c len False r_def]
  have total: "(n + length bs) mod 64 = (r + length bs) mod 64" unfolding r_def by (simp add: mod_add_left_eq)
  let ?ctx = "c\<lparr>sha_total := [of_nat ((n + length bs) mod 2 ^ 32), of_nat ((n + length bs) div 2 ^ 32)]\<rparr>"
  have fields: "sha_buffer ?ctx = sha_buffer c" "sha_state ?ctx = sha_state c" by simp_all
  have counted: "sha2_counted (?ctx\<lparr>sha_state := st, sha_buffer := b\<rparr>) (n + length bs)" if "length b = 64" for st b
    using c that by (simp add: sha2_counted_def)
  have held': "sha2_held (?ctx\<lparr>sha_state := st, sha_buffer := b\<rparr>) = take ((r + length bs) mod 64) b" if "length b = 64" for st b
    by (simp only: sha2_held_def sha2_counted_left[OF counted[OF that]] total) simp
  show ?thesis
  proof (cases "r \<noteq> 0 \<and> 64 - r \<le> length bs")
    case True
    let ?buf = "overlay (sha_buffer c) r (take (64 - r) bs)"
    let ?tail = "rest (drop (64 - r) bs)"
    let ?new = "?ctx\<lparr>sha_state := absorb sha2_process (sha2_process (sha_state c) ?buf) (drop (64 - r) bs), sha_buffer := overlay ?buf 0 ?tail\<rparr>"
    have ge: "64 \<le> r + length bs" using True by linarith
    have s: "slice (bs @ junk) 0 (64 - r) = Some (take (64 - r) bs)" for junk
      using True by (auto simp: slice_def)
    have m: "memcpy (sha_buffer c) r (take (64 - r) bs) = Some ?buf" using buf r True by simp
    have lb: "length ?buf = 64" using buf r True by simp
    have lt: "length ?tail < 64" by simp
    then have ln: "length (overlay ?buf 0 ?tail) = 64" using lb by simp
    have blocks: "sha2_update_blocks (?ctx\<lparr>sha_buffer := ?buf, sha_state := sha2_process (sha_state c) ?buf\<rparr>) (bs @ junk)
        (64 - r) (length bs - (64 - r)) 0 = Some ?new" for junk
      using True lb by (subst sha2_update_blocks_absorb) simp_all
    have "sha2_update c (bs @ junk) (int (length bs)) = Some ?new" for junk
      unfolding step Let_def if_P[OF True] s fields by (simp only: Option.bind.bind_lunit m fields blocks)
    moreover have "?buf = sha2_held c @ take (64 - r) bs" using True buf r by (simp add: overlay_def held)
    then have "absorb sha2_process (sha_state c) (sha2_held c @ bs) = sha_state ?new"
      using ge r lh by (simp add: absorb_held)
    moreover have "rest (sha2_held c @ bs) = ?tail" using ge r lh by (simp add: rest_held)
    moreover have "(r + length bs) mod 64 = length ?tail"
      using ge r le_mod_geq[of 64 "r + length bs"] by (simp add: algebra_simps)
    then have "sha2_held ?new = ?tail" unfolding held'[OF ln] using lb lt by (simp add: overlay_def)
    ultimately show ?thesis using counted[OF ln] by metis
  next
    case else: False
    then have short: "r = 0 \<or> r + length bs < 64" by linarith
    let ?new = "?ctx\<lparr>sha_state := absorb sha2_process (sha_state c) bs, sha_buffer := overlay (sha_buffer c) r (rest bs)\<rparr>"
    have fit: "r + length bs mod 64 \<le> 64" using short by auto
    then have lb: "length (overlay (sha_buffer c) r (rest bs)) = 64" using buf by simp
    have run: "sha2_update c (bs @ junk) (int (length bs)) = Some ?new" for junk
      unfolding step Let_def if_not_P[OF else]
      using sha2_update_blocks_absorb[of 0 bs ?ctx r junk] buf fit by simp
    have "(r + length bs) mod 64 = r + length (rest bs)" using short by auto
    then have "sha2_held ?new = sha2_held c @ rest bs"
      unfolding held'[OF lb] using buf fit by (simp add: overlay_def held)
    also have "\<dots> = rest (sha2_held c @ bs)" using short lh by (cases "r = 0") simp_all
    finally have "sha2_held ?new = rest (sha2_held c @ bs)" .
    moreover have "sha_state ?new = absorb sha2_process (sha_state c) (sha2_held c @ bs)"
      using short lh by (cases "r = 0") simp_all
    ultimately show ?thesis using run counted[OF lb] by blast
  qed
qed

lemma sha2_update_ok:
  assumes "sha2_counted c n" "length bs < 2 ^ 31"
  shows "\<exists>c'. sha2_update c bs (int (length bs)) = Some c' \<and> sha2_counted c' (n + length bs) \<and>
    sha_state c' = absorb sha2_process (sha_state c) (sha2_held c @ bs) \<and> sha2_held c' = rest (sha2_held c @ bs)"
  using sha2_update_law[OF assms] by (metis append_Nil2)

lemma sha2_update_junk:
  assumes "sha2_counted c n" "length bs < 2 ^ 31"
  shows "sha2_update c (bs @ junk) (int (length bs)) = sha2_update c bs (int (length bs))"
  using sha2_update_law[OF assms] by (metis append_Nil2)

text \<open>What an update does not change.\<close>

lemma sha2_update_frame:
  "sha2_update c input n = Some c' \<Longrightarrow> sha_ipad c' = sha_ipad c \<and> sha_opad c' = sha_opad c \<and> is224 c' = is224 c"
  by (auto simp: sha2_update_def sha2_update_blocks_def Let_def Option.bind_eq_Some_conv split: if_splits)

interpretation sha2: streaming_hash sha2_process "\<lambda>c bs. sha2_update c bs (int (length bs))"
  sha_state sha2_held sha2_counted "2 ^ 31"
  by unfold_locales (simp_all add: sha2_update_ok)

subsection \<open>The digest\<close>

lemma low_PUT: "32 \<le> LENGTH('w) \<Longrightarrow> PUT_ULONG_BE (w :: 'w::len word) = be_num 4 (unat (ucast w :: u32))"
proof -
  assume wide: "32 \<le> LENGTH('w)"
  have b: "(ucast (drop_bit k w) :: u8) = ucast (drop_bit k (ucast w :: u32))" if "k \<le> 24" for k
    using that wide by (auto intro!: bit_word_eqI simp: bit_simps dest: bit_imp_le_length)
  have bs: "(ucast (drop_bit 24 w) :: u8) = ucast (drop_bit 24 (ucast w :: u32))"
    "(ucast (drop_bit 16 w) :: u8) = ucast (drop_bit 16 (ucast w :: u32))"
    "(ucast (drop_bit 8 w) :: u8) = ucast (drop_bit 8 (ucast w :: u32))"
    by (rule b; simp)+
  have "(ucast w :: u8) = ucast (ucast w :: u32)" using b[of 0] by simp
  also have "\<dots> = of_nat (unat (ucast w :: u32))" by (simp only: of_nat_unat)
  finally show ?thesis
    by (simp only: PUT_ULONG_BE_def be_num_def le_num4 bs ucast_byte rev.simps append.simps)
qed

lemma low_of_nat: "32 \<le> LENGTH('w) \<Longrightarrow> (ucast (of_nat n :: 'w::len word) :: u32) = of_nat n"
  by (auto intro!: bit_word_eqI simp: bit_simps)

lemma be_num_mod: "be_num 4 (n mod 2 ^ 32) = be_num 4 n"
  by (simp only: be_num_def le_num_mod)

lemma be_num_8: "be_num 4 (n div 2 ^ 32) @ be_num 4 n = be_num 8 n"
  using le_num_split[of 4 4 n] by (simp add: be_num_def)

lemma msglen_be:
  assumes wide: "32 \<le> LENGTH('w::len)"
  shows "PUT_ULONG_BE (or (drop_bit 29 (of_nat (n mod 2 ^ 32))) (push_bit 3 (of_nat (n div 2 ^ 32))) :: 'w word)
      @ PUT_ULONG_BE (push_bit 3 (of_nat (n mod 2 ^ 32)) :: 'w word) = be_num 8 (8 * n)"
proof -
  have n8: "8 * n div 2 ^ 32 = drop_bit 32 (push_bit 3 n)" "8 * n = push_bit 3 n"
    by (simp_all add: drop_bit_eq_div push_bit_eq_mult mult.commute)
  have parts: "n mod 2 ^ 32 = take_bit 32 n" "n div 2 ^ 32 = drop_bit 32 n"
    by (simp_all add: take_bit_eq_mod drop_bit_eq_div)
  have high: "(ucast (or (drop_bit 29 (of_nat (n mod 2 ^ 32))) (push_bit 3 (of_nat (n div 2 ^ 32))) :: 'w word) :: u32)
      = of_nat (8 * n div 2 ^ 32)"
    unfolding n8(1) parts
  proof (rule bit_word_eqI)
    fix i assume "i < LENGTH(32)"
    then have i: "i < 32" by simp
    show "bit (ucast (or (drop_bit 29 (of_nat (take_bit 32 n))) (push_bit 3 (of_nat (drop_bit 32 n))) :: 'w word) :: u32) i
        = bit (of_nat (drop_bit 32 (push_bit 3 n)) :: u32) i"
    proof (cases "i < 3")
      case True
      then show ?thesis using wide i by (simp add: bit_simps add.commute)
    next
      case False
      then have "32 + (i - 3) = 29 + i" by simp
      then show ?thesis using False wide i by (auto simp: bit_simps add.commute)
    qed
  qed
  have low: "(ucast (push_bit 3 (of_nat (n mod 2 ^ 32)) :: 'w word) :: u32) = of_nat (8 * n)"
    unfolding n8(2) parts using wide by (auto intro!: bit_word_eqI simp: bit_simps)
  have "unat (of_nat k :: u32) = k mod 2 ^ 32" for k by (simp add: unsigned_of_nat take_bit_eq_mod)
  then show ?thesis
    by (simp only: low_PUT[OF wide] high low be_num_mod be_num_8)
qed

lemma sha2_pad_len:
  assumes c: "sha2_counted (c :: 'w::len word sha2_context) n"
  shows "uint (if and (sha_total c ! 0) 0x3F < 56 then 56 - and (sha_total c ! 0) 0x3F else 120 - and (sha_total c ! 0) 0x3F)
    = int (Suc (pad_zeros n))"
proof -
  have wide: "32 \<le> LENGTH('w)" using c by (simp add: sha2_counted_def)
  note un = unat_below_32[OF wide]
  have m: "n mod 64 < 64" by simp
  then have l: "and (sha_total c ! 0) 0x3F = of_nat (n mod 64)"
    using sha2_counted_left[OF c] un[of "n mod 64"] by (simp add: word_unat_eq_iff)
  have less: "(of_nat a :: 'w word) < of_nat b \<longleftrightarrow> a < b" if "a < 2 ^ 32" "b < 2 ^ 32" for a b
    using that by (simp only: word_less_nat_alt un)
  have f: "(56 :: 'w word) = of_nat 56" "(120 :: 'w word) = of_nat 120" by simp_all
  have "(of_nat (n mod 64) :: 'w word) < of_nat 56 \<longleftrightarrow> n mod 64 < 56"
    using less[of "n mod 64" 56] m by simp
  moreover have "(of_nat 56 :: 'w word) - of_nat (n mod 64) = of_nat (56 - n mod 64)" if "n mod 64 < 56"
    using that by (simp add: of_nat_diff)
  moreover have "(of_nat 120 :: 'w word) - of_nat (n mod 64) = of_nat (120 - n mod 64)"
    using m by (simp add: of_nat_diff)
  ultimately have "(if and (sha_total c ! 0) 0x3F < 56 then 56 - and (sha_total c ! 0) 0x3F else 120 - and (sha_total c ! 0) 0x3F)
      = (of_nat (Suc (pad_zeros n)) :: 'w word)"
    unfolding l f by (simp add: pad_zeros_cases)
  moreover have "pad_zeros n < 64" by (simp add: pad_zeros_def)
  then have "Suc (pad_zeros n) < 2 ^ 32" by simp
  ultimately show ?thesis by (simp only: uint_nat un)
qed

lemma be_bytes_low:
  "32 \<le> LENGTH('w) \<Longrightarrow> be_bytes (low_state (st :: 'w::len word list)) =
    concat (map (\<lambda>i. PUT_ULONG_BE (st ! i)) [0..<7]) @ PUT_ULONG_BE (st ! 7)"
proof -
  assume wide: "32 \<le> LENGTH('w)"
  have "[0..<8] = [0..<7] @ [7 :: nat]" by (simp add: upt_rec)
  then show ?thesis by (simp add: be_bytes_def low_state_def low_PUT[OF wide] comp_def)
qed

lemma sha2_padding_padding: "sha2_padding = padding"
  by (simp add: sha2_padding_def padding_def numeral_eq_Suc)

lemma length_be_num [simp]: "length (be_num k n) = k"
  by (simp add: be_num_def le_num_def)

lemma sha2_finish_digest:
  assumes h: "sha2.holds iv (c :: 'w::len word sha2_context) m" and iv: "low_state iv = fips_iv (is224 c \<noteq> 0)"
    and out: "length outp = 32"
  shows "\<exists>c'. sha2_finish c outp = Some (c', sha_digest (is224 c \<noteq> 0) m @ drop (if is224 c = 0 then 32 else 28) outp)
    \<and> length (sha_buffer c') = 64 \<and> sha_ipad c' = sha_ipad c \<and> sha_opad c' = sha_opad c \<and> is224 c' = is224 c"
proof -
  have cnt: "sha2_counted c (length m)" using h by (simp add: sha2.holds_def)
  then have wide: "32 \<le> LENGTH('w)" and tot: "sha_total c = [of_nat (length m mod 2 ^ 32), of_nat (length m div 2 ^ 32)]"
    by (simp_all add: sha2_counted_def)
  let ?k = "Suc (pad_zeros (length m))" and ?len = "be_num 8 (8 * length m)"
  have k: "?k \<le> 64" by (simp add: pad_zeros_def Suc_le_eq)
  have l8: "length ?len = 8" by simp
  obtain c1 c2 where c1: "sha2_update c (take ?k padding) (int (length (take ?k padding))) = Some c1"
    and c2: "sha2_update c1 ?len (int (length ?len)) = Some c2"
    and st: "sha_state c2 = absorb sha2_process iv (md_pad ?len m)"
    using sha2.holds_pad[OF h l8] .
  have lk: "length (take ?k padding) = ?k" using k by (simp add: padding_def)
  have lk31: "length (take ?k padding) < 2 ^ 31" using k lk by simp
  from sha2_update_junk[OF cnt this, of "drop ?k padding"] c1 have p: "sha2_update c sha2_padding (int ?k) = Some c1"
    by (simp only: lk append_take_drop_id sha2_padding_padding)
  have c2': "sha2_update c1 ?len 8 = Some c2" using c2 by simp
  have frame: "sha_ipad c2 = sha_ipad c" "sha_opad c2 = sha_opad c" "is224 c2 = is224 c"
    using sha2_update_frame[OF p] sha2_update_frame[OF c2'] by simp_all
  have "length (sha_buffer c2) = 64"
    using sha2_update_ok[OF cnt lk31] sha2_update_ok[of c1 _ ?len] c1 c2 by (auto simp: sha2_counted_def)
  let ?X = "concat (map (\<lambda>i. PUT_ULONG_BE (sha_state c2 ! i)) [0..<7])" and ?Y = "PUT_ULONG_BE (sha_state c2 ! 7)"
  have lX: "length ?X = 28" by (simp add: upt_rec PUT_ULONG_BE_def)
  have lY: "length ?Y = 4" by (simp add: PUT_ULONG_BE_def)
  have full: "be_bytes (absorb fips_compress (fips_iv (is224 c \<noteq> 0)) (md_pad ?len m)) = ?X @ ?Y"
    unfolding iv[symmetric] absorb_fips[OF wide, symmetric] st[symmetric] by (rule be_bytes_low[OF wide])
  have d: "sha_digest (is224 c \<noteq> 0) m = (if is224 c = 0 then ?X @ ?Y else ?X)"
    unfolding sha_digest_def full using lX lY by simp
  have m0: "memcpy outp 0 ?X = Some (?X @ drop 28 outp)" using lX out by (simp add: overlay_def)
  have m1: "memcpy (?X @ drop 28 outp) 28 ?Y = Some (?X @ ?Y)" using lX lY out by (simp add: overlay_def)
  have run: "sha2_finish c outp = (memcpy outp 0 ?X \<bind> (\<lambda>outp.
      (if is224 c2 = 0 then memcpy outp 28 ?Y else Some outp) \<bind> (\<lambda>outp. Some (c2, outp))))"
    unfolding sha2_finish_def Let_def sha2_pad_len[OF cnt] p Option.bind.bind_lunit
    unfolding tot by (simp only: nth_Cons_0 nth_Cons_Suc One_nat_def msglen_be[OF wide] c2' Option.bind.bind_lunit)
  have "sha2_finish c outp = Some (c2, sha_digest (is224 c \<noteq> 0) m @ drop (if is224 c = 0 then 32 else 28) outp)"
    unfolding run m0 d frame(3) Option.bind.bind_lunit m1 using out by (simp add: m1)
  then show ?thesis using frame \<open>length (sha_buffer c2) = 64\<close> by blast
qed

lemma sha2_starts_holds:
  assumes "32 \<le> LENGTH('w)" "length (sha_buffer (c :: 'w::len word sha2_context)) = 64"
  shows "sha2.holds (sha_state (sha2_starts c k)) (sha2_starts c k) []"
proof -
  have cnt: "sha2_counted (sha2_starts c k) 0" using assms by (simp add: sha2_counted_def sha2_starts_def)
  moreover have "sha2_held (sha2_starts c k) = []"
    unfolding sha2_held_def sha2_counted_left[OF cnt] by simp
  ultimately show ?thesis by (intro sha2.holds_empty) simp_all
qed

lemma sha2_starts_iv:
  assumes "32 \<le> LENGTH('w)"
  shows "low_state (sha_state (sha2_starts (c :: 'w::len word sha2_context) k)) = fips_iv (k \<noteq> 0)"
proof -
  have low: "low_state [x0, x1, x2, x3, x4, x5, x6, x7 :: 'w word]
      = [ucast x0, ucast x1, ucast x2, ucast x3, ucast x4, ucast x5, ucast x6, ucast x7]" for x0 x1 x2 x3 x4 x5 x6 x7
    by (simp add: low_state_def upt8)
  have state: "sha_state (sha2_starts c k) = (if k = 0
       then [0x6A09E667, 0xBB67AE85, 0x3C6EF372, 0xA54FF53A, 0x510E527F, 0x9B05688C, 0x1F83D9AB, 0x5BE0CD19]
       else [0xC1059ED8, 0x367CD507, 0x3070DD17, 0xF70E5939, 0xFFC00B31, 0x68581511, 0x64F98FA7, 0xBEFA4FA4])"
    by (simp add: sha2_starts_def)
  show ?thesis unfolding state fips_iv_def
    by (cases "k = 0") (simp_all only: simp_thms if_True if_False low low_numeral[OF assms])
qed

lemma sha2_starts_frame [simp]:
  "sha_ipad (sha2_starts c k) = sha_ipad c" "sha_opad (sha2_starts c k) = sha_opad c" "is224 (sha2_starts c k) = k"
  "sha_buffer (sha2_starts c k) = sha_buffer c"
  by (simp_all add: sha2_starts_def)

text \<open>The context holds the message \<open>m\<close> of a hash with the given kind.\<close>

definition sha2_has :: "'w::len word sha2_context \<Rightarrow> int \<Rightarrow> u8 list \<Rightarrow> bool" where
  "sha2_has c k m \<longleftrightarrow> is224 c = k \<and> (\<exists>iv. low_state iv = fips_iv (k \<noteq> 0) \<and> sha2.holds iv c m)"

lemma sha2_has_buffer: "sha2_has c k m \<Longrightarrow> length (sha_buffer c) = 64"
  by (auto simp: sha2_has_def sha2.holds_def sha2_counted_def)

lemma sha2_has_starts:
  assumes "32 \<le> LENGTH('w)" "length (sha_buffer (c :: 'w::len word sha2_context)) = 64"
  shows "sha2_has (sha2_starts c k) k []"
  unfolding sha2_has_def using sha2_starts_holds[OF assms, of k] sha2_starts_iv[OF assms(1), of c k] by auto

lemma sha2_has_update:
  assumes "sha2_has c k m" "length bs < 2 ^ 31"
  shows "\<exists>c'. (\<forall>junk. sha2_update c (bs @ junk) (int (length bs)) = Some c') \<and> sha2_has c' k (m @ bs) \<and>
    sha_ipad c' = sha_ipad c \<and> sha_opad c' = sha_opad c"
proof -
  obtain iv where iv: "low_state iv = fips_iv (k \<noteq> 0)" "sha2.holds iv c m" "is224 c = k"
    using assms(1) by (auto simp: sha2_has_def)
  have cnt: "sha2_counted c (length m)" using iv(2) by (simp add: sha2.holds_def)
  obtain c' where c': "sha2_update c bs (int (length bs)) = Some c'" "sha2.holds iv c' (m @ bs)"
    using sha2.holds_update[OF iv(2) assms(2)] .
  show ?thesis
    by (rule exI[of _ c'])
      (use c' sha2_update_junk[OF cnt assms(2)] sha2_update_frame[OF c'(1)] iv(1,3) in \<open>auto simp: sha2_has_def\<close>)
qed

lemma sha2_has_updates:
  assumes "sha2_has c k m" "\<forall>bs\<in>set pieces. length bs < 2 ^ 31"
  shows "\<exists>c'. foldM (\<lambda>c bs. sha2_update c bs (int (length bs))) c pieces = Some c' \<and> sha2_has c' k (m @ concat pieces) \<and>
    sha_ipad c' = sha_ipad c \<and> sha_opad c' = sha_opad c"
  using assms
proof (induction pieces arbitrary: c m)
  case (Cons bs pieces)
  from Cons.prems(2) have "length bs < 2 ^ 31" by simp
  from sha2_has_update[OF Cons.prems(1) this] obtain c' where
    c': "\<forall>junk. sha2_update c (bs @ junk) (int (length bs)) = Some c'" "sha2_has c' k (m @ bs)"
    "sha_ipad c' = sha_ipad c" "sha_opad c' = sha_opad c" by blast
  then show ?case using Cons.IH[OF c'(2)] Cons.prems(2) c'(1)[rule_format, of "[]"] by auto
qed simp

lemma sha2_has_finish:
  assumes "sha2_has c k m" "length outp = 32"
  obtains c' where "sha2_finish c outp = Some (c', sha_digest (k \<noteq> 0) m @ drop (if k = 0 then 32 else 28) outp)"
    "length (sha_buffer c') = 64" "sha_ipad c' = sha_ipad c" "sha_opad c' = sha_opad c"
  using assms sha2_finish_digest unfolding sha2_has_def by metis

lemma sha2_read_file_pieces:
  "sha2_read_file c f = foldM (\<lambda>c bs. sha2_update c bs (int (length bs))) c (takeWhile (\<lambda>b. b \<noteq> []) f)"
  by (induction c f rule: sha2_read_file.induct) (simp_all split: Option.bind_split)

lemma sha2_sound:
  assumes wide: "32 \<le> LENGTH('w)" and buf: "length (sha_buffer (c :: 'w::len word sha2_context)) = 64"
    and m: "length m < 2 ^ 31" and out: "length outp = 32"
  shows "sha2 c (m @ junk) (int (length m)) outp k
    = Some (sha_digest (k \<noteq> 0) m @ drop (if k = 0 then 32 else 28) outp)"
proof -
  obtain c' where c': "\<forall>junk. sha2_update (sha2_starts c k) (m @ junk) (int (length m)) = Some c'" "sha2_has c' k m"
    using sha2_has_update[OF sha2_has_starts[OF wide buf] m, of k] by auto
  obtain c'' where "sha2_finish c' outp = Some (c'', sha_digest (k \<noteq> 0) m @ drop (if k = 0 then 32 else 28) outp)"
    using sha2_has_finish[OF c'(2) out] .
  then show ?thesis by (simp add: sha2_def c'(1))
qed

lemma sha2_pieces_sound:
  assumes wide: "32 \<le> LENGTH('w)" and buf: "length (sha_buffer (c :: 'w::len word sha2_context)) = 64"
    and pieces: "\<forall>bs\<in>set pieces. length bs < 2 ^ 31" and out: "length outp = 32"
  shows "\<exists>c'. foldM (\<lambda>c bs. sha2_update c bs (int (length bs))) (sha2_starts c k) pieces \<bind> (\<lambda>c. sha2_finish c outp)
    = Some (c', sha_digest (k \<noteq> 0) (concat pieces) @ drop (if k = 0 then 32 else 28) outp)"
proof -
  obtain c1 where c1: "foldM (\<lambda>c bs. sha2_update c bs (int (length bs))) (sha2_starts c k) pieces = Some c1"
    "sha2_has c1 k ([] @ concat pieces)"
    using sha2_has_updates[OF sha2_has_starts[OF wide buf] pieces, of k] by blast
  obtain c2 where "sha2_finish c1 outp = Some (c2, sha_digest (k \<noteq> 0) ([] @ concat pieces) @ drop (if k = 0 then 32 else 28) outp)"
    using sha2_has_finish[OF c1(2) out] .
  then show ?thesis by (simp add: c1(1))
qed

lemma sha2_file_sound:
  assumes wide: "32 \<le> LENGTH('w)" and buf: "length (sha_buffer (c :: 'w::len word sha2_context)) = 64"
    and f: "\<forall>b\<in>set f. length b \<le> 1024" and out: "length outp = 32"
  shows "sha2_file c (Some (f, err)) outp k = Some (if err then 2 else 0,
    sha_digest (k \<noteq> 0) (concat (takeWhile (\<lambda>b. b \<noteq> []) f)) @ drop (if k = 0 then 32 else 28) outp)"
proof -
  have "\<forall>bs\<in>set (takeWhile (\<lambda>b. b \<noteq> []) f). length bs < 2 ^ 31"
    using f by (fastforce dest: set_takeWhileD)
  from sha2_pieces_sound[OF wide buf this out, of k] show ?thesis
    by (auto simp: sha2_file_def sha2_read_file_pieces Option.bind_eq_Some_conv)
qed

text \<open>
  C8: on every platform whose \<open>unsigned long\<close> has 32 bits or more, \<open>sha2.c\<close> computes the digests of FIPS
  180: SHA-256, or SHA-224 when \<open>is224\<close> is not 0, of a message in any number of pieces of any lengths that
  an \<open>int\<close> counts, of one buffer, and of a file up to the first empty read; 28 or 32 bytes of the outp
  are written.
\<close>

theorem sha2_digest:
  fixes c :: "'w::len word sha2_context"
  assumes "32 \<le> LENGTH('w)" "length (sha_buffer c) = 64" "length outp = 32"
    "\<forall>bs\<in>set pieces. length bs < 2 ^ 31" "length m < 2 ^ 31" "\<forall>b\<in>set f. length b \<le> 1024"
  shows "map_option snd (foldM (\<lambda>c bs. sha2_update c bs (int (length bs))) (sha2_starts c k) pieces \<bind> (\<lambda>c. sha2_finish c outp))
      = Some (sha_digest (k \<noteq> 0) (concat pieces) @ drop (if k = 0 then 32 else 28) outp)
    \<and> sha2 c m (int (length m)) outp k
      = Some (sha_digest (k \<noteq> 0) m @ drop (if k = 0 then 32 else 28) outp)
    \<and> sha2_file c (Some (f, err)) outp k = Some (if err then 2 else 0,
        sha_digest (k \<noteq> 0) (concat (takeWhile (\<lambda>b. b \<noteq> []) f)) @ drop (if k = 0 then 32 else 28) outp)"
  using sha2_pieces_sound[OF assms(1,2,4,3), of k] sha2_sound[OF assms(1,2,5,3), of "[]" k]
    sha2_file_sound[OF assms(1,2,6,3), of err k] by auto

subsection \<open>The constants\<close>

text \<open>The first 64 primes, by a sieve: a number below \<open>19 * 19\<close> without a proper divisor among the first
  seven primes.\<close>

definition primes64 :: "nat list" where
  "primes64 = filter (\<lambda>p. \<forall>d\<in>set [2, 3, 5, 7, 11, 13, 17]. d dvd p \<longrightarrow> d = p) [2..<312]"

text \<open>\<open>k\<close> is made of the \<open>32\<close> bits that end at position \<open>s\<close> behind the point of the \<open>e\<close>-th root of \<open>p\<close>:
  the root times \<open>2 ^ s\<close>, rounded down, is \<open>q * 2 ^ 32 + k\<close> for some \<open>q\<close>.\<close>

definition root_bits :: "nat \<Rightarrow> nat \<Rightarrow> nat \<Rightarrow> u32 \<Rightarrow> bool" where
  "root_bits e s p k \<longleftrightarrow> (\<exists>q. (q * 2 ^ 32 + unat k) ^ e \<le> p * 2 ^ (s * e) \<and> p * 2 ^ (s * e) < (q * 2 ^ 32 + unat k + 1) ^ e)"

lemma root_bits_lists:
  assumes "length ks = length ps" "length qs = length ps"
    "list_all (\<lambda>(p, k, q). (q * 2 ^ 32 + unat k) ^ e \<le> p * 2 ^ (s * e) \<and> p * 2 ^ (s * e) < (q * 2 ^ 32 + unat k + 1) ^ e)
      (zip ps (zip ks qs))"
  shows "list_all2 (root_bits e s) ps ks"
  using assms by (auto simp: list_all2_conv_all_nth list_all_length root_bits_def)

lemma primes64_list: "primes64 = [
    2, 3, 5, 7, 11, 13, 17, 19, 23, 29, 31, 37, 41, 43, 47, 53,
    59, 61, 67, 71, 73, 79, 83, 89, 97, 101, 103, 107, 109, 113, 127, 131,
    137, 139, 149, 151, 157, 163, 167, 173, 179, 181, 191, 193, 197, 199, 211, 223,
    227, 229, 233, 239, 241, 251, 257, 263, 269, 271, 277, 281, 283, 293, 307, 311]"
proof -
  have "[2..<312 :: nat] = [2, 3, 4, 5, 6, 7, 8, 9, 10, 11, 12, 13, 14, 15, 16, 17, 18, 19, 20, 21, 22, 23, 24, 25, 26, 27, 28, 29, 30, 31, 32, 33, 34, 35, 36, 37, 38, 39, 40, 41, 42, 43, 44, 45, 46, 47, 48, 49, 50, 51, 52, 53, 54, 55, 56, 57, 58, 59, 60, 61, 62, 63, 64, 65, 66, 67, 68, 69, 70, 71, 72, 73, 74, 75, 76, 77, 78, 79, 80, 81, 82, 83, 84, 85, 86, 87, 88, 89, 90, 91, 92, 93, 94, 95, 96, 97, 98, 99, 100, 101, 102, 103, 104, 105, 106, 107, 108, 109, 110, 111, 112, 113, 114, 115, 116, 117, 118, 119, 120, 121, 122, 123, 124, 125, 126, 127, 128, 129, 130, 131, 132, 133, 134, 135, 136, 137, 138, 139, 140, 141, 142, 143, 144, 145, 146, 147, 148, 149, 150, 151, 152, 153, 154, 155, 156, 157, 158, 159, 160, 161, 162, 163, 164, 165, 166, 167, 168, 169, 170, 171, 172, 173, 174, 175, 176, 177, 178, 179, 180, 181, 182, 183, 184, 185, 186, 187, 188, 189, 190, 191, 192, 193, 194, 195, 196, 197, 198, 199, 200, 201, 202, 203, 204, 205, 206, 207, 208, 209, 210, 211, 212, 213, 214, 215, 216, 217, 218, 219, 220, 221, 222, 223, 224, 225, 226, 227, 228, 229, 230, 231, 232, 233, 234, 235, 236, 237, 238, 239, 240, 241, 242, 243, 244, 245, 246, 247, 248, 249, 250, 251, 252, 253, 254, 255, 256, 257, 258, 259, 260, 261, 262, 263, 264, 265, 266, 267, 268, 269, 270, 271, 272, 273, 274, 275, 276, 277, 278, 279, 280, 281, 282, 283, 284, 285, 286, 287, 288, 289, 290, 291, 292, 293, 294, 295, 296, 297, 298, 299, 300, 301, 302, 303, 304, 305, 306, 307, 308, 309, 310, 311]"
    by simp
  then show ?thesis by (simp add: primes64_def)
qed

lemma fips_K_roots: "list_all2 (root_bits 3 32) primes64 fips_K"
  unfolding primes64_list fips_K_def
  by (rule root_bits_lists[where qs = "[1, 1, 1, 1, 2, 2, 2, 2, 2, 3, 3, 3, 3, 3, 3, 3, 3, 3, 4, 4, 4, 4, 4, 4, 4, 4, 4, 4, 4, 4, 5, 5, 5, 5, 5, 5, 5, 5, 5, 5, 5, 5, 5, 5, 5, 5, 5, 6, 6, 6, 6, 6, 6, 6, 6, 6, 6, 6, 6, 6, 6, 6, 6, 6]"]) simp_all

lemma fips_iv_roots: "list_all2 (root_bits 2 32) (take 8 primes64) (fips_iv False)"
  unfolding primes64_list fips_iv_def
  by (rule root_bits_lists[where qs = "[1, 1, 2, 2, 3, 3, 4, 4]"]) simp_all

lemma fips_iv224_roots: "list_all2 (root_bits 2 64) (take 8 (drop 8 primes64)) (fips_iv True)"
  unfolding primes64_list fips_iv_def
  by (rule root_bits_lists[where qs = "[20597939549, 23129106730, 23913365850, 26125266136, 27501209191, 28163984007, 29444812301, 31267833885]"]) simp_all

text \<open>
  C27: the constants of \<open>sha2.c\<close> are those of FIPS 180: its table holds the first 32 fractional bits of the
  cube roots of the first 64 primes, the initial values of SHA-256 those of the square roots of the first
  eight primes, and SHA-224 starts from the second 32 fractional bits for the next eight primes.
\<close>

theorem sha2_constants:
  assumes "32 \<le> LENGTH('w::len)"
  shows "list_all2 (root_bits 3 32) primes64 (map (\<lambda>(p, x, K :: 'w word). ucast K) sha2_lines)
    \<and> list_all2 (root_bits 2 32) (take 8 primes64) (low_state (sha_state (sha2_starts (c :: 'w word sha2_context) 0)))
    \<and> list_all2 (root_bits 2 64) (take 8 (drop 8 primes64)) (low_state (sha_state (sha2_starts c 1)))"
  unfolding sha2_lines_K[OF assms] sha2_starts_iv[OF assms] using fips_K_roots fips_iv_roots fips_iv224_roots by simp

theorem sha2_constants_witness:
  "list_all2 (root_bits 3 32) primes64 (map (\<lambda>(p, x, K :: 64 word). ucast K) sha2_lines)"
  using sha2_constants[where ?'w = 64] by simp

subsection \<open>HMAC\<close>

text \<open>RFC 2104 with a block of 64 bytes: keys longer than a block are hashed, shorter ones filled with zeros.\<close>

definition hmac_key :: "bool \<Rightarrow> u8 list \<Rightarrow> u8 list" where
  "hmac_key sha224 key = (let key = (if 64 < length key then sha_digest sha224 key else key)
     in key @ replicate (64 - length key) 0)"

definition hmac_digest :: "bool \<Rightarrow> u8 list \<Rightarrow> u8 list \<Rightarrow> u8 list" where
  "hmac_digest sha224 key m = sha_digest sha224 (map (xor 0x5C) (hmac_key sha224 key) @
     sha_digest sha224 (map (xor 0x36) (hmac_key sha224 key) @ m))"

lemma length_fips_compress [simp]: "length st = 8 \<Longrightarrow> length (fips_compress st b) = 8"
  by (cases "foldl (fips_round b) (st ! 0, st ! 1, st ! 2, st ! 3, st ! 4, st ! 5, st ! 6, st ! 7) [0..<64]" rule: vars8.cases)
    (simp add: fips_compress_def)

lemma length_absorb_fips: "length st = 8 \<Longrightarrow> length (absorb fips_compress st m) = 8"
proof (induction "length m" arbitrary: st m rule: less_induct)
  case less
  then show ?case by (cases "length m < 64") (simp_all add: absorb_block)
qed

lemma length_be_bytes: "length (be_bytes ws) = 4 * length ws"
  by (induction ws) (simp_all add: be_bytes_def)

lemma length_sha_digest [simp]: "length (sha_digest s m) = (if s then 28 else 32)"
  by (simp add: sha_digest_def length_be_bytes length_absorb_fips fips_iv_def)

lemma length_hmac_key [simp]: "length (hmac_key s key) = 64"
  by (simp add: hmac_key_def)

text \<open>The loop that mixes the key into the pads.\<close>

lemma sha2_hmac_pads_xor:
  assumes "length key \<le> 64"
  shows "sha2_hmac_pads (key @ junk) (int (length key))
    = Some (map (xor 0x36) (key @ replicate (64 - length key) 0), map (xor 0x5C) (key @ replicate (64 - length key) 0))"
proof -
  let ?pad = "\<lambda>c j. map (xor c) (take j key @ replicate (64 - j) 0) :: u8 list"
  let ?body = "\<lambda>i (ipad, opad). do {
     k \<leftarrow> rd (key @ junk) i;
     ib \<leftarrow> rd ipad i;
     ob \<leftarrow> rd opad i;
     ipad \<leftarrow> wr ipad i (xor ib k);
     opad \<leftarrow> wr opad i (xor ob k);
     Some (ipad, opad)
   }"
  have upd: "(?pad c j)[j := xor (?pad c j ! j) (key ! j)] = ?pad c (Suc j)" and len: "length (?pad c j) = 64"
    if "j < length key" for c j
  proof -
    show "length (?pad c j) = 64" using that assms by simp
    have "64 - j = Suc (63 - j)" "64 - Suc j = 63 - j" using that assms by simp_all
    note d = this
    show "(?pad c j)[j := xor (?pad c j ! j) (key ! j)] = ?pad c (Suc j)"
      using that assms d by (simp add: take_Suc_conv_app_nth list_update_append nth_append)
  qed
  have "?body j (?pad 0x36 j, ?pad 0x5C j) = Some (?pad 0x36 (Suc j), ?pad 0x5C (Suc j))" if "j < length key" for j
  proof -
    have j: "j < length (?pad c j)" for c using that assms by (simp only: len)
    have k: "rd (key @ junk) j = Some (key ! j)" using that by (simp add: nth_append)
    show ?thesis
      by (simp only: prod.case k rd_in[OF j] wr_in[OF j] Option.bind.bind_lunit upd[OF that])
  qed
  then have "for_up 0 (length key) ?body (?pad 0x36 0, ?pad 0x5C 0) = Some (?pad 0x36 (length key), ?pad 0x5C (length key))"
    using for_up_eq[of 0 "length key" ?body "\<lambda>j. (?pad 0x36 j, ?pad 0x5C j)"] by blast
  then show ?thesis by (simp add: sha2_hmac_pads_def)
qed

lemma sha2_hmac_starts_sound:
  fixes loc ctx :: "'w::len word sha2_context"
  assumes wide: "32 \<le> LENGTH('w)" and buf: "length (sha_buffer loc) = 64" "length (sha_buffer ctx) = 64"
    and sumb: "length sumb = 32" and key: "length key < 2 ^ 31"
  shows "\<exists>c. sha2_hmac_starts loc sumb ctx key (int (length key)) k = Some c \<and>
    sha2_has c k (map (xor 0x36) (hmac_key (k \<noteq> 0) key)) \<and> sha_ipad c = map (xor 0x36) (hmac_key (k \<noteq> 0) key) \<and>
    sha_opad c = map (xor 0x5C) (hmac_key (k \<noteq> 0) key)"
proof -
  let ?key = "if 64 < length key then sha_digest (k \<noteq> 0) key else key"
  let ?i = "map (xor 0x36) (hmac_key (k \<noteq> 0) key)" and ?o = "map (xor 0x5C) (hmac_key (k \<noteq> 0) key)"
  have k64: "length ?key \<le> 64" by simp
  obtain junk where hk: "sha2_hmac_key loc sumb key (int (length key)) k = Some (?key @ junk, int (length ?key))"
  proof (cases "64 < length key")
    case True
    have "sha2 loc key (int (length key)) sumb k = Some (sha_digest (k \<noteq> 0) key @ drop (if k = 0 then 32 else 28) sumb)"
      using sha2_sound[OF wide buf(1) key sumb, of "[]" k] by simp
    then show ?thesis using that True by (simp add: sha2_hmac_key_def)
  next
    case False
    then show ?thesis using that[of "[]"] by (simp add: sha2_hmac_key_def)
  qed
  have pads: "sha2_hmac_pads (?key @ junk) (int (length ?key)) = Some (?i, ?o)"
    using sha2_hmac_pads_xor[OF k64, of junk] by (simp only: hmac_key_def Let_def)
  let ?c = "sha2_starts (ctx\<lparr>sha_ipad := ?i, sha_opad := ?o\<rparr>) k"
  have "sha2_has ?c k []" by (rule sha2_has_starts[OF wide]) (simp add: buf(2))
  moreover have "length ?i < 2 ^ 31" by simp
  ultimately obtain c where c: "\<forall>junk. sha2_update ?c (?i @ junk) (int (length ?i)) = Some c" "sha2_has c k ([] @ ?i)"
    "sha_ipad c = sha_ipad ?c" "sha_opad c = sha_opad ?c"
    using sha2_has_update by blast
  from c(1)[rule_format, of "[]"] have "sha2_update ?c (sha_ipad ?c) 64 = Some c" by simp
  then have "sha2_hmac_starts loc sumb ctx key (int (length key)) k = Some c"
    by (simp only: sha2_hmac_starts_def hk pads Option.bind.bind_lunit prod.case Let_def)
  then show ?thesis using c by simp
qed

lemma sha2_hmac_finish_sound:
  assumes has: "sha2_has (c :: 'w::len word sha2_context) k (map (xor 0x36) (hmac_key (k \<noteq> 0) key) @ m)"
    and opad: "sha_opad c = map (xor 0x5C) (hmac_key (k \<noteq> 0) key)"
    and out: "length tmpbuf = 32" "length outp = 32"
  shows "\<exists>c'. sha2_hmac_finish tmpbuf c outp
      = Some (c', hmac_digest (k \<noteq> 0) key m @ drop (if k = 0 then 32 else 28) outp)
    \<and> sha_ipad c' = sha_ipad c \<and> sha_opad c' = sha_opad c \<and> is224 c' = k \<and> length (sha_buffer c') = 64"
proof -
  let ?i = "map (xor 0x36) (hmac_key (k \<noteq> 0) key)" and ?o = "map (xor 0x5C) (hmac_key (k \<noteq> 0) key)"
  let ?d = "sha_digest (k \<noteq> 0) (?i @ m)"
  have wide: "32 \<le> LENGTH('w)" using has by (auto simp: sha2_has_def sha2.holds_def sha2_counted_def)
  have k: "is224 c = k" using has by (simp add: sha2_has_def)
  obtain c1 where c1: "sha2_finish c tmpbuf = Some (c1, ?d @ drop (if k = 0 then 32 else 28) tmpbuf)"
    "length (sha_buffer c1) = 64" "sha_ipad c1 = sha_ipad c" "sha_opad c1 = sha_opad c"
    using sha2_has_finish[OF has out(1)] .
  let ?s = "sha2_starts c1 k"
  have "sha2_has ?s k []" by (rule sha2_has_starts[OF wide c1(2)])
  moreover have "length ?o < 2 ^ 31" by simp
  ultimately obtain c2 where c2: "\<forall>junk. sha2_update ?s (?o @ junk) (int (length ?o)) = Some c2" "sha2_has c2 k ([] @ ?o)"
    "sha_ipad c2 = sha_ipad ?s" "sha_opad c2 = sha_opad ?s"
    using sha2_has_update by blast
  have u2: "sha2_update ?s (sha_opad ?s) 64 = Some c2"
    using c2(1)[rule_format, of "[]"] by (simp add: c1(4) opad)
  have "length ?d < 2 ^ 31" by simp
  then obtain c3 where c3: "\<forall>junk. sha2_update c2 (?d @ junk) (int (length ?d)) = Some c3" "sha2_has c3 k (([] @ ?o) @ ?d)"
    "sha_ipad c3 = sha_ipad c2" "sha_opad c3 = sha_opad c2"
    using sha2_has_update[OF c2(2)] by blast
  have u3: "sha2_update c2 (?d @ drop (if k = 0 then 32 else 28) tmpbuf) (if k = 0 then 32 else 28) = Some c3"
    using c3(1)[rule_format, of "drop (if k = 0 then 32 else 28) tmpbuf"] by (simp split: if_splits)
  obtain c4 where c4: "sha2_finish c3 outp = Some (c4, sha_digest (k \<noteq> 0) (([] @ ?o) @ ?d) @ drop (if k = 0 then 32 else 28) outp)"
    "length (sha_buffer c4) = 64" "sha_ipad c4 = sha_ipad c3" "sha_opad c4 = sha_opad c3"
    using sha2_has_finish[OF c3(2) out(2)] .
  have "is224 c4 = k"
  proof -
    have "is224 c3 = k" using c3(2) by (simp add: sha2_has_def)
    then show ?thesis using c4(1) sha2_update_frame
      by (auto simp: sha2_finish_def Let_def Option.bind_eq_Some_conv dest!: sha2_update_frame)
  qed
  moreover have "sha2_hmac_finish tmpbuf c outp
      = Some (c4, hmac_digest (k \<noteq> 0) key m @ drop (if k = 0 then 32 else 28) outp)"
    unfolding sha2_hmac_finish_def Let_def k c1(1) Option.bind.bind_lunit prod.case u2 u3 c4(1)
    by (simp add: hmac_digest_def)
  ultimately show ?thesis using c4 c3 c2 c1 by auto
qed

lemma sha2_hmac_reset_sound:
  assumes wide: "32 \<le> LENGTH('w)" and c: "length (sha_buffer (c :: 'w::len word sha2_context)) = 64" "is224 c = k"
    "sha_ipad c = map (xor 0x36) (hmac_key (k \<noteq> 0) key)"
  shows "\<exists>c'. sha2_hmac_reset c = Some c' \<and> sha2_has c' k (map (xor 0x36) (hmac_key (k \<noteq> 0) key)) \<and>
    sha_opad c' = sha_opad c"
proof -
  let ?i = "map (xor 0x36) (hmac_key (k \<noteq> 0) key)"
  have "length ?i < 2 ^ 31" by simp
  with sha2_has_starts[OF wide c(1), of k] obtain c' where c': "\<forall>junk. sha2_update (sha2_starts c k) (?i @ junk) (int (length ?i)) = Some c'"
    "sha2_has c' k ([] @ ?i)" "sha_ipad c' = sha_ipad (sha2_starts c k)" "sha_opad c' = sha_opad (sha2_starts c k)"
    using sha2_has_update by blast
  from c'(1)[rule_format, of "[]"] show ?thesis using c' by (simp add: sha2_hmac_reset_def Let_def c)
qed

text \<open>The message part of an HMAC, from a context that has absorbed the inner key.\<close>

lemma sha2_hmac_message:
  assumes "sha2_has (c :: 'w::len word sha2_context) k (map (xor 0x36) (hmac_key (k \<noteq> 0) key))"
    "sha_ipad c = map (xor 0x36) (hmac_key (k \<noteq> 0) key)"
    "sha_opad c = map (xor 0x5C) (hmac_key (k \<noteq> 0) key)"
    "\<forall>bs\<in>set pieces. length bs < 2 ^ 31" "length tmpbuf = 32" "length outp = 32"
  shows "\<exists>c'. foldM (\<lambda>c bs. sha2_hmac_update c bs (int (length bs))) c pieces \<bind> (\<lambda>c. sha2_hmac_finish tmpbuf c outp)
      = Some (c', hmac_digest (k \<noteq> 0) key (concat pieces) @ drop (if k = 0 then 32 else 28) outp)
    \<and> sha_ipad c' = sha_ipad c \<and> sha_opad c' = sha_opad c \<and> is224 c' = k \<and> length (sha_buffer c') = 64"
proof -
  obtain c1 where c1: "foldM (\<lambda>c bs. sha2_update c bs (int (length bs))) c pieces = Some c1"
    "sha2_has c1 k (map (xor 0x36) (hmac_key (k \<noteq> 0) key) @ concat pieces)" "sha_ipad c1 = sha_ipad c" "sha_opad c1 = sha_opad c"
    using sha2_has_updates[OF assms(1,4)] by blast
  from sha2_hmac_finish_sound[OF c1(2) _ assms(5,6)] c1 assms(3) show ?thesis
    by (simp add: sha2_hmac_update_def)
qed

text \<open>
  C10: the HMAC of \<open>sha2.c\<close> is that of RFC 2104 over the digest of FIPS 180, for keys of every length that an
  \<open>int\<close> counts (those longer than 64 bytes are hashed first) and messages in any pieces; after a reset the
  same context authenticates the next message with the same key, and the one-call form returns the same.
\<close>

theorem sha2_hmac_digest:
  fixes loc ctx :: "'w::len word sha2_context"
  assumes "32 \<le> LENGTH('w)" "length (sha_buffer loc) = 64" "length (sha_buffer ctx) = 64"
    "length sumb = 32" "length tmpbuf = 32" "length outp = 32" "length key < 2 ^ 31" "length m < 2 ^ 31"
    "\<forall>bs\<in>set pieces. length bs < 2 ^ 31" "\<forall>bs\<in>set pieces'. length bs < 2 ^ 31"
  shows "\<exists>c0 c1 c2 c3.
      sha2_hmac_starts loc sumb ctx key (int (length key)) k = Some c0
    \<and> foldM (\<lambda>c bs. sha2_hmac_update c bs (int (length bs))) c0 pieces \<bind> (\<lambda>c. sha2_hmac_finish tmpbuf c outp)
      = Some (c1, hmac_digest (k \<noteq> 0) key (concat pieces) @ drop (if k = 0 then 32 else 28) outp)
    \<and> sha2_hmac_reset c1 = Some c2
    \<and> foldM (\<lambda>c bs. sha2_hmac_update c bs (int (length bs))) c2 pieces' \<bind> (\<lambda>c. sha2_hmac_finish tmpbuf c outp)
      = Some (c3, hmac_digest (k \<noteq> 0) key (concat pieces') @ drop (if k = 0 then 32 else 28) outp)
    \<and> sha2_hmac loc sumb tmpbuf ctx key (int (length key)) m (int (length m)) outp k
      = Some (hmac_digest (k \<noteq> 0) key m @ drop (if k = 0 then 32 else 28) outp)"
proof -
  obtain c0 where c0: "sha2_hmac_starts loc sumb ctx key (int (length key)) k = Some c0"
    "sha2_has c0 k (map (xor 0x36) (hmac_key (k \<noteq> 0) key))" "sha_ipad c0 = map (xor 0x36) (hmac_key (k \<noteq> 0) key)"
    "sha_opad c0 = map (xor 0x5C) (hmac_key (k \<noteq> 0) key)"
    using sha2_hmac_starts_sound[OF assms(1-4,7), of k] by blast
  obtain c1 where c1: "foldM (\<lambda>c bs. sha2_hmac_update c bs (int (length bs))) c0 pieces \<bind> (\<lambda>c. sha2_hmac_finish tmpbuf c outp)
      = Some (c1, hmac_digest (k \<noteq> 0) key (concat pieces) @ drop (if k = 0 then 32 else 28) outp)"
    "sha_ipad c1 = sha_ipad c0" "sha_opad c1 = sha_opad c0" "is224 c1 = k" "length (sha_buffer c1) = 64"
    using sha2_hmac_message[OF c0(2-4) assms(9,5,6)] by blast
  obtain c2 where c2: "sha2_hmac_reset c1 = Some c2" "sha2_has c2 k (map (xor 0x36) (hmac_key (k \<noteq> 0) key))"
    "sha_opad c2 = sha_opad c1"
    using sha2_hmac_reset_sound[OF assms(1) c1(5,4), of key] c1(2) c0(3) by auto
  have "sha_ipad c2 = sha_ipad c1"
    using c2(1) sha2_update_frame by (fastforce simp: sha2_hmac_reset_def Let_def)
  then obtain c3 where c3: "foldM (\<lambda>c bs. sha2_hmac_update c bs (int (length bs))) c2 pieces' \<bind> (\<lambda>c. sha2_hmac_finish tmpbuf c outp)
      = Some (c3, hmac_digest (k \<noteq> 0) key (concat pieces') @ drop (if k = 0 then 32 else 28) outp)"
    using sha2_hmac_message[OF c2(2) _ _ assms(10,5,6)] c1 c0 c2(3) by auto
  have "\<forall>bs\<in>set [m]. length bs < 2 ^ 31" using assms(8) by simp
  from sha2_hmac_message[OF c0(2-4) this assms(5,6)]
  have "sha2_hmac loc sumb tmpbuf ctx key (int (length key)) m (int (length m)) outp k
      = Some (hmac_digest (k \<noteq> 0) key m @ drop (if k = 0 then 32 else 28) outp)"
    by (auto simp: sha2_hmac_def c0(1) Option.bind_eq_Some_conv)
  then show ?thesis using c0(1) c1(1) c2(1) c3 by blast
qed

theorem sha2_hmac_digest_witness:
  "sha2_hmac \<lparr>sha_total = [], sha_state = [], sha_buffer = replicate 64 0, sha_ipad = [], sha_opad = [], is224 = 0\<rparr>
      (replicate 32 0) (replicate 32 0)
      (\<lparr>sha_total = [], sha_state = [], sha_buffer = replicate 64 0, sha_ipad = [], sha_opad = [], is224 = 0\<rparr> :: 64 word sha2_context)
      [74, 101, 102, 101] 4 [119, 104, 97, 116] 4 (replicate 32 0) 0
    = Some (hmac_digest False [74, 101, 102, 101] [119, 104, 97, 116])"
  using sha2_hmac_digest[where loc = "\<lparr>sha_total = [], sha_state = [], sha_buffer = replicate 64 0, sha_ipad = [], sha_opad = [], is224 = 0\<rparr> :: 64 word sha2_context"
      and ctx = "\<lparr>sha_total = [], sha_state = [], sha_buffer = replicate 64 0, sha_ipad = [], sha_opad = [], is224 = 0\<rparr>"
      and sumb = "replicate 32 0" and tmpbuf = "replicate 32 0" and outp = "replicate 32 0"
      and key = "[74, 101, 102, 101]" and m = "[119, 104, 97, 116]" and pieces = "[]" and pieces' = "[]" and k = 0]
  by auto

theorem sha2_digest_witness:
  "sha2 (\<lparr>sha_total = [], sha_state = [], sha_buffer = replicate 64 0, sha_ipad = [], sha_opad = [], is224 = 0\<rparr> :: 64 word sha2_context)
      [97, 98, 99] 3 (replicate 32 0) 1
    = Some (sha_digest True [97, 98, 99] @ replicate 4 0)"
  using sha2_digest[where c = "\<lparr>sha_total = [], sha_state = [], sha_buffer = replicate 64 0, sha_ipad = [], sha_opad = [], is224 = 0\<rparr> :: 64 word sha2_context"
      and outp = "replicate 32 0" and pieces = "[]" and m = "[97, 98, 99]" and f = "[]" and k = 1 and err = False]
  by simp

end
