(* ===== verification/Rtsp_Client.thy ===== *)
theory Rtsp_Client
  imports Rtp
begin

text \<open>
  The receiving side of the RTSP client \<open>A-V/libRtspClient\<close>: the packets of the RTP sockets and the
  stream of the RTSP socket (\<open>sd_handler.c\<close>) and the RTP payloads that are put together to frames
  (\<open>rtp.c\<close>). The client has structures of its own under the names of the server's; they are prefixed
  here. A pointer into a buffer is the list of the bytes from there to the end of the buffer.

  The application's callback \<open>store_frm\<close> reads the frame it is handed: the model lists the calls.
  What follows a response on the RTSP socket (\<open>handle_rtsp_resp\<close>) is an argument of the functions
  of the stream, on whatever else the session holds.
\<close>

subsection \<open>The session\<close>

text \<open>\<open>FRM_TYPE_UNSET\<close> is the 0 that the zeroed session starts with; the enumeration begins at 1.\<close>

datatype cli_frm_type = FRM_TYPE_UNSET | FRM_TYPE_IF | FRM_TYPE_BF | FRM_TYPE_PF | FRM_TYPE_AF

record cli_frm_info =
  cf_buf :: "u8 list"
  cf_sz :: u32
  cf_type :: cli_frm_type

record last_data =
  last_buf :: "u8 list"
  last_sz :: u32

record cli_sess =
  frm_hdr_sz :: u32
  cli_frm :: cli_frm_info
  stored :: "cli_frm_info list"
  last_data :: last_data

definition RECV_BUF_SZ :: nat where "RECV_BUF_SZ = 102400"

subsection \<open>RTP payloads\<close>

text \<open>\<open>memcpy(frm_buf + frm_sz, bs, n)\<close> and \<open>frm_sz += n\<close>, behind the space of the user's header.\<close>

definition frm_append :: "u8 list \<Rightarrow> 'z cli_sess_scheme \<Rightarrow> 'z cli_sess_scheme option" where
  "frm_append bs s = do {
     buf \<leftarrow> memcpy (cf_buf (cli_frm s)) (unat (frm_hdr_sz s) + unat (cf_sz (cli_frm s))) bs;
     Some (s\<lparr>cli_frm := (cli_frm s)\<lparr>cf_buf := buf, cf_sz := cf_sz (cli_frm s) + of_nat (length bs)\<rparr>\<rparr>) }"

definition nalu_frm_type :: "u8 \<Rightarrow> cli_frm_type" where
  "nalu_frm_type nalu_hdr = (if and nalu_hdr 0x1F = 1 then FRM_TYPE_PF else FRM_TYPE_IF)"

definition store_frm :: "cli_frm_type \<Rightarrow> 'z cli_sess_scheme \<Rightarrow> 'z cli_sess_scheme" where
  "store_frm t s = (let frm = (cli_frm s)\<lparr>cf_type := t\<rparr> in
     s\<lparr>stored := stored s @ [frm], cli_frm := frm\<lparr>cf_sz := 0\<rparr>\<rparr>)"

text \<open>The local variable \<open>frm_type\<close> has no value until a payload sets it, and the marker reads it.
  \<open>sz - sizeof(*hdrp)\<close> is a \<open>size_t\<close> and wraps around.\<close>

definition handle_rtp_pkt :: "media_type \<Rightarrow> u8 list \<Rightarrow> u32 \<Rightarrow> 'z cli_sess_scheme \<Rightarrow> 'z cli_sess_scheme option" where
  "handle_rtp_pkt media bytes sz s = do {
     b1 \<leftarrow> rd bytes 1;
     let pt = and b1 0x7F;
     let pl_sz = (ucast sz - 12 :: u64);
     (type, s) \<leftarrow> (if pt = RTP_PT_H264 then do {
         pl0 \<leftarrow> rd bytes 12;
         let nalu_pt = and pl0 0x1F;
         if 1 \<le> nalu_pt \<and> nalu_pt \<le> 23 then do {
           s \<leftarrow> frm_append [0, 0, 0, 1] s;
           pl \<leftarrow> slice bytes 12 (unat pl_sz);
           s \<leftarrow> frm_append pl s;
           Some (Some (nalu_frm_type pl0), s) }
         else if nalu_pt = NALU_PT_FU_A then do {
           pl1 \<leftarrow> rd bytes 13;
           let nalu_hdr = or (and pl0 0xE0) (and pl1 0x1F);
           s \<leftarrow> (if and pl1 0x80 \<noteq> 0 then do {
               s \<leftarrow> frm_append [0, 0, 0, 1] s;
               frm_append [nalu_hdr] s }
             else Some s);
           pl \<leftarrow> slice bytes 14 (unat (pl_sz - 2));
           s \<leftarrow> frm_append pl s;
           Some (Some (nalu_frm_type nalu_hdr), s) }
         else Some (None, s) }
       else if pt = RTP_PT_PCMA \<or> pt = RTP_PT_PCMU then Some (Some FRM_TYPE_AF, s)
       else Some (None, s));
     if drop_bit 7 b1 \<noteq> 0 then (case type of None \<Rightarrow> None | Some t \<Rightarrow> Some (store_frm t s))
     else Some s }"

definition handle_rtcp_pkt :: "media_type \<Rightarrow> u8 list \<Rightarrow> u32 \<Rightarrow> 'z cli_sess_scheme \<Rightarrow> 'z cli_sess_scheme" where
  "handle_rtcp_pkt media bytes sz s = s"

subsection \<open>The RTP socket\<close>

text \<open>A datagram: what \<open>recvfrom\<close> leaves in the zeroed buffer. An empty one, like an error, is \<open>-1\<close>.\<close>

definition handle_rtp_dgram :: "media_type \<Rightarrow> u8 list \<Rightarrow> 'z cli_sess_scheme \<Rightarrow> (int \<times> 'z cli_sess_scheme) option" where
  "handle_rtp_dgram media d s = (let d = take RECV_BUF_SZ d in
     if d = [] then Some (- 1, s)
     else do {
       s \<leftarrow> handle_rtp_pkt media (d @ replicate (RECV_BUF_SZ - length d) 0) (of_nat (length d)) s;
       Some (0, s) })"

subsection \<open>The RTSP socket\<close>

text \<open>\<open>ntohs(intlvdp->sz)\<close> at a position of a buffer.\<close>

definition intlvd_sz :: "u8 list \<Rightarrow> nat \<Rightarrow> nat option" where
  "intlvd_sz buf i = do {
     lo \<leftarrow> rd buf (i + 2);
     hi \<leftarrow> rd buf (i + 3);
     Some (unat (htons (or (ucast lo) (push_bit 8 (ucast hi))))) }"

abbreviation (input) INTLVD_CHN_RTP_V :: u8 where "INTLVD_CHN_RTP_V \<equiv> 0"
abbreviation (input) INTLVD_CHN_RTCP_V :: u8 where "INTLVD_CHN_RTCP_V \<equiv> 1"
abbreviation (input) INTLVD_CHN_RTP_A :: u8 where "INTLVD_CHN_RTP_A \<equiv> 2"
abbreviation (input) INTLVD_CHN_RTCP_A :: u8 where "INTLVD_CHN_RTCP_A \<equiv> 3"

type_synonym 'z resp_handler = "u8 list \<Rightarrow> u32 \<Rightarrow> 'z cli_sess_scheme \<Rightarrow> 'z cli_sess_scheme option"

text \<open>The failing \<open>assert\<close> has no result.\<close>

definition handle_intlvd_data :: "'z resp_handler \<Rightarrow> u8 list \<Rightarrow> u32 \<Rightarrow> 'z cli_sess_scheme \<Rightarrow> 'z cli_sess_scheme option" where
  "handle_intlvd_data on_resp bytes sz s = do {
     b0 \<leftarrow> rd bytes 0;
     if b0 = 0x24 then
       if sz > 4 then do {
         n \<leftarrow> intlvd_sz bytes 0;
         if n = unat sz - 4 then do {
           chn \<leftarrow> rd bytes 1;
           if chn = INTLVD_CHN_RTP_V then handle_rtp_pkt MEDIA_TYPE_VIDEO (drop 4 bytes) (sz - 4) s
           else if chn = INTLVD_CHN_RTP_A then handle_rtp_pkt MEDIA_TYPE_AUDIO (drop 4 bytes) (sz - 4) s
           else if chn = INTLVD_CHN_RTCP_V then Some (handle_rtcp_pkt MEDIA_TYPE_VIDEO (drop 4 bytes) (sz - 4) s)
           else if chn = INTLVD_CHN_RTCP_A then Some (handle_rtcp_pkt MEDIA_TYPE_AUDIO (drop 4 bytes) (sz - 4) s)
           else Some s }
         else None }
       else Some s
     else on_resp bytes sz s }"

definition rtsp_msg_complete :: "u8 list \<Rightarrow> u32 \<Rightarrow> bool option" where
  "rtsp_msg_complete bytes sz = (if sz < 4 then Some False
     else do {
       a \<leftarrow> rd bytes (unat (sz - 2));
       b \<leftarrow> rd bytes (unat (sz - 1));
       Some (a = 0x0D \<and> b = 0x0A) })"

text \<open>\<open>memcpy(lastp->buf + at, bs, n)\<close>, \<open>lastp->buf[lastp->sz] = 0\<close> and \<open>lastp->sz = n\<close>.\<close>

definition last_put :: "nat \<Rightarrow> u8 list \<Rightarrow> 'z cli_sess_scheme \<Rightarrow> 'z cli_sess_scheme option" where
  "last_put at bs s = do {
     buf \<leftarrow> memcpy (last_buf (last_data s)) at bs;
     Some (s\<lparr>last_data := (last_data s)\<lparr>last_buf := buf\<rparr>\<rparr>) }"

definition last_end :: "'z cli_sess_scheme \<Rightarrow> 'z cli_sess_scheme option" where
  "last_end s = do {
     buf \<leftarrow> wr (last_buf (last_data s)) (unat (last_sz (last_data s))) 0;
     Some (s\<lparr>last_data := (last_data s)\<lparr>last_buf := buf\<rparr>\<rparr>) }"

definition set_last_sz :: "u32 \<Rightarrow> 'z cli_sess_scheme \<Rightarrow> 'z cli_sess_scheme" where
  "set_last_sz n s = s\<lparr>last_data := (last_data s)\<lparr>last_sz := n\<rparr>\<rparr>"

text \<open>The packet that was begun by the data before: the position behind it in the received data, or
  \<open>None\<close> when it is still incomplete and the function returns.\<close>

definition finish_last :: "'z resp_handler \<Rightarrow> u8 list \<Rightarrow> nat \<Rightarrow> 'z cli_sess_scheme \<Rightarrow> (nat option \<times> 'z cli_sess_scheme) option" where
  "finish_last on_resp buf nr s = (let sz = last_sz (last_data s) in
     if sz \<ge> 4 then do {
       b0 \<leftarrow> rd (last_buf (last_data s)) 0;
       if b0 = 0x24 then do {
         n \<leftarrow> intlvd_sz (last_buf (last_data s)) 0;
         let need = unat (of_nat n + 4 - ucast sz :: u64);
         if nr \<ge> need then do {
           bs \<leftarrow> slice buf 0 need;
           s \<leftarrow> last_put (unat sz) bs s;
           s \<leftarrow> handle_intlvd_data on_resp (last_buf (last_data s)) (of_nat (n + 4)) s;
           Some (Some need, set_last_sz 0 s) }
         else do {
           bs \<leftarrow> slice buf 0 nr;
           s \<leftarrow> last_put (unat sz) bs s;
           Some (None, set_last_sz (sz + of_nat nr) s) } }
       else Some (Some 0, s) }
     else Some (Some 0, s))"

text \<open>The text from \<open>new\<close> up to \<open>ptr\<close> joins the data of last time: before a \<open>$\<close>, and at the end of the
  received data.\<close>

definition flush_text :: "'z resp_handler \<Rightarrow> u8 list \<Rightarrow> nat \<Rightarrow> nat \<Rightarrow> 'z cli_sess_scheme \<Rightarrow> 'z cli_sess_scheme option" where
  "flush_text on_resp buf new ptr s = do {
     bs \<leftarrow> slice buf new (ptr - new);
     s \<leftarrow> last_put (unat (last_sz (last_data s))) bs s;
     s \<leftarrow> last_end (set_last_sz (last_sz (last_data s) + of_nat (ptr - new)) s);
     s \<leftarrow> handle_intlvd_data on_resp (last_buf (last_data s)) (last_sz (last_data s)) s;
     Some (set_last_sz 0 s) }"

definition end_text :: "'z resp_handler \<Rightarrow> u8 list \<Rightarrow> nat \<Rightarrow> nat \<Rightarrow> 'z cli_sess_scheme \<Rightarrow> 'z cli_sess_scheme option" where
  "end_text on_resp buf new ptr s = do {
     bs \<leftarrow> slice buf new (ptr - new);
     s \<leftarrow> last_put (unat (last_sz (last_data s))) bs s;
     let s = set_last_sz (last_sz (last_data s) + of_nat (ptr - new)) s;
     complete \<leftarrow> rtsp_msg_complete (last_buf (last_data s)) (last_sz (last_data s));
     if complete then do {
       s \<leftarrow> last_end s;
       s \<leftarrow> handle_intlvd_data on_resp (last_buf (last_data s)) (last_sz (last_data s)) s;
       Some (set_last_sz 0 s) }
     else Some (set_last_sz (last_sz (last_data s) + of_nat (ptr - new)) s) }"

function recv_loop :: "'z resp_handler \<Rightarrow> u8 list \<Rightarrow> nat \<Rightarrow> nat \<Rightarrow> nat \<Rightarrow> 'z cli_sess_scheme \<Rightarrow> 'z cli_sess_scheme option" where
  "recv_loop on_resp buf ptr left new s = (if left > 0 then do {
     c \<leftarrow> rd buf ptr;
     if c = 0x24 then do {
       (new, s) \<leftarrow> (if ptr \<noteq> new then do { s \<leftarrow> flush_text on_resp buf new ptr s; Some (ptr, s) } else Some (new, s));
       n \<leftarrow> (if left \<ge> 4 then do { n \<leftarrow> intlvd_sz buf new; Some (if left \<ge> 4 + n then Some n else None) } else Some None);
       case n of
         Some n \<Rightarrow> do {
           s \<leftarrow> handle_intlvd_data on_resp (drop new buf) (of_nat (4 + n)) s;
           recv_loop on_resp buf (ptr + (4 + n)) (left - (4 + n)) (ptr + (4 + n)) s }
       | None \<Rightarrow> do {
           bs \<leftarrow> slice buf new left;
           s \<leftarrow> last_put 0 bs s;
           Some (set_last_sz (of_nat left) s) } }
     else if left - 1 = 0 then end_text on_resp buf new (Suc ptr) s
     else recv_loop on_resp buf (Suc ptr) (left - 1) new s }
   else Some s)"
  by pat_completeness auto
termination
  by (relation "measure (\<lambda>(on_resp, buf, ptr, left, new, s). left)") auto

declare recv_loop.simps [simp del]

text \<open>One call: the bytes that \<open>recv\<close> leaves in the zeroed buffer; none of them, like an error, is \<open>-1\<close>.\<close>

definition recv_from_rtsp_sd :: "'z resp_handler \<Rightarrow> u8 list \<Rightarrow> 'z cli_sess_scheme \<Rightarrow> (int \<times> 'z cli_sess_scheme) option" where
  "recv_from_rtsp_sd on_resp d s = (
     let nr = length d; buf = d @ replicate (RECV_BUF_SZ - nr) 0 in
     if nr = 0 then Some (- 1, s)
     else do {
       (start, s) \<leftarrow> finish_last on_resp buf nr s;
       case start of
         None \<Rightarrow> Some (0, s)
       | Some ptr \<Rightarrow> do {
           s \<leftarrow> recv_loop on_resp buf ptr (nr - ptr) ptr s;
           Some (0, s) } })"

end
