(* ===== verification/Rtsp_Client_Correct.thy ===== *)
theory Rtsp_Client_Correct
  imports Rtsp_Client Rtp_Correct
begin

text \<open>
  The client's depacketiser against the packets of the server's packetiser: \<open>grown bs s s'\<close> says that the
  frame under construction has grown by \<open>bs\<close>, a packet adds \<open>added\<close> of its payload, and the payloads of a NAL
  unit add the unit behind a start code (\<open>added_bodies\<close>). The locale \<open>rtp_transport\<close> is the interface
  between the sockets and the depacketiser; it is interpreted on the datagrams here and on the interleaved
  blocks in \<open>Rtsp_Stream_Correct\<close>.
\<close>

subsection \<open>The frame under construction\<close>

definition frm_ok :: "'z cli_sess_scheme \<Rightarrow> bool" where
  "frm_ok s \<longleftrightarrow> unat (frm_hdr_sz s) + unat (cf_sz (cli_frm s)) \<le> length (cf_buf (cli_frm s)) \<and>
     length (cf_buf (cli_frm s)) < 2 ^ 32"

definition frm_bytes :: "u32 \<Rightarrow> cli_frm_info \<Rightarrow> u8 list" where
  "frm_bytes hdr f = take (unat (cf_sz f)) (drop (unat hdr) (cf_buf f))"

definition space :: "'z cli_sess_scheme \<Rightarrow> nat" where
  "space s = length (cf_buf (cli_frm s)) - unat (frm_hdr_sz s) - unat (cf_sz (cli_frm s))"

text \<open>\<open>s'\<close> is \<open>s\<close> with the bytes \<open>bs\<close> more in its frame.\<close>

definition grown :: "u8 list \<Rightarrow> 'z cli_sess_scheme \<Rightarrow> 'z cli_sess_scheme \<Rightarrow> bool" where
  "grown bs s s' \<longleftrightarrow> s' = s\<lparr>cli_frm := cli_frm s'\<rparr> \<and> frm_ok s' \<and> space s = space s' + length bs \<and>
     frm_bytes (frm_hdr_sz s) (cli_frm s') = frm_bytes (frm_hdr_sz s) (cli_frm s) @ bs"

lemma grown_trans: "grown xs s t \<Longrightarrow> grown ys t u \<Longrightarrow> grown (xs @ ys) s u"
  unfolding grown_def by (cases s, cases t, cases u) simp

lemma frm_append_grown:
  assumes "frm_ok s" "length bs \<le> space s"
  shows "\<exists>s'. frm_append bs s = Some s' \<and> grown bs s s'"
proof -
  let ?f = "cli_frm s" and ?h = "unat (frm_hdr_sz s)"
  have fits: "?h + unat (cf_sz ?f) + length bs \<le> length (cf_buf ?f)" using assms by (auto simp: frm_ok_def space_def)
  then have n: "unat (cf_sz ?f + of_nat (length bs)) = unat (cf_sz ?f) + length bs"
    using assms(1) by (simp add: frm_ok_def unat_word_ariths unsigned_of_nat take_bit_eq_mod)
  let ?s = "s\<lparr>cli_frm := ?f\<lparr>cf_buf := overlay (cf_buf ?f) (?h + unat (cf_sz ?f)) bs, cf_sz := cf_sz ?f + of_nat (length bs)\<rparr>\<rparr>"
  have "frm_append bs s = Some ?s" using fits by (simp add: frm_append_def)
  moreover have "grown bs s ?s"
    using fits assms by (auto simp: grown_def frm_ok_def space_def frm_bytes_def n overlay_def drop_take)
  ultimately show ?thesis by blast
qed

subsection \<open>One packet\<close>

definition added :: "u8 list \<Rightarrow> u8 list" where
  "added b = (if and (hd b) 0x1F = 28
     then (if bit (b ! 1) 7 then [0, 0, 0, 1, or (and (hd b) 0xE0) (and (b ! 1) 0x1F)] else []) @ drop 2 b
     else [0, 0, 0, 1] @ b)"

definition added_type :: "u8 list \<Rightarrow> cli_frm_type" where
  "added_type b = nalu_frm_type (if and (hd b) 0x1F = 28 then or (and (hd b) 0xE0) (and (b ! 1) 0x1F) else hd b)"

definition body_ok :: "u8 list \<Rightarrow> bool" where
  "body_ok b \<longleftrightarrow> length b \<le> 1424 \<and> (and (hd b) 0x1F = 28 \<and> 2 \<le> length b \<or> 1 \<le> length b \<and> 1 \<le> and (hd b) 0x1F \<and> and (hd b) 0x1F \<le> 23)"

lemma marker_byte:
  assumes "m = 0 \<or> m = 1"
  shows "and (or (push_bit 7 m) 96) 0x7F = (96 :: u8)" "drop_bit 7 (or (push_bit 7 m) 96 :: u8) = m"
  using assms by auto

lemma start_bit: "and (x :: u8) 0x80 \<noteq> 0 \<longleftrightarrow> bit x 7"
proof -
  have "and x 0x80 = (if bit x 7 then 0x80 else 0)"
    by (rule word8_eqI) (simp add: bit_simps)
  then show ?thesis by simp
qed

lemma pl_sz:
  assumes "n \<le> 1424"
  shows "unat (ucast (of_nat (12 + n) :: u32) - 12 :: u64) = n"
proof -
  have "(ucast (of_nat (12 + n) :: u32) :: u64) = of_nat (12 + n)"
    using assms by (intro unsigned_word_eqI) (simp add: unsigned_ucast_eq unsigned_of_nat take_bit_nat_eq_self del: of_nat_add)
  then have "ucast (of_nat (12 + n) :: u32) - 12 = (of_nat n :: u64)" by simp
  then show ?thesis using assms by (simp add: unsigned_of_nat take_bit_nat_eq_self)
qed

lemma started:
  assumes "frm_ok s" "length (if start then [0, 0, 0, 1, n] else []) \<le> space s"
  shows "\<exists>t. (if start then do { s \<leftarrow> frm_append [0, 0, 0, 1] s; frm_append [n] s } else Some s) = Some t \<and>
    grown (if start then [0, 0, 0, 1, n] else []) s t"
proof (cases start)
  case True
  obtain t where t: "frm_append [0, 0, 0, 1] s = Some t" "grown [0, 0, 0, 1] s t"
    using frm_append_grown[OF assms(1), of "[0, 0, 0, 1]"] assms(2) True by auto
  then obtain u where "frm_append [n] t = Some u" "grown [n] t u"
    using frm_append_grown[of t "[n]"] assms(2) True by (auto simp: grown_def)
  then show ?thesis using True t grown_trans[OF t(2)] by fastforce
next
  case False
  then show ?thesis using assms(1) by (simp add: grown_def)
qed

lemma handle_rtp_pkt_grown:
  assumes "hdr_ok h" "hdr_m h = 0 \<or> hdr_m h = 1" "body_ok b" "frm_ok s" "length (added b) \<le> space s"
  shows "\<exists>t. handle_rtp_pkt media (hdr_bytes h @ b @ junk) (of_nat (12 + length b)) s
      = Some (if hdr_m h = 1 then store_frm (added_type b) t else t) \<and> grown (added b) s t"
proof -
  let ?mem = "hdr_bytes h @ b @ junk"
  obtain p0 r where b: "b = p0 # r" using assms(3) by (cases b) (auto simp: body_ok_def)
  have b1: "rd ?mem 1 = Some (or (push_bit 7 (hdr_m h)) 96)"
    using assms(1) by (simp add: hdr_bytes_def bytes16_def bytes32_def hdr_ok_def)
  have at: "rd ?mem 12 = Some p0" "r \<noteq> [] \<Longrightarrow> rd ?mem 13 = Some (hd r)"
    using nth_append_length_plus[of "hdr_bytes h" "b @ junk" 0] nth_append_length_plus[of "hdr_bytes h" "b @ junk" 1]
    by (cases r; simp add: b)+
  have pl: "slice ?mem 12 (length b) = Some b" "r \<noteq> [] \<Longrightarrow> slice ?mem 14 (length b - 2) = Some (drop 2 b)"
    by (cases r; simp add: slice_def b)+
  have len: "unat (ucast (of_nat (12 + length b) :: u32) - 12 :: u64) = length b"
    using assms(3) by (intro pl_sz) (simp add: body_ok_def)
  then have len2: "unat (ucast (of_nat (12 + length b) :: u32) - 12 - 2 :: u64) = length b - 2" if "2 \<le> length b"
    using that by (subst unat_sub) (simp_all add: word_le_nat_alt)
  have store: "(if drop_bit 7 (or (push_bit 7 (hdr_m h)) 96 :: u8) \<noteq> 0 then Some (store_frm ty t) else Some t)
      = Some (if hdr_m h = 1 then store_frm ty t else t)" for ty and t :: "'a cli_sess_scheme"
    using assms(2) by auto
  note pt = marker_byte(1)[OF assms(2)]
  show ?thesis
  proof (cases "and p0 0x1F = 28")
    case False
    then have ty: "1 \<le> and p0 0x1F \<and> and p0 0x1F \<le> 23" using assms(3) by (simp add: body_ok_def b)
    have a: "added b = [0, 0, 0, 1] @ b" "added_type b = nalu_frm_type p0" using False by (simp_all add: added_def added_type_def b)
    obtain t where t: "frm_append [0, 0, 0, 1] s = Some t" "grown [0, 0, 0, 1] s t"
      using frm_append_grown[OF assms(4), of "[0, 0, 0, 1]"] assms(5) a by auto
    then have "frm_ok t" "length b \<le> space t" using assms(5) a by (simp_all add: grown_def)
    then obtain u where u: "frm_append b t = Some u" "grown b t u" using frm_append_grown by blast
    have "handle_rtp_pkt media ?mem (of_nat (12 + length b)) s
        = Some (if hdr_m h = 1 then store_frm (added_type b) u else u)"
      unfolding handle_rtp_pkt_def
      by (simp only: b1 Option.bind.bind_lunit Let_def pt at(1) ty t(1) len pl(1) u(1) if_True simp_thms prod.case option.case store a(2))
    then show ?thesis using grown_trans[OF t(2) u(2)] a(1) by auto
  next
    case fu: True
    then have two: "2 \<le> length b" "r \<noteq> []" "b ! 1 = hd r" using assms(3) by (cases r; simp add: body_ok_def b)+
    have ty: "\<not> (1 \<le> and p0 0x1F \<and> and p0 0x1F \<le> 23)" using fu by simp
    let ?n = "or (and p0 0xE0) (and (hd r) 0x1F)"
    let ?start = "if bit (hd r) 7 then [0, 0, 0, 1, ?n] else []"
    have a: "added b = ?start @ drop 2 b" "added_type b = nalu_frm_type ?n"
      using fu two by (simp_all add: added_def added_type_def b)
    obtain t where t: "(if and (hd r) 0x80 \<noteq> 0 then do { s \<leftarrow> frm_append [0, 0, 0, 1] s; frm_append [?n] s } else Some s) = Some t"
      "grown ?start s t"
      using started[OF assms(4), of "bit (hd r) 7" ?n] assms(5) a by (auto simp: start_bit)
    then have "frm_ok t" "length (drop 2 b) \<le> space t" using assms(5) a by (simp_all add: grown_def)
    then obtain u where u: "frm_append (drop 2 b) t = Some u" "grown (drop 2 b) t u" using frm_append_grown by blast
    have "handle_rtp_pkt media ?mem (of_nat (12 + length b)) s
        = Some (if hdr_m h = 1 then store_frm (added_type b) u else u)"
      unfolding handle_rtp_pkt_def
      by (simp only: b1 Option.bind.bind_lunit Let_def pt at(1) at(2)[OF two(2)] ty eqTrueI[OF fu] t(1) len2[OF two(1)] pl(2)[OF two(2)] u(1)
          if_True if_False simp_thms prod.case option.case store a(2))
    then show ?thesis using grown_trans[OF t(2) u(2)] a(1) by auto
  qed
qed

subsection \<open>The packets of a frame\<close>

fun each :: "('a \<Rightarrow> 's \<Rightarrow> 's option) \<Rightarrow> 'a list \<Rightarrow> 's \<Rightarrow> 's option" where
  "each f [] s = Some s"
| "each f (x # xs) s = f x s \<bind> each f xs"

lemma each_append: "each f (xs @ ys) s = each f xs s \<bind> each f ys"
  by (induction xs arbitrary: s) (auto split: bind_splits)

lemma added_fu:
  "concat (map added (fu_bodies n start r)) = (if start then [0, 0, 0, 1, n] else []) @ r"
proof (induction n start r rule: fu_bodies.induct)
  case (1 n start r)
  have one: "added (fu_idr n # fu_hdr start end n # x) = (if start then [0, 0, 0, 1, n] else []) @ x" for start "end" x
    by (simp add: added_def fu_header)
  show ?case
    using 1 by (subst fu_bodies.simps) (auto simp: one append_take_drop_id)
qed

lemma added_bodies:
  assumes "n \<noteq> []" "1 \<le> and (hd n) 0x1F" "and (hd n) 0x1F \<le> 23"
  shows "concat (map added (bodies n)) = [0, 0, 0, 1] @ n"
proof -
  have "and (hd n) 0x1F \<noteq> 28" using assms(3) by auto
  then show ?thesis using assms(1) by (cases n) (auto simp: bodies_def added_fu added_def)
qed



lemma body_ok_fu: "b \<in> set (fu_bodies n start r) \<Longrightarrow> body_ok b"
proof -
  have "\<forall>b \<in> set (fu_bodies n start r). body_ok b"
    by (induction n start r rule: fu_bodies.induct) (subst fu_bodies.simps, auto simp: body_ok_def)
  then show "b \<in> set (fu_bodies n start r) \<Longrightarrow> body_ok b" by blast
qed

lemma body_ok_bodies:
  assumes "n \<noteq> []" "1 \<le> and (hd n) 0x1F" "and (hd n) 0x1F \<le> 23"
  shows "\<forall>b \<in> set (bodies n). body_ok b"
  using assms body_ok_fu by (cases n) (auto simp: bodies_def body_ok_def)

lemma added_type_fu: "added_type (last (fu_bodies n start r)) = nalu_frm_type n"
proof (induction n start r rule: fu_bodies.induct)
  case (1 n start r)
  have one: "added_type (fu_idr n # fu_hdr start end n # x) = nalu_frm_type n" for start "end" x
    by (simp add: added_type_def fu_header)
  have "fu_bodies n False (drop 1422 r) \<noteq> []" by (subst fu_bodies.simps) simp
  then show ?case using 1 by (subst fu_bodies.simps) (auto simp: one)
qed

lemma added_type_bodies:
  assumes "n \<noteq> []" "and (hd n) 0x1F \<le> 23"
  shows "added_type (last (bodies n)) = nalu_frm_type (hd n)"
proof -
  have "and (hd n) 0x1F \<noteq> 28" using assms(2) by auto
  then show ?thesis using assms(1) by (cases n) (auto simp: bodies_def added_type_fu, simp add: added_type_def)
qed

text \<open>The RTP packets of a frame, without the framing of the transport; the last one is marked.\<close>

fun raw :: "rtp_hdr \<Rightarrow> u8 list list \<Rightarrow> u8 list list" where
  "raw h [] = []"
| "raw h (b # bs) = (hdr_bytes (h\<lparr>hdr_m := if bs = [] then 1 else 0\<rparr>) @ b) # raw (update_seq h) bs"

text \<open>A way from the socket to \<open>handle_rtp_pkt\<close>: whatever lies behind the packet in the buffer.\<close>

locale rtp_transport =
  fixes deliver :: "u8 list \<Rightarrow> 'z cli_sess_scheme \<Rightarrow> 'z cli_sess_scheme option"
  assumes deliver_pkt: "12 < length p \<Longrightarrow> length p \<le> 1436 \<Longrightarrow>
    \<exists>junk. deliver p s = handle_rtp_pkt MEDIA_TYPE_VIDEO (p @ junk) (of_nat (length p)) s"
begin

lemma deliver_grown:
  assumes "hdr_ok h" "hdr_m h = 0 \<or> hdr_m h = 1" "body_ok b" "frm_ok s" "length (added b) \<le> space s"
  shows "\<exists>t. deliver (hdr_bytes h @ b) s = Some (if hdr_m h = 1 then store_frm (added_type b) t else t) \<and> grown (added b) s t"
proof -
  have "12 < length (hdr_bytes h @ b)" "length (hdr_bytes h @ b) \<le> 1436" using assms(3) by (auto simp: body_ok_def)
  then obtain junk where "deliver (hdr_bytes h @ b) s
      = handle_rtp_pkt MEDIA_TYPE_VIDEO (hdr_bytes h @ b @ junk) (of_nat (12 + length b)) s"
    using deliver_pkt[of "hdr_bytes h @ b" s] by auto
  then show ?thesis using handle_rtp_pkt_grown[OF assms] by metis
qed

lemma each_deliver:
  assumes "hdr_ok h" "\<forall>b \<in> set bs. body_ok b" "bs \<noteq> []" "frm_ok s" "length (concat (map added bs)) \<le> space s"
  shows "\<exists>t. each deliver (raw h bs) s = Some (store_frm (added_type (last bs)) t) \<and> grown (concat (map added bs)) s t"
  using assms
proof (induction bs arbitrary: h s)
  case (Cons b bs)
  let ?h = "h\<lparr>hdr_m := if bs = [] then 1 else 0\<rparr>"
  obtain t where t: "deliver (hdr_bytes ?h @ b) s = Some (if hdr_m ?h = 1 then store_frm (added_type b) t else t)"
    "grown (added b) s t"
    using deliver_grown[of ?h b s] Cons.prems by fastforce
  show ?case
  proof (cases "bs = []")
    case False
    have "hdr_ok (update_seq h)" "frm_ok t" "length (concat (map added bs)) \<le> space t"
      using Cons.prems t(2) by (simp_all add: grown_def)
    then obtain u where "each deliver (raw (update_seq h) bs) t = Some (store_frm (added_type (last bs)) u)"
      "grown (concat (map added bs)) t u"
      using Cons.IH[of "update_seq h" t] Cons.prems False by auto
    then show ?thesis using t False grown_trans[OF t(2)] by auto
  qed (use t in auto)
qed simp

text \<open>A whole frame: it is handed to the application, with start codes of four bytes.\<close>

lemma frame_stored:
  assumes "us \<noteq> []" "list_all (\<lambda>(c, n). start_code c \<and> nalu n) us" "hdr_ok h"
    "frm_ok c" "cf_sz (cli_frm c) = 0" "length (frame_of (map (\<lambda>(_, n). ([0, 0, 0, 1], n)) us)) \<le> space c"
  shows "\<exists>c' f. each deliver (raw h (concat (map bodies (map snd us)))) c = Some c' \<and> stored c' = stored c @ [f] \<and>
    frm_bytes (frm_hdr_sz c) f = frame_of (map (\<lambda>(_, n). ([0, 0, 0, 1], n)) us) \<and>
    cf_type f = nalu_frm_type (hd (snd (last us))) \<and> cf_sz (cli_frm c') = 0"
proof -
  define bs where "bs = concat (map bodies (map snd us))"
  have n: "n \<noteq> [] \<and> 1 \<le> and (hd n) 0x1F \<and> and (hd n) 0x1F \<le> 23" if "n \<in> snd ` set us" for n
    using assms(2) that by (auto simp: list_all_iff nalu_def)
  have ok: "\<forall>b \<in> set bs. body_ok b" using n body_ok_bodies by (fastforce simp: bs_def)
  have bytes: "concat (map added bs) = frame_of (map (\<lambda>(_, n). ([0, 0, 0, 1], n)) us)"
    using n unfolding bs_def by (induction us) (auto simp: frame_of_def added_bodies)
  have ne: "bs \<noteq> []" using assms(1) by (cases us) (simp_all add: bs_def)
  have "bs = concat (map bodies (map snd (butlast us))) @ bodies (snd (last us))"
    unfolding bs_def by (subst append_butlast_last_id[OF assms(1), symmetric]) (simp del: append_butlast_last_id)
  then have "last bs = last (bodies (snd (last us)))" by simp
  then have type: "added_type (last bs) = nalu_frm_type (hd (snd (last us)))"
    using n[of "snd (last us)"] assms(1) by (simp add: added_type_bodies)
  obtain t where t: "each deliver (raw h bs) c = Some (store_frm (added_type (last bs)) t)" "grown (concat (map added bs)) c t"
    using each_deliver[OF assms(3) ok ne assms(4)] assms(6) bytes by auto
  then have "stored t = stored c" "frm_bytes (frm_hdr_sz c) (cli_frm t) = concat (map added bs)"
    using assms(5) by (cases c; cases t; simp add: grown_def frm_bytes_def)+
  then show ?thesis
    using t(1) type bytes unfolding bs_def by (auto simp: store_frm_def Let_def frm_bytes_def)
qed

end

lemma wire_packets:
  assumes "\<forall>b \<in> set bs. length b \<le> 1424"
  shows "map wire (packets s 1 h bs) = map (\<lambda>p. (if intlvd_mode s
      then intlvd_bytes (tcp_rtp_chn (rtp_video s)) (of_nat (length p)) else []) @ p) (raw h bs)"
  using assms by (induction bs arbitrary: h) (auto simp: wire_rtp_pkt pkt_bytes_def)

definition dgram :: "u8 list \<Rightarrow> 'z cli_sess_scheme \<Rightarrow> 'z cli_sess_scheme option" where
  "dgram d s = do { (r, s) \<leftarrow> handle_rtp_dgram MEDIA_TYPE_VIDEO d s; Some s }"

lemma dgram_pkt:
  "12 < length p \<Longrightarrow> length p \<le> 1436 \<Longrightarrow>
    \<exists>junk. dgram p s = handle_rtp_pkt MEDIA_TYPE_VIDEO (p @ junk) (of_nat (length p)) s"
  by (intro exI[of _ "replicate (RECV_BUF_SZ - length p) 0"])
    (auto simp: dgram_def handle_rtp_dgram_def RECV_BUF_SZ_def Let_def)

interpretation udp: rtp_transport dgram
  by unfold_locales (rule dgram_pkt)

end
