(* ===== verification/Rtsp_Stream_Correct.thy ===== *)
theory Rtsp_Stream_Correct
  imports Rtsp_Client_Correct
begin

text \<open>
  The RTSP socket of the client. The effect of a block (\<open>handle_block\<close>) does not depend on what lies behind it
  in the buffer nor on the data of last time; \<open>pending p L\<close> says that the data of last time hold \<open>p\<close>, and one
  call takes them from the start of one block to the start of another (\<open>recv_blocks\<close>). The last part shows
  what happens where the framing fails: a cut header (\<open>stuck\<close>) and a response in two pieces.
\<close>

subsection \<open>Interleaved blocks\<close>

text \<open>A block of RFC 2326, 10.12; one that carries RTP holds a header and the first byte of the payload, and the
  second one too for a fragment.\<close>

definition rtp_sized :: "u8 list \<Rightarrow> bool" where
  "rtp_sized p \<longleftrightarrow> 13 \<le> length p \<and> (14 \<le> length p \<or> and (p ! 12) 0x1F \<noteq> 28)"

definition framed :: "u8 list \<Rightarrow> bool" where
  "framed b \<longleftrightarrow> 4 \<le> length b \<and> b ! 0 = 0x24 \<and> intlvd_sz b 0 = Some (length b - 4) \<and>
     (b ! 1 = 0 \<or> b ! 1 = 2 \<longrightarrow> rtp_sized (drop 4 b))"

text \<open>What the client does with a block.\<close>

definition handle_block :: "u8 list \<Rightarrow> 'z cli_sess_scheme \<Rightarrow> 'z cli_sess_scheme option" where
  "handle_block b s = handle_intlvd_data (\<lambda>_ _ _. None) b (of_nat (length b)) s"

abbreviation with_last :: "last_data \<Rightarrow> 'z cli_sess_scheme \<Rightarrow> 'z cli_sess_scheme" where
  "with_last L s \<equiv> s\<lparr>last_data := L\<rparr>"

lemma frm_append_last: "frm_append bs (with_last L s) = map_option (with_last L) (frm_append bs s)"
  by (simp add: frm_append_def memcpy_def)

lemma bind_with_last:
  assumes "\<And>s. g (with_last L s) = map_option (with_last L) (g s)"
  shows "map_option (with_last L) x \<bind> g = map_option (with_last L) (x \<bind> g)"
  using assms by (cases x) simp_all

lemma handle_rtp_pkt_last:
  "handle_rtp_pkt media bytes sz (with_last L s) = map_option (with_last L) (handle_rtp_pkt media bytes sz s)"
  unfolding handle_rtp_pkt_def Let_def
  by (auto simp: frm_append_last store_frm_def Let_def split: bind_splits option.splits)

lemma rtp_pkt_keeps_last:
  assumes "handle_rtp_pkt media bytes sz s = Some t"
  shows "last_data t = last_data s"
proof -
  have "Some t = map_option (with_last (last_data s)) (Some t)"
    using handle_rtp_pkt_last[of media bytes sz "last_data s" s] assms by simp
  then show ?thesis by (metis cli_sess.ext_inject cli_sess.surjective cli_sess.update_convs(4) option.map(2) option.inject)
qed

lemma handle_block_last: "handle_block b (with_last L s) = map_option (with_last L) (handle_block b s)"
  unfolding handle_block_def handle_intlvd_data_def
  by (auto simp: handle_rtp_pkt_last handle_rtcp_pkt_def split: bind_splits option.splits)

lemma each_block_last: "each handle_block bs (with_last L s) = map_option (with_last L) (each handle_block bs s)"
proof (induction bs arbitrary: s)
  case (Cons b bs)
  show ?case by (cases "handle_block b s") (simp_all add: handle_block_last Cons)
qed simp

text \<open>What lies behind a packet in the buffer does not matter.\<close>

lemma handle_rtp_pkt_junk:
  assumes "rtp_sized p" "length p < 2 ^ 32"
  shows "handle_rtp_pkt media (p @ junk) (of_nat (length p)) s = handle_rtp_pkt media p (of_nat (length p)) s"
proof -
  have "unat (of_nat (length p) :: u32) = length p" using assms(2) by (simp add: unsigned_of_nat take_bit_nat_eq_self)
  then have sz: "unat (ucast (of_nat (length p) :: u32) :: u64) = length p"
    using assms(2) by (simp add: unsigned_ucast_eq take_bit_nat_eq_self_iff)
  then have n: "unat (ucast (of_nat (length p) :: u32) - 12 :: u64) = length p - 12"
    using assms(1) by (subst unat_sub) (simp_all add: rtp_sized_def word_le_nat_alt)
  have rd: "rd (p @ junk) 1 = rd p 1" "rd (p @ junk) 12 = Some (p ! 12)" "rd p 12 = Some (p ! 12)"
    using assms(1) by (simp_all add: rtp_sized_def rd_def nth_append)
  have sl: "slice (p @ junk) 12 (length p - 12) = slice p 12 (length p - 12)"
    using assms(1) by (simp add: rtp_sized_def slice_def)
  show ?thesis
  proof (cases "and (p ! 12) 0x1F = 28")
    case False
    then have "(and (p ! 12) 0x1F = 28) = False" by simp
    then show ?thesis unfolding handle_rtp_pkt_def Let_def n rd sl Option.bind.bind_lunit by (simp only: if_False)
  next
    case True
    then have 14: "14 \<le> length p" using assms(1) by (simp add: rtp_sized_def)
    then have n2: "unat (ucast (of_nat (length p) :: u32) - 12 - 2 :: u64) = length p - 14"
      using n by (subst unat_sub) (simp_all add: word_le_nat_alt)
    have fu: "rd (p @ junk) 13 = rd p 13" "slice (p @ junk) 14 (length p - 14) = slice p 14 (length p - 14)"
      using 14 by (simp_all add: rd_def nth_append slice_def)
    show ?thesis unfolding handle_rtp_pkt_def Let_def n n2 rd sl fu ..
  qed
qed

lemma intlvd_sz_append: "i + 4 \<le> length a \<Longrightarrow> intlvd_sz (a @ r) i = intlvd_sz a i"
  by (simp add: intlvd_sz_def rd_def nth_append)

lemma intlvd_sz_shift: "intlvd_sz (a @ r) (length a + i) = intlvd_sz r i"
  by (simp add: intlvd_sz_def rd_def nth_append)

lemma u16_bound: "unat (w :: u16) < 65536"
  using unsigned_less[of w] by simp

lemma intlvd_sz_bound: "intlvd_sz buf i = Some n \<Longrightarrow> n < 65536"
  by (auto simp: intlvd_sz_def u16_bound split: bind_splits)

lemma framed_length: "framed b \<Longrightarrow> length b < 65540"
  using intlvd_sz_bound by (fastforce simp: framed_def)

lemma handle_framed:
  assumes "framed b" "sz = of_nat (length b)"
  shows "handle_intlvd_data on_resp (b @ junk) sz s = handle_block b s"
proof -
  have len: "4 \<le> length b" "length b < 65540" using assms(1) framed_length by (auto simp: framed_def)
  then have unat: "unat (of_nat (length b) :: u32) = length b" by (simp add: unsigned_of_nat take_bit_nat_eq_self)
  have sub: "of_nat (length b) - 4 = (of_nat (length (drop 4 b)) :: u32)" using len by (simp add: of_nat_diff)
  have rtp: "handle_rtp_pkt media (drop 4 b @ junk) (of_nat (length (drop 4 b))) s
      = handle_rtp_pkt media (drop 4 b) (of_nat (length (drop 4 b))) s" if "b ! 1 = 0 \<or> b ! 1 = 2" for media
    using that assms(1) len by (intro handle_rtp_pkt_junk) (auto simp: framed_def)
  have rd: "rd (b @ junk) 0 = Some 0x24" "rd b 0 = Some 0x24" "rd (b @ junk) 1 = Some (b ! 1)" "rd b 1 = Some (b ! 1)"
    using assms(1) by (auto simp: framed_def rd_def nth_append)
  have n: "intlvd_sz (b @ junk) 0 = Some (length b - 4)" "intlvd_sz b 0 = Some (length b - 4)"
    using assms(1) by (auto simp: framed_def intlvd_sz_append)
  have d: "drop 4 (b @ junk) = drop 4 b @ junk" using len by simp
  show ?thesis
    unfolding handle_block_def handle_intlvd_data_def assms(2) rd n d Option.bind.bind_lunit unat
    using rtp by (auto simp: sub handle_rtcp_pkt_def)
qed

lemma handle_block_keeps_last:
  assumes "handle_block b s = Some t"
  shows "last_data t = last_data s"
proof -
  have "Some t = map_option (with_last (last_data s)) (Some t)"
    using handle_block_last[of b "last_data s" s] assms by simp
  then show ?thesis by (metis cli_sess.ext_inject cli_sess.surjective cli_sess.update_convs(4) option.map(2) option.inject)
qed

subsection \<open>The data of last time\<close>

definition pending :: "u8 list \<Rightarrow> last_data \<Rightarrow> bool" where
  "pending p L \<longleftrightarrow> length (last_buf L) = RECV_BUF_SZ \<and> length p \<le> RECV_BUF_SZ \<and>
     last_sz L = of_nat (length p) \<and> take (length p) (last_buf L) = p"

text \<open>The start of a block, not the whole of it.\<close>

definition begun :: "u8 list \<Rightarrow> bool" where
  "begun q \<longleftrightarrow> q = [] \<or> (\<exists>b. framed b \<and> length q < length b \<and> take (length q) b = q)"

lemma begun_length: "begun q \<Longrightarrow> length q < 65540"
  using framed_length by (fastforce simp: begun_def)

lemma pending_put:
  assumes "length (last_buf L) = RECV_BUF_SZ" "take (length p) (last_buf L) = p" "length p + length bs \<le> RECV_BUF_SZ"
    "n = of_nat (length p + length bs)" "last_data s = L"
  shows "\<exists>L'. last_put (length p) bs s = Some (with_last (L'\<lparr>last_sz := last_sz L\<rparr>) s) \<and> pending (p @ bs) (L'\<lparr>last_sz := n\<rparr>)"
  using assms by (intro exI[of _ "L\<lparr>last_buf := overlay (last_buf L) (length p) bs\<rparr>"])
    (auto simp: last_put_def pending_def overlay_def)

lemma unat_len: "n \<le> RECV_BUF_SZ \<Longrightarrow> unat (of_nat n :: u32) = n"
  by (simp add: RECV_BUF_SZ_def unsigned_of_nat take_bit_nat_eq_self)

subsection \<open>The loop over whole blocks\<close>

lemma recv_loop_block:
  assumes "framed b" "n = length r"
  shows "recv_loop on_resp (pre @ b @ r @ post) (length pre) (length b + n) (length pre) s
    = handle_block b s \<bind> recv_loop on_resp ((pre @ b) @ r @ post) (length (pre @ b)) n (length (pre @ b))"
proof -
  have b: "4 \<le> length b" "b ! 0 = 0x24" "intlvd_sz b 0 = Some (length b - 4)" using assms(1) by (auto simp: framed_def)
  have ne: "b \<noteq> []" using b(1) by auto
  have c: "rd (pre @ b @ r @ post) (length pre) = Some 0x24"
    using nth_append_length_plus[of pre "b @ r @ post" 0] b ne by (simp add: nth_append)
  have n: "intlvd_sz (pre @ b @ r @ post) (length pre) = Some (length b - 4)"
    using intlvd_sz_shift[of pre "b @ r @ post" 0] intlvd_sz_append[of 0 b "r @ post"] b by simp
  show ?thesis
    using b(1) ne by (subst recv_loop.simps) (simp add: c n handle_framed[OF assms(1) refl])
qed

lemma begun_head:
  assumes "begun q" "q \<noteq> []"
  shows "q ! 0 = 0x24" "4 \<le> length q \<Longrightarrow> \<exists>b. framed b \<and> length q < length b \<and> take (length q) b = q \<and> intlvd_sz q 0 = Some (length b - 4)"
proof -
  obtain b where b: "framed b" "length q < length b" "take (length q) b = q" using assms by (auto simp: begun_def)
  have "q ! 0 = take (length q) b ! 0" by (simp only: b(3))
  then show "q ! 0 = 0x24" using assms(2) b(1) by (simp add: framed_def)
  assume "4 \<le> length q"
  then have "intlvd_sz (q @ drop (length q) b) 0 = intlvd_sz q 0" by (simp add: intlvd_sz_append)
  moreover have "q @ drop (length q) b = b" using append_take_drop_id[of "length q" b] b(3) by simp
  ultimately show "\<exists>b. framed b \<and> length q < length b \<and> take (length q) b = q \<and> intlvd_sz q 0 = Some (length b - 4)"
    using b by (auto simp: framed_def)
qed

lemma recv_loop_begun:
  assumes "begun q" "pending [] (last_data s)"
  shows "\<exists>L. recv_loop on_resp (pre @ q @ post) (length pre) (length q) (length pre) s = Some (with_last L s) \<and> pending q L"
proof (cases "q = []")
  case True
  then show ?thesis using assms(2) by (intro exI[of _ "last_data s"]) (simp add: recv_loop.simps)
next
  case False
  have c: "rd (pre @ q @ post) (length pre) = Some 0x24"
    using begun_head(1)[OF assms(1) False] False by (simp add: rd_def nth_append)
  have short: "(if length q \<ge> 4 then do { n \<leftarrow> intlvd_sz (pre @ q @ post) (length pre); Some (if length q \<ge> 4 + n then Some n else None) }
      else Some None) = Some None"
    using begun_head(2)[OF assms(1) False] intlvd_sz_shift[of pre "q @ post" 0] intlvd_sz_append[of 0 q post] by auto
  have sl: "slice (pre @ q @ post) (length pre) (length q) = Some q" by simp
  have "length q \<le> RECV_BUF_SZ" using begun_length[OF assms(1)] by (simp add: RECV_BUF_SZ_def)
  then obtain L where L: "last_put 0 q s = Some (with_last (L\<lparr>last_sz := last_sz (last_data s)\<rparr>) s)" "pending q (L\<lparr>last_sz := of_nat (length q)\<rparr>)"
    using pending_put[of "last_data s" "[]" q "of_nat (length q)" s] assms(2) by (auto simp: pending_def)
  have "recv_loop on_resp (pre @ q @ post) (length pre) (length q) (length pre) s
      = Some (set_last_sz (of_nat (length q)) (with_last (L\<lparr>last_sz := last_sz (last_data s)\<rparr>) s))"
    using False by (subst recv_loop.simps) (simp only: c short sl L(1) Option.bind.bind_lunit prod.case option.case simp_thms if_True if_False length_greater_0_conv)
  then show ?thesis using L(2) by (auto simp: set_last_sz_def)
qed

lemma recv_loop_blocks:
  assumes "\<forall>b \<in> set bs. framed b" "begun q" "pending [] (last_data s)" "each handle_block bs s = Some t"
  shows "\<exists>L. recv_loop on_resp (pre @ (concat bs @ q) @ post) (length pre) (length (concat bs @ q)) (length pre) s = Some (with_last L t)
    \<and> pending q L"
  using assms
proof (induction bs arbitrary: pre s)
  case Nil
  then show ?case using recv_loop_begun by auto
next
  case (Cons b bs)
  then obtain s1 where s1: "handle_block b s = Some s1" "each handle_block bs s1 = Some t" by (auto split: bind_splits)
  have "\<exists>L. recv_loop on_resp ((pre @ b) @ (concat bs @ q) @ post) (length (pre @ b)) (length (concat bs @ q)) (length (pre @ b)) s1
      = Some (with_last L t) \<and> pending q L"
    using Cons.prems s1 handle_block_keeps_last[OF s1(1)] by (intro Cons.IH) auto
  then show ?case
    using recv_loop_block[of b _ "concat bs @ q" on_resp pre post s] Cons.prems(1) s1(1) by simp
qed

text \<open>The block that was begun before.\<close>

lemma finish_last_none:
  "pending [] (last_data s) \<Longrightarrow> finish_last on_resp buf nr s = Some (Some 0, s)"
  by (simp add: finish_last_def pending_def)

lemma finish_last_start:
  assumes "framed b" "pending p (last_data s)" "4 \<le> length p" "length p < length b" "take (length p) b = p"
  shows "last_sz (last_data s) \<ge> 4" "rd (last_buf (last_data s)) 0 = Some 0x24"
    "intlvd_sz (last_buf (last_data s)) 0 = Some (length b - 4)"
    "unat (of_nat (length b - 4) + 4 - ucast (last_sz (last_data s)) :: u64) = length b - length p"
proof -
  let ?L = "last_data s"
  have L: "last_buf ?L = p @ drop (length p) (last_buf ?L)" "last_sz ?L = of_nat (length p)" "length p \<le> RECV_BUF_SZ"
    using assms(2) append_take_drop_id[of "length p" "last_buf ?L"] by (simp_all add: pending_def)
  have u: "unat (last_sz ?L) = length p" using L(2,3) unat_len by simp
  then show "last_sz ?L \<ge> 4" using assms(3) by (simp add: word_le_nat_alt)
  have p0: "begun p" "p \<noteq> []" using assms by (auto simp: begun_def)
  have "rd (p @ drop (length p) (last_buf ?L)) 0 = Some 0x24"
    using begun_head(1)[OF p0] p0(2) by (simp add: rd_def nth_append)
  then show "rd (last_buf ?L) 0 = Some 0x24" using L(1) by simp
  have "b = p @ drop (length p) b" using append_take_drop_id[of "length p" b] assms(5) by simp
  then have "intlvd_sz b 0 = intlvd_sz p 0" using intlvd_sz_append[of 0 p] assms(3) by (metis add_0)
  moreover have "intlvd_sz (last_buf ?L) 0 = intlvd_sz p 0" using intlvd_sz_append[of 0 p] assms(3) L(1) by (metis add_0)
  ultimately show "intlvd_sz (last_buf ?L) 0 = Some (length b - 4)" using assms(1) by (simp add: framed_def)
  have b: "4 \<le> length b" "length b < 65540" using assms(1) framed_length by (auto simp: framed_def)
  have "(of_nat (length b - 4) + 4 - ucast (last_sz ?L) :: u64) = of_nat (length b - length p)"
  proof -
    have "(ucast (last_sz ?L) :: u64) = of_nat (length p)"
      using u of_nat_unat[of "last_sz ?L", where ?'a = "64 word"] by simp
    moreover have "(of_nat (length b - 4) + 4 :: u64) = of_nat (length b)" using b by simp
    ultimately show ?thesis using assms(4) by (simp only: of_nat_diff less_imp_le)
  qed
  then show "unat (of_nat (length b - 4) + 4 - ucast (last_sz ?L) :: u64) = length b - length p"
    using b by (simp add: unsigned_of_nat take_bit_nat_eq_self)
qed

lemma finish_last_more:
  assumes "framed b" "pending p (last_data s)" "4 \<le> length p" "length p + length d < length b" "take (length p) b = p"
  shows "\<exists>L. finish_last on_resp (d @ post) (length d) s = Some (None, with_last L s) \<and> pending (p @ d) L"
proof -
  have lt: "length p < length b" using assms(4) by simp
  note start = finish_last_start[OF assms(1,2,3) lt assms(5)]
  have L: "length (last_buf (last_data s)) = RECV_BUF_SZ" "take (length p) (last_buf (last_data s)) = p"
    "last_sz (last_data s) = of_nat (length p)" "unat (last_sz (last_data s)) = length p"
    using assms(2) unat_len by (auto simp: pending_def)
  have fits: "length p + length d \<le> RECV_BUF_SZ" using assms(4) framed_length[OF assms(1)] by (simp add: RECV_BUF_SZ_def)
  obtain M where M: "last_put (length p) d s = Some (with_last (M\<lparr>last_sz := last_sz (last_data s)\<rparr>) s)"
    "pending (p @ d) (M\<lparr>last_sz := of_nat (length p + length d)\<rparr>)"
    using pending_put[OF L(1,2) fits refl refl] by blast
  have "\<not> length b - length p \<le> length d" "length d \<le> length (d @ post)" using assms(4) by simp_all
  then have "finish_last on_resp (d @ post) (length d) s
      = Some (None, set_last_sz (of_nat (length p) + of_nat (length d)) (with_last (M\<lparr>last_sz := last_sz (last_data s)\<rparr>) s))"
    using start M(1) L(3,4) by (simp add: finish_last_def Let_def)
  then show ?thesis using M(2) by (auto simp: set_last_sz_def)
qed

lemma finish_last_whole:
  assumes "framed b" "pending p (last_data s)" "4 \<le> length p" "length p < length b" "b = p @ c" "handle_block b s = Some t"
  shows "\<exists>L. finish_last on_resp (c @ post) (length c + n) s = Some (Some (length c), with_last L t) \<and> pending [] L"
proof -
  have take: "take (length p) b = p" "length b - length p = length c" using assms(5) by simp_all
  note start = finish_last_start[OF assms(1,2,3,4) take(1)]
  have L: "length (last_buf (last_data s)) = RECV_BUF_SZ" "take (length p) (last_buf (last_data s)) = p"
    "last_sz (last_data s) = of_nat (length p)" "unat (last_sz (last_data s)) = length p"
    using assms(2) unat_len by (auto simp: pending_def)
  have fits: "length p + length c \<le> RECV_BUF_SZ" using assms(5) framed_length[OF assms(1)] by (simp add: RECV_BUF_SZ_def)
  obtain M where M: "last_put (length p) c s = Some (with_last (M\<lparr>last_sz := last_sz (last_data s)\<rparr>) s)"
    "pending (p @ c) (M\<lparr>last_sz := of_nat (length p + length c)\<rparr>)"
    using pending_put[OF L(1,2) fits refl refl] by blast
  let ?N = "M\<lparr>last_sz := last_sz (last_data s)\<rparr>"
  have "last_buf ?N = b @ drop (length b) (last_buf M)"
    using M(2) assms(5) append_take_drop_id[of "length b" "last_buf M"] by (simp add: pending_def)
  moreover have "length b - 4 + 4 = length b" using assms(1) by (simp add: framed_def)
  ultimately have "handle_intlvd_data on_resp (last_buf (last_data (with_last ?N s))) (of_nat (length b - 4 + 4)) (with_last ?N s)
      = Some (with_last ?N t)"
    using handle_framed[OF assms(1) refl, of on_resp "drop (length b) (last_buf M)" "with_last ?N s"] assms(6)
    by (simp add: handle_block_last)
  moreover have "slice (c @ post) 0 (length c) = Some c" by simp
  ultimately have "finish_last on_resp (c @ post) (length c + n) s = Some (Some (length c), set_last_sz 0 (with_last ?N t))"
    using start M(1) L(4) by (simp add: finish_last_def Let_def take(2) del: of_nat_add)
  moreover have "pending [] (?N\<lparr>last_sz := 0\<rparr>)" using M(2) by (simp add: pending_def)
  ultimately show ?thesis by (auto simp: set_last_sz_def)
qed

subsection \<open>One call\<close>

lemma recv_blocks:
  assumes "\<forall>b \<in> set bs. framed b" "begun q" "p = [] \<or> 4 \<le> length p" "p @ d = concat bs @ q"
    "bs \<noteq> [] \<longrightarrow> length p < length (hd bs)" "pending p (last_data s)" "d \<noteq> []" "length d \<le> RECV_BUF_SZ"
    "each handle_block bs s = Some t"
  shows "\<exists>L. recv_from_rtsp_sd on_resp d s = Some (0, with_last L t) \<and> pending q L"
proof (cases "p = []")
  case True
  then have "pending [] (last_data s)" "d = concat bs @ q" using assms(4,6) by simp_all
  then show ?thesis
    using recv_loop_blocks[OF assms(1,2) _ assms(9), of on_resp "[]" "replicate (RECV_BUF_SZ - length d) 0"] assms(7)
    by (auto simp: recv_from_rtsp_sd_def Let_def finish_last_none)
next
  case False
  then have p: "4 \<le> length p" using assms(3) by simp
  let ?z = "replicate (RECV_BUF_SZ - length d) (0 :: u8)"
  show ?thesis
  proof (cases bs)
    case Nil
    then obtain b where "framed b" "length p + length d < length b" "take (length p + length d) b = p @ d"
      using assms(2,4) False by (auto simp: begun_def)
    moreover then have "take (length p) b = p" using take_take[of "length p" "length p + length d" b] by simp
    ultimately show ?thesis
      using finish_last_more[of b p s d on_resp ?z] assms(4,6,7,9) p Nil by (auto simp: recv_from_rtsp_sd_def Let_def)
  next
    case (Cons b bs')
    then have lt: "length p < length b" and b: "framed b" using assms(1,5) by simp_all
    have "take (length p) (p @ d) = take (length p) (b @ concat bs' @ q)" using assms(4) Cons by simp
    then have "p = take (length p) b" using lt by simp
    then obtain c where c: "b = p @ c" using append_take_drop_id[of "length p" b] by metis
    then have d: "d = c @ concat bs' @ q" using assms(4) Cons by simp
    obtain s1 where s1: "handle_block b s = Some s1" "each handle_block bs' s1 = Some t" using assms(9) Cons by (auto split: bind_splits)
    obtain L where L: "finish_last on_resp (c @ (concat bs' @ q) @ ?z) (length c + length (concat bs' @ q)) s
        = Some (Some (length c), with_last L s1)" "pending [] L"
      using finish_last_whole[OF b assms(6) p lt c s1(1)] by blast
    have "each handle_block bs' (with_last L s1) = Some (with_last L t)" using s1(2) by (simp add: each_block_last)
    then obtain M where "recv_loop on_resp (c @ (concat bs' @ q) @ ?z) (length c) (length (concat bs' @ q)) (length c) (with_last L s1)
        = Some (with_last M (with_last L t)) \<and> pending q M"
      using recv_loop_blocks[OF _ assms(2), of bs' "with_last L s1" "with_last L t" on_resp c ?z] L(2) assms(1) Cons by auto
    then show ?thesis using L(1) assms(7) by (auto simp: recv_from_rtsp_sd_def Let_def d)
  qed
qed

subsection \<open>The stream\<close>

text \<open>Does position \<open>n\<close> of the stream lie inside the four bytes of a header?\<close>

fun header_cut :: "u8 list list \<Rightarrow> nat \<Rightarrow> bool" where
  "header_cut [] n = False"
| "header_cut (b # bs) n = (if n < length b then 0 < n \<and> n < 4 else header_cut bs (n - length b))"

lemma split_blocks:
  assumes "n \<le> length (concat bs)" "\<forall>b \<in> set bs. framed b"
  shows "\<exists>us vs q. bs = us @ vs \<and> take n (concat bs) = concat us @ q \<and> begun q \<and> (vs \<noteq> [] \<longrightarrow> length q < length (hd vs)) \<and>
    (\<forall>k. header_cut bs (n + k) = header_cut vs (length q + k)) \<and> (header_cut bs n = (0 < length q \<and> length q < 4))"
  using assms
proof (induction bs arbitrary: n)
  case Nil
  then show ?case by (intro exI[of _ "[]"]) (simp add: begun_def)
next
  case (Cons b bs)
  show ?case
  proof (cases "n < length b")
    case True
    then show ?thesis using Cons.prems
      by (intro exI[of _ "[]"] exI[of _ "b # bs"] exI[of _ "take n b"]) (auto simp: begun_def min_def)
  next
    case False
    have n: "n - length b \<le> length (concat bs)" and fr: "\<forall>b \<in> set bs. framed b" using Cons.prems by simp_all
    obtain us vs q where *: "bs = us @ vs" "take (n - length b) (concat bs) = concat us @ q" "begun q"
      "vs \<noteq> [] \<longrightarrow> length q < length (hd vs)" "\<forall>k. header_cut bs (n - length b + k) = header_cut vs (length q + k)"
      "header_cut bs (n - length b) = (0 < length q \<and> length q < 4)"
      using Cons.IH[OF n fr] by - (elim exE conjE, rule that, assumption+)
    have "header_cut (b # bs) (n + k) = header_cut bs (n - length b + k)" for k
    proof -
      have "n + k - length b = n - length b + k" "\<not> n + k < length b" using False by linarith+
      then show ?thesis by (simp only: header_cut.simps if_False)
    qed
    then have cut: "\<forall>k. header_cut (b # bs) (n + k) = header_cut vs (length q + k)" by (simp only: *(5)[rule_format] simp_thms)
    have "header_cut (b # bs) n = (0 < length q \<and> length q < 4)" "take n (concat (b # bs)) = concat (b # us) @ q"
      using False *(2,6) by simp_all
    then show ?thesis
      using *(1,3,4) cut by (intro exI[of _ "b # us"] exI[of _ vs] exI[of _ q] conjI) simp_all
  qed
qed

definition recv_chunk :: "'z resp_handler \<Rightarrow> u8 list \<Rightarrow> 'z cli_sess_scheme \<Rightarrow> 'z cli_sess_scheme option" where
  "recv_chunk on_resp d s = do { (r, s) \<leftarrow> recv_from_rtsp_sd on_resp d s; Some s }"

lemma recv_stream:
  assumes "\<forall>b \<in> set bs. framed b" "p = [] \<or> 4 \<le> length p" "p @ concat cs = concat bs"
    "bs \<noteq> [] \<longrightarrow> length p < length (hd bs)" "pending p (last_data s)" "\<forall>d \<in> set cs. d \<noteq> [] \<and> length d \<le> RECV_BUF_SZ"
    "\<forall>k. k < length cs \<longrightarrow> \<not> header_cut bs (length p + length (concat (take k cs)))"
    "each handle_block bs s = Some t"
  shows "\<exists>L. each (recv_chunk on_resp) cs s = Some (with_last L t) \<and> pending [] L"
  using assms
proof (induction cs arbitrary: p bs s t)
  case Nil
  then have "bs = []" by (cases bs) (auto simp: framed_def)
  then show ?case using Nil by (intro exI[of _ "last_data t"]) auto
next
  case (Cons d cs)
  let ?n = "length p + length d"
  have n: "take ?n (concat bs) = p @ d" using Cons.prems(3)[symmetric] by simp
  have le: "?n \<le> length (concat bs)" using arg_cong[OF Cons.prems(3), of length] by simp
  obtain us vs q where *: "bs = us @ vs" "p @ d = concat us @ q" "begun q" "vs \<noteq> [] \<longrightarrow> length q < length (hd vs)"
    "\<forall>k. header_cut bs (?n + k) = header_cut vs (length q + k)" "header_cut bs ?n = (0 < length q \<and> length q < 4)"
    using split_blocks[OF le Cons.prems(1)] unfolding n by - (elim exE conjE, rule that, assumption+)
  obtain u where u: "each handle_block us s = Some u" "each handle_block vs u = Some t"
    using Cons.prems(8) *(1) by (auto simp: each_append split: bind_splits)
  obtain L where L: "recv_from_rtsp_sd on_resp d s = Some (0, with_last L u)" "pending q L"
    using recv_blocks[OF _ *(3) Cons.prems(2) *(2) _ Cons.prems(5) _ _ u(1), of on_resp] Cons.prems(1,4,6) *(1) by (cases us) auto
  have q: "q = [] \<or> 4 \<le> length q"
  proof (cases cs)
    case Nil
    then have "concat vs = q" using *(1,2) Cons.prems(3) by simp
    then have "vs = []" using *(4) by (cases vs) auto
    then show ?thesis using \<open>concat vs = q\<close> by simp
  next
    case (Cons d' cs')
    then have "\<not> header_cut bs ?n" using Cons.prems(7) by (auto dest!: spec[of _ 1])
    then show ?thesis using *(6) by auto
  qed
  have "(p @ d) @ concat cs = concat us @ concat vs" using Cons.prems(3) *(1) by simp
  then have rest: "q @ concat cs = concat vs" unfolding *(2) by simp
  have cuts: "\<forall>k. k < length cs \<longrightarrow> \<not> header_cut vs (length q + length (concat (take k cs)))"
  proof (intro allI impI)
    fix k assume "k < length cs"
    then show "\<not> header_cut vs (length q + length (concat (take k cs)))"
      using Cons.prems(7)[rule_format, of "Suc k"] *(5)[rule_format, of "length (concat (take k cs))"] by (simp add: add.assoc)
  qed
  have run: "each handle_block vs (with_last L u) = Some (with_last L t)" using u(2) by (simp add: each_block_last)
  have fr: "\<forall>b \<in> set vs. framed b" and pend: "pending q (last_data (with_last L u))" and sz: "\<forall>d \<in> set cs. d \<noteq> [] \<and> length d \<le> RECV_BUF_SZ"
    using Cons.prems(1,6) *(1) L(2) by simp_all
  have "\<exists>M. each (recv_chunk on_resp) cs (with_last L u) = Some (with_last M (with_last L t)) \<and> pending [] M"
    by (rule Cons.IH[OF fr q rest *(4) pend sz cuts run])
  moreover have "recv_chunk on_resp d s = Some (with_last L u)" using L(1) by (simp add: recv_chunk_def)
  ultimately show ?case by auto
qed

subsection \<open>A frame over the stream\<close>







text \<open>How TCP may cut a sequence of blocks: into any non-empty pieces, but not inside a header.\<close>

definition segments :: "u8 list list \<Rightarrow> u8 list list \<Rightarrow> bool" where
  "segments bs cs \<longleftrightarrow> concat cs = concat bs \<and> (\<forall>d \<in> set cs. d \<noteq> [] \<and> length d \<le> RECV_BUF_SZ) \<and>
     (\<forall>k. k < length cs \<longrightarrow> \<not> header_cut bs (length (concat (take k cs))))"


text \<open>C15: The stream of the RTSP socket. Whatever pieces TCP delivers a sequence of interleaved blocks in, as long as
  it does not cut one of the four-byte headers, the client handles exactly these blocks, in order and once each:
  the calls of \<open>recv_from_rtsp_sd\<close> have the effect of \<open>handle_intlvd_data\<close> on one block after the other, never run
  out of a buffer, and leave no data of last time. This holds for every handler of responses.\<close>
theorem client_stream:
  assumes "\<forall>b \<in> set bs. framed b" "segments bs cs" "pending [] (last_data s)" "each handle_block bs s = Some t"
  shows "\<exists>L. each (recv_chunk on_resp) cs s = Some (with_last L t) \<and> pending [] L"
proof (rule recv_stream[where p = "[]"])
  show "bs \<noteq> [] \<longrightarrow> length [] < length (hd bs)" using assms(1) by (cases bs) (auto simp: framed_def)
qed (use assms in \<open>auto simp: segments_def\<close>)





subsection \<open>A header that is cut\<close>

lemma recv_loop_text:
  assumes "0x24 \<notin> set (take left (drop ptr buf))" "ptr + left \<le> length buf" "0 < left"
  shows "recv_loop on_resp buf ptr left new s = end_text on_resp buf new (ptr + left) s"
  using assms
proof (induction left arbitrary: ptr)
  case (Suc n)
  have c: "rd buf ptr = Some (buf ! ptr)" "take (Suc n) (drop ptr buf) = buf ! ptr # take n (drop (Suc ptr) buf)"
    using Suc.prems(2) by (simp_all add: Cons_nth_drop_Suc[symmetric])
  then have no: "buf ! ptr \<noteq> 0x24" "0x24 \<notin> set (take n (drop (Suc ptr) buf))" using Suc.prems(1) by auto
  show ?case
  proof (cases "n = 0")
    case True
    then show ?thesis using c(1) no(1) by (subst recv_loop.simps) simp
  next
    case False
    then have "recv_loop on_resp buf (Suc ptr) n new s = end_text on_resp buf new (Suc ptr + n) s"
      using Suc.IH[of "Suc ptr"] no(2) Suc.prems(2) by simp
    then show ?thesis using c(1) no(1) False by (subst recv_loop.simps) simp
  qed
qed simp

text \<open>The end of the received data in a text that is not complete: it counts twice.\<close>

lemma end_text_incomplete:
  assumes "pending p (last_data s)" "length p + length r \<le> 2000" "4 \<le> length p + length r" "r \<noteq> []"
    "drop (length (p @ r) - 2) (p @ r) \<noteq> [0x0D, 0x0A]"
  shows "\<exists>L. end_text on_resp (r @ post) 0 (length r) s = Some (with_last L s) \<and> length (last_buf L) = RECV_BUF_SZ \<and>
    take (length (p @ r)) (last_buf L) = p @ r \<and> last_sz L = of_nat (length p + 2 * length r)"
proof -
  let ?n = "length p + length r"
  have L: "length (last_buf (last_data s)) = RECV_BUF_SZ" "take (length p) (last_buf (last_data s)) = p"
    "last_sz (last_data s) = of_nat (length p)" "unat (last_sz (last_data s)) = length p"
    using assms(1) unat_len by (auto simp: pending_def)
  have fits: "?n \<le> RECV_BUF_SZ" using assms(2) by (simp add: RECV_BUF_SZ_def)
  obtain M where M: "last_put (length p) r s = Some (with_last (M\<lparr>last_sz := last_sz (last_data s)\<rparr>) s)"
    "pending (p @ r) (M\<lparr>last_sz := of_nat ?n\<rparr>)"
    using pending_put[OF L(1,2) fits refl refl] by blast
  then have buf: "length (last_buf M) = RECV_BUF_SZ" "take ?n (last_buf M) = p @ r" by (simp_all add: pending_def)
  have w: "unat (of_nat ?n :: u32) = ?n" using fits by (rule unat_len)
  then have w2: "unat (of_nat ?n - 2 :: u32) = ?n - 2" "unat (of_nat ?n - 1 :: u32) = ?n - 1" "\<not> (of_nat ?n :: u32) < 4"
    using assms(3) by (simp_all add: unat_sub word_le_nat_alt word_less_nat_alt del: of_nat_add)
  have at: "rd (last_buf M) i = Some ((p @ r) ! i)" if "i < ?n" for i
    using that buf fits nth_take[OF that, of "last_buf M"] by (simp add: rd_def)
  have two: "drop (?n - 2) (p @ r) = [(p @ r) ! (?n - 2), (p @ r) ! (?n - 1)]"
    using assms(3) Cons_nth_drop_Suc[of "?n - 2" "p @ r"] Cons_nth_drop_Suc[of "?n - 1" "p @ r"] by (simp add: Suc_diff_Suc numeral_2_eq_2)
  have "rtsp_msg_complete (last_buf M) (of_nat ?n) = Some False"
    using assms(5) at[of "?n - 2"] at[of "?n - 1"] assms(3) two w2
    by (auto simp: rtsp_msg_complete_def simp del: of_nat_add)
  moreover have "slice (r @ post) 0 (length r) = Some r" by simp
  ultimately have "end_text on_resp (r @ post) 0 (length r) s
      = Some (with_last (M\<lparr>last_sz := of_nat (length p) + of_nat (length r) + of_nat (length r)\<rparr>) s)"
    using M(1) L(3,4) by (simp add: end_text_def set_last_sz_def Let_def)
  then show ?thesis using buf by (intro exI[of _ "M\<lparr>last_sz := of_nat (length p) + of_nat (length r) + of_nat (length r)\<rparr>"]) simp
qed







text \<open>A response in two pieces: between them the handler sees as many old bytes as the first piece has.\<close>

lemma wr_at: "length p = k \<Longrightarrow> wr (p @ y # ys) k x = Some (p @ x # ys)"
  by (auto simp: wr_def)

lemma end_text_complete:
  assumes "length (last_buf (last_data s)) = RECV_BUF_SZ" "last_sz (last_data s) = of_nat z" "z + length m < RECV_BUF_SZ"
    "m = body @ [0x0D, 0x0A]" "2 \<le> z" "last_buf (last_data s) ! 0 \<noteq> 0x24"
  shows "\<exists>L. end_text on_resp (m @ post) 0 (length m) s
    = (on_resp (take z (last_buf (last_data s)) @ m @ 0 # drop (Suc (z + length m)) (last_buf (last_data s)))
         (of_nat (z + length m)) (with_last L s) \<bind> (\<lambda>t. Some (set_last_sz 0 t)))"
proof -
  let ?L = "last_data s" and ?n = "z + length m"
  let ?buf = "overlay (last_buf ?L) z m"
  have z: "unat (last_sz ?L) = z" "unat (of_nat ?n :: u32) = ?n" using assms(2,3) unat_len[of z] unat_len[of ?n] by simp_all
  have put: "last_put z m s = Some (with_last (?L\<lparr>last_buf := ?buf\<rparr>) s)" using assms(1,3) by (simp add: last_put_def)
  have two: "2 \<le> length m" using assms(4) by simp
  have w2: "unat (of_nat ?n - 2 :: u32) = ?n - 2" "unat (of_nat ?n - 1 :: u32) = ?n - 1" "\<not> (of_nat ?n :: u32) < 4"
    using two assms(5) z(2) by (simp_all add: unat_sub word_le_nat_alt word_less_nat_alt del: of_nat_add)
  have "?buf ! (?n - 2) = 0x0D" "?buf ! (?n - 1) = 0x0A"
    using assms(1,3,4) by (simp_all add: nth_overlay nth_append)
  then have complete: "rtsp_msg_complete ?buf (of_nat ?n) = Some True"
    using assms(1,3-5) w2 by (auto simp: rtsp_msg_complete_def simp del: of_nat_add)
  let ?text = "take z (last_buf ?L) @ m @ 0 # drop (Suc ?n) (last_buf ?L)"
  have "wr ?buf ?n 0 = Some ?text"
  proof -
    have "?buf = (take z (last_buf ?L) @ m) @ last_buf ?L ! ?n # drop (Suc ?n) (last_buf ?L)"
      using assms(1,3) Cons_nth_drop_Suc[of ?n "last_buf ?L"] by (simp add: overlay_def)
    moreover have "length (take z (last_buf ?L) @ m) = ?n" using assms(1,3) by simp
    ultimately show ?thesis
      using wr_at[of "take z (last_buf ?L) @ m" ?n "last_buf ?L ! ?n" "drop (Suc ?n) (last_buf ?L)" 0]
      by (simp only: append_assoc append_Cons append_Nil)
  qed
  moreover have "?text ! 0 \<noteq> 0x24" using assms(1,3,5,6) by (simp add: nth_append)
  then have "handle_intlvd_data on_resp ?text sz t = on_resp ?text sz t" for sz t
    by (simp add: handle_intlvd_data_def rd_def)
  moreover have "slice (m @ post) 0 (length m) = Some m" by simp
  ultimately show ?thesis
    using put complete z assms(2) by (intro exI[of _ "?L\<lparr>last_sz := of_nat ?n, last_buf := ?text\<rparr>"])
      (simp add: end_text_def last_end_def set_last_sz_def Let_def)
qed

text \<open>A response that arrives in two pieces is not put together. When the first piece does not
  end in a line break, \<open>lastp->sz\<close> counts it twice, so that the handler of responses gets the first piece,
  as many stale bytes of the buffer, and the second piece.\<close>
theorem client_response_split:
  assumes "0x24 \<notin> set (m1 @ m2)" "4 \<le> length m1" "length (m1 @ m2) \<le> 2000" "drop (length m1 - 2) m1 \<noteq> [0x0D, 0x0A]"
    "m2 = body @ [0x0D, 0x0A]" "pending [] (last_data s)"
  shows "\<exists>L gap rest. length gap = length m1 \<and> each (recv_chunk on_resp) [m1, m2] s
    = (on_resp (m1 @ gap @ m2 @ 0 # rest) (of_nat (2 * length m1 + length m2)) (with_last L s) \<bind> (\<lambda>t. Some (set_last_sz 0 t)))"
proof -
  let ?z1 = "replicate (RECV_BUF_SZ - length m1) (0 :: u8)" and ?z2 = "replicate (RECV_BUF_SZ - length m2) (0 :: u8)"
  have ne: "m1 \<noteq> []" "m2 \<noteq> []" "length m1 \<le> 2000" using assms(2,3,5) by auto
  have no: "0x24 \<notin> set m1" "0x24 \<notin> set m2" using assms(1) by simp_all
  obtain K where K: "end_text on_resp (m1 @ ?z1) 0 (length m1) s = Some (with_last K s)" "length (last_buf K) = RECV_BUF_SZ"
    "take (length m1) (last_buf K) = m1" "last_sz K = of_nat (2 * length m1)"
    using end_text_incomplete[of "[]" s m1 on_resp ?z1] assms(2,4,6) ne by auto
  have "recv_loop on_resp (m1 @ ?z1) 0 (length m1) 0 s = end_text on_resp (m1 @ ?z1) 0 (length m1) s"
    using recv_loop_text[of "length m1" 0 "m1 @ ?z1" on_resp 0 s] no(1) ne(1) by simp
  then have first: "recv_chunk on_resp m1 s = Some (with_last K s)"
    using K(1) ne(1) assms(6) by (simp add: recv_chunk_def recv_from_rtsp_sd_def Let_def finish_last_none)
  let ?s = "with_last K s"
  have k0: "last_buf K ! 0 = m1 ! 0" "last_buf K ! 0 \<noteq> 0x24"
    using K(3) ne(1) no(1) nth_take[of 0 "length m1" "last_buf K"] by (auto simp: in_set_conv_nth)
  have fin: "finish_last on_resp (m2 @ ?z2) (length m2) ?s = Some (Some 0, ?s)"
    using k0(2) K(2) unat_len[of "2 * length m1"] by (auto simp: finish_last_def Let_def rd_def RECV_BUF_SZ_def)
  have loop: "recv_loop on_resp (m2 @ ?z2) 0 (length m2) 0 ?s = end_text on_resp (m2 @ ?z2) 0 (length m2) ?s"
    using recv_loop_text[of "length m2" 0 "m2 @ ?z2" on_resp 0 ?s] no(2) ne(2) by simp
  obtain L where L: "end_text on_resp (m2 @ ?z2) 0 (length m2) ?s
      = (on_resp (take (2 * length m1) (last_buf K) @ m2 @ 0 # drop (Suc (2 * length m1 + length m2)) (last_buf K))
           (of_nat (2 * length m1 + length m2)) (with_last L ?s) \<bind> (\<lambda>t. Some (set_last_sz 0 t)))"
    using end_text_complete[of ?s "2 * length m1" m2 body on_resp ?z2] K assms(2,3,5) k0(2) by (auto simp: RECV_BUF_SZ_def)
  define gap where "gap = take (length m1) (drop (length m1) (last_buf K))"
  have "length gap = length m1" "take (2 * length m1) (last_buf K) = m1 @ gap"
    using K(2,3) ne(3) take_add[of "length m1" "length m1" "last_buf K"] by (simp_all add: gap_def RECV_BUF_SZ_def mult_2)
  moreover have "recv_chunk on_resp m2 ?s = end_text on_resp (m2 @ ?z2) 0 (length m2) ?s"
    using fin loop ne(2) by (simp add: recv_chunk_def recv_from_rtsp_sd_def Let_def split: bind_splits)
  ultimately show ?thesis using first L
    by (intro exI[of _ L] exI[of _ gap] exI[of _ "drop (Suc (2 * length m1 + length m2)) (last_buf K)"]) simp
qed

subsection \<open>Witnesses\<close>

definition cli_1 :: cli_sess where
  "cli_1 = \<lparr>frm_hdr_sz = 2, cli_frm = \<lparr>cf_buf = replicate 64 0, cf_sz = 0, cf_type = FRM_TYPE_UNSET\<rparr>, stored = [],
     last_data = \<lparr>last_buf = replicate RECV_BUF_SZ 0, last_sz = 0\<rparr>\<rparr>"

lemma cli_1: "frm_ok cli_1" "cf_sz (cli_frm cli_1) = 0" "space cli_1 = 62" "pending [] (last_data cli_1)" "stored cli_1 = []"
  "frm_hdr_sz cli_1 = 2"
  by (simp_all add: cli_1_def frm_ok_def space_def pending_def)



definition block_1 :: "u8 list" where
  "block_1 = [0x24, 0, 0, 14, 0x80, 0xE0, 0, 1, 0, 0, 0, 0, 0, 0, 0, 0, 0x65, 5]"

lemma block_1: "framed block_1" "length block_1 = 18"
  by (simp_all add: block_1_def framed_def rtp_sized_def intlvd_sz_def htons_def rd_def)


lemma client_stream_witness:
  "\<exists>L t f. each (recv_chunk (\<lambda>_ _ c. Some c)) [take 9 block_1, drop 9 block_1 @ take 4 block_1, drop 4 block_1] cli_1 = Some (with_last L t) \<and>
    length (stored t) = 2"
proof -
  have "\<exists>t. each handle_block [block_1, block_1] cli_1 = Some t \<and> length (stored t) = 2"
    by (simp add: block_1_def cli_1_def handle_block_def handle_intlvd_data_def intlvd_sz_def htons_def handle_rtp_pkt_def Let_def
        frm_append_def store_frm_def memcpy_def slice_def rd_def)
  then obtain t where t: "each handle_block [block_1, block_1] cli_1 = Some t" "length (stored t) = 2" by blast
  have "\<not> header_cut [block_1, block_1] (length (concat (take k [take 9 block_1, drop 9 block_1 @ take 4 block_1, drop 4 block_1])))"
    if "k < 3" for k
  proof -
    have "k = 0 \<or> k = 1 \<or> k = 2" using that by linarith
    then show ?thesis by (auto simp: block_1(2))
  qed
  then have seg: "segments [block_1, block_1] [take 9 block_1, drop 9 block_1 @ take 4 block_1, drop 4 block_1]"
    by (simp add: segments_def block_1_def RECV_BUF_SZ_def)
  have "\<forall>b \<in> set [block_1, block_1]. framed b" using block_1(1) by simp
  from client_stream[OF this seg cli_1(4) t(1)] show ?thesis using t(2) by blast
qed

end
